(* ===== verification/Prelude.thy ===== *)
theory Prelude
  imports Main "HOL-Library.Word"
begin

text \<open>
  Shared vocabulary of the development: the machine integer types of the source, the
  generic lemmas about words, ring indices and lists that several components use, and the
  interfaces (locales) through which components rely on one another.  Every locale is
  interpreted on the definitions of the component that provides it, in that component's theory.
\<close>

section \<open>Machine integers\<close>

type_synonym u8 = "8 word"
type_synonym u32 = "32 word"
type_synonym i32 = "32 word"
type_synonym u64 = "64 word"

named_theorems word_nat "translation of word operations that do not wrap into nat"
named_theorems ring "ring-buffer index arithmetic"

lemma unat_add_one_nowrap [word_nat]:
  fixes w :: "'a::len word"
  assumes "unat w + 1 < 2 ^ LENGTH('a)"
  shows "unat (w + 1) = unat w + 1"
  using assms by (simp add: unat_add_lem [THEN iffD1])

lemma unat_sub_le [word_nat]:
  fixes a b :: "'a::len word"
  assumes "unat b \<le> unat a"
  shows "unat (a - b) = unat a - unat b"
  using assms by (simp add: unat_sub word_le_nat_alt)

lemma word_mod_by_div:
  fixes n p :: "'a::len word"
  shows "n - (n div p) * p = n mod p"
  by (simp add: minus_div_mult_eq_mod)

lemma unat_inject_iff: "(a = b) = (unat a = unat b)" for a b :: "'a::len word"
  by (simp add: word_unat_eq_iff)

lemma unat_of_nat_less [word_nat]: "n < 2 ^ LENGTH('a) \<Longrightarrow> unat (of_nat n :: 'a::len word) = n"
  by (simp add: unat_of_nat take_bit_nat_eq_self)

section \<open>Ring indices\<close>

lemma ring_distinct [ring]:
  fixes i j n :: nat
  assumes "i mod n = j mod n" "i \<le> j" "j < i + n"
  shows "i = j"
proof -
  have "(j - i) mod n = 0"
    using assms(1,2) by (metis mod_eq_dvd_iff_nat dvd_imp_mod_0)
  moreover have "j - i < n" using assms(2,3) by linarith
  ultimately show ?thesis using assms(2) by simp
qed

lemma ring_distinct_window [ring]:
  fixes i j n lo :: nat
  assumes "i mod n = j mod n" "lo \<le> i" "i < lo + n" "lo \<le> j" "j < lo + n"
  shows "i = j"
  using ring_distinct [of i n j] ring_distinct [of j n i] assms by (cases "i \<le> j") auto

lemma ring_next_ne [ring]:
  fixes h t n :: nat
  assumes "h \<le> t" "t \<le> h + n" "t mod n \<noteq> h mod n"
  shows "t < h + n"
  using assms by (metis le_neq_implies_less mod_add_self2)

lemma map_upt_cong:
  assumes "\<And>i. a \<le> i \<Longrightarrow> i < b \<Longrightarrow> f i = g i"
  shows "map f [a..<b] = map g [a..<b]"
  using assms by simp

section \<open>Sums over the threads of a system\<close>

text \<open>What changes when one entry of a list of threads is replaced.\<close>

lemma sum_list_change:
  fixes f :: "'b \<Rightarrow> 'c :: comm_monoid_add"
  assumes "i < length xs"
  shows "sum_list (map f (xs[i := y])) + f (xs ! i) = sum_list (map f xs) + f y"
  using assms by (induction xs arbitrary: i) (auto split: nat.split simp: ac_simps)

lemma balance:
  fixes x :: "'c :: cancel_comm_monoid_add"
  assumes "x' + w = x + u" "y' + u = y + w" shows "x' + y' = x + y"
proof -
  have "(x' + y') + (w + u) = (x' + w) + (y' + u)" by (simp only: ac_simps)
  also have "\<dots> = (x + u) + (y + w)" by (simp only: assms)
  also have "\<dots> = (x + y) + (w + u)" by (simp only: ac_simps)
  finally show ?thesis by (rule add_right_imp_eq)
qed

lemma in_set_update_other: "x \<in> set xs \<Longrightarrow> x \<noteq> xs ! i \<Longrightarrow> x \<in> set (xs[i := y])"
  by (metis in_set_conv_nth length_list_update nth_list_update_neq)

lemma two_le_sum_list:
  fixes f :: "'b \<Rightarrow> nat"
  assumes "i < length xs" "j < length xs" "i \<noteq> j"
  shows "f (xs ! i) + f (xs ! j) \<le> sum_list (map f xs)"
  using assms
proof (induction xs arbitrary: i j)
  case (Cons x xs)
  have m: "f (xs ! k) \<le> sum_list (map f xs)" if "k < length xs" for k
    using that by (simp add: member_le_sum_list)
  show ?case using Cons m by (cases i; cases j) (auto intro: add_mono trans_le_add2)
qed simp

section \<open>The queue interface\<close>

text \<open>
  A first-in first-out queue.  \<open>invar n q\<close>: the representation is well formed and at
  least \<open>n\<close> more enqueues fit in its 64-bit counters.  \<open>items q\<close> is the abstract content, oldest
  first.  \<open>enq\<close> reports whether the element was accepted, \<open>deq\<close> returns the oldest one.
\<close>

datatype 'a queue_op = OpEnq 'a | OpDeq

primrec queue_run ::
  "('a \<Rightarrow> 'q \<Rightarrow> bool \<times> 'q) \<Rightarrow> ('q \<Rightarrow> 'a option \<times> 'q) \<Rightarrow> 'a queue_op list \<Rightarrow> 'q
    \<Rightarrow> 'a list \<times> 'a list \<times> 'q" where
  "queue_run enq deq [] q = ([], [], q)"
| "queue_run enq deq (c # cs) q =
    (case c of
       OpEnq x \<Rightarrow>
         (let (ok, q1) = enq x q; (ins, outs, q2) = queue_run enq deq cs q1
          in (if ok then x # ins else ins, outs, q2))
     | OpDeq \<Rightarrow>
         (let (r, q1) = deq q; (ins, outs, q2) = queue_run enq deq cs q1
          in (ins, (case r of None \<Rightarrow> outs | Some y \<Rightarrow> y # outs), q2)))"

locale fifo =
  fixes invar :: "nat \<Rightarrow> 'q \<Rightarrow> bool"
    and items :: "'q \<Rightarrow> 'a list"
    and full :: "'q \<Rightarrow> bool"
    and enq :: "'a \<Rightarrow> 'q \<Rightarrow> bool \<times> 'q"
    and deq :: "'q \<Rightarrow> 'a option \<times> 'q"
  assumes enq_accept: "\<lbrakk>invar (Suc n) q; \<not> full q\<rbrakk> \<Longrightarrow>
      fst (enq x q) \<and> items (snd (enq x q)) = items q @ [x]"
    and enq_refuse: "\<lbrakk>invar (Suc n) q; full q\<rbrakk> \<Longrightarrow> enq x q = (False, q)"
    and enq_invar: "invar (Suc n) q \<Longrightarrow> invar n (snd (enq x q))"
    and deq_empty: "\<lbrakk>invar n q; items q = []\<rbrakk> \<Longrightarrow> deq q = (None, q)"
    and deq_item: "\<lbrakk>invar n q; items q = y # ys\<rbrakk> \<Longrightarrow>
      fst (deq q) = Some y \<and> items (snd (deq q)) = ys"
    and deq_invar: "invar n q \<Longrightarrow> invar n (snd (deq q))"
    and invar_mono: "invar (Suc n) q \<Longrightarrow> invar n q"
begin

lemma enq_cases:
  assumes "invar (Suc n) q"
  obtains (refused) "full q" "enq x q = (False, q)" |
          (accepted) q' where "\<not> full q" "enq x q = (True, q')" "items q' = items q @ [x]" "invar n q'"
  using assms enq_accept [of n q x] enq_refuse [of n q x] enq_invar [of n q x]
  by (cases "enq x q"; cases "full q") auto

lemma deq_cases:
  assumes "invar n q"
  obtains (empty) "items q = []" "deq q = (None, q)" |
          (item) y q' where "deq q = (Some y, q')" "items q = y # items q'" "invar n q'"
  using assms deq_empty [of n q] deq_item [of n q] deq_invar [of n q]
  by (cases "deq q"; cases "items q") auto

text \<open>Whatever mix of operations is run: what was inside plus what was accepted is, in the
  same order, what was delivered plus what is still inside.\<close>

lemma run_fifo:
  assumes "invar (length cs) q" "queue_run enq deq cs q = (ins, outs, q')"
  shows "items q @ ins = outs @ items q' \<and> invar 0 q'"
  using assms
proof (induction cs arbitrary: q ins outs)
  case Nil
  then show ?case by simp
next
  case (Cons c cs)
  show ?case
  proof (cases c)
    case (OpEnq x)
    obtain ins1 outs1 q1 where r: "queue_run enq deq cs (snd (enq x q)) = (ins1, outs1, q1)"
      by (metis prod_cases3)
    have inv: "invar (Suc (length cs)) q" using Cons.prems(1) by simp
    then show ?thesis
    proof (cases rule: enq_cases [where x = x])
      case refused
      then show ?thesis
        using Cons.IH [of q ins1 outs1] Cons.prems(2) r inv invar_mono OpEnq by simp
    next
      case (accepted q2)
      then show ?thesis
        using Cons.IH [of q2 ins1 outs1] Cons.prems(2) r OpEnq by auto
    qed
  next
    case OpDeq
    obtain ins1 outs1 q1 where r: "queue_run enq deq cs (snd (deq q)) = (ins1, outs1, q1)"
      by (metis prod_cases3)
    have inv: "invar (length cs) q" using Cons.prems(1) invar_mono by simp
    then show ?thesis
    proof (cases rule: deq_cases)
      case empty
      then show ?thesis using Cons.IH [of q ins1 outs1] Cons.prems(2) r inv OpDeq by simp
    next
      case (item y q2)
      then show ?thesis using Cons.IH [of q2 ins1 outs1] Cons.prems(2) r OpDeq by auto
    qed
  qed
qed

end

section \<open>The map interface\<close>

text \<open>
  A finite map filled by insertions and read by lookups: the contract of the hash map the
  framework keeps its per-channel tables in.
\<close>

locale map_store =
  fixes invar :: "'m \<Rightarrow> bool"
    and lookup :: "'m \<Rightarrow> 'k \<Rightarrow> 'v option"
    and insert :: "'k \<Rightarrow> 'v \<Rightarrow> 'm \<Rightarrow> 'm"
  assumes lookup_insert: "invar m \<Longrightarrow> lookup (insert k v m) = (lookup m)(k \<mapsto> v)"
    and insert_invar: "invar m \<Longrightarrow> invar (insert k v m)"
begin

lemma lookup_insert_same: "invar m \<Longrightarrow> lookup (insert k v m) k = Some v"
  by (simp add: lookup_insert)

lemma lookup_insert_other: "invar m \<Longrightarrow> k \<noteq> k' \<Longrightarrow> lookup (insert k v m) k' = lookup m k'"
  by (simp add: lookup_insert)

lemma fold_insert:
  "invar m \<Longrightarrow> invar (fold (\<lambda>(k, v). insert k v) kvs m) \<and>
     lookup (fold (\<lambda>(k, v). insert k v) kvs m) = lookup m ++ map_of (rev kvs)"
proof (induction kvs arbitrary: m)
  case Nil
  then show ?case by simp
next
  case (Cons kv kvs)
  obtain k v where [simp]: "kv = (k, v)" by (cases kv)
  have "invar (insert k v m)" using Cons.prems by (rule insert_invar)
  then show ?case
    using Cons.IH [of "insert k v m"] Cons.prems
    by (simp add: lookup_insert map_add_def fun_eq_iff map_of_append split: option.splits)
qed

end

end
