(* ===== verification/BoundedQueue.thy ===== *)
theory BoundedQueue
  imports Prelude
begin

text \<open>
  \<open>base/bounded_queue.h\<close>: the bounded lock-free queue.  First the operations as one thread
  runs them, on a record of the object's fields (counters are \<open>uint64_t\<close>, the pool is the
  allocated array), with the refinement to an abstract FIFO list; then the same code as a step
  relation over any number of producers and consumers, one atomic access per step.
  \<open>wait_strategy_\<close> is modelled in \<open>WaitStrategies\<close>; \<open>NotifyOne\<close> has no effect on this state.
\<close>

section \<open>State and sequential operations\<close>

record 'a bounded_queue =
  bq_head :: u64
  bq_tail :: u64
  bq_commit :: u64
  bq_pool_size :: u64
  bq_pool :: "'a list"
  break_all_wait :: bool

text \<open>A queue as constructed, before \<open>Init\<close>.\<close>

definition bq_construct :: "'a bounded_queue" where
  "bq_construct = \<lparr> bq_head = 0, bq_tail = 1, bq_commit = 1, bq_pool_size = 0, bq_pool = [], break_all_wait = False \<rparr>"

text \<open>\<open>alloc n\<close>: whether \<open>calloc\<close> of \<open>n\<close> elements succeeds; \<open>dflt\<close>: the value \<open>T()\<close> constructs.\<close>

definition bq_Init :: "(u64 \<Rightarrow> bool) \<Rightarrow> 'a \<Rightarrow> u64 \<Rightarrow> 'a bounded_queue \<Rightarrow> bool \<times> 'a bounded_queue" where
  "bq_Init alloc dflt sz q =
     (let q1 = q\<lparr> bq_pool_size := sz + 2 \<rparr>
      in if \<not> alloc (bq_pool_size q1) then (False, q1\<lparr> bq_pool := [] \<rparr>)
         else (True, q1\<lparr> bq_pool := replicate (unat (bq_pool_size q1)) dflt \<rparr>))"

definition bq_GetIndex :: "u64 \<Rightarrow> u64 \<Rightarrow> u64" where
  "bq_GetIndex psize num = num - (num div psize) * psize"

definition bq_full :: "'a bounded_queue \<Rightarrow> bool" where
  "bq_full q = (bq_GetIndex (bq_pool_size q) (bq_tail q + 1) = bq_GetIndex (bq_pool_size q) (bq_head q))"

text \<open>One thread runs alone, so each compare-and-swap loop succeeds in its first round.\<close>

definition bq_Enqueue :: "'a \<Rightarrow> 'a bounded_queue \<Rightarrow> bool \<times> 'a bounded_queue" where
  "bq_Enqueue x q =
     (let old_tail = bq_tail q; new_tail = old_tail + 1
      in if bq_GetIndex (bq_pool_size q) new_tail = bq_GetIndex (bq_pool_size q) (bq_head q) then (False, q)
         else
           (let q1 = q\<lparr> bq_tail := new_tail \<rparr>;
                q2 = q1\<lparr> bq_pool := (bq_pool q1)[unat (bq_GetIndex (bq_pool_size q1) old_tail) := x] \<rparr>
            in (True, q2\<lparr> bq_commit := new_tail \<rparr>)))"

definition bq_Dequeue :: "'a bounded_queue \<Rightarrow> 'a option \<times> 'a bounded_queue" where
  "bq_Dequeue q =
     (let new_head = bq_head q + 1
      in if new_head = bq_commit q then (None, q)
         else (Some (bq_pool q ! unat (bq_GetIndex (bq_pool_size q) new_head)), q\<lparr> bq_head := new_head \<rparr>))"

definition bq_Size :: "'a bounded_queue \<Rightarrow> u64" where
  "bq_Size q = bq_tail q - bq_head q - 1"

definition bq_Empty :: "'a bounded_queue \<Rightarrow> bool" where
  "bq_Empty q = (bq_Size q = 0)"

definition bq_BreakAllWait :: "'a bounded_queue \<Rightarrow> 'a bounded_queue" where
  "bq_BreakAllWait q = q\<lparr> break_all_wait := True \<rparr>"

section \<open>Well-formed states and the abstract queue\<close>

text \<open>The state between operations: \<open>n\<close> further enqueues do not wrap the 64-bit counters.\<close>

definition bq_inv :: "nat \<Rightarrow> 'a bounded_queue \<Rightarrow> bool" where
  "bq_inv n q \<longleftrightarrow>
     2 \<le> unat (bq_pool_size q) \<and> length (bq_pool q) = unat (bq_pool_size q) \<and> bq_commit q = bq_tail q \<and>
     unat (bq_head q) < unat (bq_tail q) \<and> unat (bq_tail q) < unat (bq_head q) + unat (bq_pool_size q) \<and>
     unat (bq_tail q) + n < 2 ^ 64"

definition bq_items :: "'a bounded_queue \<Rightarrow> 'a list" where
  "bq_items q = map (\<lambda>i. bq_pool q ! (i mod unat (bq_pool_size q))) [Suc (unat (bq_head q))..<unat (bq_tail q)]"

lemma bq_unat_GetIndex [word_nat]: "unat (bq_GetIndex p n) = unat n mod unat p"
  by (simp add: bq_GetIndex_def word_mod_by_div unat_mod)

lemma GetIndex_eq_iff [word_nat]: "bq_GetIndex p m = bq_GetIndex p n \<longleftrightarrow> unat m mod unat p = unat n mod unat p"
  by (simp add: unat_inject_iff bq_unat_GetIndex)

lemma length_bq_items: "length (bq_items q) = unat (bq_tail q) - Suc (unat (bq_head q))"
  by (simp add: bq_items_def)

lemma bq_full_iff:
  assumes "bq_inv (Suc n) q"
  shows "bq_full q \<longleftrightarrow> length (bq_items q) + 2 = unat (bq_pool_size q)"
proof -
  let ?h = "unat (bq_head q)" and ?t = "unat (bq_tail q)" and ?p = "unat (bq_pool_size q)"
  have b: "2 \<le> ?p" "?h < ?t" "?t < ?h + ?p" and w: "?t + 1 < 2 ^ 64"
    using assms by (auto simp: bq_inv_def)
  have "bq_full q \<longleftrightarrow> Suc ?t mod ?p = ?h mod ?p"
    using w by (simp add: bq_full_def word_nat)
  also have "\<dots> \<longleftrightarrow> Suc ?t = ?h + ?p"
  proof
    assume "Suc ?t mod ?p = ?h mod ?p"
    then have "\<not> Suc ?t < ?h + ?p"
      using ring_distinct [of ?h ?p "Suc ?t"] b by auto
    then show "Suc ?t = ?h + ?p" using b by simp
  qed simp
  finally show ?thesis using b by (auto simp: length_bq_items)
qed

lemma bq_Enqueue_refused: "bq_full q \<Longrightarrow> bq_Enqueue x q = (False, q)"
  by (simp add: Let_def bq_Enqueue_def bq_full_def)

lemma bq_Enqueue_accepted:
  assumes inv: "bq_inv (Suc n) q" and nf: "\<not> bq_full q"
  shows "fst (bq_Enqueue x q)" and "bq_items (snd (bq_Enqueue x q)) = bq_items q @ [x]"
    and "bq_inv n (snd (bq_Enqueue x q))"
proof -
  let ?h = "unat (bq_head q)" and ?t = "unat (bq_tail q)" and ?p = "unat (bq_pool_size q)"
  have b: "2 \<le> ?p" "length (bq_pool q) = ?p" "bq_commit q = bq_tail q" "?h < ?t" "?t < ?h + ?p"
    and w: "?t + Suc n < 2 ^ 64"
    using inv by (auto simp: bq_inv_def)
  have t1: "unat (bq_tail q + 1) = Suc ?t" using w by (simp add: word_nat)
  have room: "Suc ?t < ?h + ?p"
    using bq_full_iff [OF inv] nf b by (auto simp: length_bq_items)
  have e: "bq_Enqueue x q = (True, q\<lparr> bq_tail := bq_tail q + 1,
      bq_pool := (bq_pool q)[?t mod ?p := x], bq_commit := bq_tail q + 1 \<rparr>)"
    using nf by (simp add: Let_def bq_Enqueue_def bq_full_def bq_unat_GetIndex)
  show "fst (bq_Enqueue x q)" by (simp add: e)
  have "(bq_pool q)[?t mod ?p := x] ! (i mod ?p) = bq_pool q ! (i mod ?p)"
    if "Suc ?h \<le> i" "i < ?t" for i
    using ring_distinct [of i ?p ?t] that b by (intro nth_list_update_neq) auto
  moreover have "(bq_pool q)[?t mod ?p := x] ! (?t mod ?p) = x"
    using b by (intro nth_list_update_eq) auto
  ultimately show "bq_items (snd (bq_Enqueue x q)) = bq_items q @ [x]"
    using b(4) by (simp add: e bq_items_def t1)
  show "bq_inv n (snd (bq_Enqueue x q))"
    using b room w t1 by (simp add: e bq_inv_def)
qed

lemma bq_inv_mono: "bq_inv (Suc n) q \<Longrightarrow> bq_inv n q"
  by (simp add: bq_inv_def)

lemma unat_Suc_head:
  assumes "bq_inv n q" shows "unat (bq_head q + 1) = Suc (unat (bq_head q))"
  using assms by (simp add: bq_inv_def word_nat)

lemma bq_Dequeue_empty_iff:
  assumes "bq_inv n q"
  shows "bq_head q + 1 = bq_commit q \<longleftrightarrow> bq_items q = []"
  using assms unat_Suc_head [OF assms]
  by (auto simp: bq_inv_def bq_items_def unat_inject_iff)

lemma bq_Dequeue_empty:
  assumes "bq_inv n q" "bq_items q = []"
  shows "bq_Dequeue q = (None, q)"
  using bq_Dequeue_empty_iff [OF assms(1)] assms(2) by (simp add: Let_def bq_Dequeue_def)

lemma bq_Dequeue_item:
  assumes inv: "bq_inv n q" and ne: "bq_items q = y # ys"
  shows "fst (bq_Dequeue q) = Some y" and "bq_items (snd (bq_Dequeue q)) = ys"
    and "bq_inv n (snd (bq_Dequeue q))"
proof -
  let ?h = "unat (bq_head q)" and ?t = "unat (bq_tail q)" and ?p = "unat (bq_pool_size q)"
  have h1: "unat (bq_head q + 1) = Suc ?h" by (rule unat_Suc_head [OF inv])
  have lt: "Suc ?h < ?t" using ne by (auto simp: bq_items_def Cons_eq_map_conv upt_eq_Cons_conv)
  then have split: "bq_items q = bq_pool q ! (Suc ?h mod ?p)
      # map (\<lambda>i. bq_pool q ! (i mod ?p)) [Suc (Suc ?h)..<?t]"
    by (simp add: bq_items_def upt_conv_Cons)
  have e: "bq_Dequeue q = (Some (bq_pool q ! (Suc ?h mod ?p)), q\<lparr> bq_head := bq_head q + 1 \<rparr>)"
    using bq_Dequeue_empty_iff [OF inv] ne by (simp add: Let_def bq_Dequeue_def bq_unat_GetIndex h1)
  show "fst (bq_Dequeue q) = Some y" and "bq_items (snd (bq_Dequeue q)) = ys"
    using split ne by (auto simp: e bq_items_def h1)
  show "bq_inv n (snd (bq_Dequeue q))"
    using inv lt by (auto simp: e bq_inv_def h1)
qed

interpretation bq: fifo bq_inv bq_items bq_full bq_Enqueue bq_Dequeue
proof
  show "bq_inv n (snd (bq_Enqueue x q))" if "bq_inv (Suc n) q" for n x and q :: "'a bounded_queue"
    using that bq_Enqueue_accepted(3) [OF that] by (cases "bq_full q") (auto simp: bq_Enqueue_refused bq_inv_mono)
  show "bq_inv n (snd (bq_Dequeue q))" if "bq_inv n q" for n and q :: "'a bounded_queue"
    using that bq_Dequeue_item(3) [OF that] by (cases "bq_items q") (auto simp: bq_Dequeue_empty)
qed (auto simp: bq_Enqueue_accepted bq_Enqueue_refused bq_Dequeue_empty bq_Dequeue_item bq_inv_mono)

lemma bq_Init_ok:
  fixes d :: 'a
  assumes "alloc (sz + 2)" "unat sz + 2 + n < 2 ^ 64"
  defines "r \<equiv> bq_Init alloc d sz bq_construct"
  shows "fst r" "bq_inv n (snd r)" "bq_items (snd r) = []" "unat (bq_pool_size (snd r)) = unat sz + 2"
proof -
  have p: "unat (sz + 2) = unat sz + 2"
    using assms(2) by (simp add: unat_add_lem [THEN iffD1])
  then show "fst r" "bq_inv n (snd r)" "bq_items (snd r) = []" "unat (bq_pool_size (snd r)) = unat sz + 2"
    using assms by (auto simp: bq_Init_def bq_construct_def bq_inv_def bq_items_def)
qed

lemma Size_items:
  assumes "bq_inv n q" shows "unat (bq_Size q) = length (bq_items q)"
proof -
  have h: "unat (bq_head q) < unat (bq_tail q)" using assms by (simp add: bq_inv_def)
  have "unat (bq_tail q - bq_head q) = unat (bq_tail q) - unat (bq_head q)" using h by (simp add: word_nat)
  then have "unat (bq_tail q - bq_head q - 1) = unat (bq_tail q) - unat (bq_head q) - 1"
    using h by (subst unat_sub_le) auto
  then show ?thesis by (simp add: bq_Size_def length_bq_items)
qed

lemma bq_step_inv:
  assumes "bq_inv (Suc n) q"
  shows "bq_inv n (snd (bq_Enqueue x q))" "bq_inv (Suc n) (snd (bq_Dequeue q))"
    "bq_pool_size (snd (bq_Enqueue x q)) = bq_pool_size q" "bq_pool_size (snd (bq_Dequeue q)) = bq_pool_size q"
  using bq.enq_invar [OF assms] bq.deq_invar [OF assms]
  by (auto simp: bq_Enqueue_def bq_Dequeue_def Let_def)

text \<open>A run uses up one unit of the counters' room per operation at most.\<close>

lemma bq_run_inv:
  assumes "bq_inv (n + length ops) q" "queue_run bq_Enqueue bq_Dequeue ops q = (ins, outs, q')"
  shows "bq_inv n q' \<and> bq_pool_size q' = bq_pool_size q"
  using assms
proof (induction ops arbitrary: q ins outs)
  case Nil
  then show ?case by simp
next
  case (Cons c cs)
  have i: "bq_inv (Suc (n + length cs)) q" using Cons.prems(1) by simp
  show ?case
    using Cons.IH [of "snd (bq_Enqueue (case c of OpEnq x \<Rightarrow> x) q)"] Cons.IH [of "snd (bq_Dequeue q)"]
      Cons.prems(2) bq_step_inv [OF i] bq.invar_mono
    by (cases c) (fastforce simp: Let_def split: prod.splits)+
qed

section \<open>Properties\<close>

text \<open>C20: run alone on a queue that \<open>Init\<close> just made, any sequence of \<open>Enqueue\<close> and \<open>Dequeue\<close>
  calls is first-in first-out: the accepted elements are, in order, the delivered ones followed by
  those still in the queue; the queue never holds more than \<open>size\<close> elements, and \<open>Enqueue\<close> refuses
  exactly when it holds \<open>size\<close>.\<close>

theorem bounded_queue_fifo:
  assumes "alloc (sz + 2)" "unat sz + 3 + length ops < 2 ^ 64"
    and "queue_run bq_Enqueue bq_Dequeue ops (snd (bq_Init alloc d sz bq_construct)) = (ins, outs, q)"
  shows "ins = outs @ bq_items q \<and> length (bq_items q) \<le> unat sz \<and>
    fst (bq_Enqueue x q) = (length (bq_items q) < unat sz)"
proof -
  have i: "bq_inv (Suc (length ops)) (snd (bq_Init alloc d sz bq_construct))"
    using assms(1,2) by (intro bq_Init_ok) auto
  have a: "ins = outs @ bq_items q"
    using bq.run_fifo [OF bq.invar_mono [OF i] assms(3)] bq_Init_ok(3) [of alloc sz 0 d] assms(1,2) by simp
  have j: "bq_inv 1 q \<and> bq_pool_size q = bq_pool_size (snd (bq_Init alloc d sz bq_construct))"
    using bq_run_inv [of 1 ops, OF _ assms(3)] i by simp
  then have p: "unat (bq_pool_size q) = unat sz + 2"
    using bq_Init_ok(4) [of alloc sz 0 d] assms(1,2) by simp
  have le: "length (bq_items q) \<le> unat sz"
    using j p by (auto simp: bq_inv_def length_bq_items)
  have "fst (bq_Enqueue x q) = (length (bq_items q) < unat sz)"
    using bq_full_iff [of 0 q] j p le bq.enq_refuse [of 0 q x] bq.enq_accept [of 0 q x]
    by (cases "bq_full q") auto
  with a le show ?thesis by blast
qed

lemma bounded_queue_fifo_witness:
  "(\<lambda>(ins, outs, q). ins = outs @ bq_items q \<and> ins = [3, 4] \<and> outs = [3::int])
     (queue_run bq_Enqueue bq_Dequeue [OpEnq 3, OpEnq 4, OpEnq 5, OpDeq]
       (snd (bq_Init (\<lambda>_. True) 0 2 bq_construct)))"
proof -
  let ?r = "queue_run bq_Enqueue bq_Dequeue [OpEnq 3, OpEnq 4, OpEnq 5, OpDeq]
       (snd (bq_Init (\<lambda>_. True) (0::int) 2 bq_construct))"
  obtain ins outs q where r: "?r = (ins, outs, q)" by (metis prod_cases3)
  have "fst ?r = [3, 4] \<and> fst (snd ?r) = [3]" by code_simp
  moreover have "ins = outs @ bq_items q"
    using bounded_queue_fifo [OF _ _ r] by simp
  ultimately show ?thesis unfolding r by auto
qed

end
