(* ===== verification/BoundedQueueConc.thy ===== *)
theory BoundedQueueConc
  imports BoundedQueue
begin

text \<open>
  \<open>base/bounded_queue.h\<close> under concurrency: \<open>Enqueue\<close> and \<open>Dequeue\<close> run by any number of
  threads, one access to shared memory per step.  A thread's program counter holds the local
  variables that are live at that point.  The compare-and-swap operations are the weak ones of the
  source, so they may fail although the value matches.  \<open>claims\<close> and \<open>outs\<close> are history
  variables: the elements in the order in which slots were claimed, and in the order in which
  the head moved over them.
\<close>

section \<open>Program counters and steps\<close>

text \<open>\<open>Enqueue\<close>: \<open>old_tail\<close> loaded; the full check passed; slot claimed by the CAS on \<open>tail_\<close>;
  element written (waiting for \<open>commit_\<close> to reach the slot).\<close>

datatype 'a producer =
    PIdle | PLoaded 'a u64 | PChecked 'a u64 | PClaimed 'a u64 | PWritten u64

text \<open>\<open>Dequeue\<close>: \<open>old_head\<close> loaded; the empty check passed; element read (before the CAS on \<open>head_\<close>).\<close>

datatype 'a consumer = CIdle | CLoaded u64 | CChecked u64 | CRead u64 'a

record 'a bq_conc =
  que :: "'a bounded_queue"
  producers :: "nat \<Rightarrow> 'a producer"
  consumers :: "nat \<Rightarrow> 'a consumer"
  claims :: "'a list"
  outs :: "'a list"

definition bqc_init :: "'a bounded_queue \<Rightarrow> 'a bq_conc" where
  "bqc_init q = \<lparr> que = q, producers = (\<lambda>_. PIdle), consumers = (\<lambda>_. CIdle), claims = [], outs = [] \<rparr>"

inductive producer_step :: "nat \<Rightarrow> 'a bq_conc \<Rightarrow> 'a bq_conc \<Rightarrow> bool" for p where
  load_tail: "producers s p = PIdle \<Longrightarrow>
    producer_step p s (s\<lparr> producers := (producers s)(p := PLoaded x (bq_tail (que s))) \<rparr>)"
| check_full: "\<lbrakk>producers s p = PLoaded x old_tail;
     bq_GetIndex (bq_pool_size (que s)) (old_tail + 1)
       = bq_GetIndex (bq_pool_size (que s)) (bq_head (que s))\<rbrakk> \<Longrightarrow>
    producer_step p s (s\<lparr> producers := (producers s)(p := PIdle) \<rparr>)"
| check_room: "\<lbrakk>producers s p = PLoaded x old_tail;
     bq_GetIndex (bq_pool_size (que s)) (old_tail + 1)
       \<noteq> bq_GetIndex (bq_pool_size (que s)) (bq_head (que s))\<rbrakk> \<Longrightarrow>
    producer_step p s (s\<lparr> producers := (producers s)(p := PChecked x old_tail) \<rparr>)"
| cas_tail: "\<lbrakk>producers s p = PChecked x old_tail; bq_tail (que s) = old_tail\<rbrakk> \<Longrightarrow>
    producer_step p s (s\<lparr> que := (que s)\<lparr> bq_tail := old_tail + 1 \<rparr>,
      producers := (producers s)(p := PClaimed x old_tail), claims := claims s @ [x] \<rparr>)"
| cas_tail_fail: "producers s p = PChecked x old_tail \<Longrightarrow>
    producer_step p s (s\<lparr> producers := (producers s)(p := PLoaded x (bq_tail (que s))) \<rparr>)"
| write_slot: "producers s p = PClaimed x old_tail \<Longrightarrow>
    producer_step p s (s\<lparr> que := (que s)\<lparr> bq_pool :=
        (bq_pool (que s))[unat (bq_GetIndex (bq_pool_size (que s)) old_tail) := x] \<rparr>,
      producers := (producers s)(p := PWritten old_tail) \<rparr>)"
| cas_commit: "\<lbrakk>producers s p = PWritten old_tail; bq_commit (que s) = old_tail\<rbrakk> \<Longrightarrow>
    producer_step p s (s\<lparr> que := (que s)\<lparr> bq_commit := old_tail + 1 \<rparr>,
      producers := (producers s)(p := PIdle) \<rparr>)"
| cas_commit_fail: "producers s p = PWritten old_tail \<Longrightarrow> producer_step p s s"

inductive consumer_step :: "nat \<Rightarrow> 'a bq_conc \<Rightarrow> 'a bq_conc \<Rightarrow> bool" for c where
  load_head: "consumers s c = CIdle \<Longrightarrow>
    consumer_step c s (s\<lparr> consumers := (consumers s)(c := CLoaded (bq_head (que s))) \<rparr>)"
| check_empty: "\<lbrakk>consumers s c = CLoaded old_head; old_head + 1 = bq_commit (que s)\<rbrakk> \<Longrightarrow>
    consumer_step c s (s\<lparr> consumers := (consumers s)(c := CIdle) \<rparr>)"
| check_nonempty: "\<lbrakk>consumers s c = CLoaded old_head; old_head + 1 \<noteq> bq_commit (que s)\<rbrakk> \<Longrightarrow>
    consumer_step c s (s\<lparr> consumers := (consumers s)(c := CChecked old_head) \<rparr>)"
| read_slot: "consumers s c = CChecked old_head \<Longrightarrow>
    consumer_step c s (s\<lparr> consumers := (consumers s)(c := CRead old_head
      (bq_pool (que s) ! unat (bq_GetIndex (bq_pool_size (que s)) (old_head + 1)))) \<rparr>)"
| cas_head: "\<lbrakk>consumers s c = CRead old_head y; bq_head (que s) = old_head\<rbrakk> \<Longrightarrow>
    consumer_step c s (s\<lparr> que := (que s)\<lparr> bq_head := old_head + 1 \<rparr>,
      consumers := (consumers s)(c := CIdle), outs := outs s @ [y] \<rparr>)"
| cas_head_fail: "consumers s c = CRead old_head y \<Longrightarrow>
    consumer_step c s (s\<lparr> consumers := (consumers s)(c := CLoaded (bq_head (que s))) \<rparr>)"

inductive bqc_reach :: "'a bounded_queue \<Rightarrow> 'a bq_conc \<Rightarrow> bool" for q where
  start: "bqc_reach q (bqc_init q)"
| produce: "\<lbrakk>bqc_reach q s; producer_step p s s'\<rbrakk> \<Longrightarrow> bqc_reach q s'"
| consume: "\<lbrakk>bqc_reach q s; consumer_step c s s'\<rbrakk> \<Longrightarrow> bqc_reach q s'"

section \<open>The invariant\<close>

abbreviation hd_n :: "'a bq_conc \<Rightarrow> nat" where "hd_n s \<equiv> unat (bq_head (que s))"
abbreviation tl_n :: "'a bq_conc \<Rightarrow> nat" where "tl_n s \<equiv> unat (bq_tail (que s))"
abbreviation cm_n :: "'a bq_conc \<Rightarrow> nat" where "cm_n s \<equiv> unat (bq_commit (que s))"
abbreviation sz_n :: "'a bq_conc \<Rightarrow> nat" where "sz_n s \<equiv> unat (bq_pool_size (que s))"
abbreviation cell :: "'a bq_conc \<Rightarrow> nat \<Rightarrow> 'a" where "cell s i \<equiv> bq_pool (que s) ! (i mod sz_n s)"

text \<open>The slot a producer owns between its CAS on \<open>tail_\<close> and its CAS on \<open>commit_\<close>.\<close>

fun owned_slot :: "'a producer \<Rightarrow> nat option" where
  "owned_slot (PClaimed x k) = Some (unat k)"
| "owned_slot (PWritten k) = Some (unat k)"
| "owned_slot _ = None"

definition counters_ok :: "'a bq_conc \<Rightarrow> bool" where
  "counters_ok s \<longleftrightarrow> 2 \<le> sz_n s \<and> length (bq_pool (que s)) = sz_n s \<and>
     hd_n s < cm_n s \<and> cm_n s \<le> tl_n s \<and> tl_n s < hd_n s + sz_n s \<and>
     tl_n s = Suc (length (claims s)) \<and> tl_n s + 1 < 2 ^ 64"

definition cells_ok :: "'a bq_conc \<Rightarrow> bool" where
  "cells_ok s \<longleftrightarrow> outs s = take (hd_n s) (claims s) \<and>
     (\<forall>i. hd_n s < i \<and> i < cm_n s \<longrightarrow> cell s i = claims s ! (i - 1))"

fun producer_ok :: "'a bq_conc \<Rightarrow> 'a producer \<Rightarrow> bool" where
  "producer_ok s PIdle = True"
| "producer_ok s (PLoaded x k) = (unat k \<le> tl_n s)"
| "producer_ok s (PChecked x k) = (unat k \<le> tl_n s \<and> (unat k = tl_n s \<longrightarrow> Suc (tl_n s) < hd_n s + sz_n s))"
| "producer_ok s (PClaimed x k) =
     (cm_n s \<le> unat k \<and> unat k < tl_n s \<and> claims s ! (unat k - 1) = x)"
| "producer_ok s (PWritten k) =
     (cm_n s \<le> unat k \<and> unat k < tl_n s \<and> cell s (unat k) = claims s ! (unat k - 1))"

fun consumer_ok :: "'a bq_conc \<Rightarrow> 'a consumer \<Rightarrow> bool" where
  "consumer_ok s CIdle = True"
| "consumer_ok s (CLoaded k) = (unat k \<le> hd_n s)"
| "consumer_ok s (CChecked k) = (unat k \<le> hd_n s \<and> (unat k = hd_n s \<longrightarrow> Suc (hd_n s) < cm_n s))"
| "consumer_ok s (CRead k y) =
     (unat k \<le> hd_n s \<and> (unat k = hd_n s \<longrightarrow> Suc (hd_n s) < cm_n s \<and> y = claims s ! hd_n s))"

text \<open>The slots in a range are owned by exactly one producer each.\<close>

definition owns :: "(nat \<Rightarrow> nat option) \<Rightarrow> nat \<Rightarrow> nat \<Rightarrow> bool" where
  "owns f lo hi \<longleftrightarrow> (\<forall>p p' k. f p = Some k \<and> f p' = Some k \<longrightarrow> p = p') \<and>
     (\<forall>k. lo \<le> k \<and> k < hi \<longrightarrow> (\<exists>p. f p = Some k))"

definition owners_ok :: "'a bq_conc \<Rightarrow> bool" where
  "owners_ok s = owns (\<lambda>p. owned_slot (producers s p)) (cm_n s) (tl_n s)"

definition bqc_inv :: "'a bq_conc \<Rightarrow> bool" where
  "bqc_inv s \<longleftrightarrow> counters_ok s \<and> cells_ok s \<and> (\<forall>p. producer_ok s (producers s p)) \<and>
     (\<forall>c. consumer_ok s (consumers s c)) \<and> owners_ok s"

section \<open>Every step preserves the invariant\<close>

lemma ok_frame [simp]:
  "producer_ok (s\<lparr> producers := f \<rparr>) pc = producer_ok s pc"
  "producer_ok (s\<lparr> consumers := g \<rparr>) pc = producer_ok s pc"
  "producer_ok (s\<lparr> outs := os \<rparr>) pc = producer_ok s pc"
  "consumer_ok (s\<lparr> producers := f \<rparr>) cc = consumer_ok s cc"
  "consumer_ok (s\<lparr> consumers := g \<rparr>) cc = consumer_ok s cc"
  "consumer_ok (s\<lparr> outs := os \<rparr>) cc = consumer_ok s cc"
  by (cases pc; simp)+ (cases cc; simp)+

lemma slot_upd: "(\<lambda>r. owned_slot ((f(p := pc)) r)) = (\<lambda>r. owned_slot (f r))(p := owned_slot pc)"
  by auto

lemma owns_same: "owns f lo hi \<Longrightarrow> x = f p \<Longrightarrow> owns (f(p := x)) lo hi"
  by (simp add: fun_upd_idem)

lemma owns_claim:
  assumes "owns f lo hi" "f p = None" "\<And>r i. f r = Some i \<Longrightarrow> i < hi"
  shows "owns (f(p := Some hi)) lo (Suc hi)"
  unfolding owns_def
proof (intro conjI allI impI)
  fix q r k
  assume "(f(p := Some hi)) q = Some k \<and> (f(p := Some hi)) r = Some k"
  then show "q = r" using assms by (cases "q = p"; cases "r = p") (auto simp: owns_def)
next
  fix k assume k: "lo \<le> k \<and> k < Suc hi"
  show "\<exists>q. (f(p := Some hi)) q = Some k"
  proof (cases "k = hi")
    case True
    then show ?thesis by (intro exI [of _ p]) simp
  next
    case False
    then obtain q where "f q = Some k" using k assms(1) by (auto simp: owns_def)
    then show ?thesis using assms(2) by (intro exI [of _ q]) auto
  qed
qed

lemma owns_release:
  assumes o: "owns f lo hi" and p: "f p = Some lo"
  shows "owns (f(p := None)) (Suc lo) hi"
  unfolding owns_def
proof (intro conjI allI impI)
  fix q r k
  assume "(f(p := None)) q = Some k \<and> (f(p := None)) r = Some k"
  then show "q = r" using o by (cases "q = p"; cases "r = p") (auto simp: owns_def)
next
  fix k assume k: "Suc lo \<le> k \<and> k < hi"
  then have "lo \<le> k \<and> k < hi" by simp
  then obtain q where "f q = Some k" using o unfolding owns_def by blast
  then show "\<exists>q. (f(p := None)) q = Some k" using p k by (intro exI [of _ q]) auto
qed

lemma inv_local_producer:
  assumes inv: "bqc_inv s" and ok: "producer_ok s pc" and sl: "owned_slot pc = owned_slot (producers s p)"
  shows "bqc_inv (s\<lparr> producers := (producers s)(p := pc) \<rparr>)" (is "bqc_inv ?s")
proof -
  have "owns ((\<lambda>r. owned_slot (producers s r))(p := owned_slot pc)) (cm_n s) (tl_n s)"
    using inv sl by (intro owns_same) (auto simp: bqc_inv_def owners_ok_def)
  then have "owners_ok ?s" by (simp add: owners_ok_def slot_upd del: fun_upd_apply)
  then show ?thesis
    using inv ok by (auto simp: bqc_inv_def counters_ok_def cells_ok_def)
qed

lemma inv_local_consumer:
  assumes "bqc_inv s" "consumer_ok s cc"
  shows "bqc_inv (s\<lparr> consumers := (consumers s)(c := cc) \<rparr>)"
  using assms by (auto simp: bqc_inv_def counters_ok_def cells_ok_def owners_ok_def)

lemma inv_producer: "bqc_inv s \<Longrightarrow> producer_ok s (producers s p)"
  by (simp add: bqc_inv_def)

lemma inv_consumer: "bqc_inv s \<Longrightarrow> consumer_ok s (consumers s c)"
  by (simp add: bqc_inv_def)

lemma inv_counters: "bqc_inv s \<Longrightarrow> counters_ok s"
  by (simp add: bqc_inv_def)

lemma inv_check_room:
  assumes inv: "bqc_inv s" and pc: "producers s p = PLoaded x k"
    and room: "bq_GetIndex (bq_pool_size (que s)) (k + 1) \<noteq> bq_GetIndex (bq_pool_size (que s)) (bq_head (que s))"
  shows "producer_ok s (PChecked x k)"
proof -
  have k: "unat k \<le> tl_n s" using inv_producer [OF inv, of p] pc by simp
  have c: "hd_n s < tl_n s" "tl_n s < hd_n s + sz_n s" "tl_n s + 1 < 2 ^ 64"
    using inv_counters [OF inv] by (auto simp: counters_ok_def)
  have "Suc (tl_n s) < hd_n s + sz_n s" if "unat k = tl_n s"
  proof (rule ring_next_ne)
    show "Suc (tl_n s) mod sz_n s \<noteq> hd_n s mod sz_n s"
      using room that c(3) by (simp add: word_nat GetIndex_eq_iff)
  qed (use c in auto)
  then show ?thesis using k by simp
qed

lemma inv_cas_tail:
  assumes inv: "bqc_inv s" and pc: "producers s p = PChecked x k" and eq: "bq_tail (que s) = k"
    and lim: "unat (k + 1) + 1 < (2::nat) ^ 64"
  shows "bqc_inv (s\<lparr> que := (que s)\<lparr> bq_tail := k + 1 \<rparr>,
      producers := (producers s)(p := PClaimed x k), claims := claims s @ [x] \<rparr>)" (is "bqc_inv ?s")
proof -
  have c: "counters_ok s" by (rule inv_counters [OF inv])
  then have k: "unat k = tl_n s" "unat (k + 1) = Suc (tl_n s)" "tl_n s = Suc (length (claims s))"
    using eq by (auto simp: counters_ok_def word_nat)
  have room: "Suc (tl_n s) < hd_n s + sz_n s" using inv_producer [OF inv, of p] pc k(1) by simp
  have 1: "counters_ok ?s" using c k room lim by (simp add: counters_ok_def)
  have 2: "cells_ok ?s" using inv c k by (auto simp: bqc_inv_def cells_ok_def counters_ok_def nth_append)
  have old: "producer_ok ?s pc" if "producer_ok s pc" for pc
    using that c k by (cases pc) (auto simp: counters_ok_def nth_append)
  have 3: "producer_ok ?s (producers ?s r)" for r
    using old [OF inv_producer [OF inv, of r]] c k by (auto simp: counters_ok_def nth_append)
  have 4: "consumer_ok ?s (consumers ?s r)" for r
    using inv_consumer [OF inv, of r] c k
    by (cases "consumers s r") (auto simp: counters_ok_def nth_append)
  have lt: "owned_slot (producers s r) = Some i \<Longrightarrow> i < tl_n s" for r i
    using inv_producer [OF inv, of r] by (cases "producers s r") auto
  have "owns ((\<lambda>r. owned_slot (producers s r))(p := Some (tl_n s))) (cm_n s) (Suc (tl_n s))"
    using inv lt pc by (intro owns_claim) (auto simp: bqc_inv_def owners_ok_def)
  then have 5: "owners_ok ?s" using k by (simp add: owners_ok_def slot_upd del: fun_upd_apply)
  show ?thesis using 1 2 3 4 5 by (simp add: bqc_inv_def)
qed

lemma inv_write_slot:
  assumes inv: "bqc_inv s" and pc: "producers s p = PClaimed x k"
  shows "bqc_inv (s\<lparr> que := (que s)\<lparr> bq_pool :=
        (bq_pool (que s))[unat (bq_GetIndex (bq_pool_size (que s)) k) := x] \<rparr>,
      producers := (producers s)(p := PWritten k) \<rparr>)" (is "bqc_inv ?s")
proof -
  let ?pool = "(bq_pool (que s))[unat k mod sz_n s := x]"
  have c: "2 \<le> sz_n s" "length (bq_pool (que s)) = sz_n s" "hd_n s < cm_n s" "cm_n s \<le> tl_n s"
      "tl_n s < hd_n s + sz_n s"
    using inv_counters [OF inv] by (auto simp: counters_ok_def)
  have k: "cm_n s \<le> unat k" "unat k < tl_n s" "claims s ! (unat k - 1) = x"
    using inv_producer [OF inv, of p] pc by auto
  have other: "?pool ! (i mod sz_n s) = cell s i" if "hd_n s < i" "i < tl_n s" "i \<noteq> unat k" for i
    using ring_distinct_window [of i "sz_n s" "unat k" "hd_n s"] that c k
    by (intro nth_list_update_neq) auto
  have same: "?pool ! (unat k mod sz_n s) = x" using c by (intro nth_list_update_eq) auto
  have uniq: "r = p" if "owned_slot (producers s r) = Some (unat k)" for r
    using inv that pc by (simp add: bqc_inv_def owners_ok_def owns_def)
  have 3: "producer_ok ?s (producers ?s r)" for r
  proof (cases "r = p")
    case True
    then show ?thesis using k same by (simp add: bq_unat_GetIndex)
  next
    case False
    show ?thesis
    proof (cases "producers s r")
      case (PWritten j)
      then have "unat j \<noteq> unat k" using False uniq [of r] by auto
      then show ?thesis
        using PWritten False inv_producer [OF inv, of r] other [of "unat j"] c(3)
        by (simp add: bq_unat_GetIndex)
    qed (use False inv_producer [OF inv, of r] in auto)
  qed
  have 4: "consumer_ok ?s (consumers ?s r)" for r
    using inv_consumer [OF inv, of r] by (cases "consumers s r") auto
  have "owns ((\<lambda>r. owned_slot (producers s r))(p := Some (unat k))) (cm_n s) (tl_n s)"
    using inv pc by (intro owns_same) (auto simp: bqc_inv_def owners_ok_def)
  then have 5: "owners_ok ?s" by (simp add: owners_ok_def slot_upd del: fun_upd_apply)
  have 6: "cells_ok ?s"
    using inv other c k by (auto simp: bqc_inv_def cells_ok_def bq_unat_GetIndex)
  show ?thesis using inv 3 4 5 6 by (simp add: bqc_inv_def counters_ok_def)
qed

lemma inv_cas_commit:
  assumes inv: "bqc_inv s" and pc: "producers s p = PWritten k" and eq: "bq_commit (que s) = k"
  shows "bqc_inv (s\<lparr> que := (que s)\<lparr> bq_commit := k + 1 \<rparr>,
      producers := (producers s)(p := PIdle) \<rparr>)" (is "bqc_inv ?s")
proof -
  have c: "counters_ok s" by (rule inv_counters [OF inv])
  have k: "cm_n s = unat k" "unat k < tl_n s" "cell s (unat k) = claims s ! (unat k - 1)"
    using inv_producer [OF inv, of p] pc eq by auto
  have k1: "unat (k + 1) = Suc (unat k)" using c k by (auto simp: counters_ok_def word_nat)
  have uniq: "r = p" if "owned_slot (producers s r) = Some (unat k)" for r
    using inv that pc by (simp add: bqc_inv_def owners_ok_def owns_def)
  have 1: "counters_ok ?s" using c k k1 by (auto simp: counters_ok_def)
  have 2: "cells_ok ?s" using inv k k1 by (auto simp: bqc_inv_def cells_ok_def less_Suc_eq)
  have 3: "producer_ok ?s (producers ?s r)" for r
  proof (cases "r = p")
    case False
    then show ?thesis
      using inv_producer [OF inv, of r] uniq [of r] k k1
      by (cases "producers s r") (auto simp: Suc_le_eq nat_less_le)
  qed simp
  have 4: "consumer_ok ?s (consumers ?s r)" for r
    using inv_consumer [OF inv, of r] k k1 by (cases "consumers s r") auto
  have "owns ((\<lambda>r. owned_slot (producers s r))(p := None)) (Suc (cm_n s)) (tl_n s)"
    using inv pc k by (intro owns_release) (auto simp: bqc_inv_def owners_ok_def)
  then have 5: "owners_ok ?s" using k k1 by (simp add: owners_ok_def slot_upd del: fun_upd_apply)
  show ?thesis using 1 2 3 4 5 by (simp add: bqc_inv_def)
qed

lemma inv_cas_head:
  assumes inv: "bqc_inv s" and cc: "consumers s c = CRead k y" and eq: "bq_head (que s) = k"
  shows "bqc_inv (s\<lparr> que := (que s)\<lparr> bq_head := k + 1 \<rparr>,
      consumers := (consumers s)(c := CIdle), outs := outs s @ [y] \<rparr>)" (is "bqc_inv ?s")
proof -
  have ct: "counters_ok s" by (rule inv_counters [OF inv])
  have k: "hd_n s = unat k" "Suc (unat k) < cm_n s" "y = claims s ! unat k"
    using inv_consumer [OF inv, of c] cc eq by auto
  have k1: "unat (k + 1) = Suc (unat k)" using ct k by (auto simp: counters_ok_def word_nat)
  have len: "unat k < length (claims s)" using ct k by (auto simp: counters_ok_def)
  have 1: "counters_ok ?s" using ct k k1 by (auto simp: counters_ok_def)
  have 2: "cells_ok ?s"
    using inv k k1 len by (auto simp: bqc_inv_def cells_ok_def take_Suc_conv_app_nth)
  have 3: "producer_ok ?s (producers ?s r)" for r
    using inv_producer [OF inv, of r] k k1 by (cases "producers s r") auto
  have 4: "consumer_ok ?s (consumers ?s r)" for r
    using inv_consumer [OF inv, of r] k k1 by (cases "consumers s r") auto
  show ?thesis using inv 1 2 3 4 by (simp add: bqc_inv_def owners_ok_def)
qed

lemma inv_check_nonempty:
  assumes inv: "bqc_inv s" and cc: "consumers s c = CLoaded k" and ne: "k + 1 \<noteq> bq_commit (que s)"
  shows "consumer_ok s (CChecked k)"
proof -
  have k: "unat k \<le> hd_n s" using inv_consumer [OF inv, of c] cc by simp
  have "Suc (hd_n s) < cm_n s" if "unat k = hd_n s"
  proof -
    have "unat (k + 1) = Suc (hd_n s)"
      using inv_counters [OF inv] that by (auto simp: counters_ok_def word_nat)
    then show ?thesis using ne inv_counters [OF inv] by (auto simp: counters_ok_def unat_inject_iff)
  qed
  then show ?thesis using k by simp
qed

lemma inv_read_slot:
  assumes inv: "bqc_inv s" and cc: "consumers s c = CChecked k"
  shows "consumer_ok s (CRead k (bq_pool (que s) ! unat (bq_GetIndex (bq_pool_size (que s)) (k + 1))))"
proof -
  have k: "unat k \<le> hd_n s" "unat k = hd_n s \<longrightarrow> Suc (hd_n s) < cm_n s"
    using inv_consumer [OF inv, of c] cc by auto
  have "cell s (Suc (hd_n s)) = claims s ! hd_n s" "unat (k + 1) = Suc (hd_n s)" if "unat k = hd_n s"
    using inv k that inv_counters [OF inv]
    by (auto simp: bqc_inv_def cells_ok_def counters_ok_def word_nat)
  then show ?thesis using k by (simp add: bq_unat_GetIndex)
qed

lemma producer_step_inv:
  assumes "producer_step p s s'" "bqc_inv s" "tl_n s' + 1 < 2 ^ 64"
  shows "bqc_inv s'"
  using assms
proof (cases rule: producer_step.cases)
  case (load_tail x)
  then show ?thesis using assms(2) by (auto intro: inv_local_producer)
next
  case (check_full x k)
  then show ?thesis using assms(2) by (auto intro: inv_local_producer)
next
  case (check_room x k)
  then show ?thesis
    using assms(2) inv_check_room [OF assms(2), of p x k] by (auto intro: inv_local_producer)
next
  case (cas_tail x k)
  then show ?thesis using inv_cas_tail [OF assms(2), of p x k] assms(3) by simp
next
  case (cas_tail_fail x k)
  then show ?thesis using assms(2) by (auto intro: inv_local_producer)
next
  case (write_slot x k)
  then show ?thesis using inv_write_slot [OF assms(2), of p x k] by simp
next
  case (cas_commit k)
  then show ?thesis using inv_cas_commit [OF assms(2), of p k] by simp
qed simp

lemma consumer_step_inv:
  assumes "consumer_step c s s'" "bqc_inv s"
  shows "bqc_inv s'"
  using assms
proof (cases rule: consumer_step.cases)
  case (check_nonempty k)
  then show ?thesis
    using assms(2) inv_check_nonempty [OF assms(2), of c k] by (auto intro: inv_local_consumer)
next
  case (read_slot k)
  then show ?thesis
    using assms(2) inv_read_slot [OF assms(2), of c k] by (auto intro: inv_local_consumer)
next
  case (cas_head k y)
  then show ?thesis using inv_cas_head [OF assms(2), of c k y] by simp
qed (auto intro: inv_local_consumer)

lemma claims_grow:
  "producer_step p s s' \<Longrightarrow> length (claims s) \<le> length (claims s')"
  "consumer_step c s s' \<Longrightarrow> claims s' = claims s"
  by (auto elim: producer_step.cases consumer_step.cases)

lemma tail_claims:
  assumes "producer_step p s s'" "tl_n s = Suc (length (claims s))" "length (claims s') + 2 < 2 ^ 64"
  shows "tl_n s' = Suc (length (claims s'))"
  using assms by (cases rule: producer_step.cases) (auto simp: word_nat)

text \<open>The starting queue: as \<open>Init\<close> leaves it.\<close>

definition bq_fresh :: "'a bounded_queue \<Rightarrow> bool" where
  "bq_fresh q \<longleftrightarrow> bq_head q = 0 \<and> bq_tail q = 1 \<and> bq_commit q = 1 \<and>
     2 \<le> unat (bq_pool_size q) \<and> length (bq_pool q) = unat (bq_pool_size q)"

lemma bqc_init_inv: "bq_fresh q \<Longrightarrow> bqc_inv (bqc_init q)"
  by (auto simp: bq_fresh_def bqc_init_def bqc_inv_def counters_ok_def cells_ok_def owners_ok_def owns_def)

lemma bqc_reach_inv:
  assumes "bqc_reach q s" "bq_fresh q" "length (claims s) + 2 < 2 ^ 64"
  shows "bqc_inv s"
  using assms
proof (induction rule: bqc_reach.induct)
  case start
  then show ?case by (simp add: bqc_init_inv)
next
  case (produce s p s')
  then have i: "bqc_inv s" using claims_grow(1) [OF produce.hyps(2)] by simp
  then have "tl_n s' = Suc (length (claims s'))"
    using tail_claims [OF produce.hyps(2) _ produce.prems(2)] by (simp add: bqc_inv_def counters_ok_def)
  then show ?case using producer_step_inv [OF produce.hyps(2) i] produce.prems(2) by simp
next
  case (consume s c s')
  then show ?case using consumer_step_inv claims_grow(2) by metis
qed

section \<open>Properties\<close>

text \<open>C5: whatever the interleaving of producers and consumers, the delivered elements are a
  prefix of the elements in the order their slots were claimed, and the committed part of the
  ring holds the next ones: nothing is lost, duplicated, reordered or read before it was
  written; the elements claimed and not yet delivered never exceed the capacity.\<close>

theorem concurrent_queue_fifo:
  assumes "bqc_reach q s" "bq_fresh q" "length (claims s) + 2 < 2 ^ 64"
  shows "outs s @ map (cell s) [Suc (hd_n s)..<cm_n s] = take (cm_n s - 1) (claims s) \<and>
    length (claims s) \<le> length (outs s) + (sz_n s - 2)"
proof -
  have inv: "bqc_inv s" by (rule bqc_reach_inv [OF assms])
  then have c: "hd_n s < cm_n s" "cm_n s \<le> tl_n s" "tl_n s = Suc (length (claims s))"
      "tl_n s < hd_n s + sz_n s"
    and o: "outs s = take (hd_n s) (claims s)"
    and v: "map (cell s) [Suc (hd_n s)..<cm_n s] = map (\<lambda>i. claims s ! (i - 1)) [Suc (hd_n s)..<cm_n s]"
    by (auto simp: bqc_inv_def counters_ok_def cells_ok_def)
  have "map (\<lambda>i. claims s ! (i - 1)) [Suc (hd_n s)..<cm_n s] = take (cm_n s - 1 - hd_n s) (drop (hd_n s) (claims s))"
    using c by (intro nth_equalityI) (auto simp: nth_append)
  then have "outs s @ map (cell s) [Suc (hd_n s)..<cm_n s] = take (hd_n s + (cm_n s - 1 - hd_n s)) (claims s)"
    by (simp only: o v take_add)
  then show ?thesis using c o by auto
qed

text \<open>One producer enqueues 7 into a queue of capacity one, then one consumer takes it.\<close>

definition demo_queue :: "int bounded_queue" where
  "demo_queue = snd (bq_Init (\<lambda>_. True) 0 1 bq_construct)"

lemma demo_fresh: "bq_fresh demo_queue"
  by (simp add: demo_queue_def bq_fresh_def bq_Init_def bq_construct_def)

lemma demo_queue_eq: "demo_queue = \<lparr> bq_head = 0, bq_tail = 1, bq_commit = 1, bq_pool_size = 3,
    bq_pool = [0, 0, 0], break_all_wait = False \<rparr>"
  unfolding demo_queue_def by code_simp

lemma demo_run:
  "\<exists>s. bqc_reach demo_queue s \<and> claims s = [7] \<and> outs s = [] \<and>
     producers s 0 = PWritten 1 \<and> bq_commit (que s) = 1 \<and> bq_tail (que s) = 2"
proof -
  note [simp] = demo_queue_eq bqc_init_def bq_GetIndex_def
  let ?s0 = "bqc_init demo_queue"
  have "bqc_reach demo_queue ?s0" by (rule start)
  from produce [OF this load_tail [of _ 0 7]]
  have "bqc_reach demo_queue (?s0\<lparr> producers := (producers ?s0)(0 := PLoaded 7 1) \<rparr>)" (is "bqc_reach _ ?s1") by simp
  from produce [OF this check_room [of _ 0 7 1]]
  have "bqc_reach demo_queue (?s1\<lparr> producers := (producers ?s1)(0 := PChecked 7 1) \<rparr>)" (is "bqc_reach _ ?s2") by simp
  from produce [OF this cas_tail [of _ 0 7 1]]
  have "bqc_reach demo_queue (?s2\<lparr> que := (que ?s2)\<lparr> bq_tail := 2 \<rparr>,
      producers := (producers ?s2)(0 := PClaimed 7 1), claims := [7] \<rparr>)" (is "bqc_reach _ ?s3") by simp
  from produce [OF this write_slot [of _ 0 7 1]]
  have "bqc_reach demo_queue (?s3\<lparr> que := (que ?s3)\<lparr> bq_pool := [0, 7, 0] \<rparr>,
      producers := (producers ?s3)(0 := PWritten 1) \<rparr>)" by simp
  then show ?thesis by (intro exI conjI) (assumption, simp_all)
qed

lemma concurrent_queue_fifo_witness:
  "\<exists>s. bqc_reach demo_queue s \<and> claims s = [7] \<and> length (claims s) \<le> length (outs s) + (sz_n s - 2)"
  using demo_run concurrent_queue_fifo [OF _ demo_fresh] by force

text \<open>the commit loop cannot be stuck for good: while a claimed slot is not yet committed, some
  producer holds exactly the slot \<open>commit_\<close> points to, and its next write or compare-and-swap
  step is enabled and moves that slot on.\<close>

theorem commit_progress:
  assumes "bqc_reach q s" "bq_fresh q" "length (claims s) + 2 < 2 ^ 64"
    and "bq_commit (que s) \<noteq> bq_tail (que s)"
  shows "\<exists>p s'. producer_step p s s' \<and>
    ((\<exists>x. producers s p = PClaimed x (bq_commit (que s))) \<and> producers s' p = PWritten (bq_commit (que s)) \<or>
     producers s p = PWritten (bq_commit (que s)) \<and> bq_commit (que s') = bq_commit (que s) + 1)"
proof -
  have inv: "bqc_inv s" by (rule bqc_reach_inv [OF assms(1-3)])
  moreover have "cm_n s < tl_n s"
    using inv assms(4) by (auto simp: bqc_inv_def counters_ok_def unat_inject_iff)
  ultimately obtain p where p: "owned_slot (producers s p) = Some (cm_n s)"
    by (auto simp: bqc_inv_def owners_ok_def owns_def)
  then consider (claimed) x k where "producers s p = PClaimed x k" "unat k = cm_n s"
    | (written) k where "producers s p = PWritten k" "unat k = cm_n s"
    by (cases "producers s p") auto
  then show ?thesis
  proof cases
    case claimed
    then have "k = bq_commit (que s)" by (simp add: unat_inject_iff)
    then show ?thesis using write_slot [OF claimed(1)] claimed(1) by (intro exI conjI) (assumption, auto)
  next
    case written
    then have "k = bq_commit (que s)" by (simp add: unat_inject_iff)
    then show ?thesis using cas_commit [OF written(1)] written(1) by (intro exI [of _ p] exI conjI) auto
  qed
qed

lemma commit_progress_witness:
  "\<exists>s p s'. bqc_reach demo_queue s \<and> producer_step p s s' \<and> bq_commit (que s) = 1 \<and>
    ((\<exists>x. producers s p = PClaimed x 1) \<and> producers s' p = PWritten 1 \<or>
     producers s p = PWritten 1 \<and> bq_commit (que s') = 2)"
proof -
  obtain s where s: "bqc_reach demo_queue s" "claims s = [7]" "bq_commit (que s) = 1" "bq_tail (que s) = 2"
    using demo_run by blast
  then have "\<exists>p s'. producer_step p s s' \<and>
    ((\<exists>x. producers s p = PClaimed x (bq_commit (que s))) \<and> producers s' p = PWritten (bq_commit (que s)) \<or>
     producers s p = PWritten (bq_commit (que s)) \<and> bq_commit (que s') = bq_commit (que s) + 1)"
    by (intro commit_progress [OF _ demo_fresh]) simp_all
  then show ?thesis using s by auto
qed

end
