(* ===== verification/AtomicHashMap.thy ===== *)
theory AtomicHashMap
  imports Prelude
begin

unbundle bit_operations_syntax

text \<open>
  \<open>base/atomic_hash_map.h\<close>: a fixed array of buckets, each a linked list kept sorted by key.
  A bucket is the list of its entries after the sentinel \<open>head_\<close>; a position in the chain
  (\<open>prev\<close>, \<open>target\<close>) is an index of that list.  Keys are \<open>uint64_t\<close>, as in all uses.
  First the operations as one thread runs them and their refinement to a finite map, then
  concurrent insertions into one bucket, one atomic access per step.
\<close>

section \<open>Buckets\<close>

type_synonym 'v bucket = "(u64 \<times> 'v) list"

fun bucket_Has :: "u64 \<Rightarrow> 'v bucket \<Rightarrow> bool" where
  "bucket_Has key [] = False"
| "bucket_Has key (target # rest) = (if fst target < key then bucket_Has key rest else fst target = key)"

text \<open>\<open>bucket_Find key es prev\<close> walks on from the entry before \<open>es\<close>, which has position
  \<open>prev\<close> (\<open>0\<close> is the sentinel); the result is the flag, \<open>prev\<close> and \<open>target\<close>.\<close>

fun bucket_Find :: "u64 \<Rightarrow> 'v bucket \<Rightarrow> nat \<Rightarrow> bool \<times> nat \<times> (u64 \<times> 'v) option" where
  "bucket_Find key [] prev = (False, prev, None)"
| "bucket_Find key (target # rest) prev =
     (if fst target = key then (True, prev, Some target)
      else if fst target > key then (False, prev, Some target)
      else bucket_Find key rest (Suc prev))"

text \<open>Run alone, both compare-and-swap operations succeed at once.\<close>

definition bucket_Insert :: "u64 \<Rightarrow> 'v \<Rightarrow> 'v bucket \<Rightarrow> 'v bucket" where
  "bucket_Insert key value es =
     (case bucket_Find key es 0 of
        (True, prev, target) \<Rightarrow> es[prev := (key, value)]
      | (False, prev, target) \<Rightarrow> take prev es @ (key, value) # drop prev es)"

definition bucket_Get :: "u64 \<Rightarrow> 'v bucket \<Rightarrow> 'v option" where
  "bucket_Get key es =
     (case bucket_Find key es 0 of
        (True, prev, Some target) \<Rightarrow> Some (snd target)
      | _ \<Rightarrow> None)"

section \<open>The table\<close>

record 'v hash_map =
  table :: "'v bucket list"
  mod_num :: u64

text \<open>The constructor, for a template argument \<open>TableSize\<close>.\<close>

definition ahm_construct :: "u64 \<Rightarrow> 'v hash_map" where
  "ahm_construct TableSize = \<lparr> table = replicate (unat TableSize) [], mod_num = TableSize - 1 \<rparr>"

definition ahm_index :: "'v hash_map \<Rightarrow> u64 \<Rightarrow> nat" where
  "ahm_index m key = unat (key AND mod_num m)"

definition ahm_Has :: "u64 \<Rightarrow> 'v hash_map \<Rightarrow> bool" where
  "ahm_Has key m = bucket_Has key (table m ! ahm_index m key)"

definition ahm_Get :: "'v hash_map \<Rightarrow> u64 \<Rightarrow> 'v option" where
  "ahm_Get m key = bucket_Get key (table m ! ahm_index m key)"

definition ahm_Set :: "u64 \<Rightarrow> 'v \<Rightarrow> 'v hash_map \<Rightarrow> 'v hash_map" where
  "ahm_Set key value m =
     m\<lparr> table := (table m)[ahm_index m key := bucket_Insert key value (table m ! ahm_index m key)] \<rparr>"

text \<open>\<open>Set(key)\<close> stores a value made by \<open>V()\<close>.\<close>

definition ahm_Set_default :: "'v \<Rightarrow> u64 \<Rightarrow> 'v hash_map \<Rightarrow> 'v hash_map" where
  "ahm_Set_default dflt key m = ahm_Set key dflt m"

section \<open>A bucket is a sorted map\<close>

definition bucket_ok :: "'v bucket \<Rightarrow> bool" where
  "bucket_ok es \<longleftrightarrow> sorted_wrt (<) (map fst es)"

lemma bucket_ok_Cons: "bucket_ok (e # es) \<longleftrightarrow> (\<forall>x \<in> set es. fst e < fst x) \<and> bucket_ok es"
  by (auto simp: bucket_ok_def)

lemma bucket_ok_distinct: "bucket_ok es \<Longrightarrow> distinct (map fst es)"
  by (auto simp: bucket_ok_def strict_sorted_iff)

lemma map_of_above: "(\<forall>x \<in> set es. k < fst x) \<Longrightarrow> map_of es (k :: u64) = None"
  by (auto simp: map_of_eq_None_iff)

lemma bucket_Find_spec:
  assumes "bucket_ok es" "bucket_Find key es p = (found, prev, target)"
  shows "\<exists>pre post. es = pre @ post \<and> prev = p + length pre \<and> (\<forall>x \<in> set pre. fst x < key) \<and>
    (if found then \<exists>v post'. post = (key, v) # post' \<and> target = Some (key, v)
     else (\<forall>x \<in> set post. key < fst x) \<and> target = (case post of [] \<Rightarrow> None | x # _ \<Rightarrow> Some x))"
  using assms
proof (induction es arbitrary: p)
  case Nil
  then show ?case by auto
next
  case (Cons e es)
  consider "fst e = key" | "fst e \<noteq> key" "key < fst e" | "fst e \<noteq> key" "fst e < key" "\<not> key < fst e"
    by (cases "fst e" key rule: linorder_cases) auto
  then show ?case
  proof cases
    case 1
    then have "found \<and> prev = p \<and> target = Some (key, snd e)" using Cons.prems by (cases e) auto
    then show ?thesis using 1 by (intro exI [of _ "[]"] exI [of _ "e # es"]) (cases e; auto)
  next
    case 2
    then have "\<not> found \<and> prev = p \<and> target = Some e" using Cons.prems by auto
    then show ?thesis using 2 Cons.prems(1)
      by (intro exI [of _ "[]"] exI [of _ "e # es"]) (auto simp: bucket_ok_Cons intro: less_trans)
  next
    case 3
    then obtain pre post where "es = pre @ post" "prev = Suc p + length pre" "\<forall>x \<in> set pre. fst x < key"
      "if found then \<exists>v post'. post = (key, v) # post' \<and> target = Some (key, v)
       else (\<forall>x \<in> set post. key < fst x) \<and> target = (case post of [] \<Rightarrow> None | x # _ \<Rightarrow> Some x)"
      using Cons.IH [of "Suc p"] Cons.prems by (auto simp: bucket_ok_Cons)
    then show ?thesis using 3 by (intro exI [of _ "e # pre"] exI [of _ post]) simp
  qed
qed

lemma map_of_below_append:
  "(\<forall>x \<in> set pre. fst x < key) \<Longrightarrow> map_of (pre @ post) key = map_of post (key :: u64)"
  by (induction pre) auto

lemma map_of_mid: "x \<noteq> k \<Longrightarrow> map_of (pre @ (k, v) # post) x = map_of (pre @ post) x"
  by (simp add: map_add_def split: option.split)

lemma bucket_Get_spec:
  assumes "bucket_ok es" shows "bucket_Get key es = map_of es key"
proof -
  obtain found prev target where f: "bucket_Find key es 0 = (found, prev, target)" by (metis prod_cases3)
  from bucket_Find_spec [OF assms f] obtain pre post where
    p: "es = pre @ post" "\<forall>x \<in> set pre. fst x < key"
      "if found then \<exists>v post'. post = (key, v) # post' \<and> target = Some (key, v)
       else (\<forall>x \<in> set post. key < fst x) \<and> target = (case post of [] \<Rightarrow> None | x # _ \<Rightarrow> Some x)"
    by blast
  have "bucket_Get key es = (if found then map_option snd target else None)"
    by (simp add: bucket_Get_def f split: option.split)
  also have "\<dots> = map_of post key"
    using p(3) by (cases found) (auto simp: map_of_above)
  finally show ?thesis by (simp only: p(1) map_of_below_append [OF p(2)])
qed

lemma bucket_Has_spec: "bucket_ok es \<Longrightarrow> bucket_Has key es \<longleftrightarrow> map_of es key \<noteq> None"
proof (induction es)
  case (Cons e es)
  have "map_of es key = None" if "key \<le> fst e"
    using Cons.prems that by (intro map_of_above) (auto simp: bucket_ok_Cons)
  then show ?case using Cons by (auto simp: bucket_ok_Cons)
qed simp

lemma bucket_Insert_shape:
  assumes "bucket_ok es"
  obtains (update) pre v post where "es = pre @ (key, v) # post" "bucket_Insert key val es = pre @ (key, val) # post"
      "\<forall>x \<in> set pre. fst x < key"
    | (link) pre post where "es = pre @ post" "bucket_Insert key val es = pre @ (key, val) # post"
      "\<forall>x \<in> set pre. fst x < key" "\<forall>x \<in> set post. key < fst x"
proof -
  obtain found prev target where f: "bucket_Find key es 0 = (found, prev, target)" by (metis prod_cases3)
  from bucket_Find_spec [OF assms f] obtain pre post where
    p: "es = pre @ post" "prev = length pre" "\<forall>x \<in> set pre. fst x < key"
      "if found then \<exists>v post'. post = (key, v) # post' \<and> target = Some (key, v)
       else (\<forall>x \<in> set post. key < fst x) \<and> target = (case post of [] \<Rightarrow> None | x # _ \<Rightarrow> Some x)"
    by auto
  show ?thesis
  proof (cases found)
    case True
    then obtain v post' where "post = (key, v) # post'" using p(4) by auto
    then show ?thesis using p True f by (intro update [of pre v post']) (auto simp: bucket_Insert_def)
  next
    case False
    then show ?thesis using p f by (intro link [of pre post]) (auto simp: bucket_Insert_def)
  qed
qed

lemma bucket_Insert_spec:
  assumes "bucket_ok es"
  shows "bucket_ok (bucket_Insert key val es)"
    and "map_of (bucket_Insert key val es) = (map_of es)(key \<mapsto> val)"
    and "fst ` set (bucket_Insert key val es) = Set.insert key (fst ` set es)"
proof -
  have "bucket_ok (bucket_Insert key val es) \<and>
    map_of (bucket_Insert key val es) = (map_of es)(key \<mapsto> val) \<and>
    fst ` set (bucket_Insert key val es) = Set.insert key (fst ` set es)"
    using assms
  proof (cases rule: bucket_Insert_shape [where key = key and val = val])
    case (update pre v post)
    have "map_of (pre @ (key, val) # post) x = ((map_of es)(key \<mapsto> val)) x" for x
      using update(1,3) by (cases "x = key") (simp_all add: map_of_below_append map_of_mid del: map_of_append)
    then show ?thesis using update assms by (auto simp: bucket_ok_def sorted_wrt_append)
  next
    case (link pre post)
    have "map_of (pre @ (key, val) # post) x = ((map_of es)(key \<mapsto> val)) x" for x
      using link(1,3) by (cases "x = key") (simp_all add: map_of_below_append map_of_mid del: map_of_append)
    then show ?thesis using link assms by (auto simp: bucket_ok_def sorted_wrt_append)
  qed
  then show "bucket_ok (bucket_Insert key val es)"
    and "map_of (bucket_Insert key val es) = (map_of es)(key \<mapsto> val)"
    and "fst ` set (bucket_Insert key val es) = Set.insert key (fst ` set es)" by auto
qed

section \<open>The table is a map\<close>

definition ahm_ok :: "'v hash_map \<Rightarrow> bool" where
  "ahm_ok m \<longleftrightarrow> length (table m) = unat (mod_num m) + 1 \<and>
     (\<forall>i < length (table m). bucket_ok (table m ! i) \<and> (\<forall>e \<in> set (table m ! i). ahm_index m (fst e) = i))"

lemma ahm_index_bound: "ahm_ok m \<Longrightarrow> ahm_index m key < length (table m)"
  using word_and_le1 [of key "mod_num m"] by (simp add: ahm_ok_def ahm_index_def word_le_nat_alt)

lemma ahm_Get_map_of: "ahm_ok m \<Longrightarrow> ahm_Get m key = map_of (table m ! ahm_index m key) key"
  using ahm_index_bound [of m key] by (simp add: ahm_Get_def bucket_Get_spec ahm_ok_def)

lemma ahm_Has_Get: "ahm_ok m \<Longrightarrow> ahm_Has key m \<longleftrightarrow> ahm_Get m key \<noteq> None"
  using ahm_index_bound [of m key] by (simp add: ahm_Has_def ahm_Get_map_of bucket_Has_spec ahm_ok_def)

lemma ahm_Set_index [simp]: "ahm_index (ahm_Set key value m) k = ahm_index m k"
  by (simp add: ahm_Set_def ahm_index_def)

lemma ahm_Set_ok:
  assumes "ahm_ok m" shows "ahm_ok (ahm_Set key val m)"
proof -
  let ?i = "ahm_index m key"
  let ?b = "bucket_Insert key val (table m ! ?i)"
  have i: "?i < length (table m)" by (rule ahm_index_bound [OF assms])
  then have old: "bucket_ok (table m ! ?i)" "\<forall>e \<in> set (table m ! ?i). ahm_index m (fst e) = ?i"
    using assms by (auto simp: ahm_ok_def)
  have "ahm_index m (fst e) = ?i" if "e \<in> set ?b" for e
    using that old(2) imageI [OF that, of fst] unfolding bucket_Insert_spec(3) [OF old(1)] by auto
  moreover have "table (ahm_Set key val m) = (table m)[?i := ?b]" "mod_num (ahm_Set key val m) = mod_num m"
    by (simp_all add: ahm_Set_def)
  ultimately show ?thesis
    using assms bucket_Insert_spec(1) [OF old(1)] i
    by (auto simp: ahm_ok_def nth_list_update)
qed

lemma ahm_Get_Set:
  assumes "ahm_ok m" shows "ahm_Get (ahm_Set key v m) = (ahm_Get m)(key \<mapsto> v)"
proof
  fix k
  have i: "ahm_index m key < length (table m)" "ahm_index m k < length (table m)"
    by (rule ahm_index_bound [OF assms])+
  then have ok: "bucket_ok (table m ! ahm_index m key)" "bucket_ok (table m ! ahm_index m k)"
    using assms by (auto simp: ahm_ok_def)
  have "table (ahm_Set key v m) = (table m)[ahm_index m key := bucket_Insert key v (table m ! ahm_index m key)]"
    by (simp add: ahm_Set_def)
  then have "ahm_Get (ahm_Set key v m) k = bucket_Get k
      (if ahm_index m k = ahm_index m key then bucket_Insert key v (table m ! ahm_index m key)
       else table m ! ahm_index m k)"
    using i by (simp add: ahm_Get_def nth_list_update)
  also have "\<dots> = ((ahm_Get m)(key \<mapsto> v)) k"
    using ok by (auto simp: bucket_Get_spec bucket_Insert_spec ahm_Get_def)
  finally show "ahm_Get (ahm_Set key v m) k = ((ahm_Get m)(key \<mapsto> v)) k" .
qed

interpretation ahm: map_store ahm_ok ahm_Get ahm_Set
  by unfold_locales (auto simp: ahm_Get_Set ahm_Set_ok)

lemma ahm_construct_ok: "TableSize \<noteq> 0 \<Longrightarrow> ahm_ok (ahm_construct TableSize)"
  by (auto simp: ahm_construct_def ahm_ok_def bucket_ok_def unat_minus_one unat_gt_0)

lemma ahm_Get_construct: "TableSize \<noteq> 0 \<Longrightarrow> ahm_Get (ahm_construct TableSize :: 'a hash_map) = (\<lambda>_. None)"
proof
  fix k :: u64 assume "TableSize \<noteq> 0"
  then have "ahm_index (ahm_construct TableSize :: 'a hash_map) k < unat TableSize"
    using ahm_index_bound [OF ahm_construct_ok, of TableSize k] by (simp add: ahm_construct_def)
  then show "ahm_Get (ahm_construct TableSize :: 'a hash_map) k = None"
    by (simp add: ahm_Get_def ahm_construct_def bucket_Get_def)
qed

section \<open>Concurrent insertions into one bucket\<close>

text \<open>
  Any number of threads run \<open>Insert\<close> on the same bucket.  Entries are never unlinked, so an
  entry is identified by its key and the sentinel is \<open>None\<close>.  Program counters: at the top of the
  retry loop; walking, with \<open>prev\<close> reached; found, before the compare-and-swap of \<open>value_ptr\<close>; at
  a gap, before the compare-and-swap of \<open>prev->next\<close>; returned.  \<open>done\<close> is a history variable:
  the insertions in the order of their successful compare-and-swap.  A compare-and-swap of
  \<open>value_ptr\<close> may fail (another thread replaced the value): both outcomes are steps.
\<close>

datatype 'v inserter =
    InsLoop u64 'v | InsWalk u64 'v "u64 option" | InsFound u64 'v
  | InsGap u64 'v "u64 option" "u64 option" | InsReturned

record 'v bucket_conc =
  chain :: "'v bucket"
  inserters :: "nat \<Rightarrow> 'v inserter"
  done_log :: "(u64 \<times> 'v) list"

text \<open>\<open>prev->next\<close>.\<close>

fun after :: "u64 option \<Rightarrow> 'v bucket \<Rightarrow> u64 option" where
  "after p [] = None"
| "after None (e # es) = Some (fst e)"
| "after (Some k) (e # es) =
     (if fst e = k then (case es of [] \<Rightarrow> None | e' # _ \<Rightarrow> Some (fst e')) else after (Some k) es)"

fun link_after :: "u64 option \<Rightarrow> u64 \<times> 'v \<Rightarrow> 'v bucket \<Rightarrow> 'v bucket" where
  "link_after None x es = x # es"
| "link_after (Some k) x [] = []"
| "link_after (Some k) x (e # es) = (if fst e = k then e # x # es else e # link_after (Some k) x es)"

inductive insert_step :: "nat \<Rightarrow> 'v bucket_conc \<Rightarrow> 'v bucket_conc \<Rightarrow> bool" for t where
  begin_find: "inserters s t = InsLoop k v \<Longrightarrow>
    insert_step t s (s\<lparr> inserters := (inserters s)(t := InsWalk k v None) \<rparr>)"
| at_key: "\<lbrakk>inserters s t = InsWalk k v p; after p (chain s) = Some k\<rbrakk> \<Longrightarrow>
    insert_step t s (s\<lparr> inserters := (inserters s)(t := InsFound k v) \<rparr>)"
| at_gap: "\<lbrakk>inserters s t = InsWalk k v p; after p (chain s) = g; g = None \<or> k < the g\<rbrakk> \<Longrightarrow>
    insert_step t s (s\<lparr> inserters := (inserters s)(t := InsGap k v p g) \<rparr>)"
| walk_on: "\<lbrakk>inserters s t = InsWalk k v p; after p (chain s) = Some k'; k' < k\<rbrakk> \<Longrightarrow>
    insert_step t s (s\<lparr> inserters := (inserters s)(t := InsWalk k v (Some k')) \<rparr>)"
| swap_value: "inserters s t = InsFound k v \<Longrightarrow>
    insert_step t s (s\<lparr> chain := map (\<lambda>e. if fst e = k then (k, v) else e) (chain s),
      inserters := (inserters s)(t := InsReturned), done_log := done_log s @ [(k, v)] \<rparr>)"
| swap_value_fail: "inserters s t = InsFound k v \<Longrightarrow>
    insert_step t s (s\<lparr> inserters := (inserters s)(t := InsLoop k v) \<rparr>)"
| link_entry: "\<lbrakk>inserters s t = InsGap k v p g; after p (chain s) = g\<rbrakk> \<Longrightarrow>
    insert_step t s (s\<lparr> chain := link_after p (k, v) (chain s),
      inserters := (inserters s)(t := InsReturned), done_log := done_log s @ [(k, v)] \<rparr>)"
| link_entry_fail: "\<lbrakk>inserters s t = InsGap k v p g; after p (chain s) \<noteq> g\<rbrakk> \<Longrightarrow>
    insert_step t s (s\<lparr> inserters := (inserters s)(t := InsLoop k v) \<rparr>)"
| call_insert: "inserters s t = InsReturned \<Longrightarrow>
    insert_step t s (s\<lparr> inserters := (inserters s)(t := InsLoop k v) \<rparr>)"

inductive insert_reach :: "'v bucket_conc \<Rightarrow> bool" where
  empty: "insert_reach \<lparr> chain = [], inserters = (\<lambda>_. InsReturned), done_log = [] \<rparr>"
| step: "\<lbrakk>insert_reach s; insert_step t s s'\<rbrakk> \<Longrightarrow> insert_reach s'"

fun inserter_ok :: "'v bucket \<Rightarrow> 'v inserter \<Rightarrow> bool" where
  "inserter_ok es (InsWalk k v p) = (\<forall>k'. p = Some k' \<longrightarrow> k' < k \<and> k' \<in> fst ` set es)"
| "inserter_ok es (InsFound k v) = (k \<in> fst ` set es)"
| "inserter_ok es (InsGap k v p g) =
     ((\<forall>k'. p = Some k' \<longrightarrow> k' < k \<and> k' \<in> fst ` set es) \<and> (\<forall>k'. g = Some k' \<longrightarrow> k < k'))"
| "inserter_ok es _ = True"

definition conc_ok :: "'v bucket_conc \<Rightarrow> bool" where
  "conc_ok s \<longleftrightarrow> bucket_ok (chain s) \<and> map_of (chain s) = map_of (rev (done_log s)) \<and>
     (\<forall>t. inserter_ok (chain s) (inserters s t))"

lemma inserter_ok_grow: "inserter_ok es pc \<Longrightarrow> fst ` set es \<subseteq> fst ` set es' \<Longrightarrow> inserter_ok es' pc"
  by (cases pc) auto

lemma after_in: "after p es = Some k \<Longrightarrow> k \<in> fst ` set es"
  by (induction p es rule: after.induct) (auto split: if_splits list.splits)

lemma map_of_swap:
  "x \<noteq> k \<Longrightarrow> map_of (map (\<lambda>e. if fst e = k then (k, v) else e) es) x = map_of es x"
  "k \<in> fst ` set es \<Longrightarrow> map_of (map (\<lambda>e. if fst e = k then (k, v) else e) es) k = Some v"
proof -
  show "x \<noteq> k \<Longrightarrow> map_of (map (\<lambda>e. if fst e = k then (k, v) else e) es) x = map_of es x"
    by (induction es) (simp_all add: map_of_Cons_code)
  show "k \<in> fst ` set es \<Longrightarrow> map_of (map (\<lambda>e. if fst e = k then (k, v) else e) es) k = Some v"
    by (induction es) auto
qed

lemma map_swap_value:
  assumes "bucket_ok es" "k \<in> fst ` set es"
  shows "bucket_ok (map (\<lambda>e. if fst e = k then (k, v) else e) es) \<and>
    map_of (map (\<lambda>e. if fst e = k then (k, v) else e) es) = (map_of es)(k \<mapsto> v) \<and>
    fst ` set (map (\<lambda>e. if fst e = k then (k, v) else e) es) = fst ` set es"
proof -
  have keys: "map fst (map (\<lambda>e. if fst e = k then (k, v) else e) es) = map fst es" by auto
  have "map_of (map (\<lambda>e. if fst e = k then (k, v) else e) es) x = ((map_of es)(k \<mapsto> v)) x" for x
    using assms(2) by (cases "x = k") (simp_all add: map_of_swap)
  moreover have "fst ` set (map (\<lambda>e. if fst e = k then (k, v) else e) es) = fst ` set es"
    using keys by (metis list.set_map)
  ultimately show ?thesis using assms(1) keys by (simp add: bucket_ok_def fun_eq_iff del: map_map)
qed

lemma link_after_spec:
  assumes "bucket_ok es" "\<forall>k'. p = Some k' \<longrightarrow> k' < k \<and> k' \<in> fst ` set es"
    and "\<forall>k'. after p es = Some k' \<longrightarrow> k < k'"
  shows "bucket_ok (link_after p (k, v) es) \<and> map_of (link_after p (k, v) es) = (map_of es)(k \<mapsto> v) \<and>
    fst ` set (link_after p (k, v) es) = Set.insert k (fst ` set es)"
  using assms
proof (induction p "(k, v)" es rule: link_after.induct)
  case (1 es)
  then show ?case by (cases es) (auto simp: bucket_ok_Cons intro: order.strict_trans)
next
  case (3 p e es)
  show ?case
  proof (cases "fst e = p")
    case True
    then have "\<forall>x \<in> set es. k < fst x"
      using 3 by (cases es) (auto simp: bucket_ok_Cons intro: order.strict_trans)
    then show ?thesis using True 3 by (auto simp: bucket_ok_Cons)
  next
    case False
    have p: "fst e < p" "p < k" "p \<in> fst ` set es" using False 3(2,3) by (auto simp: bucket_ok_Cons)
    have ih: "bucket_ok (link_after (Some p) (k, v) es)"
        "map_of (link_after (Some p) (k, v) es) = (map_of es)(k \<mapsto> v)"
        "fst ` set (link_after (Some p) (k, v) es) = Set.insert k (fst ` set es)"
      using 3 False p by (auto simp: bucket_ok_Cons)
    have "\<forall>y \<in> fst ` set (link_after (Some p) (k, v) es). fst e < y"
      unfolding ih(3) using p 3(2) by (auto simp: bucket_ok_Cons)
    then have "\<forall>x \<in> set (link_after (Some p) (k, v) es). fst e < fst x" by blast
    moreover have "fst e \<noteq> k" using p by auto
    ultimately show ?thesis using ih False by (auto simp: bucket_ok_Cons fun_upd_twist)
  qed
qed auto

lemma insert_step_ok:
  assumes "insert_step t s s'" "conc_ok s" shows "conc_ok s'"
proof -
  have b: "bucket_ok (chain s)" and m: "map_of (chain s) = map_of (rev (done_log s))"
    and pcs: "\<And>r. inserter_ok (chain s) (inserters s r)" using assms(2) by (auto simp: conc_ok_def)
  show ?thesis
    using assms(1)
  proof (cases rule: insert_step.cases)
    case (at_key k v p)
    then show ?thesis using assms(2) after_in [OF at_key(3)] by (auto simp: conc_ok_def)
  next
    case (at_gap k v p g)
    then show ?thesis using assms(2) pcs [of t] by (auto simp: conc_ok_def)
  next
    case (walk_on k v p k')
    then show ?thesis using assms(2) after_in [OF walk_on(3)] by (auto simp: conc_ok_def)
  next
    case (swap_value k v)
    then have "k \<in> fst ` set (chain s)" using pcs [of t] by simp
    note n = map_swap_value [OF b this, of v]
    have "inserter_ok (map (\<lambda>e. if fst e = k then (k, v) else e) (chain s)) (inserters s r)" for r
      by (rule inserter_ok_grow [OF pcs [of r]]) (simp only: n subset_insertI order.refl)
    then show ?thesis using m n by (simp add: swap_value conc_ok_def)
  next
    case (link_entry k v p g)
    then have n: "bucket_ok (link_after p (k, v) (chain s)) \<and>
        map_of (link_after p (k, v) (chain s)) = (map_of (chain s))(k \<mapsto> v) \<and>
        fst ` set (link_after p (k, v) (chain s)) = Set.insert k (fst ` set (chain s))"
      using pcs [of t] by (intro link_after_spec b) auto
    have "inserter_ok (link_after p (k, v) (chain s)) (inserters s r)" for r
      by (rule inserter_ok_grow [OF pcs [of r]]) (simp only: n subset_insertI order.refl)
    then show ?thesis using m n by (simp add: link_entry conc_ok_def)
  qed (use assms(2) in \<open>auto simp: conc_ok_def\<close>)
qed

lemma insert_reach_ok: "insert_reach s \<Longrightarrow> conc_ok s"
  by (induction rule: insert_reach.induct) (auto simp: insert_step_ok, simp add: conc_ok_def bucket_ok_def)

section \<open>Properties\<close>

text \<open>C14: the hash map is a finite map.  After any sequence of \<open>Set\<close> calls on a new table, \<open>Get\<close>
  of a key returns the value of the last \<open>Set\<close> of that key, fails on a key never set, and
  \<open>Has\<close> agrees with it, whatever keys share a bucket.\<close>

theorem hash_map_is_map:
  fixes kvs :: "(u64 \<times> 'v) list"
  assumes "TableSize \<noteq> 0"
  defines "m \<equiv> fold (\<lambda>(k, v). ahm_Set k v) kvs (ahm_construct TableSize)"
  shows "ahm_Get m key = map_of (rev kvs) key \<and> (ahm_Has key m = (key \<in> fst ` set kvs))"
proof -
  have m: "ahm_ok m \<and> ahm_Get m = map_of (rev kvs)"
    using ahm.fold_insert [OF ahm_construct_ok [OF assms(1)], of kvs]
    by (simp add: m_def ahm_Get_construct assms(1))
  then have "ahm_Has key m = (map_of (rev kvs) key \<noteq> None)" by (simp add: ahm_Has_Get)
  then show ?thesis using m by (simp add: map_of_eq_None_iff)
qed

lemma hash_map_is_map_witness:
  "ahm_Get (fold (\<lambda>(k, v). ahm_Set k v) [(1, 10), (129, 20), (1, 30 :: int)] (ahm_construct 128)) 1 = Some 30"
  using hash_map_is_map [of 128 "[(1, 10), (129, 20), (1, 30 :: int)]" 1] by simp

text \<open>C21: concurrent insertions into a bucket: in every reachable state the chain is strictly
  sorted by key (so no key occurs twice) and holds exactly the map that the completed insertions
  give when applied one after the other in the order of their successful compare-and-swap.\<close>

theorem concurrent_insert_linearizable:
  assumes "insert_reach s"
  shows "sorted_wrt (<) (map fst (chain s)) \<and> map_of (chain s) = map_of (rev (done_log s))"
  using insert_reach_ok [OF assms] by (simp add: conc_ok_def bucket_ok_def)

lemma concurrent_insert_linearizable_witness:
  "\<exists>s. insert_reach s \<and> done_log s = [(4, 1 :: int)] \<and> map_of (chain s) = [4 \<mapsto> 1]"
proof -
  let ?s0 = "\<lparr> chain = [], inserters = (\<lambda>_. InsReturned), done_log = [] \<rparr>"
  let ?s1 = "?s0\<lparr> inserters := (inserters ?s0)(0 := InsLoop 4 (1::int)) \<rparr>"
  let ?s2 = "?s1\<lparr> inserters := (inserters ?s1)(0 := InsWalk 4 1 None) \<rparr>"
  let ?s3 = "?s2\<lparr> inserters := (inserters ?s2)(0 := InsGap 4 1 None None) \<rparr>"
  let ?s4 = "?s3\<lparr> chain := link_after None (4, 1) (chain ?s3),
      inserters := (inserters ?s3)(0 := InsReturned), done_log := done_log ?s3 @ [(4, 1)] \<rparr>"
  have "insert_reach ?s1" by (rule step [OF empty call_insert]) simp
  then have "insert_reach ?s2" by (rule step [OF _ begin_find]) simp
  then have "insert_reach ?s3" by (rule step [OF _ at_gap [where p = None and g = None]]) simp_all
  then have r: "insert_reach ?s4" by (rule step [OF _ link_entry [where p = None and g = None]]) simp_all
  then have "map_of (chain ?s4) = map_of (rev (done_log ?s4))" by (rule concurrent_insert_linearizable [THEN conjunct2])
  then show ?thesis by (intro exI [of _ ?s4] conjI r) simp_all
qed

end
