(* ===== verification/DataBuffers.thy ===== *)
theory DataBuffers
  imports AtomicHashMap
begin

text \<open>
  The data plane of a process: \<open>data/buffer/cache_buffer.h\<close> and \<open>channel_buffer.h\<close> (the ring that
  keeps the newest messages of a channel), \<open>data/data_visitor/data_visitor.h\<close> and
  \<open>data/data_fusion/all_latest.h\<close> (readers with an index of their own), \<open>data/data_notifier.h\<close> and
  \<open>data/data_dispatcher.h\<close> (what happens when a message arrives).  The mutexes make each operation
  atomic.  The tables of the notifier and the dispatcher are hash maps of \<open>AtomicHashMap\<close>.
\<close>

section \<open>The cache buffer\<close>

record 'm cache_buffer =
  cb_head :: u64
  cb_tail :: u64
  cb_capacity :: u64
  cb_buffer :: "'m list"

definition cb_construct :: "'m \<Rightarrow> u64 \<Rightarrow> 'm cache_buffer" where
  "cb_construct dflt sz = \<lparr> cb_head = 0, cb_tail = 0, cb_capacity = sz + 1,
     cb_buffer = replicate (unat (sz + 1)) dflt \<rparr>"

definition cb_GetIndex :: "'m cache_buffer \<Rightarrow> u64 \<Rightarrow> nat" where
  "cb_GetIndex b pos = unat (pos mod cb_capacity b)"

definition cb_at :: "'m cache_buffer \<Rightarrow> u64 \<Rightarrow> 'm" where
  "cb_at b pos = cb_buffer b ! cb_GetIndex b pos"

definition cb_Head :: "'m cache_buffer \<Rightarrow> u64" where "cb_Head b = cb_head b + 1"
definition cb_Tail :: "'m cache_buffer \<Rightarrow> u64" where "cb_Tail b = cb_tail b"
definition cb_Size :: "'m cache_buffer \<Rightarrow> u64" where "cb_Size b = cb_tail b - cb_head b"
definition cb_Front :: "'m cache_buffer \<Rightarrow> 'm" where "cb_Front b = cb_at b (cb_head b + 1)"
definition cb_Back :: "'m cache_buffer \<Rightarrow> 'm" where "cb_Back b = cb_at b (cb_tail b)"
definition cb_Empty :: "'m cache_buffer \<Rightarrow> bool" where "cb_Empty b \<longleftrightarrow> cb_tail b = 0"
definition cb_Full :: "'m cache_buffer \<Rightarrow> bool" where
  "cb_Full b \<longleftrightarrow> cb_capacity b - 1 = cb_tail b - cb_head b"
definition cb_Capacity :: "'m cache_buffer \<Rightarrow> u64" where "cb_Capacity b = cb_capacity b"

text \<open>\<open>Fill\<close> of a buffer without a fusion callback.\<close>

definition cb_Fill :: "'m \<Rightarrow> 'm cache_buffer \<Rightarrow> 'm cache_buffer" where
  "cb_Fill x b =
     (if cb_Full b then
        b\<lparr> cb_buffer := (cb_buffer b)[cb_GetIndex b (cb_head b) := x],
          cb_head := cb_head b + 1, cb_tail := cb_tail b + 1 \<rparr>
      else
        b\<lparr> cb_buffer := (cb_buffer b)[cb_GetIndex b (cb_tail b + 1) := x],
          cb_tail := cb_tail b + 1 \<rparr>)"

section \<open>The channel buffer\<close>

text \<open>The index is an in-out argument: the result is its new value and the message, if there is one.\<close>

definition Fetch :: "u64 \<Rightarrow> 'm cache_buffer \<Rightarrow> u64 \<times> 'm option" where
  "Fetch index b =
     (if cb_Empty b then (index, None)
      else if index = 0 then (cb_Tail b, Some (cb_at b (cb_Tail b)))
      else if index = cb_Tail b + 1 then (index, None)
      else if index < cb_Head b then (cb_Tail b, Some (cb_at b (cb_Tail b)))
      else (index, Some (cb_at b index)))"

definition Latest :: "'m cache_buffer \<Rightarrow> 'm option" where
  "Latest b = (if cb_Empty b then None else Some (cb_Back b))"

text \<open>\<open>FetchMulti\<close>: the loop from \<open>Tail() - num + 1\<close> to \<open>Tail()\<close>.\<close>

definition FetchMulti :: "u64 \<Rightarrow> 'm cache_buffer \<Rightarrow> 'm list option" where
  "FetchMulti fetch_size b =
     (if cb_Empty b then None
      else (let num = min (cb_Size b) fetch_size
            in Some (map (\<lambda>i. cb_at b (of_nat i))
                 [unat (cb_Tail b - num + 1)..<Suc (unat (cb_Tail b))])))"

section \<open>The buffer keeps the newest messages\<close>

text \<open>\<open>log\<close>: every message filled so far; \<open>n\<close> more fit in the 64-bit counters.\<close>

definition cb_inv :: "nat \<Rightarrow> 'm list \<Rightarrow> 'm cache_buffer \<Rightarrow> bool" where
  "cb_inv n log b \<longleftrightarrow> unat (cb_tail b) = length log \<and> length log + n < 2 ^ 64 - 1 \<and>
     1 \<le> unat (cb_capacity b) \<and> length (cb_buffer b) = unat (cb_capacity b) \<and>
     unat (cb_head b) = length log - (unat (cb_capacity b) - 1) \<and>
     (\<forall>p. 1 \<le> p \<and> p \<le> length log \<and> length log < p + unat (cb_capacity b) \<longrightarrow>
        cb_buffer b ! (p mod unat (cb_capacity b)) = log ! (p - 1))"

lemma cb_inv_mono: "cb_inv (Suc n) log b \<Longrightarrow> cb_inv n log b"
  by (simp add: cb_inv_def)

lemma cb_construct_inv: "unat sz + 1 < 2 ^ 64 \<Longrightarrow> n < 2 ^ 64 - 1 \<Longrightarrow> cb_inv n [] (cb_construct d sz)"
  by (simp add: cb_inv_def cb_construct_def word_nat)

lemma cb_GetIndex_nat: "cb_GetIndex b pos = unat pos mod unat (cb_capacity b)"
  by (simp add: cb_GetIndex_def unat_mod)

lemma cb_facts:
  assumes "cb_inv n log b"
  shows "unat (cb_tail b) = length log" "length log + n < 2 ^ 64 - 1" "1 \<le> unat (cb_capacity b)"
    "unat (cb_head b) = length log - (unat (cb_capacity b) - 1)"
  using assms by (auto simp: cb_inv_def)

lemma cb_Full_iff:
  assumes "cb_inv n log b"
  shows "cb_Full b \<longleftrightarrow> unat (cb_capacity b) - 1 \<le> length log"
proof -
  note c = cb_facts [OF assms]
  have "unat (cb_capacity b - 1) = unat (cb_capacity b) - 1"
    using c unat_sub_le [of "1 :: u64" "cb_capacity b"] by simp
  moreover have "unat (cb_tail b - cb_head b) = unat (cb_tail b) - unat (cb_head b)"
    by (rule unat_sub_le) (simp only: c diff_le_self)
  ultimately have "cb_Full b \<longleftrightarrow> unat (cb_capacity b) - 1 = length log - (length log - (unat (cb_capacity b) - 1))"
    using c by (simp only: cb_Full_def unat_inject_iff)
  then show ?thesis by arith
qed

lemma cb_Fill_cell:
  assumes i: "cb_inv n log b"
  shows "cb_buffer (cb_Fill x b) = (cb_buffer b)[Suc (length log) mod unat (cb_capacity b) := x]"
proof -
  have t: "unat (cb_tail b + 1) = Suc (length log)" using i by (simp add: cb_inv_def word_nat)
  show ?thesis
  proof (cases "cb_Full b")
    case True
    have "Suc (length log) = unat (cb_head b) + unat (cb_capacity b)"
      using cb_Full_iff [OF i] True i by (auto simp: cb_inv_def)
    then show ?thesis using True by (simp add: cb_Fill_def cb_GetIndex_nat)
  next
    case False
    then show ?thesis using t by (simp add: cb_Fill_def cb_GetIndex_nat)
  qed
qed

lemma cb_Fill_inv:
  assumes i: "cb_inv (Suc n) log b" shows "cb_inv n (log @ [x]) (cb_Fill x b)"
proof -
  let ?c = "unat (cb_capacity b)"
  have c: "unat (cb_tail b) = length log" "1 \<le> ?c" "length (cb_buffer b) = ?c"
    "unat (cb_head b) = length log - (?c - 1)" "length log + Suc n < 2 ^ 64 - 1"
    "\<And>p. \<lbrakk>1 \<le> p; p \<le> length log; length log < p + ?c\<rbrakk> \<Longrightarrow> cb_buffer b ! (p mod ?c) = log ! (p - 1)"
    using i by (auto simp: cb_inv_def)
  have t: "unat (cb_tail b + 1) = Suc (length log)" using c by (simp add: word_nat)
  have h: "unat (cb_head b + 1) = Suc (unat (cb_head b))" using c by (simp add: word_nat)
  have cell: "(cb_buffer b)[Suc (length log) mod ?c := x] ! (p mod ?c) = (log @ [x]) ! (p - 1)"
    if "1 \<le> p" "p \<le> Suc (length log)" "Suc (length log) < p + ?c" for p
  proof (cases "p = Suc (length log)")
    case True
    then show ?thesis using c by (simp add: nth_append)
  next
    case False
    then have "p mod ?c \<noteq> Suc (length log) mod ?c" using ring_distinct [of p ?c "Suc (length log)"] that by auto
    moreover have "p - 1 < length log" using that False by linarith
    ultimately show ?thesis using that False c(6) [of p] by (simp add: nth_append)
  qed
  have hd: "unat (cb_head (cb_Fill x b)) = Suc (length log) - (?c - 1)"
    using cb_Full_iff [OF i] c h by (auto simp: cb_Fill_def)
  have "cb_tail (cb_Fill x b) = cb_tail b + 1" "cb_capacity (cb_Fill x b) = cb_capacity b"
    by (auto simp: cb_Fill_def)
  then show ?thesis
    using c t hd cell by (auto simp: cb_inv_def cb_Fill_cell [OF i])
qed

lemma cb_at_log:
  assumes "cb_inv n log b" "1 \<le> unat pos" "unat pos \<le> length log" "length log < unat pos + unat (cb_capacity b)"
  shows "cb_at b pos = log ! (unat pos - 1)"
  using assms by (simp add: cb_inv_def cb_at_def cb_GetIndex_nat)

lemma cb_Empty_iff: "cb_inv n log b \<Longrightarrow> cb_Empty b \<longleftrightarrow> log = []"
  by (auto simp: cb_inv_def cb_Empty_def unat_eq_zero)

lemma cb_Tail_log:
  assumes "cb_inv n log b" "log \<noteq> []" shows "cb_at b (cb_Tail b) = last log"
proof -
  have t: "unat (cb_Tail b) = length log" "1 \<le> unat (cb_capacity b)"
    using assms(1) by (auto simp: cb_inv_def cb_Tail_def)
  have "1 \<le> length log" using assms(2) by (cases log) auto
  then show ?thesis using cb_at_log [OF assms(1), of "cb_Tail b"] t assms(2) by (simp add: last_conv_nth)
qed

lemma Latest_spec: "cb_inv n log b \<Longrightarrow> Latest b = (if log = [] then None else Some (last log))"
  using cb_Empty_iff [of n log b] cb_Tail_log [of n log b] by (auto simp: Latest_def cb_Back_def cb_Tail_def)

lemma Fetch_spec:
  assumes i: "cb_inv n log b" and idx: "unat index \<le> length log + 1"
  shows "Fetch index b =
    (if log = [] then (index, None)
     else if index = 0 \<or> unat index \<noteq> length log + 1 \<and> length log \<ge> unat index + (unat (cb_capacity b) - 1)
       then (of_nat (length log), Some (last log))
     else if unat index = length log + 1 then (index, None)
     else (index, Some (log ! (unat index - 1))))"
proof -
  note c = cb_facts [OF i]
  have t: "cb_Tail b = of_nat (length log)" using c by (simp add: cb_Tail_def unat_inject_iff unat_of_nat_less)
  have e: "index = cb_Tail b + 1 \<longleftrightarrow> unat index = length log + 1"
    using c by (simp add: cb_Tail_def unat_inject_iff word_nat)
  have h: "index < cb_Head b \<longleftrightarrow> unat index \<le> unat (cb_head b)"
    using c by (simp add: cb_Head_def word_less_nat_alt word_nat less_Suc_eq_le)
  have z: "index = 0 \<longleftrightarrow> unat index = 0" by (simp add: unat_eq_zero)
  show ?thesis
  proof (cases "log = []")
    case True
    then show ?thesis using cb_Empty_iff [OF i] by (simp add: Fetch_def)
  next
    case False
    note l = cb_Tail_log [OF i False] cb_Empty_iff [OF i]
    have "cb_at b index = log ! (unat index - 1)" if "index \<noteq> 0" "unat index \<noteq> length log + 1" "\<not> index < cb_Head b"
      using that c h idx by (intro cb_at_log [OF i]) (auto simp: z Suc_le_eq)
    then show ?thesis using False l e h z c idx by (auto simp: Fetch_def t)
  qed
qed

lemma map_tl_eq_drop: "a \<le> length log \<Longrightarrow> map (\<lambda>p. log ! (p - 1)) [Suc a..<Suc (length log)] = drop a log"
  by (intro nth_equalityI) (auto simp del: upt_Suc)

lemma FetchMulti_spec:
  assumes i: "cb_inv n log b" and ne: "log \<noteq> []"
  shows "FetchMulti k b = Some (drop (length log - min (min (length log) (unat (cb_capacity b) - 1)) (unat k)) log)"
proof -
  let ?c = "unat (cb_capacity b)"
  note c = cb_facts [OF i]
  have sz: "unat (cb_Size b) = min (length log) (?c - 1)"
    using c by (auto simp: cb_Size_def unat_sub_le min_def)
  let ?m = "min (min (length log) (?c - 1)) (unat k)"
  have num: "unat (min (cb_Size b) k) = ?m" using sz by (auto simp: min_def word_le_nat_alt)
  have lo: "unat (cb_Tail b - min (cb_Size b) k + 1) = Suc (length log - ?m)"
  proof -
    have "unat (cb_Tail b - min (cb_Size b) k) = length log - ?m"
      using num c by (simp add: cb_Tail_def unat_sub_le)
    moreover have "length log - ?m + 1 < 2 ^ 64" using c by linarith
    ultimately show ?thesis using unat_add_one_nowrap [of "cb_Tail b - min (cb_Size b) k"] by simp
  qed
  have "map (\<lambda>i. cb_at b (of_nat i)) [Suc (length log - ?m)..<Suc (length log)]
      = map (\<lambda>p. log ! (p - 1)) [Suc (length log - ?m)..<Suc (length log)]"
  proof (intro map_upt_cong)
    fix p assume p: "Suc (length log - ?m) \<le> p" "p < Suc (length log)"
    have "unat (of_nat p :: u64) = p" using p c by (intro unat_of_nat_less) auto
    then show "cb_at b (of_nat p) = log ! (p - 1)" using p c cb_at_log [OF i, of "of_nat p"] by simp
  qed
  moreover have "unat (cb_Tail b) = length log" using c by (simp add: cb_Tail_def)
  moreover have "\<not> cb_Empty b" using cb_Empty_iff [OF i] ne by simp
  ultimately have "FetchMulti k b = Some (map (\<lambda>p. log ! (p - 1)) [Suc (length log - ?m)..<Suc (length log)])"
    by (simp only: FetchMulti_def Let_def lo if_False)
  then show ?thesis using map_tl_eq_drop [of "length log - ?m" log] by simp
qed

end
