(* ===== verification/RuntimeState.thy ===== *)
theory RuntimeState
  imports Prelude
begin

text \<open>
  The run state of the process: \<open>state.h\<close>, \<open>state.cpp\<close> and \<open>init.cpp\<close>.  The three clean-up
  functions are recorded, with the state they run in, in the order \<open>Clear\<close> calls them.
\<close>

datatype State = STATE_UNINITIALIZED | STATE_INITIALIZED | STATE_SHUTTING_DOWN | STATE_SHUTDOWN

datatype clean_up = SchedulerCleanUp | TransportCleanUp | TopologyCleanUp

text \<open>\<open>g_rcmw_state\<close> is a zero-initialised atomic; \<open>at_exit\<close> counts the registered handlers.\<close>

record process_state =
  g_rcmw_state :: State
  at_exit :: nat
  clean_ups :: "(clean_up \<times> State) list"
  logfile :: "string option"

definition process_start :: process_state where
  "process_start = \<lparr> g_rcmw_state = STATE_UNINITIALIZED, at_exit = 0, clean_ups = [], logfile = None \<rparr>"

definition SetState :: "State \<Rightarrow> process_state \<Rightarrow> process_state" where
  "SetState st p = p\<lparr> g_rcmw_state := st \<rparr>"

definition rcmw_OK :: "process_state \<Rightarrow> bool" where
  "rcmw_OK p \<longleftrightarrow> g_rcmw_state p = STATE_INITIALIZED"

definition IsShutdown :: "process_state \<Rightarrow> bool" where
  "IsShutdown p \<longleftrightarrow> g_rcmw_state p = STATE_SHUTTING_DOWN \<or> g_rcmw_state p = STATE_SHUTDOWN"

text \<open>\<open>Init\<close>: the log file, one exit handler, the state.\<close>

definition rcmw_Init :: "string \<Rightarrow> process_state \<Rightarrow> bool \<times> process_state" where
  "rcmw_Init binary_name p =
     (True, SetState STATE_INITIALIZED
        (p\<lparr> logfile := Some (binary_name @ ''.log''), at_exit := Suc (at_exit p) \<rparr>))"

definition run_clean_up :: "clean_up \<Rightarrow> process_state \<Rightarrow> process_state" where
  "run_clean_up c p = p\<lparr> clean_ups := clean_ups p @ [(c, g_rcmw_state p)] \<rparr>"

definition rcmw_Clear :: "process_state \<Rightarrow> process_state" where
  "rcmw_Clear p =
     SetState STATE_SHUTDOWN
       (run_clean_up TopologyCleanUp (run_clean_up TransportCleanUp (run_clean_up SchedulerCleanUp
         (SetState STATE_SHUTTING_DOWN p))))"

text \<open>\<open>exit\<close> runs the registered handlers.\<close>

definition process_exit :: "process_state \<Rightarrow> process_state" where
  "process_exit p = (rcmw_Clear ^^ at_exit p) (p\<lparr> at_exit := 0 \<rparr>)"

lemma rcmw_Clear_simps [simp]:
  "g_rcmw_state (rcmw_Clear p) = STATE_SHUTDOWN"
  "clean_ups (rcmw_Clear p) = clean_ups p @
     [(SchedulerCleanUp, STATE_SHUTTING_DOWN), (TransportCleanUp, STATE_SHUTTING_DOWN),
      (TopologyCleanUp, STATE_SHUTTING_DOWN)]"
  by (simp_all add: rcmw_Clear_def SetState_def run_clean_up_def)

lemma IsShutdown_Clear [simp]: "IsShutdown (rcmw_Clear p)"
  by (simp add: IsShutdown_def)

lemma clear_many: "clean_ups ((rcmw_Clear ^^ n) p) = clean_ups p @ concat (replicate n
     [(SchedulerCleanUp, STATE_SHUTTING_DOWN), (TransportCleanUp, STATE_SHUTTING_DOWN),
      (TopologyCleanUp, STATE_SHUTTING_DOWN)])"
  by (induction n) (simp_all add: replicate_append_same [symmetric])

text \<open>A process that was initialised \<open>n + 1\<close> times is running until its exit, and
  its exit leaves it shut down, having cleaned up the scheduler, the transport and the
  topology manager in this order, once for every call of \<open>Init\<close>, always in the state
  shutting down, in which the data dispatcher refuses messages.\<close>

theorem init_exit_order:
  "rcmw_OK (((snd \<circ> rcmw_Init name) ^^ Suc n) process_start) \<and>
   (let p = process_exit (((snd \<circ> rcmw_Init name) ^^ Suc n) process_start)
    in IsShutdown p \<and> clean_ups p = concat (replicate (Suc n)
         [(SchedulerCleanUp, STATE_SHUTTING_DOWN), (TransportCleanUp, STATE_SHUTTING_DOWN),
          (TopologyCleanUp, STATE_SHUTTING_DOWN)]))"
proof -
  have i: "at_exit (((snd \<circ> rcmw_Init name) ^^ k) process_start) = k \<and>
     clean_ups (((snd \<circ> rcmw_Init name) ^^ k) process_start) = []" for k
    by (induction k) (simp_all add: rcmw_Init_def SetState_def process_start_def)
  have ok: "rcmw_OK (((snd \<circ> rcmw_Init name) ^^ Suc n) process_start)"
    by (simp add: rcmw_OK_def rcmw_Init_def SetState_def)
  have "process_exit (((snd \<circ> rcmw_Init name) ^^ Suc n) process_start)
     = (rcmw_Clear ^^ Suc n) ((((snd \<circ> rcmw_Init name) ^^ Suc n) process_start)\<lparr> at_exit := 0 \<rparr>)"
    using i [of "Suc n"] by (simp only: process_exit_def)
  moreover have "IsShutdown ((rcmw_Clear ^^ Suc n) q)" for q by simp
  ultimately show ?thesis using ok i [of "Suc n"]
    by (simp only: Let_def clear_many) simp
qed

end
