(* ===== verification/DataPlane.thy ===== *)
theory DataPlane
  imports DataBuffers RuntimeState "HOL-Library.Sublist"
begin

text \<open>
  Readers and the way a message takes to them: \<open>data/data_visitor/data_visitor.h\<close>,
  \<open>data/data_visitor/data_visitor_base.h\<close>, \<open>data/data_fusion/all_latest.h\<close>,
  \<open>data/data_notifier.h\<close> and \<open>data/data_dispatcher.h\<close>.
\<close>

section \<open>A reader of one buffer\<close>

text \<open>\<open>TryFetch\<close> over the index \<open>next_msg_index_\<close>; the fusing visitors run the same code on
  the fusion buffer.\<close>

definition TryFetch :: "u64 \<Rightarrow> 'm cache_buffer \<Rightarrow> u64 \<times> 'm option" where
  "TryFetch next_msg_index b =
     (case Fetch next_msg_index b of
        (index, Some m) \<Rightarrow> (index + 1, Some m)
      | (index, None) \<Rightarrow> (index, None))"

text \<open>The branch of \<open>Fetch\<close> that logs a read buffer overflow.\<close>

definition Fetch_overflow :: "u64 \<Rightarrow> 'm cache_buffer \<Rightarrow> bool" where
  "Fetch_overflow index b \<longleftrightarrow>
     \<not> cb_Empty b \<and> index \<noteq> 0 \<and> index \<noteq> cb_Tail b + 1 \<and> index < cb_Head b"

datatype 'm visitor_op = Filled 'm | Fetched

text \<open>A run: the messages filled, the messages fetched, the number of overflows.\<close>

primrec visitor_run ::
  "'m visitor_op list \<Rightarrow> 'm cache_buffer \<Rightarrow> u64 \<Rightarrow> 'm list \<times> 'm list \<times> nat" where
  "visitor_run [] b index = ([], [], 0)"
| "visitor_run (c # cs) b index =
     (case c of
        Filled m \<Rightarrow> (let (ins, outs, drops) = visitor_run cs (cb_Fill m b) index in (m # ins, outs, drops))
      | Fetched \<Rightarrow>
          (let (index1, r) = TryFetch index b; (ins, outs, drops) = visitor_run cs b index1
           in (ins, (case r of None \<Rightarrow> outs | Some m \<Rightarrow> m # outs),
               if Fetch_overflow index b then Suc drops else drops)))"

lemma unat_of_nat_Suc: "k + 1 < 2 ^ 64 \<Longrightarrow> unat (of_nat k + 1 :: u64) = Suc k"
  using unat_add_one_nowrap [of "of_nat k :: u64"] unat_of_nat_less [of k, where 'a = 64] by simp

text \<open>What one \<open>TryFetch\<close> does to a reader that expects position \<open>index\<close>.\<close>

lemma TryFetch_cases:
  assumes "cb_inv n log b" "unat index \<le> length log + 1"
  obtains (idle) "log = [] \<or> index \<noteq> 0 \<and> unat index = length log + 1" "TryFetch index b = (index, None)"
      "\<not> Fetch_overflow index b"
    | (newest) "log \<noteq> []" "index = 0 \<or> Fetch_overflow index b"
      "index \<noteq> 0 \<Longrightarrow> length log \<ge> unat index + (unat (cb_capacity b) - 1)"
      "TryFetch index b = (of_nat (length log) + 1, Some (last log))"
    | (in_order) "index \<noteq> 0" "unat index \<le> length log" "\<not> Fetch_overflow index b"
      "TryFetch index b = (index + 1, Some (log ! (unat index - 1)))"
proof -
  note c = cb_facts [OF assms(1)]
  have e: "index = cb_Tail b + 1 \<longleftrightarrow> unat index = length log + 1"
    using c by (simp add: cb_Tail_def unat_inject_iff word_nat)
  have h: "index < cb_Head b \<longleftrightarrow> unat index \<le> length log - (unat (cb_capacity b) - 1)"
    using c by (simp add: cb_Head_def word_less_nat_alt word_nat less_Suc_eq_le)
  have z: "index = 0 \<longleftrightarrow> unat index = 0" by (simp add: unat_eq_zero)
  have o: "Fetch_overflow index b \<longleftrightarrow> log \<noteq> [] \<and> index \<noteq> 0 \<and> unat index \<noteq> length log + 1
      \<and> length log \<ge> unat index + (unat (cb_capacity b) - 1)"
    unfolding Fetch_overflow_def e h cb_Empty_iff [OF assms(1)] using z by auto
  note f = Fetch_spec [OF assms]
  consider "log = [] \<or> index \<noteq> 0 \<and> unat index = length log + 1"
    | "log \<noteq> []" "index = 0 \<or> Fetch_overflow index b"
    | "log \<noteq> []" "index \<noteq> 0" "unat index \<noteq> length log + 1" "\<not> Fetch_overflow index b" by blast
  then show thesis
  proof cases
    case 1
    show ?thesis by (rule idle) (use f o 1 in \<open>auto simp: TryFetch_def\<close>)
  next
    case 2
    show ?thesis by (rule newest) (use f o 2 in \<open>auto simp: TryFetch_def\<close>)
  next
    case 3
    have "TryFetch index b = (index + 1, Some (log ! (unat index - 1)))"
      using f o 3 by (auto simp: TryFetch_def)
    then show ?thesis by (intro in_order) (use 3 assms(2) in auto)
  qed
qed

lemma subseq_last:
  assumes "log \<noteq> []" "subseq outs ins" "k \<le> length log - 1"
  shows "subseq (last log # outs) (drop k (log @ ins))"
proof -
  have "drop k (log @ ins) = drop k (butlast log) @ last log # ins"
    using assms(1,3) by (cases log rule: rev_cases) auto
  then show ?thesis using assms(2) by (simp add: list_emb_append2)
qed

lemma visitor_run_gen:
  assumes "cb_inv (length cs) log b" "unat index \<le> length log + 1" "index \<noteq> 0"
    and "visitor_run cs b index = (ins, outs, drops)"
  shows "subseq outs (drop (unat index - 1) (log @ ins)) \<and>
    (drops = 0 \<longrightarrow> prefix outs (drop (unat index - 1) (log @ ins)))"
  using assms
proof (induction cs arbitrary: log b index ins outs drops)
  case Nil
  then show ?case by simp
next
  case (Cons c cs)
  have mono: "cb_inv (length cs) log b" using Cons.prems(1) by (simp add: cb_inv_mono)
  have z: "1 \<le> unat index" using Cons.prems(3) by (simp add: unat_eq_zero Suc_le_eq unat_gt_0)
  show ?case
  proof (cases c)
    case (Filled m)
    obtain ins1 outs1 drops1 where r: "visitor_run cs (cb_Fill m b) index = (ins1, outs1, drops1)"
      by (metis prod_cases3)
    have "cb_inv (length cs) (log @ [m]) (cb_Fill m b)" using Cons.prems(1) by (simp add: cb_Fill_inv)
    then show ?thesis using Cons.IH [OF _ _ Cons.prems(3) r, of "log @ [m]"] Cons.prems(2,4) Filled r by simp
  next
    case Fetched
    have step: "outs = (case snd (TryFetch index b) of None \<Rightarrow> outs1 | Some m \<Rightarrow> m # outs1) \<and> ins = ins1 \<and>
        (drops = (if Fetch_overflow index b then Suc drops1 else drops1))"
      if "visitor_run cs b (fst (TryFetch index b)) = (ins1, outs1, drops1)" for ins1 outs1 drops1
      using Cons.prems(4) that by (auto simp: Fetched split: prod.splits)
    show ?thesis
      using mono Cons.prems(2)
    proof (cases rule: TryFetch_cases)
      case idle
      obtain ins1 outs1 drops1 where r: "visitor_run cs b index = (ins1, outs1, drops1)"
        by (metis prod_cases3)
      show ?thesis
        using Cons.IH [OF mono Cons.prems(2,3) r] step [of ins1 outs1 drops1] idle(2,3) r by simp
    next
      case newest
      let ?i = "of_nat (length log) + 1 :: u64"
      have i: "unat ?i = Suc (length log)" using cb_facts(2) [OF mono] by (intro unat_of_nat_Suc) simp
      have nz: "?i \<noteq> 0" using i by (metis nat.distinct(1) unat_0)
      obtain ins1 outs1 drops1 where r: "visitor_run cs b ?i = (ins1, outs1, drops1)"
        by (metis prod_cases3)
      have "subseq outs1 ins1" using Cons.IH [OF mono _ nz r] i by simp
      moreover have "unat index - 1 \<le> length log - 1"
        using newest(1,3) Cons.prems(3) by arith
      ultimately have "subseq (last log # outs1) (drop (unat index - 1) (log @ ins1))"
        using subseq_last [OF newest(1)] by blast
      then show ?thesis using step [of ins1 outs1 drops1] newest Cons.prems(3) r by simp
    next
      case in_order
      have i: "unat (index + 1) = Suc (unat index)"
        using in_order(2) cb_facts(2) [OF mono] by (simp add: word_nat)
      have nz: "index + 1 \<noteq> 0" using i by (metis nat.distinct(1) unat_0)
      obtain ins1 outs1 drops1 where r: "visitor_run cs b (index + 1) = (ins1, outs1, drops1)"
        by (metis prod_cases3)
      have "drop (unat index - 1) (log @ ins1) = log ! (unat index - 1) # drop (unat index) (log @ ins1)"
      proof -
        have "unat index - 1 < length log" using in_order(2) z by linarith
        then show ?thesis using in_order(2) z Cons_nth_drop_Suc [of "unat index - 1" log] by simp
      qed
      then show ?thesis
        using Cons.IH [OF mono _ nz r] i step [of ins1 outs1 drops1] in_order r by simp
    qed
  qed
qed


text \<open>How many messages had arrived when the first fetch found any, after \<open>k\<close> of them.\<close>

primrec first_fetched :: "nat \<Rightarrow> 'm visitor_op list \<Rightarrow> nat" where
  "first_fetched k [] = k"
| "first_fetched k (c # cs) =
     (case c of Filled m \<Rightarrow> first_fetched (Suc k) cs | Fetched \<Rightarrow> if k = 0 then first_fetched 0 cs else k)"

lemma visitor_run_first:
  assumes "cb_inv (length cs) log b" "visitor_run cs b 0 = (ins, outs, drops)"
  shows "subseq outs (log @ ins) \<and> (drops = 0 \<longrightarrow> prefix outs (drop (first_fetched (length log) cs - 1) (log @ ins)))"
  using assms
proof (induction cs arbitrary: log b ins outs drops)
  case Nil
  then show ?case by simp
next
  case (Cons c cs)
  have mono: "cb_inv (length cs) log b" using Cons.prems(1) by (simp add: cb_inv_mono)
  show ?case
  proof (cases c)
    case (Filled m)
    obtain ins1 outs1 drops1 where r: "visitor_run cs (cb_Fill m b) 0 = (ins1, outs1, drops1)"
      by (metis prod_cases3)
    have "cb_inv (length cs) (log @ [m]) (cb_Fill m b)" using Cons.prems(1) by (simp add: cb_Fill_inv)
    then show ?thesis using Cons.IH [OF _ r, of "log @ [m]"] Cons.prems(2) Filled r by simp
  next
    case Fetched
    show ?thesis
    proof (cases "log = []")
      case True
      then have "TryFetch 0 b = (0, None)" "\<not> Fetch_overflow 0 b"
        using Fetch_spec [OF mono, of 0] by (auto simp: TryFetch_def Fetch_overflow_def)
      then show ?thesis using Cons.IH [OF mono] Cons.prems(2) Fetched True by (auto split: prod.splits)
    next
      case False
      let ?i = "of_nat (length log) + 1 :: u64"
      have t: "TryFetch 0 b = (?i, Some (last log))" "\<not> Fetch_overflow 0 b"
        using Fetch_spec [OF mono, of 0] False by (auto simp: TryFetch_def Fetch_overflow_def)
      have i: "unat ?i = Suc (length log)" using cb_facts(2) [OF mono] by (intro unat_of_nat_Suc) simp
      have nz: "?i \<noteq> 0" using i by (metis nat.distinct(1) unat_0)
      obtain ins1 outs1 drops1 where r: "visitor_run cs b ?i = (ins1, outs1, drops1)"
        by (metis prod_cases3)
      have g: "subseq outs1 ins1" "drops1 = 0 \<longrightarrow> prefix outs1 ins1"
        using visitor_run_gen [OF mono _ nz r] i by simp_all
      have d: "drop (length log - 1) (log @ ins1) = last log # ins1"
        using False by (cases log rule: rev_cases) auto
      have "subseq (last log # outs1) (log @ ins1)"
        using subseq_last [OF False g(1), of 0] by simp
      moreover have "drops1 = 0 \<longrightarrow> prefix (last log # outs1) (drop (length log - 1) (log @ ins1))"
        using g(2) by (simp add: d [simplified One_nat_def] del: drop_append)
      ultimately show ?thesis using Cons.prems(2) Fetched t r False by (simp del: drop_append)
    qed
  qed
qed

text \<open>\<open>backlog_ok q k ops\<close>: with at most \<open>k\<close> unread messages at the start, no fetch finds more than
  \<open>q\<close> of them.\<close>

primrec backlog_ok :: "nat \<Rightarrow> nat \<Rightarrow> 'm visitor_op list \<Rightarrow> bool" where
  "backlog_ok q k [] = True"
| "backlog_ok q k (c # cs) =
     (case c of Filled m \<Rightarrow> backlog_ok q (Suc k) cs | Fetched \<Rightarrow> k \<le> q \<and> backlog_ok q (k - 1) cs)"

lemma visitor_run_no_drops:
  assumes "cb_inv (length cs) log b" "unat index \<le> length log + 1" "index \<noteq> 0 \<longrightarrow> length log + 1 - unat index \<le> k"
    and "backlog_ok (unat (cb_capacity b) - 1) k cs" "visitor_run cs b index = (ins, outs, drops)"
  shows "drops = 0"
  using assms
proof (induction cs arbitrary: log b index k ins outs drops)
  case Nil
  then show ?case by simp
next
  case (Cons c cs)
  have mono: "cb_inv (length cs) log b" using Cons.prems(1) by (simp add: cb_inv_mono)
  show ?case
  proof (cases c)
    case (Filled m)
    have "cb_inv (length cs) (log @ [m]) (cb_Fill m b)" using Cons.prems(1) by (simp add: cb_Fill_inv)
    moreover have "cb_capacity (cb_Fill m b) = cb_capacity b" by (simp add: cb_Fill_def)
    ultimately show ?thesis
      using Cons.IH [of "log @ [m]" "cb_Fill m b" index "Suc k" _ outs drops] Cons.prems(2-) Filled
      by (fastforce split: prod.splits)
  next
    case Fetched
    have no: "\<not> Fetch_overflow index b" if "length log \<ge> unat index + (unat (cb_capacity b) - 1)" "index \<noteq> 0"
      using that Cons.prems(3,4) Fetched by auto
    have ih: "drops = 0" if "unat i' \<le> length log + 1" "i' \<noteq> 0 \<longrightarrow> length log + 1 - unat i' \<le> k - 1"
      "fst (TryFetch index b) = i'" "\<not> Fetch_overflow index b" for i'
      using Cons.IH [OF mono that(1,2)] that(3,4) Cons.prems(4,5) Fetched by (auto split: prod.splits)
    show ?thesis
      using mono Cons.prems(2)
    proof (cases rule: TryFetch_cases)
      case idle
      have "index \<noteq> 0 \<Longrightarrow> 1 \<le> unat index" by (simp add: Suc_le_eq unat_gt_0)
      then have "index \<noteq> 0 \<longrightarrow> length log + 1 - unat index \<le> k - 1" using idle(1) by auto
      then show ?thesis using ih [of index] Cons.prems(2) idle(2,3) by simp
    next
      case newest
      have "unat (of_nat (length log) + 1 :: u64) = Suc (length log)"
        using cb_facts(2) [OF mono] by (intro unat_of_nat_Suc) simp
      moreover have "\<not> Fetch_overflow index b"
        using newest(2,3) no by (cases "index = 0") (auto simp: Fetch_overflow_def)
      ultimately show ?thesis using ih [of "of_nat (length log) + 1"] newest(4) by simp
    next
      case in_order
      have "unat (index + 1) = Suc (unat index)"
        using in_order(2) cb_facts(2) [OF mono] by (simp add: word_nat)
      moreover have "length log - unat index \<le> k - 1" using in_order(1) Cons.prems(3) by simp
      ultimately show ?thesis using ih [of "index + 1"] in_order by simp
    qed
  qed
qed

text \<open>C15: A reader of a channel, whatever way the arrivals of messages and its fetches interleave, receives a subsequence
  of the messages dispatched to its buffer: in their order, none twice.  The first fetch that finds any message takes the
  newest, and those before it are never received.  From there on, unless a read buffer overflow is reported, no message is
  skipped; and none is reported if no fetch finds more than \<open>queue_size\<close> unread messages.\<close>

theorem visitor_reads_in_order:
  assumes "unat queue_size + 1 < 2 ^ 64" "length ops < 2 ^ 64 - 1"
    and "visitor_run ops (cb_construct dflt queue_size) 0 = (ins, outs, drops)"
  shows "subseq outs ins \<and>
    (drops = 0 \<longrightarrow> prefix outs (drop (first_fetched 0 ops - 1) ins)) \<and>
    (backlog_ok (unat queue_size) 0 ops \<longrightarrow> drops = 0)"
proof -
  note i = cb_construct_inv [OF assms(1,2), of dflt]
  have "unat (cb_capacity (cb_construct dflt queue_size)) - 1 = unat queue_size"
    using assms(1) by (simp add: cb_construct_def unat_add_one_nowrap)
  then have "backlog_ok (unat queue_size) 0 ops \<Longrightarrow> drops = 0"
    using visitor_run_no_drops [OF i, of 0 0] assms(3) by simp
  then show ?thesis using visitor_run_first [OF i assms(3)] by auto
qed

lemma visitor_reads_in_order_witness:
  "subseq [''b'', ''e''] [''a'', ''b'', ''c'', ''d'', ''e''] \<and>
   visitor_run [Filled ''a'', Filled ''b'', Fetched, Filled ''c'', Filled ''d'', Filled ''e'', Fetched]
     (cb_construct ''x'' 2) 0 = ([''a'', ''b'', ''c'', ''d'', ''e''], [''b'', ''e''], 1) \<and>
   prefix [''b'', ''c''] (drop 1 [''a'', ''b'', ''c'', ''d'']) \<and>
   visitor_run [Filled ''a'', Filled ''b'', Fetched, Filled ''c'', Filled ''d'', Fetched]
     (cb_construct ''x'' 2) 0 = ([''a'', ''b'', ''c'', ''d''], [''b'', ''c''], 0)"
proof -
  have r: "visitor_run [Filled ''a'', Filled ''b'', Fetched, Filled ''c'', Filled ''d'', Filled ''e'', Fetched]
     (cb_construct ''x'' 2) 0 = ([''a'', ''b'', ''c'', ''d'', ''e''], [''b'', ''e''], 1)"
    by code_simp
  have q: "visitor_run [Filled ''a'', Filled ''b'', Fetched, Filled ''c'', Filled ''d'', Fetched]
     (cb_construct ''x'' 2) 0 = ([''a'', ''b'', ''c'', ''d''], [''b'', ''c''], 0)"
    by code_simp
  show ?thesis using visitor_reads_in_order [OF _ _ r] r visitor_reads_in_order [OF _ _ q] q by simp
qed

end
