(* ===== verification/RoutineContext.thy ===== *)
theory RoutineContext
  imports Prelude
begin

text \<open>
  The stacks of the coroutines: \<open>croutine/croutine_context.h\<close>, \<open>croutine_context.cpp\<close> and the switch
  \<open>ctx_swap\<close> of \<open>swap_x86_64.S\<close>.  The machine is the part of an x86-64 processor that these touch:
  the stack pointer, the registers a call must preserve, the two argument registers, the
  instruction pointer, and the memory as a map of 8-byte slots.  A \<open>RoutineContext\<close> is given by its
  address: its stack, then the field \<open>sp\<close>.
\<close>

section \<open>The machine\<close>

record machine =
  rsp :: u64
  rdi :: u64
  rsi :: u64
  r12 :: u64
  r13 :: u64
  r14 :: u64
  r15 :: u64
  rbx :: u64
  rbp :: u64
  rip :: u64
  mem :: "u64 \<Rightarrow> u64"

definition pushq :: "u64 \<Rightarrow> machine \<Rightarrow> machine" where
  "pushq v m = m\<lparr> rsp := rsp m - 8, mem := (mem m)(rsp m - 8 := v) \<rparr>"

definition popped :: "machine \<Rightarrow> u64" where "popped m = mem m (rsp m)"

definition pop_step :: "machine \<Rightarrow> machine" where "pop_step m = m\<lparr> rsp := rsp m + 8 \<rparr>"

text \<open>The instructions of \<open>ctx_swap\<close>, in order.\<close>

definition ctx_save :: "machine \<Rightarrow> machine" where
  "ctx_save m =
     (let m1 = pushq (rdi m) m; m2 = pushq (r12 m1) m1; m3 = pushq (r13 m2) m2; m4 = pushq (r14 m3) m3;
          m5 = pushq (r15 m4) m4; m6 = pushq (rbx m5) m5; m7 = pushq (rbp m6) m6
      in m7\<lparr> mem := (mem m7)(rdi m7 := rsp m7) \<rparr>)"

definition ctx_restore :: "machine \<Rightarrow> machine" where
  "ctx_restore m =
     (let m0 = m\<lparr> rsp := mem m (rsi m) \<rparr>;
          m1 = pop_step (m0\<lparr> rbp := popped m0 \<rparr>); m2 = pop_step (m1\<lparr> rbx := popped m1 \<rparr>);
          m3 = pop_step (m2\<lparr> r15 := popped m2 \<rparr>); m4 = pop_step (m3\<lparr> r14 := popped m3 \<rparr>);
          m5 = pop_step (m4\<lparr> r13 := popped m4 \<rparr>); m6 = pop_step (m5\<lparr> r12 := popped m5 \<rparr>);
          m7 = pop_step (m6\<lparr> rdi := popped m6 \<rparr>)
      in pop_step (m7\<lparr> rip := popped m7 \<rparr>))"

definition ctx_swap :: "machine \<Rightarrow> machine" where
  "ctx_swap m = ctx_restore (ctx_save m)"

text \<open>\<open>SwapContext(src_sp, dest_sp)\<close>: the call puts its two arguments in \<open>rdi\<close> and \<open>rsi\<close> and the
  address \<open>ret\<close> after the call on the stack.\<close>

definition SwapContext :: "u64 \<Rightarrow> u64 \<Rightarrow> u64 \<Rightarrow> machine \<Rightarrow> machine" where
  "SwapContext src_sp dest_sp ret m = ctx_swap (pushq ret (m\<lparr> rdi := src_sp, rsi := dest_sp \<rparr>))"

definition STACK_SIZE :: u64 where "STACK_SIZE = 2 * 1024 * 1024"
definition REGISTERS_SIZE :: u64 where "REGISTERS_SIZE = 56"

text \<open>The address of \<open>ctx->sp\<close>, after the stack array.\<close>

definition sp_field :: "u64 \<Rightarrow> u64" where "sp_field ctx = ctx + STACK_SIZE"

definition memset_words :: "u64 \<Rightarrow> nat \<Rightarrow> (u64 \<Rightarrow> u64) \<Rightarrow> u64 \<Rightarrow> u64" where
  "memset_words p n f = fold (\<lambda>i g. g(p + 8 * of_nat i := 0)) [0..<n] f"

definition MakeContext :: "u64 \<Rightarrow> u64 \<Rightarrow> u64 \<Rightarrow> (u64 \<Rightarrow> u64) \<Rightarrow> u64 \<Rightarrow> u64" where
  "MakeContext f1 arg ctx g =
     (let sp0 = ctx + STACK_SIZE - 2 * 8 - REGISTERS_SIZE;
          g1 = g(sp_field ctx := sp0);
          g2 = memset_words sp0 (unat (REGISTERS_SIZE div 8)) g1;
          sp = ctx + STACK_SIZE - 2 * 8;
          g3 = g2(sp := f1);
          sp1 = sp - 8
      in g3(sp1 := arg))"

section \<open>Effect of a switch\<close>

text \<open>The slots a switch writes on the current stack.\<close>

definition saved :: "u64 \<Rightarrow> u64 set" where
  "saved s = {s - 8, s - 16, s - 24, s - 32, s - 40, s - 48, s - 56, s - 64}"

lemma SwapContext_writes:
  "mem (SwapContext src dst ret m) = (mem m)
     (rsp m - 8 := ret, rsp m - 16 := src, rsp m - 24 := r12 m, rsp m - 32 := r13 m, rsp m - 40 := r14 m,
      rsp m - 48 := r15 m, rsp m - 56 := rbx m, rsp m - 64 := rbp m, src := rsp m - 64)"
  by (simp add: SwapContext_def ctx_swap_def ctx_save_def ctx_restore_def pushq_def pop_step_def Let_def
      diff_diff_eq)

text \<open>What the target of the switch finds, from the saved stack pointer \<open>s\<close> up.\<close>

lemma SwapContext_loads:
  fixes m :: machine and src dst ret s :: u64
  defines "m' \<equiv> SwapContext src dst ret m"
  assumes "mem m' dst = s"
  shows "rip m' = mem m' (s + 56)" "rsp m' = s + 64" "rbp m' = mem m' s" "rbx m' = mem m' (s + 8)"
    "r15 m' = mem m' (s + 16)" "r14 m' = mem m' (s + 24)" "r13 m' = mem m' (s + 32)"
    "r12 m' = mem m' (s + 40)" "rdi m' = mem m' (s + 48)"
  using assms(2) unfolding m'_def
  by (simp_all add: SwapContext_def ctx_swap_def ctx_save_def ctx_restore_def pushq_def pop_step_def popped_def
      Let_def add.assoc)

lemma memset_7: "memset_words p 7 f = f(p := 0, p + 8 := 0, p + 16 := 0, p + 24 := 0, p + 32 := 0, p + 40 := 0, p + 48 := 0)"
  by (simp add: memset_words_def numeral_eq_Suc upt_rec)

lemma MakeContext_writes:
  fixes ctx :: u64
  defines "t \<equiv> ctx + STACK_SIZE"
  shows "MakeContext f1 arg ctx g = g
     (t := t - 72, t - 72 := 0, t - 64 := 0, t - 56 := 0, t - 48 := 0, t - 40 := 0, t - 32 := 0, t - 24 := 0,
      t - 16 := f1, t - 24 := arg)"
proof -
  have "unat (REGISTERS_SIZE div 8) = 7" by (simp add: REGISTERS_SIZE_def)
  moreover have "t - 2 * 8 - REGISTERS_SIZE = t - 72" by (simp add: REGISTERS_SIZE_def)
  moreover have "t - 72 + 8 = t - 64" "t - 72 + 16 = t - 56" "t - 72 + 24 = t - 48" "t - 72 + 32 = t - 40"
    "t - 72 + 40 = t - 32" "t - 72 + 48 = t - 24" "t - 2 * 8 = t - 16" "t - 2 * 8 - 8 = t - 24" by simp_all
  ultimately show ?thesis
    by (simp only: MakeContext_def Let_def sp_field_def t_def [symmetric] memset_7)
qed


section \<open>Starting a coroutine and coming back\<close>

text \<open>The slots \<open>MakeContext\<close> prepares, with the field \<open>sp\<close>.\<close>

definition frame :: "u64 \<Rightarrow> u64 set" where
  "frame t = {t, t - 16, t - 24, t - 32, t - 40, t - 48, t - 56, t - 64, t - 72}"

lemma switch_starts:
  fixes m :: machine and ret main :: u64
  assumes mk: "\<forall>a \<in> frame (sp_field ctx). mem m a = MakeContext f1 arg ctx g a"
    and out: "insert main (saved (rsp m)) \<inter> frame (sp_field ctx) = {}"
  defines "m1 \<equiv> SwapContext main (sp_field ctx) ret m"
  shows "rip m1 = f1" "rdi m1 = arg" "rsp m1 = sp_field ctx - 8"
    "\<forall>r \<in> {rbp m1, rbx m1, r12 m1, r13 m1, r14 m1, r15 m1}. r = 0"
proof -
  define t where "t = sp_field ctx"
  have keep: "mem m1 a = MakeContext f1 arg ctx g a" if "a \<in> frame t" for a
  proof -
    have "a \<notin> insert main (saved (rsp m))" using that out by (auto simp: t_def)
    then have "mem m1 a = mem m a" unfolding m1_def SwapContext_writes saved_def by simp
    then show ?thesis using mk that by (simp add: t_def)
  qed
  have t: "ctx + STACK_SIZE = t" by (simp add: t_def sp_field_def)
  have s: "mem m1 t = t - 72" using keep [of t] by (simp add: MakeContext_writes t frame_def)
  note loads = SwapContext_loads [where src = main and ret = ret and m = m and dst = t and s = "t - 72",
    folded m1_def [folded t_def], OF s]
  have v: "mem m1 (t - 16) = f1" "mem m1 (t - 24) = arg" "mem m1 (t - 32) = 0" "mem m1 (t - 40) = 0"
    "mem m1 (t - 48) = 0" "mem m1 (t - 56) = 0" "mem m1 (t - 64) = 0" "mem m1 (t - 72) = 0"
    using keep [of "t - 16"] keep [of "t - 24"] keep [of "t - 32"] keep [of "t - 40"] keep [of "t - 48"]
      keep [of "t - 56"] keep [of "t - 64"] keep [of "t - 72"]
    by (simp_all add: MakeContext_writes t frame_def)
  show "rip m1 = f1" "rdi m1 = arg" "rsp m1 = sp_field ctx - 8"
    "\<forall>r \<in> {rbp m1, rbx m1, r12 m1, r13 m1, r14 m1, r15 m1}. r = 0"
    using loads v by (simp_all add: t_def [symmetric] algebra_simps)
qed

lemma switch_returns:
  fixes m m' :: machine and ret ret' dst main other :: u64
  defines "m1 \<equiv> SwapContext main dst ret m"
  assumes kept: "\<forall>a \<in> insert main (saved (rsp m)). mem m' a = mem m1 a"
    and out: "main \<notin> saved (rsp m)" "insert other (saved (rsp m')) \<inter> insert main (saved (rsp m)) = {}"
  defines "m2 \<equiv> SwapContext other main ret' m'"
  shows "rip m2 = ret" "rsp m2 = rsp m" "rbp m2 = rbp m" "rbx m2 = rbx m" "r12 m2 = r12 m" "r13 m2 = r13 m"
    "r14 m2 = r14 m" "r15 m2 = r15 m"
proof -
  let ?s = "rsp m"
  have keep: "mem m2 a = mem m1 a" if "a \<in> insert main (saved ?s)" for a
  proof -
    have "a \<notin> insert other (saved (rsp m'))" using that out(2) by auto
    then have "mem m2 a = mem m' a" unfolding m2_def SwapContext_writes saved_def by simp
    then show ?thesis using kept that by auto
  qed
  have s: "mem m2 main = ?s - 64" using keep [of main] by (simp add: m1_def SwapContext_writes)
  note loads = SwapContext_loads [where src = other and ret = ret' and m = m' and dst = main and s = "?s - 64",
    folded m2_def, OF s]
  have ne: "?s - 8 \<noteq> main" "?s - 24 \<noteq> main" "?s - 32 \<noteq> main" "?s - 40 \<noteq> main" "?s - 48 \<noteq> main"
    "?s - 56 \<noteq> main" "?s - 64 \<noteq> main" using out(1) by (auto simp: saved_def)
  have v: "mem m2 (?s - 8) = ret" "mem m2 (?s - 24) = r12 m" "mem m2 (?s - 32) = r13 m"
    "mem m2 (?s - 40) = r14 m" "mem m2 (?s - 48) = r15 m" "mem m2 (?s - 56) = rbx m" "mem m2 (?s - 64) = rbp m"
    using keep [of "?s - 8"] keep [of "?s - 24"] keep [of "?s - 32"] keep [of "?s - 40"] keep [of "?s - 48"]
      keep [of "?s - 56"] keep [of "?s - 64"] ne
    by (simp_all add: saved_def m1_def SwapContext_writes)
  show "rip m2 = ret" "rsp m2 = rsp m" "rbp m2 = rbp m" "rbx m2 = rbx m" "r12 m2 = r12 m" "r13 m2 = r13 m"
    "r14 m2 = r14 m" "r15 m2 = r15 m"
    using loads v by (simp_all add: algebra_simps)
qed

text \<open>C30: Switching to a coroutine just prepared by \<open>MakeContext\<close> starts its entry function with its argument
  on its own stack, with cleared registers and the stack alignment of a call; and whatever the
  coroutine then computes on its own stack, switching back continues the resuming thread after its
  \<open>SwapContext\<close> with its stack pointer and all callee-saved registers as they were.\<close>

theorem context_switch_round_trip:
  fixes m m' :: machine
  assumes "\<forall>a \<in> frame (sp_field ctx). mem m a = MakeContext f1 arg ctx g a"
    and "insert main (saved (rsp m)) \<inter> frame (sp_field ctx) = {}" "main \<notin> saved (rsp m)"
    and "m1 = SwapContext main (sp_field ctx) ret m"
    and "\<forall>a \<in> insert main (saved (rsp m)). mem m' a = mem m1 a"
    and "saved (rsp m') \<inter> insert main (saved (rsp m)) = {}"
    and "m2 = SwapContext (sp_field ctx) main ret' m'"
  shows "rip m1 = f1 \<and> rdi m1 = arg \<and> rsp m1 = sp_field ctx - 8 \<and>
      (\<forall>r \<in> {rbp m1, rbx m1, r12 m1, r13 m1, r14 m1, r15 m1}. r = 0) \<and>
    rip m2 = ret \<and> rsp m2 = rsp m \<and> rbp m2 = rbp m \<and> rbx m2 = rbx m \<and>
    r12 m2 = r12 m \<and> r13 m2 = r13 m \<and> r14 m2 = r14 m \<and> r15 m2 = r15 m"
proof -
  have "sp_field ctx \<in> frame (sp_field ctx)" by (simp add: frame_def)
  then have o: "insert (sp_field ctx) (saved (rsp m')) \<inter> insert main (saved (rsp m)) = {}"
    using assms(2,6) by blast
  show ?thesis
    using switch_starts [OF assms(1,2), of ret]
      switch_returns [OF assms(5) [unfolded assms(4)] assms(3) o, of ret'] assms(4,7)
    by simp
qed

lemma context_switch_round_trip_witness:
  "\<exists>m m1 m'. rsp m = 0x7000 \<and> r12 m = 77 \<and> rip m1 = 0x400 \<and> rdi m1 = 5 \<and> r12 m' = 1 \<and>
     m1 = SwapContext 0x6000 (sp_field 0x100000) 0x500 m \<and>
     rip (SwapContext (sp_field 0x100000) 0x6000 0x600 m') = 0x500 \<and>
     r12 (SwapContext (sp_field 0x100000) 0x6000 0x600 m') = 77"
proof -
  define m where "m = \<lparr> rsp = 0x7000, rdi = 0, rsi = 0, r12 = 77, r13 = 0, r14 = 0, r15 = 0, rbx = 0, rbp = 0,
    rip = 0, mem = MakeContext 0x400 5 0x100000 (\<lambda>_. 0) \<rparr>"
  define m1 where "m1 = SwapContext 0x6000 (sp_field 0x100000) 0x500 m"
  define m' where "m' = m1\<lparr> r12 := 1, rsp := 0x200000 \<rparr>"
  have sp: "sp_field 0x100000 = 0x300000" by (simp add: sp_field_def STACK_SIZE_def)
  have 1: "\<forall>a \<in> frame (sp_field 0x100000). mem m a = MakeContext 0x400 5 0x100000 (\<lambda>_. 0) a" by (simp add: m_def)
  have 2: "insert 0x6000 (saved (rsp m)) \<inter> frame (sp_field 0x100000) = {}"
    unfolding sp by (simp add: m_def saved_def frame_def)
  have 3: "(0x6000 :: u64) \<notin> saved (rsp m)" by (simp add: m_def saved_def)
  have 4: "\<forall>a \<in> insert 0x6000 (saved (rsp m)). mem m' a = mem m1 a" by (simp add: m'_def)
  have 5: "saved (rsp m') \<inter> insert 0x6000 (saved (rsp m)) = {}" by (simp add: m'_def m_def saved_def)
  show ?thesis
    using context_switch_round_trip [OF 1 2 3 m1_def 4 5 refl]
    by (intro exI [of _ m] exI [of _ m1] exI [of _ m']) (simp add: m1_def m_def m'_def)
qed

end
