(* ===== verification/Croutine.thy ===== *)
theory Croutine
  imports DataPlane RoutineContext
begin

text \<open>
  The coroutines: \<open>croutine/croutine.h\<close>, \<open>croutine.cpp\<close> and the bodies \<open>croutine_factory.h\<close> makes.
  The code a coroutine runs between two switches is a slice: a function of the coroutine and of the
  rest of the program \<open>'w\<close>; \<open>Resume\<close> runs the next slice, a \<open>Yield\<close> ends it.  Clock values are
  nanoseconds of the steady clock.
\<close>

section \<open>The class CRoutine\<close>

datatype RoutineState = READY | FINISHED | SLEEP | IO_WAIT | DATA_WAIT

record croutine =
  cr_name :: "u8 list"
  cr_wake_time :: int
  cr_state :: RoutineState
  cr_lock :: bool
  cr_updated :: bool
  cr_force_stop :: bool
  cr_processor_id :: i32
  cr_priority :: u32
  cr_id :: u64
  cr_group_name :: "u8 list"

text \<open>The size of the pool of contexts, made with the first coroutine.\<close>

definition context_pool_size :: "i32 \<Rightarrow> u32 \<Rightarrow> u32" where
  "context_pool_size component_nums conf_routine_num =
     (let routine_num = (component_nums :: u32)
      in if conf_routine_num \<noteq> 0 then max routine_num conf_routine_num else routine_num)"

definition CRoutine_construct :: "int \<Rightarrow> croutine" where
  "CRoutine_construct now =
     \<lparr> cr_name = [], cr_wake_time = now, cr_state = READY, cr_lock = False, cr_updated = True,
       cr_force_stop = False, cr_processor_id = -1, cr_priority = 0, cr_id = 0, cr_group_name = [] \<rparr>"

definition set_state :: "RoutineState \<Rightarrow> croutine \<Rightarrow> croutine" where
  "set_state s r = r\<lparr> cr_state := s \<rparr>"

text \<open>\<open>Yield(state)\<close> and \<open>Yield()\<close> switch to the main stack: the coroutine as it is at the switch.  The
  other operations, \<open>HangUp\<close> among them, give back a coroutine that goes on.\<close>

datatype switched = Switched (at_switch: croutine)

definition Yield_state :: "RoutineState \<Rightarrow> croutine \<Rightarrow> switched" where
  "Yield_state s r = Switched (set_state s r)"

definition Yield :: "croutine \<Rightarrow> switched" where "Yield r = Switched r"

definition Wake :: "croutine \<Rightarrow> croutine" where "Wake r = r\<lparr> cr_state := READY \<rparr>"
definition HangUp :: "croutine \<Rightarrow> croutine" where "HangUp r = r\<lparr> cr_state := DATA_WAIT \<rparr>"

definition Sleep :: "int \<Rightarrow> int \<Rightarrow> croutine \<Rightarrow> switched" where
  "Sleep now sleep_us r = Yield_state SLEEP (r\<lparr> cr_wake_time := now + sleep_us * 1000 \<rparr>)"

definition UpdateState :: "int \<Rightarrow> croutine \<Rightarrow> RoutineState \<times> croutine" where
  "UpdateState now r =
     (if cr_state r = SLEEP \<and> now > cr_wake_time r
      then (let r1 = r\<lparr> cr_state := READY \<rparr> in (cr_state r1, r1))
      else
        (let was = cr_updated r; r1 = r\<lparr> cr_updated := True \<rparr>;
             r2 = (if \<not> was \<and> (cr_state r1 = DATA_WAIT \<or> cr_state r1 = IO_WAIT) then r1\<lparr> cr_state := READY \<rparr> else r1)
         in (cr_state r2, r2)))"

definition Acquire :: "croutine \<Rightarrow> bool \<times> croutine" where
  "Acquire r = (\<not> cr_lock r, r\<lparr> cr_lock := True \<rparr>)"

definition Release :: "croutine \<Rightarrow> croutine" where "Release r = r\<lparr> cr_lock := False \<rparr>"

definition SetUpdateFlag :: "croutine \<Rightarrow> croutine" where "SetUpdateFlag r = r\<lparr> cr_updated := False \<rparr>"

definition Stop :: "croutine \<Rightarrow> croutine" where "Stop r = r\<lparr> cr_force_stop := True \<rparr>"

text \<open>A slice ends in a switch.\<close>

type_synonym 'w slice = "croutine \<Rightarrow> 'w \<Rightarrow> switched \<times> 'w"

definition Resume :: "'w slice \<Rightarrow> croutine \<Rightarrow> 'w \<Rightarrow> RoutineState \<times> croutine \<times> 'w" where
  "Resume body r w =
     (if cr_force_stop r then (let r1 = r\<lparr> cr_state := FINISHED \<rparr> in (cr_state r1, r1, w))
      else if cr_state r \<noteq> READY then (cr_state r, r, w)
      else (let (y, w1) = body r w; r1 = at_switch y in (cr_state r1, r1, w1)))"

section \<open>Bodies\<close>

text \<open>\<open>CRoutineEntry\<close>, with a body that runs to its end.\<close>

definition CRoutineEntry :: "('w \<Rightarrow> 'w) \<Rightarrow> 'w slice" where
  "CRoutineEntry func r w = (Yield_state FINISHED r, func w)"

text \<open>One turn of the loops of \<open>CreateRoutineFactory\<close> over a visitor \<open>dv\<close> of one to four channels; the
  callback \<open>f\<close> acts on the rest of the program and does not switch.\<close>

definition factory_slice1 :: "('d \<Rightarrow> 'd \<times> 'm option) \<Rightarrow> ('m \<Rightarrow> 'w \<Rightarrow> 'w) \<Rightarrow> ('d \<times> 'w) slice" where
  "factory_slice1 fetch f r w =
     (let r1 = set_state DATA_WAIT r
      in case fetch (fst w) of
           (dv, Some msg) \<Rightarrow> (Yield_state READY r1, (dv, f msg (snd w)))
         | (dv, None) \<Rightarrow> (Yield r1, (dv, snd w)))"

definition factory_slice2 :: "('d \<Rightarrow> 'd \<times> ('m0 \<times> 'm1) option) \<Rightarrow> ('m0 \<Rightarrow> 'm1 \<Rightarrow> 'w \<Rightarrow> 'w) \<Rightarrow> ('d \<times> 'w) slice" where
  "factory_slice2 fetch f r w =
     (let r1 = set_state DATA_WAIT r
      in case fetch (fst w) of
           (dv, Some (msg0, msg1)) \<Rightarrow> (Yield_state READY r1, (dv, f msg0 msg1 (snd w)))
         | (dv, None) \<Rightarrow> (Yield r1, (dv, snd w)))"

definition factory_slice3 ::
  "('d \<Rightarrow> 'd \<times> ('m0 \<times> 'm1 \<times> 'm2) option) \<Rightarrow> ('m0 \<Rightarrow> 'm1 \<Rightarrow> 'm2 \<Rightarrow> 'w \<Rightarrow> 'w) \<Rightarrow> ('d \<times> 'w) slice" where
  "factory_slice3 fetch f r w =
     (let r1 = set_state DATA_WAIT r
      in case fetch (fst w) of
           (dv, Some (msg0, msg1, msg2)) \<Rightarrow> (Yield_state READY r1, (dv, f msg0 msg1 msg2 (snd w)))
         | (dv, None) \<Rightarrow> (Yield r1, (dv, snd w)))"

definition factory_slice4 ::
  "('d \<Rightarrow> 'd \<times> ('m0 \<times> 'm1 \<times> 'm2 \<times> 'm3) option) \<Rightarrow> ('m0 \<Rightarrow> 'm1 \<Rightarrow> 'm2 \<Rightarrow> 'm3 \<Rightarrow> 'w \<Rightarrow> 'w) \<Rightarrow> ('d \<times> 'w) slice" where
  "factory_slice4 fetch f r w =
     (let r1 = set_state DATA_WAIT r
      in case fetch (fst w) of
           (dv, Some (msg0, msg1, msg2, msg3)) \<Rightarrow> (Yield_state READY r1, (dv, f msg0 msg1 msg2 msg3 (snd w)))
         | (dv, None) \<Rightarrow> (Yield r1, (dv, snd w)))"

section \<open>Basic facts\<close>

lemma UpdateState_state: "fst (UpdateState now r) = cr_state (snd (UpdateState now r))"
  by (simp add: UpdateState_def Let_def)

definition runnable :: "int \<Rightarrow> croutine \<Rightarrow> bool" where
  "runnable now r \<longleftrightarrow> cr_state r = READY \<or> cr_state r = SLEEP \<and> now > cr_wake_time r \<or>
     \<not> cr_updated r \<and> (cr_state r = DATA_WAIT \<or> cr_state r = IO_WAIT)"

lemma UpdateState_runnable: "fst (UpdateState now r) = READY \<longleftrightarrow> runnable now r"
  by (cases "cr_state r") (auto simp: UpdateState_def runnable_def Let_def)

lemma UpdateState_idle: "\<not> runnable now r \<Longrightarrow> snd (UpdateState now r) = r\<lparr> cr_updated := True \<rparr>"
  by (auto simp: UpdateState_def runnable_def Let_def)

lemma UpdateState_ready: "runnable now r \<Longrightarrow> cr_state (snd (UpdateState now r)) = READY"
  using UpdateState_runnable UpdateState_state by metis


section \<open>A reader and its coroutine\<close>

text \<open>What \<open>NotifyProcessor\<close> does to the coroutine of a reader when a message was dispatched.\<close>

definition notify_routine :: "croutine \<Rightarrow> croutine" where
  "notify_routine r = (if cr_state r = DATA_WAIT \<or> cr_state r = IO_WAIT then SetUpdateFlag r else r)"

text \<open>A message arrives, or a processor looks at the coroutine and resumes it when it is ready.\<close>

datatype 'm reader_event = Arrives 'm | Turn int

type_synonym 'm reader = "croutine \<times> (u64 \<times> 'm cache_buffer) \<times> 'm list"

definition reader_fetch :: "u64 \<times> 'm cache_buffer \<Rightarrow> (u64 \<times> 'm cache_buffer) \<times> 'm option" where
  "reader_fetch dv = (case TryFetch (fst dv) (snd dv) of (i, m) \<Rightarrow> ((i, snd dv), m))"

fun reader_step :: "'m reader_event \<Rightarrow> 'm reader \<Rightarrow> 'm reader" where
  "reader_step (Arrives m) (r, dv, calls) = (notify_routine r, (fst dv, cb_Fill m (snd dv)), calls)"
| "reader_step (Turn now) (r, dv, calls) =
     (case UpdateState now r of
        (READY, r1) \<Rightarrow> (case Resume (factory_slice1 reader_fetch (\<lambda>m cs. cs @ [m])) r1 (dv, calls) of (_, r2, w) \<Rightarrow> (r2, w))
      | (_, r1) \<Rightarrow> (r1, dv, calls))"

definition reader_init :: "int \<Rightarrow> 'm \<Rightarrow> u64 \<Rightarrow> 'm reader" where
  "reader_init now dflt queue_size = (CRoutine_construct now, (0, cb_construct dflt queue_size), [])"

primrec arrivals :: "'m reader_event list \<Rightarrow> 'm list" where
  "arrivals [] = []"
| "arrivals (e # es) = (case e of Arrives m \<Rightarrow> m # arrivals es | Turn now \<Rightarrow> arrivals es)"

text \<open>The invariant: \<open>log\<close> is what has arrived.\<close>

definition caught_up :: "u64 \<Rightarrow> 'm list \<Rightarrow> bool" where
  "caught_up i log \<longleftrightarrow> log = [] \<or> i \<noteq> 0 \<and> unat i = length log + 1"

definition reader_inv :: "nat \<Rightarrow> 'm list \<Rightarrow> 'm reader \<Rightarrow> bool" where
  "reader_inv n log s \<longleftrightarrow>
     (case s of (r, (i, b), calls) \<Rightarrow>
        cb_inv n log b \<and> unat i \<le> length log + 1 \<and> \<not> cr_force_stop r \<and>
        (cr_state r = READY \<or> cr_state r = DATA_WAIT \<and> (cr_updated r \<longrightarrow> caught_up i log)) \<and>
        (if i = 0 then calls = []
         else 2 \<le> unat i \<and> calls \<noteq> [] \<and> last calls = log ! (unat i - 2) \<and> subseq calls (take (unat i - 1) log)))"

lemma subseq_snoc: "subseq xs (take k ys) \<Longrightarrow> k < length ys \<Longrightarrow> subseq (xs @ [ys ! k]) (take (Suc k) ys)"
  by (simp add: take_Suc_conv_app_nth)

lemma reader_inv_arrives:
  assumes "reader_inv (Suc n) log s"
  shows "reader_inv n (log @ [m]) (reader_step (Arrives m) s)"
proof -
  obtain r i b calls where s: "s = (r, (i, b), calls)" by (metis prod.exhaust)
  have "cb_inv n (log @ [m]) (cb_Fill m b)" using assms by (simp add: s reader_inv_def cb_Fill_inv)
  moreover have "unat i \<noteq> 0 \<Longrightarrow> unat i - 2 < length log" "take (unat i - 1) (log @ [m]) = take (unat i - 1) log" if "i \<noteq> 0"
    using assms that by (auto simp: s reader_inv_def)
  ultimately show ?thesis
    using assms by (auto simp: s reader_inv_def notify_routine_def SetUpdateFlag_def nth_append)
qed

lemma reader_inv_turn:
  assumes "reader_inv n log s"
  shows "reader_inv n log (reader_step (Turn now) s)"
proof -
  obtain r i b calls where s: "s = (r, (i, b), calls)" by (metis prod.exhaust)
  have st: "cr_state r = READY \<or> cr_state r = DATA_WAIT" and inv: "cb_inv n log b" "unat i \<le> length log + 1"
    using assms by (auto simp: s reader_inv_def)
  show ?thesis
  proof (cases "runnable now r")
    case False
    then have "reader_step (Turn now) s = (r\<lparr> cr_updated := True \<rparr>, (i, b), calls)"
      using UpdateState_runnable [of now r] UpdateState_idle [of now r]
      by (cases "UpdateState now r"; cases "fst (UpdateState now r)") (auto simp: s)
    moreover have "caught_up i log" using False assms by (auto simp: s reader_inv_def runnable_def)
    ultimately show ?thesis using assms False by (auto simp: s reader_inv_def)
  next
    case True
    obtain r1 where u: "UpdateState now r = (READY, r1)" "cr_state r1 = READY"
      using True UpdateState_runnable [of now r] UpdateState_ready [of now r] by (metis prod.collapse)
    have fs: "\<not> cr_force_stop r1" using assms arg_cong [OF u(1), of snd]
      by (auto simp: s reader_inv_def UpdateState_def Let_def split: if_splits)
    have step: "reader_step (Turn now) s =
      (case TryFetch i b of (i', None) \<Rightarrow> (r1\<lparr> cr_state := DATA_WAIT \<rparr>, (i', b), calls)
         | (i', Some m) \<Rightarrow> (r1\<lparr> cr_state := READY \<rparr>, (i', b), calls @ [m]))"
      using u fs by (simp add: s Resume_def factory_slice1_def reader_fetch_def set_state_def Yield_def Yield_state_def
          Let_def split: prod.split option.split)
    show ?thesis
      using inv
    proof (cases rule: TryFetch_cases)
      case idle
      then show ?thesis unfolding step using assms fs u(2) by (auto simp: s reader_inv_def caught_up_def)
    next
      case newest
      let ?i = "of_nat (length log) + 1 :: u64"
      have i: "unat ?i = Suc (length log)" using cb_facts(2) [OF inv(1)] by (intro unat_of_nat_Suc) simp
      have nz: "?i \<noteq> 0" using i by (metis nat.distinct(1) unat_0)
      have lg: "Suc 0 \<le> length log" "last log = log ! (length log - 1)"
        using newest(1) by (simp_all add: last_conv_nth Suc_le_eq)
      have "subseq (calls @ [last log]) log"
      proof (cases "i = 0")
        case True
        then have "calls = []" using assms by (simp add: s reader_inv_def)
        then show ?thesis using newest(1) subseq_singleton_left [of "last log" log] by simp
      next
        case False
        then have "subseq calls (take (unat i - 1) log)" "unat i - 1 \<le> length log - 1"
          using assms newest(3) by (auto simp: s reader_inv_def)
        then have "subseq calls (butlast log)"
          by (metis butlast_conv_take subseq_order.trans take_is_prefix prefix_imp_subseq min.absorb1 take_take)
        then have "subseq (calls @ [last log]) (butlast log @ [last log])" by simp
        then show ?thesis using newest(1) by simp
      qed
      then show ?thesis unfolding step using assms fs u(2) newest(4) i nz lg by (auto simp: s reader_inv_def)
    next
      case in_order
      have i: "unat (i + 1) = Suc (unat i)" using in_order(2) cb_facts(2) [OF inv(1)] by (simp add: word_nat)
      have nz: "i + 1 \<noteq> 0" using i by (metis nat.distinct(1) unat_0)
      have a: "2 \<le> unat i" "subseq calls (take (unat i - 1) log)" "Suc (unat i - 1) = unat i"
        using assms in_order(1) by (auto simp: s reader_inv_def)
      have "subseq (calls @ [log ! (unat i - 1)]) (take (unat i) log)"
        using subseq_snoc [OF a(2)] a(1,3) in_order(2) by simp
      then show ?thesis unfolding step using assms fs u(2) in_order a(1) i nz by (auto simp: s reader_inv_def)
    qed
  qed
qed

lemma reader_inv_run:
  "reader_inv (length es) log s \<Longrightarrow> reader_inv 0 (log @ arrivals es) (fold reader_step es s)"
proof (induction es arbitrary: log s)
  case (Cons e es)
  show ?case
  proof (cases e)
    case (Arrives m)
    then show ?thesis using Cons.IH [OF reader_inv_arrives [of "length es" log s m]] Cons.prems by simp
  next
    case (Turn now)
    have "reader_inv (length es) log s" using Cons.prems by (auto simp: reader_inv_def cb_inv_mono split: prod.splits)
    then show ?thesis using Cons.IH [OF reader_inv_turn [of "length es" log s now]] Turn by simp
  qed
qed simp

text \<open>C11: However messages arrive and processors run the coroutine of a reader, its callback is called with
  a subsequence of the messages, in order; and when the coroutine rests (no processor would resume
  it) while messages have arrived, the last call was with the newest message: no message waits
  for a wake-up that does not come.\<close>

theorem resting_reader_has_newest:
  assumes "unat queue_size + 1 < 2 ^ 64" "length es < 2 ^ 64 - 1"
    and "fold reader_step es (reader_init now0 dflt queue_size) = (r, dv, calls)"
  shows "subseq calls (arrivals es) \<and>
    (\<not> runnable now r \<and> arrivals es \<noteq> [] \<longrightarrow> calls \<noteq> [] \<and> last calls = last (arrivals es))"
proof -
  have "reader_inv (length es) [] (reader_init now0 dflt queue_size)"
    using cb_construct_inv [OF assms(1,2)] by (simp add: reader_inv_def reader_init_def CRoutine_construct_def)
  then have inv: "reader_inv 0 (arrivals es) (r, dv, calls)"
    using reader_inv_run [of es "[]" "reader_init now0 dflt queue_size"] assms(3) by simp
  obtain i b where dv: "dv = (i, b)" by (cases dv)
  have "subseq calls (arrivals es)"
    using inv by (auto simp: reader_inv_def dv split: if_splits
        intro: subseq_order.trans [OF _ prefix_imp_subseq [OF take_is_prefix]])
  moreover have "calls \<noteq> [] \<and> last calls = last (arrivals es)" if "\<not> runnable now r" "arrivals es \<noteq> []"
  proof -
    have "i \<noteq> 0" "unat i = length (arrivals es) + 1"
      using inv that by (auto simp: reader_inv_def dv runnable_def caught_up_def)
    then show ?thesis using inv that(2) by (auto simp: reader_inv_def dv last_conv_nth)
  qed
  ultimately show ?thesis by blast
qed

lemma resting_reader_has_newest_witness:
  "subseq [''b'', ''e''] [''a'', ''b'', ''c'', ''d'', ''e''] \<and>
   snd (snd (fold reader_step [Arrives ''a'', Arrives ''b'', Turn 1, Arrives ''c'', Arrives ''d'', Arrives ''e'', Turn 2, Turn 3]
     (reader_init 0 ''x'' 2))) = [''b'', ''e'']"
proof -
  let ?es = "[Arrives ''a'', Arrives ''b'', Turn 1, Arrives ''c'', Arrives ''d'', Arrives ''e'', Turn 2, Turn 3]"
  have c: "snd (snd (fold reader_step ?es (reader_init 0 ''x'' 2))) = [''b'', ''e'']" by code_simp
  then obtain r dv where r: "fold reader_step ?es (reader_init 0 ''x'' 2) = (r, dv, [''b'', ''e''])"
    by (metis prod.collapse)
  show ?thesis using resting_reader_has_newest [OF _ _ r, of 0] c by simp
qed

end
