(* ===== verification/RoutineWakeup.thy ===== *)
theory RoutineWakeup
  imports Croutine
begin

text \<open>
  One coroutine of a channel reader, shared by any number of processors that look for work
  (\<open>ClassicContext::NextRoutine\<close>, \<open>Processor::Run\<close>), any number of threads that dispatch messages and
  notify (\<open>SchedulerClassic::NotifyProcessor\<close>), and a thread that removes it
  (\<open>SchedulerClassic::RemoveCRoutine\<close>, \<open>ClassicContext::RemoveCRoutine\<close>).  A step is one access to the
  shared state; memory is sequentially consistent.  The read-write locks are modelled by their
  exclusion (see \<open>RWLock\<close>): a removal waits until no processor is inside the loop over the queue.
\<close>

section \<open>The threads\<close>

text \<open>A processor: not holding the coroutine; it has its lock, in \<open>UpdateState\<close> before the test of the wake
  time, before the test-and-set, before the test of the waiting states; at the comparison with
  \<open>READY\<close>; before and in \<open>Resume\<close>; before \<open>Release\<close>.\<close>

datatype proc_turn = WIdle | WGot | WFlag | WCheck | WReturn | WResume | WRun | WRelease

text \<open>Where the coroutine itself is: before setting \<open>DATA_WAIT\<close>, before \<open>TryFetch\<close>, in the callback,
  before the \<open>Yield\<close> of a turn without a message.\<close>

datatype point = PTop | PFetch | PBody | PYieldNone

text \<open>A dispatching thread: idle; message filled, before looking up the coroutine; before the two reads of
  its state; before \<open>SetUpdateFlag\<close>; before \<open>ClassicContext::Notify\<close>.\<close>

datatype notifier = NIdle | NLook | NRead1 | NRead2 | NClear | NNotify

text \<open>The removing thread: before; stopped and unregistered the coroutine; holding the lock of the queue and
  spinning; holding the coroutine; erased; finished.\<close>

datatype remover = RmIdle | RmStopped | RmSpin | RmGot | RmErased | RmDone

record rc =
  rc_state :: RoutineState
  rc_lock :: bool
  rc_updated :: bool
  rc_stop :: bool
  rc_known :: bool
  rc_queued :: bool
  rc_at :: point
  rc_avail :: nat
  rc_tokens :: nat
  rc_work :: "nat \<Rightarrow> proc_turn"
  rc_note :: "nat \<Rightarrow> notifier"
  rc_rem :: remover

definition rc_init :: rc where
  "rc_init = \<lparr> rc_state = READY, rc_lock = False, rc_updated = True, rc_stop = False, rc_known = True,
     rc_queued = True, rc_at = PTop, rc_avail = 0, rc_tokens = 0, rc_work = (\<lambda>_. WIdle),
     rc_note = (\<lambda>_. NIdle), rc_rem = RmIdle \<rparr>"

definition in_queue_loop :: "proc_turn \<Rightarrow> bool" where
  "in_queue_loop p \<longleftrightarrow> p \<in> {WGot, WFlag, WCheck, WReturn}"

definition in_notify :: "notifier \<Rightarrow> bool" where
  "in_notify p \<longleftrightarrow> p \<in> {NRead1, NRead2, NClear, NNotify}"

text \<open>A processor.\<close>

inductive worker_turn :: "nat \<Rightarrow> rc \<Rightarrow> rc \<Rightarrow> bool" for w where
  acquire: "rc_work s w = WIdle \<Longrightarrow> rc_queued s \<Longrightarrow> rc_rem s \<in> {RmIdle, RmStopped, RmDone} \<Longrightarrow> \<not> rc_lock s \<Longrightarrow>
    worker_turn w s (s\<lparr> rc_lock := True, rc_work := (rc_work s)(w := WGot) \<rparr>)"
| slept: "rc_work s w = WGot \<Longrightarrow> rc_state s = SLEEP \<Longrightarrow>
    worker_turn w s (s\<lparr> rc_state := READY, rc_work := (rc_work s)(w := WReturn) \<rparr>)"
| not_slept: "rc_work s w = WGot \<Longrightarrow> worker_turn w s (s\<lparr> rc_work := (rc_work s)(w := WFlag) \<rparr>)"
| test_and_set: "rc_work s w = WFlag \<Longrightarrow>
    worker_turn w s (s\<lparr> rc_updated := True, rc_work := (rc_work s)(w := if rc_updated s then WReturn else WCheck) \<rparr>)"
| check: "rc_work s w = WCheck \<Longrightarrow>
    worker_turn w s (s\<lparr> rc_state := (if rc_state s = DATA_WAIT \<or> rc_state s = IO_WAIT then READY else rc_state s),
      rc_work := (rc_work s)(w := WReturn) \<rparr>)"
| compare: "rc_work s w = WReturn \<Longrightarrow>
    worker_turn w s (s\<lparr> rc_work := (rc_work s)(w := if rc_state s = READY then WResume else WRelease) \<rparr>)"
| resume_stopped: "rc_work s w = WResume \<Longrightarrow> rc_stop s \<Longrightarrow>
    worker_turn w s (s\<lparr> rc_state := FINISHED, rc_work := (rc_work s)(w := WRelease) \<rparr>)"
| resume: "rc_work s w = WResume \<Longrightarrow> \<not> rc_stop s \<Longrightarrow>
    worker_turn w s (s\<lparr> rc_work := (rc_work s)(w := if rc_state s \<noteq> READY then WRelease else WRun) \<rparr>)"
| release: "rc_work s w = WRelease \<Longrightarrow>
    worker_turn w s (s\<lparr> rc_lock := False, rc_work := (rc_work s)(w := WIdle) \<rparr>)"

text \<open>The coroutine, run by a processor.  A fetch after an overflow of the buffer skips messages; the
  callback may itself switch, in any state, and be continued later.\<close>

inductive body_turn :: "nat \<Rightarrow> rc \<Rightarrow> rc \<Rightarrow> bool" for w where
  top: "rc_work s w = WRun \<Longrightarrow> rc_at s = PTop \<Longrightarrow>
    body_turn w s (s\<lparr> rc_state := DATA_WAIT, rc_at := PFetch \<rparr>)"
| fetch_some: "rc_work s w = WRun \<Longrightarrow> rc_at s = PFetch \<Longrightarrow> k < rc_avail s \<Longrightarrow>
    body_turn w s (s\<lparr> rc_avail := k, rc_at := PBody \<rparr>)"
| fetch_none: "rc_work s w = WRun \<Longrightarrow> rc_at s = PFetch \<Longrightarrow> rc_avail s = 0 \<Longrightarrow>
    body_turn w s (s\<lparr> rc_at := PYieldNone \<rparr>)"
| callback_switch: "rc_work s w = WRun \<Longrightarrow> rc_at s = PBody \<Longrightarrow> st \<noteq> FINISHED \<Longrightarrow>
    body_turn w s (s\<lparr> rc_state := st, rc_work := (rc_work s)(w := WRelease) \<rparr>)"
| callback_end: "rc_work s w = WRun \<Longrightarrow> rc_at s = PBody \<Longrightarrow>
    body_turn w s (s\<lparr> rc_state := READY, rc_at := PTop, rc_work := (rc_work s)(w := WRelease) \<rparr>)"
| yield_none: "rc_work s w = WRun \<Longrightarrow> rc_at s = PYieldNone \<Longrightarrow>
    body_turn w s (s\<lparr> rc_at := PTop, rc_work := (rc_work s)(w := WRelease) \<rparr>)"

inductive notifier_turn :: "nat \<Rightarrow> rc \<Rightarrow> rc \<Rightarrow> bool" for n where
  fill: "rc_note s n = NIdle \<Longrightarrow>
    notifier_turn n s (s\<lparr> rc_avail := Suc (rc_avail s), rc_note := (rc_note s)(n := NLook) \<rparr>)"
| look: "rc_note s n = NLook \<Longrightarrow>
    notifier_turn n s (s\<lparr> rc_note := (rc_note s)(n := if rc_known s then NRead1 else NIdle) \<rparr>)"
| read_data: "rc_note s n = NRead1 \<Longrightarrow>
    notifier_turn n s (s\<lparr> rc_note := (rc_note s)(n := if rc_state s = DATA_WAIT then NClear else NRead2) \<rparr>)"
| read_io: "rc_note s n = NRead2 \<Longrightarrow>
    notifier_turn n s (s\<lparr> rc_note := (rc_note s)(n := if rc_state s = IO_WAIT then NClear else NNotify) \<rparr>)"
| clear: "rc_note s n = NClear \<Longrightarrow>
    notifier_turn n s (s\<lparr> rc_updated := False, rc_note := (rc_note s)(n := NNotify) \<rparr>)"
| notify: "rc_note s n = NNotify \<Longrightarrow>
    notifier_turn n s (s\<lparr> rc_tokens := Suc (rc_tokens s), rc_note := (rc_note s)(n := NIdle) \<rparr>)"

inductive remover_turn :: "rc \<Rightarrow> rc \<Rightarrow> bool" where
  stop: "rc_rem s = RmIdle \<Longrightarrow> \<forall>n. \<not> in_notify (rc_note s n) \<Longrightarrow>
    remover_turn s (s\<lparr> rc_stop := True, rc_known := False, rc_rem := RmStopped \<rparr>)"
| lock_queue: "rc_rem s = RmStopped \<Longrightarrow> \<forall>w. \<not> in_queue_loop (rc_work s w) \<Longrightarrow>
    remover_turn s (s\<lparr> rc_rem := RmSpin \<rparr>)"
| got: "rc_rem s = RmSpin \<Longrightarrow> \<not> rc_lock s \<Longrightarrow> remover_turn s (s\<lparr> rc_lock := True, rc_rem := RmGot \<rparr>)"
| erase: "rc_rem s = RmGot \<Longrightarrow> remover_turn s (s\<lparr> rc_queued := False, rc_rem := RmErased \<rparr>)"
| unlock: "rc_rem s = RmErased \<Longrightarrow> remover_turn s (s\<lparr> rc_lock := False, rc_rem := RmDone \<rparr>)"

inductive rc_step :: "rc \<Rightarrow> rc \<Rightarrow> bool" where
  by_worker: "worker_turn w s s' \<Longrightarrow> rc_step s s'"
| by_body: "body_turn w s s' \<Longrightarrow> rc_step s s'"
| by_notifier: "notifier_turn n s s' \<Longrightarrow> rc_step s s'"
| by_remover: "remover_turn s s' \<Longrightarrow> rc_step s s'"

inductive_cases rc_stepE: "rc_step s s'"

abbreviation rc_reach :: "rc \<Rightarrow> bool" where "rc_reach s \<equiv> rc_step\<^sup>*\<^sup>* rc_init s"

section \<open>Invariants\<close>

text \<open>The processors that hold the coroutine.\<close>

definition busy :: "(nat \<Rightarrow> proc_turn) \<Rightarrow> nat set" where "busy f = {w. f w \<noteq> WIdle}"

lemma busy_upd [simp]: "busy (f(w := p)) = (if p = WIdle then busy f - {w} else insert w (busy f))"
  by (auto simp: busy_def)

lemma busyI: "rc_work s w = p \<Longrightarrow> p \<noteq> WIdle \<Longrightarrow> w \<in> busy (rc_work s)"
  by (simp add: busy_def)

text \<open>At most one, and then the lock is taken; none while the remover has the lock.\<close>

definition lock_inv :: "rc \<Rightarrow> bool" where
  "lock_inv s \<longleftrightarrow>
     (if busy (rc_work s) = {} then rc_lock s \<longleftrightarrow> rc_rem s \<in> {RmGot, RmErased}
      else rc_lock s \<and> (\<exists>w. busy (rc_work s) = {w}) \<and> rc_rem s \<notin> {RmGot, RmErased, RmDone})"

definition rem_inv :: "rc \<Rightarrow> bool" where
  "rem_inv s \<longleftrightarrow>
     (rc_rem s = RmSpin \<longrightarrow> (\<forall>w. \<not> in_queue_loop (rc_work s w))) \<and>
     (rc_queued s \<longleftrightarrow> rc_rem s \<notin> {RmErased, RmDone}) \<and>
     (rc_stop s \<longleftrightarrow> rc_rem s \<noteq> RmIdle) \<and> (rc_known s \<longleftrightarrow> rc_rem s = RmIdle)"

lemma lock_inv_busy: "lock_inv s \<Longrightarrow> w \<in> busy (rc_work s) \<Longrightarrow> rc_lock s \<and> busy (rc_work s) = {w} \<and> rc_rem s \<notin> {RmGot, RmErased, RmDone}"
  by (auto simp: lock_inv_def split: if_splits)

lemma lock_inv_worker:
  assumes "worker_turn w s s'" "lock_inv s" "rem_inv s" shows "lock_inv s' \<and> rem_inv s'"
  using assms(1)
proof cases
  case acquire
  then have "busy (rc_work s) = {}" using assms(2) by (auto simp: lock_inv_def split: if_splits)
  then show ?thesis using acquire assms(3) by (auto simp: lock_inv_def rem_inv_def)
qed (use assms(2,3) lock_inv_busy [OF assms(2) busyI [of _ w]] in
    \<open>auto simp: lock_inv_def rem_inv_def in_queue_loop_def\<close>)

lemma lock_inv_body:
  assumes "body_turn w s s'" "lock_inv s" "rem_inv s" shows "lock_inv s' \<and> rem_inv s'"
  using assms(1)
  by cases (use assms(2,3) lock_inv_busy [OF assms(2) busyI [of _ w]] in
    \<open>auto simp: lock_inv_def rem_inv_def in_queue_loop_def\<close>)

lemma lock_inv_notifier:
  assumes "notifier_turn n s s'" "lock_inv s" "rem_inv s" shows "lock_inv s' \<and> rem_inv s'"
  using assms(1) by cases (use assms(2,3) in \<open>auto simp: lock_inv_def rem_inv_def split: if_splits\<close>)

lemma lock_inv_remover:
  assumes "remover_turn s s'" "lock_inv s" "rem_inv s" shows "lock_inv s' \<and> rem_inv s'"
  using assms(1) by cases (use assms(2,3) in \<open>auto simp: lock_inv_def rem_inv_def busy_def split: if_splits\<close>)

lemma lock_inv_step: "rc_step s s' \<Longrightarrow> lock_inv s \<and> rem_inv s \<Longrightarrow> lock_inv s' \<and> rem_inv s'"
  by (erule rc_stepE) (simp_all add: lock_inv_worker lock_inv_body lock_inv_notifier lock_inv_remover)

text \<open>Where the coroutine is and what its state says.  A message that is there while the coroutine is
  parked before the loop of its body, or about to be, has made it ready, or its update flag is
  clear, or a thread will make one of these true.\<close>

definition at_top :: "rc \<Rightarrow> bool" where "at_top s \<longleftrightarrow> rc_at s \<in> {PTop, PYieldNone}"

definition some_worker :: "(nat \<Rightarrow> proc_turn) \<Rightarrow> proc_turn \<Rightarrow> bool" where
  "some_worker f q \<longleftrightarrow> (\<exists>w. f w = q)"

definition some_notifier :: "(nat \<Rightarrow> notifier) \<Rightarrow> bool" where
  "some_notifier f \<longleftrightarrow> (\<exists>n. f n \<in> {NLook, NRead1, NClear})"

definition wake_inv :: "rc \<Rightarrow> bool" where
  "wake_inv s \<longleftrightarrow>
     (rc_at s \<in> {PFetch, PYieldNone} \<longrightarrow> some_worker (rc_work s) WRun \<and> rc_state s = DATA_WAIT) \<and>
     (at_top s \<and> \<not> rc_stop s \<longrightarrow> rc_state s \<in> {READY, DATA_WAIT}) \<and>
     (at_top s \<and> \<not> rc_stop s \<and> 0 < rc_avail s \<longrightarrow>
        rc_state s = READY \<or> \<not> rc_updated s \<or> some_notifier (rc_note s) \<or>
        some_worker (rc_work s) WCheck)"

lemma others_idle:
  assumes "lock_inv s" "rc_work s w = p" "p \<noteq> WIdle" "v \<noteq> w" shows "rc_work s v = WIdle"
proof -
  have "busy (rc_work s) = {w}" using lock_inv_busy [OF assms(1) busyI [OF assms(2,3)]] by blast
  then have "v \<notin> busy (rc_work s)" using assms(4) by simp
  then show ?thesis by (simp add: busy_def)
qed

lemma some_worker_here:
  assumes "lock_inv s" "rc_work s w = p" "p \<noteq> WIdle" "q \<noteq> WIdle"
  shows "some_worker (rc_work s) q \<longleftrightarrow> p = q" "some_worker ((rc_work s)(w := p')) q \<longleftrightarrow> p' = q"
  using others_idle [OF assms(1-3)] assms(2,4) unfolding some_worker_def fun_upd_def by metis+

lemma wake_inv_worker:
  assumes "worker_turn w s s'" "lock_inv s" "rem_inv s" "wake_inv s" shows "wake_inv s'"
  using assms(1)
proof cases
  case acquire
  then have "busy (rc_work s) = {}" using assms(2) by (auto simp: lock_inv_def split: if_splits)
  then have "rc_work s v = WIdle" for v by (auto simp: busy_def)
  then show ?thesis using acquire assms(4) by (auto simp: wake_inv_def at_top_def some_worker_def)
qed (use assms(4) some_worker_here [OF assms(2), of w] in \<open>auto simp: wake_inv_def at_top_def\<close>)

lemma wake_inv_body:
  assumes "body_turn w s s'" "lock_inv s" "wake_inv s" shows "wake_inv s'"
  using assms(1)
  by cases (use assms(3) some_worker_here [OF assms(2), of w] in \<open>auto simp: wake_inv_def at_top_def\<close>)

lemma some_notifier_upd:
  "some_notifier (f(n := p)) \<longleftrightarrow> p \<in> {NLook, NRead1, NClear} \<or> (\<exists>m. m \<noteq> n \<and> f m \<in> {NLook, NRead1, NClear})"
  by (auto simp: some_notifier_def)

lemma some_notifier_other:
  "f n \<notin> {NLook, NRead1, NClear} \<Longrightarrow> some_notifier f \<Longrightarrow> some_notifier (f(n := p))"
  unfolding some_notifier_upd unfolding some_notifier_def by metis

lemma wake_inv_notifier:
  assumes "notifier_turn n s s'" "lock_inv s" "rem_inv s" "wake_inv s" shows "wake_inv s'"
  using assms(1)
proof cases
  case fill
  then show ?thesis using assms(4) by (auto simp: wake_inv_def at_top_def some_notifier_upd)
next
  case look
  then show ?thesis using assms(3,4) by (auto simp: wake_inv_def at_top_def some_notifier_upd rem_inv_def)
next
  case read_data
  then show ?thesis using assms(4) by (auto simp: wake_inv_def at_top_def some_notifier_upd)
next
  case read_io
  have "some_notifier (rc_note s) \<Longrightarrow> some_notifier (rc_note s')"
    using some_notifier_other [of "rc_note s" n] read_io by simp
  then show ?thesis using assms(4) read_io by (auto simp: wake_inv_def at_top_def)
next
  case clear
  then show ?thesis using assms(4) by (auto simp: wake_inv_def at_top_def)
next
  case notify
  have "some_notifier (rc_note s) \<Longrightarrow> some_notifier (rc_note s')"
    using some_notifier_other [of "rc_note s" n] notify by simp
  then show ?thesis using assms(4) notify by (auto simp: wake_inv_def at_top_def)
qed

lemma wake_inv_remover:
  assumes "remover_turn s s'" "wake_inv s" shows "wake_inv s'"
  using assms(1) by cases (use assms(2) in \<open>auto simp: wake_inv_def at_top_def\<close>)

definition rc_inv :: "rc \<Rightarrow> bool" where
  "rc_inv s \<longleftrightarrow> lock_inv s \<and> rem_inv s \<and> wake_inv s"

lemma rc_inv_step: "rc_step s s' \<Longrightarrow> rc_inv s \<Longrightarrow> rc_inv s'"
  unfolding rc_inv_def
  by (frule lock_inv_step, simp, erule rc_stepE)
    (simp_all add: wake_inv_worker wake_inv_body wake_inv_notifier wake_inv_remover)

lemma rc_inv_reach: "rc_reach s \<Longrightarrow> rc_inv s"
proof (induction rule: rtranclp_induct)
  case base
  show ?case by (simp add: rc_inv_def lock_inv_def rem_inv_def wake_inv_def rc_init_def busy_def at_top_def)
next
  case (step s s')
  then show ?case using rc_inv_step by blast
qed

section \<open>Theorems\<close>

text \<open>Steps of one processor and the coroutine it runs.\<close>

definition turn :: "nat \<Rightarrow> rc \<Rightarrow> rc \<Rightarrow> bool" where
  "turn w s s' \<longleftrightarrow> worker_turn w s s' \<or> body_turn w s s'"

lemma turn_worker: "worker_turn w s s1 \<Longrightarrow> (turn w)\<^sup>*\<^sup>* s1 s' \<Longrightarrow> (turn w)\<^sup>*\<^sup>* s s'"
  by (rule converse_rtranclp_into_rtranclp) (simp_all add: turn_def)

lemma turn_body: "body_turn w s s1 \<Longrightarrow> (turn w)\<^sup>*\<^sup>* s1 s' \<Longrightarrow> (turn w)\<^sup>*\<^sup>* s s'"
  by (rule converse_rtranclp_into_rtranclp) (simp_all add: turn_def)

lemma returning_calls_back:
  assumes "rc_work s w = WReturn" "rc_state s = READY" "\<not> rc_stop s" "rc_at s = PTop" "0 < rc_avail s"
  shows "\<exists>s'. (turn w)\<^sup>*\<^sup>* s s' \<and> rc_at s' = PBody \<and> rc_avail s' < rc_avail s"
proof -
  let ?s1 = "s\<lparr> rc_work := (rc_work s)(w := WResume) \<rparr>"
  let ?s2 = "?s1\<lparr> rc_work := (rc_work ?s1)(w := WRun) \<rparr>"
  let ?s3 = "?s2\<lparr> rc_state := DATA_WAIT, rc_at := PFetch \<rparr>"
  let ?s4 = "?s3\<lparr> rc_avail := 0, rc_at := PBody \<rparr>"
  have "worker_turn w s ?s1" using worker_turn.compare [of s w] assms by simp
  moreover have "worker_turn w ?s1 ?s2" using worker_turn.resume [of ?s1 w] assms by simp
  moreover have "body_turn w ?s2 ?s3" using body_turn.top [of ?s2 w] assms by simp
  moreover have "body_turn w ?s3 ?s4" using body_turn.fetch_some [of ?s3 w 0] assms by simp
  ultimately have "(turn w)\<^sup>*\<^sup>* s ?s4" by (meson turn_worker turn_body rtranclp.rtrancl_refl)
  then show ?thesis using assms(5) by (intro exI [of _ ?s4]) simp
qed

text \<open>C3: No wake-up is lost.  Whatever the interleaving of dispatching threads, processors and the
  coroutine of a reader: when the coroutine is parked, a message waits in its buffer, and every
  thread that dispatched one is past the update of the flag, then the next processor that looks at
  the coroutine, whichever it is, finds it ready and runs its callback on a waiting message.\<close>

theorem no_lost_wakeup:
  assumes "rc_reach s" "\<forall>v. rc_work s v = WIdle" "rc_at s = PTop" "0 < rc_avail s" "rc_rem s = RmIdle"
    and "\<forall>n. rc_note s n \<notin> {NLook, NRead1, NClear}"
  shows "\<exists>s'. (turn w)\<^sup>*\<^sup>* s s' \<and> rc_at s' = PBody \<and> rc_avail s' < rc_avail s"
proof -
  have inv: "rc_inv s" by (rule rc_inv_reach [OF assms(1)])
  have ns: "\<not> rc_stop s" "rc_queued s" using inv assms(5) by (auto simp: rc_inv_def rem_inv_def)
  have "busy (rc_work s) = {}" using assms(2) by (simp add: busy_def)
  then have free: "\<not> rc_lock s" using inv assms(5) by (simp add: rc_inv_def lock_inv_def)
  have st: "rc_state s = READY \<or> rc_state s = DATA_WAIT \<and> \<not> rc_updated s"
    using inv ns assms(2,3,4,6)
    by (auto simp: rc_inv_def wake_inv_def at_top_def some_notifier_def some_worker_def)
  let ?s1 = "s\<lparr> rc_lock := True, rc_work := (rc_work s)(w := WGot) \<rparr>"
  let ?s2 = "?s1\<lparr> rc_work := (rc_work ?s1)(w := WFlag) \<rparr>"
  let ?s3 = "?s2\<lparr> rc_updated := True, rc_work := (rc_work ?s2)(w := if rc_updated ?s2 then WReturn else WCheck) \<rparr>"
  have "worker_turn w s ?s1" by (rule worker_turn.acquire) (use assms free ns in auto)
  moreover have "worker_turn w ?s1 ?s2" by (rule worker_turn.not_slept) simp
  moreover have "worker_turn w ?s2 ?s3" by (rule worker_turn.test_and_set) simp
  moreover have "\<exists>s'. (turn w)\<^sup>*\<^sup>* ?s3 s' \<and> rc_at s' = PBody \<and> rc_avail s' < rc_avail s"
  proof (cases "rc_updated s")
    case True
    then show ?thesis using returning_calls_back [of ?s3 w] st ns assms(3,4) by simp
  next
    case False
    let ?s4 = "?s3\<lparr> rc_state := (if rc_state ?s3 = DATA_WAIT \<or> rc_state ?s3 = IO_WAIT then READY else rc_state ?s3),
      rc_work := (rc_work ?s3)(w := WReturn) \<rparr>"
    have "worker_turn w ?s3 ?s4" by (rule worker_turn.check) (use False in simp)
    moreover have "\<exists>s'. (turn w)\<^sup>*\<^sup>* ?s4 s' \<and> rc_at s' = PBody \<and> rc_avail s' < rc_avail ?s4"
      by (rule returning_calls_back) (use st ns assms(3,4) in auto)
    moreover have "rc_avail ?s4 = rc_avail s" by simp
    ultimately show ?thesis using turn_worker [of w ?s3 ?s4] by metis
  qed
  ultimately show ?thesis by (meson turn_worker)
qed

text \<open>A state of \<open>no_lost_wakeup\<close>: one message dispatched while the coroutine was first ready.\<close>

lemma reach_step: "rc_reach s \<Longrightarrow> rc_step s s' \<Longrightarrow> rc_reach s'"
  by (rule rtranclp.rtrancl_into_rtrancl)

lemma no_lost_wakeup_witness:
  "\<exists>s s'. rc_reach s \<and> rc_avail s = 1 \<and> (turn 5)\<^sup>*\<^sup>* s s' \<and> rc_at s' = PBody \<and> rc_avail s' = 0"
proof -
  let ?s1 = "rc_init\<lparr> rc_avail := 1, rc_note := (\<lambda>_. NIdle)(0 := NLook) \<rparr>"
  let ?s2 = "?s1\<lparr> rc_note := (\<lambda>_. NIdle)(0 := NRead1) \<rparr>"
  let ?s3 = "?s2\<lparr> rc_note := (\<lambda>_. NIdle)(0 := NRead2) \<rparr>"
  let ?s4 = "?s3\<lparr> rc_note := (\<lambda>_. NIdle)(0 := NNotify) \<rparr>"
  have "notifier_turn 0 rc_init ?s1" using notifier_turn.fill [of rc_init 0] by (simp add: rc_init_def)
  moreover have "notifier_turn 0 ?s1 ?s2" using notifier_turn.look [of ?s1 0] by (simp add: rc_init_def)
  moreover have "notifier_turn 0 ?s2 ?s3" using notifier_turn.read_data [of ?s2 0] by (simp add: rc_init_def)
  moreover have "notifier_turn 0 ?s3 ?s4" using notifier_turn.read_io [of ?s3 0] by (simp add: rc_init_def)
  ultimately have r: "rc_reach ?s4" by (meson by_notifier reach_step rtranclp.rtrancl_refl)
  have "\<exists>s'. (turn 5)\<^sup>*\<^sup>* ?s4 s' \<and> rc_at s' = PBody \<and> rc_avail s' < rc_avail ?s4"
    by (rule no_lost_wakeup [OF r]) (simp_all add: rc_init_def)
  then obtain s' where "(turn 5)\<^sup>*\<^sup>* ?s4 s'" "rc_at s' = PBody" "rc_avail s' < rc_avail ?s4" by blast
  then show ?thesis using r by (intro exI [of _ ?s4] exI [of _ s']) (simp add: rc_init_def)
qed

lemma rem_done_step: "rc_step s s' \<Longrightarrow> rc_rem s = RmDone \<Longrightarrow> rc_rem s' = RmDone"
  by (erule rc_stepE) (auto elim: worker_turn.cases body_turn.cases notifier_turn.cases remover_turn.cases)

text \<open>C9: At any moment at most one processor runs the coroutine, or has taken it up to run it, and none once its
  removal has returned, however the program goes on.\<close>

theorem routine_exclusive:
  assumes "rc_reach s" "rc_step\<^sup>*\<^sup>* s s'"
  shows "(\<forall>v w. rc_work s v \<noteq> WIdle \<and> rc_work s w \<noteq> WIdle \<longrightarrow> v = w) \<and>
    (rc_rem s = RmDone \<longrightarrow> (\<forall>w. rc_work s' w = WIdle))"
proof (intro conjI impI allI)
  fix v w
  assume "rc_work s v \<noteq> WIdle \<and> rc_work s w \<noteq> WIdle"
  moreover have "lock_inv s" using rc_inv_reach [OF assms(1)] by (simp add: rc_inv_def)
  ultimately show "v = w" using others_idle [of s v _ w] by blast
next
  fix w
  assume r: "rc_rem s = RmDone"
  have "rc_rem s' = RmDone" using assms(2) r by (induction rule: rtranclp_induct) (auto dest: rem_done_step)
  moreover have "rc_reach s'" using assms by simp
  then have "lock_inv s'" using rc_inv_reach by (simp add: rc_inv_def)
  ultimately show "rc_work s' w = WIdle" by (auto simp: lock_inv_def busy_def split: if_splits)
qed

lemma routine_exclusive_witness:
  "\<exists>s s'. rc_reach s \<and> rc_rem s = RmDone \<and> rc_step s s' \<and> s' \<noteq> s \<and> (\<forall>w. rc_work s' w = WIdle)"
proof -
  let ?s1 = "rc_init\<lparr> rc_stop := True, rc_known := False, rc_rem := RmStopped \<rparr>"
  let ?s2 = "?s1\<lparr> rc_rem := RmSpin \<rparr>"
  let ?s3 = "?s2\<lparr> rc_lock := True, rc_rem := RmGot \<rparr>"
  let ?s4 = "?s3\<lparr> rc_queued := False, rc_rem := RmErased \<rparr>"
  let ?s5 = "?s4\<lparr> rc_lock := False, rc_rem := RmDone \<rparr>"
  let ?s6 = "?s5\<lparr> rc_avail := 1, rc_note := (\<lambda>_. NIdle)(0 := NLook) \<rparr>"
  have "remover_turn rc_init ?s1" using remover_turn.stop [of rc_init] by (simp add: rc_init_def in_notify_def)
  moreover have "remover_turn ?s1 ?s2" using remover_turn.lock_queue [of ?s1] by (simp add: rc_init_def in_queue_loop_def)
  moreover have "remover_turn ?s2 ?s3" using remover_turn.got [of ?s2] by (simp add: rc_init_def)
  moreover have "remover_turn ?s3 ?s4" using remover_turn.erase [of ?s3] by simp
  moreover have "remover_turn ?s4 ?s5" using remover_turn.unlock [of ?s4] by simp
  ultimately have r: "rc_reach ?s5" by (meson by_remover reach_step rtranclp.rtrancl_refl)
  have n: "rc_step ?s5 ?s6" by (rule by_notifier) (use notifier_turn.fill [of ?s5 0] in \<open>simp add: rc_init_def\<close>)
  have "rc_step\<^sup>*\<^sup>* ?s5 ?s6" using n by blast
  then have "\<forall>w. rc_work ?s6 w = WIdle" using routine_exclusive [OF r, of ?s6] by simp
  moreover have "?s6 \<noteq> ?s5"
  proof
    assume "?s6 = ?s5" then have "rc_avail ?s6 = rc_avail ?s5" by (rule arg_cong)
    then show False by (simp add: rc_init_def)
  qed
  ultimately show ?thesis using r n by (intro exI [of _ ?s5] exI [of _ ?s6]) simp
qed

end
