(* ===== verification/DataStream.thy ===== *)
theory DataStream
  imports Prelude
begin

text \<open>
  \<open>serialize/data_stream.h\<close>, \<open>serialize/data_stream.cpp\<close> and \<open>serialize/serializable.h\<close>: the tagged
  byte stream.  A stream is the record of its fields; bytes are \<open>8 word\<close>.  A write is partial:
  \<open>None\<close> when \<open>reserve\<close>'s doubling would overflow \<open>int\<close>.  A read takes the old value of its reference
  argument and is partial: \<open>None\<close> when the code would read outside the buffer or use an
  uninitialised length (undefined behaviour); otherwise it gives the returned flag, the new value
  and the new stream.  \<open>float\<close> and \<open>double\<close> are their bit patterns.
\<close>

section \<open>The stream\<close>

datatype DataType =
    BOOL | CHAR8 | INT32 | INT64 | UINT32 | UINT64 | FLOAT | DOUBLE | ENUM | STRING | VECTOR | LIST
  | MAP | SET | CUSTOM

fun type_tag :: "DataType \<Rightarrow> u8" where
  "type_tag BOOL = 0" | "type_tag CHAR8 = 1" | "type_tag INT32 = 2" | "type_tag INT64 = 3"
| "type_tag UINT32 = 4" | "type_tag UINT64 = 5" | "type_tag FLOAT = 6" | "type_tag DOUBLE = 7"
| "type_tag ENUM = 8" | "type_tag STRING = 9" | "type_tag VECTOR = 10" | "type_tag LIST = 11"
| "type_tag MAP = 12" | "type_tag SET = 13" | "type_tag CUSTOM = 14"

datatype ByteOrder = BigEndian | LittleEndian

record data_stream =
  m_buf :: "u8 list"
  m_cap :: nat
  m_pos :: nat
  m_byteorder :: ByteOrder

type_synonym 'a writer = "'a \<Rightarrow> data_stream \<Rightarrow> data_stream option"
type_synonym 'a reader = "'a \<Rightarrow> data_stream \<Rightarrow> (bool \<times> 'a \<times> data_stream) option"

text \<open>Little-endian bytes of a value, and back.\<close>

fun le_bytes :: "nat \<Rightarrow> nat \<Rightarrow> u8 list" where
  "le_bytes 0 v = []"
| "le_bytes (Suc n) v = of_nat (v mod 256) # le_bytes n (v div 256)"

fun of_le_bytes :: "u8 list \<Rightarrow> nat" where
  "of_le_bytes [] = 0"
| "of_le_bytes (b # bs) = unat b + 256 * of_le_bytes bs"

text \<open>The bytes of an \<open>n\<close>-byte integer in the host's memory, and reading them.\<close>

definition mem_bytes :: "ByteOrder \<Rightarrow> nat \<Rightarrow> nat \<Rightarrow> u8 list" where
  "mem_bytes bo n v = (case bo of BigEndian \<Rightarrow> rev (le_bytes n v) | LittleEndian \<Rightarrow> le_bytes n v)"

definition of_mem_bytes :: "ByteOrder \<Rightarrow> u8 list \<Rightarrow> nat" where
  "of_mem_bytes bo bs = (case bo of BigEndian \<Rightarrow> of_le_bytes (rev bs) | LittleEndian \<Rightarrow> of_le_bytes bs)"

text \<open>\<open>byteorder\<close> looks at the first byte of \<open>0x12345678\<close> in memory.\<close>

definition byteorder :: "ByteOrder \<Rightarrow> ByteOrder" where
  "byteorder host = (if hd (mem_bytes host 4 0x12345678) = 0x12 then BigEndian else LittleEndian)"

definition ds_construct :: "ByteOrder \<Rightarrow> data_stream" where
  "ds_construct host = \<lparr> m_buf = [], m_cap = 0, m_pos = 0, m_byteorder = byteorder host \<rparr>"

text \<open>The loop of \<open>reserve\<close>: the capacity is doubled until it suffices.\<close>

function reserve_cap :: "nat \<Rightarrow> nat \<Rightarrow> nat" where
  "reserve_cap need cap =
     (if need > cap then reserve_cap need (if cap = 0 then 1 else cap * 2) else cap)"
  by pat_completeness auto
termination by (relation "measure (\<lambda>(need, cap). 2 * need - cap + (if cap = 0 then 1 else 0))") auto

declare reserve_cap.simps [simp del]

text \<open>Beyond this size the doubling of an \<open>int\<close> capacity can overflow.\<close>

definition max_stream :: nat where "max_stream = 2 ^ 30"

definition reserve :: "nat \<Rightarrow> data_stream \<Rightarrow> data_stream option" where
  "reserve len st =
     (if length (m_buf st) + len > max_stream then None
      else Some (st\<lparr> m_cap := reserve_cap (length (m_buf st) + len) (m_cap st) \<rparr>))"

definition write_raw :: "u8 list writer" where
  "write_raw data st =
     (case reserve (length data) st of
        None \<Rightarrow> None
      | Some st' \<Rightarrow> Some (st'\<lparr> m_buf := m_buf st' @ data \<rparr>))"

definition ds_of_bytes :: "ByteOrder \<Rightarrow> u8 list \<Rightarrow> data_stream option" where
  "ds_of_bytes host ptr =
     (case reserve (length ptr) (ds_construct host) of
        None \<Rightarrow> None
      | Some st \<Rightarrow> write_raw ptr st)"

definition ds_size :: "data_stream \<Rightarrow> nat" where "ds_size st = length (m_buf st)"
definition ByteSize :: "data_stream \<Rightarrow> nat" where "ByteSize st = 1 * length (m_buf st)"
definition ds_clear :: "data_stream \<Rightarrow> data_stream" where "ds_clear st = st\<lparr> m_buf := [] \<rparr>"
definition ds_reset :: "data_stream \<Rightarrow> data_stream" where "ds_reset st = st\<lparr> m_pos := 0 \<rparr>"

text \<open>\<open>save\<close> and \<open>load\<close>: files are a map from names to contents, \<open>can_open\<close> says whether the file can be created.  A
  missing file is read as an empty one.  \<open>load\<close> does not touch the read position.\<close>

definition ds_save :: "bool \<Rightarrow> string \<Rightarrow> data_stream \<Rightarrow> (string \<Rightarrow> u8 list option) \<Rightarrow> string \<Rightarrow> u8 list option" where
  "ds_save can_open filename st fs = (if can_open then fs(filename \<mapsto> m_buf st) else fs)"

definition ds_load :: "string \<Rightarrow> (string \<Rightarrow> u8 list option) \<Rightarrow> data_stream \<Rightarrow> data_stream option" where
  "ds_load filename fs st =
     (let str = (case fs filename of None \<Rightarrow> [] | Some bytes \<Rightarrow> bytes)
      in case reserve (length str) (ds_clear st) of
           None \<Rightarrow> None
         | Some st1 \<Rightarrow> write_raw str st1)"

text \<open>The operators \<open><<\<close> and \<open>>>\<close> of every type: the write, and the read with its flag thrown away.\<close>

definition ds_put :: "'a writer \<Rightarrow> 'a \<Rightarrow> data_stream \<Rightarrow> data_stream option" where "ds_put w x st = w x st"

definition ds_get :: "'a reader \<Rightarrow> 'a \<Rightarrow> data_stream \<Rightarrow> ('a \<times> data_stream) option" where
  "ds_get r old st = (case r old st of None \<Rightarrow> None | Some (ok, v, st1) \<Rightarrow> Some (v, st1))"

text \<open>What was saved is loaded, into any stream; but a stream that was read before goes on where it was.\<close>

lemma save_load_bytes:
  assumes "length (m_buf st) \<le> max_stream" "ds_load f (ds_save True f st fs) st1 = Some st2"
  shows "m_buf st2 = m_buf st \<and> m_pos st2 = m_pos st1"
  using assms by (auto simp: Let_def ds_load_def ds_save_def ds_clear_def write_raw_def reserve_def split: if_splits)

lemma load_returns: "length (m_buf st) \<le> max_stream \<Longrightarrow> ds_load f (ds_save True f st fs) st1 \<noteq> None"
  by (simp add: Let_def ds_load_def ds_save_def ds_clear_def write_raw_def reserve_def)

text \<open>\<open>read(char*, int)\<close>.\<close>

definition read_raw :: "nat \<Rightarrow> data_stream \<Rightarrow> (u8 list \<times> data_stream) option" where
  "read_raw len st =
     (if m_pos st + len \<le> length (m_buf st)
      then Some (take len (drop (m_pos st) (m_buf st)), st\<lparr> m_pos := m_pos st + len \<rparr>)
      else None)"

text \<open>The test \<open>m_buf[m_pos] != tag\<close> and the step over the tag: \<open>None\<close> outside the buffer.\<close>

definition read_tag :: "DataType \<Rightarrow> data_stream \<Rightarrow> (bool \<times> data_stream) option" where
  "read_tag t st =
     (if m_pos st < length (m_buf st)
      then (if m_buf st ! m_pos st = type_tag t then Some (True, st\<lparr> m_pos := m_pos st + 1 \<rparr>)
            else Some (False, st))
      else None)"

section \<open>Scalars\<close>

text \<open>\<open>write(int32_t)\<close> and its siblings: the tag, then the value's memory, reversed on a big-endian host.\<close>

definition write_scalar :: "DataType \<Rightarrow> nat \<Rightarrow> nat writer" where
  "write_scalar t n v st =
     (case write_raw [type_tag t] st of
        None \<Rightarrow> None
      | Some st1 \<Rightarrow>
          (let mem = mem_bytes (m_byteorder st1) n v
           in write_raw (if m_byteorder st1 = BigEndian then rev mem else mem) st1))"

definition read_scalar :: "DataType \<Rightarrow> nat \<Rightarrow> nat reader" where
  "read_scalar t n old st =
     (case read_tag t st of
        None \<Rightarrow> None
      | Some (False, st1) \<Rightarrow> Some (False, old, st1)
      | Some (True, st1) \<Rightarrow>
          (case read_raw n st1 of
             None \<Rightarrow> None
           | Some (bs, st2) \<Rightarrow>
               Some (True, of_mem_bytes (m_byteorder st2) (if m_byteorder st2 = BigEndian then rev bs else bs), st2)))"

definition write_bool :: "bool writer" where
  "write_bool v = write_scalar BOOL 1 (if v then 1 else 0)"
definition write_char :: "u8 writer" where "write_char v = write_scalar CHAR8 1 (unat v)"
definition write_int32 :: "i32 writer" where "write_int32 v = write_scalar INT32 4 (unat v)"
definition write_uint32 :: "u32 writer" where "write_uint32 v = write_scalar UINT32 4 (unat v)"
definition write_uint64 :: "u64 writer" where "write_uint64 v = write_scalar UINT64 8 (unat v)"
definition write_int64 :: "u64 writer" where "write_int64 v = write_scalar INT64 8 (unat v)"
definition write_float :: "u32 writer" where "write_float v = write_scalar FLOAT 4 (unat v)"
definition write_double :: "u64 writer" where "write_double v = write_scalar DOUBLE 8 (unat v)"

definition read_as :: "('a \<Rightarrow> nat) \<Rightarrow> (nat \<Rightarrow> 'a) \<Rightarrow> nat reader \<Rightarrow> 'a reader" where
  "read_as enc dec r old st =
     (case r (enc old) st of
        None \<Rightarrow> None
      | Some (True, v, st') \<Rightarrow> Some (True, dec v, st')
      | Some (False, v, st') \<Rightarrow> Some (False, old, st'))"

definition read_bool :: "bool reader" where
  "read_bool = read_as (\<lambda>b. if b then 1 else 0) (\<lambda>n. n \<noteq> 0) (read_scalar BOOL 1)"
definition read_char :: "u8 reader" where "read_char = read_as unat of_nat (read_scalar CHAR8 1)"
definition read_int32 :: "i32 reader" where "read_int32 = read_as unat of_nat (read_scalar INT32 4)"
definition read_uint32 :: "u32 reader" where "read_uint32 = read_as unat of_nat (read_scalar UINT32 4)"
definition read_uint64 :: "u64 reader" where "read_uint64 = read_as unat of_nat (read_scalar UINT64 8)"
definition read_int64 :: "u64 reader" where "read_int64 = read_as unat of_nat (read_scalar INT64 8)"
definition read_float :: "u32 reader" where "read_float = read_as unat of_nat (read_scalar FLOAT 4)"
definition read_double :: "u64 reader" where "read_double = read_as unat of_nat (read_scalar DOUBLE 8)"

text \<open>An enumeration travels as \<open>int32_t\<close>.\<close>

definition write_enum :: "('e \<Rightarrow> i32) \<Rightarrow> 'e writer" where
  "write_enum code v = write_int32 (code v)"

definition read_enum :: "('e \<Rightarrow> i32) \<Rightarrow> (i32 \<Rightarrow> 'e) \<Rightarrow> 'e reader" where
  "read_enum code dec old st =
     (case read_int32 (code old) st of
        None \<Rightarrow> None
      | Some (b, v, st') \<Rightarrow> Some (b, dec v, st'))"

section \<open>Strings and containers\<close>

text \<open>Strings are byte lists.  The length is an \<open>int\<close>; a longer string does not fit the stream anyway.\<close>

definition write_string :: "u8 list writer" where
  "write_string v st =
     (case write_raw [type_tag STRING] st of
        None \<Rightarrow> None
      | Some st1 \<Rightarrow>
          (case write_int32 (of_nat (length v)) st1 of
             None \<Rightarrow> None
           | Some st2 \<Rightarrow> write_raw v st2))"

text \<open>\<open>read(len)\<close> into an uninitialised \<open>int\<close>: without a value when the tag of the length is wrong.\<close>

definition read_len :: "data_stream \<Rightarrow> (i32 \<times> data_stream) option" where
  "read_len st =
     (case read_int32 0 st of
        Some (True, len, st') \<Rightarrow> Some (len, st')
      | _ \<Rightarrow> None)"

definition read_string :: "u8 list reader" where
  "read_string old st =
     (case read_tag STRING st of
        None \<Rightarrow> None
      | Some (False, st1) \<Rightarrow> Some (False, old, st1)
      | Some (True, st1) \<Rightarrow>
          (case read_len st1 of
             None \<Rightarrow> None
           | Some (len, st2) \<Rightarrow>
               if sint len < 0 then Some (False, old, st2)
               else (case read_raw (unat len) st2 of
                       None \<Rightarrow> None
                     | Some (bs, st3) \<Rightarrow> Some (True, bs, st3))))"

fun write_each :: "'a writer \<Rightarrow> 'a list \<Rightarrow> data_stream \<Rightarrow> data_stream option" where
  "write_each wr [] st = Some st"
| "write_each wr (x # xs) st =
     (case wr x st of None \<Rightarrow> None | Some st' \<Rightarrow> write_each wr xs st')"

definition write_sequence :: "DataType \<Rightarrow> 'a writer \<Rightarrow> 'a list writer" where
  "write_sequence t wr v st =
     (case write_raw [type_tag t] st of
        None \<Rightarrow> None
      | Some st1 \<Rightarrow>
          (case write_int32 (of_nat (length v)) st1 of
             None \<Rightarrow> None
           | Some st2 \<Rightarrow> write_each wr v st2))"

definition write_list :: "'a writer \<Rightarrow> 'a list writer" where "write_list = write_sequence LIST"

text \<open>\<open>std::set\<close> and \<open>std::map\<close> are the lists of their elements in key order.\<close>

definition write_set :: "'a writer \<Rightarrow> 'a list writer" where "write_set = write_sequence SET"

definition write_pair :: "'k writer \<Rightarrow> 'v writer \<Rightarrow> ('k \<times> 'v) writer" where
  "write_pair wk wv kv st = (case wk (fst kv) st of None \<Rightarrow> None | Some st' \<Rightarrow> wv (snd kv) st')"

definition write_map :: "'k writer \<Rightarrow> 'v writer \<Rightarrow> ('k \<times> 'v) list writer" where
  "write_map wk wv = write_sequence MAP (write_pair wk wv)"

text \<open>The element loop: \<open>T v; read(v); add\<close>, the flag of \<open>read\<close> ignored; \<open>dflt\<close> is the fresh \<open>T\<close>.\<close>

fun read_each :: "('a \<Rightarrow> 'c \<Rightarrow> 'c) \<Rightarrow> 'a reader \<Rightarrow> 'a \<Rightarrow> nat \<Rightarrow> 'c \<Rightarrow> data_stream \<Rightarrow> ('c \<times> data_stream) option" where
  "read_each add rd dflt 0 acc st = Some (acc, st)"
| "read_each add rd dflt (Suc n) acc st =
     (case rd dflt st of
        None \<Rightarrow> None
      | Some (_, v, st') \<Rightarrow> read_each add rd dflt n (add v acc) st')"

definition read_sequence :: "DataType \<Rightarrow> ('a \<Rightarrow> 'b list \<Rightarrow> 'b list) \<Rightarrow> 'a reader \<Rightarrow> 'a \<Rightarrow> 'b list reader" where
  "read_sequence t add rd dflt old st =
     (case read_tag t st of
        None \<Rightarrow> None
      | Some (False, st1) \<Rightarrow> Some (False, [], st1)
      | Some (True, st1) \<Rightarrow>
          (case read_len st1 of
             None \<Rightarrow> None
           | Some (len, st2) \<Rightarrow>
               (case read_each add rd dflt (nat (sint len)) [] st2 of
                  None \<Rightarrow> None
                | Some (v, st3) \<Rightarrow> Some (True, v, st3))))"

definition read_list :: "'a reader \<Rightarrow> 'a \<Rightarrow> 'a list reader" where
  "read_list = read_sequence LIST (\<lambda>v acc. acc @ [v])"

fun set_insert :: "('a \<Rightarrow> 'a \<Rightarrow> bool) \<Rightarrow> 'a \<Rightarrow> 'a list \<Rightarrow> 'a list" where
  "set_insert lt x [] = [x]"
| "set_insert lt x (y # ys) =
     (if lt x y then x # y # ys else if lt y x then y # set_insert lt x ys else y # ys)"

fun map_insert :: "('k \<Rightarrow> 'k \<Rightarrow> bool) \<Rightarrow> 'k \<times> 'v \<Rightarrow> ('k \<times> 'v) list \<Rightarrow> ('k \<times> 'v) list" where
  "map_insert lt x [] = [x]"
| "map_insert lt x (y # ys) =
     (if lt (fst x) (fst y) then x # y # ys
      else if lt (fst y) (fst x) then y # map_insert lt x ys
      else (fst y, snd x) # ys)"

definition read_set :: "('a \<Rightarrow> 'a \<Rightarrow> bool) \<Rightarrow> 'a reader \<Rightarrow> 'a \<Rightarrow> 'a list reader" where
  "read_set lt = read_sequence SET (set_insert lt)"

definition read_pair :: "'k reader \<Rightarrow> 'v reader \<Rightarrow> ('k \<times> 'v) reader" where
  "read_pair rk rv old st =
     (case rk (fst old) st of
        None \<Rightarrow> None
      | Some (_, k, st1) \<Rightarrow>
          (case rv (snd old) st1 of
             None \<Rightarrow> None
           | Some (_, v, st2) \<Rightarrow> Some (True, (k, v), st2)))"

definition read_map :: "('k \<Rightarrow> 'k \<Rightarrow> bool) \<Rightarrow> 'k reader \<Rightarrow> 'v reader \<Rightarrow> 'k \<times> 'v \<Rightarrow> ('k \<times> 'v) list reader" where
  "read_map lt rk rv = read_sequence MAP (map_insert lt) (read_pair rk rv)"

text \<open>\<open>std::vector<T>\<close> for a plain \<open>T\<close> of \<open>k\<close> bytes: \<open>rep\<close> gives the bytes of an element, \<open>unrep\<close> reads them.
  Both directions copy \<open>value.size()\<close> bytes, not \<open>value.size() * sizeof(T)\<close>.\<close>

definition write_vector :: "('a \<Rightarrow> u8 list) \<Rightarrow> 'a list writer" where
  "write_vector rep v st =
     (case write_raw [type_tag VECTOR] st of
        None \<Rightarrow> None
      | Some st1 \<Rightarrow>
          (case write_int32 (of_nat (length v)) st1 of
             None \<Rightarrow> None
           | Some st2 \<Rightarrow> write_raw (take (length v) (concat (map rep v))) st2))"

fun chunks :: "nat \<Rightarrow> nat \<Rightarrow> u8 list \<Rightarrow> u8 list list" where
  "chunks 0 k bs = []"
| "chunks (Suc n) k bs = take k bs # chunks n k (drop k bs)"

definition read_vector :: "nat \<Rightarrow> (u8 list \<Rightarrow> 'a) \<Rightarrow> 'a list reader" where
  "read_vector k unrep old st =
     (case read_tag VECTOR st of
        None \<Rightarrow> None
      | Some (False, st1) \<Rightarrow> Some (False, [], st1)
      | Some (True, st1) \<Rightarrow>
          (case read_len st1 of
             None \<Rightarrow> None
           | Some (len, st2) \<Rightarrow>
               if sint len < 0 then None
               else (case read_raw (unat len) st2 of
                       None \<Rightarrow> None
                     | Some (bs, st3) \<Rightarrow>
                         Some (True, map unrep (chunks (unat len) k (bs @ replicate (unat len * k - unat len) 0)), st3))))"

section \<open>Serializable classes\<close>

text \<open>The \<open>SERIALIZE\<close> macro: \<open>args\<close> stands for \<open>write_args\<close> and \<open>read_args\<close> of the class.\<close>

definition serialize_custom :: "'a writer \<Rightarrow> 'a writer" where
  "serialize_custom args v st =
     (case write_raw [type_tag CUSTOM] st of
        None \<Rightarrow> None
      | Some st1 \<Rightarrow> args v st1)"

text \<open>The tag byte is consumed before it is compared; the flags of the fields are ignored.\<close>

definition unserialize_custom :: "'a reader \<Rightarrow> 'a reader" where
  "unserialize_custom args old st =
     (case read_raw 1 st of
        None \<Rightarrow> None
      | Some (bs, st1) \<Rightarrow>
          if hd bs \<noteq> type_tag CUSTOM then Some (False, old, st1)
          else (case args old st1 of
                  None \<Rightarrow> None
                | Some (_, v, st2) \<Rightarrow> Some (True, v, st2)))"

text \<open>\<open>write_args\<close> and \<open>read_args\<close> of one more field, got and set by \<open>get\<close> and \<open>upd\<close>.\<close>

definition write_field :: "('r \<Rightarrow> 'a) \<Rightarrow> 'a writer \<Rightarrow> 'r writer \<Rightarrow> 'r writer" where
  "write_field get wr rest r st = (case wr (get r) st of None \<Rightarrow> None | Some st' \<Rightarrow> rest r st')"

definition read_field :: "('r \<Rightarrow> 'a) \<Rightarrow> ('a \<Rightarrow> 'r \<Rightarrow> 'r) \<Rightarrow> 'a reader \<Rightarrow> 'r reader \<Rightarrow> 'r reader" where
  "read_field get upd rd rest r st =
     (case rd (get r) st of None \<Rightarrow> None | Some (_, v, st') \<Rightarrow> rest (upd v r) st')"

definition no_more_write :: "'r writer" where "no_more_write r st = Some st"
definition no_more_read :: "'r reader" where "no_more_read r st = Some (True, r, st)"

section \<open>Showing a stream\<close>

datatype shown =
    ShBool bool | ShChar u8 | ShInt32 nat | ShInt64 nat | ShFloat nat | ShDouble nat | ShString "u8 list"

datatype show_result = Shown "shown list" | ShowThrows "shown list" | ShowOutside "shown list"

text \<open>One turn of the loop of \<open>show\<close>: what is printed and the new index, or how it ends.\<close>

datatype show_end = Next nat "shown list" | Throws | Outside

definition show_len :: "u8 list \<Rightarrow> nat \<Rightarrow> show_end" where
  "show_len buf i =
     (if i + 1 \<ge> length buf then Outside
      else if buf ! (i + 1) \<noteq> type_tag INT32 then Throws
      else if i + 2 + 4 > length buf then Outside
      else Next (i + 2 + 4) [])"

definition show_turn :: "ByteOrder \<Rightarrow> u8 list \<Rightarrow> nat \<Rightarrow> show_end" where
  "show_turn bo buf i =
     (let payload = (\<lambda>n mk. if i + 1 + n > length buf then Outside
                           else Next (i + 1 + n) [mk (of_mem_bytes bo (take n (drop (i + 1) buf)))])
      in if buf ! i = type_tag BOOL then payload 1 (\<lambda>v. ShBool (v \<noteq> 0))
         else if buf ! i = type_tag CHAR8 then payload 1 (\<lambda>v. ShChar (of_nat v))
         else if buf ! i = type_tag INT32 then payload 4 ShInt32
         else if buf ! i = type_tag INT64 then payload 8 ShInt64
         else if buf ! i = type_tag FLOAT then payload 4 ShFloat
         else if buf ! i = type_tag DOUBLE then payload 8 ShDouble
         else if buf ! i = type_tag STRING then
           (case show_len buf i of
              Next j _ \<Rightarrow>
                (let len = of_mem_bytes bo (take 4 (drop (i + 2) buf))
                 in if sint (of_nat len :: i32) < 0 then Throws
                    else if j + len > length buf then Outside
                    else Next (j + len) [ShString (take len (drop j buf))])
            | r \<Rightarrow> r)
         else if buf ! i = type_tag VECTOR \<or> buf ! i = type_tag MAP \<or> buf ! i = type_tag SET then show_len buf i
         else Next i [])"

text \<open>The \<open>while\<close> loop: \<open>None\<close> when it does not return.\<close>

partial_function (option) show_loop :: "ByteOrder \<Rightarrow> u8 list \<Rightarrow> nat \<Rightarrow> shown list \<Rightarrow> show_result option" where
  "show_loop bo buf i out =
     (if i < length buf then
        (case show_turn bo buf i of
           Next j sh \<Rightarrow> show_loop bo buf j (out @ sh)
         | Throws \<Rightarrow> Some (ShowThrows out)
         | Outside \<Rightarrow> Some (ShowOutside out))
      else Some (Shown out))"

definition ds_show :: "data_stream \<Rightarrow> show_result option" where
  "ds_show st = show_loop (m_byteorder st) (m_buf st) 0 []"

section \<open>What writes append\<close>

lemma length_le_bytes [simp]: "length (le_bytes n v) = n"
  by (induction n arbitrary: v) auto

lemma of_le_bytes_le_bytes: "of_le_bytes (le_bytes n v) = v mod 256 ^ n"
proof (induction n arbitrary: v)
  case (Suc n)
  have "unat (of_nat (v mod 256) :: u8) = v mod 256" by (intro unat_of_nat_less) simp
  then show ?case using Suc by (simp add: mod_mult2_eq)
qed simp

lemma of_le_bytes_unat: "LENGTH('a) = 8 * n \<Longrightarrow> of_le_bytes (le_bytes n (unat (w :: 'a::len word))) = unat w"
  using unsigned_less [of w, where ?'a = nat] by (simp add: of_le_bytes_le_bytes power_mult)

lemma reserve_cap_ge: "need \<le> reserve_cap need cap"
  by (induction need cap rule: reserve_cap.induct) (subst reserve_cap.simps, auto)

lemma reserve_cap_bound: "reserve_cap need cap \<le> max cap (2 * need)"
proof (induction need cap rule: reserve_cap.induct)
  case (1 need cap)
  show ?case using 1 by (subst reserve_cap.simps) (auto simp: max_def split: if_splits)
qed

text \<open>\<open>f\<close> appends \<open>bs\<close> to the stream and changes nothing else that later operations see; it fails
  only when the stream would become too long.\<close>

definition appended :: "data_stream \<Rightarrow> u8 list \<Rightarrow> data_stream \<Rightarrow> bool" where
  "appended st bs st' \<longleftrightarrow> m_buf st' = m_buf st @ bs \<and> m_pos st' = m_pos st \<and> m_byteorder st' = m_byteorder st"

definition emits :: "(data_stream \<Rightarrow> data_stream option) \<Rightarrow> u8 list \<Rightarrow> bool" where
  "emits f bs \<longleftrightarrow> (\<forall>st. length (m_buf st) \<le> max_stream \<longrightarrow>
     (if length (m_buf st) + length bs \<le> max_stream then \<exists>st'. f st = Some st' \<and> appended st bs st'
      else f st = None))"

lemma emitsD:
  assumes "emits f bs" "length (m_buf st) \<le> max_stream"
  shows "length (m_buf st) + length bs \<le> max_stream \<Longrightarrow> \<exists>st'. f st = Some st' \<and> appended st bs st'"
    and "\<not> length (m_buf st) + length bs \<le> max_stream \<Longrightarrow> f st = None"
  using assms unfolding emits_def by metis+

lemma emits_raw: "emits (write_raw bs) bs"
  by (auto simp: emits_def write_raw_def reserve_def appended_def)

lemma emits_then:
  assumes f: "emits f bs" and g: "emits g cs"
  shows "emits (\<lambda>st. case f st of None \<Rightarrow> None | Some st' \<Rightarrow> g st') (bs @ cs)"
  unfolding emits_def
proof (intro allI impI)
  fix st :: data_stream assume st: "length (m_buf st) \<le> max_stream"
  show "if length (m_buf st) + length (bs @ cs) \<le> max_stream
      then \<exists>st'. (case f st of None \<Rightarrow> None | Some st' \<Rightarrow> g st') = Some st' \<and> appended st (bs @ cs) st'
      else (case f st of None \<Rightarrow> None | Some st' \<Rightarrow> g st') = None"
  proof (cases "length (m_buf st) + length bs \<le> max_stream")
    case True
    then obtain st1 where 1: "f st = Some st1" "appended st bs st1" using emitsD(1) [OF f st] by auto
    then have "length (m_buf st1) \<le> max_stream" using True by (simp add: appended_def)
    then show ?thesis using emitsD [OF g, of st1] 1 by (auto simp: appended_def add.assoc)
  next
    case False
    then show ?thesis using emitsD(2) [OF f st] by simp
  qed
qed

lemma emits_nothing: "emits Some []" "emits (no_more_write r) []"
  by (auto simp: emits_def appended_def no_more_write_def)

lemma emits_cong: "emits f bs \<Longrightarrow> (\<And>st. f st = g st) \<Longrightarrow> emits g bs"
  using ext [of f g] by simp

lemma emits_eq: "emits f bs \<Longrightarrow> f = g \<Longrightarrow> bs = cs \<Longrightarrow> emits g cs"
  by simp

section \<open>What reads consume\<close>

text \<open>Facing the bytes \<open>bs\<close>, the reader returns true with the value \<open>v\<close> and stops right after them.\<close>

definition consumes :: "'a reader \<Rightarrow> u8 list \<Rightarrow> 'a \<Rightarrow> bool" where
  "consumes rd bs v \<longleftrightarrow> (\<forall>old st rest. drop (m_pos st) (m_buf st) = bs @ rest \<longrightarrow>
     rd old st = Some (True, v, st\<lparr> m_pos := m_pos st + length bs \<rparr>))"

lemma consumesD:
  "consumes rd bs v \<Longrightarrow> drop (m_pos st) (m_buf st) = bs @ rest \<Longrightarrow>
    rd old st = Some (True, v, st\<lparr> m_pos := m_pos st + length bs \<rparr>)"
  by (simp add: consumes_def)

lemma drop_append_bound:
  assumes "drop p buf = bs @ rest" "bs \<noteq> []" shows "p + length bs \<le> length buf"
proof -
  have "length buf - p = length bs + length rest" using arg_cong [OF assms(1), of length] by simp
  then show ?thesis using assms(2) by (cases "p \<le> length buf") auto
qed

lemma drop_step:
  assumes "drop p buf = bs @ rest" shows "drop (p + length bs) buf = rest"
proof -
  have "drop (length bs) (drop p buf) = rest" using assms by simp
  then show ?thesis by (simp add: add.commute)
qed

lemma read_tag_at:
  assumes "drop (m_pos st) (m_buf st) = type_tag t # rest"
  shows "read_tag t st = Some (True, st\<lparr> m_pos := m_pos st + 1 \<rparr>)"
proof -
  have "m_pos st < length (m_buf st)" using assms by (metis drop_eq_Nil2 list.distinct(1) not_le)
  moreover from this have "m_buf st ! m_pos st = type_tag t" using assms by (metis hd_drop_conv_nth list.sel(1))
  ultimately show ?thesis by (simp add: read_tag_def)
qed

lemma read_raw_at:
  assumes "drop (m_pos st) (m_buf st) = bs @ rest" "m_pos st \<le> length (m_buf st)"
  shows "read_raw (length bs) st = Some (bs, st\<lparr> m_pos := m_pos st + length bs \<rparr>)"
proof -
  have "m_pos st + length bs \<le> length (m_buf st)"
    using drop_append_bound [OF assms(1)] assms(2) by (cases bs) auto
  then show ?thesis using assms(1) by (simp add: read_raw_def)
qed

lemma drop_Cons_le: "drop p buf = b # rest \<Longrightarrow> p + 1 \<le> length buf"
  using drop_append_bound [of p buf "[b]" rest] by simp

lemma mem_bytes_swap: "(if bo = BigEndian then rev (mem_bytes bo n v) else mem_bytes bo n v) = le_bytes n v"
  by (cases bo) (auto simp: mem_bytes_def)

lemma of_mem_bytes_swap: "of_mem_bytes bo (if bo = BigEndian then rev bs else bs) = of_le_bytes bs"
  by (cases bo) (auto simp: of_mem_bytes_def)

section \<open>The codec interface\<close>

text \<open>
  A type with its \<open>write\<close> and \<open>read\<close>: on the values that are \<open>ok\<close>, \<open>write\<close> appends the bytes
  \<open>enc\<close> and \<open>read\<close> takes exactly those bytes back.
\<close>

locale codec =
  fixes wr :: "'a writer" and rd :: "'a reader" and ok :: "'a \<Rightarrow> bool" and enc :: "'a \<Rightarrow> u8 list"
  assumes writes: "ok v \<Longrightarrow> emits (wr v) (enc v)"
    and reads: "ok v \<Longrightarrow> consumes rd (enc v) v"
begin

lemma round_trip:
  assumes "ok v" "m_pos st = length (m_buf st)" "wr v st = Some st'" "length (m_buf st) \<le> max_stream"
  shows "rd old st' = Some (True, v, st'\<lparr> m_pos := length (m_buf st') \<rparr>)"
proof -
  have "length (m_buf st) + length (enc v) \<le> max_stream"
    using emitsD(2) [OF writes [OF assms(1)] assms(4)] assms(3) by fastforce
  then have "appended st (enc v) st'" using emitsD(1) [OF writes [OF assms(1)] assms(4)] assms(3) by auto
  then show ?thesis
    using consumesD [OF reads [OF assms(1)], of st' "[]"] assms(2) by (simp add: appended_def)
qed

lemma write_total:
  "ok v \<Longrightarrow> length (m_buf st) + length (enc v) \<le> max_stream \<Longrightarrow> \<exists>st'. wr v st = Some st' \<and> m_buf st' = m_buf st @ enc v"
  using emitsD(1) [OF writes, of v st] by (auto simp: appended_def)

lemma writes_each: "\<forall>x \<in> set xs. ok x \<Longrightarrow> emits (write_each wr xs) (concat (map enc xs))"
proof (induction xs)
  case Nil
  then show ?case by (auto simp: emits_def appended_def)
next
  case (Cons x xs)
  then show ?case using emits_then [OF writes, of x "write_each wr xs" "concat (map enc xs)"]
    by (auto elim: emits_cong)
qed

lemma reads_each:
  assumes "\<forall>x \<in> set xs. ok x" "drop (m_pos st) (m_buf st) = concat (map enc xs) @ rest"
  shows "read_each add rd dflt (length xs) acc st =
    Some (fold add xs acc, st\<lparr> m_pos := m_pos st + length (concat (map enc xs)) \<rparr>)"
  using assms
proof (induction xs arbitrary: acc st)
  case (Cons x xs)
  have "rd dflt st = Some (True, x, st\<lparr> m_pos := m_pos st + length (enc x) \<rparr>)"
    using Cons.prems by (intro consumesD [OF reads]) auto
  moreover have "drop (m_pos st + length (enc x)) (m_buf st) = concat (map enc xs) @ rest"
    using Cons.prems(2) by (intro drop_step) simp
  ultimately show ?case
    using Cons.IH [of "st\<lparr> m_pos := m_pos st + length (enc x) \<rparr>" "add x acc"] Cons.prems(1) by (simp add: add.assoc)
qed simp

end

end
