(* ===== verification/Codecs.thy ===== *)
theory Codecs
  imports DataStream
begin

text \<open>
  The types that \<open>DataStream\<close> writes and reads, each shown to be a codec: scalars, strings, lists,
  sets, maps and serializable classes.  Container codecs are built inside the codec locale from
  any element codec.  Then what goes wrong with vectors and with \<open>show\<close>.
\<close>

section \<open>Scalars and strings\<close>

lemma emits_scalar: "emits (write_scalar t n v) (type_tag t # le_bytes n v)"
proof -
  have "emits (\<lambda>st. case write_raw [type_tag t] st of None \<Rightarrow> None | Some st' \<Rightarrow> write_raw (le_bytes n v) st')
      ([type_tag t] @ le_bytes n v)"
    by (rule emits_then [OF emits_raw emits_raw])
  then show ?thesis
    by (rule emits_eq) (simp_all add: fun_eq_iff write_scalar_def Let_def mem_bytes_swap split: option.split)
qed

lemma consumes_scalar: "consumes (read_scalar t n) (type_tag t # le_bytes n v) (v mod 256 ^ n)"
  unfolding consumes_def
proof (intro allI impI)
  fix old rest and st :: data_stream
  assume d: "drop (m_pos st) (m_buf st) = (type_tag t # le_bytes n v) @ rest"
  let ?st = "st\<lparr> m_pos := m_pos st + 1 \<rparr>"
  have t: "read_tag t st = Some (True, ?st)" using d by (intro read_tag_at) simp
  have "drop (m_pos ?st) (m_buf ?st) = le_bytes n v @ rest" using drop_step [of _ _ "[type_tag t]"] d by simp
  moreover have "m_pos ?st \<le> length (m_buf ?st)" using drop_Cons_le d by fastforce
  ultimately have "read_raw n ?st = Some (le_bytes n v, ?st\<lparr> m_pos := m_pos ?st + n \<rparr>)"
    using read_raw_at [of ?st "le_bytes n v" rest] by simp
  then show "read_scalar t n old st =
      Some (True, v mod 256 ^ n, st\<lparr> m_pos := m_pos st + length (type_tag t # le_bytes n v) \<rparr>)"
    using t by (simp add: read_scalar_def of_mem_bytes_swap of_le_bytes_le_bytes)
qed

lemma consumes_read_as:
  assumes "consumes rd bs n" "dec n = v"
  shows "consumes (read_as f dec rd) bs v"
  using assms by (auto simp: consumes_def read_as_def)

lemma consumes_word:
  assumes "LENGTH('a) = 8 * n"
  shows "consumes (read_as unat of_nat (read_scalar t n)) (type_tag t # le_bytes n (unat w)) (w :: 'a::len word)"
proof (rule consumes_read_as [OF consumes_scalar])
  have "unat w < 256 ^ n" using unsigned_less [of w, where ?'a = nat] assms by (simp add: power_mult)
  then show "of_nat (unat w mod 256 ^ n) = w" by simp
qed

definition enc_word :: "DataType \<Rightarrow> nat \<Rightarrow> 'a::len word \<Rightarrow> u8 list" where
  "enc_word t n w = type_tag t # le_bytes n (unat w)"

definition enc_bool :: "bool \<Rightarrow> u8 list" where
  "enc_bool b = [type_tag BOOL, if b then 1 else 0]"

lemma word_codec:
  "LENGTH('a) = 8 * n \<Longrightarrow> codec (\<lambda>v :: 'a::len word. write_scalar t n (unat v))
     (read_as unat of_nat (read_scalar t n)) (\<lambda>_. True) (enc_word t n)"
  by unfold_locales (simp_all add: enc_word_def emits_scalar consumes_word)

interpretation char_codec: codec write_char read_char "\<lambda>_. True" "enc_word CHAR8 1"
  unfolding write_char_def [abs_def] read_char_def by (rule word_codec) simp

interpretation int32_codec: codec write_int32 read_int32 "\<lambda>_. True" "enc_word INT32 4"
  unfolding write_int32_def [abs_def] read_int32_def by (rule word_codec) simp

interpretation uint32_codec: codec write_uint32 read_uint32 "\<lambda>_. True" "enc_word UINT32 4"
  unfolding write_uint32_def [abs_def] read_uint32_def by (rule word_codec) simp

interpretation uint64_codec: codec write_uint64 read_uint64 "\<lambda>_. True" "enc_word UINT64 8"
  unfolding write_uint64_def [abs_def] read_uint64_def by (rule word_codec) simp

interpretation int64_codec: codec write_int64 read_int64 "\<lambda>_. True" "enc_word INT64 8"
  unfolding write_int64_def [abs_def] read_int64_def by (rule word_codec) simp

interpretation float_codec: codec write_float read_float "\<lambda>_. True" "enc_word FLOAT 4"
  unfolding write_float_def [abs_def] read_float_def by (rule word_codec) simp

interpretation double_codec: codec write_double read_double "\<lambda>_. True" "enc_word DOUBLE 8"
  unfolding write_double_def [abs_def] read_double_def by (rule word_codec) simp

interpretation bool_codec: codec write_bool read_bool "\<lambda>_. True" enc_bool
proof
  fix v
  have b: "enc_bool v = type_tag BOOL # le_bytes 1 (if v then 1 else 0)" by (simp add: enc_bool_def)
  show "emits (write_bool v) (enc_bool v)" unfolding b write_bool_def by (rule emits_scalar)
  show "consumes read_bool (enc_bool v) v"
    unfolding b read_bool_def by (rule consumes_read_as [OF consumes_scalar]) simp
qed

lemma sint_of_nat_small: "n < 2 ^ 31 \<Longrightarrow> sint (of_nat n :: i32) = int n"
  by (simp add: sint_uint unsigned_of_nat signed_take_bit_int_eq_self take_bit_nat_eq_self)

lemma read_len_at:
  assumes "drop (m_pos st) (m_buf st) = enc_word INT32 4 (len :: i32) @ rest"
  shows "read_len st = Some (len, st\<lparr> m_pos := m_pos st + 5 \<rparr>)"
proof -
  have "read_int32 0 st = Some (True, len, st\<lparr> m_pos := m_pos st + length (enc_word INT32 4 len) \<rparr>)"
    by (rule consumesD [OF int32_codec.reads [OF TrueI] assms])
  then show ?thesis by (simp add: read_len_def enc_word_def)
qed

definition enc_string :: "u8 list \<Rightarrow> u8 list" where
  "enc_string s = type_tag STRING # enc_word INT32 4 (of_nat (length s) :: i32) @ s"

interpretation string_codec: codec write_string read_string "\<lambda>s. length s < 2 ^ 31" enc_string
proof
  fix s :: "u8 list" assume len: "length s < 2 ^ 31"
  let ?n = "of_nat (length s) :: i32"
  have "emits (\<lambda>st. case write_raw [type_tag STRING] st of None \<Rightarrow> None
      | Some st1 \<Rightarrow> (case write_int32 ?n st1 of None \<Rightarrow> None | Some st2 \<Rightarrow> write_raw s st2))
      ([type_tag STRING] @ (enc_word INT32 4 ?n @ s))"
    by (intro emits_then emits_raw int32_codec.writes TrueI)
  then show "emits (write_string s) (enc_string s)"
    by (rule emits_eq) (simp_all add: fun_eq_iff write_string_def enc_string_def)
  show "consumes read_string (enc_string s) s"
    unfolding consumes_def
  proof (intro allI impI)
    fix old rest and st :: data_stream
    assume d: "drop (m_pos st) (m_buf st) = enc_string s @ rest"
    let ?st1 = "st\<lparr> m_pos := m_pos st + 1 \<rparr>"
    let ?st2 = "?st1\<lparr> m_pos := m_pos ?st1 + 5 \<rparr>"
    have t: "read_tag STRING st = Some (True, ?st1)" using d by (intro read_tag_at) (simp add: enc_string_def)
    have d1: "drop (m_pos ?st1) (m_buf ?st1) = enc_word INT32 4 ?n @ s @ rest"
      using drop_step [of _ _ "[type_tag STRING]"] d by (simp add: enc_string_def)
    have l: "read_len ?st1 = Some (?n, ?st2)" using read_len_at [OF d1] by simp
    have d2: "drop (m_pos ?st2) (m_buf ?st2) = s @ rest" using drop_step [OF d1] by (simp add: enc_word_def)
    have b: "m_pos ?st2 \<le> length (m_buf ?st2)"
      using drop_append_bound [OF d1] by (simp add: enc_word_def)
    have r: "read_raw (length s) ?st2 = Some (s, ?st2\<lparr> m_pos := m_pos ?st2 + length s \<rparr>)"
      by (rule read_raw_at [OF d2 b])
    have "unat ?n = length s" using len by (intro unat_of_nat_less) simp
    then show "read_string old st = Some (True, s, st\<lparr> m_pos := m_pos st + length (enc_string s) \<rparr>)"
      using t l r sint_of_nat_small [OF len] by (simp add: read_string_def enc_string_def enc_word_def)
  qed
qed

lemma enum_codec:
  assumes "\<And>v. dec (code v) = v"
  shows "codec (write_enum code) (read_enum code dec) (\<lambda>_. True) (enc_word INT32 4 \<circ> code)"
proof
  fix v
  show "emits (write_enum code v) ((enc_word INT32 4 \<circ> code) v)"
    using int32_codec.writes by (simp add: write_enum_def)
  show "consumes (read_enum code dec) ((enc_word INT32 4 \<circ> code) v) v"
    by (auto simp: consumes_def read_enum_def consumesD [OF int32_codec.reads [OF TrueI]] assms)
qed

section \<open>Containers\<close>

definition enc_seq :: "DataType \<Rightarrow> ('a \<Rightarrow> u8 list) \<Rightarrow> 'a list \<Rightarrow> u8 list" where
  "enc_seq t enc xs = type_tag t # enc_word INT32 4 (of_nat (length xs) :: i32) @ concat (map enc xs)"

context codec
begin

definition ok_list :: "'a list \<Rightarrow> bool" where
  "ok_list xs \<longleftrightarrow> length xs < 2 ^ 31 \<and> (\<forall>x \<in> set xs. ok x)"

lemma writes_sequence: "ok_list xs \<Longrightarrow> emits (write_sequence t wr xs) (enc_seq t enc xs)"
proof -
  assume "ok_list xs"
  then have "emits (\<lambda>st. case write_raw [type_tag t] st of None \<Rightarrow> None
      | Some st1 \<Rightarrow> (case write_int32 (of_nat (length xs)) st1 of None \<Rightarrow> None | Some st2 \<Rightarrow> write_each wr xs st2))
      ([type_tag t] @ (enc_word INT32 4 (of_nat (length xs) :: i32) @ concat (map enc xs)))"
    by (intro emits_then emits_raw int32_codec.writes TrueI writes_each) (simp add: ok_list_def)
  then show ?thesis
    by (rule emits_eq) (simp_all add: fun_eq_iff write_sequence_def enc_seq_def)
qed

lemma reads_sequence:
  assumes "ok_list xs" "fold add xs [] = ys"
  shows "consumes (read_sequence t add rd dflt) (enc_seq t enc xs) ys"
  unfolding consumes_def
proof (intro allI impI)
  fix old rest and st :: data_stream
  assume d: "drop (m_pos st) (m_buf st) = enc_seq t enc xs @ rest"
  let ?n = "of_nat (length xs) :: i32"
  let ?st1 = "st\<lparr> m_pos := m_pos st + 1 \<rparr>"
  let ?st2 = "?st1\<lparr> m_pos := m_pos ?st1 + 5 \<rparr>"
  have t: "read_tag t st = Some (True, ?st1)" using d by (intro read_tag_at) (simp add: enc_seq_def)
  have d1: "drop (m_pos ?st1) (m_buf ?st1) = enc_word INT32 4 ?n @ concat (map enc xs) @ rest"
    using drop_step [of _ _ "[type_tag t]"] d by (simp add: enc_seq_def)
  have l: "read_len ?st1 = Some (?n, ?st2)" using read_len_at [OF d1] by simp
  have d2: "drop (m_pos ?st2) (m_buf ?st2) = concat (map enc xs) @ rest"
    using drop_step [OF d1] by (simp add: enc_word_def)
  have "\<forall>x \<in> set xs. ok x" "nat (sint ?n) = length xs"
    using assms(1) sint_of_nat_small [of "length xs"] by (auto simp: ok_list_def)
  then show "read_sequence t add rd dflt old st = Some (True, ys, st\<lparr> m_pos := m_pos st + length (enc_seq t enc xs) \<rparr>)"
    using t l reads_each [OF _ d2, of add dflt "[]"] assms(2)
    by (simp add: read_sequence_def enc_seq_def enc_word_def)
qed

lemma list_codec: "codec (write_list wr) (read_list rd dflt) ok_list (enc_seq LIST enc)"
proof
  fix v assume v: "ok_list v"
  show "emits (write_list wr v) (enc_seq LIST enc v)" using writes_sequence [OF v] by (simp add: write_list_def)
  have "fold (\<lambda>v acc. acc @ [v]) xs acc = acc @ xs" for acc :: "'a list" and xs
    by (induction xs arbitrary: acc) auto
  then show "consumes (read_list rd dflt) (enc_seq LIST enc v) v"
    unfolding read_list_def by (intro reads_sequence v) simp
qed

lemma set_insert_last: "\<forall>y \<in> set ys. lt y x \<and> \<not> lt x y \<Longrightarrow> set_insert lt x ys = ys @ [x]"
  by (induction ys) auto

lemma fold_set_insert:
  "\<lbrakk>sorted_wrt lt (acc @ xs); \<And>a b. lt a b \<Longrightarrow> \<not> lt b a\<rbrakk> \<Longrightarrow> fold (set_insert lt) xs acc = acc @ xs"
proof (induction xs arbitrary: acc)
  case (Cons x xs)
  have "set_insert lt x acc = acc @ [x]"
    using Cons.prems by (intro set_insert_last) (auto simp: sorted_wrt_append)
  then show ?case using Cons.IH [of "acc @ [x]"] Cons.prems by simp
qed simp

lemma set_codec:
  assumes "\<And>a b. lt a b \<Longrightarrow> \<not> lt b a"
  shows "codec (write_set wr) (read_set lt rd dflt) (\<lambda>xs. ok_list xs \<and> sorted_wrt lt xs) (enc_seq SET enc)"
proof
  fix v assume v: "ok_list v \<and> sorted_wrt lt v"
  then show "emits (write_set wr v) (enc_seq SET enc v)" using writes_sequence by (simp add: write_set_def)
  show "consumes (read_set lt rd dflt) (enc_seq SET enc v) v"
    unfolding read_set_def using v fold_set_insert [of lt "[]" v] assms by (intro reads_sequence) auto
qed

end

lemma pair_codec:
  assumes "codec wk rk okk enck" "codec wv rv okv encv"
  shows "codec (write_pair wk wv) (read_pair rk rv) (\<lambda>kv. okk (fst kv) \<and> okv (snd kv))
    (\<lambda>kv. enck (fst kv) @ encv (snd kv))"
proof
  fix kv assume ok: "okk (fst kv) \<and> okv (snd kv)"
  have "emits (\<lambda>st. case wk (fst kv) st of None \<Rightarrow> None | Some st' \<Rightarrow> wv (snd kv) st') (enck (fst kv) @ encv (snd kv))"
    using ok by (intro emits_then codec.writes [OF assms(1)] codec.writes [OF assms(2)]) auto
  then show "emits (write_pair wk wv kv) (enck (fst kv) @ encv (snd kv))"
    by (rule emits_cong) (simp add: write_pair_def)
  show "consumes (read_pair rk rv) (enck (fst kv) @ encv (snd kv)) kv"
    unfolding consumes_def
  proof (intro allI impI)
    fix old :: "'a \<times> 'b" and rest and st :: data_stream
    assume d: "drop (m_pos st) (m_buf st) = (enck (fst kv) @ encv (snd kv)) @ rest"
    let ?st1 = "st\<lparr> m_pos := m_pos st + length (enck (fst kv)) \<rparr>"
    have "rk (fst old) st = Some (True, fst kv, ?st1)"
      using d ok by (intro consumesD [OF codec.reads [OF assms(1)]]) auto
    moreover have "drop (m_pos ?st1) (m_buf ?st1) = encv (snd kv) @ rest"
      using drop_step [of _ _ "enck (fst kv)"] d by simp
    then have "rv (snd old) ?st1 = Some (True, snd kv, ?st1\<lparr> m_pos := m_pos ?st1 + length (encv (snd kv)) \<rparr>)"
      using ok by (intro consumesD [OF codec.reads [OF assms(2)]]) auto
    ultimately show "read_pair rk rv old st =
        Some (True, kv, st\<lparr> m_pos := m_pos st + length (enck (fst kv) @ encv (snd kv)) \<rparr>)"
      by (simp add: read_pair_def)
  qed
qed

lemma map_insert_last: "\<forall>y \<in> set ys. lt (fst y) (fst x) \<and> \<not> lt (fst x) (fst y) \<Longrightarrow> map_insert lt x ys = ys @ [x]"
  by (induction ys) auto

lemma fold_map_insert:
  "\<lbrakk>sorted_wrt lt (map fst (acc @ xs)); \<And>a b. lt a b \<Longrightarrow> \<not> lt b a\<rbrakk> \<Longrightarrow> fold (map_insert lt) xs acc = acc @ xs"
proof (induction xs arbitrary: acc)
  case (Cons x xs)
  have "map_insert lt x acc = acc @ [x]"
    using Cons.prems by (intro map_insert_last) (auto simp: sorted_wrt_append)
  then show ?case using Cons.IH [of "acc @ [x]"] Cons.prems by simp
qed simp

lemma map_codec:
  assumes kv: "codec wk rk okk enck" "codec wv rv okv encv" and lt: "\<And>a b. lt a b \<Longrightarrow> \<not> lt b a"
  shows "codec (write_map wk wv) (read_map lt rk rv dflt)
    (\<lambda>xs. length xs < 2 ^ 31 \<and> (\<forall>x \<in> set xs. okk (fst x) \<and> okv (snd x)) \<and> sorted_wrt lt (map fst xs))
    (enc_seq MAP (\<lambda>kv. enck (fst kv) @ encv (snd kv)))"
proof
  note p = pair_codec [OF kv]
  fix v assume v: "length v < 2 ^ 31 \<and> (\<forall>x \<in> set v. okk (fst x) \<and> okv (snd x)) \<and> sorted_wrt lt (map fst v)"
  then have ok: "codec.ok_list (\<lambda>kv. okk (fst kv) \<and> okv (snd kv)) v" by (simp add: codec.ok_list_def [OF p])
  show "emits (write_map wk wv v) (enc_seq MAP (\<lambda>kv. enck (fst kv) @ encv (snd kv)) v)"
    using codec.writes_sequence [OF p ok] by (simp add: write_map_def)
  show "consumes (read_map lt rk rv dflt) (enc_seq MAP (\<lambda>kv. enck (fst kv) @ encv (snd kv)) v) v"
    unfolding read_map_def using v fold_map_insert [of lt "[]" v] lt
    by (intro codec.reads_sequence [OF p ok]) auto
qed

section \<open>Serializable classes\<close>

text \<open>A reader of fields: facing \<open>bs\<close> it turns the old object into \<open>F old\<close>.\<close>

definition reads_to :: "'r reader \<Rightarrow> u8 list \<Rightarrow> ('r \<Rightarrow> 'r) \<Rightarrow> bool" where
  "reads_to rd bs F \<longleftrightarrow> (\<forall>old st rest. m_pos st \<le> length (m_buf st) \<and> drop (m_pos st) (m_buf st) = bs @ rest \<longrightarrow>
     rd old st = Some (True, F old, st\<lparr> m_pos := m_pos st + length bs \<rparr>))"

lemma reads_to_nothing: "reads_to no_more_read [] (\<lambda>r. r)"
  by (simp add: reads_to_def no_more_read_def)

lemma reads_to_field:
  assumes "consumes rd bs x" "reads_to rest cs F"
  shows "reads_to (read_field get upd rd rest) (bs @ cs) (\<lambda>r. F (upd x r))"
  unfolding reads_to_def
proof (intro allI impI)
  fix old more and st :: data_stream
  assume d: "m_pos st \<le> length (m_buf st) \<and> drop (m_pos st) (m_buf st) = (bs @ cs) @ more"
  let ?st = "st\<lparr> m_pos := m_pos st + length bs \<rparr>"
  have "rd (get old) st = Some (True, x, ?st)"
    using d by (intro consumesD [OF assms(1)]) simp
  moreover have "drop (m_pos ?st) (m_buf ?st) = cs @ more" using drop_step [of _ _ bs "cs @ more"] d by simp
  moreover have "m_pos ?st \<le> length (m_buf ?st)"
    using d drop_append_bound [of "m_pos st" "m_buf st" bs "cs @ more"] by (cases bs) auto
  ultimately show "read_field get upd rd rest old st =
      Some (True, F (upd x old), st\<lparr> m_pos := m_pos st + length (bs @ cs) \<rparr>)"
    using assms(2) by (simp add: read_field_def reads_to_def add.assoc)
qed

lemma emits_field:
  assumes "emits (wr (get r)) bs" "emits (rest r) cs"
  shows "emits (write_field get wr rest r) (bs @ cs)"
  by (rule emits_eq [OF emits_then [OF assms]]) (simp_all add: fun_eq_iff write_field_def)

lemma emits_custom:
  assumes "emits (args v) bs" shows "emits (serialize_custom args v) (type_tag CUSTOM # bs)"
  by (rule emits_eq [OF emits_then [OF emits_raw assms]]) (simp_all add: fun_eq_iff serialize_custom_def)

lemma consumes_custom:
  assumes "reads_to args bs F" "\<And>old. F old = v"
  shows "consumes (unserialize_custom args) (type_tag CUSTOM # bs) v"
  unfolding consumes_def
proof (intro allI impI)
  fix old rest and st :: data_stream
  assume d: "drop (m_pos st) (m_buf st) = (type_tag CUSTOM # bs) @ rest"
  let ?st = "st\<lparr> m_pos := m_pos st + 1 \<rparr>"
  have b: "m_pos ?st \<le> length (m_buf ?st)" using drop_Cons_le d by fastforce
  have "read_raw (length [type_tag CUSTOM]) st = Some ([type_tag CUSTOM], st\<lparr> m_pos := m_pos st + length [type_tag CUSTOM] \<rparr>)"
    using d b by (intro read_raw_at) auto
  moreover have "drop (m_pos ?st) (m_buf ?st) = bs @ rest" using drop_step [of _ _ "[type_tag CUSTOM]"] d by simp
  ultimately show "unserialize_custom args old st =
      Some (True, v, st\<lparr> m_pos := m_pos st + length (type_tag CUSTOM # bs) \<rparr>)"
    using b assms by (simp add: unserialize_custom_def reads_to_def)
qed

section \<open>Containers round trip\<close>

text \<open>The bytes of a map from strings to lists of 32-bit integers.\<close>

lemma string_list_map_codec:
  assumes "asymp lt"
  shows "codec (write_map write_string (write_list write_int32))
    (read_map lt read_string (read_list read_int32 0) dflt)
    (\<lambda>xs. length xs < 2 ^ 31 \<and> (\<forall>x \<in> set xs. length (fst x) < 2 ^ 31 \<and> int32_codec.ok_list (snd x)) \<and>
      sorted_wrt lt (map fst xs))
    (enc_seq MAP (\<lambda>kv. enc_string (fst kv) @ enc_seq LIST (enc_word INT32 4) (snd kv)))"
  by (rule map_codec [OF string_codec.codec_axioms int32_codec.list_codec]) (rule asympD [OF assms])

text \<open>C17: a \<open>std::map\<close> from strings to lists of integers that \<open>write\<close> accepts is read back unchanged,
  the reader ends exactly after its bytes, and the bytes do not depend on the byte order of the
  machine that wrote them.\<close>

theorem map_round_trip:
  assumes "asymp lt" "sorted_wrt lt (map fst kvs)"
    and "length kvs < 2 ^ 31" "\<forall>(k, v) \<in> set kvs. length k < 2 ^ 31 \<and> length v < 2 ^ 31"
    and "write_map write_string (write_list write_int32) kvs (ds_construct host) = Some st"
  shows "(\<exists>st'. read_map lt read_string (read_list read_int32 0) dflt old st = Some (True, kvs, st') \<and>
      m_pos st' = length (m_buf st')) \<and>
    (\<forall>host'. \<exists>st'. write_map write_string (write_list write_int32) kvs (ds_construct host') = Some st' \<and>
      m_buf st' = m_buf st)"
proof -
  note c = string_list_map_codec [OF assms(1)]
  have ok: "length kvs < 2 ^ 31 \<and> (\<forall>x \<in> set kvs. length (fst x) < 2 ^ 31 \<and> int32_codec.ok_list (snd x)) \<and>
      sorted_wrt lt (map fst kvs)"
    using assms(2,3,4) by (auto simp: int32_codec.ok_list_def)
  note e = codec.writes [OF c ok]
  have z: "length (m_buf (ds_construct h)) \<le> max_stream" "m_buf (ds_construct h) = []" "m_pos (ds_construct h) = 0" for h
    by (auto simp: ds_construct_def)
  have "read_map lt read_string (read_list read_int32 0) dflt old st
      = Some (True, kvs, st\<lparr> m_pos := length (m_buf st) \<rparr>)"
    using codec.round_trip [OF c ok _ assms(5)] z by simp
  moreover have len: "length (enc_seq MAP (\<lambda>kv. enc_string (fst kv) @ enc_seq LIST (enc_word INT32 4) (snd kv)) kvs) \<le> max_stream"
    using emitsD(2) [OF e z(1)] assms(5) z(2) by fastforce
  have w: "\<exists>st'. write_map write_string (write_list write_int32) kvs (ds_construct h) = Some st' \<and>
      m_buf st' = enc_seq MAP (\<lambda>kv. enc_string (fst kv) @ enc_seq LIST (enc_word INT32 4) (snd kv)) kvs" for h
    using codec.write_total [OF c ok, of "ds_construct h"] len by (simp add: z)
  have "m_buf st = enc_seq MAP (\<lambda>kv. enc_string (fst kv) @ enc_seq LIST (enc_word INT32 4) (snd kv)) kvs"
    using w [of host] assms(5) by auto
  ultimately show ?thesis using w by simp
qed

lemma map_round_trip_witness:
  "\<exists>st. write_map write_string (write_list write_int32) [([65], [1, 2]), ([66], [])] (ds_construct BigEndian) = Some st \<and>
    (\<exists>st'. read_map (\<lambda>a b. hd a < hd b) read_string (read_list read_int32 0) ([], []) [] st
       = Some (True, [([65], [1, 2]), ([66], [])], st'))"
proof -
  let ?kvs = "[([65 :: u8], [1, 2 :: i32]), ([66], [])]" and ?lt = "\<lambda>(a :: u8 list) (b :: u8 list). hd a < hd b"
  have lt: "asymp ?lt" by (rule asympI) auto
  obtain st where st: "write_map write_string (write_list write_int32) ?kvs (ds_construct BigEndian) = Some st"
    using codec.write_total [OF string_list_map_codec [OF lt], of ?kvs "ds_construct BigEndian"]
    by (auto simp: int32_codec.ok_list_def ds_construct_def enc_seq_def enc_word_def enc_string_def max_stream_def)
  have "\<exists>st'. read_map ?lt read_string (read_list read_int32 0) ([], []) [] st = Some (True, ?kvs, st')"
    using map_round_trip [OF lt _ _ _ st] by fastforce
  then show ?thesis using st by blast
qed

section \<open>Vectors\<close>

definition enc_vector :: "('a \<Rightarrow> u8 list) \<Rightarrow> 'a list \<Rightarrow> u8 list" where
  "enc_vector rep xs =
     type_tag VECTOR # enc_word INT32 4 (of_nat (length xs) :: i32) @ take (length xs) (concat (map rep xs))"

lemma emits_vector: "emits (write_vector rep xs) (enc_vector rep xs)"
proof -
  have "emits (\<lambda>st. case write_raw [type_tag VECTOR] st of None \<Rightarrow> None
      | Some st1 \<Rightarrow> (case write_int32 (of_nat (length xs)) st1 of None \<Rightarrow> None
         | Some st2 \<Rightarrow> write_raw (take (length xs) (concat (map rep xs))) st2))
      ([type_tag VECTOR] @ (enc_word INT32 4 (of_nat (length xs) :: i32) @ take (length xs) (concat (map rep xs))))"
    by (intro emits_then emits_raw int32_codec.writes TrueI)
  then show ?thesis by (rule emits_eq) (simp_all add: fun_eq_iff write_vector_def enc_vector_def)
qed

text \<open>What is read back: the bytes that were copied, then zero bytes.\<close>

lemma consumes_vector:
  assumes "length xs < 2 ^ 31" "\<forall>x \<in> set xs. 1 \<le> length (rep x)"
  shows "consumes (read_vector k unrep) (enc_vector rep xs)
    (map unrep (chunks (length xs) k
      (take (length xs) (concat (map rep xs)) @ replicate (length xs * k - length xs) 0)))"
  unfolding consumes_def
proof (intro allI impI)
  fix old rest and st :: data_stream
  assume d: "drop (m_pos st) (m_buf st) = enc_vector rep xs @ rest"
  let ?n = "of_nat (length xs) :: i32" and ?b = "take (length xs) (concat (map rep xs))"
  let ?st1 = "st\<lparr> m_pos := m_pos st + 1 \<rparr>"
  let ?st2 = "?st1\<lparr> m_pos := m_pos ?st1 + 5 \<rparr>"
  have t: "read_tag VECTOR st = Some (True, ?st1)" using d by (intro read_tag_at) (simp add: enc_vector_def)
  have d1: "drop (m_pos ?st1) (m_buf ?st1) = enc_word INT32 4 ?n @ ?b @ rest"
    using drop_step [of _ _ "[type_tag VECTOR]"] d by (simp add: enc_vector_def)
  have l: "read_len ?st1 = Some (?n, ?st2)" using read_len_at [OF d1] by simp
  have d2: "drop (m_pos ?st2) (m_buf ?st2) = ?b @ rest" using drop_step [OF d1] by (simp add: enc_word_def)
  have b: "m_pos ?st2 \<le> length (m_buf ?st2)" using drop_append_bound [OF d1] by (simp add: enc_word_def)
  have "length xs \<le> length (concat (map rep xs))" using assms(2) by (induction xs) force+
  then have len: "length ?b = length xs" by simp
  have r: "read_raw (length xs) ?st2 = Some (?b, ?st2\<lparr> m_pos := m_pos ?st2 + length xs \<rparr>)"
    using read_raw_at [OF d2 b] by (simp only: len)
  have "unat ?n = length xs" using assms(1) by (intro unat_of_nat_less) simp
  then show "read_vector k unrep old st = Some (True, map unrep (chunks (length xs) k
      (?b @ replicate (length xs * k - length xs) 0)), st\<lparr> m_pos := m_pos st + length (enc_vector rep xs) \<rparr>)"
    using t l r len sint_of_nat_small [OF assms(1)] by (simp add: read_vector_def enc_vector_def enc_word_def)
qed

lemma chunks_one: "chunks (length bs) 1 bs = map (\<lambda>b. [b]) bs"
  by (induction bs) auto

interpretation byte_vector_codec: codec "write_vector (\<lambda>b. [b])" "read_vector 1 hd" "\<lambda>xs. length xs < 2 ^ 31"
  "enc_vector (\<lambda>b. [b])"
proof
  show "emits (write_vector (\<lambda>b. [b]) v) (enc_vector (\<lambda>b. [b]) v)" for v by (rule emits_vector)
  show "consumes (read_vector 1 hd) (enc_vector (\<lambda>b. [b]) v) v" if "length v < 2 ^ 31" for v
  proof -
    have "map hd (chunks (length v) 1 v) = v" by (simp only: chunks_one) (simp add: comp_def)
    then show ?thesis using consumes_vector [of v "\<lambda>b. [b]" 1 hd] that by simp
  qed
qed

text \<open>vectors survive only when their elements are single bytes.  A vector of bytes is read back
  unchanged, but the code copies \<open>size()\<close> bytes instead of \<open>size() * sizeof(T)\<close>: the vector
  \<open>{1, 2}\<close> of 32-bit integers, written and read on a little-endian machine, comes back as \<open>{1, 0}\<close> while
  \<open>read\<close> returns true.\<close>

theorem vector_element_size:
  assumes "length xs < 2 ^ 31" "write_vector (\<lambda>b. [b]) xs (ds_construct host) = Some st"
  shows "(\<exists>st'. read_vector 1 hd old st = Some (True, xs, st')) \<and>
    (\<exists>st2 st3. write_vector (le_bytes 4 \<circ> unat) [1, 2 :: i32] (ds_construct LittleEndian) = Some st2 \<and>
      read_vector 4 (of_nat \<circ> of_le_bytes) [] st2 = Some (True, [1, 0 :: i32], st3))"
proof
  have "read_vector 1 hd old st = Some (True, xs, st\<lparr> m_pos := length (m_buf st) \<rparr>)"
    by (rule byte_vector_codec.round_trip [OF assms(1) _ assms(2)]) (simp_all add: ds_construct_def)
  then show "\<exists>st'. read_vector 1 hd old st = Some (True, xs, st')" by blast
  obtain st2 where w: "write_vector (le_bytes 4 \<circ> unat) [1, 2 :: i32] (ds_construct LittleEndian) = Some st2"
      and a: "appended (ds_construct LittleEndian) (enc_vector (le_bytes 4 \<circ> unat) [1, 2 :: i32]) st2"
    using emitsD(1) [OF emits_vector [of "le_bytes 4 \<circ> unat" "[1, 2 :: i32]"], of "ds_construct LittleEndian"]
    by (auto simp: ds_construct_def max_stream_def enc_vector_def enc_word_def)
  have "drop (m_pos st2) (m_buf st2) = enc_vector (le_bytes 4 \<circ> unat) [1, 2 :: i32] @ []"
    using a by (simp add: appended_def ds_construct_def)
  moreover have e: "map (of_nat \<circ> of_le_bytes) (chunks (length [1, 2 :: i32]) 4
      (take (length [1, 2 :: i32]) (concat (map (le_bytes 4 \<circ> unat) [1, 2 :: i32]))
        @ replicate (length [1, 2 :: i32] * 4 - length [1, 2 :: i32]) 0)) = [1, 0 :: i32]"
    by code_simp
  ultimately have "read_vector 4 (of_nat \<circ> of_le_bytes) [] st2 = Some (True, [1, 0 :: i32],
      st2\<lparr> m_pos := m_pos st2 + length (enc_vector (le_bytes 4 \<circ> unat) [1, 2 :: i32]) \<rparr>)"
    unfolding e [symmetric] by (intro consumesD [OF consumes_vector]) auto
  then show "\<exists>st2 st3. write_vector (le_bytes 4 \<circ> unat) [1, 2 :: i32] (ds_construct LittleEndian) = Some st2 \<and>
      read_vector 4 (of_nat \<circ> of_le_bytes) [] st2 = Some (True, [1, 0 :: i32], st3)"
    using w by blast
qed

lemma vector_element_size_witness:
  "\<exists>st st'. write_vector (\<lambda>b. [b]) [7, 8] (ds_construct LittleEndian) = Some st \<and>
    read_vector 1 hd [] st = Some (True, [7, 8], st')"
proof -
  obtain st where st: "write_vector (\<lambda>b. [b]) [7, 8] (ds_construct LittleEndian) = Some st"
    using byte_vector_codec.write_total [of "[7, 8]" "ds_construct LittleEndian"]
    by (auto simp: ds_construct_def max_stream_def enc_vector_def enc_word_def)
  then show ?thesis using vector_element_size [OF _ st, of "[]"] by auto
qed

section \<open>Showing a stream\<close>

lemma show_turn_forward: "show_turn bo buf i = Next j sh \<Longrightarrow> i < j \<or> j = i \<and> sh = []"
  by (auto simp: show_turn_def show_len_def Let_def split: if_splits show_end.splits)

lemma show_loop_returns:
  assumes "\<And>i. i < length buf \<Longrightarrow> show_turn bo buf i \<noteq> Next i []"
  shows "\<exists>r. show_loop bo buf i out = Some r"
proof (induction "length buf - i" arbitrary: i out rule: less_induct)
  case less
  show ?case
  proof (cases "i < length buf")
    case True
    show ?thesis
    proof (cases "show_turn bo buf i")
      case (Next j sh)
      then have "i < j" using show_turn_forward [OF Next] assms [OF True] by auto
      then show ?thesis using less [of j "out @ sh"] True Next by (subst show_loop.simps) simp
    qed (use True in \<open>subst show_loop.simps, simp\<close>)+
  qed (subst show_loop.simps, simp)
qed

lemma show_loop_moves:
  "show_loop bo buf i out = Some r \<Longrightarrow> \<not> (i < length buf \<and> show_turn bo buf i = Next i [])"
proof (erule show_loop.raw_induct [rotated])
  fix f bo buf i out r
  assume ih: "\<And>bo buf i out r. f bo buf i out = Some r \<Longrightarrow> \<not> (i < length buf \<and> show_turn bo buf i = Next i [])"
    and f: "(if i < length buf then
        (case show_turn bo buf i of
           Next j sh \<Rightarrow> f bo buf j (out @ sh)
         | Throws \<Rightarrow> Some (ShowThrows out)
         | Outside \<Rightarrow> Some (ShowOutside out))
      else Some (Shown out)) = Some r"
  show "\<not> (i < length buf \<and> show_turn bo buf i = Next i [])"
  proof
    assume s: "i < length buf \<and> show_turn bo buf i = Next i []"
    then have "f bo buf i (out @ []) = Some r" using f by simp
    then show False using ih s by blast
  qed
qed

lemma show_loop_stuck:
  "i < length buf \<Longrightarrow> show_turn bo buf i = Next i [] \<Longrightarrow> show_loop bo buf i out = None"
  using show_loop_moves [of bo buf i out] by (cases "show_loop bo buf i out") auto

text \<open>C26: \<open>show\<close> never returns on a stream that starts with a serializable object: the loop does not
  advance over the tag \<open>CUSTOM\<close> (nor over \<open>UINT32\<close>, \<open>UINT64\<close>, \<open>ENUM\<close> or \<open>LIST\<close>).  It does return, by
  showing, throwing or leaving the buffer, when no such tag is met.\<close>

theorem show_object_diverges:
  assumes "serialize_custom args v (ds_construct host) = Some st" "emits (args v) bs"
  shows "ds_show st = None \<and>
    ((\<forall>i < length buf. show_turn bo buf i \<noteq> Next i []) \<longrightarrow> (\<exists>r. show_loop bo buf 0 [] = Some r))"
proof
  have "m_buf st = type_tag CUSTOM # bs"
    using assms emitsD [OF emits_custom [of args v bs], of "ds_construct host"]
    by (cases "length (type_tag CUSTOM # bs) \<le> max_stream") (auto simp: appended_def ds_construct_def)
  then have "show_turn (m_byteorder st) (m_buf st) 0 = Next 0 []" "0 < length (m_buf st)"
    by (simp_all add: show_turn_def)
  then show "ds_show st = None" by (simp add: ds_show_def show_loop_stuck)
qed (use show_loop_returns in blast)

lemma show_object_diverges_witness:
  "\<exists>st. serialize_custom write_int32 5 (ds_construct LittleEndian) = Some st \<and> ds_show st = None"
proof -
  have e: "emits (write_int32 5) (enc_word INT32 4 (5 :: i32))" by (rule int32_codec.writes) simp
  have "\<exists>st. serialize_custom write_int32 5 (ds_construct LittleEndian) = Some st \<and>
      appended (ds_construct LittleEndian) (type_tag CUSTOM # enc_word INT32 4 (5 :: i32)) st"
    by (rule emitsD(1) [OF emits_custom [of write_int32, OF e]])
      (simp_all add: ds_construct_def max_stream_def enc_word_def)
  then obtain st where st: "serialize_custom write_int32 5 (ds_construct LittleEndian) = Some st" by blast
  then show ?thesis using show_object_diverges [of write_int32 5 LittleEndian st, OF st e] by blast
qed

end
