(* ===== verification/ConfigMsgs.thy ===== *)
theory ConfigMsgs
  imports Codecs
begin

text \<open>
  The messages of \<open>config/\<close>: \<open>RoleAttributes.h\<close>, \<open>topology_change.h\<close>, \<open>qos_profile.h\<close> and
  \<open>unit_test.h\<close>, with the \<open>serialize\<close> and \<open>unserialize\<close> their \<open>SERIALIZE\<close> lines generate.  Strings are
  byte lists.  An enumeration variable can hold an integer that is no enumerator after a read; it
  is the last constructor of its datatype.
\<close>

section \<open>Enumerations\<close>

datatype QosHistoryPolicy = HISTORY_SYSTEM_DEFAULT | HISTORY_KEEP_LAST | HISTORY_KEEP_ALL | History_other i32
datatype QosReliabilityPolicy =
    RELIABILITY_SYSTEM_DEFAULT | RELIABILITY_RELIABLE | RELIABILITY_BEST_EFFORT | Reliability_other i32
datatype QosDurabilityPolicy =
    DURABILITY_SYSTEM_DEFAULT | DURABILITY_TRANSIENT_LOCAL | DURABILITY_VOLATILE | Durability_other i32
datatype ChangeType =
    CHANGE_NODE | CHANGE_CHANNEL | CHANGE_SERVICE | CHANGE_PARTICIPANT | ChangeType_other i32
datatype OperateType = OPT_JOIN | OPT_LEAVE | OperateType_other i32
datatype RoleType =
    ROLE_NODE | ROLE_WRITER | ROLE_READER | ROLE_SERVER | ROLE_CLIENT | ROLE_PARTICIPANT | RoleType_other i32

fun history_code :: "QosHistoryPolicy \<Rightarrow> i32" where
  "history_code HISTORY_SYSTEM_DEFAULT = 0"
| "history_code HISTORY_KEEP_LAST = 1"
| "history_code HISTORY_KEEP_ALL = 2"
| "history_code (History_other c) = c"

definition history_of :: "i32 \<Rightarrow> QosHistoryPolicy" where
  "history_of c = (if c = 0 then HISTORY_SYSTEM_DEFAULT else if c = 1 then HISTORY_KEEP_LAST
     else if c = 2 then HISTORY_KEEP_ALL else History_other c)"

fun reliability_code :: "QosReliabilityPolicy \<Rightarrow> i32" where
  "reliability_code RELIABILITY_SYSTEM_DEFAULT = 0"
| "reliability_code RELIABILITY_RELIABLE = 1"
| "reliability_code RELIABILITY_BEST_EFFORT = 2"
| "reliability_code (Reliability_other c) = c"

definition reliability_of :: "i32 \<Rightarrow> QosReliabilityPolicy" where
  "reliability_of c = (if c = 0 then RELIABILITY_SYSTEM_DEFAULT else if c = 1 then RELIABILITY_RELIABLE
     else if c = 2 then RELIABILITY_BEST_EFFORT else Reliability_other c)"

fun durability_code :: "QosDurabilityPolicy \<Rightarrow> i32" where
  "durability_code DURABILITY_SYSTEM_DEFAULT = 0"
| "durability_code DURABILITY_TRANSIENT_LOCAL = 1"
| "durability_code DURABILITY_VOLATILE = 2"
| "durability_code (Durability_other c) = c"

definition durability_of :: "i32 \<Rightarrow> QosDurabilityPolicy" where
  "durability_of c = (if c = 0 then DURABILITY_SYSTEM_DEFAULT else if c = 1 then DURABILITY_TRANSIENT_LOCAL
     else if c = 2 then DURABILITY_VOLATILE else Durability_other c)"

fun change_code :: "ChangeType \<Rightarrow> i32" where
  "change_code CHANGE_NODE = 1"
| "change_code CHANGE_CHANNEL = 2"
| "change_code CHANGE_SERVICE = 3"
| "change_code CHANGE_PARTICIPANT = 4"
| "change_code (ChangeType_other c) = c"

definition change_of :: "i32 \<Rightarrow> ChangeType" where
  "change_of c = (if c = 1 then CHANGE_NODE else if c = 2 then CHANGE_CHANNEL
     else if c = 3 then CHANGE_SERVICE else if c = 4 then CHANGE_PARTICIPANT else ChangeType_other c)"

fun operate_code :: "OperateType \<Rightarrow> i32" where
  "operate_code OPT_JOIN = 1"
| "operate_code OPT_LEAVE = 2"
| "operate_code (OperateType_other c) = c"

definition operate_of :: "i32 \<Rightarrow> OperateType" where
  "operate_of c = (if c = 1 then OPT_JOIN else if c = 2 then OPT_LEAVE else OperateType_other c)"

fun role_code :: "RoleType \<Rightarrow> i32" where
  "role_code ROLE_NODE = 1"
| "role_code ROLE_WRITER = 2"
| "role_code ROLE_READER = 3"
| "role_code ROLE_SERVER = 4"
| "role_code ROLE_CLIENT = 5"
| "role_code ROLE_PARTICIPANT = 6"
| "role_code (RoleType_other c) = c"

definition role_of :: "i32 \<Rightarrow> RoleType" where
  "role_of c = (if c = 1 then ROLE_NODE else if c = 2 then ROLE_WRITER else if c = 3 then ROLE_READER
     else if c = 4 then ROLE_SERVER else if c = 5 then ROLE_CLIENT else if c = 6 then ROLE_PARTICIPANT
     else RoleType_other c)"

text \<open>Values that name their enumerator.\<close>

definition proper :: "('e \<Rightarrow> i32) \<Rightarrow> (i32 \<Rightarrow> 'e) \<Rightarrow> 'e \<Rightarrow> bool" where
  "proper code dec v \<longleftrightarrow> dec (code v) = v"

lemma proper_enumerators [simp]:
  "proper history_code history_of HISTORY_SYSTEM_DEFAULT" "proper history_code history_of HISTORY_KEEP_LAST"
  "proper history_code history_of HISTORY_KEEP_ALL"
  "proper reliability_code reliability_of RELIABILITY_SYSTEM_DEFAULT"
  "proper reliability_code reliability_of RELIABILITY_RELIABLE"
  "proper reliability_code reliability_of RELIABILITY_BEST_EFFORT"
  "proper durability_code durability_of DURABILITY_SYSTEM_DEFAULT"
  "proper durability_code durability_of DURABILITY_TRANSIENT_LOCAL"
  "proper durability_code durability_of DURABILITY_VOLATILE"
  "proper change_code change_of CHANGE_NODE" "proper change_code change_of CHANGE_CHANNEL"
  "proper change_code change_of CHANGE_SERVICE" "proper change_code change_of CHANGE_PARTICIPANT"
  "proper operate_code operate_of OPT_JOIN" "proper operate_code operate_of OPT_LEAVE"
  "proper role_code role_of ROLE_NODE" "proper role_code role_of ROLE_WRITER"
  "proper role_code role_of ROLE_READER" "proper role_code role_of ROLE_SERVER"
  "proper role_code role_of ROLE_CLIENT" "proper role_code role_of ROLE_PARTICIPANT"
  by (simp_all add: proper_def history_of_def reliability_of_def durability_of_def change_of_def
      operate_of_def role_of_def)

lemma emits_enum: "emits (write_enum code v) (enc_word INT32 4 (code v))"
  using int32_codec.writes by (simp add: write_enum_def)

lemma consumes_enum: "proper code dec v \<Longrightarrow> consumes (read_enum code dec) (enc_word INT32 4 (code v)) v"
  by (auto simp: consumes_def read_enum_def consumesD [OF int32_codec.reads [OF TrueI]] proper_def)

section \<open>Messages\<close>

type_synonym bytes = "u8 list"

record QosProfile =
  history :: QosHistoryPolicy
  depth :: u32
  mps :: u32
  qos_msg_size :: u32
  reliability :: QosReliabilityPolicy
  durability :: QosDurabilityPolicy

definition QosProfile_default :: QosProfile where
  "QosProfile_default = \<lparr> history = HISTORY_KEEP_LAST, depth = 2, mps = 3, qos_msg_size = 0,
     reliability = RELIABILITY_RELIABLE, durability = DURABILITY_VOLATILE \<rparr>"

definition QosProfile_serialize :: "QosProfile writer" where
  "QosProfile_serialize = serialize_custom
     (write_field history (write_enum history_code) (write_field depth write_uint32
     (write_field mps write_uint32 (write_field qos_msg_size write_uint32
     (write_field reliability (write_enum reliability_code)
     (write_field durability (write_enum durability_code) no_more_write))))))"

definition QosProfile_unserialize :: "QosProfile reader" where
  "QosProfile_unserialize = unserialize_custom
     (read_field history (\<lambda>v r. r\<lparr> history := v \<rparr>) (read_enum history_code history_of)
     (read_field depth (\<lambda>v r. r\<lparr> depth := v \<rparr>) read_uint32
     (read_field mps (\<lambda>v r. r\<lparr> mps := v \<rparr>) read_uint32
     (read_field qos_msg_size (\<lambda>v r. r\<lparr> qos_msg_size := v \<rparr>) read_uint32
     (read_field reliability (\<lambda>v r. r\<lparr> reliability := v \<rparr>) (read_enum reliability_code reliability_of)
     (read_field durability (\<lambda>v r. r\<lparr> durability := v \<rparr>) (read_enum durability_code durability_of)
     no_more_read))))))"

definition ok_qos :: "QosProfile \<Rightarrow> bool" where
  "ok_qos q \<longleftrightarrow> proper history_code history_of (history q) \<and>
     proper reliability_code reliability_of (reliability q) \<and> proper durability_code durability_of (durability q)"

definition enc_qos :: "QosProfile \<Rightarrow> u8 list" where
  "enc_qos q = type_tag CUSTOM # enc_word INT32 4 (history_code (history q)) @ enc_word UINT32 4 (depth q) @
     enc_word UINT32 4 (mps q) @ enc_word UINT32 4 (qos_msg_size q) @
     enc_word INT32 4 (reliability_code (reliability q)) @ enc_word INT32 4 (durability_code (durability q)) @ []"

interpretation qos_codec: codec QosProfile_serialize QosProfile_unserialize ok_qos enc_qos
proof
  fix q assume ok: "ok_qos q"
  then have p: "proper history_code history_of (history q)" "proper reliability_code reliability_of (reliability q)"
    "proper durability_code durability_of (durability q)" by (auto simp: ok_qos_def)
  show "emits (QosProfile_serialize q) (enc_qos q)"
    unfolding QosProfile_serialize_def enc_qos_def
    by (intro emits_custom emits_field emits_enum uint32_codec.writes emits_nothing TrueI)
  show "consumes QosProfile_unserialize (enc_qos q) q"
    unfolding QosProfile_unserialize_def enc_qos_def
    by (rule consumes_custom, (rule reads_to_field consumes_enum [OF p(1)] consumes_enum [OF p(2)]
        consumes_enum [OF p(3)] uint32_codec.reads reads_to_nothing TrueI)+) simp
qed

record RoleAttributes =
  host_name :: bytes
  host_ip :: bytes
  process_id :: i32
  channel_name :: bytes
  channel_id :: u64
  qos_profile :: QosProfile
  role_id :: u64
  node_name :: bytes
  node_id :: u64
  message_type :: bytes

definition RoleAttributes_serialize :: "RoleAttributes writer" where
  "RoleAttributes_serialize = serialize_custom
     (write_field host_name write_string (write_field host_ip write_string
     (write_field process_id write_int32 (write_field channel_name write_string
     (write_field channel_id write_uint64 (write_field qos_profile QosProfile_serialize
     (write_field role_id write_uint64 (write_field node_name write_string
     (write_field node_id write_uint64 (write_field message_type write_string no_more_write))))))))))"

definition RoleAttributes_unserialize :: "RoleAttributes reader" where
  "RoleAttributes_unserialize = unserialize_custom
     (read_field host_name (\<lambda>v r. r\<lparr> host_name := v \<rparr>) read_string
     (read_field host_ip (\<lambda>v r. r\<lparr> host_ip := v \<rparr>) read_string
     (read_field process_id (\<lambda>v r. r\<lparr> process_id := v \<rparr>) read_int32
     (read_field channel_name (\<lambda>v r. r\<lparr> channel_name := v \<rparr>) read_string
     (read_field channel_id (\<lambda>v r. r\<lparr> channel_id := v \<rparr>) read_uint64
     (read_field qos_profile (\<lambda>v r. r\<lparr> qos_profile := v \<rparr>) QosProfile_unserialize
     (read_field role_id (\<lambda>v r. r\<lparr> role_id := v \<rparr>) read_uint64
     (read_field node_name (\<lambda>v r. r\<lparr> node_name := v \<rparr>) read_string
     (read_field node_id (\<lambda>v r. r\<lparr> node_id := v \<rparr>) read_uint64
     (read_field message_type (\<lambda>v r. r\<lparr> message_type := v \<rparr>) read_string no_more_read))))))))))"

definition ok_role :: "RoleAttributes \<Rightarrow> bool" where
  "ok_role r \<longleftrightarrow> length (host_name r) < 2 ^ 31 \<and> length (host_ip r) < 2 ^ 31 \<and>
     length (channel_name r) < 2 ^ 31 \<and> ok_qos (qos_profile r) \<and> length (node_name r) < 2 ^ 31 \<and>
     length (message_type r) < 2 ^ 31"

definition enc_role :: "RoleAttributes \<Rightarrow> u8 list" where
  "enc_role r = type_tag CUSTOM # enc_string (host_name r) @ enc_string (host_ip r) @
     enc_word INT32 4 (process_id r) @ enc_string (channel_name r) @ enc_word UINT64 8 (channel_id r) @
     enc_qos (qos_profile r) @ enc_word UINT64 8 (role_id r) @ enc_string (node_name r) @
     enc_word UINT64 8 (node_id r) @ enc_string (message_type r) @ []"

interpretation role_codec: codec RoleAttributes_serialize RoleAttributes_unserialize ok_role enc_role
proof
  fix r assume ok: "ok_role r"
  then have p: "length (host_name r) < 2 ^ 31" "length (host_ip r) < 2 ^ 31"
     "length (channel_name r) < 2 ^ 31" "ok_qos (qos_profile r)" "length (node_name r) < 2 ^ 31"
     "length (message_type r) < 2 ^ 31" by (auto simp: ok_role_def)
  show "emits (RoleAttributes_serialize r) (enc_role r)"
    unfolding RoleAttributes_serialize_def enc_role_def
    by (intro emits_custom emits_field string_codec.writes int32_codec.writes uint64_codec.writes
        qos_codec.writes emits_nothing TrueI) (use ok in \<open>simp_all add: ok_role_def\<close>)
  show "consumes RoleAttributes_unserialize (enc_role r) r"
    unfolding RoleAttributes_unserialize_def enc_role_def
    by (rule consumes_custom, (rule reads_to_field string_codec.reads int32_codec.reads uint64_codec.reads
        qos_codec.reads reads_to_nothing TrueI p)+) simp
qed

record ChangeMsg =
  timestamp :: u64
  change_type :: ChangeType
  operate_type :: OperateType
  role_type :: RoleType
  role_attr :: RoleAttributes

definition ChangeMsg_serialize :: "ChangeMsg writer" where
  "ChangeMsg_serialize = serialize_custom
     (write_field timestamp write_uint64 (write_field change_type (write_enum change_code)
     (write_field operate_type (write_enum operate_code) (write_field role_type (write_enum role_code)
     (write_field role_attr RoleAttributes_serialize no_more_write)))))"

definition ChangeMsg_unserialize :: "ChangeMsg reader" where
  "ChangeMsg_unserialize = unserialize_custom
     (read_field timestamp (\<lambda>v r. r\<lparr> timestamp := v \<rparr>) read_uint64
     (read_field change_type (\<lambda>v r. r\<lparr> change_type := v \<rparr>) (read_enum change_code change_of)
     (read_field operate_type (\<lambda>v r. r\<lparr> operate_type := v \<rparr>) (read_enum operate_code operate_of)
     (read_field role_type (\<lambda>v r. r\<lparr> role_type := v \<rparr>) (read_enum role_code role_of)
     (read_field role_attr (\<lambda>v r. r\<lparr> role_attr := v \<rparr>) RoleAttributes_unserialize no_more_read)))))"

definition ok_change :: "ChangeMsg \<Rightarrow> bool" where
  "ok_change m \<longleftrightarrow> proper change_code change_of (change_type m) \<and>
     proper operate_code operate_of (operate_type m) \<and> proper role_code role_of (role_type m) \<and>
     ok_role (role_attr m)"

definition enc_change :: "ChangeMsg \<Rightarrow> u8 list" where
  "enc_change m = type_tag CUSTOM # enc_word UINT64 8 (timestamp m) @
     enc_word INT32 4 (change_code (change_type m)) @ enc_word INT32 4 (operate_code (operate_type m)) @
     enc_word INT32 4 (role_code (role_type m)) @ enc_role (role_attr m) @ []"

interpretation change_codec: codec ChangeMsg_serialize ChangeMsg_unserialize ok_change enc_change
proof
  fix m assume ok: "ok_change m"
  then have p: "proper change_code change_of (change_type m)" "proper operate_code operate_of (operate_type m)"
    "proper role_code role_of (role_type m)" "ok_role (role_attr m)" by (auto simp: ok_change_def)
  show "emits (ChangeMsg_serialize m) (enc_change m)"
    unfolding ChangeMsg_serialize_def enc_change_def
    by (intro emits_custom emits_field emits_enum uint64_codec.writes role_codec.writes emits_nothing TrueI)
      (use ok in \<open>simp_all add: ok_change_def\<close>)
  show "consumes ChangeMsg_unserialize (enc_change m) m"
    unfolding ChangeMsg_unserialize_def enc_change_def
    by (rule consumes_custom, (rule reads_to_field consumes_enum [OF p(1)] consumes_enum [OF p(2)]
        consumes_enum [OF p(3)] uint64_codec.reads role_codec.reads reads_to_nothing TrueI p)+) simp
qed

record UnitTest =
  class_name :: bytes
  case_name :: bytes

definition UnitTest_serialize :: "UnitTest writer" where
  "UnitTest_serialize = serialize_custom
     (write_field class_name write_string (write_field case_name write_string no_more_write))"

definition UnitTest_unserialize :: "UnitTest reader" where
  "UnitTest_unserialize = unserialize_custom
     (read_field class_name (\<lambda>v r. r\<lparr> class_name := v \<rparr>) read_string
     (read_field case_name (\<lambda>v r. r\<lparr> case_name := v \<rparr>) read_string no_more_read))"

record Chatter =
  ch_timestamp :: u64
  lidar_timestamp :: u64
  ch_seq :: u64
  content :: bytes

definition Chatter_serialize :: "Chatter writer" where
  "Chatter_serialize = serialize_custom
     (write_field ch_timestamp write_uint64 (write_field lidar_timestamp write_uint64
     (write_field ch_seq write_uint64 (write_field content write_string no_more_write))))"

definition Chatter_unserialize :: "Chatter reader" where
  "Chatter_unserialize = unserialize_custom
     (read_field ch_timestamp (\<lambda>v r. r\<lparr> ch_timestamp := v \<rparr>) read_uint64
     (read_field lidar_timestamp (\<lambda>v r. r\<lparr> lidar_timestamp := v \<rparr>) read_uint64
     (read_field ch_seq (\<lambda>v r. r\<lparr> ch_seq := v \<rparr>) read_uint64
     (read_field content (\<lambda>v r. r\<lparr> content := v \<rparr>) read_string no_more_read))))"

definition enc_chatter :: "Chatter \<Rightarrow> u8 list" where
  "enc_chatter c = type_tag CUSTOM # enc_word UINT64 8 (ch_timestamp c) @ enc_word UINT64 8 (lidar_timestamp c) @
     enc_word UINT64 8 (ch_seq c) @ enc_string (content c) @ []"

interpretation chatter_codec: codec Chatter_serialize Chatter_unserialize
  "\<lambda>c. length (content c) < 2 ^ 31" enc_chatter
proof
  fix c :: Chatter assume ok: "length (content c) < 2 ^ 31"
  show "emits (Chatter_serialize c) (enc_chatter c)"
    unfolding Chatter_serialize_def enc_chatter_def
    by (intro emits_custom emits_field string_codec.writes uint64_codec.writes emits_nothing TrueI) (use ok in simp_all)
  show "consumes Chatter_unserialize (enc_chatter c) c"
    unfolding Chatter_unserialize_def enc_chatter_def
    by (rule consumes_custom, (rule reads_to_field string_codec.reads uint64_codec.reads reads_to_nothing TrueI ok)+) simp
qed

lemma fold_append_each: "fold (\<lambda>m acc. acc @ [m]) ms acc = acc @ ms"
  by (induction ms arbitrary: acc) auto

text \<open>C16: the discovery messages survive the wire.  Any sequence of \<open>ChangeMsg\<close> values (with proper
  enumerators and strings shorter than \<open>2^31\<close>) written one after the other to a new stream is read back
  value by value and in order, by an object with any old contents.\<close>

theorem change_messages_round_trip:
  assumes "\<forall>m \<in> set ms. ok_change m"
    and "write_each ChangeMsg_serialize ms (ds_construct host) = Some st"
  shows "\<exists>st'. read_each (\<lambda>m acc. acc @ [m]) ChangeMsg_unserialize old (length ms) [] st = Some (ms, st') \<and>
    m_pos st' = length (m_buf st)"
proof -
  have e: "emits (write_each ChangeMsg_serialize ms) (concat (map enc_change ms))"
    using assms(1) by (rule change_codec.writes_each)
  then have a: "appended (ds_construct host) (concat (map enc_change ms)) st"
    using assms(2) emitsD [OF e, of "ds_construct host"]
    by (cases "length (concat (map enc_change ms)) \<le> max_stream") (auto simp: ds_construct_def)
  then have "drop (m_pos st) (m_buf st) = concat (map enc_change ms) @ []"
    by (simp add: appended_def ds_construct_def)
  from change_codec.reads_each [OF assms(1) this, of "\<lambda>m acc. acc @ [m]" old "[]"]
  show ?thesis using a
    by (simp add: appended_def ds_construct_def fold_append_each)
qed

definition demo_change :: ChangeMsg where
  "demo_change = \<lparr> timestamp = 7, change_type = CHANGE_CHANNEL, operate_type = OPT_JOIN, role_type = ROLE_WRITER,
     role_attr = \<lparr> host_name = [104], host_ip = [49], process_id = 12, channel_name = [99, 104], channel_id = 300,
       qos_profile = QosProfile_default, role_id = 5, node_name = [110], node_id = 9, message_type = [] \<rparr> \<rparr>"

lemma change_messages_round_trip_witness:
  "\<exists>st st'. write_each ChangeMsg_serialize [demo_change, demo_change] (ds_construct BigEndian) = Some st \<and>
    read_each (\<lambda>m acc. acc @ [m]) ChangeMsg_unserialize demo_change 2 [] st = Some ([demo_change, demo_change], st')"
proof -
  have ok: "\<forall>m \<in> set [demo_change, demo_change]. ok_change m"
    by (simp add: demo_change_def ok_change_def ok_role_def ok_qos_def QosProfile_default_def)
  obtain st where st: "write_each ChangeMsg_serialize [demo_change, demo_change] (ds_construct BigEndian) = Some st"
    using emitsD(1) [OF change_codec.writes_each [OF ok], of "ds_construct BigEndian"]
    by (auto simp: ds_construct_def max_stream_def demo_change_def QosProfile_default_def enc_change_def enc_role_def
        enc_qos_def enc_word_def enc_string_def)
  then show ?thesis using change_messages_round_trip [OF ok st, of demo_change] by (auto simp: numeral_2_eq_2)
qed

end
