(* ===== verification/Warehouse.thy ===== *)
theory Warehouse
  imports ConfigMsgs "HOL-Library.AList" "HOL-Library.Multiset"
begin

text \<open>
  The stores of the discovery: \<open>discovery/role/role.h\<close>, \<open>role.cpp\<close>,
  \<open>discovery/container/single_value_warehouse.cpp\<close> (an \<open>unordered_map\<close>) and
  \<open>multi_value_warehouse.cpp\<close> (an \<open>unordered_multimap\<close>).  Both are lists of entries; the order of
  the list stands for the unspecified iteration order.  The lock makes each operation atomic;
  out parameters are results, and a null out pointer is not modelled.
\<close>

section \<open>Roles\<close>

text \<open>\<open>RoleNode\<close> is \<open>RoleBase\<close>; \<open>RoleReader\<close> is \<open>RoleWriter\<close>.\<close>

datatype role = RoleNode RoleAttributes u64 | RoleWriter RoleAttributes u64

fun attributes :: "role \<Rightarrow> RoleAttributes" where
  "attributes (RoleNode attr ts) = attr"
| "attributes (RoleWriter attr ts) = attr"

fun timestamp_ns :: "role \<Rightarrow> u64" where
  "timestamp_ns (RoleNode attr ts) = ts"
| "timestamp_ns (RoleWriter attr ts) = ts"

definition RoleBase_Match :: "RoleAttributes \<Rightarrow> RoleAttributes \<Rightarrow> bool" where
  "RoleBase_Match attr target_attr =
     (if node_id target_attr \<noteq> node_id attr then False
      else if process_id target_attr \<noteq> process_id attr then False
      else if host_name target_attr \<noteq> host_name attr then False
      else True)"

fun Match :: "role \<Rightarrow> RoleAttributes \<Rightarrow> bool" where
  "Match (RoleNode attr ts) target_attr = RoleBase_Match attr target_attr"
| "Match (RoleWriter attr ts) target_attr =
     (if channel_id target_attr \<noteq> channel_id attr then False
      else if role_id target_attr \<noteq> role_id attr then False
      else RoleBase_Match attr target_attr)"

definition IsEarlierThan :: "role \<Rightarrow> role \<Rightarrow> bool" where
  "IsEarlierThan r other \<longleftrightarrow> timestamp_ns r < timestamp_ns other"

text \<open>\<open>Match\<close> compares identities; a role matches its own attributes.\<close>

lemma Match_self [simp]: "Match r (attributes r)"
  by (cases r) (simp_all add: RoleBase_Match_def)

lemma Match_process: "Match r a \<Longrightarrow> process_id a = process_id (attributes r) \<and> host_name a = host_name (attributes r)
    \<and> node_id a = node_id (attributes r)"
  by (cases r) (auto simp: RoleBase_Match_def split: if_splits)

section \<open>The contract\<close>

type_synonym role_map = "(u64 \<times> role) list"

text \<open>What both warehouses promise, over the multiset of their entries.\<close>

locale warehouse =
  fixes invar :: "'w \<Rightarrow> bool"
    and contents :: "'w \<Rightarrow> (u64 \<times> role) multiset"
    and add :: "u64 \<Rightarrow> role \<Rightarrow> 'w \<Rightarrow> 'w"
    and remove_key :: "u64 \<Rightarrow> 'w \<Rightarrow> 'w"
    and remove_role :: "u64 \<Rightarrow> role \<Rightarrow> 'w \<Rightarrow> 'w"
    and remove_attr :: "RoleAttributes \<Rightarrow> 'w \<Rightarrow> 'w"
    and search_key :: "u64 \<Rightarrow> 'w \<Rightarrow> role list"
    and search_attr :: "RoleAttributes \<Rightarrow> 'w \<Rightarrow> role list"
  assumes add_invar: "invar w \<Longrightarrow> invar (add k r w)"
    and add_in: "invar w \<Longrightarrow> (k, r) \<in># contents (add k r w)"
    and add_other: "invar w \<Longrightarrow> e \<in># contents (add k r w) \<Longrightarrow> e = (k, r) \<or> e \<in># contents w"
    and add_keep: "invar w \<Longrightarrow> e \<in># contents w \<Longrightarrow> fst e \<noteq> k \<Longrightarrow> e \<in># contents (add k r w)"
    and remove_key: "invar w \<Longrightarrow> invar (remove_key k w) \<and>
      contents (remove_key k w) = {# e \<in># contents w. fst e \<noteq> k #}"
    and remove_role: "invar w \<Longrightarrow> invar (remove_role k r w) \<and>
      contents (remove_role k r w) = {# e \<in># contents w. \<not> (fst e = k \<and> Match (snd e) (attributes r)) #}"
    and remove_attr: "invar w \<Longrightarrow> invar (remove_attr a w) \<and>
      contents (remove_attr a w) = {# e \<in># contents w. \<not> Match (snd e) a #}"
    and search_key: "invar w \<Longrightarrow> mset (search_key k w) = image_mset snd {# e \<in># contents w. fst e = k #}"
    and search_attr: "invar w \<Longrightarrow> mset (search_attr a w) = image_mset snd {# e \<in># contents w. Match (snd e) a #}"
begin

lemma search_key_iff: "invar w \<Longrightarrow> r \<in> set (search_key k w) \<longleftrightarrow> (k, r) \<in># contents w"
  using arg_cong [OF search_key, of w set_mset k] by force

lemma search_attr_iff: "invar w \<Longrightarrow> r \<in> set (search_attr a w) \<longleftrightarrow> Match r a \<and> (\<exists>k. (k, r) \<in># contents w)"
  using arg_cong [OF search_attr, of w set_mset a] by force

lemma added_found: "invar w \<Longrightarrow> r \<in> set (search_key k (add k r w)) \<and> r \<in> set (search_attr (attributes r) (add k r w))"
  using add_in by (auto simp: add_invar search_key_iff search_attr_iff)

lemma removed_attr_gone: "invar w \<Longrightarrow> search_attr a (remove_attr a w) = []"
  using search_attr [of "remove_attr a w" a] remove_attr [of w a] by (simp add: filter_filter_mset)

lemma removed_key_gone: "invar w \<Longrightarrow> search_key k (remove_key k w) = []"
  using search_key [of "remove_key k w" k] remove_key [of w k] by (simp add: filter_filter_mset)

lemma removed_role_gone:
  "invar w \<Longrightarrow> r' \<in> set (search_key k (remove_role k r w)) \<longleftrightarrow>
    r' \<in> set (search_key k w) \<and> \<not> Match r' (attributes r)"
  using remove_role [of w k r] by (auto simp: search_key_iff)

end

section \<open>The multi value warehouse\<close>

definition mv_Add :: "u64 \<Rightarrow> role \<Rightarrow> bool \<Rightarrow> role_map \<Rightarrow> bool \<times> role_map" where
  "mv_Add key r ignore_if_exist w =
     (if \<not> ignore_if_exist \<and> map_of w key \<noteq> None then (False, w) else (True, w @ [(key, r)]))"

definition mv_Clear :: "role_map \<Rightarrow> role_map" where "mv_Clear w = []"
definition mv_Size :: "role_map \<Rightarrow> nat" where "mv_Size w = length w"

definition mv_Remove_key :: "u64 \<Rightarrow> role_map \<Rightarrow> role_map" where
  "mv_Remove_key key w = filter (\<lambda>e. fst e \<noteq> key) w"

text \<open>The loop over \<open>equal_range(key)\<close> that erases what matches.\<close>

definition mv_Remove_role :: "u64 \<Rightarrow> role \<Rightarrow> role_map \<Rightarrow> role_map" where
  "mv_Remove_role key r w = filter (\<lambda>e. \<not> (fst e = key \<and> Match (snd e) (attributes r))) w"

fun mv_Remove_attr :: "RoleAttributes \<Rightarrow> role_map \<Rightarrow> role_map" where
  "mv_Remove_attr target_attr [] = []"
| "mv_Remove_attr target_attr (it # rest) =
     (if Match (snd it) target_attr then mv_Remove_attr target_attr rest else it # mv_Remove_attr target_attr rest)"

definition mv_Search_first :: "u64 \<Rightarrow> role_map \<Rightarrow> role option" where
  "mv_Search_first key w = map_of w key"

definition mv_Search_key :: "u64 \<Rightarrow> role_map \<Rightarrow> role list" where
  "mv_Search_key key w = map snd (filter (\<lambda>e. fst e = key) w)"

definition mv_Search_key_attrs :: "u64 \<Rightarrow> role_map \<Rightarrow> RoleAttributes list" where
  "mv_Search_key_attrs key w = map (attributes \<circ> snd) (filter (\<lambda>e. fst e = key) w)"

fun mv_Search_attr_first :: "RoleAttributes \<Rightarrow> role_map \<Rightarrow> role option" where
  "mv_Search_attr_first target_attr [] = None"
| "mv_Search_attr_first target_attr (it # rest) =
     (if Match (snd it) target_attr then Some (snd it) else mv_Search_attr_first target_attr rest)"

definition mv_Search_attr :: "RoleAttributes \<Rightarrow> role_map \<Rightarrow> role list" where
  "mv_Search_attr target_attr w = map snd (filter (\<lambda>e. Match (snd e) target_attr) w)"

definition mv_GetAllRoles :: "role_map \<Rightarrow> RoleAttributes list" where
  "mv_GetAllRoles w = map (attributes \<circ> snd) w"

text \<open>The overloads of \<open>Search\<close> and \<open>GetAllRoles\<close> that differ in what they give out.\<close>

definition mv_Search_has :: "u64 \<Rightarrow> role_map \<Rightarrow> bool" where
  "mv_Search_has key w \<longleftrightarrow> mv_Search_first key w \<noteq> None"

definition mv_Search_first_attr :: "u64 \<Rightarrow> role_map \<Rightarrow> RoleAttributes option" where
  "mv_Search_first_attr key w =
     (case mv_Search_first key w of None \<Rightarrow> None | Some r \<Rightarrow> Some (attributes r))"

definition mv_Search_attr_has :: "RoleAttributes \<Rightarrow> role_map \<Rightarrow> bool" where
  "mv_Search_attr_has target_attr w \<longleftrightarrow> mv_Search_attr_first target_attr w \<noteq> None"

definition mv_Search_attr_first_attr :: "RoleAttributes \<Rightarrow> role_map \<Rightarrow> RoleAttributes option" where
  "mv_Search_attr_first_attr target_attr w =
     (case mv_Search_attr_first target_attr w of None \<Rightarrow> None | Some r \<Rightarrow> Some (attributes r))"

definition mv_Search_attr_attrs :: "RoleAttributes \<Rightarrow> role_map \<Rightarrow> RoleAttributes list" where
  "mv_Search_attr_attrs target_attr w = map (attributes \<circ> snd) (filter (\<lambda>e. Match (snd e) target_attr) w)"

definition mv_GetAllRoles_roles :: "role_map \<Rightarrow> role list" where
  "mv_GetAllRoles_roles w = map snd w"

lemma mv_Remove_attr_filter: "mv_Remove_attr a w = filter (\<lambda>e. \<not> Match (snd e) a) w"
  by (induction w) auto

lemma mv_Search_attr_first_find: "mv_Search_attr_first a w = map_option snd (List.find (\<lambda>e. Match (snd e) a) w)"
  by (induction w) auto

interpretation mv: warehouse "\<lambda>_. True" mset "\<lambda>k r w. snd (mv_Add k r True w)" mv_Remove_key mv_Remove_role
    mv_Remove_attr mv_Search_key mv_Search_attr
  by unfold_locales
    (auto simp: mv_Add_def mv_Remove_key_def mv_Remove_role_def mv_Remove_attr_filter mv_Search_key_def
      mv_Search_attr_def mset_filter)

section \<open>The single value warehouse\<close>

definition sv_Add :: "u64 \<Rightarrow> role \<Rightarrow> bool \<Rightarrow> role_map \<Rightarrow> bool \<times> role_map" where
  "sv_Add key r ignore_if_exist w =
     (if \<not> ignore_if_exist \<and> map_of w key \<noteq> None then (False, w) else (True, AList.update key r w))"

definition sv_Clear :: "role_map \<Rightarrow> role_map" where "sv_Clear w = []"
definition sv_Size :: "role_map \<Rightarrow> nat" where "sv_Size w = length w"

definition sv_Remove_key :: "u64 \<Rightarrow> role_map \<Rightarrow> role_map" where
  "sv_Remove_key key w = AList.delete key w"

definition sv_Remove_role :: "u64 \<Rightarrow> role \<Rightarrow> role_map \<Rightarrow> role_map" where
  "sv_Remove_role key r w =
     (case map_of w key of
        None \<Rightarrow> w
      | Some found \<Rightarrow> if \<not> Match found (attributes r) then w else AList.delete key w)"

fun sv_Remove_attr :: "RoleAttributes \<Rightarrow> role_map \<Rightarrow> role_map" where
  "sv_Remove_attr target_attr [] = []"
| "sv_Remove_attr target_attr (it # rest) =
     (if Match (snd it) target_attr then sv_Remove_attr target_attr rest else it # sv_Remove_attr target_attr rest)"

definition sv_Search_first :: "u64 \<Rightarrow> role_map \<Rightarrow> role option" where
  "sv_Search_first key w = map_of w key"

definition sv_Search_key :: "u64 \<Rightarrow> role_map \<Rightarrow> role list" where
  "sv_Search_key key w = (case sv_Search_first key w of None \<Rightarrow> [] | Some r \<Rightarrow> [r])"

fun sv_Search_attr_first :: "RoleAttributes \<Rightarrow> role_map \<Rightarrow> role option" where
  "sv_Search_attr_first target_attr [] = None"
| "sv_Search_attr_first target_attr (it # rest) =
     (if Match (snd it) target_attr then Some (snd it) else sv_Search_attr_first target_attr rest)"

definition sv_Search_attr :: "RoleAttributes \<Rightarrow> role_map \<Rightarrow> role list" where
  "sv_Search_attr target_attr w = map snd (filter (\<lambda>e. Match (snd e) target_attr) w)"

definition sv_GetAllRoles :: "role_map \<Rightarrow> RoleAttributes list" where
  "sv_GetAllRoles w = map (attributes \<circ> snd) w"

text \<open>The overloads of \<open>Search\<close> and \<open>GetAllRoles\<close> that differ in what they give out.\<close>

definition sv_Search_has :: "u64 \<Rightarrow> role_map \<Rightarrow> bool" where
  "sv_Search_has key w \<longleftrightarrow> sv_Search_first key w \<noteq> None"

definition sv_Search_first_attr :: "u64 \<Rightarrow> role_map \<Rightarrow> RoleAttributes option" where
  "sv_Search_first_attr key w =
     (case sv_Search_first key w of None \<Rightarrow> None | Some r \<Rightarrow> Some (attributes r))"

definition sv_Search_attr_has :: "RoleAttributes \<Rightarrow> role_map \<Rightarrow> bool" where
  "sv_Search_attr_has target_attr w \<longleftrightarrow> sv_Search_attr_first target_attr w \<noteq> None"

definition sv_Search_attr_first_attr :: "RoleAttributes \<Rightarrow> role_map \<Rightarrow> RoleAttributes option" where
  "sv_Search_attr_first_attr target_attr w =
     (case sv_Search_attr_first target_attr w of None \<Rightarrow> None | Some r \<Rightarrow> Some (attributes r))"

definition sv_Search_attr_attrs :: "RoleAttributes \<Rightarrow> role_map \<Rightarrow> RoleAttributes list" where
  "sv_Search_attr_attrs target_attr w = map (attributes \<circ> snd) (filter (\<lambda>e. Match (snd e) target_attr) w)"

definition sv_GetAllRoles_roles :: "role_map \<Rightarrow> role list" where
  "sv_GetAllRoles_roles w = map snd w"

definition sv_Search_key_attrs :: "u64 \<Rightarrow> role_map \<Rightarrow> RoleAttributes list" where
  "sv_Search_key_attrs key w = (case sv_Search_first key w of None \<Rightarrow> [] | Some r \<Rightarrow> [attributes r])"

definition sv_ok :: "role_map \<Rightarrow> bool" where
  "sv_ok w \<longleftrightarrow> distinct (map fst w)"

lemma sv_Remove_attr_filter: "sv_Remove_attr a w = filter (\<lambda>e. \<not> Match (snd e) a) w"
  by (induction w) auto

lemma sv_delete_filter: "AList.delete k w = filter (\<lambda>e. fst e \<noteq> k) w"
  by (induction w) auto

lemma sv_ok_filter: "sv_ok w \<Longrightarrow> sv_ok (filter P w)"
  by (simp add: sv_ok_def distinct_map_filter)

lemma sv_map_of: "sv_ok w \<Longrightarrow> map_of w k = Some r \<longleftrightarrow> (k, r) \<in> set w"
  by (auto simp: sv_ok_def)

lemma sv_set_update: "sv_ok w \<Longrightarrow> set (AList.update k r w) = insert (k, r) {e \<in> set w. fst e \<noteq> k}"
proof -
  assume ok: "sv_ok w"
  then have d: "distinct (map fst (AList.update k r w))" by (simp add: sv_ok_def distinct_update)
  have "e \<in> set (AList.update k r w) \<longleftrightarrow> e = (k, r) \<or> e \<in> set w \<and> fst e \<noteq> k" for e
    using map_of_eq_Some_iff [OF d, of "fst e" "snd e"] sv_map_of [OF ok, of "fst e" "snd e"]
    by (cases e) (auto simp: update_conv split: if_splits)
  then show ?thesis by blast
qed

lemma sv_filter_key: "sv_ok w \<Longrightarrow> filter (\<lambda>e. fst e = k) w = (case map_of w k of None \<Rightarrow> [] | Some r \<Rightarrow> [(k, r)])"
proof (induction w)
  case (Cons e w)
  have "sv_ok w" "fst e = k \<Longrightarrow> map_of w k = None"
    using Cons.prems by (auto simp: sv_ok_def map_of_eq_None_iff)
  then show ?case using Cons.IH by (cases e) auto
qed simp

lemma sv_Remove_role_filter:
  assumes "sv_ok w"
  shows "sv_Remove_role k r w = filter (\<lambda>e. \<not> (fst e = k \<and> Match (snd e) (attributes r))) w"
proof (cases "map_of w k")
  case None
  then have "\<And>e. e \<in> set w \<Longrightarrow> fst e \<noteq> k" by (auto simp: map_of_eq_None_iff)
  then show ?thesis using None by (auto simp: sv_Remove_role_def filter_id_conv [symmetric] intro!: filter_True [symmetric])
next
  case (Some found)
  then have u: "\<And>e. e \<in> set w \<Longrightarrow> fst e = k \<Longrightarrow> snd e = found"
    using sv_map_of [OF assms] by (metis option.inject prod.collapse)
  show ?thesis
  proof (cases "Match found (attributes r)")
    case True
    then have "filter (\<lambda>e. \<not> (fst e = k \<and> Match (snd e) (attributes r))) w = filter (\<lambda>e. fst e \<noteq> k) w"
      using u by (intro filter_cong) auto
    then show ?thesis using Some True by (simp add: sv_Remove_role_def sv_delete_filter)
  next
    case False
    then show ?thesis using Some u by (auto simp: sv_Remove_role_def intro!: filter_True [symmetric])
  qed
qed

interpretation sv: warehouse sv_ok mset "\<lambda>k r w. snd (sv_Add k r True w)" sv_Remove_key sv_Remove_role
    sv_Remove_attr sv_Search_key sv_Search_attr
proof
  fix w k r
  assume ok: "sv_ok w"
  show "sv_ok (snd (sv_Add k r True w))" using ok by (simp add: sv_Add_def sv_ok_def distinct_update)
  show "(k, r) \<in># mset (snd (sv_Add k r True w))" by (simp add: sv_Add_def sv_set_update [OF ok])
  show "sv_ok (sv_Remove_role k r w) \<and> mset (sv_Remove_role k r w)
      = {# e \<in># mset w. \<not> (fst e = k \<and> Match (snd e) (attributes r)) #}"
    using ok by (simp add: sv_Remove_role_filter sv_ok_filter mset_filter)
next
  fix w e k r
  assume "sv_ok w" "e \<in># mset (snd (sv_Add k r True w))"
  then show "e = (k, r) \<or> e \<in># mset w" by (auto simp: sv_Add_def sv_set_update)
next
  fix w e k r
  assume "sv_ok w" "e \<in># mset w" "fst e \<noteq> k"
  then show "e \<in># mset (snd (sv_Add k r True w))" by (auto simp: sv_Add_def sv_set_update)
next
  fix w k
  assume ok: "sv_ok w"
  show "sv_ok (sv_Remove_key k w) \<and> mset (sv_Remove_key k w) = {# e \<in># mset w. fst e \<noteq> k #}"
    using ok sv_ok_filter [of w "\<lambda>e. fst e \<noteq> k"] by (simp add: sv_Remove_key_def sv_delete_filter mset_filter)
  show "mset (sv_Search_key k w) = image_mset snd {# e \<in># mset w. fst e = k #}"
    using sv_filter_key [OF ok, of k]
    by (simp add: sv_Search_key_def sv_Search_first_def mset_filter [symmetric] del: mset_filter split: option.split)
next
  fix w a
  assume ok: "sv_ok w"
  show "sv_ok (sv_Remove_attr a w) \<and> mset (sv_Remove_attr a w) = {# e \<in># mset w. \<not> Match (snd e) a #}"
    using ok by (simp add: sv_Remove_attr_filter sv_ok_filter mset_filter)
  show "mset (sv_Search_attr a w) = image_mset snd {# e \<in># mset w. Match (snd e) a #}"
    by (simp add: sv_Search_attr_def mset_filter)
qed

end
