(* ===== verification/Graph.thy ===== *)
theory Graph
  imports Prelude "HOL-Library.AList"
begin

text \<open>
  \<open>discovery/container/graph.h\<close>, \<open>graph.cpp\<close>: the graph of nodes, where a channel links every
  writer node to every reader node.  Strings are byte lists; a \<open>Vertice\<close> is its value.  The
  unordered maps are association lists where the code iterates over them; the lock makes every
  operation atomic.
\<close>

section \<open>Edges\<close>

type_synonym vertice = "u8 list"

definition IsDummy :: "vertice \<Rightarrow> bool" where "IsDummy v \<longleftrightarrow> v = []"

record Edge =
  e_src :: vertice
  e_dst :: vertice
  e_value :: "u8 list"

definition Edge_IsValid :: "Edge \<Rightarrow> bool" where
  "Edge_IsValid e = (if e_value e = [] then False
     else if IsDummy (e_src e) \<and> IsDummy (e_dst e) then False
     else True)"

text \<open>\<open>value_ + "_" + dst_.GetKey()\<close>; the underscore is byte 95.\<close>

definition Edge_GetKey :: "Edge \<Rightarrow> u8 list" where
  "Edge_GetKey e = e_value e @ 95 # e_dst e"

section \<open>The graph\<close>

record RelatedVertices =
  rv_src :: "vertice list"
  rv_dst :: "vertice list"

type_synonym adjacency = "(vertice \<times> (u8 list \<times> vertice) list) list"

record graph =
  edges :: "u8 list \<rightharpoonup> RelatedVertices"
  adj_list :: adjacency

definition graph_construct :: graph where
  "graph_construct = \<lparr> edges = Map.empty, adj_list = [] \<rparr>"

text \<open>\<open>edges_[v]\<close> and \<open>list_[v]\<close>.\<close>

definition edges_at :: "graph \<Rightarrow> u8 list \<Rightarrow> RelatedVertices" where
  "edges_at g v = (case edges g v of None \<Rightarrow> \<lparr> rv_src = [], rv_dst = [] \<rparr> | Some r \<Rightarrow> r)"

definition list_at :: "adjacency \<Rightarrow> vertice \<Rightarrow> (u8 list \<times> vertice) list" where
  "list_at l v = (case map_of l v of None \<Rightarrow> [] | Some s \<Rightarrow> s)"

definition InsertCompleteEdge :: "Edge \<Rightarrow> adjacency \<Rightarrow> adjacency" where
  "InsertCompleteEdge e l =
     (let l1 = (if map_of l (e_src e) = None then AList.update (e_src e) [] l else l);
          l2 = (if map_of l1 (e_dst e) = None then AList.update (e_dst e) [] l1 else l1)
      in AList.update (e_src e) (AList.update (Edge_GetKey e) (e_dst e) (list_at l2 (e_src e))) l2)"

definition DeleteCompliteEdge :: "Edge \<Rightarrow> adjacency \<Rightarrow> adjacency" where
  "DeleteCompliteEdge e l = AList.update (e_src e) (AList.delete (Edge_GetKey e) (list_at l (e_src e))) l"

definition InsertOutgoingEdge :: "Edge \<Rightarrow> graph \<Rightarrow> graph" where
  "InsertOutgoingEdge e g =
     (let r = edges_at g (e_value e)
      in if e_src e \<in> set (rv_src r) then g
         else g\<lparr> edges := (edges g)(e_value e \<mapsto> r\<lparr> rv_src := e_src e # rv_src r \<rparr>),
           adj_list := fold (\<lambda>d. InsertCompleteEdge \<lparr> e_src = e_src e, e_dst = d, e_value = e_value e \<rparr>)
             (rv_dst r) (adj_list g) \<rparr>)"

definition InsertIncomingEdge :: "Edge \<Rightarrow> graph \<Rightarrow> graph" where
  "InsertIncomingEdge e g =
     (let r = edges_at g (e_value e)
      in if e_dst e \<in> set (rv_dst r) then g
         else g\<lparr> edges := (edges g)(e_value e \<mapsto> r\<lparr> rv_dst := e_dst e # rv_dst r \<rparr>),
           adj_list := fold (\<lambda>s. InsertCompleteEdge \<lparr> e_src = s, e_dst = e_dst e, e_value = e_value e \<rparr>)
             (rv_src r) (adj_list g) \<rparr>)"

definition DeleteOutgoingEdge :: "Edge \<Rightarrow> graph \<Rightarrow> graph" where
  "DeleteOutgoingEdge e g =
     (let r = edges_at g (e_value e)
      in if e_src e \<notin> set (rv_src r) then g
         else g\<lparr> edges := (edges g)(e_value e \<mapsto> r\<lparr> rv_src := removeAll (e_src e) (rv_src r) \<rparr>),
           adj_list := fold (\<lambda>d. DeleteCompliteEdge \<lparr> e_src = e_src e, e_dst = d, e_value = e_value e \<rparr>)
             (rv_dst r) (adj_list g) \<rparr>)"

definition DeleteIncomingEdge :: "Edge \<Rightarrow> graph \<Rightarrow> graph" where
  "DeleteIncomingEdge e g =
     (let r = edges_at g (e_value e)
      in if e_dst e \<notin> set (rv_dst r) then g
         else g\<lparr> edges := (edges g)(e_value e \<mapsto> r\<lparr> rv_dst := removeAll (e_dst e) (rv_dst r) \<rparr>),
           adj_list := fold (\<lambda>s. DeleteCompliteEdge \<lparr> e_src = s, e_dst = e_dst e, e_value = e_value e \<rparr>)
             (rv_src r) (adj_list g) \<rparr>)"

definition Graph_Insert :: "Edge \<Rightarrow> graph \<Rightarrow> graph" where
  "Graph_Insert e g =
     (if \<not> Edge_IsValid e then g
      else
        (let g0 = (if edges g (e_value e) = None
               then g\<lparr> edges := (edges g)(e_value e \<mapsto> \<lparr> rv_src = [], rv_dst = [] \<rparr>) \<rparr> else g);
             g1 = (if \<not> IsDummy (e_src e) then InsertOutgoingEdge e g0 else g0)
         in if \<not> IsDummy (e_dst e) then InsertIncomingEdge e g1 else g1))"

definition Graph_Delete :: "Edge \<Rightarrow> graph \<Rightarrow> graph" where
  "Graph_Delete e g =
     (if \<not> Edge_IsValid e then g
      else if edges g (e_value e) = None then g
      else
        (let g1 = (if \<not> IsDummy (e_src e) then DeleteOutgoingEdge e g else g)
         in if \<not> IsDummy (e_dst e) then DeleteIncomingEdge e g1 else g1))"

text \<open>The count is kept in 32 bits.\<close>

definition GetNumOfEdge :: "graph \<Rightarrow> u32" where
  "GetNumOfEdge g = fold (\<lambda>item num. num + of_nat (length (snd item))) (adj_list g) 0"

subsection \<open>Traversal\<close>

text \<open>The loop of \<open>LevelTraverse\<close>: the queue \<open>unvisited\<close> and the vertices whose \<open>visited\<close> flag is set.\<close>

definition succs :: "adjacency \<Rightarrow> vertice \<Rightarrow> vertice list" where
  "succs l u = map snd (list_at l u)"

definition all_dsts :: "adjacency \<Rightarrow> vertice set" where
  "all_dsts l = (\<Union>p \<in> set l. snd ` set (snd p))"

lemma succs_all_dsts: "set (succs l u) \<subseteq> all_dsts l"
proof (cases "map_of l u")
  case (Some s)
  then have "(u, s) \<in> set l" by (rule map_of_SomeD)
  then show ?thesis using Some by (force simp: succs_def list_at_def all_dsts_def)
qed (simp add: succs_def list_at_def)

lemma finite_all_dsts [simp]: "finite (all_dsts l)"
  by (simp add: all_dsts_def)

function level_loop :: "adjacency \<Rightarrow> vertice \<Rightarrow> vertice list \<Rightarrow> vertice list \<Rightarrow> vertice list" where
  "level_loop l goal [] visited = visited"
| "level_loop l goal (cur # unvisited) visited =
     (if cur \<in> set visited then level_loop l goal unvisited visited
      else if cur = goal then cur # visited
      else level_loop l goal (unvisited @ succs l cur) (cur # visited))"
  by pat_completeness auto
termination
proof (relation "measures [\<lambda>(l, g, q, vis). card (all_dsts l \<union> set q - set vis), \<lambda>(l, g, q, vis). length q]", goal_cases)
  case (2 l goal cur unvisited visited)
  have "all_dsts l \<union> set unvisited - set visited \<subseteq> all_dsts l \<union> set (cur # unvisited) - set visited" by auto
  then have "card (all_dsts l \<union> set unvisited - set visited) \<le> card (all_dsts l \<union> set (cur # unvisited) - set visited)"
    by (intro card_mono) auto
  then show ?case by auto
next
  case (3 l goal cur unvisited visited)
  have "all_dsts l \<union> set (unvisited @ succs l cur) - set (cur # visited)
      \<subset> all_dsts l \<union> set (cur # unvisited) - set visited"
    using 3 succs_all_dsts [of l cur] by auto
  then show ?case by (auto intro: psubset_card_mono)
qed simp

definition LevelTraverse :: "adjacency \<Rightarrow> vertice \<Rightarrow> vertice \<Rightarrow> bool" where
  "LevelTraverse l start goal \<longleftrightarrow> goal \<in> set (level_loop l goal [start] [])"

datatype FlowDirection = UNREACHABLE | UPSTREAM | DOWNSTREAM

definition GetDirectionOf :: "graph \<Rightarrow> vertice \<Rightarrow> vertice \<Rightarrow> FlowDirection" where
  "GetDirectionOf g lhs rhs =
     (if IsDummy lhs \<or> IsDummy rhs then UNREACHABLE
      else if map_of (adj_list g) lhs = None \<or> map_of (adj_list g) rhs = None then UNREACHABLE
      else if LevelTraverse (adj_list g) lhs rhs then UPSTREAM
      else if LevelTraverse (adj_list g) rhs lhs then DOWNSTREAM
      else UNREACHABLE)"

section \<open>The traversal decides reachability\<close>

definition step_rel :: "adjacency \<Rightarrow> (vertice \<times> vertice) set" where
  "step_rel l = {(u, v). v \<in> set (succs l u)}"

lemma level_loop_sound:
  assumes "\<forall>v \<in> set q \<union> set vis. (s, v) \<in> (step_rel l)\<^sup>*"
  shows "\<forall>v \<in> set (level_loop l goal q vis). (s, v) \<in> (step_rel l)\<^sup>*"
  using assms
proof (induction l goal q vis rule: level_loop.induct)
  case (2 l goal cur q vis)
  have "(s, v) \<in> (step_rel l)\<^sup>*" if "v \<in> set (succs l cur)" for v
    using 2(3) that by (auto simp: step_rel_def intro: rtrancl_into_rtrancl)
  then show ?case using 2 by auto
qed simp

lemma level_loop_complete:
  assumes "\<forall>u \<in> set vis. set (succs l u) \<subseteq> set vis \<union> set q" "goal \<notin> set (level_loop l goal q vis)"
  shows "set vis \<union> set q \<subseteq> set (level_loop l goal q vis) \<and>
    (\<forall>u \<in> set (level_loop l goal q vis). set (succs l u) \<subseteq> set (level_loop l goal q vis))"
  using assms
proof (induction l goal q vis rule: level_loop.induct)
  case (1 l goal vis)
  then show ?case by simp
next
  case (2 l goal cur q vis)
  show ?case
  proof (cases "cur \<in> set vis")
    case True
    moreover have "\<forall>u \<in> set vis. set (succs l u) \<subseteq> set vis \<union> set q" using 2(3) True by fastforce
    ultimately show ?thesis using 2 by auto
  next
    case False
    have ne: "cur \<noteq> goal" using False 2(4) by auto
    moreover have "\<forall>u \<in> set (cur # vis). set (succs l u) \<subseteq> set (cur # vis) \<union> set (q @ succs l cur)"
      using 2(3) by fastforce
    ultimately show ?thesis using 2(2) [OF False ne] 2(4) False by simp
  qed
qed

lemma LevelTraverse_iff: "LevelTraverse l s t \<longleftrightarrow> (s, t) \<in> (step_rel l)\<^sup>*"
proof
  assume "LevelTraverse l s t"
  then show "(s, t) \<in> (step_rel l)\<^sup>*"
    using level_loop_sound [of "[s]" "[]" s l t] by (simp add: LevelTraverse_def)
next
  assume r: "(s, t) \<in> (step_rel l)\<^sup>*"
  show "LevelTraverse l s t"
  proof (rule ccontr)
    define V where "V = set (level_loop l t [s] [])"
    assume "\<not> LevelTraverse l s t"
    then have n: "t \<notin> V" by (simp only: LevelTraverse_def V_def not_False_eq_True)
    then have c: "s \<in> V" "\<forall>u \<in> V. set (succs l u) \<subseteq> V"
      using level_loop_complete [of "[]" l "[s]" t] unfolding V_def by auto
    have "t \<in> V"
      using r by (induction rule: rtrancl_induct) (use c in \<open>auto simp: step_rel_def\<close>)
    then show False using n by simp
  qed
qed

section \<open>The graph represents writers and readers\<close>

definition adj :: "adjacency \<Rightarrow> vertice \<Rightarrow> u8 list \<Rightarrow> vertice option" where
  "adj l u k = map_of (list_at l u) k"

definition edge_key :: "u8 list \<Rightarrow> vertice \<Rightarrow> u8 list" where
  "edge_key v d = v @ 95 # d"

lemma edge_key_same [simp]: "edge_key v d = edge_key v d' \<longleftrightarrow> d = d'"
  by (simp add: edge_key_def)

text \<open>A set of channels with their readers in which no two edges have the same key.\<close>

definition keys_apart :: "(u8 list \<times> vertice) set \<Rightarrow> bool" where
  "keys_apart K \<longleftrightarrow> (\<forall>(v, d) \<in> K. \<forall>(v', d') \<in> K. edge_key v d = edge_key v' d' \<longrightarrow> v = v' \<and> d = d')"

lemma edge_key_unique:
  assumes "edge_key v d = edge_key v' d'" "keys_apart K" "(v, d) \<in> K" "(v', d') \<in> K"
  shows "v = v' \<and> d = d'"
  using assms by (auto simp: keys_apart_def)

text \<open>Names of readers without underscores are one way to have it.\<close>

lemma keys_apart_no_underscore:
  assumes "\<forall>(v, d) \<in> K. 95 \<notin> set d" shows "keys_apart K"
proof -
  have "takeWhile (\<lambda>x. x \<noteq> 95) (rev (edge_key v d)) = rev d" if "95 \<notin> set d" for v d
  proof -
    have "takeWhile (\<lambda>x. x \<noteq> 95) (rev d @ 95 # rev v) = rev d @ takeWhile (\<lambda>x. x \<noteq> 95) (95 # rev v)"
      using that by (intro takeWhile_append2) auto
    then show ?thesis by (simp add: edge_key_def)
  qed
  then have same: "\<And>v d v' d'. edge_key v d = edge_key v' d' \<Longrightarrow> 95 \<notin> set d \<Longrightarrow> 95 \<notin> set d' \<Longrightarrow> d = d'"
    by (metis rev_rev_ident)
  show ?thesis unfolding keys_apart_def
  proof (clarify)
    fix v d v' d'
    assume k: "(v, d) \<in> K" "(v', d') \<in> K" "edge_key v d = edge_key v' d'"
    have "d = d'" by (rule same [OF k(3)]) (use bspec [OF assms k(1)] bspec [OF assms k(2)] in simp_all)
    then show "v = v' \<and> d = d'" using k(3) by (simp add: edge_key_def)
  qed
qed

lemma list_at_update: "list_at (AList.update u s l) x = (if x = u then s else list_at l x)"
  by (auto simp: list_at_def update_conv)

lemma adj_InsertComplete:
  "adj (InsertCompleteEdge \<lparr> e_src = s, e_dst = d, e_value = v \<rparr> l) u k
    = (if u = s \<and> k = edge_key v d then Some d else adj l u k)"
proof -
  have new: "list_at (if map_of l x = None then AList.update x [] l else l) = list_at l" for x l
    by (auto simp: fun_eq_iff list_at_update) (simp add: list_at_def)
  have "list_at (InsertCompleteEdge \<lparr> e_src = s, e_dst = d, e_value = v \<rparr> l) u
      = (if u = s then AList.update (edge_key v d) d (list_at l s) else list_at l u)"
    unfolding InsertCompleteEdge_def Let_def list_at_update new by (simp add: Edge_GetKey_def edge_key_def)
  then show ?thesis by (simp add: adj_def update_conv)
qed

lemma adj_DeleteComplete:
  "adj (DeleteCompliteEdge \<lparr> e_src = s, e_dst = d, e_value = v \<rparr> l) u k
    = (if u = s \<and> k = edge_key v d then None else adj l u k)"
  by (auto simp: adj_def DeleteCompliteEdge_def Edge_GetKey_def edge_key_def list_at_update delete_conv)

lemma fold_insert_dsts:
  "adj (fold (\<lambda>d. InsertCompleteEdge \<lparr> e_src = s, e_dst = d, e_value = v \<rparr>) ds l) u k = Some x \<longleftrightarrow>
    (if u = s \<and> (\<exists>d \<in> set ds. k = edge_key v d) then k = edge_key v x else adj l u k = Some x)"
proof (induction ds arbitrary: l)
  case (Cons d ds)
  then show ?case by (auto simp: adj_InsertComplete)
qed simp

lemma fold_insert_srcs:
  "adj (fold (\<lambda>s. InsertCompleteEdge \<lparr> e_src = s, e_dst = d, e_value = v \<rparr>) ss l) u k
    = (if u \<in> set ss \<and> k = edge_key v d then Some d else adj l u k)"
  by (induction ss arbitrary: l) (auto simp: adj_InsertComplete)

lemma fold_delete_dsts:
  "adj (fold (\<lambda>d. DeleteCompliteEdge \<lparr> e_src = s, e_dst = d, e_value = v \<rparr>) ds l) u k
    = (if u = s \<and> (\<exists>d \<in> set ds. k = edge_key v d) then None else adj l u k)"
  by (induction ds arbitrary: l) (auto simp: adj_DeleteComplete)

lemma fold_delete_srcs:
  "adj (fold (\<lambda>s. DeleteCompliteEdge \<lparr> e_src = s, e_dst = d, e_value = v \<rparr>) ss l) u k
    = (if u \<in> set ss \<and> k = edge_key v d then None else adj l u k)"
  by (induction ss arbitrary: l) (auto simp: adj_DeleteComplete)

text \<open>The abstract state: who writes and who reads which channel.\<close>

definition writers_of :: "graph \<Rightarrow> u8 list \<Rightarrow> vertice set" where
  "writers_of g v = set (rv_src (edges_at g v))"

definition readers_of :: "graph \<Rightarrow> u8 list \<Rightarrow> vertice set" where
  "readers_of g v = set (rv_dst (edges_at g v))"

definition graph_ok :: "(u8 list \<times> vertice) set \<Rightarrow> graph \<Rightarrow> bool" where
  "graph_ok K g \<longleftrightarrow> keys_apart K \<and> (\<forall>v. \<forall>x \<in> readers_of g v. (v, x) \<in> K) \<and>
     (\<forall>u k x. adj (adj_list g) u k = Some x \<longleftrightarrow>
        (\<exists>v. k = edge_key v x \<and> u \<in> writers_of g v \<and> x \<in> readers_of g v))"

lemma edges_at_upd [simp]: "edges_at (g\<lparr> edges := (edges g)(v \<mapsto> r), adj_list := l \<rparr>) w
    = (if w = v then r else edges_at g w)"
  by (simp add: edges_at_def)

lemma InsertOutgoing_ok:
  assumes "graph_ok K g"
  shows "graph_ok K (InsertOutgoingEdge e g) \<and>
    writers_of (InsertOutgoingEdge e g) =
      (writers_of g)(e_value e := insert (e_src e) (writers_of g (e_value e))) \<and>
    readers_of (InsertOutgoingEdge e g) = readers_of g"
proof (cases "e_src e \<in> writers_of g (e_value e)")
  case True
  then show ?thesis using assms
    by (auto simp: InsertOutgoingEdge_def Let_def writers_of_def fun_eq_iff)
next
  case False
  let ?g = "InsertOutgoingEdge e g"
  have w: "writers_of ?g = (writers_of g)(e_value e := insert (e_src e) (writers_of g (e_value e)))"
    and r: "readers_of ?g = readers_of g"
    using False by (auto simp: InsertOutgoingEdge_def Let_def writers_of_def readers_of_def fun_eq_iff)
  have a: "adj (adj_list ?g) u k = Some x \<longleftrightarrow>
      (if u = e_src e \<and> (\<exists>d \<in> readers_of g (e_value e). k = edge_key (e_value e) d) then k = edge_key (e_value e) x
       else adj (adj_list g) u k = Some x)" for u k x
    using False by (simp add: InsertOutgoingEdge_def Let_def writers_of_def readers_of_def fold_insert_dsts)
  have ap: "keys_apart K" and us: "\<And>v x. x \<in> readers_of g v \<Longrightarrow> (v, x) \<in> K"
    and adj: "\<And>u k x. adj (adj_list g) u k = Some x \<longleftrightarrow>
        (\<exists>v. k = edge_key v x \<and> u \<in> writers_of g v \<and> x \<in> readers_of g v)"
    using assms by (auto simp: graph_ok_def)
  have wI: "u \<in> writers_of ?g v \<longleftrightarrow> u \<in> writers_of g v \<or> v = e_value e \<and> u = e_src e" for u v
    by (auto simp: w)
  have "adj (adj_list ?g) u k = Some x \<longleftrightarrow> (\<exists>v. k = edge_key v x \<and> u \<in> writers_of ?g v \<and> x \<in> readers_of ?g v)" for u k x
  proof (cases "u = e_src e \<and> (\<exists>d \<in> readers_of g (e_value e). k = edge_key (e_value e) d)")
    case True
    then obtain d where d: "d \<in> readers_of g (e_value e)" "k = edge_key (e_value e) d" by blast
    have "v = e_value e \<and> x = d" if "k = edge_key v x" "x \<in> readers_of g v" for v
      using that d us edge_key_unique [OF _ ap] by metis
    then show ?thesis using True d unfolding a r wI by (metis edge_key_same)
  next
    case False
    then show ?thesis unfolding a r wI by (simp only: if_False adj) blast
  qed
  then show ?thesis using ap us w r by (simp add: graph_ok_def)
qed

lemma InsertIncoming_ok:
  assumes "graph_ok K g" "(e_value e, e_dst e) \<in> K"
  shows "graph_ok K (InsertIncomingEdge e g) \<and>
    readers_of (InsertIncomingEdge e g) =
      (readers_of g)(e_value e := insert (e_dst e) (readers_of g (e_value e))) \<and>
    writers_of (InsertIncomingEdge e g) = writers_of g"
proof (cases "e_dst e \<in> readers_of g (e_value e)")
  case True
  then show ?thesis using assms
    by (auto simp: InsertIncomingEdge_def Let_def readers_of_def fun_eq_iff)
next
  case False
  let ?g = "InsertIncomingEdge e g"
  have w: "readers_of ?g = (readers_of g)(e_value e := insert (e_dst e) (readers_of g (e_value e)))"
    and r: "writers_of ?g = writers_of g"
    using False by (auto simp: InsertIncomingEdge_def Let_def writers_of_def readers_of_def fun_eq_iff)
  have a: "adj (adj_list ?g) u k = (if u \<in> writers_of g (e_value e) \<and> k = edge_key (e_value e) (e_dst e)
      then Some (e_dst e) else adj (adj_list g) u k)" for u k
    using False by (simp add: InsertIncomingEdge_def Let_def writers_of_def readers_of_def fold_insert_srcs)
  have ap: "keys_apart K" and us: "\<And>v x. x \<in> readers_of ?g v \<Longrightarrow> (v, x) \<in> K"
    and adj: "\<And>u k x. adj (adj_list g) u k = Some x \<longleftrightarrow>
        (\<exists>v. k = edge_key v x \<and> u \<in> writers_of g v \<and> x \<in> readers_of g v)"
    using assms unfolding w by (auto simp: graph_ok_def split: if_splits)
  have rI: "x \<in> readers_of ?g v \<longleftrightarrow> x \<in> readers_of g v \<or> v = e_value e \<and> x = e_dst e" for x v
    by (auto simp: w)
  have "adj (adj_list ?g) u k = Some x \<longleftrightarrow> (\<exists>v. k = edge_key v x \<and> u \<in> writers_of ?g v \<and> x \<in> readers_of ?g v)" for u k x
  proof (cases "u \<in> writers_of g (e_value e) \<and> k = edge_key (e_value e) (e_dst e)")
    case True
    have "v = e_value e \<and> x = e_dst e" if "edge_key (e_value e) (e_dst e) = edge_key v x" "x \<in> readers_of ?g v" for v
      using edge_key_unique [OF that(1) ap assms(2) us [OF that(2)]] by simp
    moreover have "adj (adj_list ?g) u k = Some (e_dst e)" by (rule trans [OF a if_P [OF True]])
    moreover have "e_dst e \<in> readers_of ?g (e_value e)" by (simp add: rI)
    ultimately show ?thesis using True unfolding r by (metis option.inject)
  next
    case False
    then show ?thesis unfolding a r rI by (simp only: if_False adj) blast
  qed
  then show ?thesis using ap us w r unfolding graph_ok_def by blast
qed

lemma DeleteOutgoing_ok:
  assumes "graph_ok K g"
  shows "graph_ok K (DeleteOutgoingEdge e g) \<and>
    writers_of (DeleteOutgoingEdge e g) = (writers_of g)(e_value e := writers_of g (e_value e) - {e_src e}) \<and>
    readers_of (DeleteOutgoingEdge e g) = readers_of g"
proof (cases "e_src e \<in> writers_of g (e_value e)")
  case False
  then show ?thesis using assms
    by (auto simp: DeleteOutgoingEdge_def Let_def writers_of_def fun_eq_iff)
next
  case True
  let ?g = "DeleteOutgoingEdge e g"
  have w: "writers_of ?g = (writers_of g)(e_value e := writers_of g (e_value e) - {e_src e})"
    and r: "readers_of ?g = readers_of g"
    using True by (auto simp: DeleteOutgoingEdge_def Let_def writers_of_def readers_of_def fun_eq_iff)
  have a: "adj (adj_list ?g) u k =
      (if u = e_src e \<and> (\<exists>d \<in> readers_of g (e_value e). k = edge_key (e_value e) d) then None
       else adj (adj_list g) u k)" for u k
    using True by (simp add: DeleteOutgoingEdge_def Let_def writers_of_def readers_of_def fold_delete_dsts)
  have wI: "u \<in> writers_of ?g v \<longleftrightarrow> u \<in> writers_of g v \<and> \<not> (v = e_value e \<and> u = e_src e)" for u v
    by (auto simp: w)
  have ap: "keys_apart K" and us: "\<And>v x. x \<in> readers_of g v \<Longrightarrow> (v, x) \<in> K"
    and adj: "\<And>u k x. adj (adj_list g) u k = Some x \<longleftrightarrow>
        (\<exists>v. k = edge_key v x \<and> u \<in> writers_of g v \<and> x \<in> readers_of g v)"
    using assms by (auto simp: graph_ok_def)
  have "adj (adj_list ?g) u k = Some x \<longleftrightarrow> (\<exists>v. k = edge_key v x \<and> u \<in> writers_of ?g v \<and> x \<in> readers_of ?g v)" for u k x
  proof (cases "u = e_src e \<and> (\<exists>d \<in> readers_of g (e_value e). k = edge_key (e_value e) d)")
    case True
    then have "v = e_value e" if "k = edge_key v x" "x \<in> readers_of g v" for v
      using that us edge_key_unique [OF _ ap] by metis
    moreover have "adj (adj_list ?g) u k = None" by (rule trans [OF a if_P [OF True]])
    ultimately show ?thesis using True unfolding r wI by (metis option.distinct(1))
  next
    case False
    then show ?thesis unfolding a r wI by (simp only: if_False adj) blast
  qed
  then show ?thesis using ap us w r by (simp add: graph_ok_def)
qed

lemma DeleteIncoming_ok:
  assumes "graph_ok K g"
  shows "graph_ok K (DeleteIncomingEdge e g) \<and>
    readers_of (DeleteIncomingEdge e g) = (readers_of g)(e_value e := readers_of g (e_value e) - {e_dst e}) \<and>
    writers_of (DeleteIncomingEdge e g) = writers_of g"
proof (cases "e_dst e \<in> readers_of g (e_value e)")
  case False
  then show ?thesis using assms
    by (auto simp: DeleteIncomingEdge_def Let_def readers_of_def fun_eq_iff)
next
  case True
  let ?g = "DeleteIncomingEdge e g"
  have w: "readers_of ?g = (readers_of g)(e_value e := readers_of g (e_value e) - {e_dst e})"
    and r: "writers_of ?g = writers_of g"
    using True by (auto simp: DeleteIncomingEdge_def Let_def writers_of_def readers_of_def fun_eq_iff)
  have a: "adj (adj_list ?g) u k = (if u \<in> writers_of g (e_value e) \<and> k = edge_key (e_value e) (e_dst e)
      then None else adj (adj_list g) u k)" for u k
    using True by (simp add: DeleteIncomingEdge_def Let_def writers_of_def readers_of_def fold_delete_srcs)
  have rI: "x \<in> readers_of ?g v \<longleftrightarrow> x \<in> readers_of g v \<and> \<not> (v = e_value e \<and> x = e_dst e)" for x v
    by (auto simp: w)
  have ap: "keys_apart K" and us: "\<And>v x. x \<in> readers_of g v \<Longrightarrow> (v, x) \<in> K"
    and adj: "\<And>u k x. adj (adj_list g) u k = Some x \<longleftrightarrow>
        (\<exists>v. k = edge_key v x \<and> u \<in> writers_of g v \<and> x \<in> readers_of g v)"
    using assms by (auto simp: graph_ok_def)
  have "adj (adj_list ?g) u k = Some x \<longleftrightarrow> (\<exists>v. k = edge_key v x \<and> u \<in> writers_of ?g v \<and> x \<in> readers_of ?g v)" for u k x
  proof (cases "u \<in> writers_of g (e_value e) \<and> k = edge_key (e_value e) (e_dst e)")
    case True
    have "v = e_value e \<and> x = e_dst e" if "edge_key (e_value e) (e_dst e) = edge_key v x" "x \<in> readers_of g v" for v
      using edge_key_unique [OF that(1) ap us us [OF that(2)]] \<open>e_dst e \<in> readers_of g (e_value e)\<close> by simp
    moreover have "adj (adj_list ?g) u k = None" by (rule trans [OF a if_P [OF True]])
    ultimately show ?thesis using True unfolding r rI by (metis option.distinct(1))
  next
    case False
    then show ?thesis unfolding a r rI by (simp only: if_False adj) blast
  qed
  then show ?thesis using ap us w r unfolding graph_ok_def by (auto simp: w split: if_splits)
qed

text \<open>The lists are maps, and every end of an edge has an entry.\<close>

definition adj_wf :: "adjacency \<Rightarrow> bool" where
  "adj_wf l \<longleftrightarrow> (\<forall>u. distinct (map fst (list_at l u))) \<and> (\<forall>u k x. adj l u k = Some x \<longrightarrow> map_of l x \<noteq> None)"

lemma map_of_update_None: "map_of (AList.update u s l) x = None \<longleftrightarrow> x \<noteq> u \<and> map_of l x = None"
  by (simp add: update_conv)

lemma dom_InsertComplete:
  "map_of (InsertCompleteEdge e l) x = None \<longleftrightarrow> map_of l x = None \<and> x \<noteq> e_src e \<and> x \<noteq> e_dst e"
  by (cases "map_of l (e_src e)"; cases "map_of (AList.update (e_src e) [] l) (e_dst e)")
    (auto simp: InsertCompleteEdge_def Let_def map_of_update_None update_conv split: if_splits)

lemma dom_DeleteComplete: "map_of (DeleteCompliteEdge e l) x = None \<longleftrightarrow> map_of l x = None \<and> x \<noteq> e_src e"
  by (auto simp: DeleteCompliteEdge_def map_of_update_None)

lemma adj_wf_InsertComplete:
  assumes "adj_wf l" shows "adj_wf (InsertCompleteEdge \<lparr> e_src = s, e_dst = d, e_value = v \<rparr> l)"
proof -
  have new: "list_at (if map_of l x = None then AList.update x [] l else l) = list_at l" for x l
    by (auto simp: fun_eq_iff list_at_update) (simp add: list_at_def)
  have "distinct (map fst (list_at (InsertCompleteEdge \<lparr> e_src = s, e_dst = d, e_value = v \<rparr> l) u))" for u
    using assms unfolding InsertCompleteEdge_def Let_def list_at_update new
    by (simp add: adj_wf_def distinct_update)
  then show ?thesis
    using assms by (auto simp: adj_wf_def adj_InsertComplete dom_InsertComplete)
qed

lemma adj_wf_DeleteComplete:
  assumes "adj_wf l" shows "adj_wf (DeleteCompliteEdge \<lparr> e_src = s, e_dst = d, e_value = v \<rparr> l)"
proof -
  have "distinct (map fst (list_at (DeleteCompliteEdge \<lparr> e_src = s, e_dst = d, e_value = v \<rparr> l) u))" for u
    using assms unfolding DeleteCompliteEdge_def list_at_update by (simp add: adj_wf_def distinct_delete)
  then show ?thesis
    using assms by (auto simp: adj_wf_def adj_DeleteComplete dom_DeleteComplete split: if_splits)
qed

lemma adj_src: "adj l u k = Some x \<Longrightarrow> map_of l u \<noteq> None"
  by (cases "map_of l u") (simp_all add: adj_def list_at_def)

lemma fold_inv: "P x \<Longrightarrow> (\<And>a x. P x \<Longrightarrow> P (f a x)) \<Longrightarrow> P (fold f as x)"
  by (induction as arbitrary: x) auto

lemma adj_wf_ops:
  assumes "adj_wf (adj_list g)"
  shows "adj_wf (adj_list (InsertOutgoingEdge e g)) \<and> adj_wf (adj_list (InsertIncomingEdge e g)) \<and>
    adj_wf (adj_list (DeleteOutgoingEdge e g)) \<and> adj_wf (adj_list (DeleteIncomingEdge e g))"
  using assms
  by (auto simp: InsertOutgoingEdge_def InsertIncomingEdge_def DeleteOutgoingEdge_def DeleteIncomingEdge_def Let_def
      intro!: fold_inv [where P = adj_wf] adj_wf_InsertComplete adj_wf_DeleteComplete)

lemma succs_iff: "adj_wf l \<Longrightarrow> v \<in> set (succs l u) \<longleftrightarrow> (\<exists>k. adj l u k = Some v)"
  by (force simp: adj_wf_def succs_def adj_def)

section \<open>Histories of the graph\<close>

datatype graph_op = GInsert Edge | GDelete Edge

fun graph_apply :: "graph_op \<Rightarrow> graph \<Rightarrow> graph" where
  "graph_apply (GInsert e) = Graph_Insert e"
| "graph_apply (GDelete e) = Graph_Delete e"

fun op_edge :: "graph_op \<Rightarrow> Edge" where
  "op_edge (GInsert e) = e"
| "op_edge (GDelete e) = e"

text \<open>The specification: the pairs (channel, writer) and (channel, reader) that have joined.\<close>

type_synonym members = "(u8 list \<times> vertice) set \<times> (u8 list \<times> vertice) set"

fun members_apply :: "graph_op \<Rightarrow> members \<Rightarrow> members" where
  "members_apply (GInsert e) (W, R) =
     (if e_value e = [] then (W, R)
      else (if e_src e = [] then W else insert (e_value e, e_src e) W,
            if e_dst e = [] then R else insert (e_value e, e_dst e) R))"
| "members_apply (GDelete e) (W, R) =
     (if e_value e = [] then (W, R) else (W - {(e_value e, e_src e)}, R - {(e_value e, e_dst e)}))"

definition members_rel :: "(u8 list \<times> vertice) set \<Rightarrow> members \<Rightarrow> graph \<Rightarrow> bool" where
  "members_rel K m g \<longleftrightarrow> graph_ok K g \<and> adj_wf (adj_list g) \<and>
     (\<forall>v. writers_of g v = {x. (v, x) \<in> fst m}) \<and> (\<forall>v. readers_of g v = {x. (v, x) \<in> snd m}) \<and>
     (\<forall>v. (v, []) \<notin> fst m \<and> (v, []) \<notin> snd m)"

lemma graph_new_channel:
  "edges g v = None \<Longrightarrow> graph_ok K (g\<lparr> edges := (edges g)(v \<mapsto> \<lparr> rv_src = [], rv_dst = [] \<rparr>) \<rparr>) = graph_ok K g \<and>
    writers_of (g\<lparr> edges := (edges g)(v \<mapsto> \<lparr> rv_src = [], rv_dst = [] \<rparr>) \<rparr>) = writers_of g \<and>
    readers_of (g\<lparr> edges := (edges g)(v \<mapsto> \<lparr> rv_src = [], rv_dst = [] \<rparr>) \<rparr>) = readers_of g"
proof -
  assume "edges g v = None"
  then have e: "edges_at (g\<lparr> edges := (edges g)(v \<mapsto> \<lparr> rv_src = [], rv_dst = [] \<rparr>) \<rparr>) = edges_at g"
    by (auto simp: edges_at_def fun_eq_iff)
  show ?thesis by (simp add: graph_ok_def writers_of_def [abs_def] readers_of_def [abs_def] e)
qed

lemma Graph_Insert_rel:
  assumes "members_rel K m g" "Edge_IsValid e \<and> \<not> IsDummy (e_dst e) \<longrightarrow> (e_value e, e_dst e) \<in> K"
  shows "members_rel K (members_apply (GInsert e) m) (Graph_Insert e g)"
proof (cases "Edge_IsValid e")
  case False
  then show ?thesis using assms
    by (cases m) (auto simp: Graph_Insert_def Edge_IsValid_def IsDummy_def split: if_splits)
next
  case True
  obtain W R where m: "m = (W, R)" by (cases m)
  define g0 where "g0 = (if edges g (e_value e) = None
      then g\<lparr> edges := (edges g)(e_value e \<mapsto> \<lparr> rv_src = [], rv_dst = [] \<rparr>) \<rparr> else g)"
  define g1 where "g1 = (if \<not> IsDummy (e_src e) then InsertOutgoingEdge e g0 else g0)"
  have v: "e_value e \<noteq> []" using True by (auto simp: Edge_IsValid_def split: if_splits)
  have r0: "members_rel K (W, R) g0"
    using assms(1) graph_new_channel [of g "e_value e" K] by (simp add: g0_def m members_rel_def)
  have r1: "members_rel K (if e_src e = [] then W else insert (e_value e, e_src e) W, R) g1"
    using r0 InsertOutgoing_ok [of K g0 e] adj_wf_ops [of g0 e]
    by (auto simp: g1_def members_rel_def IsDummy_def)
  have "Graph_Insert e g = (if \<not> IsDummy (e_dst e) then InsertIncomingEdge e g1 else g1)"
    using True by (simp add: Graph_Insert_def g0_def g1_def Let_def)
  then show ?thesis
    using r1 InsertIncoming_ok [of K g1 e] adj_wf_ops [of g1 e] assms(2) v True
    by (auto simp: m members_rel_def IsDummy_def)
qed

lemma Graph_Delete_rel:
  assumes "members_rel K m g"
  shows "members_rel K (members_apply (GDelete e) m) (Graph_Delete e g)"
proof (cases "Edge_IsValid e")
  case False
  then show ?thesis using assms
    by (cases m) (auto simp: Graph_Delete_def Edge_IsValid_def IsDummy_def members_rel_def split: if_splits)
next
  case True
  obtain W R where m: "m = (W, R)" by (cases m)
  have v: "e_value e \<noteq> []" using True by (auto simp: Edge_IsValid_def split: if_splits)
  show ?thesis
  proof (cases "edges g (e_value e) = None")
    case none: True
    then have "writers_of g (e_value e) = {}" "readers_of g (e_value e) = {}"
      by (simp_all add: writers_of_def readers_of_def edges_at_def)
    then have "(e_value e, x) \<notin> W" "(e_value e, x) \<notin> R" for x
      using assms by (auto simp: m members_rel_def)
    then show ?thesis using none assms v True by (simp add: Graph_Delete_def m)
  next
    case False
    define g1 where "g1 = (if \<not> IsDummy (e_src e) then DeleteOutgoingEdge e g else g)"
    have r1: "members_rel K (W - {(e_value e, e_src e)}, R) g1"
      using assms DeleteOutgoing_ok [of K g e] adj_wf_ops [of g e]
      by (auto simp: g1_def members_rel_def IsDummy_def m)
    have "Graph_Delete e g = (if \<not> IsDummy (e_dst e) then DeleteIncomingEdge e g1 else g1)"
      using True False by (simp add: Graph_Delete_def g1_def Let_def del: not_None_eq)
    then show ?thesis
      using r1 DeleteIncoming_ok [of K g1 e] adj_wf_ops [of g1 e] v
      by (auto simp: m members_rel_def IsDummy_def)
  qed
qed

lemma graph_apply_all_rel:
  assumes "members_rel K m g" "\<forall>c \<in> set ops. e_dst (op_edge c) \<noteq> [] \<longrightarrow> (e_value (op_edge c), e_dst (op_edge c)) \<in> K"
  shows "members_rel K (fold members_apply ops m) (fold graph_apply ops g)"
  using assms
proof (induction ops arbitrary: m g)
  case (Cons c ops)
  have "members_rel K (members_apply c m) (graph_apply c g)"
    using Cons.prems Graph_Insert_rel Graph_Delete_rel by (cases c) (auto simp: IsDummy_def)
  then show ?case using Cons by simp
qed simp

text \<open>A node is directly downstream of another when it reads a channel the other writes.\<close>

definition feeds :: "members \<Rightarrow> (vertice \<times> vertice) set" where
  "feeds m = {(u, x). \<exists>v. (v, u) \<in> fst m \<and> (v, x) \<in> snd m}"

lemma step_rel_feeds: "members_rel K m g \<Longrightarrow> step_rel (adj_list g) = feeds m"
  by (auto simp: members_rel_def step_rel_def succs_iff graph_ok_def feeds_def)

text \<open>C8: After any sequence of joins and leaves of writers and readers, \<open>GetDirectionOf\<close> two different nodes
  reports upstream, downstream or unreachable exactly according to the relation \<open>a node reads a
  channel the other writes\<close>, followed over any number of nodes, provided that the edges to the readers of two
  different channels never have the same key, the name of the channel and of the reader joined by an underscore.  The
  traversal always ends, also on cyclic graphs.\<close>

theorem flow_direction_correct:
  assumes "\<forall>c \<in> set ops. \<forall>c' \<in> set ops. e_dst (op_edge c) \<noteq> [] \<and> e_dst (op_edge c') \<noteq> [] \<and>
      Edge_GetKey (op_edge c) = Edge_GetKey (op_edge c') \<longrightarrow> e_value (op_edge c) = e_value (op_edge c')"
    and "lhs \<noteq> rhs"
  shows "GetDirectionOf (fold graph_apply ops graph_construct) lhs rhs =
    (let E = (feeds (fold members_apply ops ({}, {})))\<^sup>*
     in if (lhs, rhs) \<in> E then UPSTREAM else if (rhs, lhs) \<in> E then DOWNSTREAM else UNREACHABLE)"
proof -
  let ?g = "fold graph_apply ops graph_construct" and ?m = "fold members_apply ops ({}, {})"
  define K where "K = {(e_value (op_edge c), e_dst (op_edge c)) | c. c \<in> set ops \<and> e_dst (op_edge c) \<noteq> []}"
  have "keys_apart K"
    unfolding keys_apart_def K_def using assms(1) by (auto simp: Edge_GetKey_def edge_key_def)
  then have "members_rel K ({}, {}) graph_construct"
    by (simp add: members_rel_def graph_ok_def graph_construct_def adj_wf_def adj_def list_at_def
        writers_of_def readers_of_def edges_at_def)
  then have rel: "members_rel K ?m ?g" by (rule graph_apply_all_rel) (auto simp: K_def)
  note step = step_rel_feeds [OF rel]
  have entry: "map_of (adj_list ?g) a \<noteq> None \<and> map_of (adj_list ?g) b \<noteq> None \<and> a \<noteq> [] \<and> b \<noteq> []"
    if "(a, b) \<in> (feeds ?m)\<^sup>*" "a \<noteq> b" for a b
  proof -
    have tr: "(a, b) \<in> (feeds ?m)\<^sup>+" using that by (simp add: rtrancl_eq_or_trancl)
    obtain c where "(a, c) \<in> feeds ?m" using tr by (meson tranclD)
    moreover obtain d where "(d, b) \<in> feeds ?m" using tr by (meson tranclD2)
    ultimately have cd: "(a, c) \<in> feeds ?m" "(d, b) \<in> feeds ?m" by blast+
    have wfl: "adj_wf (adj_list ?g)" using rel by (simp add: members_rel_def)
    obtain k k' where "adj (adj_list ?g) a k = Some c" "adj (adj_list ?g) d k' = Some b"
      using cd unfolding step [symmetric] by (auto simp: step_rel_def succs_iff [OF wfl])
    then have "map_of (adj_list ?g) a \<noteq> None" "map_of (adj_list ?g) b \<noteq> None"
      using wfl adj_src by (simp_all only: adj_wf_def) blast+
    moreover have "a \<noteq> []" "b \<noteq> []" using cd rel by (auto simp: feeds_def members_rel_def)
    ultimately show ?thesis by blast
  qed
  show ?thesis
    using entry [of lhs rhs] entry [of rhs lhs] assms(2)
    by (auto simp: GetDirectionOf_def IsDummy_def LevelTraverse_iff step Let_def)
qed

text \<open>Channels 1 and 2; node 10 writes channel 1, a node reads it and writes channel 2, another one reads that; the names of
  the readers have underscores.\<close>

lemma flow_direction_correct_witness:
  "GetDirectionOf (fold graph_apply
      [GInsert \<lparr> e_src = [10], e_dst = [], e_value = [1] \<rparr>, GInsert \<lparr> e_src = [], e_dst = [11, 95, 3], e_value = [1] \<rparr>,
       GInsert \<lparr> e_src = [11, 95, 3], e_dst = [], e_value = [2] \<rparr>, GInsert \<lparr> e_src = [], e_dst = [12, 95, 3], e_value = [2] \<rparr>]
      graph_construct) [12, 95, 3] [10] = DOWNSTREAM \<and>
   ([10], [12, 95, 3]) \<in> (feeds (fold members_apply
      [GInsert \<lparr> e_src = [10], e_dst = [], e_value = [1] \<rparr>, GInsert \<lparr> e_src = [], e_dst = [11, 95, 3], e_value = [1] \<rparr>,
       GInsert \<lparr> e_src = [11, 95, 3], e_dst = [], e_value = [2] \<rparr>, GInsert \<lparr> e_src = [], e_dst = [12, 95, 3], e_value = [2] \<rparr>]
      ({}, {})))\<^sup>*"
proof -
  let ?ops = "[GInsert \<lparr> e_src = [10], e_dst = [], e_value = [1] \<rparr>, GInsert \<lparr> e_src = [], e_dst = [11, 95, 3], e_value = [1] \<rparr>,
       GInsert \<lparr> e_src = [11, 95, 3], e_dst = [], e_value = [2] \<rparr>, GInsert \<lparr> e_src = [], e_dst = [12, 95, 3], e_value = [2] \<rparr>]"
  have d: "GetDirectionOf (fold graph_apply ?ops graph_construct) [12, 95, 3] [10] = DOWNSTREAM" by code_simp
  define E where "E = (feeds (fold members_apply ?ops ({}, {})))\<^sup>*"
  have "\<forall>c \<in> set ?ops. \<forall>c' \<in> set ?ops. e_dst (op_edge c) \<noteq> [] \<and> e_dst (op_edge c') \<noteq> [] \<and>
      Edge_GetKey (op_edge c) = Edge_GetKey (op_edge c') \<longrightarrow> e_value (op_edge c) = e_value (op_edge c')"
    "[12, 95, 3] \<noteq> [10 :: u8]" by (simp_all add: Edge_GetKey_def)
  from flow_direction_correct [OF this] have
    "DOWNSTREAM = (if ([12, 95, 3], [10]) \<in> E then UPSTREAM else if ([10], [12, 95, 3]) \<in> E then DOWNSTREAM else UNREACHABLE)"
    unfolding d E_def [symmetric] Let_def .
  then have "([10], [12, 95, 3]) \<in> E" by (simp split: if_splits)
  then show ?thesis using d unfolding E_def by blast
qed

text \<open>A node name with an underscore can hide an edge: the keys of the edges of channel \<open>a\<close> to node \<open>b_c\<close> and
  of channel \<open>a_b\<close> to node \<open>c\<close> are equal.  When node \<open>w\<close> writes both channels, the
  edge to the reader that joined first is overwritten and that reader is reported unreachable.\<close>

theorem edge_key_collision_hides_reader:
  "Edge_GetKey \<lparr> e_src = w, e_dst = b @ 95 # c, e_value = a \<rparr> = Edge_GetKey \<lparr> e_src = w, e_dst = c, e_value = a @ 95 # b \<rparr> \<and>
   (let g = fold graph_apply
      [GInsert \<lparr> e_src = [10], e_dst = [], e_value = [1] \<rparr>, GInsert \<lparr> e_src = [10], e_dst = [], e_value = [1, 95, 2] \<rparr>,
       GInsert \<lparr> e_src = [], e_dst = [2, 95, 3], e_value = [1] \<rparr>,
       GInsert \<lparr> e_src = [], e_dst = [3], e_value = [1, 95, 2] \<rparr>] graph_construct
    in ([2, 95, 3] \<in> readers_of g [1] \<and> [10] \<in> writers_of g [1]) \<and>
       GetDirectionOf g [10] [2, 95, 3] = UNREACHABLE \<and> GetNumOfEdge g = 1)"
proof -
  have k: "Edge_GetKey \<lparr> e_src = w, e_dst = b @ 95 # c, e_value = a \<rparr>
      = Edge_GetKey \<lparr> e_src = w, e_dst = c, e_value = a @ 95 # b \<rparr>"
    by (simp add: Edge_GetKey_def)
  show ?thesis by (rule conjI [OF k]) code_simp
qed

end
