(* ===== verification/GlobalData.thy ===== *)
theory GlobalData
  imports AtomicHashMap
begin

text \<open>
  \<open>common/global_data.cpp\<close>: the three registers of names (channels, nodes, tasks), each an
  \<open>AtomicHashMap\<close> from the hash of the name, with linear probing on collisions; the choice of
  the host address.  Also the path functions of \<open>common/file.cpp\<close>.
  \<open>std::hash\<close> is the parameter \<open>Hash\<close>: nothing is assumed of it.
\<close>

section \<open>Registers of names\<close>

text \<open>The probing loop of \<open>RegisterChannel\<close>, \<open>RegisterNode\<close> and \<open>RegisterTaskName\<close>, which are the
  same code over three tables.\<close>

partial_function (option) probe :: "'c list hash_map \<Rightarrow> 'c list \<Rightarrow> u64 \<Rightarrow> u64 option" where
  [code]: "probe m name cid =
     (if ahm_Has cid m then
        (if ahm_Get m cid = Some name then Some cid else probe m name (cid + 1))
      else Some cid)"

definition register_name :: "('c list \<Rightarrow> u64) \<Rightarrow> 'c list \<Rightarrow> 'c list hash_map \<Rightarrow> (u64 \<times> 'c list hash_map) option" where
  "register_name Hash name m =
     (case probe m name (Hash name) of
        None \<Rightarrow> None
      | Some cid \<Rightarrow> Some (cid, ahm_Set cid name m))"

definition name_by_id :: "u64 \<Rightarrow> 'c list hash_map \<Rightarrow> 'c list" where
  "name_by_id cid m = (case ahm_Get m cid of Some name \<Rightarrow> name | None \<Rightarrow> [])"

record 'c name_registers =
  channel_id_map :: "'c list hash_map"
  node_id_map :: "'c list hash_map"
  task_id_map :: "'c list hash_map"

definition registers_init :: "'c name_registers" where
  "registers_init = \<lparr> channel_id_map = ahm_construct 256, node_id_map = ahm_construct 512,
     task_id_map = ahm_construct 256 \<rparr>"

definition GenerateHashId :: "('c list \<Rightarrow> u64) \<Rightarrow> 'c list \<Rightarrow> u64" where
  "GenerateHashId Hash name = Hash name"

definition RegisterChannel :: "('c list \<Rightarrow> u64) \<Rightarrow> 'c list \<Rightarrow> 'c name_registers \<Rightarrow> (u64 \<times> 'c name_registers) option" where
  "RegisterChannel Hash channel g =
     map_option (\<lambda>(cid, m). (cid, g\<lparr> channel_id_map := m \<rparr>)) (register_name Hash channel (channel_id_map g))"

definition RegisterNode :: "('c list \<Rightarrow> u64) \<Rightarrow> 'c list \<Rightarrow> 'c name_registers \<Rightarrow> (u64 \<times> 'c name_registers) option" where
  "RegisterNode Hash node_name g =
     map_option (\<lambda>(cid, m). (cid, g\<lparr> node_id_map := m \<rparr>)) (register_name Hash node_name (node_id_map g))"

definition RegisterTaskName :: "('c list \<Rightarrow> u64) \<Rightarrow> 'c list \<Rightarrow> 'c name_registers \<Rightarrow> (u64 \<times> 'c name_registers) option" where
  "RegisterTaskName Hash task_name g =
     map_option (\<lambda>(cid, m). (cid, g\<lparr> task_id_map := m \<rparr>)) (register_name Hash task_name (task_id_map g))"

definition GetChannelById :: "u64 \<Rightarrow> 'c name_registers \<Rightarrow> 'c list" where
  "GetChannelById cid g = name_by_id cid (channel_id_map g)"

definition GetTaskNameById :: "u64 \<Rightarrow> 'c name_registers \<Rightarrow> 'c list" where
  "GetTaskNameById cid g = name_by_id cid (task_id_map g)"

subsection \<open>Termination and correctness of the probing\<close>

definition stops :: "'c list hash_map \<Rightarrow> 'c list \<Rightarrow> u64 \<Rightarrow> bool" where
  "stops m name cid \<longleftrightarrow> ahm_Get m cid = None \<or> ahm_Get m cid = Some name"

lemma probe_on: "ahm_ok m \<Longrightarrow> \<not> stops m name cid \<Longrightarrow> probe m name cid = probe m name (cid + 1)"
  by (simp add: probe.simps [of m name cid] stops_def ahm_Has_Get)

lemma probe_here: "ahm_ok m \<Longrightarrow> stops m name cid \<Longrightarrow> probe m name cid = Some cid"
  by (auto simp: probe.simps [of m name cid] stops_def ahm_Has_Get)

lemma probe_steps:
  assumes "ahm_ok m" "\<forall>j < k. \<not> stops m name (cid + of_nat j)" "stops m name (cid + of_nat k)"
  shows "probe m name cid = Some (cid + of_nat k)"
  using assms
proof (induction k arbitrary: cid)
  case 0
  then show ?case by (simp add: probe_here)
next
  case (Suc k)
  have "\<not> stops m name cid" using Suc.prems(2) [rule_format, of 0] by simp
  then have "probe m name cid = probe m name (cid + 1)" by (rule probe_on [OF Suc.prems(1)])
  moreover have "probe m name (cid + 1) = Some (cid + 1 + of_nat k)"
  proof (rule Suc.IH [OF Suc.prems(1)])
    show "\<forall>j < k. \<not> stops m name (cid + 1 + of_nat j)"
    proof (intro allI impI)
      fix j assume "j < k"
      then have "\<not> stops m name (cid + of_nat (Suc j))" using Suc.prems(2) by (metis Suc_less_eq)
      then show "\<not> stops m name (cid + 1 + of_nat j)" by (simp add: add.assoc)
    qed
    show "stops m name (cid + 1 + of_nat k)" using Suc.prems(3) by (simp add: add.assoc)
  qed
  ultimately show ?case by (simp add: add.assoc)
qed

text \<open>Fewer entries than identifiers: the loop ends.\<close>

lemma probe_total:
  assumes "ahm_ok m" "card (dom (ahm_Get m)) < 2 ^ 64"
  obtains k where "probe m name cid = Some (cid + of_nat k)" "stops m name (cid + of_nat k)"
    "\<forall>j < k. \<not> stops m name (cid + of_nat j)"
proof -
  have "dom (ahm_Get m) \<noteq> UNIV"
    using assms(2) by (auto simp: card_word)
  then obtain x where x: "ahm_Get m x = None" by auto
  have "cid + of_nat (unat (x - cid)) = x" by simp
  then have "\<exists>k. stops m name (cid + of_nat k)" using x unfolding stops_def by metis
  define k where "k = (LEAST k. stops m name (cid + of_nat k))"
  have "stops m name (cid + of_nat k)" using LeastI_ex [OF \<open>\<exists>k. _ k\<close>] unfolding k_def .
  moreover have "\<forall>j < k. \<not> stops m name (cid + of_nat j)" using not_less_Least unfolding k_def by blast
  ultimately show thesis using that probe_steps [OF assms(1)] by blast
qed

text \<open>Every registered name is at its hash or at the end of an unbroken run of other names from it.\<close>

definition names_ok :: "('c list \<Rightarrow> u64) \<Rightarrow> 'c list hash_map \<Rightarrow> bool" where
  "names_ok Hash m \<longleftrightarrow> ahm_ok m \<and>
     (\<forall>cid name. ahm_Get m cid = Some name \<longrightarrow>
        (\<exists>k. cid = Hash name + of_nat k \<and> (\<forall>j < k. \<not> stops m name (Hash name + of_nat j))))"

lemma names_ok_unique:
  assumes "names_ok Hash m" "ahm_Get m cid = Some name" "ahm_Get m cid' = Some name"
  shows "cid = cid'"
proof -
  obtain k where k: "cid = Hash name + of_nat k" "\<forall>j < k. \<not> stops m name (Hash name + of_nat j)"
    using assms(1,2) unfolding names_ok_def by blast
  obtain k' where k': "cid' = Hash name + of_nat k'" "\<forall>j < k'. \<not> stops m name (Hash name + of_nat j)"
    using assms(1,3) unfolding names_ok_def by blast
  have "\<not> k < k'" "\<not> k' < k" using k k' assms(2,3) unfolding stops_def by blast+
  then show ?thesis using k(1) k'(1) by simp
qed

lemma register_name_spec:
  assumes "names_ok Hash m" "card (dom (ahm_Get m)) < 2 ^ 64"
  obtains cid where "register_name Hash name m = Some (cid, ahm_Set cid name m)"
    "ahm_Get m cid = None \<or> ahm_Get m cid = Some name" "names_ok Hash (ahm_Set cid name m)"
    "ahm_Get (ahm_Set cid name m) = (ahm_Get m)(cid \<mapsto> name)"
proof -
  have ok: "ahm_ok m" using assms(1) by (simp add: names_ok_def)
  obtain k where k: "probe m name (Hash name) = Some (Hash name + of_nat k)"
    "stops m name (Hash name + of_nat k)" "\<forall>j < k. \<not> stops m name (Hash name + of_nat j)"
    using probe_total [OF ok assms(2)] by blast
  define cid where "cid = Hash name + (of_nat k :: u64)"
  have stop: "stops m name cid" using k(2) by (simp only: cid_def)
  have g: "ahm_Get (ahm_Set cid name m) = (ahm_Get m)(cid \<mapsto> name)" using ok by (rule ahm.lookup_insert)
  have keep: "\<not> stops (ahm_Set cid name m) n x" if "\<not> stops m n x" for n x
  proof (cases "x = cid")
    case True
    then show ?thesis using that stop by (cases "n = name") (simp_all add: stops_def g)
  next
    case False
    then show ?thesis using that by (simp add: stops_def g)
  qed
  have "names_ok Hash (ahm_Set cid name m)"
    unfolding names_ok_def
  proof (intro conjI allI impI)
    show "ahm_ok (ahm_Set cid name m)" using ok by (rule ahm.insert_invar)
    fix x n assume a: "ahm_Get (ahm_Set cid name m) x = Some n"
    show "\<exists>k. x = Hash n + of_nat k \<and> (\<forall>j < k. \<not> stops (ahm_Set cid name m) n (Hash n + of_nat j))"
    proof (cases "x = cid")
      case True
      then have "n = name" using a by (simp add: g)
      then show ?thesis using k(3) keep True unfolding cid_def by blast
    next
      case False
      then have "ahm_Get m x = Some n" using a by (simp add: g)
      then show ?thesis using assms(1) keep unfolding names_ok_def by blast
    qed
  qed
  then show thesis
    using k(1,2) g by (intro that [of cid]) (auto simp: register_name_def cid_def stops_def)
qed

text \<open>Registering a sequence of names.\<close>

fun register_all :: "('c list \<Rightarrow> u64) \<Rightarrow> 'c list list \<Rightarrow> 'c list hash_map \<Rightarrow> (u64 list \<times> 'c list hash_map) option" where
  "register_all Hash [] m = Some ([], m)"
| "register_all Hash (n # ns) m =
     (case register_name Hash n m of
        None \<Rightarrow> None
      | Some (cid, m1) \<Rightarrow> (case register_all Hash ns m1 of None \<Rightarrow> None | Some (ids, m2) \<Rightarrow> Some (cid # ids, m2)))"

lemma register_all_spec:
  assumes "names_ok Hash m" "finite (dom (ahm_Get m))" "card (dom (ahm_Get m)) + length ns \<le> 2 ^ 64"
  shows "\<exists>ids m'. register_all Hash ns m = Some (ids, m') \<and> names_ok Hash m' \<and> length ids = length ns \<and>
    ahm_Get m \<subseteq>\<^sub>m ahm_Get m' \<and> (\<forall>i < length ns. ahm_Get m' (ids ! i) = Some (ns ! i))"
  using assms
proof (induction ns arbitrary: m)
  case Nil
  then show ?case by auto
next
  case (Cons n ns)
  have "card (dom (ahm_Get m)) < 2 ^ 64" using Cons.prems(3) by simp
  from register_name_spec [OF Cons.prems(1) this, of n] obtain cid where
    r: "register_name Hash n m = Some (cid, ahm_Set cid n m)"
      "ahm_Get m cid = None \<or> ahm_Get m cid = Some n" "names_ok Hash (ahm_Set cid n m)"
      "ahm_Get (ahm_Set cid n m) = (ahm_Get m)(cid \<mapsto> n)" by metis
  have "dom (ahm_Get (ahm_Set cid n m)) = insert cid (dom (ahm_Get m))" unfolding r(4) by auto
  moreover have "card (insert cid (dom (ahm_Get m))) + length ns \<le> 2 ^ 64"
    using Cons.prems(2,3) by (simp add: card_insert_if)
  ultimately obtain ids m' where ih: "register_all Hash ns (ahm_Set cid n m) = Some (ids, m')" "names_ok Hash m'"
      "length ids = length ns" "ahm_Get (ahm_Set cid n m) \<subseteq>\<^sub>m ahm_Get m'"
      "\<forall>i < length ns. ahm_Get m' (ids ! i) = Some (ns ! i)"
    using Cons.IH [OF r(3)] Cons.prems(2) by auto
  have "ahm_Get m \<subseteq>\<^sub>m ahm_Get m'"
    using ih(4) r(2) unfolding r(4) map_le_def by (metis domI domIff fun_upd_apply)
  moreover have "ahm_Get m' cid = Some n" using ih(4) unfolding r(4) map_le_def by (metis domI fun_upd_same)
  ultimately show ?case using r(1) ih by (auto simp: nth_Cons split: nat.split)
qed

text \<open>C18: Registering names (of channels, nodes or tasks) always returns, whatever the hash function, and
  gives different identifiers to different names, however their hashes collide; a name
  registered again gets the same identifier; and the name of every identifier handed out
  can be looked up ever after.\<close>

theorem registered_ids_unique:
  assumes "TableSize \<noteq> 0" "length names \<le> 2 ^ 64"
  shows "\<exists>ids m. register_all Hash names (ahm_construct TableSize) = Some (ids, m) \<and>
    length ids = length names \<and>
    (\<forall>i < length names. name_by_id (ids ! i) m = names ! i) \<and>
    (\<forall>i < length names. \<forall>j < length names. ids ! i = ids ! j \<longleftrightarrow> names ! i = names ! j)"
proof -
  have n: "names_ok Hash (ahm_construct TableSize)"
    using assms(1) by (simp add: names_ok_def ahm_construct_ok ahm_Get_construct)
  obtain ids m where r: "register_all Hash names (ahm_construct TableSize) = Some (ids, m)"
    "names_ok Hash m" "length ids = length names" "\<forall>i < length names. ahm_Get m (ids ! i) = Some (names ! i)"
    using register_all_spec [OF n, of names] assms by (auto simp: ahm_Get_construct)
  have "ids ! i = ids ! j \<longleftrightarrow> names ! i = names ! j" if "i < length names" "j < length names" for i j
    using that r(4) names_ok_unique [OF r(2)] by (metis option.inject)
  then show ?thesis using r by (auto simp: name_by_id_def)
qed

text \<open>A hash on which all names collide: the identifiers differ from the hashes, so a caller that takes
  \<open>GenerateHashId\<close> of a name for its identifier addresses another name.\<close>

lemma registered_ids_unique_witness:
  "\<exists>m. register_all (\<lambda>_. 7) [''a'', ''b'', ''a'', ''c''] (ahm_construct 4) = Some ([7, 8, 7, 9], m) \<and>
     name_by_id (GenerateHashId (\<lambda>_. 7) ''b'') m \<noteq> ''b''"
proof -
  obtain ids m where r: "register_all (\<lambda>_. 7) [''a'', ''b'', ''a'', ''c''] (ahm_construct 4) = Some (ids, m)"
    "\<forall>i < length [''a'', ''b'', ''a'', ''c'']. name_by_id (ids ! i) m = [''a'', ''b'', ''a'', ''c''] ! i"
    using registered_ids_unique [of 4 "[''a'', ''b'', ''a'', ''c'']" "\<lambda>_. 7"] by auto
  have "map_option fst (register_all (\<lambda>_. 7) [''a'', ''b'', ''a'', ''c''] (ahm_construct 4)) = Some [7, 8, 7, 9]"
    by code_simp
  then have "ids = [7, 8, 7, 9]" using r(1) by simp
  moreover have "name_by_id 7 m = ''a''" using r(2) calculation by (auto dest: spec [of _ 0])
  ultimately show ?thesis using r(1) by (simp add: GenerateHashId_def)
qed

section \<open>Paths\<close>

text \<open>\<open>std::string::rfind\<close> of a character; \<open>None\<close> is \<open>npos\<close>.\<close>

definition rfind :: "char \<Rightarrow> string \<Rightarrow> nat option" where
  "rfind c s = (if c \<in> set s then Some (length s - 1 - length (takeWhile (\<lambda>x. x \<noteq> c) (rev s))) else None)"

definition GetAbsolutePath :: "string \<Rightarrow> string \<Rightarrow> string" where
  "GetAbsolutePath prefix relative_path =
     (if relative_path = [] then prefix
      else if prefix = [] \<or> hd relative_path = CHR ''/'' then relative_path
      else if last prefix = CHR ''/'' then prefix @ relative_path
      else prefix @ ''/'' @ relative_path)"

definition GetFileName :: "string \<Rightarrow> bool \<Rightarrow> string" where
  "GetFileName path remove_extension =
     (let start = (case rfind CHR ''/'' path of None \<Rightarrow> 0 | Some i \<Rightarrow> Suc i);
          end_pos = (if remove_extension then
             (case rfind CHR ''.'' path of
                None \<Rightarrow> None
              | Some e \<Rightarrow> if e < start then None else Some e)
           else None)
      in case end_pos of
           None \<Rightarrow> drop start path
         | Some e \<Rightarrow> take (e - start) (drop start path))"

lemma rfind_append:
  assumes "c \<notin> set ys" shows "rfind c (xs @ c # ys) = Some (length xs)"
proof -
  have "takeWhile (\<lambda>x. x \<noteq> c) (rev ys @ c # rev xs) = rev ys"
    using assms by (subst takeWhile_append2) auto
  then show ?thesis by (simp add: rfind_def)
qed

lemma GetFileName_sep:
  assumes "CHR ''/'' \<notin> set n"
  shows "GetFileName (d @ CHR ''/'' # n) False = n"
    and "CHR ''.'' \<notin> set e \<Longrightarrow> n = b @ CHR ''.'' # e \<Longrightarrow> GetFileName (d @ CHR ''/'' # n) True = b"
proof -
  show "GetFileName (d @ CHR ''/'' # n) False = n"
    using rfind_append [OF assms, of d] by (simp add: GetFileName_def)
  assume e: "CHR ''.'' \<notin> set e" "n = b @ CHR ''.'' # e"
  have "rfind CHR ''.'' (d @ CHR ''/'' # n) = Some (length d + 1 + length b)"
    using rfind_append [OF e(1), of "d @ CHR ''/'' # b"] e(2) by simp
  then show "GetFileName (d @ CHR ''/'' # n) True = b"
    using rfind_append [OF assms, of d] e(2) by (simp add: GetFileName_def)
qed

text \<open>The file name of the absolute path of a relative file name below a non-empty prefix is that name,
  whether the prefix ends in a slash or not, and without its extension if the extension is to
  be removed (only the last dot counts).\<close>

theorem file_name_of_absolute_path:
  assumes "prefix \<noteq> []" "CHR ''/'' \<notin> set (base @ ext)" "CHR ''.'' \<notin> set ext"
  shows "GetFileName (GetAbsolutePath prefix (base @ CHR ''.'' # ext)) False = base @ CHR ''.'' # ext \<and>
    GetFileName (GetAbsolutePath prefix (base @ CHR ''.'' # ext)) True = base"
proof -
  let ?n = "base @ CHR ''.'' # ext"
  have n: "CHR ''/'' \<notin> set ?n" using assms(2) by auto
  have "hd ?n \<noteq> CHR ''/''" using n by (metis append_is_Nil_conv hd_in_set list.distinct(1))
  then have g: "GetAbsolutePath prefix ?n = (if last prefix = CHR ''/'' then prefix @ ?n else prefix @ CHR ''/'' # ?n)"
    using assms(1) by (simp add: GetAbsolutePath_def)
  have "\<exists>d. GetAbsolutePath prefix ?n = d @ CHR ''/'' # ?n"
  proof (cases "last prefix = CHR ''/''")
    case True
    then have "prefix = butlast prefix @ [CHR ''/'']" using append_butlast_last_id [OF assms(1)] by simp
    then have "prefix @ ?n = butlast prefix @ CHR ''/'' # ?n" by (metis append.assoc append_Cons append_Nil)
    then show ?thesis using True unfolding g by auto
  next
    case False
    then show ?thesis unfolding g by auto
  qed
  then show ?thesis using GetFileName_sep [OF n] assms(3) by metis
qed

lemma file_name_of_absolute_path_witness:
  "GetFileName (GetAbsolutePath ''/opt/rcmw'' ''conf.pb.conf'') False = ''conf.pb.conf'' \<and>
   GetFileName (GetAbsolutePath ''/opt/rcmw'' ''conf.pb.conf'') True = ''conf.pb''"
  using file_name_of_absolute_path [of "''/opt/rcmw''" "''conf.pb''" "''conf''"] by simp

section \<open>The environment and the host address\<close>

text \<open>The environment is a map; \<open>None\<close> is an unset variable.\<close>

definition GetEnv :: "(string \<rightharpoonup> string) \<Rightarrow> string \<Rightarrow> string \<Rightarrow> string" where
  "GetEnv env var_name default_value = (case env var_name of None \<Rightarrow> default_value | Some v \<Rightarrow> v)"

definition WorkRoot :: "(string \<rightharpoonup> string) \<Rightarrow> string" where
  "WorkRoot env = (let work_root = GetEnv env ''RCMW_PATH'' []
     in if work_root = [] then ''/home/me/cmw_ws/rcmw'' else work_root)"

text \<open>An entry of \<open>getifaddrs\<close>: whether it has an address, whether the family of that is \<open>AF_INET\<close>, and
  the numeric address, if \<open>getnameinfo\<close> succeeds.\<close>

record ifaddr =
  ifa_has_addr :: bool
  ifa_inet :: bool
  ifa_name :: "string option"

fun scan_ifaddrs :: "ifaddr list \<Rightarrow> string \<Rightarrow> string" where
  "scan_ifaddrs [] host_ip = host_ip"
| "scan_ifaddrs (ifa # rest) host_ip =
     (if \<not> ifa_has_addr ifa then scan_ifaddrs rest host_ip
      else if \<not> ifa_inet ifa then scan_ifaddrs rest host_ip
      else (case ifa_name ifa of
              None \<Rightarrow> scan_ifaddrs rest host_ip
            | Some tmp_ip \<Rightarrow>
                (if take 3 tmp_ip \<noteq> ''127'' then tmp_ip else scan_ifaddrs rest host_ip)))"

definition InitHostInfo :: "(string \<rightharpoonup> string) \<Rightarrow> ifaddr list \<Rightarrow> string" where
  "InitHostInfo env ifaddrs =
     (let host_ip = ''127.0.0.1''
      in case env ''RCMW_IP'' of
           Some ip_env_str \<Rightarrow>
             (if take 3 ip_env_str \<noteq> ''127'' then ip_env_str else scan_ifaddrs ifaddrs host_ip)
         | None \<Rightarrow> scan_ifaddrs ifaddrs host_ip)"

lemma scan_ifaddrs_find:
  "scan_ifaddrs ifs ip =
     (case List.find (\<lambda>i. ifa_has_addr i \<and> ifa_inet i \<and> (\<exists>n. ifa_name i = Some n \<and> take 3 n \<noteq> ''127'')) ifs of
        None \<Rightarrow> ip | Some i \<Rightarrow> the (ifa_name i))"
  by (induction ifs) (auto split: option.splits)

end
