(* ===== verification/Managers.thy ===== *)
theory Managers
  imports Warehouse Graph GlobalData
begin

unbundle bit_operations_syntax

text \<open>
  The discovery managers: \<open>discovery/specific_manager/manager.cpp\<close> (the base class),
  \<open>node_manager.cpp\<close> and \<open>channel_manager.cpp\<close>.  A change is disposed of locally, announced to the
  listeners and sent, serialized, to the other processes, whose \<open>OnRemoteChange\<close> receives the bytes.
  The RTPS library is outside: whether it creates a writer or a reader is an argument, the calls of
  its history are recorded in \<open>rtps_calls\<close>, and whether it accepts a change is a field.  \<open>now\<close> is what \<open>Time::Now\<close> returns, \<open>junk\<close> is
  the content of an object whose members the code leaves uninitialised, \<open>Hash\<close> is \<open>std::hash\<close>.
  A result \<open>None\<close> means that \<open>DataStream\<close> does not return (see \<open>DataStream\<close>) or that more is copied into
  a payload than was asked for.
\<close>

section \<open>The base class\<close>

text \<open>What is called on the history of the writer, with what \<open>add_change\<close> answered.  \<open>rtps_accepts\<close> is the
  history: whether, after the calls made so far, it accepts a change.  The constructors put one that
  accepts everything; which it is, is decided by Fast RTPS.\<close>

datatype history_call = AddChange bytes bool | RemoveOlderChanges nat

record manager =
  is_shutdown :: bool
  is_discovery_started :: bool
  allowed_role :: i32
  mgr_change_type :: ChangeType
  mgr_host_name :: bytes
  mgr_process_id :: i32
  mgr_order :: ByteOrder
  writer_up :: bool
  reader_up :: bool
  rtps_accepts :: "history_call list \<Rightarrow> bytes \<Rightarrow> bool"
  rtps_calls :: "history_call list"
  listeners :: "nat list"
  notified :: "(nat \<times> ChangeMsg) list"

definition role_bit :: "RoleType \<Rightarrow> i32" where
  "role_bit r = push_bit (unat (role_code r)) 1"

definition StopDiscovery :: "'z manager_scheme \<Rightarrow> 'z manager_scheme" where
  "StopDiscovery m =
     (if \<not> is_discovery_started m then m
      else m\<lparr> is_discovery_started := False, writer_up := False, reader_up := False \<rparr>)"

text \<open>\<open>CreateReader\<close> is called only when \<open>CreateWriter\<close> succeeds.\<close>

definition StartDiscovery :: "bool \<Rightarrow> bool \<Rightarrow> bool \<Rightarrow> 'z manager_scheme \<Rightarrow> bool \<times> 'z manager_scheme" where
  "StartDiscovery participant writer_ok reader_ok m =
     (if \<not> participant then (False, m)
      else if is_discovery_started m then (True, m)
      else
        (let m1 = m\<lparr> is_discovery_started := True, writer_up := True \<rparr>;
             m2 = (if writer_ok then m1\<lparr> reader_up := True \<rparr> else m1)
         in if \<not> writer_ok \<or> \<not> reader_ok then (False, StopDiscovery m2) else (True, m2)))"

definition Manager_Shutdown :: "'z manager_scheme \<Rightarrow> 'z manager_scheme" where
  "Manager_Shutdown m =
     (if is_shutdown m then m
      else (StopDiscovery (m\<lparr> is_shutdown := True \<rparr>))\<lparr> listeners := [] \<rparr>)"

definition AddChangeListener :: "nat \<Rightarrow> 'z manager_scheme \<Rightarrow> 'z manager_scheme" where
  "AddChangeListener f m = m\<lparr> listeners := listeners m @ [f] \<rparr>"

definition RemoveChangeListener :: "nat \<Rightarrow> 'z manager_scheme \<Rightarrow> 'z manager_scheme" where
  "RemoveChangeListener conn m = m\<lparr> listeners := filter (\<lambda>l. l \<noteq> conn) (listeners m) \<rparr>"

definition Manager_Notify :: "ChangeMsg \<Rightarrow> 'z manager_scheme \<Rightarrow> 'z manager_scheme" where
  "Manager_Notify msg m = m\<lparr> notified := notified m @ map (\<lambda>l. (l, msg)) (listeners m) \<rparr>"

definition Manager_Convert :: "u64 \<Rightarrow> RoleAttributes \<Rightarrow> RoleType \<Rightarrow> OperateType \<Rightarrow> 'z manager_scheme \<Rightarrow> ChangeMsg" where
  "Manager_Convert now attr role opt m =
     \<lparr> timestamp = now, change_type = mgr_change_type m, operate_type = opt, role_type = role,
       role_attr = attr\<lparr> host_name := (if host_name attr = [] then mgr_host_name m else host_name attr),
         process_id := (if process_id attr = 0 then mgr_process_id m else process_id attr) \<rparr> \<rparr>"

definition NeedPublish :: "ChangeMsg \<Rightarrow> bool" where "NeedPublish msg = True"

text \<open>The payload is asked for with 255 bytes.  A change that the history refuses is given to it once more
  after 20 older ones were removed; what it answers then is not looked at.\<close>

definition requested_payload :: nat where "requested_payload = 255"

definition history_add :: "(history_call list \<Rightarrow> bytes \<Rightarrow> bool) \<Rightarrow> bytes \<Rightarrow> history_call list \<Rightarrow> bool \<times> history_call list" where
  "history_add accepts bs calls = (let flag = accepts calls bs in (flag, calls @ [AddChange bs flag]))"

definition Manager_Write :: "ChangeMsg \<Rightarrow> 'z manager_scheme \<Rightarrow> (bool \<times> 'z manager_scheme) option" where
  "Manager_Write msg m =
     (if \<not> is_discovery_started m then Some (False, m)
      else
        (case ChangeMsg_serialize msg (ds_construct (mgr_order m)) of
           None \<Rightarrow> None
         | Some ds \<Rightarrow>
             if \<not> writer_up m then Some (True, m)
             else if requested_payload < length (m_buf ds) then None
             else
               (let (flag, calls) = history_add (rtps_accepts m) (m_buf ds) (rtps_calls m);
                    calls1 = (if \<not> flag then snd (history_add (rtps_accepts m) (m_buf ds) (calls @ [RemoveOlderChanges 20]))
                              else calls)
                in Some (True, m\<lparr> rtps_calls := calls1 \<rparr>))))"

text \<open>The payloads that the history accepted.\<close>

fun accepted_change :: "history_call \<Rightarrow> bytes list" where
  "accepted_change (AddChange bs ok) = (if ok then [bs] else [])"
| "accepted_change (RemoveOlderChanges n) = []"

definition sent :: "'z manager_scheme \<Rightarrow> bytes list" where
  "sent m = concat (map accepted_change (rtps_calls m))"

definition Manager_Join ::
  "(RoleAttributes \<Rightarrow> bool) \<Rightarrow> (ChangeMsg \<Rightarrow> 'z manager_scheme \<Rightarrow> 'z manager_scheme)
    \<Rightarrow> u64 \<Rightarrow> RoleAttributes \<Rightarrow> RoleType \<Rightarrow> bool \<Rightarrow> 'z manager_scheme \<Rightarrow> (bool \<times> 'z manager_scheme) option" where
  "Manager_Join Check Dispose now attr role need_write m =
     (if is_shutdown m then Some (False, m)
      else if role_bit role AND allowed_role m = 0 then Some (False, m)
      else if \<not> Check attr then Some (False, m)
      else
        (let msg = Manager_Convert now attr role OPT_JOIN m; m1 = Dispose msg m
         in if need_write then Manager_Write msg m1 else Some (True, m1)))"

definition Manager_Leave ::
  "(RoleAttributes \<Rightarrow> bool) \<Rightarrow> (ChangeMsg \<Rightarrow> 'z manager_scheme \<Rightarrow> 'z manager_scheme)
    \<Rightarrow> u64 \<Rightarrow> RoleAttributes \<Rightarrow> RoleType \<Rightarrow> 'z manager_scheme \<Rightarrow> (bool \<times> 'z manager_scheme) option" where
  "Manager_Leave Check Dispose now attr role m =
     (if is_shutdown m then Some (False, m)
      else if role_bit role AND allowed_role m = 0 then Some (False, m)
      else if \<not> Check attr then Some (False, m)
      else
        (let msg = Manager_Convert now attr role OPT_LEAVE m; m1 = Dispose msg m
         in if NeedPublish msg then Manager_Write msg m1 else Some (True, m1)))"

definition IsFromSameProcess :: "ChangeMsg \<Rightarrow> 'z manager_scheme \<Rightarrow> bool" where
  "IsFromSameProcess msg m \<longleftrightarrow>
     \<not> (process_id (role_attr msg) \<noteq> mgr_process_id m \<or> host_name (role_attr msg) \<noteq> mgr_host_name m)"

text \<open>The result of reading is not checked: a message that cannot be read is handled with what was read.\<close>

definition OnRemoteChange ::
  "(RoleAttributes \<Rightarrow> bool) \<Rightarrow> (ChangeMsg \<Rightarrow> 'z manager_scheme \<Rightarrow> 'z manager_scheme)
    \<Rightarrow> ChangeMsg \<Rightarrow> bytes \<Rightarrow> 'z manager_scheme \<Rightarrow> 'z manager_scheme option" where
  "OnRemoteChange Check Dispose junk msg_str m =
     (if is_shutdown m then Some m
      else
        (case ds_of_bytes (mgr_order m) msg_str of
           None \<Rightarrow> None
         | Some ds \<Rightarrow>
             (case ChangeMsg_unserialize junk ds of
                None \<Rightarrow> None
              | Some (r, msg, ds1) \<Rightarrow>
                  Some (if IsFromSameProcess msg m then m
                        else if \<not> Check (role_attr msg) then m
                        else Dispose msg m))))"

section \<open>The node manager\<close>

record node_manager = manager +
  nodes :: role_map

definition NodeManager_construct :: "bytes \<Rightarrow> i32 \<Rightarrow> ByteOrder \<Rightarrow> node_manager" where
  "NodeManager_construct host pid bo =
     \<lparr> is_shutdown = False, is_discovery_started = False, allowed_role = role_bit ROLE_NODE,
       mgr_change_type = CHANGE_NODE, mgr_host_name = host, mgr_process_id = pid, mgr_order = bo,
       writer_up = False, reader_up = False, rtps_accepts = (\<lambda>_ _. True), rtps_calls = [],
       listeners = [], notified = [], nodes = [] \<rparr>"

definition NodeManager_Check :: "RoleAttributes \<Rightarrow> bool" where
  "NodeManager_Check attr = (if node_name attr = [] then False else if node_id attr = 0 then False else True)"

text \<open>A node already known under the key stays, unless the new one is earlier.\<close>

definition NodeManager_DisposeJoin :: "ChangeMsg \<Rightarrow> node_manager \<Rightarrow> node_manager" where
  "NodeManager_DisposeJoin msg m =
     (let node = RoleNode (role_attr msg) (timestamp msg); key = node_id (attributes node)
      in case sv_Add key node False (nodes m) of
           (True, w) \<Rightarrow> m\<lparr> nodes := w \<rparr>
         | (False, w) \<Rightarrow>
             (case sv_Search_first key w of
                None \<Rightarrow> m\<lparr> nodes := snd (sv_Add key node True w) \<rparr>
              | Some existing_node \<Rightarrow>
                  (if IsEarlierThan node existing_node then m\<lparr> nodes := snd (sv_Add key node True w) \<rparr> else m)))"

definition NodeManager_DisposeLeave :: "ChangeMsg \<Rightarrow> node_manager \<Rightarrow> node_manager" where
  "NodeManager_DisposeLeave msg m = m\<lparr> nodes := sv_Remove_key (node_id (role_attr msg)) (nodes m) \<rparr>"

definition NodeManager_Dispose :: "ChangeMsg \<Rightarrow> node_manager \<Rightarrow> node_manager" where
  "NodeManager_Dispose msg m =
     Manager_Notify msg (if operate_type msg = OPT_JOIN then NodeManager_DisposeJoin msg m
       else NodeManager_DisposeLeave msg m)"

definition NodeManager_Join where "NodeManager_Join = Manager_Join NodeManager_Check NodeManager_Dispose"
definition NodeManager_Leave where "NodeManager_Leave = Manager_Leave NodeManager_Check NodeManager_Dispose"
definition NodeManager_OnRemoteChange where
  "NodeManager_OnRemoteChange = OnRemoteChange NodeManager_Check NodeManager_Dispose"

text \<open>\<open>attr\<close> has only its host name and process id set.  The \<open>i\<close>-th reading of the clock is \<open>now i\<close>.\<close>

definition NodeManager_OnTopoModuleLeave ::
  "(nat \<Rightarrow> u64) \<Rightarrow> RoleAttributes \<Rightarrow> bytes \<Rightarrow> i32 \<Rightarrow> node_manager \<Rightarrow> node_manager" where
  "NodeManager_OnTopoModuleLeave now junk host pid m =
     (if \<not> is_discovery_started m then m
      else
        (let attr = junk\<lparr> host_name := host, process_id := pid \<rparr>;
             nodes_to_remove = sv_Search_attr attr (nodes m);
             m1 = m\<lparr> nodes := fold (\<lambda>n. sv_Remove_key (node_id (attributes n))) nodes_to_remove (nodes m) \<rparr>
         in fold (\<lambda>(i, n) m2. Manager_Notify (Manager_Convert (now i) (attributes n) ROLE_NODE OPT_LEAVE m2) m2)
              (List.enumerate 0 nodes_to_remove) m1))"

definition HasNode ::
  "(bytes \<Rightarrow> u64) \<Rightarrow> bytes \<Rightarrow> node_manager \<Rightarrow> u8 name_registers \<Rightarrow> (bool \<times> u8 name_registers) option" where
  "HasNode Hash node_nm m g =
     map_option (\<lambda>(key, g1). (sv_Search_first key (nodes m) \<noteq> None, g1)) (RegisterNode Hash node_nm g)"

definition GetNodes :: "node_manager \<Rightarrow> RoleAttributes list" where
  "GetNodes m = sv_GetAllRoles (nodes m)"

section \<open>The channel manager\<close>

record channel_manager = manager +
  node_graph :: graph
  node_writers :: role_map
  node_readers :: role_map
  channel_writers :: role_map
  channel_readers :: role_map

definition ChannelManager_construct :: "bytes \<Rightarrow> i32 \<Rightarrow> ByteOrder \<Rightarrow> channel_manager" where
  "ChannelManager_construct host pid bo =
     \<lparr> is_shutdown = False, is_discovery_started = False,
       allowed_role = role_bit ROLE_WRITER OR role_bit ROLE_READER,
       mgr_change_type = CHANGE_CHANNEL, mgr_host_name = host, mgr_process_id = pid, mgr_order = bo,
       writer_up = False, reader_up = False, rtps_accepts = (\<lambda>_ _. True), rtps_calls = [],
       listeners = [], notified = [],
       node_graph = graph_construct, node_writers = [], node_readers = [], channel_writers = [], channel_readers = [] \<rparr>"

definition ChannelManager_Check :: "RoleAttributes \<Rightarrow> bool" where
  "ChannelManager_Check attr =
     (if channel_name attr = [] then False
      else if channel_id attr = 0 then False
      else if role_id attr = 0 then False
      else True)"

definition IsMessageTypeMatching :: "bytes \<Rightarrow> bytes \<Rightarrow> bool" where
  "IsMessageTypeMatching lhs rhs \<longleftrightarrow> lhs = rhs"

text \<open>\<open>ScanMessageType\<close> only logs: the writers and the readers it reports.\<close>

definition ScanMessageType :: "ChangeMsg \<Rightarrow> channel_manager \<Rightarrow> RoleAttributes list \<times> RoleAttributes list" where
  "ScanMessageType msg m =
     (let key = channel_id (role_attr msg)
      in (filter (\<lambda>w. \<not> IsMessageTypeMatching (message_type w) (message_type (role_attr msg)))
            (mv_Search_key_attrs key (channel_writers m)),
          filter (\<lambda>r. \<not> IsMessageTypeMatching (message_type (role_attr msg)) (message_type r))
            (mv_Search_key_attrs key (channel_readers m))))"

definition ChannelManager_DisposeJoin :: "ChangeMsg \<Rightarrow> channel_manager \<Rightarrow> channel_manager" where
  "ChannelManager_DisposeJoin msg m =
     (let attr = role_attr msg; role = RoleWriter attr (timestamp msg)
      in if role_type msg = ROLE_WRITER
         then m\<lparr> node_writers := snd (mv_Add (node_id attr) role True (node_writers m)),
           channel_writers := snd (mv_Add (channel_id attr) role True (channel_writers m)),
           node_graph := Graph_Insert \<lparr> e_src = node_name attr, e_dst = [], e_value = channel_name attr \<rparr> (node_graph m) \<rparr>
         else m\<lparr> node_readers := snd (mv_Add (node_id attr) role True (node_readers m)),
           channel_readers := snd (mv_Add (channel_id attr) role True (channel_readers m)),
           node_graph := Graph_Insert \<lparr> e_src = [], e_dst = node_name attr, e_value = channel_name attr \<rparr> (node_graph m) \<rparr>)"

definition ChannelManager_DisposeLeave :: "ChangeMsg \<Rightarrow> channel_manager \<Rightarrow> channel_manager" where
  "ChannelManager_DisposeLeave msg m =
     (let attr = role_attr msg; role = RoleWriter attr (timestamp msg)
      in if role_type msg = ROLE_WRITER
         then m\<lparr> node_writers := mv_Remove_role (node_id attr) role (node_writers m),
           channel_writers := mv_Remove_role (channel_id attr) role (channel_writers m),
           node_graph := Graph_Delete \<lparr> e_src = node_name attr, e_dst = [], e_value = channel_name attr \<rparr> (node_graph m) \<rparr>
         else m\<lparr> node_readers := mv_Remove_role (node_id attr) role (node_readers m),
           channel_readers := mv_Remove_role (channel_id attr) role (channel_readers m),
           node_graph := Graph_Delete \<lparr> e_src = [], e_dst = node_name attr, e_value = channel_name attr \<rparr> (node_graph m) \<rparr>)"

definition ChannelManager_Dispose :: "ChangeMsg \<Rightarrow> channel_manager \<Rightarrow> channel_manager" where
  "ChannelManager_Dispose msg m =
     Manager_Notify msg (if operate_type msg = OPT_JOIN then ChannelManager_DisposeJoin msg m
       else ChannelManager_DisposeLeave msg m)"

definition ChannelManager_Join where "ChannelManager_Join = Manager_Join ChannelManager_Check ChannelManager_Dispose"
definition ChannelManager_Leave where "ChannelManager_Leave = Manager_Leave ChannelManager_Check ChannelManager_Dispose"
definition ChannelManager_OnRemoteChange where
  "ChannelManager_OnRemoteChange = OnRemoteChange ChannelManager_Check ChannelManager_Dispose"

definition ChannelManager_OnTopoModuleLeave ::
  "(nat \<Rightarrow> u64) \<Rightarrow> RoleAttributes \<Rightarrow> bytes \<Rightarrow> i32 \<Rightarrow> channel_manager \<Rightarrow> channel_manager" where
  "ChannelManager_OnTopoModuleLeave now junk host pid m =
     (if \<not> is_discovery_started m then m
      else
        (let attr = junk\<lparr> host_name := host, process_id := pid \<rparr>;
             writers_to_remove = mv_Search_attr attr (channel_writers m);
             readers_to_remove = mv_Search_attr attr (channel_readers m)
         in fold (\<lambda>(i, rt, r) m1.
                let msg = Manager_Convert (now i) (attributes r) rt OPT_LEAVE m1
                in Manager_Notify msg (ChannelManager_DisposeLeave msg m1))
              (List.enumerate 0 (map (Pair ROLE_WRITER) writers_to_remove @ map (Pair ROLE_READER) readers_to_remove)) m))"

subsection \<open>Queries\<close>

definition GetWritersOfChannel ::
  "(bytes \<Rightarrow> u64) \<Rightarrow> bytes \<Rightarrow> channel_manager \<Rightarrow> u8 name_registers \<Rightarrow> (RoleAttributes list \<times> u8 name_registers) option" where
  "GetWritersOfChannel Hash channel m g =
     map_option (\<lambda>(key, g1). (mv_Search_key_attrs key (channel_writers m), g1)) (RegisterChannel Hash channel g)"

definition GetReadersOfChannel ::
  "(bytes \<Rightarrow> u64) \<Rightarrow> bytes \<Rightarrow> channel_manager \<Rightarrow> u8 name_registers \<Rightarrow> (RoleAttributes list \<times> u8 name_registers) option" where
  "GetReadersOfChannel Hash channel m g =
     map_option (\<lambda>(key, g1). (mv_Search_key_attrs key (channel_readers m), g1)) (RegisterChannel Hash channel g)"

definition GetWritersOfNode ::
  "(bytes \<Rightarrow> u64) \<Rightarrow> bytes \<Rightarrow> channel_manager \<Rightarrow> u8 name_registers \<Rightarrow> (RoleAttributes list \<times> u8 name_registers) option" where
  "GetWritersOfNode Hash node_nm m g =
     map_option (\<lambda>(key, g1). (mv_Search_key_attrs key (node_writers m), g1)) (RegisterNode Hash node_nm g)"

definition GetReadersOfNode ::
  "(bytes \<Rightarrow> u64) \<Rightarrow> bytes \<Rightarrow> channel_manager \<Rightarrow> u8 name_registers \<Rightarrow> (RoleAttributes list \<times> u8 name_registers) option" where
  "GetReadersOfNode Hash node_nm m g =
     map_option (\<lambda>(key, g1). (mv_Search_key_attrs key (node_readers m), g1)) (RegisterNode Hash node_nm g)"

text \<open>A loop of queries that append to one vector.\<close>

fun collect :: "('k \<Rightarrow> 'g \<Rightarrow> ('a list \<times> 'g) option) \<Rightarrow> 'k list \<Rightarrow> 'g \<Rightarrow> ('a list \<times> 'g) option" where
  "collect f [] g = Some ([], g)"
| "collect f (k # ks) g =
     (case f k g of None \<Rightarrow> None
      | Some (xs, g1) \<Rightarrow> (case collect f ks g1 of None \<Rightarrow> None | Some (ys, g2) \<Rightarrow> Some (xs @ ys, g2)))"

definition node_attr :: "RoleAttributes \<Rightarrow> RoleAttributes \<Rightarrow> RoleAttributes" where
  "node_attr junk a = junk\<lparr> host_name := host_name a, process_id := process_id a,
     node_name := node_name a, node_id := node_id a \<rparr>"

text \<open>The map of nodes by name: a later role replaces an earlier one.\<close>

definition by_node_name :: "RoleAttributes \<Rightarrow> RoleAttributes list \<Rightarrow> RoleAttributes list" where
  "by_node_name junk rs = map snd (fold (\<lambda>a. AList.update (node_name a) (node_attr junk a)) rs [])"

definition GetUpstreamOfNode ::
  "(bytes \<Rightarrow> u64) \<Rightarrow> RoleAttributes \<Rightarrow> bytes \<Rightarrow> channel_manager \<Rightarrow> u8 name_registers
    \<Rightarrow> (RoleAttributes list \<times> u8 name_registers) option" where
  "GetUpstreamOfNode Hash junk node_nm m g =
     (case GetReadersOfNode Hash node_nm m g of
        None \<Rightarrow> None
      | Some (readers, g1) \<Rightarrow>
          if readers = [] then Some ([], g1)
          else
            (case collect (\<lambda>c. GetWritersOfChannel Hash c m) (remdups (map channel_name readers)) g1 of
               None \<Rightarrow> None
             | Some (writers, g2) \<Rightarrow> Some (by_node_name junk writers, g2)))"

text \<open>The code asks for the readers of the node, not for its writers.\<close>

definition GetDownStreamOfnode ::
  "(bytes \<Rightarrow> u64) \<Rightarrow> RoleAttributes \<Rightarrow> bytes \<Rightarrow> channel_manager \<Rightarrow> u8 name_registers
    \<Rightarrow> (RoleAttributes list \<times> u8 name_registers) option" where
  "GetDownStreamOfnode Hash junk node_nm m g =
     (case GetReadersOfNode Hash node_nm m g of
        None \<Rightarrow> None
      | Some (writers, g1) \<Rightarrow>
          if writers = [] then Some ([], g1)
          else
            (case collect (\<lambda>c. GetReadersOfChannel Hash c m) (remdups (map channel_name writers)) g1 of
               None \<Rightarrow> None
             | Some (readers, g2) \<Rightarrow> Some (by_node_name junk readers, g2)))"

definition GetFlowDirection :: "bytes \<Rightarrow> bytes \<Rightarrow> channel_manager \<Rightarrow> FlowDirection" where
  "GetFlowDirection lhs_node_name rhs_node_name m = GetDirectionOf (node_graph m) lhs_node_name rhs_node_name"

definition GetChannelNames :: "channel_manager \<Rightarrow> bytes list" where
  "GetChannelNames m = remdups (map channel_name (mv_GetAllRoles (channel_writers m) @ mv_GetAllRoles (channel_readers m)))"

definition GetMsgType ::
  "(bytes \<Rightarrow> u64) \<Rightarrow> bytes \<Rightarrow> bytes \<Rightarrow> channel_manager \<Rightarrow> u8 name_registers \<Rightarrow> (bytes \<times> u8 name_registers) option" where
  "GetMsgType Hash channel msg_type m g =
     map_option (\<lambda>(key, g1).
         (case mv_Search_first key (channel_writers m) of
            None \<Rightarrow> msg_type
          | Some w \<Rightarrow> if message_type (attributes w) \<noteq> [] then message_type (attributes w) else msg_type, g1))
       (RegisterChannel Hash channel g)"

definition HasWriter ::
  "(bytes \<Rightarrow> u64) \<Rightarrow> bytes \<Rightarrow> channel_manager \<Rightarrow> u8 name_registers \<Rightarrow> (bool \<times> u8 name_registers) option" where
  "HasWriter Hash channel m g =
     map_option (\<lambda>(key, g1). (mv_Search_first key (channel_writers m) \<noteq> None, g1)) (RegisterChannel Hash channel g)"

definition HasReader ::
  "(bytes \<Rightarrow> u64) \<Rightarrow> bytes \<Rightarrow> channel_manager \<Rightarrow> u8 name_registers \<Rightarrow> (bool \<times> u8 name_registers) option" where
  "HasReader Hash channel m g =
     map_option (\<lambda>(key, g1). (mv_Search_first key (channel_readers m) \<noteq> None, g1)) (RegisterChannel Hash channel g)"

definition GetWriters :: "channel_manager \<Rightarrow> RoleAttributes list" where
  "GetWriters m = mv_GetAllRoles (channel_writers m)"

definition GetReaders :: "channel_manager \<Rightarrow> RoleAttributes list" where
  "GetReaders m = mv_GetAllRoles (channel_readers m)"

section \<open>The wire\<close>

definition attr_strings :: "RoleAttributes \<Rightarrow> nat" where
  "attr_strings a = length (host_name a) + length (host_ip a) + length (channel_name a) + length (node_name a) +
     length (message_type a)"

lemma length_enc_change: "length (enc_change msg) = 119 + attr_strings (role_attr msg)"
  by (simp add: enc_change_def enc_role_def enc_qos_def enc_word_def enc_string_def attr_strings_def)

text \<open>A message that fits: its enumerators are proper and its strings are shorter than \<open>2^20\<close> in total.\<close>

definition attr_ok :: "RoleAttributes \<Rightarrow> bool" where
  "attr_ok a \<longleftrightarrow> attr_strings a < 2 ^ 20 \<and> ok_qos (qos_profile a)"

definition msg_ok :: "ChangeMsg \<Rightarrow> bool" where
  "msg_ok msg \<longleftrightarrow> proper change_code change_of (change_type msg) \<and>
     proper operate_code operate_of (operate_type msg) \<and> proper role_code role_of (role_type msg) \<and>
     attr_ok (role_attr msg)"

lemma msg_ok_change: "msg_ok msg \<Longrightarrow> ok_change msg"
  by (auto simp: msg_ok_def attr_ok_def ok_change_def ok_role_def attr_strings_def)

lemma wire_write:
  assumes "msg_ok msg"
  obtains ds where "ChangeMsg_serialize msg (ds_construct bo) = Some ds" "m_buf ds = enc_change msg"
proof -
  have "length (enc_change msg) \<le> max_stream"
    using assms by (simp add: length_enc_change msg_ok_def attr_ok_def max_stream_def)
  then show thesis
    using emitsD(1) [OF change_codec.writes [OF msg_ok_change [OF assms]], of "ds_construct bo"] that
    by (auto simp: ds_construct_def appended_def)
qed

lemma wire_read:
  assumes "msg_ok msg"
  obtains ds ds' where "ds_of_bytes bo (enc_change msg) = Some ds" "ChangeMsg_unserialize junk ds = Some (True, msg, ds')"
proof -
  have len: "length (enc_change msg) \<le> max_stream"
    using assms by (simp add: length_enc_change msg_ok_def attr_ok_def max_stream_def)
  then obtain ds where ds: "ds_of_bytes bo (enc_change msg) = Some ds" "m_buf ds = enc_change msg" "m_pos ds = 0"
    by (auto simp: ds_of_bytes_def reserve_def write_raw_def ds_construct_def)
  then show thesis
    using consumesD [OF change_codec.reads [OF msg_ok_change [OF assms]], of ds "[]" junk] that by simp
qed

text \<open>A message is \<open>119\<close> bytes and its strings, so with more than 136 bytes of
  host name, host address, channel name, node name and message type together the copy goes beyond
  the payload that was asked for.\<close>

theorem write_overruns_payload:
  assumes "msg_ok msg" "is_discovery_started m" "writer_up m"
  shows "Manager_Write msg m = None \<longleftrightarrow> attr_strings (role_attr msg) > 136"
proof -
  obtain ds where "ChangeMsg_serialize msg (ds_construct (mgr_order m)) = Some ds" "m_buf ds = enc_change msg"
    using wire_write [OF assms(1)] by blast
  then show ?thesis
    using assms(2,3) by (simp add: Manager_Write_def requested_payload_def length_enc_change Let_def case_prod_unfold)
qed

text \<open>The history refuses a change at most until older ones are removed.\<close>

definition makes_room :: "(history_call list \<Rightarrow> bytes \<Rightarrow> bool) \<Rightarrow> bool" where
  "makes_room accepts \<longleftrightarrow> (\<forall>calls bs. accepts calls bs \<or> accepts (calls @ [AddChange bs False, RemoveOlderChanges 20]) bs)"

lemma write_sends:
  assumes "msg_ok msg" "is_discovery_started m" "writer_up m" "attr_strings (role_attr msg) \<le> 136" "makes_room (rtps_accepts m)"
  shows "\<exists>calls. Manager_Write msg m = Some (True, m\<lparr> rtps_calls := calls \<rparr>) \<and>
    sent (m\<lparr> rtps_calls := calls \<rparr>) = sent m @ [enc_change msg]"
proof -
  obtain ds where ds: "ChangeMsg_serialize msg (ds_construct (mgr_order m)) = Some ds" "m_buf ds = enc_change msg"
    using wire_write [OF assms(1)] by blast
  have short: "length (enc_change msg) \<le> requested_payload"
    using assms(4) by (simp add: requested_payload_def length_enc_change)
  have room: "rtps_accepts m (rtps_calls m) (enc_change msg) \<or>
      rtps_accepts m (rtps_calls m @ [AddChange (enc_change msg) False, RemoveOlderChanges 20]) (enc_change msg)"
    using assms(5) by (simp add: makes_room_def)
  show ?thesis
  proof (cases "rtps_accepts m (rtps_calls m) (enc_change msg)")
    case True
    then show ?thesis using ds short assms(2,3)
      by (intro exI [of _ "rtps_calls m @ [AddChange (enc_change msg) True]"])
        (simp add: Manager_Write_def history_add_def sent_def)
  next
    case False
    then show ?thesis using ds short assms(2,3) room
      by (intro exI [of _ "rtps_calls m @ [AddChange (enc_change msg) False, RemoveOlderChanges 20, AddChange (enc_change msg) True]"])
        (simp add: Manager_Write_def history_add_def sent_def)
  qed
qed

definition demo_attr :: RoleAttributes where
  "demo_attr = \<lparr> host_name = [], host_ip = [], process_id = 0, channel_name = [99], channel_id = 3,
     qos_profile = QosProfile_default, role_id = 5, node_name = [110], node_id = 9, message_type = [] \<rparr>"

definition demo_manager :: "bytes \<Rightarrow> i32 \<Rightarrow> channel_manager" where
  "demo_manager host pid = snd (StartDiscovery True True True (ChannelManager_construct host pid BigEndian))"

lemma demo_attr_ok: "length s < 1000 \<Longrightarrow> attr_ok (demo_attr\<lparr> message_type := s \<rparr>)"
  by (simp add: attr_ok_def attr_strings_def demo_attr_def ok_qos_def QosProfile_default_def)

lemma demo_manager_simps [simp]:
  "is_discovery_started (demo_manager host pid)" "writer_up (demo_manager host pid)" "\<not> is_shutdown (demo_manager host pid)"
  "mgr_host_name (demo_manager host pid) = host" "mgr_process_id (demo_manager host pid) = pid"
  "rtps_calls (demo_manager host pid) = []" "mgr_change_type (demo_manager host pid) = CHANGE_CHANNEL"
  by (simp_all add: demo_manager_def StartDiscovery_def ChannelManager_construct_def)

lemma write_overruns_payload_witness:
  "Manager_Write (Manager_Convert 7 (demo_attr\<lparr> message_type := replicate 140 0 \<rparr>) ROLE_WRITER OPT_JOIN (demo_manager [104] 1))
     (demo_manager [104] 1) = None"
proof -
  let ?msg = "Manager_Convert 7 (demo_attr\<lparr> message_type := replicate 140 0 \<rparr>) ROLE_WRITER OPT_JOIN (demo_manager [104] 1)"
  have "msg_ok ?msg"
    using demo_attr_ok [of "replicate 140 0"]
    by (simp add: msg_ok_def attr_ok_def attr_strings_def Manager_Convert_def demo_attr_def)
  from write_overruns_payload [OF this, of "demo_manager [104] 1"] show ?thesis
    by (simp add: Manager_Convert_def demo_attr_def attr_strings_def)
qed

section \<open>Replication\<close>

text \<open>The part of a channel manager that describes the topology.\<close>

definition topo :: "channel_manager \<Rightarrow> graph \<times> role_map \<times> role_map \<times> role_map \<times> role_map" where
  "topo m = (node_graph m, node_writers m, node_readers m, channel_writers m, channel_readers m)"

definition base_eq :: "channel_manager \<Rightarrow> channel_manager \<Rightarrow> bool" where
  "base_eq m m' \<longleftrightarrow> is_shutdown m' = is_shutdown m \<and> is_discovery_started m' = is_discovery_started m \<and>
     allowed_role m' = allowed_role m \<and> mgr_change_type m' = mgr_change_type m \<and> mgr_host_name m' = mgr_host_name m \<and>
     mgr_process_id m' = mgr_process_id m \<and> mgr_order m' = mgr_order m \<and> writer_up m' = writer_up m \<and> rtps_accepts m' = rtps_accepts m \<and> rtps_calls m' = rtps_calls m"

lemma Dispose_base: "base_eq m (ChannelManager_Dispose msg m)"
  by (simp add: base_eq_def ChannelManager_Dispose_def Manager_Notify_def ChannelManager_DisposeJoin_def
      ChannelManager_DisposeLeave_def Let_def)

lemma Dispose_topo: "topo m = topo m' \<Longrightarrow> topo (ChannelManager_Dispose msg m) = topo (ChannelManager_Dispose msg m')"
  by (simp add: topo_def ChannelManager_Dispose_def Manager_Notify_def ChannelManager_DisposeJoin_def
      ChannelManager_DisposeLeave_def Let_def)

datatype local_change = LJoin u64 RoleAttributes RoleType | LLeave u64 RoleAttributes RoleType

fun local_apply :: "local_change \<Rightarrow> channel_manager \<Rightarrow> (bool \<times> channel_manager) option" where
  "local_apply (LJoin now attr role) m = ChannelManager_Join now attr role True m"
| "local_apply (LLeave now attr role) m = ChannelManager_Leave now attr role m"

fun local_run :: "local_change list \<Rightarrow> channel_manager \<Rightarrow> channel_manager option" where
  "local_run [] m = Some m"
| "local_run (c # cs) m = (case local_apply c m of None \<Rightarrow> None | Some (r, m1) \<Rightarrow> local_run cs m1)"

fun remote_run :: "ChangeMsg \<Rightarrow> bytes list \<Rightarrow> channel_manager \<Rightarrow> channel_manager option" where
  "remote_run junk [] m = Some m"
| "remote_run junk (b # bs) m =
     (case ChannelManager_OnRemoteChange junk b m of None \<Rightarrow> None | Some m1 \<Rightarrow> remote_run junk bs m1)"

fun change_attr :: "local_change \<Rightarrow> RoleAttributes" where
  "change_attr (LJoin now attr role) = attr"
| "change_attr (LLeave now attr role) = attr"

fun change_role :: "local_change \<Rightarrow> RoleType" where
  "change_role (LJoin now attr role) = role"
| "change_role (LLeave now attr role) = role"

fun change_now :: "local_change \<Rightarrow> u64" where
  "change_now (LJoin now attr role) = now"
| "change_now (LLeave now attr role) = now"

fun change_opt :: "local_change \<Rightarrow> OperateType" where
  "change_opt (LJoin now attr role) = OPT_JOIN"
| "change_opt (LLeave now attr role) = OPT_LEAVE"

lemma local_apply_eq:
  "local_apply c m =
     (if is_shutdown m \<or> role_bit (change_role c) AND allowed_role m = 0 \<or> \<not> ChannelManager_Check (change_attr c)
      then Some (False, m)
      else Manager_Write (Manager_Convert (change_now c) (change_attr c) (change_role c) (change_opt c) m)
        (ChannelManager_Dispose (Manager_Convert (change_now c) (change_attr c) (change_role c) (change_opt c) m) m))"
  by (cases c) (simp_all add: ChannelManager_Join_def ChannelManager_Leave_def Manager_Join_def Manager_Leave_def
      NeedPublish_def Let_def)

text \<open>A change of a writer or reader of the process itself whose message fits the payload.\<close>

definition own_change :: "bytes \<Rightarrow> i32 \<Rightarrow> local_change \<Rightarrow> bool" where
  "own_change host pid c \<longleftrightarrow> change_role c \<in> {ROLE_WRITER, ROLE_READER} \<and>
     host_name (change_attr c) \<in> {[], host} \<and> process_id (change_attr c) \<in> {0, pid} \<and>
     attr_ok ((change_attr c)\<lparr> host_name := host \<rparr>) \<and> attr_strings ((change_attr c)\<lparr> host_name := host \<rparr>) \<le> 136"

text \<open>One local change: what it sends disposes, at another process, of the same message.\<close>

lemma local_step:
  assumes "is_discovery_started A" "writer_up A" "\<not> is_shutdown A" "own_change (mgr_host_name A) (mgr_process_id A) c"
    and "mgr_change_type A = CHANGE_CHANNEL" "makes_room (rtps_accepts A)"
    and "\<not> is_shutdown B" "(mgr_host_name A, mgr_process_id A) \<noteq> (mgr_host_name B, mgr_process_id B)" "topo A = topo B"
  obtains r ws A' B' where "local_apply c A = Some (r, A')" "sent A' = sent A @ ws"
    "base_eq (A\<lparr> rtps_calls := rtps_calls A' \<rparr>) A'" "remote_run junk ws B = Some B'" "base_eq B B'" "topo A' = topo B'"
proof -
  let ?attr = "change_attr c" and ?role = "change_role c"
  show thesis
  proof (cases "role_bit ?role AND allowed_role A = 0 \<or> \<not> ChannelManager_Check ?attr")
    case True
    then have "local_apply c A = Some (False, A)" by (simp add: local_apply_eq)
    then show thesis using that [of False A "[]" B] assms(9) by (simp add: base_eq_def)
  next
    case False
    let ?msg = "Manager_Convert (change_now c) ?attr ?role (change_opt c) A"
    let ?A1 = "ChannelManager_Dispose ?msg A"
    have host: "host_name (role_attr ?msg) = mgr_host_name A" "process_id (role_attr ?msg) = mgr_process_id A"
      using assms(4) by (auto simp: Manager_Convert_def own_change_def)
    then have ra: "role_attr ?msg = ?attr\<lparr> host_name := mgr_host_name A, process_id := mgr_process_id A \<rparr>"
      by (simp add: Manager_Convert_def)
    have ok: "msg_ok ?msg"
      using assms(4,5) unfolding msg_ok_def ra
      by (cases c) (auto simp: Manager_Convert_def own_change_def attr_ok_def attr_strings_def)
    have chk: "ChannelManager_Check (role_attr ?msg)" using False unfolding ra by (auto simp: ChannelManager_Check_def split: if_splits)
    have "local_apply c A = Manager_Write ?msg ?A1"
      using assms(3) False by (simp add: local_apply_eq)
    moreover have b: "base_eq A ?A1" by (rule Dispose_base)
    moreover have "attr_strings (role_attr ?msg) \<le> 136" using assms(4) unfolding ra by (simp add: own_change_def attr_strings_def)
    ultimately obtain calls where l: "local_apply c A = Some (True, ?A1\<lparr> rtps_calls := calls \<rparr>)"
        and snt: "sent (?A1\<lparr> rtps_calls := calls \<rparr>) = sent A @ [enc_change ?msg]"
      using write_sends [OF ok, of ?A1] assms(1,2,6) by (auto simp: base_eq_def sent_def)
    obtain ds ds' where rd: "ds_of_bytes (mgr_order B) (enc_change ?msg) = Some ds"
      "ChangeMsg_unserialize junk ds = Some (True, ?msg, ds')"
      using wire_read [OF ok] by blast
    have "\<not> IsFromSameProcess ?msg B" using assms(8) host by (auto simp: IsFromSameProcess_def)
    then have "remote_run junk [enc_change ?msg] B = Some (ChannelManager_Dispose ?msg B)"
      using assms(7) rd chk by (simp add: ChannelManager_OnRemoteChange_def OnRemoteChange_def)
    moreover have "topo (?A1\<lparr> rtps_calls := calls \<rparr>) = topo ?A1" by (simp add: topo_def)
    moreover have "base_eq (A\<lparr> rtps_calls := rtps_calls (?A1\<lparr> rtps_calls := calls \<rparr>) \<rparr>) (?A1\<lparr> rtps_calls := calls \<rparr>)"
      using b by (simp add: base_eq_def)
    ultimately show thesis
      using that [OF l snt] Dispose_base [of B ?msg] Dispose_topo [OF assms(9), of ?msg] by simp
  qed
qed

lemma remote_run_append:
  "remote_run junk (xs @ ys) m = (case remote_run junk xs m of None \<Rightarrow> None | Some m1 \<Rightarrow> remote_run junk ys m1)"
  by (induction xs arbitrary: m) (auto split: option.split)

lemma local_run_replicates:
  assumes "is_discovery_started A" "writer_up A" "\<not> is_shutdown A" "mgr_change_type A = CHANGE_CHANNEL" "makes_room (rtps_accepts A)"
    and "\<forall>c \<in> set cs. own_change (mgr_host_name A) (mgr_process_id A) c"
    and "\<not> is_shutdown B" "(mgr_host_name A, mgr_process_id A) \<noteq> (mgr_host_name B, mgr_process_id B)" "topo A = topo B"
  shows "\<exists>ws A' B'. local_run cs A = Some A' \<and> sent A' = sent A @ ws \<and> remote_run junk ws B = Some B' \<and> topo A' = topo B'"
  using assms
proof (induction cs arbitrary: A B)
  case Nil
  then show ?case by (intro exI [of _ "[]"]) simp
next
  case (Cons c cs)
  have "own_change (mgr_host_name A) (mgr_process_id A) c" using Cons.prems(6) by simp
  from local_step [OF Cons.prems(1-3) this Cons.prems(4,5,7-9), of junk] obtain r ws A1 B1 where
    s: "local_apply c A = Some (r, A1)" "sent A1 = sent A @ ws" "base_eq (A\<lparr> rtps_calls := rtps_calls A1 \<rparr>) A1"
      "remote_run junk ws B = Some B1" "base_eq B B1" "topo A1 = topo B1" by metis
  have "\<exists>ws' A' B'. local_run cs A1 = Some A' \<and> sent A' = sent A1 @ ws' \<and> remote_run junk ws' B1 = Some B' \<and> topo A' = topo B'"
    using Cons.prems s(3,5,6) by (intro Cons.IH) (auto simp: base_eq_def)
  then show ?case using s by (auto simp: remote_run_append)
qed

text \<open>C7: Of two processes whose channel managers start without any writer or reader: whatever
  writers and readers of the first join and leave, the second, when it receives, in
  order, the bytes that the first one's history accepted, ends with the same topology: the same graph and the same
  writers and readers by node and by channel.  Each message fits the 255 bytes that are asked for (a
  longer one is not defined: lemma \<open>write_overruns_payload\<close>), and the history accepts every change at
  the latest when older ones were removed (\<open>makes_room\<close>; otherwise the change is lost).  What the
  receiver's message object held before does not matter.\<close>

theorem discovery_replicates:
  assumes "A = (snd (StartDiscovery True True True (ChannelManager_construct host pid bo)))\<lparr> rtps_accepts := accepts \<rparr>"
    and "B = ChannelManager_construct host' pid' bo'" "(host, pid) \<noteq> (host', pid')"
    and "\<forall>c \<in> set cs. own_change host pid c" "makes_room accepts"
  shows "\<exists>A' B'. local_run cs A = Some A' \<and> remote_run junk (sent A') B = Some B' \<and> topo B' = topo A'"
proof -
  have "topo A = topo B" using assms(1,2) by (simp add: topo_def StartDiscovery_def ChannelManager_construct_def)
  moreover have "is_discovery_started A" "writer_up A" "\<not> is_shutdown A" "mgr_change_type A = CHANGE_CHANNEL" "sent A = []"
    "mgr_host_name A = host" "mgr_process_id A = pid" "mgr_host_name B = host'" "mgr_process_id B = pid'" "\<not> is_shutdown B"
    "rtps_accepts A = accepts"
    using assms(1,2) by (simp_all add: StartDiscovery_def ChannelManager_construct_def sent_def)
  ultimately show ?thesis
    using local_run_replicates [of A cs B junk] assms(3-5) by auto
qed

text \<open>A history of depth two, which refuses the third change until older ones are removed.\<close>

definition demo_history :: "history_call list \<Rightarrow> bytes \<Rightarrow> bool" where
  "demo_history calls bs \<longleftrightarrow> length calls \<le> 1 \<or> last calls = RemoveOlderChanges 20"

lemma discovery_replicates_witness:
  "\<exists>A' B'. local_run [LJoin 7 demo_attr ROLE_WRITER, LJoin 8 (demo_attr\<lparr> node_name := [111], node_id := 10 \<rparr>) ROLE_READER,
      LLeave 9 demo_attr ROLE_WRITER] ((demo_manager [104] 1)\<lparr> rtps_accepts := demo_history \<rparr>) = Some A' \<and>
    remote_run demo_change (sent A') (ChannelManager_construct [104] 2 LittleEndian) = Some B' \<and> topo B' = topo A'"
  unfolding demo_manager_def
  by (rule discovery_replicates [OF refl refl])
    (auto simp: own_change_def demo_attr_def attr_ok_def attr_strings_def ok_qos_def QosProfile_default_def
      makes_room_def demo_history_def)

section \<open>Nodes\<close>

definition node_joins :: "u64 \<Rightarrow> ChangeMsg list \<Rightarrow> ChangeMsg list" where
  "node_joins k ms = filter (\<lambda>m. node_id (role_attr m) = k) ms"

lemma NodeManager_Dispose_join:
  assumes "operate_type msg = OPT_JOIN"
  shows "map_of (nodes (NodeManager_Dispose msg m)) k =
    (if k \<noteq> node_id (role_attr msg) then map_of (nodes m) k
     else (case map_of (nodes m) k of
             None \<Rightarrow> Some (RoleNode (role_attr msg) (timestamp msg))
           | Some old \<Rightarrow> if timestamp msg < timestamp_ns old then Some (RoleNode (role_attr msg) (timestamp msg)) else Some old))"
  using assms
  by (auto simp: NodeManager_Dispose_def NodeManager_DisposeJoin_def Manager_Notify_def Let_def sv_Add_def
      sv_Search_first_def IsEarlierThan_def update_conv split: option.split)

lemma earliest_node:
  fixes host pid bo
  defines "n \<equiv> \<lambda>ms. fold NodeManager_Dispose ms (NodeManager_construct host pid bo)"
  assumes "\<forall>m \<in> set ms. operate_type m = OPT_JOIN"
  shows "if node_joins k ms = [] then map_of (nodes (n ms)) k = None
    else \<exists>m \<in> set (node_joins k ms). map_of (nodes (n ms)) k = Some (RoleNode (role_attr m) (timestamp m)) \<and>
      (\<forall>m' \<in> set (node_joins k ms). timestamp m \<le> timestamp m')"
  using assms(2)
proof (induction ms rule: rev_induct)
  case Nil
  then show ?case by (simp add: node_joins_def NodeManager_construct_def n_def)
next
  case (snoc x ms)
  have j: "node_joins k (ms @ [x]) = node_joins k ms @ (if node_id (role_attr x) = k then [x] else [])"
    by (simp add: node_joins_def)
  have d: "map_of (nodes (n (ms @ [x]))) k =
    (if k \<noteq> node_id (role_attr x) then map_of (nodes (n ms)) k
     else (case map_of (nodes (n ms)) k of
             None \<Rightarrow> Some (RoleNode (role_attr x) (timestamp x))
           | Some old \<Rightarrow> if timestamp x < timestamp_ns old then Some (RoleNode (role_attr x) (timestamp x)) else Some old))"
    using NodeManager_Dispose_join [of x "n ms" k] snoc.prems by (simp add: n_def)
  show ?case
  proof (cases "node_joins k ms = []")
    case True
    then have "map_of (nodes (n ms)) k = None" using snoc by simp
    then show ?thesis unfolding j d using True by simp
  next
    case False
    then obtain m where m: "m \<in> set (node_joins k ms)"
      "map_of (nodes (n ms)) k = Some (RoleNode (role_attr m) (timestamp m))"
      "\<forall>m' \<in> set (node_joins k ms). timestamp m \<le> timestamp m'" using snoc by auto
    show ?thesis
    proof (cases "k = node_id (role_attr x) \<and> timestamp x < timestamp m")
      case True
      then have "\<forall>m' \<in> set (node_joins k ms). timestamp x \<le> timestamp m'"
        using m(3) by (meson less_imp_le order.trans)
      then show ?thesis unfolding j d using True m(2) by simp
    next
      case no: False
      have "map_of (nodes (n (ms @ [x]))) k = Some (RoleNode (role_attr m) (timestamp m))"
        unfolding d m(2) using no by simp
      moreover have "\<forall>m' \<in> set (node_joins k (ms @ [x])). timestamp m \<le> timestamp m'"
        unfolding j using m(3) no by auto
      moreover have "m \<in> set (node_joins k (ms @ [x]))" unfolding j using m(1) by simp
      ultimately show ?thesis using False j by auto
    qed
  qed
qed

lemma leave_removes_node:
  "operate_type l = OPT_LEAVE \<Longrightarrow> node_id (role_attr l) = k \<Longrightarrow> map_of (nodes (NodeManager_Dispose l n)) k = None"
  by (simp add: NodeManager_Dispose_def NodeManager_DisposeLeave_def Manager_Notify_def sv_Remove_key_def delete_conv)

text \<open>C29: Of all nodes that join under one node id the manager keeps the one with the earliest
  timestamp, whatever the order in which the announcements arrive; but a leave announced for that id, by
  whichever of them, removes it.\<close>

theorem node_manager_keeps_earliest:
  assumes "\<forall>m \<in> set ms. operate_type m = OPT_JOIN" "node_joins k ms \<noteq> []"
  shows "\<exists>m \<in> set (node_joins k ms).
    map_of (nodes (fold NodeManager_Dispose ms (NodeManager_construct host pid bo))) k
      = Some (RoleNode (role_attr m) (timestamp m)) \<and>
    (\<forall>m' \<in> set (node_joins k ms). timestamp m \<le> timestamp m') \<and>
    (\<forall>l. operate_type l = OPT_LEAVE \<and> node_id (role_attr l) = k \<longrightarrow>
       map_of (nodes (NodeManager_Dispose l (fold NodeManager_Dispose ms (NodeManager_construct host pid bo)))) k = None)"
  using earliest_node [OF assms(1), of k host pid bo] assms(2) leave_removes_node by auto

lemma node_manager_keeps_earliest_witness:
  "\<exists>a. map_of (nodes (fold NodeManager_Dispose [demo_change\<lparr> timestamp := 5 \<rparr>, demo_change\<lparr> timestamp := 3 \<rparr>, demo_change]
      (NodeManager_construct [104] 1 BigEndian))) 9 = Some (RoleNode a 3)"
proof -
  let ?ms = "[demo_change\<lparr> timestamp := 5 \<rparr>, demo_change\<lparr> timestamp := 3 \<rparr>, demo_change]"
  have j: "node_joins 9 ?ms = ?ms" by (simp add: node_joins_def demo_change_def)
  have "\<forall>m \<in> set ?ms. operate_type m = OPT_JOIN" "node_joins 9 ?ms \<noteq> []"
    unfolding j by (simp_all add: demo_change_def)
  from node_manager_keeps_earliest [OF this, of "[104]" 1 BigEndian] obtain m where
    m: "m \<in> set ?ms" "\<forall>m' \<in> set ?ms. timestamp m \<le> timestamp m'"
    "map_of (nodes (fold NodeManager_Dispose ?ms (NodeManager_construct [104] 1 BigEndian))) 9
       = Some (RoleNode (role_attr m) (timestamp m))" unfolding j by blast
  have "timestamp m = 3" using m(1,2) by (auto simp: demo_change_def word_le_nat_alt)
  with m(3) show ?thesis by metis
qed

section \<open>Departed processes\<close>

text \<open>\<open>sv_keyed\<close>: every node is stored under its own id.\<close>

definition sv_keyed :: "role_map \<Rightarrow> bool" where
  "sv_keyed w \<longleftrightarrow> (\<forall>(k, r) \<in> set w. k = node_id (attributes r))"

lemma fold_Notify_nodes:
  "nodes (fold (\<lambda>(i, n) m2. Manager_Notify (f i n m2) m2) xs m) = nodes m"
  by (induction xs arbitrary: m) (auto simp: Manager_Notify_def)

lemma fold_Remove_key:
  "e \<in> set (fold (\<lambda>n. sv_Remove_key (node_id (attributes n))) rs w) \<longleftrightarrow>
    e \<in> set w \<and> (\<forall>n \<in> set rs. fst e \<noteq> node_id (attributes n))"
  by (induction rs arbitrary: w) (auto simp: sv_Remove_key_def sv_delete_filter)

text \<open>When a process departs, \<open>OnTopoModuleLeave\<close> looks for its nodes with an attribute object whose node
  id was never set, although a role only matches its own node id.  Whatever that memory holds, of two
  nodes of the departed process at least one stays registered.\<close>

theorem departed_nodes_stay:
  assumes "sv_keyed (nodes m)" "(k1, r1) \<in> set (nodes m)" "(k2, r2) \<in> set (nodes m)" "k1 \<noteq> k2"
    and "\<forall>r \<in> {r1, r2}. host_name (attributes r) = host \<and> process_id (attributes r) = pid"
  shows "(k1, r1) \<in> set (nodes (NodeManager_OnTopoModuleLeave now junk host pid m)) \<or>
    (k2, r2) \<in> set (nodes (NodeManager_OnTopoModuleLeave now junk host pid m))"
proof (cases "is_discovery_started m")
  case True
  let ?a = "junk\<lparr> host_name := host, process_id := pid \<rparr>"
  have "node_id (attributes n) = node_id junk" if "n \<in> set (sv_Search_attr ?a (nodes m))" for n
  proof -
    have "Match n ?a" using that by (auto simp: sv_Search_attr_def)
    then show ?thesis using Match_process [of n ?a] by simp
  qed
  moreover have "k1 \<noteq> node_id junk \<or> k2 \<noteq> node_id junk" using assms(4) by auto
  ultimately show ?thesis
    using True assms(2,3)
    by (auto simp: NodeManager_OnTopoModuleLeave_def Let_def fold_Notify_nodes fold_Remove_key)
qed (use assms in \<open>simp add: NodeManager_OnTopoModuleLeave_def\<close>)

lemma departed_nodes_stay_witness:
  "\<exists>m r. process_id (attributes r) = 12 \<and> is_discovery_started m \<and>
     (node_id (attributes r), r) \<in> set (nodes (NodeManager_OnTopoModuleLeave (\<lambda>i. of_nat i) demo_attr [104] 12 m))"
proof -
  let ?r = "\<lambda>k. RoleNode ((role_attr demo_change)\<lparr> node_id := k \<rparr>) 7"
  let ?m = "(NodeManager_construct [104] 1 BigEndian)\<lparr> nodes := [(9, ?r 9), (10, ?r 10)], is_discovery_started := True \<rparr>"
  have "(9, ?r 9) \<in> set (nodes (NodeManager_OnTopoModuleLeave (\<lambda>i. of_nat i) demo_attr [104] 12 ?m)) \<or>
    (10, ?r 10) \<in> set (nodes (NodeManager_OnTopoModuleLeave (\<lambda>i. of_nat i) demo_attr [104] 12 ?m))"
    by (rule departed_nodes_stay) (auto simp: sv_keyed_def NodeManager_construct_def demo_change_def)
  then show ?thesis
  proof
    assume "(9, ?r 9) \<in> set (nodes (NodeManager_OnTopoModuleLeave (\<lambda>i. of_nat i) demo_attr [104] 12 ?m))"
    then show ?thesis by (intro exI [of _ ?m] exI [of _ "?r 9"]) (simp add: demo_change_def)
  next
    assume "(10, ?r 10) \<in> set (nodes (NodeManager_OnTopoModuleLeave (\<lambda>i. of_nat i) demo_attr [104] 12 ?m))"
    then show ?thesis by (intro exI [of _ ?m] exI [of _ "?r 10"]) (simp add: demo_change_def)
  qed
qed

section \<open>Downstream nodes and shared channels\<close>

text \<open>\<open>GetDownStreamOfnode\<close> starts from the readers of the node instead of its writers: it reports no
  downstream node for a node that only writes, although \<open>GetUpstreamOfNode\<close> of a reader of the same
  channel reports that node.\<close>

theorem downstream_of_writer_is_empty:
  assumes "RegisterNode Hash node_nm g = Some (key, g1)" "\<forall>e \<in> set (node_readers m). fst e \<noteq> key"
  shows "GetDownStreamOfnode Hash junk node_nm m g = Some ([], g1)"
proof -
  have "mv_Search_key_attrs key (node_readers m) = []"
    using assms(2) by (auto simp: mv_Search_key_attrs_def filter_empty_conv)
  then show ?thesis by (simp add: GetDownStreamOfnode_def GetReadersOfNode_def assms(1))
qed

definition demo_pair :: channel_manager where
  "demo_pair = (let m = ChannelManager_construct [104] 1 BigEndian;
     m1 = ChannelManager_Dispose (Manager_Convert 7 demo_attr ROLE_WRITER OPT_JOIN m) m
     in ChannelManager_Dispose (Manager_Convert 8 (demo_attr\<lparr> node_name := [111], node_id := 10 \<rparr>) ROLE_READER OPT_JOIN m) m1)"

definition demo_hash :: "bytes \<Rightarrow> u64" where
  "demo_hash s = (if s = [99] then 3 else if s = [110] then 9 else 10)"

lemma downstream_of_writer_is_empty_witness:
  "map_option fst (GetDownStreamOfnode demo_hash demo_attr [110] demo_pair registers_init) = Some [] \<and>
   map_option (map node_name \<circ> fst) (GetUpstreamOfNode demo_hash demo_attr [111] demo_pair registers_init) = Some [[110]]"
proof -
  have k: "map_option fst (RegisterNode demo_hash [110] registers_init) = Some 9" by code_simp
  then obtain g1 where g: "RegisterNode demo_hash [110] registers_init = Some (9, g1)" by auto
  have "map fst (node_readers demo_pair) = [10]" by code_simp
  then have "\<forall>e \<in> set (node_readers demo_pair). fst e \<noteq> 9" by (auto simp: map_eq_Cons_conv)
  from downstream_of_writer_is_empty [OF g this, of demo_attr]
  have "map_option fst (GetDownStreamOfnode demo_hash demo_attr [110] demo_pair registers_init) = Some []" by simp
  moreover have "map_option (map node_name \<circ> fst) (GetUpstreamOfNode demo_hash demo_attr [111] demo_pair registers_init)
      = Some [[110]]" by code_simp
  ultimately show ?thesis by blast
qed

definition demo_two_writers :: channel_manager where
  "demo_two_writers = fold (\<lambda>(attr, role, opt) m. ChannelManager_Dispose (Manager_Convert 7 attr role opt m) m)
     [(demo_attr, ROLE_WRITER, OPT_JOIN), (demo_attr\<lparr> role_id := 6 \<rparr>, ROLE_WRITER, OPT_JOIN),
      (demo_attr\<lparr> node_name := [111], node_id := 10 \<rparr>, ROLE_READER, OPT_JOIN), (demo_attr, ROLE_WRITER, OPT_LEAVE)]
     (ChannelManager_construct [104] 1 BigEndian)"

text \<open>The graph forgets a writer too early: when a node has two writers on a channel and one leaves, the
  channel still has a writer of the node in the stores, but the node is no longer upstream of the
  readers of the channel.\<close>

theorem second_writer_lost_from_graph:
  "map node_name (mv_Search_key_attrs 3 (channel_writers demo_two_writers)) = [[110]] \<and>
   map node_name (mv_Search_key_attrs 3 (channel_readers demo_two_writers)) = [[111]] \<and>
   GetFlowDirection [110] [111] demo_two_writers = UNREACHABLE"
  by code_simp

end
