(* ===== verification/Numerals.thy ===== *)
theory Numerals
  imports Prelude
begin

text \<open>
  The standard library's decimal conversions the sources use on configuration and names:
  \<open>std::to_string\<close> of an integer, \<open>std::stoi\<close> (leading white space, a sign, digits, anything after
  them ignored; \<open>None\<close> for the exceptions \<open>invalid_argument\<close> and \<open>out_of_range\<close>), and the
  splitting of a string by a loop of \<open>getline\<close>.  Strings are lists of bytes, ASCII coded.
\<close>

section \<open>Printing\<close>

fun digits :: "nat \<Rightarrow> u8 list" where
  "digits n = (if n < 10 then [48 + of_nat n] else digits (n div 10) @ [48 + of_nat (n mod 10)])"

declare digits.simps [simp del]

definition to_string :: "int \<Rightarrow> u8 list" where
  "to_string i = (if i < 0 then 45 # digits (nat (- i)) else digits (nat i))"

section \<open>Parsing\<close>

definition is_digit :: "u8 \<Rightarrow> bool" where "is_digit c \<longleftrightarrow> 48 \<le> c \<and> c \<le> 57"

definition is_space :: "u8 \<Rightarrow> bool" where "is_space c \<longleftrightarrow> c \<in> {32, 9, 10, 11, 12, 13}"

definition digits_value :: "u8 list \<Rightarrow> nat" where
  "digits_value ds = fold (\<lambda>c n. n * 10 + unat (c - 48)) ds 0"

definition stoi :: "u8 list \<Rightarrow> int option" where
  "stoi s =
     (let s1 = dropWhile is_space s;
          (neg, s2) = (case s1 of c # cs \<Rightarrow> if c = 45 then (True, cs) else if c = 43 then (False, cs) else (False, s1)
                       | [] \<Rightarrow> (False, s1));
          ds = takeWhile is_digit s2;
          v = (if neg then - int (digits_value ds) else int (digits_value ds))
      in if ds = [] \<or> v < - (2 ^ 31) \<or> v \<ge> 2 ^ 31 then None else Some v)"

function getlines :: "u8 \<Rightarrow> u8 list \<Rightarrow> u8 list list" where
  "getlines d [] = []"
| "getlines d (c # s) =
     (case dropWhile (\<lambda>x. x \<noteq> d) (c # s) of
        [] \<Rightarrow> [c # s]
      | e # rest \<Rightarrow> takeWhile (\<lambda>x. x \<noteq> d) (c # s) # getlines d rest)"
  by pat_completeness auto

termination
proof (relation "measure (\<lambda>(d, s). length s)")
  fix d c :: u8 and s e rest
  assume "dropWhile (\<lambda>x. x \<noteq> d) (c # s) = e # rest"
  then have "Suc (length rest) \<le> length (c # s)" by (metis length_Cons length_dropWhile_le)
  then show "((d, rest), (d, c # s)) \<in> measure (\<lambda>(d, s). length s)" by simp
qed simp

section \<open>Printing and parsing\<close>

lemma digit_code:
  assumes "k < 10" shows "is_digit (48 + of_nat k)" "unat (48 + of_nat k - 48 :: u8) = k"
proof -
  have k: "unat (of_nat k :: u8) = k" using assms by (simp add: unat_of_nat_less)
  then show "unat (48 + of_nat k - 48 :: u8) = k" by simp
  have "unat (48 + of_nat k :: u8) = 48 + k"
    using k assms unat_add_lem [of "48 :: u8" "of_nat k"] by simp
  then show "is_digit (48 + of_nat k)" using assms by (simp add: is_digit_def word_le_nat_alt)
qed

lemma digits_all: "c \<in> set (digits n) \<Longrightarrow> is_digit c"
proof (induction n rule: digits.induct)
  case (1 n)
  then show ?case using digit_code(1) [of n] digit_code(1) [of "n mod 10"]
    by (subst (asm) (2) digits.simps) (auto split: if_splits)
qed

lemma digits_ne [simp]: "digits n \<noteq> []"
  by (subst digits.simps) simp

lemma digits_value_digits: "digits_value (digits n) = n"
proof (induction n rule: digits.induct)
  case (1 n)
  show ?case
  proof (cases "n < 10")
    case True
    then show ?thesis using digit_code(2) by (simp add: digits.simps [of n] digits_value_def)
  next
    case False
    then have "digits_value (digits (n div 10)) = n div 10" using 1 by simp
    then show ?thesis using False digit_code(2) [of "n mod 10"]
      by (simp add: digits.simps [of n] digits_value_def)
  qed
qed

lemma digit_not_space: "is_digit c \<Longrightarrow> \<not> is_space c \<and> c \<noteq> 45 \<and> c \<noteq> 43 \<and> c \<noteq> 44"
  by (auto simp: is_digit_def is_space_def)

lemma takeWhile_digits:
  "ys = [] \<or> \<not> is_digit (hd ys) \<Longrightarrow> takeWhile is_digit (digits n @ ys) = digits n"
  using digits_all [of _ n] by (cases ys) (auto simp: takeWhile_append)

lemma stoi_to_string:
  assumes "- (2 ^ 31) \<le> i" "i < 2 ^ 31" "ys = [] \<or> \<not> is_digit (hd ys)"
  shows "stoi (to_string i @ ys) = Some i"
proof (cases "i < 0")
  case True
  have "\<not> is_space (45 :: u8)" by (simp add: is_space_def)
  then show ?thesis using True assms takeWhile_digits [OF assms(3), of "nat (- i)"]
    by (simp add: stoi_def to_string_def Let_def digits_value_digits)
next
  case False
  obtain c cs where c: "digits (nat i) = c # cs" by (cases "digits (nat i)") simp_all
  have "is_digit c" using digits_all [of c "nat i"] c by simp
  then have "\<not> is_space c" "c \<noteq> 45" "c \<noteq> 43" using digit_not_space by blast+
  then show ?thesis using False assms takeWhile_digits [OF assms(3), of "nat i"] digits_value_digits [of "nat i"]
    by (simp add: stoi_def to_string_def Let_def c)
qed

lemma getlines_one:
  assumes "d \<notin> set x" "x \<noteq> []" shows "getlines d x = [x]"
proof -
  have "dropWhile (\<lambda>c. c \<noteq> d) x = []" using assms(1) by (auto simp: dropWhile_eq_Nil_conv)
  then show ?thesis using assms(2) by (cases x) simp_all
qed

lemma getlines_cons:
  assumes "d \<notin> set x" shows "getlines d (x @ d # ys) = x # getlines d ys"
proof -
  have n: "\<forall>c \<in> set x. c \<noteq> d" using assms by auto
  then have "dropWhile (\<lambda>c. c \<noteq> d) (x @ d # ys) = d # ys" "takeWhile (\<lambda>c. c \<noteq> d) (x @ d # ys) = x"
    by (simp_all add: dropWhile_append2 takeWhile_append2)
  then show ?thesis by (cases "x @ d # ys") simp_all
qed

end
