(* ===== verification/Topology.thy ===== *)
theory Topology
  imports Managers Numerals
begin

text \<open>
  The topology manager: \<open>discovery/topology_manager.cpp\<close>.  It owns the node and the channel manager and
  is told by the RTPS library of the participants that appear and vanish; a participant is named
  after its host and process.  Identifiers of participants are natural numbers; of the library's
  discovery states the three the code names are kept apart.  The managers are \<open>None\<close> after a failed
  \<open>Init\<close>, as the code sets their pointers to null.
\<close>

section \<open>Names of participants\<close>

definition participant_name :: "bytes \<Rightarrow> i32 \<Rightarrow> bytes" where
  "participant_name host pid = host @ [43] @ to_string (sint pid)"

definition ParseParticipantName :: "bytes \<Rightarrow> (bytes \<times> i32) option" where
  "ParseParticipantName name =
     (case dropWhile (\<lambda>c. c \<noteq> 43) name of
        [] \<Rightarrow> None
      | _ # pid_str \<Rightarrow>
          (let host = takeWhile (\<lambda>c. c \<noteq> 43) name
           in case stoi pid_str of None \<Rightarrow> None | Some pid \<Rightarrow> Some (host, word_of_int pid)))"

section \<open>The manager\<close>

datatype DISCOVERY_STATUS = DISCOVERED_PARTICIPANT | REMOVED_PARTICIPANT | DROPPED_PARTICIPANT | OTHER_STATUS

record PartInfo =
  pi_guid :: nat
  pi_status :: DISCOVERY_STATUS
  pi_name :: bytes

record topology =
  tm_init :: bool
  node_mgr :: "node_manager option"
  channel_mgr :: "channel_manager option"
  tm_name :: bytes
  participant_names :: "(nat \<times> bytes) list"
  change_listeners :: "nat list"
  changes :: "(nat \<times> ChangeMsg) list"

definition TopologyManager_fresh :: topology where
  "TopologyManager_fresh = \<lparr> tm_init = False, node_mgr = None, channel_mgr = None, tm_name = [],
     participant_names = [], change_listeners = [], changes = [] \<rparr>"

definition CreateParticipant :: "bytes \<Rightarrow> i32 \<Rightarrow> topology \<Rightarrow> topology" where
  "CreateParticipant host pid t = t\<lparr> tm_name := participant_name host pid \<rparr>"

text \<open>The library: whether it gives a participant, and for each manager a writer and a reader.\<close>

definition InitNodeManager :: "bool \<Rightarrow> bool \<Rightarrow> bool \<Rightarrow> topology \<Rightarrow> bool \<times> topology" where
  "InitNodeManager participant writer_ok reader_ok t =
     (case node_mgr t of
        None \<Rightarrow> (False, t)
      | Some m \<Rightarrow> (case StartDiscovery participant writer_ok reader_ok m of (r, m1) \<Rightarrow> (r, t\<lparr> node_mgr := Some m1 \<rparr>)))"

definition InitChannelManager :: "bool \<Rightarrow> bool \<Rightarrow> bool \<Rightarrow> topology \<Rightarrow> bool \<times> topology" where
  "InitChannelManager participant writer_ok reader_ok t =
     (case channel_mgr t of
        None \<Rightarrow> (False, t)
      | Some m \<Rightarrow> (case StartDiscovery participant writer_ok reader_ok m of (r, m1) \<Rightarrow> (r, t\<lparr> channel_mgr := Some m1 \<rparr>)))"

definition TopologyManager_Init ::
  "bool \<Rightarrow> bool \<times> bool \<Rightarrow> bool \<times> bool \<Rightarrow> bytes \<Rightarrow> i32 \<Rightarrow> ByteOrder \<Rightarrow> topology \<Rightarrow> bool \<times> topology" where
  "TopologyManager_Init participant node_io channel_io host pid bo t =
     (if tm_init t then (True, t)
      else
        (let t1 = t\<lparr> tm_init := True, node_mgr := Some (NodeManager_construct host pid bo),
               channel_mgr := Some (ChannelManager_construct host pid bo) \<rparr>;
             t2 = CreateParticipant host pid t1;
             (r1, t3) = InitNodeManager participant (fst node_io) (snd node_io) t2;
             (r2, t4) = (if r1 then InitChannelManager participant (fst channel_io) (snd channel_io) t3 else (False, t3))
         in if \<not> (r1 \<and> r2)
            then (False, t4\<lparr> node_mgr := None, channel_mgr := None, tm_init := False \<rparr>)
            else (True, t4)))"

definition TopologyManager_Shutdown :: "topology \<Rightarrow> topology" where
  "TopologyManager_Shutdown t =
     (if \<not> tm_init t then t
      else t\<lparr> tm_init := False, node_mgr := map_option Manager_Shutdown (node_mgr t),
        channel_mgr := map_option Manager_Shutdown (channel_mgr t), change_listeners := [] \<rparr>)"

definition tm_AddChangeListener :: "nat \<Rightarrow> topology \<Rightarrow> topology" where
  "tm_AddChangeListener f t = t\<lparr> change_listeners := change_listeners t @ [f] \<rparr>"

definition tm_RemoveChangeListener :: "nat \<Rightarrow> topology \<Rightarrow> topology" where
  "tm_RemoveChangeListener conn t = t\<lparr> change_listeners := filter (\<lambda>l. l \<noteq> conn) (change_listeners t) \<rparr>"

text \<open>\<open>junk\<close> is what the members of the message that the code does not set contain.\<close>

definition tm_Convert :: "u64 \<Rightarrow> ChangeMsg \<Rightarrow> PartInfo \<Rightarrow> topology \<Rightarrow> ChangeMsg option \<times> topology" where
  "tm_Convert now junk info t =
     (let guid = pi_guid info;
          (name, opt_type, t1) =
            (case pi_status info of
               DISCOVERED_PARTICIPANT \<Rightarrow>
                 (pi_name info, OPT_JOIN, t\<lparr> participant_names := AList.update guid (pi_name info) (participant_names t) \<rparr>)
             | OTHER_STATUS \<Rightarrow> ([], OPT_JOIN, t)
             | _ \<Rightarrow>
                 (case map_of (participant_names t) guid of
                    Some n \<Rightarrow> (n, OPT_LEAVE, t\<lparr> participant_names := AList.delete guid (participant_names t) \<rparr>)
                  | None \<Rightarrow> ([], OPT_LEAVE, t)))
      in case ParseParticipantName name of
           None \<Rightarrow> (None, t1)
         | Some (host, pid) \<Rightarrow>
             (Some (junk\<lparr> timestamp := now, change_type := CHANGE_PARTICIPANT, operate_type := opt_type,
                role_type := ROLE_PARTICIPANT,
                role_attr := (role_attr junk)\<lparr> host_name := host, process_id := pid \<rparr> \<rparr>), t1))"

definition tm_signal :: "ChangeMsg \<Rightarrow> topology \<Rightarrow> topology" where
  "tm_signal msg t = t\<lparr> changes := changes t @ map (\<lambda>l. (l, msg)) (change_listeners t) \<rparr>"

definition OnparticipantChange ::
  "u64 \<Rightarrow> (nat \<Rightarrow> u64) \<Rightarrow> (nat \<Rightarrow> u64) \<Rightarrow> ChangeMsg \<Rightarrow> RoleAttributes \<Rightarrow> PartInfo \<Rightarrow> topology \<Rightarrow> topology" where
  "OnparticipantChange now now_n now_c junk junk_attr info t =
     (case tm_Convert now junk info t of
        (None, t1) \<Rightarrow> t1
      | (Some msg, t1) \<Rightarrow>
          if \<not> tm_init t1 then t1
          else
            (let t2 =
               (if operate_type msg = OPT_LEAVE
                then t1\<lparr> node_mgr := map_option (NodeManager_OnTopoModuleLeave now_n junk_attr
                         (host_name (role_attr msg)) (process_id (role_attr msg))) (node_mgr t1),
                       channel_mgr := map_option (ChannelManager_OnTopoModuleLeave now_c junk_attr
                         (host_name (role_attr msg)) (process_id (role_attr msg))) (channel_mgr t1) \<rparr>
                else t1)
             in tm_signal msg t2))"

section \<open>Parsing a printed name\<close>

lemma parse_name:
  "43 \<notin> set host \<Longrightarrow> ParseParticipantName (host @ [43] @ rest) = map_option (\<lambda>p. (host, word_of_int p)) (stoi rest)"
proof -
  assume "43 \<notin> set host"
  then have "\<forall>c \<in> set host. c \<noteq> 43" by auto
  then have "dropWhile (\<lambda>c. c \<noteq> 43) (host @ [43] @ rest) = 43 # rest" "takeWhile (\<lambda>c. c \<noteq> 43) (host @ [43] @ rest) = host"
    by (simp_all add: dropWhile_append2 takeWhile_append2)
  then show ?thesis by (simp add: ParseParticipantName_def Let_def split: option.split)
qed

lemma parse_participant_name:
  "ParseParticipantName (participant_name host pid) = Some (host, pid) \<longleftrightarrow> 43 \<notin> set host"
proof (cases "43 \<in> set host")
  case False
  have "- (2 ^ 31) \<le> sint pid" "sint pid < 2 ^ 31"
    using sint_greater_eq [of pid] sint_less [of pid] by simp_all
  then have "stoi (to_string (sint pid)) = Some (sint pid)" using stoi_to_string [of "sint pid" "[]"] by simp
  then show ?thesis using False parse_name [OF False, of "to_string (sint pid)"]
    by (simp add: participant_name_def)
next
  case True
  then obtain a b where h: "host = a @ 43 # b" "43 \<notin> set a" by (metis split_list_first)
  have "ParseParticipantName (participant_name host pid)
      = map_option (\<lambda>p. (a, word_of_int p)) (stoi (b @ [43] @ to_string (sint pid)))"
    using parse_name [OF h(2), of "b @ [43] @ to_string (sint pid)"] by (simp add: participant_name_def h(1))
  moreover have "a \<noteq> host" using h(1) by simp
  ultimately show ?thesis using True by auto
qed

text \<open>The name a participant is given is parsed back to its host and its process id, for every process id,
  exactly when the host name has no plus sign.\<close>

theorem participant_name_round_trip:
  "ParseParticipantName (participant_name host pid) = Some (host, pid) \<longleftrightarrow> 43 \<notin> set host"
  by (rule parse_participant_name)

section \<open>Arrival and departure\<close>

text \<open>What one notification from the library adds to the messages to the listeners.\<close>

lemma changes_OnparticipantChange:
  "changes (OnparticipantChange now nn nc junk ja info t) = changes t @
     (case fst (tm_Convert now junk info t) of
        None \<Rightarrow> [] | Some msg \<Rightarrow> if tm_init t then map (\<lambda>l. (l, msg)) (change_listeners t) else [])"
  by (auto simp: OnparticipantChange_def tm_Convert_def tm_signal_def Let_def split: prod.splits option.splits
      DISCOVERY_STATUS.splits)

lemma names_OnparticipantChange:
  "participant_names (OnparticipantChange now nn nc junk ja info t) = participant_names (snd (tm_Convert now junk info t))"
  "tm_init (OnparticipantChange now nn nc junk ja info t) = tm_init t"
  "change_listeners (OnparticipantChange now nn nc junk ja info t) = change_listeners t"
  by (auto simp: OnparticipantChange_def tm_Convert_def tm_signal_def Let_def split: prod.splits option.splits
      DISCOVERY_STATUS.splits)


lemma known_other:
  "pi_guid info \<noteq> g \<Longrightarrow>
    map_of (participant_names (OnparticipantChange now nn nc junk ja info t)) g = map_of (participant_names t) g"
  by (auto simp: names_OnparticipantChange tm_Convert_def Let_def update_conv' delete_conv' map_of_eq_None_iff
      split: prod.splits option.splits DISCOVERY_STATUS.splits)

lemma topo_run_facts:
  "map_of (participant_names t) g = v \<Longrightarrow> \<forall>i \<in> set infos. pi_guid i \<noteq> g \<Longrightarrow>
    map_of (participant_names (fold (OnparticipantChange now nn nc junk ja) infos t)) g = v"
  "tm_init (fold (OnparticipantChange now nn nc junk ja) infos t) = tm_init t"
  "change_listeners (fold (OnparticipantChange now nn nc junk ja) infos t) = change_listeners t"
  by (induction infos arbitrary: t) (simp_all add: known_other names_OnparticipantChange(2,3))

text \<open>C31: When a discovered participant vanishes, whatever happened to others meanwhile, every listener of
  the topology is told once that the host and the process of its name left; a second notification of
  its end, or one of a participant never seen, tells them nothing.\<close>

theorem departure_announced_once:
  fixes t :: topology and now now' :: u64 and nn nc :: "nat \<Rightarrow> u64" and junk :: ChangeMsg and ja :: RoleAttributes
  defines "on \<equiv> OnparticipantChange now nn nc junk ja"
  assumes "tm_init t" "43 \<notin> set host" "\<forall>i \<in> set others. pi_guid i \<noteq> g"
    and "s \<in> {REMOVED_PARTICIPANT, DROPPED_PARTICIPANT}" "s' \<in> {REMOVED_PARTICIPANT, DROPPED_PARTICIPANT}"
    and "t1 = fold on others (on \<lparr> pi_guid = g, pi_status = DISCOVERED_PARTICIPANT, pi_name = participant_name host pid \<rparr> t)"
    and "t2 = on \<lparr> pi_guid = g, pi_status = s, pi_name = nm \<rparr> t1"
  shows "(\<exists>msg. changes t2 = changes t1 @ map (\<lambda>l. (l, msg)) (change_listeners t) \<and>
      operate_type msg = OPT_LEAVE \<and> host_name (role_attr msg) = host \<and> process_id (role_attr msg) = pid) \<and>
    changes (on \<lparr> pi_guid = g, pi_status = s', pi_name = nm' \<rparr> t2) = changes t2"
proof -
  let ?d = "\<lparr> pi_guid = g, pi_status = DISCOVERED_PARTICIPANT, pi_name = participant_name host pid \<rparr>"
  let ?t0 = "on ?d t"
  have p: "ParseParticipantName (participant_name host pid) = Some (host, pid)"
    using assms(3) parse_participant_name by blast
  have "map_of (participant_names ?t0) g = Some (participant_name host pid)"
    unfolding on_def names_OnparticipantChange by (simp add: tm_Convert_def Let_def update_conv' p)
  then have k: "map_of (participant_names t1) g = Some (participant_name host pid)" "tm_init t1"
    "change_listeners t1 = change_listeners t"
    using topo_run_facts(1) [OF _ assms(4)] assms(2)
    unfolding assms(7) on_def by (simp_all add: names_OnparticipantChange(2,3) topo_run_facts(2,3))
  have c: "\<exists>msg. fst (tm_Convert now junk \<lparr> pi_guid = g, pi_status = s, pi_name = nm \<rparr> t1) = Some msg \<and>
      operate_type msg = OPT_LEAVE \<and> host_name (role_attr msg) = host \<and> process_id (role_attr msg) = pid"
    using assms(5) by (auto simp: tm_Convert_def Let_def k(1) p)
  have "map_of (participant_names t2) g = None"
    using assms(5) unfolding assms(8) on_def names_OnparticipantChange
    by (auto simp: tm_Convert_def Let_def k(1) p delete_conv')
  moreover have "ParseParticipantName [] = None" by (simp add: ParseParticipantName_def)
  ultimately have n: "fst (tm_Convert now junk \<lparr> pi_guid = g, pi_status = s', pi_name = nm' \<rparr> t2) = None"
    using assms(6) by (auto simp: tm_Convert_def Let_def)
  show ?thesis
  proof
    show "\<exists>msg. changes t2 = changes t1 @ map (\<lambda>l. (l, msg)) (change_listeners t) \<and>
      operate_type msg = OPT_LEAVE \<and> host_name (role_attr msg) = host \<and> process_id (role_attr msg) = pid"
      using c k(2,3) unfolding assms(8) on_def changes_OnparticipantChange by auto
    show "changes (on \<lparr> pi_guid = g, pi_status = s', pi_name = nm' \<rparr> t2) = changes t2"
      unfolding on_def changes_OnparticipantChange n by simp
  qed
qed

text \<open>A started topology with one listener.\<close>

definition demo_topology :: topology where
  "demo_topology = tm_AddChangeListener 4
     (snd (TopologyManager_Init True (True, True) (True, True) [104] 7 BigEndian TopologyManager_fresh))"

lemma departure_announced_once_witness:
  "\<exists>(t1 :: topology) (t2 :: topology) msg. changes t2 = changes t1 @ [(4, msg)] \<and> operate_type msg = OPT_LEAVE \<and>
     host_name (role_attr msg) = [98, 111] \<and> process_id (role_attr msg) = 12 \<and>
     changes (OnparticipantChange 1 (\<lambda>_. 1) (\<lambda>_. 1) demo_change demo_attr
       \<lparr> pi_guid = 3, pi_status = REMOVED_PARTICIPANT, pi_name = [] \<rparr> t2) = changes t2"
proof -
  have d: "tm_init demo_topology" "change_listeners demo_topology = [4]"
    by (simp_all add: demo_topology_def TopologyManager_Init_def TopologyManager_fresh_def CreateParticipant_def
        InitNodeManager_def InitChannelManager_def StartDiscovery_def NodeManager_construct_def
        ChannelManager_construct_def tm_AddChangeListener_def Let_def)
  let ?on = "OnparticipantChange 1 (\<lambda>_. 1) (\<lambda>_. 1) demo_change demo_attr"
  define t1 where "t1 = fold ?on [] (?on \<lparr> pi_guid = 3, pi_status = DISCOVERED_PARTICIPANT,
    pi_name = participant_name [98, 111] 12 \<rparr> demo_topology)"
  define t2 where "t2 = ?on \<lparr> pi_guid = 3, pi_status = DROPPED_PARTICIPANT, pi_name = [] \<rparr> t1"
  have h: "(43 :: u8) \<notin> set [98, 111]" by simp
  have "(\<exists>msg. changes t2 = changes t1 @ map (\<lambda>l. (l, msg)) (change_listeners demo_topology) \<and>
      operate_type msg = OPT_LEAVE \<and> host_name (role_attr msg) = [98, 111] \<and> process_id (role_attr msg) = 12) \<and>
    changes (?on \<lparr> pi_guid = 3, pi_status = REMOVED_PARTICIPANT, pi_name = [] \<rparr> t2) = changes t2"
    by (rule departure_announced_once [OF d(1) h _ _ _ t1_def t2_def]) simp_all
  then obtain msg where "changes t2 = changes t1 @ [(4, msg)]" "operate_type msg = OPT_LEAVE"
    "host_name (role_attr msg) = [98, 111]" "process_id (role_attr msg) = 12"
    "changes (?on \<lparr> pi_guid = 3, pi_status = REMOVED_PARTICIPANT, pi_name = [] \<rparr> t2) = changes t2"
    using d(2) by auto
  then show ?thesis by blast
qed

end
