(* ===== verification/Scheduling.thy ===== *)
theory Scheduling
  imports Croutine GlobalData Numerals "HOL-Library.AList"
begin

text \<open>
  The scheduler: \<open>scheduler/scheduler.cpp\<close>, \<open>scheduler_classic.cpp\<close>, \<open>classic_context.cpp\<close>,
  \<open>processor.cpp\<close>, the parsing of cpu sets in \<open>pin_thread.cpp\<close> and the configuration structures of
  \<open>config/classic_conf.h\<close> and \<open>scheduler_conf.h\<close>.  A coroutine is shared by the register \<open>id_cr_\<close> and a
  queue: a pointer to it is a position in \<open>heap\<close>.  The static tables of \<open>ClassicContext\<close> are functions
  from group names, as their \<open>operator[]\<close> makes missing entries.  One operation runs at a time here; what
  interleaves is the subject of \<open>RoutineWakeup\<close>.  Thread affinities and policies are outside.
\<close>

section \<open>Configuration\<close>

record ClassicTask =
  ct_name :: "u8 list"
  ct_prio :: u32
  ct_group_name :: "u8 list"

record SchedGroup =
  sg_name :: "u8 list"
  sg_processor_num :: u32
  sg_affinity :: "u8 list"
  sg_cpuset :: "u8 list"
  sg_processor_policy :: "u8 list"
  sg_processor_prio :: i32
  sg_tasks :: "ClassicTask list"

record InnerThread =
  it_name :: "u8 list"
  it_cpuset :: "u8 list"
  it_policy :: "u8 list"
  it_prio :: u32

record SchedulerConf =
  sc_policy :: "u8 list"
  sc_routine_num :: u32
  sc_default_proc_num :: u32
  sc_process_level_cpuset :: "u8 list"
  sc_threads :: "InnerThread list"
  sc_classic_groups :: "SchedGroup list"

subsection \<open>Cpu sets\<close>

text \<open>Parsed; an exception of \<open>std::stoi\<close>; the process exits.\<close>

datatype cpuset_result = Cpus "int list" | CpuThrows | CpuExits

definition parse_range :: "u8 list \<Rightarrow> cpuset_result" where
  "parse_range line =
     (case getlines 45 line of
        [r0] \<Rightarrow> (case stoi r0 of None \<Rightarrow> CpuThrows | Some i \<Rightarrow> Cpus [i])
      | [r0, r1] \<Rightarrow>
          (case stoi r0 of
             None \<Rightarrow> CpuThrows
           | Some i \<Rightarrow> (case stoi r1 of None \<Rightarrow> CpuThrows | Some e \<Rightarrow> Cpus [i..e]))
      | _ \<Rightarrow> CpuExits)"

fun parse_lines :: "u8 list list \<Rightarrow> cpuset_result" where
  "parse_lines [] = Cpus []"
| "parse_lines (l # ls) =
     (case parse_range l of
        Cpus xs \<Rightarrow> (case parse_lines ls of Cpus ys \<Rightarrow> Cpus (xs @ ys) | e \<Rightarrow> e)
      | e \<Rightarrow> e)"

definition ParseCpuset :: "u8 list \<Rightarrow> cpuset_result" where
  "ParseCpuset str = parse_lines (getlines 44 str)"

section \<open>State\<close>

definition MAX_PRIO :: u32 where "MAX_PRIO = 20"

text \<open>The bytes of \<open>default_grp\<close>.\<close>

definition DEFAULT_GROUP_NAME :: "u8 list" where
  "DEFAULT_GROUP_NAME = [100, 101, 102, 97, 117, 108, 116, 95, 103, 114, 112]"

text \<open>A context: its group and whether it was shut down; a processor: its context, whether it runs, and its
  snapshot (start of the current execution, name of the coroutine).\<close>

record proc_context =
  cx_group :: "u8 list"
  cx_stop :: bool

record processor =
  pr_context :: nat
  pr_running :: bool
  pr_execute_start_time :: u64
  pr_routine_name :: "u8 list"

record scheduler =
  heap :: "croutine list"
  id_cr :: "(u64 \<times> nat) list"
  cr_group :: "u8 list \<Rightarrow> nat \<Rightarrow> nat list"
  notify_grp :: "u8 list \<Rightarrow> i32"
  cr_confs :: "(u8 list \<times> ClassicTask) list"
  conf_groups :: "SchedGroup list"
  inner_thr_confs :: "(u8 list \<times> InnerThread) list"
  process_level_cpuset :: "u8 list"
  task_pool_size :: u32
  pctxs :: "proc_context list"
  processors :: "processor list"
  sched_stop :: bool
  registers :: "u8 name_registers"
  notify_callbacks :: "(nat \<times> u64) list"

definition routine_at :: "scheduler \<Rightarrow> nat \<Rightarrow> croutine" where "routine_at s p = heap s ! p"

definition set_routine :: "nat \<Rightarrow> croutine \<Rightarrow> scheduler \<Rightarrow> scheduler" where
  "set_routine p r s = s\<lparr> heap := (heap s)[p := r] \<rparr>"

section \<open>The classic context\<close>

definition InitGroup :: "u8 list \<Rightarrow> scheduler \<Rightarrow> scheduler" where
  "InitGroup grp_name s = s\<lparr> notify_grp := (notify_grp s)(grp_name := 0) \<rparr>"

text \<open>The loop over one queue; \<open>now p\<close> is what the clock shows when \<open>p\<close> is looked at.\<close>

fun queue_loop :: "(nat \<Rightarrow> int) \<Rightarrow> nat list \<Rightarrow> scheduler \<Rightarrow> nat option \<times> scheduler" where
  "queue_loop now [] s = (None, s)"
| "queue_loop now (p # ps) s =
     (case Acquire (routine_at s p) of
        (False, r) \<Rightarrow> queue_loop now ps s
      | (True, r) \<Rightarrow>
          (case UpdateState (now p) r of
             (st, r1) \<Rightarrow> if st = READY then (Some p, set_routine p r1 s)
                        else queue_loop now ps (set_routine p (Release r1) s)))"

fun prio_loop :: "(nat \<Rightarrow> int) \<Rightarrow> u8 list \<Rightarrow> nat \<Rightarrow> scheduler \<Rightarrow> nat option \<times> scheduler" where
  "prio_loop now grp_name 0 s = (None, s)"
| "prio_loop now grp_name (Suc i) s =
     (case queue_loop now (cr_group s grp_name i) s of
        (Some p, s1) \<Rightarrow> (Some p, s1)
      | (None, s1) \<Rightarrow> prio_loop now grp_name i s1)"

definition NextRoutine :: "(nat \<Rightarrow> int) \<Rightarrow> proc_context \<Rightarrow> scheduler \<Rightarrow> nat option \<times> scheduler" where
  "NextRoutine now ctx s =
     (if cx_stop ctx then (None, s) else prio_loop now (cx_group ctx) (unat MAX_PRIO) s)"

text \<open>\<open>Wait\<close> returns on a notification or after a millisecond.\<close>

definition Context_Wait :: "proc_context \<Rightarrow> scheduler \<Rightarrow> scheduler" where
  "Context_Wait ctx s =
     (if sint (notify_grp s (cx_group ctx)) > 0
      then s\<lparr> notify_grp := (notify_grp s)(cx_group ctx := notify_grp s (cx_group ctx) - 1) \<rparr> else s)"

definition Context_Shutdown :: "nat \<Rightarrow> scheduler \<Rightarrow> scheduler" where
  "Context_Shutdown c s =
     (let ctx = pctxs s ! c
      in s\<lparr> pctxs := (pctxs s)[c := ctx\<lparr> cx_stop := True \<rparr>],
            notify_grp := (notify_grp s)(cx_group ctx := 255) \<rparr>)"

definition Context_Notify :: "u8 list \<Rightarrow> scheduler \<Rightarrow> scheduler" where
  "Context_Notify grp_name s = s\<lparr> notify_grp := (notify_grp s)(grp_name := notify_grp s grp_name + 1) \<rparr>"

text \<open>Result \<open>None\<close>: it waits as long as a processor holds the coroutine.\<close>

definition Context_RemoveCRoutine :: "nat \<Rightarrow> scheduler \<Rightarrow> (bool \<times> scheduler) option" where
  "Context_RemoveCRoutine p s =
     (let cr = routine_at s p; grp = cr_group_name cr; prio = unat (cr_priority cr); crid = cr_id cr
      in case List.find (\<lambda>q. cr_id (routine_at s q) = crid) (cr_group s grp prio) of
           None \<Rightarrow> Some (False, s)
         | Some q \<Rightarrow>
             (let s1 = set_routine q (Stop (routine_at s q)) s
              in case Acquire (routine_at s1 q) of
                   (False, r) \<Rightarrow> None
                 | (True, r) \<Rightarrow>
                     Some (True, (set_routine q (Release r) s1)\<lparr> cr_group :=
                       (cr_group s1)(grp := (cr_group s1 grp)(prio := remove1 q (cr_group s1 grp prio))) \<rparr>)))"

section \<open>The classic scheduler\<close>

definition DispatchTask :: "nat \<Rightarrow> scheduler \<Rightarrow> bool \<times> scheduler" where
  "DispatchTask p s =
     (let cr = routine_at s p
      in if map_of (id_cr s) (cr_id cr) \<noteq> None then (False, s)
         else
           (let s1 = s\<lparr> id_cr := (cr_id cr, p) # id_cr s \<rparr>;
                cr1 = (case map_of (cr_confs s1) (cr_name cr) of
                         Some task \<Rightarrow> cr\<lparr> cr_priority := ct_prio task, cr_group_name := ct_group_name task \<rparr>
                       | None \<Rightarrow> cr\<lparr> cr_group_name := sg_name (conf_groups s1 ! 0) \<rparr>);
                cr2 = (if cr_priority cr1 \<ge> MAX_PRIO then cr1\<lparr> cr_priority := MAX_PRIO - 1 \<rparr> else cr1);
                grp = cr_group_name cr2; prio = unat (cr_priority cr2);
                s2 = set_routine p cr2 s1;
                s3 = s2\<lparr> cr_group := (cr_group s2)(grp := (cr_group s2 grp)(prio := cr_group s2 grp prio @ [p])) \<rparr>
            in (True, Context_Notify grp s3)))"

definition NotifyProcessor :: "u64 \<Rightarrow> scheduler \<Rightarrow> bool \<times> scheduler" where
  "NotifyProcessor crid s =
     (if sched_stop s then (True, s)
      else
        (case map_of (id_cr s) crid of
           Some p \<Rightarrow>
             (let s1 = set_routine p (notify_routine (routine_at s p)) s
              in (True, Context_Notify (cr_group_name (routine_at s1 p)) s1))
         | None \<Rightarrow> (False, s)))"

definition RemoveCRoutine :: "u64 \<Rightarrow> scheduler \<Rightarrow> (bool \<times> scheduler) option" where
  "RemoveCRoutine crid s =
     (case map_of (id_cr s) crid of
        None \<Rightarrow> Some (False, s)
      | Some p \<Rightarrow>
          (let s1 = (set_routine p (Stop (routine_at s p)) s)\<lparr> id_cr := AList.delete crid (id_cr s) \<rparr>
           in Context_RemoveCRoutine p s1))"

definition RemoveTask :: "(u8 list \<Rightarrow> u64) \<Rightarrow> u8 list \<Rightarrow> scheduler \<Rightarrow> (bool \<times> scheduler) option" where
  "RemoveTask Hash name s =
     (if sched_stop s then Some (True, s) else RemoveCRoutine (GenerateHashId Hash name) s)"

section \<open>The scheduler\<close>

text \<open>\<open>visitor\<close>: the data visitor of the task, whose notify callback is registered.  \<open>None\<close>: the registration of
  the name does not return.\<close>

definition CreateTask ::
  "(u8 list \<Rightarrow> u64) \<Rightarrow> int \<Rightarrow> u8 list \<Rightarrow> nat option \<Rightarrow> scheduler \<Rightarrow> (bool \<times> scheduler) option" where
  "CreateTask Hash now name visitor s =
     (if sched_stop s then Some (False, s)
      else
        (case RegisterTaskName Hash name (registers s) of
           None \<Rightarrow> None
         | Some (task_id, g) \<Rightarrow>
             (let cr = (CRoutine_construct now)\<lparr> cr_id := task_id, cr_name := name \<rparr>;
                  p = length (heap s);
                  s1 = s\<lparr> registers := g, heap := heap s @ [cr] \<rparr>
              in case DispatchTask p s1 of
                   (False, s2) \<Rightarrow> Some (False, s2)
                 | (True, s2) \<Rightarrow>
                     (case visitor of
                        None \<Rightarrow> Some (True, s2)
                      | Some v \<Rightarrow> Some (True, s2\<lparr> notify_callbacks := notify_callbacks s2 @ [(v, task_id)] \<rparr>)))))"

definition NotifyTask :: "u64 \<Rightarrow> scheduler \<Rightarrow> bool \<times> scheduler" where
  "NotifyTask crid s = (if sched_stop s then (True, s) else NotifyProcessor crid s)"

text \<open>The callback a visitor runs when its channel has data.\<close>

definition visitor_callback :: "nat \<Rightarrow> scheduler \<Rightarrow> scheduler" where
  "visitor_callback v s =
     (case map_of (notify_callbacks s) v of
        None \<Rightarrow> s
      | Some task_id \<Rightarrow> if sched_stop s then s else snd (NotifyProcessor task_id s))"

fun remove_all :: "u64 list \<Rightarrow> scheduler \<Rightarrow> scheduler option" where
  "remove_all [] s = Some s"
| "remove_all (i # ids) s = (case RemoveCRoutine i s of None \<Rightarrow> None | Some (_, s1) \<Rightarrow> remove_all ids s1)"

definition Processor_Stop :: "nat \<Rightarrow> scheduler \<Rightarrow> scheduler" where
  "Processor_Stop k s =
     (let pr = processors s ! k
      in if \<not> pr_running pr then s
         else Context_Shutdown (pr_context pr) (s\<lparr> processors := (processors s)[k := pr\<lparr> pr_running := False \<rparr>] \<rparr>))"

definition Scheduler_Shutdown :: "scheduler \<Rightarrow> scheduler option" where
  "Scheduler_Shutdown s =
     (if sched_stop s then Some s
      else
        (let s1 = fold Context_Shutdown [0..<length (pctxs s)] s;
             cr_list = map (\<lambda>(i, p). cr_id (routine_at s1 p)) (id_cr s1)
         in case remove_all cr_list s1 of
              None \<Rightarrow> None
            | Some s2 \<Rightarrow>
                Some ((fold Processor_Stop [0..<length (processors s2)] s2)\<lparr> processors := [], pctxs := [] \<rparr>)))"

section \<open>Processors\<close>

text \<open>One turn of \<open>Processor::Run\<close>; \<open>body p\<close> is the code of coroutine \<open>p\<close> up to its next switch.\<close>

definition Processor_turn ::
  "(nat \<Rightarrow> int) \<Rightarrow> u64 \<Rightarrow> (nat \<Rightarrow> 'w slice) \<Rightarrow> nat \<Rightarrow> scheduler \<times> 'w \<Rightarrow> scheduler \<times> 'w" where
  "Processor_turn now wall body k sw =
     (case sw of (s, w) \<Rightarrow>
        (let pr = processors s ! k
         in if \<not> pr_running pr then (s, w)
            else
              (case NextRoutine now (pctxs s ! pr_context pr) s of
                 (Some p, s1) \<Rightarrow>
                   (let s2 = s1\<lparr> processors := (processors s1)[k := pr\<lparr> pr_execute_start_time := wall,
                               pr_routine_name := cr_name (routine_at s1 p) \<rparr>] \<rparr>
                    in case Resume (body p) (routine_at s2 p) w of
                         (_, r, w1) \<Rightarrow> (set_routine p (Release r) s2, w1))
               | (None, s1) \<Rightarrow>
                   (Context_Wait (pctxs s1 ! pr_context pr)
                      (s1\<lparr> processors := (processors s1)[k := pr\<lparr> pr_execute_start_time := 0 \<rparr>] \<rparr>), w))))"

section \<open>Construction\<close>

definition scheduler_empty :: "u8 name_registers \<Rightarrow> scheduler" where
  "scheduler_empty g = \<lparr> heap = [], id_cr = [], cr_group = (\<lambda>_ _. []), notify_grp = (\<lambda>_. 0), cr_confs = [],
     conf_groups = [], inner_thr_confs = [], process_level_cpuset = [], task_pool_size = 0, pctxs = [],
     processors = [], sched_stop = False, registers = g, notify_callbacks = [] \<rparr>"

fun add_processors :: "u8 list \<Rightarrow> nat \<Rightarrow> scheduler \<Rightarrow> scheduler" where
  "add_processors grp_name 0 s = s"
| "add_processors grp_name (Suc n) s =
     (let s1 = InitGroup grp_name s; c = length (pctxs s1);
          s2 = s1\<lparr> pctxs := pctxs s1 @ [\<lparr> cx_group = grp_name, cx_stop = False \<rparr>],
            processors := processors s1 @ [\<lparr> pr_context = c, pr_running = True, pr_execute_start_time = 0,
              pr_routine_name = [] \<rparr>] \<rparr>
      in add_processors grp_name n s2)"

text \<open>A cpu set that cannot be parsed ends the construction: \<open>None\<close>.\<close>

fun CreateProcessor_loop :: "SchedGroup list \<Rightarrow> scheduler \<Rightarrow> scheduler option" where
  "CreateProcessor_loop [] s = Some s"
| "CreateProcessor_loop (g # gs) s =
     (let proc_num = sg_processor_num g;
          s1 = (if task_pool_size s = 0 then s\<lparr> task_pool_size := proc_num \<rparr> else s)
      in case ParseCpuset (sg_cpuset g) of
           Cpus cpuset \<Rightarrow> CreateProcessor_loop gs (add_processors (sg_name g) (unat proc_num) s1)
         | _ \<Rightarrow> None)"

definition CreateProcessor :: "scheduler \<Rightarrow> scheduler option" where
  "CreateProcessor s = CreateProcessor_loop (conf_groups s) s"

text \<open>\<open>cfg\<close>: what the configuration file of the process group was parsed to, if there is one;
  \<open>default_proc_num\<close>: from the global configuration.\<close>

definition SchedulerClassic_construct ::
  "SchedulerConf option \<Rightarrow> u32 \<Rightarrow> u8 name_registers \<Rightarrow> scheduler option" where
  "SchedulerClassic_construct cfg default_proc_num g =
     (let s = scheduler_empty g
      in case cfg of
           Some conf \<Rightarrow>
             (let s1 = s\<lparr> inner_thr_confs := fold (\<lambda>t. AList.update (it_name t) t) (sc_threads conf) [] \<rparr>;
                  cpus = (if sc_process_level_cpuset conf \<noteq> [] then ParseCpuset (sc_process_level_cpuset conf) else Cpus []);
                  s2 = s1\<lparr> process_level_cpuset := sc_process_level_cpuset conf,
                         conf_groups := sc_classic_groups conf,
                         cr_confs := fold (\<lambda>grp cs. fold (\<lambda>task. AList.update (ct_name task)
                             (task\<lparr> ct_group_name := sg_name grp \<rparr>)) (sg_tasks grp) cs) (sc_classic_groups conf) [] \<rparr>
              in case cpus of Cpus _ \<Rightarrow> CreateProcessor s2 | _ \<Rightarrow> None)
         | None \<Rightarrow>
             (let proc_num = (if default_proc_num \<noteq> 0 then default_proc_num else 2)
              in CreateProcessor (s\<lparr> task_pool_size := proc_num,
                   conf_groups := [\<lparr> sg_name = DEFAULT_GROUP_NAME, sg_processor_num = proc_num, sg_affinity = [],
                     sg_cpuset = [], sg_processor_policy = [], sg_processor_prio = 0, sg_tasks = [] \<rparr>] \<rparr>)))"


section \<open>Consistency of the register and the queues\<close>

lemma routine_at_set [simp]:
  "p < length (heap s) \<Longrightarrow> routine_at (set_routine p r s) q = (if q = p then r else routine_at s q)"
  by (simp add: routine_at_def set_routine_def nth_list_update)

lemma set_routine_simps [simp]:
  "length (heap (set_routine p r s)) = length (heap s)" "id_cr (set_routine p r s) = id_cr s"
  "cr_group (set_routine p r s) = cr_group s" "conf_groups (set_routine p r s) = conf_groups s"
  "cr_confs (set_routine p r s) = cr_confs s" "sched_stop (set_routine p r s) = sched_stop s"
  "pctxs (set_routine p r s) = pctxs s" "processors (set_routine p r s) = processors s"
  "registers (set_routine p r s) = registers s"
  by (simp_all add: set_routine_def)

text \<open>What the queues depend on of a coroutine.\<close>

definition place :: "croutine \<Rightarrow> u64 \<times> u8 list \<times> u32" where
  "place r = (cr_id r, cr_group_name r, cr_priority r)"

text \<open>Every registered coroutine has a priority below \<open>MAX_PRIO\<close> and is, once, in the queue of its group and
  priority; no queue holds anything else.\<close>

definition sched_ok :: "scheduler \<Rightarrow> bool" where
  "sched_ok s \<longleftrightarrow> distinct (map fst (id_cr s)) \<and>
     (\<forall>i p. map_of (id_cr s) i = Some p \<longrightarrow>
        p < length (heap s) \<and> cr_id (routine_at s p) = i \<and> cr_priority (routine_at s p) < MAX_PRIO) \<and>
     (\<forall>g k. distinct (cr_group s g k) \<and>
        (\<forall>p. p \<in> set (cr_group s g k) \<longleftrightarrow>
           (\<exists>i. map_of (id_cr s) i = Some p) \<and> cr_group_name (routine_at s p) = g \<and>
           unat (cr_priority (routine_at s p)) = k))"

lemma sched_okD:
  assumes "sched_ok s" "map_of (id_cr s) i = Some p"
  shows "p < length (heap s)" "cr_id (routine_at s p) = i" "cr_priority (routine_at s p) < MAX_PRIO"
  using assms by (simp_all add: sched_ok_def)

definition registered :: "scheduler \<Rightarrow> nat \<Rightarrow> bool" where
  "registered s p \<longleftrightarrow> (\<exists>i. map_of (id_cr s) i = Some p)"

lemma sched_ok_queue:
  assumes "sched_ok s"
  shows "p \<in> set (cr_group s g k) \<longleftrightarrow> registered s p \<and> cr_group_name (routine_at s p) = g \<and>
      unat (cr_priority (routine_at s p)) = k"
    "distinct (cr_group s g k)"
  using assms by (simp_all add: sched_ok_def registered_def)

lemma sched_ok_distinct: "sched_ok s \<Longrightarrow> distinct (map fst (id_cr s))"
  by (simp add: sched_ok_def)

lemma sched_okI:
  assumes "distinct (map fst (id_cr s))" and "\<And>i p. map_of (id_cr s) i = Some p \<Longrightarrow>
      p < length (heap s) \<and> cr_id (routine_at s p) = i \<and> cr_priority (routine_at s p) < MAX_PRIO"
    and "\<And>g k. distinct (cr_group s g k)"
    and "\<And>g k p. p \<in> set (cr_group s g k) \<longleftrightarrow> registered s p \<and> cr_group_name (routine_at s p) = g \<and>
      unat (cr_priority (routine_at s p)) = k"
  shows "sched_ok s"
  using assms by (simp add: sched_ok_def registered_def)

lemma sched_ok_cong:
  assumes "sched_ok s" "id_cr s' = id_cr s" "cr_group s' = cr_group s" "length (heap s) \<le> length (heap s')"
    and "\<And>p. p < length (heap s) \<Longrightarrow> place (routine_at s' p) = place (routine_at s p)"
  shows "sched_ok s'"
proof (rule sched_okI)
  have same: "cr_id (routine_at s' p) = cr_id (routine_at s p)" "cr_group_name (routine_at s' p) = cr_group_name (routine_at s p)"
    "cr_priority (routine_at s' p) = cr_priority (routine_at s p)" if "p < length (heap s)" for p
    using assms(5) [OF that] by (simp_all add: place_def)
  show "distinct (map fst (id_cr s'))" using sched_ok_distinct [OF assms(1)] assms(2) by simp
  show "p < length (heap s') \<and> cr_id (routine_at s' p) = i \<and> cr_priority (routine_at s' p) < MAX_PRIO"
    if "map_of (id_cr s') i = Some p" for i p
    using that sched_okD [OF assms(1), of i p] assms(2,4) same [of p] by simp
  show "distinct (cr_group s' g k)" for g k using sched_ok_queue(2) [OF assms(1)] assms(3) by simp
  show "p \<in> set (cr_group s' g k) \<longleftrightarrow> registered s' p \<and> cr_group_name (routine_at s' p) = g \<and>
      unat (cr_priority (routine_at s' p)) = k" for g k p
  proof -
    have "registered s' p = registered s p" by (simp add: registered_def assms(2))
    moreover have "registered s p \<Longrightarrow> p < length (heap s)"
      using sched_okD(1) [OF assms(1)] unfolding registered_def by blast
    ultimately show ?thesis using sched_ok_queue(1) [OF assms(1), of p g k] assms(3) same [of p] by auto
  qed
qed

lemma sched_ok_upd [simp]:
  "sched_ok (s\<lparr> notify_grp := a \<rparr>) = sched_ok s" "sched_ok (s\<lparr> pctxs := b \<rparr>) = sched_ok s"
  "sched_ok (s\<lparr> processors := c \<rparr>) = sched_ok s" "sched_ok (s\<lparr> task_pool_size := d \<rparr>) = sched_ok s"
  "sched_ok (s\<lparr> notify_callbacks := e \<rparr>) = sched_ok s" "sched_ok (s\<lparr> conf_groups := f \<rparr>) = sched_ok s"
  "sched_ok (s\<lparr> cr_confs := h \<rparr>) = sched_ok s" "sched_ok (s\<lparr> inner_thr_confs := i \<rparr>) = sched_ok s"
  "sched_ok (s\<lparr> process_level_cpuset := j \<rparr>) = sched_ok s" "sched_ok (s\<lparr> registers := k \<rparr>) = sched_ok s"
  by (simp_all add: sched_ok_def routine_at_def)

lemma sched_ok_set:
  "sched_ok s \<Longrightarrow> p < length (heap s) \<Longrightarrow> place r = place (routine_at s p) \<Longrightarrow> sched_ok (set_routine p r s)"
  by (rule sched_ok_cong [of s]) auto

lemma DispatchTask_ok:
  assumes "sched_ok s" "p < length (heap s)" "\<forall>i. map_of (id_cr s) i \<noteq> Some p"
  shows "sched_ok (snd (DispatchTask p s))"
proof (cases "map_of (id_cr s) (cr_id (routine_at s p))")
  case (Some q)
  then show ?thesis using assms(1) by (simp add: DispatchTask_def)
next
  case None
  define cr where "cr = routine_at s p"
  define cr1 where "cr1 = (case map_of (cr_confs s) (cr_name cr) of
      Some task \<Rightarrow> cr\<lparr> cr_priority := ct_prio task, cr_group_name := ct_group_name task \<rparr>
    | None \<Rightarrow> cr\<lparr> cr_group_name := sg_name (conf_groups s ! 0) \<rparr>)"
  define cr2 where "cr2 = (if cr_priority cr1 \<ge> MAX_PRIO then cr1\<lparr> cr_priority := MAX_PRIO - 1 \<rparr> else cr1)"
  have c: "cr_id cr2 = cr_id cr" "cr_priority cr2 < MAX_PRIO"
    by (auto simp: cr2_def cr1_def MAX_PRIO_def split: option.split)
  have e: "snd (DispatchTask p s) = Context_Notify (cr_group_name cr2)
      ((set_routine p cr2 (s\<lparr> id_cr := (cr_id cr, p) # id_cr s \<rparr>))\<lparr> cr_group :=
        (cr_group s)(cr_group_name cr2 := (cr_group s (cr_group_name cr2))
          (unat (cr_priority cr2) := cr_group s (cr_group_name cr2) (unat (cr_priority cr2)) @ [p])) \<rparr>)"
    using None
    by (cases "map_of (cr_confs s) (cr_name cr)") (simp_all add: DispatchTask_def Let_def cr_def cr1_def cr2_def)
  have at: "routine_at (snd (DispatchTask p s)) q = (if q = p then cr2 else routine_at s q)" for q
    using assms(2) by (simp add: e Context_Notify_def routine_at_def set_routine_def nth_list_update)
  have f: "id_cr (snd (DispatchTask p s)) = (cr_id cr, p) # id_cr s"
    "length (heap (snd (DispatchTask p s))) = length (heap s)"
    "cr_group (snd (DispatchTask p s)) g k = cr_group s g k @ (if g = cr_group_name cr2 \<and> k = unat (cr_priority cr2) then [p] else [])"
    for g k by (auto simp: e Context_Notify_def)
  let ?s' = "snd (DispatchTask p s)"
  have np: "\<not> registered s p" using assms(3) by (simp add: registered_def)
  have reg: "registered ?s' q \<longleftrightarrow> q = p \<or> registered s q" for q
  proof -
    have "map_of (id_cr ?s') i = (if i = cr_id cr then Some p else map_of (id_cr s) i)" for i by (simp add: f)
    then show ?thesis using None unfolding registered_def cr_def by (metis option.distinct(1) option.inject)
  qed
  show ?thesis
  proof (rule sched_okI)
    show "distinct (map fst (id_cr ?s'))"
      using sched_ok_distinct [OF assms(1)] None by (simp add: f cr_def map_of_eq_None_iff)
    show "q < length (heap ?s') \<and> cr_id (routine_at ?s' q) = i \<and> cr_priority (routine_at ?s' q) < MAX_PRIO"
      if "map_of (id_cr ?s') i = Some q" for i q
    proof (cases "q = p")
      case True
      then have "i = cr_id cr" using that assms(3) by (auto simp: f split: if_splits)
      then show ?thesis using True c assms(2) by (simp add: at f)
    next
      case False
      then have "map_of (id_cr s) i = Some q" using that by (auto simp: f split: if_splits)
      then show ?thesis using False sched_okD [OF assms(1), of i q] by (simp add: at f)
    qed
    show "distinct (cr_group ?s' g k)" for g k
      using sched_ok_queue [OF assms(1)] np by (auto simp: f)
    show "q \<in> set (cr_group ?s' g k) \<longleftrightarrow> registered ?s' q \<and> cr_group_name (routine_at ?s' q) = g \<and>
      unat (cr_priority (routine_at ?s' q)) = k" for g k q
      using sched_ok_queue(1) [OF assms(1), of q g k] np by (cases "q = p") (auto simp: f at reg)
  qed
qed

lemma NotifyProcessor_ok: "sched_ok s \<Longrightarrow> sched_ok (snd (NotifyProcessor crid s))"
proof (cases "map_of (id_cr s) crid")
  case (Some p)
  assume ok: "sched_ok s"
  then have p: "p < length (heap s)" using Some by (auto simp: sched_ok_def)
  have "sched_ok (set_routine p (notify_routine (routine_at s p)) s)"
    by (rule sched_ok_set [OF ok p]) (simp add: place_def notify_routine_def SetUpdateFlag_def)
  then have "sched_ok (Context_Notify g (set_routine p (notify_routine (routine_at s p)) s))" for g
    by (rule sched_ok_cong) (simp_all add: Context_Notify_def routine_at_def)
  then show ?thesis using Some ok by (simp add: NotifyProcessor_def Let_def)
qed (simp add: NotifyProcessor_def)

lemma find_unique:
  assumes "p \<in> set xs" "P p" "\<And>q. q \<in> set xs \<Longrightarrow> P q \<Longrightarrow> q = p"
  shows "List.find P xs = Some p"
proof (cases "List.find P xs")
  case None
  then show ?thesis using assms(1,2) by (simp add: find_None_iff)
next
  case (Some q)
  then show ?thesis using assms(3) [of q] by (auto simp: find_Some_iff)
qed

text \<open>What a removal that returns does: the coroutine is stopped, unlocked again, and gone from the register and from its
  queue.\<close>

lemma RemoveCRoutine_effect:
  assumes "sched_ok s" "RemoveCRoutine crid s = Some (b, s')" "map_of (id_cr s) crid = Some p"
  obtains r where "place r = place (routine_at s p)" "\<And>q. routine_at s' q = (if q = p then r else routine_at s q)"
    "\<And>g k. cr_group s' g k = (if g = cr_group_name (routine_at s p) \<and> k = unat (cr_priority (routine_at s p))
       then remove1 p (cr_group s g k) else cr_group s g k)"
    "id_cr s' = AList.delete crid (id_cr s)" "length (heap s') = length (heap s)"
proof -
  have Some: "map_of (id_cr s) crid = Some p" by fact
  note okD = sched_okD [OF assms(1)] and okQ = sched_ok_queue [OF assms(1)]
  define s1 where "s1 = (set_routine p (Stop (routine_at s p)) s)\<lparr> id_cr := AList.delete crid (id_cr s) \<rparr>"
  have p: "p < length (heap s)" "cr_id (routine_at s p) = crid" using okD Some by auto
  have at1: "routine_at s1 q = (if q = p then Stop (routine_at s p) else routine_at s q)" for q
    using p(1) by (simp add: s1_def routine_at_def set_routine_def nth_list_update)
  define g where "g = cr_group_name (routine_at s p)"
  define k where "k = unat (cr_priority (routine_at s p))"
  have inq: "p \<in> set (cr_group s g k)" using okQ(1) Some by (auto simp: g_def k_def registered_def)
  have "q = p" if q: "q \<in> set (cr_group s g' k')" "cr_id (routine_at s1 q) = crid" for q g' k'
  proof -
    obtain i where i: "map_of (id_cr s) i = Some q" using okQ(1) [of q g' k'] q(1) unfolding registered_def by blast
    then have "cr_id (routine_at s q) = i" by (rule okD(2))
    then have "i = crid" using that(2) p(2) by (simp add: at1 Stop_def split: if_splits)
    then show ?thesis using i Some by simp
  qed
  moreover have "cr_id (routine_at s1 p) = crid" using p(2) by (simp add: at1 Stop_def)
  ultimately have find: "List.find (\<lambda>q. cr_id (routine_at s1 q) = crid) (cr_group s g k) = Some p"
    using inq by (intro find_unique) blast+
  have s1: "cr_group s1 = cr_group s" "length (heap s1) = length (heap s)" "id_cr s1 = AList.delete crid (id_cr s)"
    by (simp_all add: s1_def)
  have pl: "cr_id (routine_at s1 p) = crid" "cr_group_name (routine_at s1 p) = g" "unat (cr_priority (routine_at s1 p)) = k"
    using p(2) by (simp_all add: at1 g_def k_def Stop_def)
  define r where "r = Release (snd (Acquire (Stop (routine_at s1 p))))"
  have r: "place r = place (routine_at s p)" by (simp add: r_def at1 place_def Release_def Acquire_def Stop_def)
  have "Context_RemoveCRoutine p s1 = (if cr_lock (routine_at s p) then None else Some (True,
      (set_routine p r (set_routine p (Stop (routine_at s1 p)) s1))\<lparr> cr_group :=
        (cr_group s)(g := (cr_group s g)(k := remove1 p (cr_group s g k))) \<rparr>))"
    unfolding Context_RemoveCRoutine_def Let_def pl s1(1) find option.case
    using p(1) s1(2) by (simp add: Acquire_def r_def) (simp add: at1 Stop_def s1(1))
  then have s': "s' = (set_routine p r (set_routine p (Stop (routine_at s1 p)) s1))\<lparr> cr_group :=
        (cr_group s)(g := (cr_group s g)(k := remove1 p (cr_group s g k))) \<rparr>"
    using assms(2) Some by (simp add: RemoveCRoutine_def s1_def [symmetric] split: if_splits)
  have at: "routine_at s' q = (if q = p then r else routine_at s q)" for q
    using p(1) s1(2) by (simp add: s' routine_at_def set_routine_def s1_def nth_list_update)
  have gk: "cr_group s' g' k' = (if g' = g \<and> k' = k then remove1 p (cr_group s g k) else cr_group s g' k')" for g' k'
    by (simp add: s')
  show thesis
    by (rule that [OF r]) (use at gk in \<open>simp_all add: s' s1_def g_def k_def\<close>)
qed

lemma RemoveCRoutine_ok:
  assumes "sched_ok s" "RemoveCRoutine crid s = Some (b, s')"
  shows "sched_ok s'"
proof (cases "map_of (id_cr s) crid")
  case None
  then show ?thesis using assms by (simp add: RemoveCRoutine_def)
next
  case (Some p)
  note okD = sched_okD [OF assms(1)] and okQ = sched_ok_queue [OF assms(1)]
  obtain r where r: "place r = place (routine_at s p)" and at: "\<And>q. routine_at s' q = (if q = p then r else routine_at s q)"
    and gk: "\<And>g k. cr_group s' g k = (if g = cr_group_name (routine_at s p) \<and> k = unat (cr_priority (routine_at s p))
       then remove1 p (cr_group s g k) else cr_group s g k)"
    and ids: "id_cr s' = AList.delete crid (id_cr s)" and len: "length (heap s') = length (heap s)"
    by (rule RemoveCRoutine_effect [OF assms Some]) blast
  have p: "cr_id (routine_at s p) = crid" using okD Some by auto
  have i: "map_of (id_cr s') j = (if j = crid then None else map_of (id_cr s) j)" for j by (simp add: ids delete_conv')
  have other: "q \<noteq> p" if "map_of (id_cr s) j = Some q" "j \<noteq> crid" for j q using okD(2) [OF that(1)] p that(2) by auto
  have ex: "registered s' q \<longleftrightarrow> q \<noteq> p \<and> registered s q" for q
    unfolding i registered_def using other Some by (metis option.distinct(1) option.inject)
  show ?thesis
  proof (rule sched_okI)
    show "distinct (map fst (id_cr s'))"
      using sched_ok_distinct [OF assms(1)] by (simp add: ids distinct_delete)
  next
    fix j q
    assume "map_of (id_cr s') j = Some q"
    then have j: "j \<noteq> crid" "map_of (id_cr s) j = Some q" by (auto simp: i split: if_splits)
    then show "q < length (heap s') \<and> cr_id (routine_at s' q) = j \<and> cr_priority (routine_at s' q) < MAX_PRIO"
      using okD [OF j(2)] other [OF j(2,1)] by (simp add: len at)
  next
    fix g' k'
    show "distinct (cr_group s' g' k')" using okQ(2) by (simp add: gk distinct_remove1)
    fix q
    show "q \<in> set (cr_group s' g' k') \<longleftrightarrow>
      registered s' q \<and> cr_group_name (routine_at s' q) = g' \<and> unat (cr_priority (routine_at s' q)) = k'"
    proof (cases "q = p")
      case True
      have "p \<notin> set (cr_group s g' k')"
        if "\<not> (g' = cr_group_name (routine_at s p) \<and> k' = unat (cr_priority (routine_at s p)))" using okQ(1) that by auto
      moreover have "p \<notin> set (remove1 p (cr_group s g k))" for g k using okQ(2) by simp
      ultimately show ?thesis using True by (auto simp: gk ex)
    next
      case False
      then have "q \<in> set (cr_group s' g' k') \<longleftrightarrow> q \<in> set (cr_group s g' k')" by (auto simp: gk)
      then show ?thesis using okQ(1) [of q g' k'] False by (simp add: at ex)
    qed
  qed
qed


section \<open>What NextRoutine chooses\<close>

text \<open>A free coroutine that \<open>UpdateState\<close> makes ready; the order in which queues are searched.\<close>

definition takeable :: "(nat \<Rightarrow> int) \<Rightarrow> scheduler \<Rightarrow> nat \<Rightarrow> bool" where
  "takeable now s p \<longleftrightarrow> \<not> cr_lock (routine_at s p) \<and> runnable (now p) (routine_at s p)"

definition search_order :: "u8 list \<Rightarrow> scheduler \<Rightarrow> nat list" where
  "search_order g s = concat (map (cr_group s g) (rev [0..<unat MAX_PRIO]))"

text \<open>The states the search passes through: passing over a free coroutine that is not ready sets its
  update flag.\<close>

definition passed_over :: "(nat \<Rightarrow> int) \<Rightarrow> scheduler \<Rightarrow> scheduler \<Rightarrow> bool" where
  "passed_over now s s1 \<longleftrightarrow> s1 = s\<lparr> heap := heap s1 \<rparr> \<and> length (heap s1) = length (heap s) \<and>
     (\<forall>q. routine_at s1 q = routine_at s q \<or>
       \<not> takeable now s q \<and> routine_at s1 q = (routine_at s q)\<lparr> cr_updated := True \<rparr>)"

lemma passed_over_takeable: "passed_over now s s1 \<Longrightarrow> takeable now s1 q = takeable now s q"
proof -
  assume "passed_over now s s1"
  then consider "routine_at s1 q = routine_at s q"
    | "\<not> takeable now s q" "routine_at s1 q = (routine_at s q)\<lparr> cr_updated := True \<rparr>"
    unfolding passed_over_def by blast
  then show ?thesis by cases (auto simp: takeable_def runnable_def)
qed

lemma passed_over_refl: "passed_over now s s"
  by (simp add: passed_over_def)

text \<open>The result of a search from a state reached by passing over.\<close>

definition taken :: "(nat \<Rightarrow> int) \<Rightarrow> scheduler \<Rightarrow> nat option \<Rightarrow> scheduler \<Rightarrow> bool" where
  "taken now s res s2 \<longleftrightarrow>
     (case res of
        None \<Rightarrow> passed_over now s s2
      | Some p \<Rightarrow> \<exists>s1. passed_over now s s1 \<and>
          s2 = set_routine p (snd (UpdateState (now p) ((routine_at s p)\<lparr> cr_lock := True \<rparr>))) s1)"

lemma queue_loop_spec:
  assumes "passed_over now s s1" "\<forall>p \<in> set ps. p < length (heap s)"
  shows "fst (queue_loop now ps s1) = List.find (takeable now s) ps \<and>
    taken now s (List.find (takeable now s) ps) (snd (queue_loop now ps s1))"
  using assms
proof (induction ps arbitrary: s1)
  case Nil
  then show ?case by (simp add: taken_def)
next
  case (Cons p ps)
  have p: "p < length (heap s1)" using Cons.prems by (simp add: passed_over_def)
  have t: "takeable now s1 p = takeable now s p" by (rule passed_over_takeable [OF Cons.prems(1)])
  let ?r = "(routine_at s1 p)\<lparr> cr_lock := True \<rparr>"
  have run: "runnable (now p) ?r = runnable (now p) (routine_at s1 p)" by (simp add: runnable_def)
  show ?case
  proof (cases "cr_lock (routine_at s1 p)")
    case True
    then have "\<not> takeable now s p" using t by (simp add: takeable_def)
    then show ?thesis using Cons.IH [OF Cons.prems(1)] Cons.prems(2) True by (simp add: Acquire_def)
  next
    case free: False
    show ?thesis
    proof (cases "runnable (now p) (routine_at s1 p)")
      case True
      have "takeable now s p" using free True t by (simp add: takeable_def)
      moreover from this have "routine_at s1 p = routine_at s p" using Cons.prems(1) by (auto simp: passed_over_def)
      moreover have "fst (UpdateState (now p) ?r) = READY" using True UpdateState_runnable run by metis
      ultimately show ?thesis using free Cons.prems(1) by (auto simp: Acquire_def taken_def split: prod.split)
    next
      case False
      have nt: "\<not> takeable now s p" using False t by (simp add: takeable_def)
      have u: "fst (UpdateState (now p) ?r) \<noteq> READY" "snd (UpdateState (now p) ?r) = ?r\<lparr> cr_updated := True \<rparr>"
        using False run UpdateState_runnable [of "now p" ?r] UpdateState_idle [of "now p" ?r] by simp_all
      let ?s2 = "set_routine p ((routine_at s1 p)\<lparr> cr_updated := True \<rparr>) s1"
      obtain st where st: "UpdateState (now p) ?r = (st, ?r\<lparr> cr_updated := True \<rparr>)" "st \<noteq> READY"
        using u by (metis prod.collapse)
      have "Release (?r\<lparr> cr_updated := True \<rparr>) = (routine_at s1 p)\<lparr> cr_updated := True \<rparr>"
        using free by (simp add: Release_def)
      then have step: "queue_loop now (p # ps) s1 = queue_loop now ps ?s2"
        using st free by (simp add: Acquire_def)
      have "passed_over now s ?s2"
        unfolding passed_over_def
      proof (intro conjI allI)
        obtain h where "s1 = s\<lparr> heap := h \<rparr>" using Cons.prems(1) unfolding passed_over_def by blast
        then show "?s2 = s\<lparr> heap := heap ?s2 \<rparr>" by (simp add: set_routine_def)
        show "length (heap ?s2) = length (heap s)" using Cons.prems(1) by (simp add: passed_over_def)
        fix q
        show "routine_at ?s2 q = routine_at s q \<or>
          \<not> takeable now s q \<and> routine_at ?s2 q = (routine_at s q)\<lparr> cr_updated := True \<rparr>"
        proof (cases "q = p")
          case True
          have "routine_at s1 p = routine_at s p \<or> routine_at s1 p = (routine_at s p)\<lparr> cr_updated := True \<rparr>"
            using Cons.prems(1) unfolding passed_over_def by blast
          then have "(routine_at s1 p)\<lparr> cr_updated := True \<rparr> = (routine_at s p)\<lparr> cr_updated := True \<rparr>" by auto
          then show ?thesis using True p nt by simp
        next
          case False
          then show ?thesis using Cons.prems(1) p by (simp add: passed_over_def)
        qed
      qed
      then show ?thesis using Cons.IH [of ?s2] Cons.prems(2) nt unfolding step by simp
    qed
  qed
qed

lemma find_append: "List.find P (xs @ ys) = (case List.find P xs of None \<Rightarrow> List.find P ys | Some x \<Rightarrow> Some x)"
  by (induction xs) auto

lemma prio_loop_spec:
  assumes "passed_over now s s1" "\<forall>k. \<forall>p \<in> set (cr_group s g k). p < length (heap s)"
  shows "fst (prio_loop now g n s1) = List.find (takeable now s) (concat (map (cr_group s g) (rev [0..<n]))) \<and>
    taken now s (List.find (takeable now s) (concat (map (cr_group s g) (rev [0..<n])))) (snd (prio_loop now g n s1))"
  using assms(1)
proof (induction n arbitrary: s1)
  case 0
  then show ?case by (simp add: taken_def)
next
  case (Suc n)
  have g: "cr_group s1 = cr_group s" using Suc.prems by (metis passed_over_def scheduler.select_convs(3) scheduler.surjective scheduler.update_convs(1))
  obtain res s2 where q: "queue_loop now (cr_group s1 g n) s1 = (res, s2)" by (metis surj_pair)
  have spec: "res = List.find (takeable now s) (cr_group s g n)" "taken now s res s2"
    using queue_loop_spec [OF Suc.prems, of "cr_group s g n"] assms(2) q g by auto
  show ?case
  proof (cases res)
    case None
    then have "passed_over now s s2" using spec(2) by (simp add: taken_def)
    from Suc.IH [OF this] show ?thesis using None spec(1) q by (simp add: find_append)
  next
    case (Some p)
    then show ?thesis using spec q by (simp add: find_append del: find_Some_iff)
  qed
qed

end
