(* ===== verification/SchedulingProps.thy ===== *)
theory SchedulingProps
  imports Scheduling
begin

text \<open>
  What the scheduler guarantees: the choice of \<open>NextRoutine\<close>, the consistency of the register and the
  queues under every operation, the parsing of cpu sets, and where removal and shutdown fall short.
\<close>

section \<open>The choice of NextRoutine\<close>

lemma sched_ok_bounds: "sched_ok s \<Longrightarrow> p \<in> set (cr_group s g k) \<Longrightarrow> p < length (heap s)"
  using sched_ok_queue(1) sched_okD(1) unfolding registered_def by blast

lemma NextRoutine_taken:
  assumes "sched_ok s" "\<not> cx_stop ctx"
  shows "fst (NextRoutine now ctx s) = List.find (takeable now s) (search_order (cx_group ctx) s)"
    "taken now s (List.find (takeable now s) (search_order (cx_group ctx) s)) (snd (NextRoutine now ctx s))"
  using prio_loop_spec [OF passed_over_refl, of s "cx_group ctx" now "unat MAX_PRIO"] sched_ok_bounds [OF assms(1)] assms(2)
  unfolding search_order_def NextRoutine_def by auto

lemma taken_heap:
  assumes "taken now s res s2" "\<forall>p. res = Some p \<longrightarrow> p < length (heap s)"
  shows "id_cr s2 = id_cr s" "cr_group s2 = cr_group s" "length (heap s2) = length (heap s)"
    "processors s2 = processors s" "pctxs s2 = pctxs s" "sched_stop s2 = sched_stop s"
    "Some q \<noteq> res \<Longrightarrow> routine_at s2 q = routine_at s q \<or> routine_at s2 q = (routine_at s q)\<lparr> cr_updated := True \<rparr>"
    "res = Some p \<Longrightarrow> routine_at s2 p = snd (UpdateState (now p) ((routine_at s p)\<lparr> cr_lock := True \<rparr>))"
proof -
  obtain s1 where s1: "passed_over now s s1"
    "s2 = s1 \<and> res = None \<or> (\<exists>p. res = Some p \<and> p < length (heap s) \<and>
        s2 = set_routine p (snd (UpdateState (now p) ((routine_at s p)\<lparr> cr_lock := True \<rparr>))) s1)"
    using assms by (auto simp: taken_def split: option.splits)
  obtain h where h: "s1 = s\<lparr> heap := h \<rparr>" using s1(1) unfolding passed_over_def by blast
  have l: "length (heap s1) = length (heap s)" using s1(1) by (simp add: passed_over_def)
  show "id_cr s2 = id_cr s" "cr_group s2 = cr_group s" "length (heap s2) = length (heap s)"
    "processors s2 = processors s" "pctxs s2 = pctxs s" "sched_stop s2 = sched_stop s"
    using s1(2) h l by auto
  show "routine_at s2 q = routine_at s q \<or> routine_at s2 q = (routine_at s q)\<lparr> cr_updated := True \<rparr>"
    if "Some q \<noteq> res"
  proof -
    have "routine_at s2 q = routine_at s1 q" using s1(2) that l by (auto split: if_splits)
    moreover have "routine_at s1 q = routine_at s q \<or> routine_at s1 q = (routine_at s q)\<lparr> cr_updated := True \<rparr>"
      using s1(1) unfolding passed_over_def by blast
    ultimately show ?thesis by simp
  qed
  show "routine_at s2 p = snd (UpdateState (now p) ((routine_at s p)\<lparr> cr_lock := True \<rparr>))" if "res = Some p"
    using s1(2) that l by auto
qed

lemma UpdateState_frame:
  "cr_lock (snd (UpdateState now r)) = cr_lock r" "place (snd (UpdateState now r)) = place r"
  by (auto simp: UpdateState_def Let_def place_def)

lemma find_highest:
  "List.find P (concat (map f (rev [0..<n]))) = Some p \<Longrightarrow> q \<in> set (f k) \<Longrightarrow> P q \<Longrightarrow> k < n \<Longrightarrow>
    \<exists>k' \<ge> k. p \<in> set (f k')"
proof (induction n)
  case (Suc n)
  show ?case
  proof (cases "List.find P (f n)")
    case None
    then have "k \<noteq> n" using Suc.prems(2,3) by (auto simp: find_None_iff)
    then show ?thesis using Suc None by (simp add: find_append)
  next
    case (Some x)
    then have "x = p" using Suc.prems(1) by (simp add: find_append)
    moreover have "x \<in> set (f n)" using Some by (auto simp: find_Some_iff)
    ultimately show ?thesis using Suc.prems(4) by (intro exI [of _ n]) simp
  qed
qed simp

lemma search_order_mem:
  assumes "sched_ok s" shows "q \<in> set (search_order g s) \<longleftrightarrow> (\<exists>k. q \<in> set (cr_group s g k))"
proof -
  have "k < unat MAX_PRIO" if "q \<in> set (cr_group s g k)" for k
    using sched_ok_queue(1) [OF assms] sched_okD(3) [OF assms] that
    by (auto simp: registered_def word_less_nat_alt)
  then show ?thesis by (auto simp: search_order_def)
qed

text \<open>C13: \<open>NextRoutine\<close> returns the first coroutine, by falling priority and then in the order of its
  queue, that is free and ready (its sleep is over, or it was notified); it holds its lock and its
  state is \<open>READY\<close>.  No coroutine of the group with a higher priority was free and ready.  All others
  keep their state; only their update flag may be set.\<close>

theorem next_routine_highest:
  assumes "sched_ok s" "\<not> cx_stop ctx" "NextRoutine now ctx s = (res, s')"
  shows "res = List.find (takeable now s) (search_order (cx_group ctx) s) \<and>
    (\<forall>p. res = Some p \<longrightarrow> cr_lock (routine_at s' p) \<and> cr_state (routine_at s' p) = READY \<and>
      (\<forall>k q. q \<in> set (cr_group s (cx_group ctx) k) \<and> takeable now s q \<longrightarrow> k \<le> unat (cr_priority (routine_at s p)))) \<and>
    (\<forall>q. Some q \<noteq> res \<longrightarrow>
      routine_at s' q = routine_at s q \<or> routine_at s' q = (routine_at s q)\<lparr> cr_updated := True \<rparr>)"
proof (intro conjI allI impI)
  note n = NextRoutine_taken [OF assms(1,2), of now, unfolded assms(3) fst_conv snd_conv]
  show r: "res = List.find (takeable now s) (search_order (cx_group ctx) s)" by (rule n(1))
  have in_range: "\<forall>p. res = Some p \<longrightarrow> p < length (heap s)"
    using r search_order_mem [OF assms(1)] sched_ok_bounds [OF assms(1)]
    by (metis find_Some_iff nth_mem)
  note t = taken_heap [OF n(2) [folded n(1)] in_range]
  fix p assume p: "res = Some p"
  then have run: "takeable now s p" using r by (auto simp: find_Some_iff)
  show "cr_lock (routine_at s' p)" using t(8) [OF p] by (simp add: UpdateState_frame)
  show "cr_state (routine_at s' p) = READY"
    using t(8) [OF p] run UpdateState_ready [of "now p" "(routine_at s p)\<lparr> cr_lock := True \<rparr>"]
    by (simp add: takeable_def runnable_def)
  fix k q assume q: "q \<in> set (cr_group s (cx_group ctx) k) \<and> takeable now s q"
  have "k < unat MAX_PRIO" using q sched_ok_queue(1) [OF assms(1)] sched_okD(3) [OF assms(1)]
    by (auto simp: registered_def word_less_nat_alt)
  then obtain k' where "k \<le> k'" "p \<in> set (cr_group s (cx_group ctx) k')"
    using find_highest [of "takeable now s" "cr_group s (cx_group ctx)" "unat MAX_PRIO" p q k] r p q
    by (auto simp: search_order_def)
  then show "k \<le> unat (cr_priority (routine_at s p))" using sched_ok_queue(1) [OF assms(1)] by simp
next
  fix q assume "Some q \<noteq> res"
  note n = NextRoutine_taken [OF assms(1,2), of now, unfolded assms(3) fst_conv snd_conv]
  have in_range: "\<forall>p. res = Some p \<longrightarrow> p < length (heap s)"
    using n(1) search_order_mem [OF assms(1)] sched_ok_bounds [OF assms(1)]
    by (metis find_Some_iff nth_mem)
  show "routine_at s' q = routine_at s q \<or> routine_at s' q = (routine_at s q)\<lparr> cr_updated := True \<rparr>"
    by (rule taken_heap(7) [OF n(2) [folded n(1)] in_range \<open>Some q \<noteq> res\<close>])
qed


section \<open>Every operation keeps the queues consistent\<close>

lemma CreateTask_ok:
  assumes "sched_ok s" "CreateTask Hash now name v s = Some (b, s')"
  shows "sched_ok s'"
proof (cases "sched_stop s")
  case True
  then show ?thesis using assms by (simp add: CreateTask_def)
next
  case False
  obtain i g where r: "RegisterTaskName Hash name (registers s) = Some (i, g)"
    using assms(2) False by (cases "RegisterTaskName Hash name (registers s)") (auto simp: CreateTask_def)
  define s1 where "s1 = s\<lparr> registers := g, heap := heap s @ [(CRoutine_construct now)\<lparr> cr_id := i, cr_name := name \<rparr>] \<rparr>"
  have ok1: "sched_ok s1"
    by (rule sched_ok_cong [OF assms(1)]) (simp_all add: s1_def routine_at_def nth_append)
  have "\<forall>j. map_of (id_cr s1) j \<noteq> Some (length (heap s))"
    using sched_okD(1) [OF assms(1)] by (auto simp: s1_def)
  then have d: "sched_ok (snd (DispatchTask (length (heap s)) s1))"
    by (intro DispatchTask_ok [OF ok1]) (simp_all add: s1_def)
  obtain c s2 where c: "DispatchTask (length (heap s)) s1 = (c, s2)" by (metis surj_pair)
  then have "sched_ok s2" using d by simp
  moreover have "s' = s2 \<or> (\<exists>ncb. s' = s2\<lparr> notify_callbacks := ncb \<rparr>)"
    using assms(2) False r c by (auto simp: CreateTask_def s1_def [symmetric] Let_def split: bool.splits option.splits)
  ultimately show ?thesis by auto
qed

lemma Context_Wait_ok: "sched_ok s \<Longrightarrow> sched_ok (Context_Wait ctx s)"
  by (simp add: Context_Wait_def)

lemma NextRoutine_ok:
  assumes "sched_ok s" "NextRoutine now ctx s = (res, s')"
  shows "sched_ok s'" "res = Some p \<Longrightarrow> p < length (heap s')" "processors s' = processors s"
proof -
  have "sched_ok s' \<and> (\<forall>p. res = Some p \<longrightarrow> p < length (heap s')) \<and> processors s' = processors s"
  proof (cases "cx_stop ctx")
    case True
    then show ?thesis using assms by (auto simp: NextRoutine_def)
  next
    case False
    note n = NextRoutine_taken [OF assms(1) False, of now, unfolded assms(2) fst_conv snd_conv]
    have in_range: "\<forall>p. res = Some p \<longrightarrow> p < length (heap s)"
      using n(1) search_order_mem [OF assms(1)] sched_ok_bounds [OF assms(1)] by (metis find_Some_iff nth_mem)
    note t = taken_heap [OF n(2) [folded n(1)] in_range]
    have "place (routine_at s' q) = place (routine_at s q)" for q
    proof (cases "res = Some q")
      case True
      then show ?thesis using t(8) by (simp add: UpdateState_frame) (simp add: place_def)
    next
      case False
      then show ?thesis using t(7) [of q] by (auto simp: place_def)
    qed
    then have "sched_ok s'" using t(1-3) by (intro sched_ok_cong [OF assms(1)]) simp_all
    then show ?thesis using t(3,4) in_range by simp
  qed
  then show "sched_ok s'" "res = Some p \<Longrightarrow> p < length (heap s')" "processors s' = processors s" by auto
qed

lemma Processor_turn_ok:
  assumes "\<forall>p r w. place (at_switch (fst (body p r w))) = place r" "sched_ok s" "Processor_turn now wall body k (s, w) = (s', w')"
  shows "sched_ok s'"
proof (cases "pr_running (processors s ! k)")
  case False
  then show ?thesis using assms(2,3) by (simp add: Processor_turn_def)
next
  case True
  let ?ctx = "pctxs s ! pr_context (processors s ! k)"
  obtain res s1 where n: "NextRoutine now ?ctx s = (res, s1)" by (metis surj_pair)
  note ok1 = NextRoutine_ok [OF assms(2) n]
  have proc: "sched_ok (s1\<lparr> processors := ps \<rparr>)" for ps using ok1(1) by simp
  show ?thesis
  proof (cases res)
    case None
    then show ?thesis using assms(3) True n Context_Wait_ok [OF proc] by (auto simp: Processor_turn_def Let_def)
  next
    case (Some p)
    define s2 where "s2 = s1\<lparr> processors := (processors s1)[k := (processors s ! k)\<lparr> pr_execute_start_time := wall,
      pr_routine_name := cr_name (routine_at s1 p) \<rparr>] \<rparr>"
    obtain st r w1 where r: "Resume (body p) (routine_at s2 p) w = (st, r, w1)" by (metis prod_cases3)
    have "place r = place (routine_at s2 p)"
      using r assms(1) [rule_format, of p "routine_at s2 p" w]
      by (auto simp: Resume_def Let_def place_def split: if_splits prod.splits)
    then have "sched_ok (set_routine p (Release r) s2)"
      using ok1(2) [OF Some] proc by (intro sched_ok_set) (simp_all add: s2_def place_def Release_def)
    then show ?thesis
      using assms(3) True n Some r by (simp add: Processor_turn_def Let_def s2_def [symmetric])
  qed
qed

lemma Context_Shutdown_ok: "sched_ok s \<Longrightarrow> sched_ok (Context_Shutdown c s)"
  by (simp add: Context_Shutdown_def Let_def)

lemma Processor_Stop_ok: "sched_ok s \<Longrightarrow> sched_ok (Processor_Stop k s)"
  by (simp add: Processor_Stop_def Context_Shutdown_def Let_def)

lemma remove_all_ok: "sched_ok s \<Longrightarrow> remove_all is s = Some s' \<Longrightarrow> sched_ok s'"
  by (induction "is" arbitrary: s) (auto split: option.splits dest: RemoveCRoutine_ok)

lemma Scheduler_Shutdown_ok:
  assumes "sched_ok s" "Scheduler_Shutdown s = Some s'" shows "sched_ok s'"
proof -
  have c: "sched_ok (fold Context_Shutdown cs s)" for cs
    using assms(1) by (induction cs arbitrary: s) (simp_all add: Context_Shutdown_ok)
  have p: "sched_ok t \<Longrightarrow> sched_ok (fold Processor_Stop ks t)" for ks t
    by (induction ks arbitrary: t) (simp_all add: Processor_Stop_ok)
  show ?thesis
    using assms by (auto simp: Scheduler_Shutdown_def Let_def split: if_splits option.splits intro!: p
        dest!: remove_all_ok [OF c])
qed

lemma add_processors_ok: "sched_ok s \<Longrightarrow> sched_ok (add_processors g n s)"
proof (induction n arbitrary: s)
  case (Suc n)
  then show ?case by (simp add: Let_def InitGroup_def)
qed simp

lemma CreateProcessor_loop_ok: "sched_ok s \<Longrightarrow> CreateProcessor_loop gs s = Some s' \<Longrightarrow> sched_ok s'"
proof (induction gs arbitrary: s)
  case (Cons g gs)
  let ?s1 = "if task_pool_size s = 0 then s\<lparr> task_pool_size := sg_processor_num g \<rparr> else s"
  have "sched_ok ?s1" using Cons.prems(1) by simp
  then have "sched_ok (add_processors (sg_name g) (unat (sg_processor_num g)) ?s1)" by (rule add_processors_ok)
  moreover have "CreateProcessor_loop gs (add_processors (sg_name g) (unat (sg_processor_num g)) ?s1) = Some s'"
    using Cons.prems(2) unfolding CreateProcessor_loop.simps Let_def by (simp split: cpuset_result.splits if_splits)
  ultimately show ?case by (rule Cons.IH)
qed simp

lemma construct_ok:
  assumes "SchedulerClassic_construct cfg n g = Some s" shows "sched_ok s"
proof -
  have "sched_ok (scheduler_empty g)" by (simp add: sched_ok_def scheduler_empty_def)
  moreover have "\<exists>t. CreateProcessor t = Some s \<and> sched_ok t = sched_ok (scheduler_empty g)"
    using assms by (auto simp: SchedulerClassic_construct_def Let_def split: option.splits cpuset_result.splits)
  ultimately show ?thesis unfolding CreateProcessor_def using CreateProcessor_loop_ok by blast
qed

text \<open>Any sequence of operations; \<open>None\<close>: one of them does not return.\<close>

datatype sched_op = OpCreate int "u8 list" "nat option" | OpRemoveTask "u8 list" | OpRemove u64 | OpNotify u64
  | OpVisitor nat | OpTurn "nat \<Rightarrow> int" u64 nat | OpShutdown

fun sched_apply ::
  "(u8 list \<Rightarrow> u64) \<Rightarrow> (nat \<Rightarrow> 'w slice) \<Rightarrow> sched_op \<Rightarrow> scheduler \<times> 'w \<Rightarrow> (scheduler \<times> 'w) option" where
  "sched_apply Hash body (OpCreate now name v) (s, w) = map_option (\<lambda>r. (snd r, w)) (CreateTask Hash now name v s)"
| "sched_apply Hash body (OpRemoveTask name) (s, w) = map_option (\<lambda>r. (snd r, w)) (RemoveTask Hash name s)"
| "sched_apply Hash body (OpRemove i) (s, w) = map_option (\<lambda>r. (snd r, w)) (RemoveCRoutine i s)"
| "sched_apply Hash body (OpNotify i) (s, w) = Some (snd (NotifyTask i s), w)"
| "sched_apply Hash body (OpVisitor v) (s, w) = Some (visitor_callback v s, w)"
| "sched_apply Hash body (OpTurn now wall k) (s, w) = Some (Processor_turn now wall body k (s, w))"
| "sched_apply Hash body OpShutdown (s, w) = map_option (\<lambda>s'. (s', w)) (Scheduler_Shutdown s)"

fun sched_run ::
  "(u8 list \<Rightarrow> u64) \<Rightarrow> (nat \<Rightarrow> 'w slice) \<Rightarrow> sched_op list \<Rightarrow> scheduler \<times> 'w \<Rightarrow> (scheduler \<times> 'w) option" where
  "sched_run Hash body [] sw = Some sw"
| "sched_run Hash body (c # cs) sw =
     (case sched_apply Hash body c sw of None \<Rightarrow> None | Some sw1 \<Rightarrow> sched_run Hash body cs sw1)"

lemma sched_apply_ok:
  assumes "\<forall>p r w. place (at_switch (fst (body p r w))) = place r" "sched_ok s" "sched_apply Hash body c (s, w) = Some (s', w')"
  shows "sched_ok s'"
proof (cases c)
  case (OpCreate now name v)
  then show ?thesis using assms(2,3) CreateTask_ok by auto
next
  case (OpRemoveTask name)
  then show ?thesis using assms(2,3) RemoveCRoutine_ok by (auto simp: RemoveTask_def split: if_splits)
next
  case (OpRemove i)
  then show ?thesis using assms(2,3) RemoveCRoutine_ok by auto
next
  case (OpNotify i)
  then show ?thesis using assms(2,3) NotifyProcessor_ok [of s i] by (auto simp: NotifyTask_def)
next
  case (OpVisitor v)
  then show ?thesis using assms(2,3) NotifyProcessor_ok [of s] by (auto simp: visitor_callback_def split: option.splits)
next
  case (OpTurn now wall k)
  then show ?thesis using assms(3) Processor_turn_ok [OF assms(1,2)] by simp
next
  case OpShutdown
  then show ?thesis using assms(2,3) Scheduler_Shutdown_ok by auto
qed

lemma sched_run_ok:
  assumes "\<forall>p r w. place (at_switch (fst (body p r w))) = place r" "sched_ok s" "sched_run Hash body cs (s, w) = Some (s', w')"
  shows "sched_ok s'"
  using assms(2,3)
proof (induction cs arbitrary: s w)
  case (Cons c cs)
  obtain s1 w1 where "sched_apply Hash body c (s, w) = Some (s1, w1)" "sched_run Hash body cs (s1, w1) = Some (s', w')"
    using Cons.prems(2) by (auto split: option.splits)
  then show ?case using Cons.IH sched_apply_ok [OF assms(1) Cons.prems(1)] by blast
qed simp

text \<open>C10: After any sequence of task creations, removals, notifications, turns of processors and shutdowns on
  a scheduler constructed from any configuration: every registered coroutine has a priority below
  \<open>MAX_PRIO\<close> and is in the queue of its group and priority, once, and no queue holds a coroutine that is
  not registered.  (A coroutine does not rename or move itself.)\<close>

theorem scheduler_queues_consistent:
  assumes "\<forall>p r w. place (at_switch (fst (body p r w))) = place r"
    and "SchedulerClassic_construct cfg default_proc_num g = Some s0"
    and "sched_run Hash body cs (s0, w0) = Some (s, w)"
  shows "sched_ok s"
  by (rule sched_run_ok [OF assms(1) construct_ok [OF assms(2)] assms(3)])


text \<open>A configuration with one group, one processor and one task of priority 3; two tasks created on it, under
  a hash function that gives all names the same value.\<close>

definition demo_conf :: SchedulerConf where
  "demo_conf = \<lparr> sc_policy = [], sc_routine_num = 10, sc_default_proc_num = 0, sc_process_level_cpuset = [48, 45, 51],
     sc_threads = [], sc_classic_groups = [\<lparr> sg_name = [103], sg_processor_num = 1, sg_affinity = [], sg_cpuset = [49],
       sg_processor_policy = [], sg_processor_prio = 0,
       sg_tasks = [\<lparr> ct_name = [104], ct_prio = 3, ct_group_name = [] \<rparr>] \<rparr>] \<rparr>"

definition demo_ops :: "sched_op list" where
  "demo_ops = [OpCreate 0 [108] None, OpCreate 0 [104] None]"

definition demo_body :: "nat \<Rightarrow> nat slice" where
  "demo_body p r w = (Yield_state READY r, Suc w)"

definition demo_fresh :: "scheduler option" where
  "demo_fresh = SchedulerClassic_construct (Some demo_conf) 0 registers_init"

definition demo_sched :: "sched_op list \<Rightarrow> (scheduler \<times> nat) option" where
  "demo_sched cs = (case demo_fresh of None \<Rightarrow> None | Some s0 \<Rightarrow> sched_run (\<lambda>_. 5) demo_body (demo_ops @ cs) (s0, 0))"

lemma demo_body_place: "place (at_switch (fst (demo_body p r w))) = place r"
  by (simp add: demo_body_def place_def Yield_state_def set_state_def)

lemma demo_sched_run:
  assumes "demo_sched cs = Some (s, w)"
  shows "\<exists>s0. SchedulerClassic_construct (Some demo_conf) 0 registers_init = Some s0 \<and>
    sched_run (\<lambda>_. 5) demo_body (demo_ops @ cs) (s0, 0) = Some (s, w)"
  using assms by (auto simp: demo_sched_def demo_fresh_def split: option.splits)

lemma scheduler_queues_consistent_witness:
  "\<exists>s w. demo_sched [OpTurn (\<lambda>_. 1) 7 0, OpRemove 6] = Some (s, w) \<and> sched_ok s \<and> w = 1 \<and> id_cr s = [(5, 0)]"
proof -
  let ?cs = "[OpTurn (\<lambda>_. 1) 7 0, OpRemove 6]"
  have v: "map_option (\<lambda>(s, w). (id_cr s, w)) (demo_sched ?cs) = Some ([(5, 0)], 1)" by code_simp
  then obtain s w where s: "demo_sched ?cs = Some (s, w)" by (cases "demo_sched ?cs") auto
  then obtain s0 where "SchedulerClassic_construct (Some demo_conf) 0 registers_init = Some s0"
    "sched_run (\<lambda>_. 5) demo_body (demo_ops @ ?cs) (s0, 0) = Some (s, w)" using demo_sched_run by blast
  note c = this
  have "sched_ok s" by (rule scheduler_queues_consistent [OF _ c]) (simp add: demo_body_place)
  then show ?thesis using s v by auto
qed

lemma next_routine_highest_witness:
  "\<exists>s w s'. demo_sched [] = Some (s, w) \<and> NextRoutine (\<lambda>_. 1) (pctxs s ! 0) s = (Some 1, s') \<and>
     cr_lock (routine_at s' 1) \<and> cr_state (routine_at s' 1) = READY"
proof -
  have v: "map_option (\<lambda>(s, w). (fst (NextRoutine (\<lambda>_. 1) (pctxs s ! 0) s), cx_stop (pctxs s ! 0))) (demo_sched [])
      = Some (Some 1, False)" by code_simp
  then obtain s w where s: "demo_sched [] = Some (s, w)" by (cases "demo_sched []") auto
  then obtain s0 where c: "SchedulerClassic_construct (Some demo_conf) 0 registers_init = Some s0"
    "sched_run (\<lambda>_. 5) demo_body (demo_ops @ []) (s0, 0) = Some (s, w)" using demo_sched_run by blast
  have ok: "sched_ok s"
    by (rule sched_run_ok [OF _ construct_ok [OF c(1)] c(2)]) (simp add: demo_body_place)
  obtain s' where n: "NextRoutine (\<lambda>_. 1) (pctxs s ! 0) s = (Some 1, s')" "\<not> cx_stop (pctxs s ! 0)"
    using v s by (cases "NextRoutine (\<lambda>_. 1) (pctxs s ! 0) s") auto
  show ?thesis using next_routine_highest [OF ok n(2,1)] s n by blast
qed

section \<open>Removal by name\<close>

lemma register_fresh:
  fixes Hash :: "u8 list \<Rightarrow> u64"
  assumes "Hash a = Hash b" "a \<noteq> b" "RegisterTaskName Hash a registers_init = Some (i, g)"
    "RegisterTaskName Hash b g = Some (j, g')"
  shows "i = Hash a" "j = Hash a + 1"
proof -
  let ?m = "ahm_construct 256 :: u8 list hash_map"
  have ok: "ahm_ok ?m" by (simp add: ahm_construct_ok)
  have e: "ahm_Get ?m x = None" for x by (simp add: ahm_Get_construct)
  have p: "probe ?m a (Hash a) = Some (Hash a)" using probe_here [OF ok] e by (simp add: stops_def)
  then have i: "i = Hash a" "task_id_map g = ahm_Set (Hash a) a ?m"
    using assms(3) by (auto simp: RegisterTaskName_def register_name_def registers_init_def)
  let ?m1 = "ahm_Set (Hash a) a ?m"
  have ok1: "ahm_ok ?m1" using ok by (rule ahm.insert_invar)
  have g1: "ahm_Get ?m1 = (ahm_Get ?m)(Hash a \<mapsto> a)" using ok by (rule ahm.lookup_insert)
  have "probe ?m1 b (Hash b) = probe ?m1 b (Hash b + 1)"
    using assms(1,2) by (intro probe_on [OF ok1]) (unfold stops_def g1, simp)
  also have "\<dots> = Some (Hash b + 1)"
    using assms(1) e by (intro probe_here [OF ok1]) (unfold stops_def g1, simp)
  finally have "j = Hash b + 1" using assms(4) i(2) by (auto simp: RegisterTaskName_def register_name_def)
  then show "i = Hash a" "j = Hash a + 1" using i assms(1) by simp_all
qed

lemma DispatchTask_true:
  "DispatchTask p s = (True, s') \<Longrightarrow>
    id_cr s' = (cr_id (routine_at s p), p) # id_cr s \<and> registers s' = registers s \<and> sched_stop s' = sched_stop s \<and>
    processors s' = processors s"
  by (auto simp: DispatchTask_def Let_def Context_Notify_def split: if_splits option.splits)

lemma CreateTask_true:
  assumes "CreateTask Hash now name v s = Some (True, s')"
  shows "\<exists>i g. RegisterTaskName Hash name (registers s) = Some (i, g) \<and> registers s' = g \<and>
    id_cr s' = (i, length (heap s)) # id_cr s \<and> \<not> sched_stop s' \<and> processors s' = processors s"
proof -
  have st: "\<not> sched_stop s" using assms by (auto simp: CreateTask_def)
  obtain i g where r: "RegisterTaskName Hash name (registers s) = Some (i, g)"
    using assms st by (cases "RegisterTaskName Hash name (registers s)") (auto simp: CreateTask_def)
  define s1 where "s1 = s\<lparr> registers := g, heap := heap s @ [(CRoutine_construct now)\<lparr> cr_id := i, cr_name := name \<rparr>] \<rparr>"
  have i: "cr_id (routine_at s1 (length (heap s))) = i" by (simp add: s1_def routine_at_def)
  obtain c s2 where c: "DispatchTask (length (heap s)) s1 = (c, s2)" by (metis surj_pair)
  have "c \<and> (s' = s2 \<or> (\<exists>ncb. s' = s2\<lparr> notify_callbacks := ncb \<rparr>))"
    using assms st r c by (auto simp: CreateTask_def s1_def [symmetric] Let_def split: bool.splits option.splits)
  then show ?thesis using DispatchTask_true [of _ s1 s2] c r i st by (auto simp: s1_def)
qed

lemma RemoveCRoutine_ids:
  assumes "RemoveCRoutine i s = Some (r, s')"
  shows "id_cr s' = AList.delete i (id_cr s) \<and> sched_stop s' = sched_stop s \<and> processors s' = processors s \<and>
    pctxs s' = pctxs s"
proof (cases "map_of (id_cr s) i")
  case None
  then have "i \<notin> fst ` set (id_cr s)" by (simp add: map_of_eq_None_iff)
  then show ?thesis using assms None by (auto simp: RemoveCRoutine_def delete_id)
next
  case (Some p)
  then show ?thesis
    using assms by (auto simp: RemoveCRoutine_def Context_RemoveCRoutine_def Let_def split: option.splits prod.splits bool.splits)
qed

text \<open>\<open>RemoveTask\<close> hashes the name again instead of asking for the identifier it was registered under: when
  the names of two tasks have one hash value, removing the second task removes the first and leaves
  the second registered.\<close>

theorem remove_task_of_colliding_name:
  assumes "a \<noteq> b" "Hash a = Hash b" "id_cr s = []" "registers s = registers_init"
    and "CreateTask Hash now a None s = Some (True, s1)" "CreateTask Hash now' b None s1 = Some (True, s2)"
    and "RemoveTask Hash b s2 = Some (r, s3)"
  shows "map_of (id_cr s2) = [Hash a \<mapsto> length (heap s), Hash a + 1 \<mapsto> length (heap s1)] \<and>
    map_of (id_cr s3) = [Hash a + 1 \<mapsto> length (heap s1)]"
proof -
  obtain i g where 1: "RegisterTaskName Hash a registers_init = Some (i, g)" "registers s1 = g"
    "id_cr s1 = [(i, length (heap s))]"
    using CreateTask_true [OF assms(5)] assms(3,4) by auto
  obtain j g' where 2: "RegisterTaskName Hash b g = Some (j, g')"
    "id_cr s2 = [(j, length (heap s1)), (i, length (heap s))]" "\<not> sched_stop s2"
    using CreateTask_true [OF assms(6)] 1 by auto
  note ij = register_fresh [OF assms(2,1) 1(1) 2(1)]
  have ne: "Hash a + 1 \<noteq> Hash a" by simp
  have "RemoveCRoutine (Hash b) s2 = Some (r, s3)"
    using assms(7) 2(3) by (simp add: RemoveTask_def GenerateHashId_def)
  then have "id_cr s3 = AList.delete (Hash a) (id_cr s2)" using RemoveCRoutine_ids assms(2) by metis
  then have "id_cr s3 = [(Hash a + 1, length (heap s1))]" using 2(2) ij ne by simp
  moreover have "map_of (id_cr s2) = [Hash a \<mapsto> length (heap s), Hash a + 1 \<mapsto> length (heap s1)]"
    using 2(2) ij ne by (auto simp: fun_eq_iff)
  ultimately show ?thesis by simp
qed

lemma remove_task_of_colliding_name_witness:
  "\<exists>s s1 s2 s3 r. CreateTask (\<lambda>_. 5) 0 [108] None s = Some (True, s1) \<and> CreateTask (\<lambda>_. 5) 0 [104] None s1 = Some (True, s2) \<and>
    RemoveTask (\<lambda>_. 5) [104] s2 = Some (r, s3) \<and> map_of (id_cr s3) = [6 \<mapsto> 1]"
proof -
  define s where "s = (scheduler_empty registers_init)\<lparr> conf_groups := sc_classic_groups demo_conf \<rparr>"
  define s1 where "s1 = snd (the (CreateTask (\<lambda>_. 5) 0 [108] None s))"
  define s2 where "s2 = snd (the (CreateTask (\<lambda>_. 5) 0 [104] None s1))"
  define s3 where "s3 = snd (the (RemoveTask (\<lambda>_. 5) [104] s2))"
  have "map_option fst (CreateTask (\<lambda>_. 5) 0 [108] None s) = Some True" unfolding s_def by code_simp
  then have 1: "CreateTask (\<lambda>_. 5) 0 [108] None s = Some (True, s1)"
    unfolding s1_def by (cases "CreateTask (\<lambda>_. 5) 0 [108] None s") auto
  have "map_option fst (CreateTask (\<lambda>_. 5) 0 [104] None s1) = Some True" unfolding s1_def s_def by code_simp
  then have 2: "CreateTask (\<lambda>_. 5) 0 [104] None s1 = Some (True, s2)"
    unfolding s2_def by (cases "CreateTask (\<lambda>_. 5) 0 [104] None s1") auto
  have "map_option fst (RemoveTask (\<lambda>_. 5) [104] s2) = Some True" unfolding s2_def s1_def s_def by code_simp
  then have 3: "RemoveTask (\<lambda>_. 5) [104] s2 = Some (True, s3)"
    unfolding s3_def by (cases "RemoveTask (\<lambda>_. 5) [104] s2") auto
  have l: "length (heap s1) = 1" unfolding s1_def s_def by code_simp
  have "map_of (id_cr s3) = [5 + 1 \<mapsto> length (heap s1)]"
    by (rule remove_task_of_colliding_name [OF _ _ _ _ 1 2 3, THEN conjunct2])
      (simp_all add: s_def scheduler_empty_def)
  then have "map_of (id_cr s3) = [6 \<mapsto> 1]" using l by simp
  then show ?thesis using 1 2 3 by blast
qed

section \<open>Shutdown\<close>

lemma remove_all_ids:
  assumes "remove_all is s = Some s'"
  shows "id_cr s' = filter (\<lambda>e. fst e \<notin> set is) (id_cr s) \<and> sched_stop s' = sched_stop s"
  using assms
proof (induction "is" arbitrary: s)
  case (Cons i "is")
  obtain r s1 where 1: "RemoveCRoutine i s = Some (r, s1)" "remove_all is s1 = Some s'"
    using Cons.prems by (auto split: option.splits)
  have "AList.delete i xs = filter (\<lambda>e. fst e \<noteq> i) xs" for xs :: "(u64 \<times> nat) list" by (induction xs) auto
  then show ?case using Cons.IH [OF 1(2)] RemoveCRoutine_ids [OF 1(1)] by (auto simp: conj_commute intro: filter_cong)
qed simp

text \<open>\<open>Shutdown\<close> removes every coroutine, stops all processors and forgets them, but never sets \<open>stop_\<close>: a task
  created afterwards is accepted although no processor is left to run it.\<close>

theorem shutdown_keeps_accepting:
  assumes "sched_ok s" "\<not> sched_stop s" "Scheduler_Shutdown s = Some s'"
    and "CreateTask Hash now name v s' = Some (r, s'')"
  shows "id_cr s' = [] \<and> processors s' = [] \<and> r \<and> processors s'' = [] \<and> length (id_cr s'') = 1"
proof -
  define s1 where "s1 = fold Context_Shutdown [0..<length (pctxs s)] s"
  have "heap (fold Context_Shutdown cs t) = heap t \<and> id_cr (fold Context_Shutdown cs t) = id_cr t \<and>
      sched_stop (fold Context_Shutdown cs t) = sched_stop t" for cs t
    by (induction cs arbitrary: t) (simp_all add: Context_Shutdown_def Let_def)
  then have s1: "heap s1 = heap s" "id_cr s1 = id_cr s" "sched_stop s1 = sched_stop s" by (simp_all add: s1_def)
  have "map (\<lambda>(i, p). cr_id (routine_at s1 p)) (id_cr s1) = map fst (id_cr s)"
    using sched_okD(2) [OF assms(1)] sched_ok_distinct [OF assms(1)]
    by (auto simp: s1 routine_at_def intro!: map_cong)
  then obtain s2 where s2: "remove_all (map fst (id_cr s)) s1 = Some s2"
    "s' = (fold Processor_Stop [0..<length (processors s2)] s2)\<lparr> processors := [], pctxs := [] \<rparr>"
    using assms(2,3) by (auto simp: Scheduler_Shutdown_def s1_def [symmetric] Let_def split: option.splits)
  have "id_cr s2 = []" "\<not> sched_stop s2"
    using remove_all_ids [OF s2(1)] s1 assms(2) by (auto simp: filter_empty_conv)
  moreover have "id_cr (fold Processor_Stop ks t) = id_cr t \<and> sched_stop (fold Processor_Stop ks t) = sched_stop t" for ks t
    by (induction ks arbitrary: t) (simp_all add: Processor_Stop_def Context_Shutdown_def Let_def)
  ultimately have s': "id_cr s' = []" "\<not> sched_stop s'" "processors s' = []" by (simp_all add: s2(2))
  have "r"
    using assms(4) s'(1,2)
    by (auto simp: CreateTask_def DispatchTask_def Let_def split: option.splits)
  then have "CreateTask Hash now name v s' = Some (True, s'')" using assms(4) by simp
  then show ?thesis using CreateTask_true s' \<open>r\<close> by fastforce
qed

lemma shutdown_keeps_accepting_witness:
  "\<exists>s w s' r s''. demo_sched [] = Some (s, w) \<and> length (id_cr s) = 2 \<and> Scheduler_Shutdown s = Some s' \<and>
     CreateTask (\<lambda>_. 5) 0 [105] None s' = Some (r, s'') \<and> r \<and> processors s'' = []"
proof -
  have v: "map_option (\<lambda>(s, w). (length (id_cr s), sched_stop s,
      case Scheduler_Shutdown s of None \<Rightarrow> False | Some s' \<Rightarrow> CreateTask (\<lambda>_. 5) 0 [105] None s' \<noteq> None)) (demo_sched [])
      = Some (2, False, True)" by code_simp
  then obtain s w where s: "demo_sched [] = Some (s, w)" by (cases "demo_sched []") auto
  then obtain s0 where c: "SchedulerClassic_construct (Some demo_conf) 0 registers_init = Some s0"
    "sched_run (\<lambda>_. 5) demo_body (demo_ops @ []) (s0, 0) = Some (s, w)" using demo_sched_run by blast
  have ok: "sched_ok s"
    by (rule sched_run_ok [OF _ construct_ok [OF c(1)] c(2)]) (simp add: demo_body_place)
  obtain s' r s'' where x: "Scheduler_Shutdown s = Some s'" "CreateTask (\<lambda>_. 5) 0 [105] None s' = Some (r, s'')"
    "length (id_cr s) = 2" "\<not> sched_stop s"
    using v s by (auto split: option.splits)
  show ?thesis using shutdown_keeps_accepting [OF ok x(4,1,2)] s x by blast
qed


section \<open>Cpu sets\<close>

text \<open>A cpu set as the configuration writes it: single cpus and ranges.\<close>

datatype cpu_item = Cpu nat | CpuRange nat nat

fun print_item :: "cpu_item \<Rightarrow> u8 list" where
  "print_item (Cpu c) = to_string (int c)"
| "print_item (CpuRange a b) = to_string (int a) @ 45 # to_string (int b)"

fun print_cpuset :: "cpu_item list \<Rightarrow> u8 list" where
  "print_cpuset [] = []"
| "print_cpuset [x] = print_item x"
| "print_cpuset (x # xs) = print_item x @ 44 # print_cpuset xs"

fun item_cpus :: "cpu_item \<Rightarrow> int list" where
  "item_cpus (Cpu c) = [int c]"
| "item_cpus (CpuRange a b) = [int a..int b]"

fun item_ok :: "cpu_item \<Rightarrow> bool" where
  "item_ok (Cpu c) \<longleftrightarrow> c < 2 ^ 31"
| "item_ok (CpuRange a b) \<longleftrightarrow> a < 2 ^ 31 \<and> b < 2 ^ 31"

lemma to_string_nat: "to_string (int n) = digits n"
  by (simp add: to_string_def)

lemma digits_sep: "44 \<notin> set (digits n)" "45 \<notin> set (digits n)"
  using digits_all [of _ n] digit_not_space by blast+

lemma stoi_digits: "n < 2 ^ 31 \<Longrightarrow> stoi (digits n) = Some (int n)"
  using stoi_to_string [of "int n" "[]"] by (simp add: to_string_nat)

lemma parse_item: "item_ok x \<Longrightarrow> parse_range (print_item x) = Cpus (item_cpus x)"
  by (cases x) (simp_all add: parse_range_def to_string_nat getlines_one getlines_cons digits_sep stoi_digits)

lemma item_sep: "44 \<notin> set (print_item x)" "print_item x \<noteq> []"
  by (cases x; simp add: to_string_nat digits_sep)+

text \<open>\<open>ParseCpuset\<close> reads back every comma separated list of cpus and of ranges of cpus, and gives the cpus in
  the order written, those of a range in ascending order.\<close>

theorem cpuset_round_trip:
  assumes "\<forall>x \<in> set xs. item_ok x"
  shows "ParseCpuset (print_cpuset xs) = Cpus (concat (map item_cpus xs))"
  using assms
proof (induction xs rule: print_cpuset.induct)
  case (3 x y xs)
  then have "parse_lines (getlines 44 (print_cpuset (y # xs))) = Cpus (concat (map item_cpus (y # xs)))"
    by (simp add: ParseCpuset_def)
  then show ?case using 3(2) by (simp add: ParseCpuset_def getlines_cons item_sep parse_item)
qed (simp_all add: ParseCpuset_def getlines_one item_sep parse_item)

lemma cpuset_round_trip_witness:
  "ParseCpuset [48, 45, 51, 44, 49, 50] = Cpus [0, 1, 2, 3, 12]"
proof -
  have "ParseCpuset (print_cpuset [CpuRange 0 3, Cpu 12]) = Cpus (concat (map item_cpus [CpuRange 0 3, Cpu 12]))"
    by (rule cpuset_round_trip) simp
  moreover have "print_cpuset [CpuRange 0 3, Cpu 12] = [48, 45, 51, 44, 49, 50]"
    by code_simp
  moreover have "concat (map item_cpus [CpuRange 0 3, Cpu 12]) = [0, 1, 2, 3, 12]" by code_simp
  ultimately show ?thesis by simp
qed

end
