(* ===== verification/ThreadPool.thy ===== *)
theory ThreadPool
  imports BoundedQueue "HOL-Library.Multiset"
begin

text \<open>
  \<open>base/wait_srategy.h\<close>, the waiting operations of \<open>base/bounded_queue.h\<close> and
  \<open>base/thread_pool.h\<close>.  A waiting operation is a small program whose steps are taken one at a
  time; what the operating system decides (a wake-up of the condition variable, an elapsed
  time-out) is an input of the step.  The pool is the task queue, the stop flag and the workers'
  program counters, driven by an explicit sequence of actions.
\<close>

section \<open>Wait strategies\<close>

datatype wait_strategy =
    BlockWaitStrategy | SleepWaitStrategy u64 | YieldWaitStrategy | BusySpinWaitStrategy
  | TimeoutBlockWaitStrategy u64

definition SetSleepTimeMicroSeconds :: "u64 \<Rightarrow> wait_strategy \<Rightarrow> wait_strategy" where
  "SetSleepTimeMicroSeconds us w = (case w of SleepWaitStrategy _ \<Rightarrow> SleepWaitStrategy us | _ \<Rightarrow> w)"

definition SetTimeout :: "u64 \<Rightarrow> wait_strategy \<Rightarrow> wait_strategy" where
  "SetTimeout ms w = (case w of TimeoutBlockWaitStrategy _ \<Rightarrow> TimeoutBlockWaitStrategy ms | _ \<Rightarrow> w)"

text \<open>Whether \<open>NotifyOne\<close> and \<open>BreakAllWait\<close> signal a condition variable.\<close>

fun strategy_notifies :: "wait_strategy \<Rightarrow> bool" where
  "strategy_notifies BlockWaitStrategy = True"
| "strategy_notifies (TimeoutBlockWaitStrategy _) = True"
| "strategy_notifies _ = False"

text \<open>One look of a waiting thread: \<open>None\<close> while \<open>EmptyWait\<close> has not returned.  The blocking
  strategy waits with a predicate, so being woken is not enough.\<close>

fun EmptyWait :: "wait_strategy \<Rightarrow> bool \<Rightarrow> bool \<Rightarrow> bool \<Rightarrow> bool option" where
  "EmptyWait BlockWaitStrategy brk woken timed_out = (if brk then Some True else None)"
| "EmptyWait (SleepWaitStrategy us) brk woken timed_out = Some True"
| "EmptyWait YieldWaitStrategy brk woken timed_out = Some True"
| "EmptyWait BusySpinWaitStrategy brk woken timed_out = Some True"
| "EmptyWait (TimeoutBlockWaitStrategy ms) brk woken timed_out =
     (if timed_out then Some False else if woken then Some True else None)"

section \<open>Waiting operations\<close>

text \<open>At the \<open>while\<close> test; about to try; inside \<open>EmptyWait\<close>; returned.\<close>

datatype 'r wait_pc = WLoop | WTry | WWait | WDone 'r

fun WaitDequeue_step ::
  "wait_strategy \<Rightarrow> bool \<Rightarrow> bool \<Rightarrow> 'a option wait_pc \<Rightarrow> 'a bounded_queue
    \<Rightarrow> 'a option wait_pc \<times> 'a bounded_queue" where
  "WaitDequeue_step w woken timed_out WLoop q = ((if break_all_wait q then WDone None else WTry), q)"
| "WaitDequeue_step w woken timed_out WTry q =
     (case bq_Dequeue q of
        (Some x, q') \<Rightarrow> (WDone (Some x), q')
      | (None, q') \<Rightarrow> (WWait, q'))"
| "WaitDequeue_step w woken timed_out WWait q =
     (case EmptyWait w (break_all_wait q) woken timed_out of
        None \<Rightarrow> (WWait, q)
      | Some True \<Rightarrow> (WLoop, q)
      | Some False \<Rightarrow> (WDone None, q))"
| "WaitDequeue_step w woken timed_out (WDone r) q = (WDone r, q)"

fun WaitEnqueue_step ::
  "'a \<Rightarrow> wait_strategy \<Rightarrow> bool \<Rightarrow> bool \<Rightarrow> bool wait_pc \<Rightarrow> 'a bounded_queue
    \<Rightarrow> bool wait_pc \<times> 'a bounded_queue" where
  "WaitEnqueue_step x w woken timed_out WLoop q = ((if break_all_wait q then WDone False else WTry), q)"
| "WaitEnqueue_step x w woken timed_out WTry q =
     (case bq_Enqueue x q of
        (True, q') \<Rightarrow> (WDone True, q')
      | (False, q') \<Rightarrow> (WWait, q'))"
| "WaitEnqueue_step x w woken timed_out WWait q =
     (case EmptyWait w (break_all_wait q) woken timed_out of
        None \<Rightarrow> (WWait, q)
      | Some True \<Rightarrow> (WLoop, q)
      | Some False \<Rightarrow> (WDone False, q))"
| "WaitEnqueue_step x w woken timed_out (WDone r) q = (WDone r, q)"

section \<open>The thread pool\<close>

text \<open>A worker: at the \<open>while (!stop_)\<close> test, inside \<open>WaitDequeue\<close>, running a task, returned.\<close>

datatype 'f worker = TpLoop | TpGet "'f option wait_pc" | TpRun 'f | TpExit

record 'f thread_pool =
  task_queue :: "'f bounded_queue"
  strategy :: wait_strategy
  tp_stop :: bool
  workers :: "'f worker list"
  tp_accepted :: "'f list"
  tp_taken :: "'f list"
  tp_started :: "'f list"

text \<open>The last three fields are records of what happened: the tasks the queue accepted, those a
  worker has taken out of the queue, and those whose body has begun, each in the order of the
  event.  \<open>None\<close>: the constructor throws because the queue could not be allocated.\<close>

definition ThreadPool_construct ::
  "(u64 \<Rightarrow> bool) \<Rightarrow> 'f \<Rightarrow> nat \<Rightarrow> u64 \<Rightarrow> 'f thread_pool option" where
  "ThreadPool_construct alloc dflt threads max_task_num =
     (case bq_Init alloc dflt max_task_num bq_construct of
        (False, _) \<Rightarrow> None
      | (True, q) \<Rightarrow> Some \<lparr> task_queue = q, strategy = BlockWaitStrategy, tp_stop = False,
          workers = replicate threads TpLoop, tp_accepted = [], tp_taken = [], tp_started = [] \<rparr>)"

definition ThreadPool_Enqueue :: "'f \<Rightarrow> 'f thread_pool \<Rightarrow> 'f thread_pool" where
  "ThreadPool_Enqueue f s =
     (if tp_stop s then s
      else (let (ok, q) = bq_Enqueue f (task_queue s)
            in s\<lparr> task_queue := q, tp_accepted := tp_accepted s @ (if ok then [f] else []) \<rparr>))"

definition ThreadPool_destroy :: "'f thread_pool \<Rightarrow> 'f thread_pool" where
  "ThreadPool_destroy s =
     (if tp_stop s then s
      else s\<lparr> tp_stop := True, task_queue := bq_BreakAllWait (task_queue s) \<rparr>)"

text \<open>One step of worker \<open>i\<close>.  Between the step that takes a task out of the queue and the step
  that begins \<open>task()\<close> other workers may run; the last step of a task is its return.\<close>

definition worker_step :: "nat \<Rightarrow> bool \<Rightarrow> bool \<Rightarrow> 'f thread_pool \<Rightarrow> 'f thread_pool" where
  "worker_step i woken timed_out s =
     (if i \<ge> length (workers s) then s
      else case workers s ! i of
        TpLoop \<Rightarrow> s\<lparr> workers := (workers s)[i := if tp_stop s then TpExit else TpGet WLoop] \<rparr>
      | TpGet (WDone None) \<Rightarrow> s\<lparr> workers := (workers s)[i := TpLoop] \<rparr>
      | TpGet (WDone (Some f)) \<Rightarrow>
          s\<lparr> workers := (workers s)[i := TpRun f], tp_started := tp_started s @ [f] \<rparr>
      | TpGet pc \<Rightarrow>
          (let (pc', q) = WaitDequeue_step (strategy s) woken timed_out pc (task_queue s)
           in s\<lparr> task_queue := q, workers := (workers s)[i := TpGet pc'],
                 tp_taken := tp_taken s @ (case pc' of WDone (Some f) \<Rightarrow> [f] | _ \<Rightarrow> []) \<rparr>)
      | TpRun f \<Rightarrow> s\<lparr> workers := (workers s)[i := TpLoop] \<rparr>
      | TpExit \<Rightarrow> s)"

datatype 'f pool_action = ActEnqueue 'f | ActWorker nat bool bool | ActDestroy

fun pool_step :: "'f pool_action \<Rightarrow> 'f thread_pool \<Rightarrow> 'f thread_pool" where
  "pool_step (ActEnqueue f) s = ThreadPool_Enqueue f s"
| "pool_step (ActWorker i woken timed_out) s = worker_step i woken timed_out s"
| "pool_step ActDestroy s = ThreadPool_destroy s"

section \<open>Tasks are taken in the order in which they were accepted\<close>

text \<open>The task that a worker has taken out of the queue and not yet begun.\<close>

fun held_task :: "'f worker \<Rightarrow> 'f list" where
  "held_task (TpGet (WDone (Some f))) = [f]"
| "held_task _ = []"

abbreviation held_tasks :: "'f thread_pool \<Rightarrow> 'f list" where
  "held_tasks s \<equiv> concat (map held_task (workers s))"

definition pool_inv :: "nat \<Rightarrow> 'f thread_pool \<Rightarrow> bool" where
  "pool_inv n s \<longleftrightarrow> bq_inv n (task_queue s) \<and>
     tp_accepted s = tp_taken s @ bq_items (task_queue s) \<and>
     mset (tp_taken s) = mset (tp_started s) + mset (held_tasks s) \<and>
     (length (workers s) \<le> 1 \<longrightarrow> tp_taken s = tp_started s @ held_tasks s)"

lemma held_update:
  "i < length ws \<Longrightarrow> mset (concat (map held_task (ws[i := w]))) + mset (held_task (ws ! i)) =
     mset (concat (map held_task ws)) + mset (held_task w)"
  using sum_list_change [of i ws "\<lambda>w. mset (held_task w)" w] by (simp add: mset_concat comp_def)

lemma held_single: "length ws \<le> 1 \<Longrightarrow> i < length ws \<Longrightarrow>
    concat (map held_task (ws[i := w])) = held_task w \<and> concat (map held_task ws) = held_task (ws ! i)"
  by (cases ws) auto

lemma pool_inv_mono: "pool_inv (Suc n) s \<Longrightarrow> pool_inv n s"
  by (simp add: pool_inv_def bq.invar_mono)

lemma Enqueue_pool_inv:
  assumes "pool_inv (Suc n) s" shows "pool_inv n (ThreadPool_Enqueue f s)"
proof -
  have i: "bq_inv (Suc n) (task_queue s)" using assms by (simp add: pool_inv_def)
  then show ?thesis
    by (cases rule: bq.enq_cases [where x = f])
      (use assms in \<open>auto simp: pool_inv_def ThreadPool_Enqueue_def bq.invar_mono\<close>)
qed

lemma destroy_pool_inv: "pool_inv n s \<Longrightarrow> pool_inv n (ThreadPool_destroy s)"
  by (auto simp: pool_inv_def ThreadPool_destroy_def bq_BreakAllWait_def bq_inv_def bq_items_def)

lemma WaitDequeue_step_items:
  assumes "bq_inv n q" "WaitDequeue_step w woken timed_out pc q = (pc', q')" "\<And>f. pc \<noteq> WDone f"
  shows "bq_inv n q' \<and> bq_items q = (case pc' of WDone (Some f) \<Rightarrow> [f] | _ \<Rightarrow> []) @ bq_items q'"
  using assms
proof (cases pc)
  case WTry
  show ?thesis
    using assms(1) by (cases rule: bq.deq_cases) (use assms(1,2) WTry in auto)
qed (auto split: if_splits option.splits bool.splits)

text \<open>A step of worker \<open>i\<close> that takes the tasks \<open>a\<close> out of the queue and begins the tasks \<open>b\<close>.\<close>

lemma worker_change:
  assumes inv: "pool_inv n s" and i: "i < length (workers s)" and q: "bq_inv n q"
    "bq_items (task_queue s) = a @ bq_items q"
    and h: "held_task (workers s ! i) @ a = b @ held_task w"
  shows "pool_inv n (s\<lparr> task_queue := q, workers := (workers s)[i := w], tp_taken := tp_taken s @ a,
    tp_started := tp_started s @ b \<rparr>)"
proof -
  let ?ws' = "(workers s)[i := w]"
  have "mset b + mset (held_task w) = mset a + mset (held_task (workers s ! i))"
    using arg_cong [OF h, of mset] by (simp add: ac_simps)
  then have m: "mset b + mset (concat (map held_task ?ws')) = mset a + mset (held_tasks s)"
    by (rule balance) (rule held_update [OF i])
  have "tp_taken s @ a = (tp_started s @ b) @ concat (map held_task ?ws')" if "length (workers s) \<le> 1"
    using inv h held_single [OF that i, of w] that by (simp add: pool_inv_def)
  then show ?thesis using inv q m by (simp add: pool_inv_def ac_simps)
qed

lemma worker_step_pool_inv:
  assumes "pool_inv n s" shows "pool_inv n (worker_step i woken timed_out s)"
proof (cases "i < length (workers s)")
  case True
  note step = worker_change [OF assms True]
  have q: "bq_inv n (task_queue s)" using assms by (simp add: pool_inv_def)
  show ?thesis
  proof (cases "workers s ! i")
    case TpLoop
    then show ?thesis using step [OF q, of "[]" "[]" "if tp_stop s then TpExit else TpGet WLoop"] True
      by (simp add: worker_step_def)
  next
    case (TpRun f)
    then show ?thesis using step [OF q, of "[]" "[]" TpLoop] True by (simp add: worker_step_def)
  next
    case TpExit
    then show ?thesis using assms by (simp add: worker_step_def)
  next
    case (TpGet pc)
    obtain pc' q' where st: "WaitDequeue_step (strategy s) woken timed_out pc (task_queue s) = (pc', q')"
      by fastforce
    show ?thesis
    proof (cases "\<exists>r. pc = WDone r")
      case wd: True
      then show ?thesis
        using step [OF q, of "[]" "[]" TpLoop] step [OF q, of "[]"] TpGet True
        by (auto simp: worker_step_def split: option.split)
    next
      case False
      let ?a = "case pc' of WDone (Some f) \<Rightarrow> [f] | _ \<Rightarrow> []"
      have "held_task (TpGet pc) = []" using False by (cases pc) auto
      moreover have "held_task (TpGet pc') = ?a" by (auto split: wait_pc.split option.split)
      ultimately have "held_task (workers s ! i) @ ?a = [] @ held_task (TpGet pc')" using TpGet by simp
      moreover have "bq_inv n q' \<and> bq_items (task_queue s) = ?a @ bq_items q'"
        using WaitDequeue_step_items [OF q st] False by blast
      ultimately show ?thesis
        using step [of q' ?a "[]" "TpGet pc'"] TpGet st True False
        by (cases pc) (auto simp: worker_step_def)
    qed
  qed
qed (use assms in \<open>simp add: worker_step_def\<close>)

lemma pool_step_inv: "pool_inv (Suc n) s \<Longrightarrow> pool_inv n (pool_step a s)"
  by (cases a) (auto simp: Enqueue_pool_inv destroy_pool_inv worker_step_pool_inv pool_inv_mono)

lemma pool_run_inv: "pool_inv (n + length acts) s \<Longrightarrow> pool_inv n (fold pool_step acts s)"
  by (induction acts arbitrary: s) (auto simp: pool_step_inv)

lemma workers_run: "length (workers (fold pool_step acts s)) = length (workers s)"
proof (induction acts arbitrary: s)
  case (Cons a acts)
  have "length (workers (pool_step a s)) = length (workers s)"
    by (cases a) (auto simp: ThreadPool_Enqueue_def ThreadPool_destroy_def worker_step_def
      split: worker.split wait_pc.split option.split prod.split)
  then show ?case using Cons by simp
qed simp

section \<open>A worker that found the queue empty\<close>

definition all_blocked :: "'f thread_pool \<Rightarrow> bool" where
  "all_blocked s \<longleftrightarrow> strategy s = BlockWaitStrategy \<and> \<not> break_all_wait (task_queue s) \<and>
     (\<forall>w \<in> set (workers s). w = TpGet WWait)"

lemma break_Enqueue: "break_all_wait (snd (bq_Enqueue x q)) = break_all_wait q"
  by (simp add: bq_Enqueue_def Let_def)

lemma blocked_step:
  assumes "all_blocked s" "a \<noteq> ActDestroy"
  shows "all_blocked (pool_step a s) \<and> tp_started (pool_step a s) = tp_started s"
proof (cases a)
  case (ActEnqueue f)
  then show ?thesis
    using assms break_Enqueue [of f "task_queue s"]
    by (auto simp: all_blocked_def ThreadPool_Enqueue_def split: prod.splits)
next
  case (ActWorker i woken timed_out)
  show ?thesis
  proof (cases "i < length (workers s)")
    case True
    then have "workers s ! i = TpGet WWait" using assms(1) by (auto simp: all_blocked_def)
    moreover from this have "(workers s)[i := TpGet WWait] = workers s" by (metis list_update_id)
    moreover have "strategy s = BlockWaitStrategy" "\<not> break_all_wait (task_queue s)"
      using assms(1) by (auto simp: all_blocked_def)
    ultimately have "worker_step i woken timed_out s = s" by (simp add: worker_step_def)
    then show ?thesis using assms ActWorker by simp
  qed (use assms ActWorker in \<open>simp add: worker_step_def\<close>)
qed (use assms in simp)

text \<open>With two workers the task that was taken first may begin last.\<close>

lemma started_out_of_order:
  "\<exists>s0 acts. ThreadPool_construct (\<lambda>_. True) 0 2 2 = Some s0 \<and>
     tp_accepted (fold pool_step acts s0) = [5, 7::int] \<and>
     tp_taken (fold pool_step acts s0) = [5, 7] \<and> tp_started (fold pool_step acts s0) = [7, 5]"
proof -
  let ?s = "\<lparr> task_queue = snd (bq_Init (\<lambda>_. True) (0::int) 2 bq_construct), strategy = BlockWaitStrategy,
      tp_stop = False, workers = [TpLoop, TpLoop], tp_accepted = [], tp_taken = [], tp_started = [] \<rparr>"
  let ?w = "\<lambda>i. ActWorker i False False :: int pool_action"
  let ?acts = "[ActEnqueue 5, ActEnqueue 7, ?w 0, ?w 0, ?w 0, ?w 1, ?w 1, ?w 1, ?w 1, ?w 0]"
  have "ThreadPool_construct (\<lambda>_. True) (0::int) 2 2 = Some ?s"
    by (simp add: ThreadPool_construct_def bq_Init_def numeral_2_eq_2)
  moreover have "tp_accepted (fold pool_step ?acts ?s) = [5, 7] \<and> tp_taken (fold pool_step ?acts ?s) = [5, 7] \<and>
      tp_started (fold pool_step ?acts ?s) = [7, 5]"
    by code_simp
  ultimately show ?thesis by (intro exI [of _ ?s] exI [of _ ?acts]) simp
qed

text \<open>C25: for every interleaving of callers, workers and the destructor the workers of a thread
  pool take the tasks out of the queue in the order in which it accepted them: the tasks taken and
  then those still queued are the accepted ones.  Each task taken is begun once or is still held
  by the worker that took it.  With a single worker the tasks also begin in that order; with
  several this is not promised (lemma \<open>started_out_of_order\<close>).\<close>

theorem thread_pool_order:
  assumes "ThreadPool_construct alloc d threads sz = Some s0" "unat sz + 2 + length acts < 2 ^ 64"
  shows "tp_accepted (fold pool_step acts s0) =
      tp_taken (fold pool_step acts s0) @ bq_items (task_queue (fold pool_step acts s0)) \<and>
    mset (tp_taken (fold pool_step acts s0)) =
      mset (tp_started (fold pool_step acts s0)) + mset (held_tasks (fold pool_step acts s0)) \<and>
    (threads \<le> 1 \<longrightarrow> tp_taken (fold pool_step acts s0) =
      tp_started (fold pool_step acts s0) @ held_tasks (fold pool_step acts s0))"
proof -
  have s0: "alloc (sz + 2)" "task_queue s0 = snd (bq_Init alloc d sz bq_construct)"
      "tp_accepted s0 = []" "tp_taken s0 = []" "tp_started s0 = []" "workers s0 = replicate threads TpLoop"
    using assms(1) by (auto simp: ThreadPool_construct_def bq_Init_def Let_def split: if_splits prod.splits bool.splits)
  moreover have "concat (replicate threads []) = ([]::'b list)" by (induction threads) auto
  ultimately have "pool_inv (0 + length acts) s0"
    using assms(2) bq_Init_ok [of alloc sz "length acts" d] by (simp add: pool_inv_def)
  then have "pool_inv 0 (fold pool_step acts s0)" by (rule pool_run_inv)
  moreover have "length (workers (fold pool_step acts s0)) = threads"
    using s0(6) by (simp add: workers_run)
  ultimately show ?thesis by (simp add: pool_inv_def)
qed

lemma thread_pool_order_witness:
  "\<exists>s0. ThreadPool_construct (\<lambda>_. True) 0 1 2 = Some s0 \<and>
     (let s = fold pool_step [ActEnqueue (5::int)] s0
      in tp_accepted s = tp_taken s @ bq_items (task_queue s) \<and>
         mset (tp_taken s) = mset (tp_started s) + mset (held_tasks s) \<and>
         (1 \<le> (1::nat) \<longrightarrow> tp_taken s = tp_started s @ held_tasks s))"
proof -
  let ?s = "\<lparr> task_queue = snd (bq_Init (\<lambda>_. True) (0::int) 2 bq_construct), strategy = BlockWaitStrategy,
      tp_stop = False, workers = [TpLoop], tp_accepted = [], tp_taken = [], tp_started = [] \<rparr>"
  have s: "ThreadPool_construct (\<lambda>_. True) (0::int) 1 2 = Some ?s"
    by (simp add: ThreadPool_construct_def bq_Init_def)
  show ?thesis
    unfolding Let_def by (rule exI [of _ ?s], rule conjI, rule s, rule thread_pool_order [OF s]) simp
qed

text \<open>the blocking strategy loses wake-ups.  Once every worker has found the queue empty (each
  is inside \<open>EmptyWait\<close>), no task is started any more until the pool is destroyed: neither the
  tasks enqueued later nor the \<open>NotifyOne\<close> of their enqueues let a worker continue, because the
  wait's predicate only looks at \<open>break_all_wait\<close>.\<close>

theorem blocked_pool_starts_nothing:
  assumes "all_blocked s" "ActDestroy \<notin> set acts"
  shows "tp_started (fold pool_step acts s) = tp_started s"
  using assms
proof (induction acts arbitrary: s)
  case (Cons a acts)
  then show ?case using blocked_step [of s a] by auto
qed simp

lemma blocked_pool_starts_nothing_witness:
  "\<exists>s. ThreadPool_construct (\<lambda>_. True) 0 1 2 = Some s \<and>
     tp_started (fold pool_step ([ActWorker 0 False False, ActWorker 0 False False, ActWorker 0 False False] @
       ActEnqueue (5::int) # replicate 100 (ActWorker 0 True True)) s) = []"
proof -
  let ?s = "\<lparr> task_queue = snd (bq_Init (\<lambda>_. True) (0::int) 2 bq_construct), strategy = BlockWaitStrategy,
      tp_stop = False, workers = [TpLoop], tp_accepted = [], tp_taken = [], tp_started = [] \<rparr>"
  define t where "t = fold pool_step [ActWorker 0 False False, ActWorker 0 False False, ActWorker 0 False False] ?s"
  have s: "ThreadPool_construct (\<lambda>_. True) (0::int) 1 2 = Some ?s"
    by (simp add: ThreadPool_construct_def bq_Init_def)
  have t: "workers t = [TpGet WWait] \<and> strategy t = BlockWaitStrategy \<and> tp_started t = [] \<and>
      \<not> break_all_wait (task_queue t)"
    by (simp add: t_def worker_step_def bq_Dequeue_def bq_Init_def bq_construct_def Let_def)
  then have "all_blocked t" by (simp add: all_blocked_def)
  then have "tp_started (fold pool_step (ActEnqueue 5 # replicate 100 (ActWorker 0 True True)) t) = tp_started t"
    by (rule blocked_pool_starts_nothing) simp
  then show ?thesis
    using s t unfolding fold_append comp_apply t_def by (intro exI [of _ ?s] conjI) (simp_all only:)
qed

end
