(* ===== verification/UnboundedQueue.thy ===== *)
theory UnboundedQueue
  imports Prelude
begin

text \<open>
  \<open>base/unbounded_queue.h\<close>: the linked queue with a sentinel node and reference-counted nodes,
  on an explicit heap.  A heap cell that is not allocated (never, or not any more) is \<open>None\<close>;
  an operation that reads or writes such a cell has no result (\<open>None\<close>), so that the absence of
  use after free is part of what is proved.  Here one thread runs at a time, so each
  compare-and-swap succeeds at once; the steps of several threads are in theory
  UnboundedQueueConc.
\<close>

section \<open>Nodes and operations\<close>

record 'a ub_node =
  nd_data :: 'a
  ref_count :: u32
  nd_next :: "nat option"

type_synonym 'a ub_heap = "nat \<Rightarrow> 'a ub_node option"

record 'a unbounded_queue =
  ub_heap :: "'a ub_heap"
  ub_head :: nat
  ub_tail :: nat
  ub_size :: u64
  ub_fresh :: nat

text \<open>\<open>new Node()\<close> at the next unused address; \<open>dflt\<close> is the value \<open>T()\<close> constructs.\<close>

definition new_Node :: "'a \<Rightarrow> 'a ub_node" where
  "new_Node dflt = \<lparr> nd_data = dflt, ref_count = 2, nd_next = None \<rparr>"

definition node_release :: "nat \<Rightarrow> 'a ub_heap \<Rightarrow> 'a ub_heap option" where
  "node_release p h =
     (case h p of
        None \<Rightarrow> None
      | Some nd \<Rightarrow>
          if ref_count nd = 1 then Some (h(p := None))
          else Some (h(p \<mapsto> nd\<lparr> ref_count := ref_count nd - 1 \<rparr>)))"

definition ub_Reset :: "'a \<Rightarrow> 'a unbounded_queue \<Rightarrow> 'a unbounded_queue" where
  "ub_Reset dflt q =
     (let node = ub_fresh q
      in q\<lparr> ub_heap := (ub_heap q)(node \<mapsto> new_Node dflt), ub_fresh := Suc node,
            ub_head := node, ub_tail := node, ub_size := 0 \<rparr>)"

text \<open>\<open>Destroy\<close> deletes the nodes reachable from \<open>head_\<close>.\<close>

partial_function (option) ub_Destroy :: "nat option \<Rightarrow> 'a ub_heap \<Rightarrow> 'a ub_heap option" where
  "ub_Destroy ite h =
     (case ite of
        None \<Rightarrow> Some h
      | Some p \<Rightarrow>
          (case h p of
             None \<Rightarrow> None
           | Some nd \<Rightarrow> ub_Destroy (nd_next nd) (h(p := None))))"

definition ub_Clear :: "'a \<Rightarrow> 'a unbounded_queue \<Rightarrow> 'a unbounded_queue option" where
  "ub_Clear dflt q =
     (case ub_Destroy (Some (ub_head q)) (ub_heap q) of
        None \<Rightarrow> None
      | Some h \<Rightarrow> Some (ub_Reset dflt (q\<lparr> ub_heap := h \<rparr>)))"

definition ub_Enqueue :: "'a \<Rightarrow> 'a \<Rightarrow> 'a unbounded_queue \<Rightarrow> 'a unbounded_queue option" where
  "ub_Enqueue dflt element q =
     (let node = ub_fresh q;
          h1 = (ub_heap q)(node \<mapsto> (new_Node dflt)\<lparr> nd_data := element \<rparr>);
          old_tail = ub_tail q
      in case h1 old_tail of
           None \<Rightarrow> None
         | Some ot \<Rightarrow>
             (case node_release old_tail (h1(old_tail \<mapsto> ot\<lparr> nd_next := Some node \<rparr>)) of
                None \<Rightarrow> None
              | Some h2 \<Rightarrow> Some (q\<lparr> ub_heap := h2, ub_fresh := Suc node, ub_tail := node,
                                  ub_size := ub_size q + 1 \<rparr>)))"

text \<open>\<open>Some (None, q)\<close>: \<open>Dequeue\<close> returns false.\<close>

definition ub_Dequeue :: "'a unbounded_queue \<Rightarrow> ('a option \<times> 'a unbounded_queue) option" where
  "ub_Dequeue q =
     (let old_head = ub_head q
      in case ub_heap q old_head of
           None \<Rightarrow> None
         | Some oh \<Rightarrow>
             (case nd_next oh of
                None \<Rightarrow> Some (None, q)
              | Some head_next \<Rightarrow>
                  (case ub_heap q head_next of
                     None \<Rightarrow> None
                   | Some nx \<Rightarrow>
                       (case node_release old_head (ub_heap q) of
                          None \<Rightarrow> None
                        | Some h \<Rightarrow> Some (Some (nd_data nx),
                            q\<lparr> ub_head := head_next, ub_size := ub_size q - 1, ub_heap := h \<rparr>)))))"

definition ub_Size :: "'a unbounded_queue \<Rightarrow> u64" where
  "ub_Size q = ub_size q"

definition ub_Empty :: "'a unbounded_queue \<Rightarrow> bool" where
  "ub_Empty q = (ub_size q = 0)"

definition ub_construct :: "'a \<Rightarrow> 'a unbounded_queue" where
  "ub_construct dflt =
     ub_Reset dflt \<lparr> ub_heap = (\<lambda>_. None), ub_head = 0, ub_tail = 0, ub_size = 0, ub_fresh = 0 \<rparr>"

section \<open>The chain of nodes\<close>

text \<open>\<open>linked h p ns q\<close>: from \<open>p\<close> the \<open>next\<close> pointers lead through \<open>ns\<close> to the last node \<open>q\<close>.  Every
  node before the last has been released once, by the enqueue that linked its successor.\<close>

fun linked :: "'a ub_heap \<Rightarrow> nat list \<Rightarrow> bool" where
  "linked h [] = False"
| "linked h [p] = (\<exists>nd. h p = Some nd \<and> nd_next nd = None \<and> ref_count nd = 2)"
| "linked h (p # n # ns) =
     ((\<exists>nd. h p = Some nd \<and> nd_next nd = Some n \<and> ref_count nd = 1) \<and> linked h (n # ns))"

text \<open>The addresses from a node to the end of its chain, for the specification; the number bounds the
  chain, whose nodes are distinct and below \<open>ub_fresh\<close>.\<close>

fun trail :: "nat \<Rightarrow> 'a ub_heap \<Rightarrow> nat option \<Rightarrow> nat list" where
  "trail fuel h None = []"
| "trail 0 h (Some p) = []"
| "trail (Suc fuel) h (Some p) =
     p # (case h p of None \<Rightarrow> [] | Some nd \<Rightarrow> trail fuel h (nd_next nd))"

definition ub_nodes :: "'a unbounded_queue \<Rightarrow> nat list" where
  "ub_nodes q = trail (ub_fresh q) (ub_heap q) (Some (ub_head q))"

definition ub_items :: "'a unbounded_queue \<Rightarrow> 'a list" where
  "ub_items q = map (\<lambda>p. nd_data (the (ub_heap q p))) (tl (ub_nodes q))"

text \<open>Nothing is leaked: the allocated cells are exactly the nodes of the chain.\<close>

definition ub_inv :: "nat \<Rightarrow> 'a unbounded_queue \<Rightarrow> bool" where
  "ub_inv n q \<longleftrightarrow> linked (ub_heap q) (ub_nodes q) \<and> distinct (ub_nodes q) \<and>
     dom (ub_heap q) = set (ub_nodes q) \<and> ub_tail q = last (ub_nodes q) \<and>
     (\<forall>p \<in> set (ub_nodes q). p < ub_fresh q) \<and> ub_size q = of_nat (length (ub_nodes q) - 1)"

lemma trail_linked:
  "linked h (p # ns) \<Longrightarrow> length ns < fuel \<Longrightarrow> trail fuel h (Some p) = p # ns"
proof (induction ns arbitrary: p fuel)
  case Nil
  then show ?case by (cases fuel) auto
next
  case (Cons n ns)
  then show ?case by (cases fuel) auto
qed

lemma distinct_bound: "distinct ns \<Longrightarrow> \<forall>p \<in> set ns. p < n \<Longrightarrow> length ns \<le> (n::nat)"
  using card_mono [of "{..<n}" "set ns"] by (auto simp: distinct_card)

text \<open>A concrete chain determines what the functions above compute.\<close>

lemma ub_inv_intro:
  assumes "linked (ub_heap q) (ub_head q # ns)" "distinct (ub_head q # ns)"
    "dom (ub_heap q) = set (ub_head q # ns)" "ub_tail q = last (ub_head q # ns)"
    "\<forall>p \<in> set (ub_head q # ns). p < ub_fresh q" "ub_size q = of_nat (length ns)"
  shows "ub_nodes q = ub_head q # ns \<and> ub_inv n q"
proof -
  have "length ns < ub_fresh q"
    using distinct_bound [OF assms(2,5)] by simp
  then have nodes: "ub_nodes q = ub_head q # ns"
    using assms(1) by (simp add: ub_nodes_def trail_linked)
  then show ?thesis
    unfolding ub_inv_def nodes using assms by simp
qed

lemma ub_inv_obtain:
  assumes "ub_inv n q"
  obtains ns where "ub_nodes q = ub_head q # ns" "linked (ub_heap q) (ub_head q # ns)"
    "distinct (ub_head q # ns)" "dom (ub_heap q) = set (ub_head q # ns)"
    "ub_tail q = last (ub_head q # ns)" "\<forall>p \<in> set (ub_head q # ns). p < ub_fresh q"
    "ub_size q = of_nat (length ns)"
proof -
  have "ub_nodes q \<noteq> []" using assms by (auto simp: ub_inv_def)
  moreover have "ub_nodes q = [] \<or> hd (ub_nodes q) = ub_head q"
    unfolding ub_nodes_def by (cases "ub_fresh q") auto
  ultimately obtain ns where "ub_nodes q = ub_head q # ns" by (cases "ub_nodes q") auto
  then show ?thesis using that assms by (auto simp: ub_inv_def)
qed

lemma linked_upd: "p \<notin> set ns \<Longrightarrow> linked (h(p := c)) ns = linked h ns"
  by (induction h ns rule: linked.induct) auto

lemma linked_snoc:
  assumes "linked h ns" "distinct ns" "n \<notin> set ns"
  shows "\<exists>nd. h (last ns) = Some nd \<and> ref_count nd = 2 \<and>
    linked (h(n \<mapsto> \<lparr> nd_data = x, ref_count = 2, nd_next = None \<rparr>,
              last ns \<mapsto> nd\<lparr> nd_next := Some n, ref_count := 1 \<rparr>)) (ns @ [n])"
  using assms
proof (induction ns)
  case (Cons p ns)
  show ?case
  proof (cases ns)
    case Nil
    then show ?thesis using Cons.prems by auto
  next
    case m: (Cons m ms)
    have "linked h ns" "distinct ns" "n \<notin> set ns" using Cons.prems m by auto
    from Cons.IH [OF this] obtain nd where nd: "h (last ns) = Some nd" "ref_count nd = 2"
      and l: "linked (h(n \<mapsto> \<lparr> nd_data = x, ref_count = 2, nd_next = None \<rparr>,
              last ns \<mapsto> nd\<lparr> nd_next := Some n, ref_count := 1 \<rparr>)) (ns @ [n])" (is "linked ?h _")
      by blast
    have "p \<noteq> n" "last ns \<noteq> p" using Cons.prems m last_in_set [of ns] by auto
    then have "?h p = h p" by simp
    then have "linked ?h ((p # ns) @ [n])"
      using l Cons.prems(1) by (simp add: m del: fun_upd_apply)
    then show ?thesis using nd m by (simp del: fun_upd_apply)
  qed
qed simp

lemma ub_Enqueue_spec:
  assumes "ub_inv m q"
  shows "\<exists>q'. ub_Enqueue dflt x q = Some q' \<and> ub_inv n q' \<and> ub_items q' = ub_items q @ [x]"
proof -
  obtain ns where ns: "ub_nodes q = ub_head q # ns" "linked (ub_heap q) (ub_head q # ns)"
    "distinct (ub_head q # ns)" "dom (ub_heap q) = set (ub_head q # ns)"
    "ub_tail q = last (ub_head q # ns)" "\<forall>p \<in> set (ub_head q # ns). p < ub_fresh q"
    "ub_size q = of_nat (length ns)"
    using assms by (rule ub_inv_obtain)
  let ?f = "ub_fresh q" and ?l = "last (ub_head q # ns)"
  have f: "?f \<notin> set (ub_head q # ns)" using ns(6) by auto
  obtain nd where nd: "ub_heap q ?l = Some nd" "ref_count nd = 2"
    and l: "linked ((ub_heap q)(?f \<mapsto> \<lparr> nd_data = x, ref_count = 2, nd_next = None \<rparr>,
              ?l \<mapsto> nd\<lparr> nd_next := Some ?f, ref_count := 1 \<rparr>)) ((ub_head q # ns) @ [?f])"
    using linked_snoc [OF ns(2,3) f, of x] by blast
  define h where "h = (ub_heap q)(?f \<mapsto> \<lparr> nd_data = x, ref_count = 2, nd_next = None \<rparr>,
              ?l \<mapsto> nd\<lparr> nd_next := Some ?f, ref_count := 1 \<rparr>)"
  define q' where "q' = q\<lparr> ub_heap := h, ub_fresh := Suc ?f, ub_tail := ?f, ub_size := ub_size q + 1 \<rparr>"
  have "?l \<in> set (ub_head q # ns)" by (rule last_in_set) simp
  then have lf: "?l \<noteq> ?f" using f by metis
  have e: "ub_Enqueue dflt x q = Some q'"
    using nd lf by (simp add: ub_Enqueue_def Let_def ns(5) node_release_def new_Node_def q'_def h_def)
  have d: "dom h = set ((ub_head q # ns) @ [?f])"
    using ns(4) last_in_set [of "ub_head q # ns"] by (auto simp: h_def)
  have i: "ub_nodes q' = ub_head q' # (ns @ [?f]) \<and> ub_inv n q'"
  proof (rule ub_inv_intro)
    show "linked (ub_heap q') (ub_head q' # ns @ [?f])" using l by (simp add: q'_def h_def)
    show "dom (ub_heap q') = set (ub_head q' # ns @ [?f])" using d by (simp add: q'_def)
  qed (use ns f in \<open>auto simp: q'_def less_Suc_eq\<close>)
  have "nd_data (the (h p)) = nd_data (the (ub_heap q p))" if "p \<in> set ns" for p
    using that f nd by (auto simp: h_def)
  moreover have "nd_data (the (h ?f)) = x" using lf by (simp add: h_def)
  ultimately have "ub_items q' = ub_items q @ [x]"
    using i by (simp add: ub_items_def ns(1)) (simp add: q'_def)
  with e i show ?thesis by blast
qed

lemma ub_Dequeue_spec:
  assumes "ub_inv n q"
  shows "(case ub_items q of
      [] \<Rightarrow> ub_Dequeue q = Some (None, q)
    | y # ys \<Rightarrow> \<exists>q'. ub_Dequeue q = Some (Some y, q') \<and> ub_inv n q' \<and> ub_items q' = ys)"
proof -
  obtain ns where ns: "ub_nodes q = ub_head q # ns" "linked (ub_heap q) (ub_head q # ns)"
    "distinct (ub_head q # ns)" "dom (ub_heap q) = set (ub_head q # ns)"
    "ub_tail q = last (ub_head q # ns)" "\<forall>p \<in> set (ub_head q # ns). p < ub_fresh q"
    "ub_size q = of_nat (length ns)"
    using assms by (rule ub_inv_obtain)
  show ?thesis
  proof (cases ns)
    case Nil
    then show ?thesis using ns by (auto simp: ub_items_def ub_Dequeue_def)
  next
    case (Cons m ms)
    define q' where "q' = q\<lparr> ub_head := m, ub_size := ub_size q - 1, ub_heap := (ub_heap q)(ub_head q := None) \<rparr>"
    obtain nx where nx: "ub_heap q m = Some nx" using ns(4) Cons by (auto simp: dom_def)
    then have e: "ub_Dequeue q = Some (Some (nd_data nx), q')"
      using ns(2) Cons by (auto simp: ub_Dequeue_def node_release_def q'_def)
    have i: "ub_nodes q' = ub_head q' # ms \<and> ub_inv n q'"
      by (rule ub_inv_intro) (use ns Cons in \<open>auto simp: q'_def linked_upd\<close>)
    have "map (\<lambda>p. nd_data (the (ub_heap q' p))) ms = map (\<lambda>p. nd_data (the (ub_heap q p))) ms"
      using ns(3) Cons by (auto simp: q'_def)
    then have "ub_items q = nd_data nx # ub_items q'"
      using i by (simp add: ub_items_def ns(1) Cons nx)
    then show ?thesis using e i by simp
  qed
qed

section \<open>The queue interface\<close>

definition ub_enq :: "'a \<Rightarrow> 'a \<Rightarrow> 'a unbounded_queue \<Rightarrow> bool \<times> 'a unbounded_queue" where
  "ub_enq dflt x q = (case ub_Enqueue dflt x q of None \<Rightarrow> (False, q) | Some q' \<Rightarrow> (True, q'))"

definition ub_deq :: "'a unbounded_queue \<Rightarrow> 'a option \<times> 'a unbounded_queue" where
  "ub_deq q = (case ub_Dequeue q of None \<Rightarrow> (None, q) | Some r \<Rightarrow> r)"

interpretation ub: fifo ub_inv ub_items "\<lambda>_. False" "ub_enq dflt" ub_deq for dflt
proof
  fix n q x assume "ub_inv (Suc n) (q :: 'a unbounded_queue)"
  then show "fst (ub_enq dflt x q) \<and> ub_items (snd (ub_enq dflt x q)) = ub_items q @ [x]"
    "ub_inv n (snd (ub_enq dflt x q))"
    using ub_Enqueue_spec [of "Suc n" q dflt x n] by (auto simp: ub_enq_def)
next
  fix n q assume i: "ub_inv n (q :: 'a unbounded_queue)"
  show "ub_deq q = (None, q)" if "ub_items q = []"
    using ub_Dequeue_spec [OF i] that by (simp add: ub_deq_def)
  show "fst (ub_deq q) = Some y \<and> ub_items (snd (ub_deq q)) = ys" if "ub_items q = y # ys" for y ys
    using ub_Dequeue_spec [OF i] that by (auto simp: ub_deq_def)
  show "ub_inv n (snd (ub_deq q))"
    using ub_Dequeue_spec [OF i] i by (cases "ub_items q") (auto simp: ub_deq_def)
qed (auto simp: ub_inv_def)

lemma ub_Destroy_all:
  "linked h (p # ns) \<Longrightarrow> distinct (p # ns) \<Longrightarrow>
    ub_Destroy (Some p) h = Some (\<lambda>a. if a \<in> set (p # ns) then None else h a)"
proof (induction ns arbitrary: p h)
  case Nil
  then show ?case by (auto simp: fun_eq_iff ub_Destroy.simps [of "Some p"] ub_Destroy.simps [of None])
next
  case (Cons n ns)
  have "ub_Destroy (Some n) (h(p := None)) = Some (\<lambda>a. if a \<in> set (n # ns) then None else (h(p := None)) a)"
    using Cons.prems by (intro Cons.IH) (auto simp: linked_upd simp del: fun_upd_apply)
  then show ?case using Cons.prems by (auto simp: fun_eq_iff ub_Destroy.simps [of "Some p"])
qed

lemma ub_Reset_inv:
  assumes "ub_heap q = (\<lambda>_. None)"
  shows "ub_inv n (ub_Reset dflt q) \<and> ub_items (ub_Reset dflt q) = []"
proof -
  let ?q = "ub_Reset dflt q"
  have "ub_nodes ?q = ub_head ?q # [] \<and> ub_inv n ?q"
    by (rule ub_inv_intro) (use assms in \<open>auto simp: ub_Reset_def Let_def new_Node_def\<close>)
  then show ?thesis by (simp add: ub_items_def)
qed

text \<open>C22: the linked queue is first-in first-out with no capacity limit, and its memory is safe when
  one thread runs at a time: no operation touches a freed node, and after any sequence of
  operations the allocated nodes are exactly the sentinel and one node per element (reference
  counting frees every dequeued node); \<open>Clear\<close> frees them all but the new sentinel.\<close>

theorem unbounded_queue_fifo_memory:
  assumes "queue_run (ub_enq dflt) ub_deq ops (ub_construct dflt) = (ins, outs, q)"
  shows "ins = outs @ ub_items q \<and> ub_Enqueue dflt x q \<noteq> None \<and> ub_Dequeue q \<noteq> None \<and>
    card (dom (ub_heap q)) = length (ub_items q) + 1 \<and>
    (\<exists>q'. ub_Clear dflt q = Some q' \<and> ub_items q' = [] \<and> dom (ub_heap q') = {ub_head q'})"
proof -
  have c: "ub_inv k (ub_construct dflt)" "ub_items (ub_construct dflt) = []" for k
    unfolding ub_construct_def by (simp_all add: ub_Reset_inv)
  have r: "ins = outs @ ub_items q" and i: "ub_inv 0 q"
    using ub.run_fifo [OF c(1) assms] c(2) by auto
  obtain ns where ns: "ub_nodes q = ub_head q # ns" "linked (ub_heap q) (ub_head q # ns)"
    "distinct (ub_head q # ns)" "dom (ub_heap q) = set (ub_head q # ns)"
    using i by (rule ub_inv_obtain)
  have card: "card (dom (ub_heap q)) = length (ub_items q) + 1"
    using ns by (simp add: ub_items_def distinct_card)
  have ops: "ub_Enqueue dflt x q \<noteq> None" "ub_Dequeue q \<noteq> None"
    using ub_Enqueue_spec [OF i, of dflt x 0] ub_Dequeue_spec [OF i] by (auto split: list.splits)
  have d: "ub_Destroy (Some (ub_head q)) (ub_heap q) = Some (\<lambda>_. None)"
    using ub_Destroy_all [OF ns(2,3)] ns(4) by (auto simp: fun_eq_iff dom_def)
  let ?q = "ub_Reset dflt (q\<lparr> ub_heap := \<lambda>_. None \<rparr>)"
  have "ub_Clear dflt q = Some ?q" "ub_items ?q = []" "dom (ub_heap ?q) = {ub_head ?q}"
    using d ub_Reset_inv [of "q\<lparr> ub_heap := \<lambda>_. None \<rparr>" 0 dflt]
    by (auto simp: ub_Clear_def ub_Reset_def Let_def)
  with r card ops show ?thesis by blast
qed

lemma unbounded_queue_fifo_memory_witness:
  "(\<lambda>(ins, outs, q). ins = outs @ ub_items q \<and> outs = [1] \<and> ins = [1, 2])
     (queue_run (ub_enq 0) ub_deq [OpEnq 1, OpEnq 2, OpDeq] (ub_construct (0::int)))"
proof -
  let ?r = "queue_run (ub_enq 0) ub_deq [OpEnq 1, OpEnq 2, OpDeq] (ub_construct (0::int))"
  obtain ins outs q where r: "?r = (ins, outs, q)" by (metis prod_cases3)
  have "fst ?r = [1, 2] \<and> fst (snd ?r) = [1]" by code_simp
  then show ?thesis using unbounded_queue_fifo_memory [OF r, of 0] unfolding r by auto
qed

end
