(* ===== verification/UnboundedQueueConc.thy ===== *)
theory UnboundedQueueConc
  imports UnboundedQueue
begin

text \<open>
  \<open>base/unbounded_queue.h\<close> with several threads: \<open>Enqueue\<close> and \<open>Dequeue\<close> as programs whose steps
  (one access to shared memory each) are taken in any order.  \<open>new Node()\<close> may return any address
  that is not allocated, one that was freed as well.  A step that reads or writes a node that is
  not allocated has no result (\<open>None\<close>).  With one consumer no run gets there; with two it does.
\<close>

section \<open>The steps of Enqueue and Dequeue\<close>

text \<open>\<open>fetch_sub(1)\<close> on the counter of a node, and whether it was 1.\<close>

definition release_count :: "nat \<Rightarrow> 'a ub_heap \<Rightarrow> (bool \<times> 'a ub_heap) option" where
  "release_count p h =
     (case h p of
        None \<Rightarrow> None
      | Some nd \<Rightarrow> Some (ref_count nd = 1, h(p \<mapsto> nd\<lparr> ref_count := ref_count nd - 1 \<rparr>)))"

definition delete_node :: "nat \<Rightarrow> 'a ub_heap \<Rightarrow> 'a ub_heap option" where
  "delete_node p h = (if h p = None then None else Some (h(p := None)))"

text \<open>A producer: outside; about to load \<open>tail_\<close>; about to exchange it; about to set the \<open>next\<close> of the
  old tail; about to release that, to delete it; about to count the element.\<close>

datatype 'a ub_producer =
    UIdle | ULoad 'a nat | UTry 'a nat nat | ULink nat nat | URelease nat | UDelete nat | USize

text \<open>The last result is the element whose exchange has succeeded.\<close>

fun Enqueue_turn :: "'a ub_producer \<Rightarrow> 'a unbounded_queue
    \<Rightarrow> ('a ub_producer \<times> 'a unbounded_queue \<times> 'a list) option" where
  "Enqueue_turn UIdle q = Some (UIdle, q, [])"
| "Enqueue_turn (ULoad x node) q = Some (UTry x node (ub_tail q), q, [])"
| "Enqueue_turn (UTry x node old_tail) q =
     (if ub_tail q = old_tail then Some (ULink node old_tail, q\<lparr> ub_tail := node \<rparr>, [x])
      else Some (UTry x node (ub_tail q), q, []))"
| "Enqueue_turn (ULink node old_tail) q =
     (case ub_heap q old_tail of
        None \<Rightarrow> None
      | Some nd \<Rightarrow> Some (URelease old_tail,
          q\<lparr> ub_heap := (ub_heap q)(old_tail \<mapsto> nd\<lparr> nd_next := Some node \<rparr>) \<rparr>, []))"
| "Enqueue_turn (URelease old_tail) q =
     (case release_count old_tail (ub_heap q) of
        None \<Rightarrow> None
      | Some (was_one, h) \<Rightarrow> Some (if was_one then UDelete old_tail else USize, q\<lparr> ub_heap := h \<rparr>, []))"
| "Enqueue_turn (UDelete old_tail) q =
     (case delete_node old_tail (ub_heap q) of
        None \<Rightarrow> None
      | Some h \<Rightarrow> Some (USize, q\<lparr> ub_heap := h \<rparr>, []))"
| "Enqueue_turn USize q = Some (UIdle, q\<lparr> ub_size := ub_size q + 1 \<rparr>, [])"

text \<open>A consumer: outside; about to read the \<open>next\<close> of the head it loaded; about to exchange \<open>head_\<close>;
  about to copy the data; about to uncount the element; about to release the old head, to delete
  it.\<close>

datatype ub_consumer =
    DIdle | DNext nat | DCas nat nat | DData nat nat | DSize nat | DRelease nat | DDelete nat

text \<open>The last result is the element that has been copied out.  From \<open>DIdle\<close> a call begins with the
  load of \<open>head_\<close>; a call that finds no successor returns false.\<close>

fun Dequeue_turn :: "ub_consumer \<Rightarrow> 'a unbounded_queue
    \<Rightarrow> (ub_consumer \<times> 'a unbounded_queue \<times> 'a list) option" where
  "Dequeue_turn DIdle q = Some (DNext (ub_head q), q, [])"
| "Dequeue_turn (DNext old_head) q =
     (case ub_heap q old_head of
        None \<Rightarrow> None
      | Some nd \<Rightarrow>
          (case nd_next nd of
             None \<Rightarrow> Some (DIdle, q, [])
           | Some head_next \<Rightarrow> Some (DCas old_head head_next, q, [])))"
| "Dequeue_turn (DCas old_head head_next) q =
     (if ub_head q = old_head then Some (DData old_head head_next, q\<lparr> ub_head := head_next \<rparr>, [])
      else Some (DNext (ub_head q), q, []))"
| "Dequeue_turn (DData old_head head_next) q =
     (case ub_heap q head_next of
        None \<Rightarrow> None
      | Some nd \<Rightarrow> Some (DSize old_head, q, [nd_data nd]))"
| "Dequeue_turn (DSize old_head) q = Some (DRelease old_head, q\<lparr> ub_size := ub_size q - 1 \<rparr>, [])"
| "Dequeue_turn (DRelease old_head) q =
     (case release_count old_head (ub_heap q) of
        None \<Rightarrow> None
      | Some (was_one, h) \<Rightarrow> Some (if was_one then DDelete old_head else DIdle, q\<lparr> ub_heap := h \<rparr>, []))"
| "Dequeue_turn (DDelete old_head) q =
     (case delete_node old_head (ub_heap q) of
        None \<Rightarrow> None
      | Some h \<Rightarrow> Some (DIdle, q\<lparr> ub_heap := h \<rparr>, []))"

text \<open>The threads, and what went in (in the order of the exchanges of \<open>tail_\<close>) and came out.\<close>

record 'a ub_threads =
  ut_queue :: "'a unbounded_queue"
  ut_producers :: "'a ub_producer list"
  ut_consumers :: "ub_consumer list"
  ut_in :: "'a list"
  ut_out :: "'a list"

datatype 'a ub_action = ActEnqueueCall nat 'a nat | ActProducer nat | ActConsumer nat

text \<open>\<open>ActEnqueueCall i x a\<close>: an idle producer calls \<open>Enqueue(x)\<close>, and \<open>new Node()\<close> is put at the
  address \<open>a\<close>; nothing happens when the producer is busy or the address taken.\<close>

fun ub_threads_step :: "'a \<Rightarrow> 'a ub_action \<Rightarrow> 'a ub_threads \<Rightarrow> 'a ub_threads option" where
  "ub_threads_step dflt (ActEnqueueCall i x a) s =
     (if i < length (ut_producers s) \<and> ub_heap (ut_queue s) a = None then
        (case ut_producers s ! i of
           UIdle \<Rightarrow> Some (s\<lparr> ut_producers := (ut_producers s)[i := ULoad x a],
             ut_queue := (ut_queue s)\<lparr> ub_heap :=
               (ub_heap (ut_queue s))(a \<mapsto> (new_Node dflt)\<lparr> nd_data := x \<rparr>) \<rparr> \<rparr>)
         | _ \<Rightarrow> Some s)
      else Some s)"
| "ub_threads_step dflt (ActProducer i) s =
     (if i < length (ut_producers s) then
        (case Enqueue_turn (ut_producers s ! i) (ut_queue s) of
           None \<Rightarrow> None
         | Some (pc, q, xs) \<Rightarrow>
             Some (s\<lparr> ut_producers := (ut_producers s)[i := pc], ut_queue := q, ut_in := ut_in s @ xs \<rparr>))
      else Some s)"
| "ub_threads_step dflt (ActConsumer j) s =
     (if j < length (ut_consumers s) then
        (case Dequeue_turn (ut_consumers s ! j) (ut_queue s) of
           None \<Rightarrow> None
         | Some (pc, q, xs) \<Rightarrow>
             Some (s\<lparr> ut_consumers := (ut_consumers s)[j := pc], ut_queue := q, ut_out := ut_out s @ xs \<rparr>))
      else Some s)"

fun ub_threads_run :: "'a \<Rightarrow> 'a ub_action list \<Rightarrow> 'a ub_threads \<Rightarrow> 'a ub_threads option" where
  "ub_threads_run dflt [] s = Some s"
| "ub_threads_run dflt (a # as) s =
     (case ub_threads_step dflt a s of None \<Rightarrow> None | Some s' \<Rightarrow> ub_threads_run dflt as s')"

definition ub_threads_start :: "'a \<Rightarrow> nat \<Rightarrow> nat \<Rightarrow> 'a ub_threads" where
  "ub_threads_start dflt n m = \<lparr> ut_queue = ub_construct dflt, ut_producers = replicate n UIdle,
     ut_consumers = replicate m DIdle, ut_in = [], ut_out = [] \<rparr>"

section \<open>The invariant\<close>

text \<open>What a thread still owes: the releases of a node by a producer and by a consumer (a node that
  is not yet in the queue awaits both), whether it is about to delete the node, and whether the
  element is in the chain but not yet counted.\<close>

fun producer_dues :: "nat \<Rightarrow> 'a ub_producer \<Rightarrow> nat" where
  "producer_dues p (ULoad x a) = (if a = p then 2 else 0)"
| "producer_dues p (UTry x a t) = (if a = p then 2 else 0)"
| "producer_dues p (ULink a t) = (if t = p then 1 else 0)"
| "producer_dues p (URelease t) = (if t = p then 1 else 0)"
| "producer_dues p _ = 0"

fun consumer_dues :: "nat \<Rightarrow> ub_consumer \<Rightarrow> nat" where
  "consumer_dues p (DData t n) = (if t = p then 1 else 0)"
| "consumer_dues p (DSize t) = (if t = p then 1 else 0)"
| "consumer_dues p (DRelease t) = (if t = p then 1 else 0)"
| "consumer_dues p _ = 0"

fun producer_deletes :: "nat \<Rightarrow> 'a ub_producer \<Rightarrow> nat" where
  "producer_deletes p (UDelete t) = (if t = p then 1 else 0)"
| "producer_deletes p _ = 0"

fun consumer_deletes :: "nat \<Rightarrow> ub_consumer \<Rightarrow> nat" where
  "consumer_deletes p (DDelete t) = (if t = p then 1 else 0)"
| "consumer_deletes p _ = 0"

fun uncounted :: "'a ub_producer \<Rightarrow> nat" where
  "uncounted (ULink a t) = 1"
| "uncounted (URelease t) = 1"
| "uncounted (UDelete t) = 1"
| "uncounted USize = 1"
| "uncounted _ = 0"

fun overcounted :: "ub_consumer \<Rightarrow> nat" where
  "overcounted (DData t n) = 1"
| "overcounted (DSize t) = 1"
| "overcounted _ = 0"

text \<open>\<open>ch\<close> are the nodes from \<open>head_\<close> to \<open>tail_\<close>.  Each awaits its release by the consumer, the last
  also that by the producer of its successor.\<close>

definition chain_dues :: "nat list \<Rightarrow> nat \<Rightarrow> nat" where
  "chain_dues ch p = (if p \<in> set ch then 1 else 0) + (if p = last ch then 1 else 0)"

definition dues :: "'a ub_producer list \<Rightarrow> ub_consumer \<Rightarrow> nat list \<Rightarrow> nat \<Rightarrow> nat" where
  "dues ps c ch p = chain_dues ch p + sum_list (map (producer_dues p) ps) + consumer_dues p c"

definition deletes :: "'a ub_producer list \<Rightarrow> ub_consumer \<Rightarrow> nat \<Rightarrow> nat" where
  "deletes ps c p = sum_list (map (producer_deletes p) ps) + consumer_deletes p c"

text \<open>The counter of an allocated node is the number of releases it awaits; at 0 exactly one thread is
  about to delete it.\<close>

fun count_at :: "'a ub_node option \<Rightarrow> nat \<Rightarrow> nat \<Rightarrow> bool" where
  "count_at None du de = (du = 0 \<and> de = 0)"
| "count_at (Some nd) du de = (du \<le> 2 \<and> ref_count nd = of_nat du \<and> de = (if du = 0 then 1 else 0))"

definition counts_ok :: "'a ub_heap \<Rightarrow> (nat \<Rightarrow> nat) \<Rightarrow> (nat \<Rightarrow> nat) \<Rightarrow> bool" where
  "counts_ok h du de \<longleftrightarrow> (\<forall>p. count_at (h p) (du p) (de p))"

text \<open>Data and \<open>next\<close> of the nodes.\<close>

definition node_view :: "'a ub_heap \<Rightarrow> nat \<Rightarrow> ('a \<times> nat option) option" where
  "node_view h p = map_option (\<lambda>nd. (nd_data nd, nd_next nd)) (h p)"

definition neighbours :: "nat list \<Rightarrow> (nat \<times> nat) set" where
  "neighbours ch = set (zip ch (tl ch))"

fun producer_ok :: "(nat \<Rightarrow> ('a \<times> nat option) option) \<Rightarrow> nat list \<Rightarrow> 'a ub_producer \<Rightarrow> bool" where
  "producer_ok V ch (ULoad x a) = (V a = Some (x, None))"
| "producer_ok V ch (UTry x a t) = (V a = Some (x, None))"
| "producer_ok V ch (ULink a t) = ((t, a) \<in> neighbours ch \<and> (\<exists>d. V t = Some (d, None)))"
| "producer_ok V ch _ = True"

fun consumer_ok :: "(nat \<Rightarrow> ('a \<times> nat option) option) \<Rightarrow> nat list \<Rightarrow> ub_consumer \<Rightarrow> bool" where
  "consumer_ok V ch (DNext t) = (t = hd ch)"
| "consumer_ok V ch (DCas t n) = (t = hd ch \<and> (\<exists>d. V t = Some (d, Some n)))"
| "consumer_ok V ch (DData t n) = (n = hd ch)"
| "consumer_ok V ch _ = True"

text \<open>The \<open>next\<close> of a node leads to its neighbour, unless a producer is about to set it.\<close>

definition chain_ok ::
  "(nat \<Rightarrow> ('a \<times> nat option) option) \<Rightarrow> 'a ub_producer list \<Rightarrow> nat list \<Rightarrow> bool" where
  "chain_ok V ps ch \<longleftrightarrow> ch \<noteq> [] \<and> distinct ch \<and> (\<exists>d. V (last ch) = Some (d, None)) \<and>
     (\<forall>(p, n) \<in> neighbours ch. \<exists>d. V p = Some (d, Some n) \<or> V p = Some (d, None) \<and> ULink n p \<in> set ps)"

definition node_values :: "(nat \<Rightarrow> ('a \<times> nat option) option) \<Rightarrow> nat list \<Rightarrow> 'a list" where
  "node_values V ps = map (\<lambda>p. fst (the (V p))) ps"

definition taken :: "(nat \<Rightarrow> ('a \<times> nat option) option) \<Rightarrow> ub_consumer \<Rightarrow> 'a list" where
  "taken V c = node_values V (case c of DData t n \<Rightarrow> [n] | _ \<Rightarrow> [])"

definition ub_conc_inv :: "ub_consumer \<Rightarrow> nat list \<Rightarrow> 'a ub_threads \<Rightarrow> bool" where
  "ub_conc_inv c ch s \<longleftrightarrow> (let q = ut_queue s; ps = ut_producers s; V = node_view (ub_heap q)
     in ut_consumers s = [c] \<and> ub_head q = hd ch \<and> ub_tail q = last ch \<and>
        counts_ok (ub_heap q) (dues ps c ch) (deletes ps c) \<and> chain_ok V ps ch \<and>
        (\<forall>pc \<in> set ps. producer_ok V ch pc) \<and> consumer_ok V ch c \<and>
        ut_in s = ut_out s @ taken V c @ node_values V (tl ch) \<and>
        ub_size q + of_nat (sum_list (map uncounted ps)) = of_nat (length (tl ch) + overcounted c))"

section \<open>Lemmas about its parts\<close>

lemma dues_change:
  "i < length ps \<Longrightarrow> dues (ps[i := w]) c ch p + producer_dues p (ps ! i) = dues ps c ch p + producer_dues p w"
  using sum_list_change [of i ps "producer_dues p" w] by (simp add: dues_def)

lemma deletes_change:
  "i < length ps \<Longrightarrow> deletes (ps[i := w]) c p + producer_deletes p (ps ! i) = deletes ps c p + producer_deletes p w"
  using sum_list_change [of i ps "producer_deletes p" w] by (simp add: deletes_def)

text \<open>A node that some release is due of is allocated; one that is being deleted awaits none.\<close>

lemma counts_okD: "counts_ok h du de \<Longrightarrow> count_at (h p) (du p) (de p)"
  by (simp add: counts_ok_def)

lemma allocated_of_dues: "counts_ok h du de \<Longrightarrow> 0 < du p \<Longrightarrow> \<exists>nd. h p = Some nd \<and> du p \<le> 2"
  by (drule counts_okD [of _ _ _ p]) (cases "h p"; simp)

lemma deleted_apart: "counts_ok h du de \<Longrightarrow> 0 < de p \<Longrightarrow> h p \<noteq> None \<and> du p = 0 \<and> de p = 1"
  by (drule counts_okD [of _ _ _ p]) (cases "h p"; simp split: if_splits)

lemma counts_upd:
  assumes "counts_ok h du de" "\<And>p. p \<noteq> t \<Longrightarrow> du' p = du p \<and> de' p = de p" "count_at x (du' t) (de' t)"
  shows "counts_ok (h(t := x)) du' de'"
  unfolding counts_ok_def
proof
  fix p
  show "count_at ((h(t := x)) p) (du' p) (de' p)"
    using assms counts_okD [OF assms(1), of p] by (cases "p = t") auto
qed

lemma counts_new:
  assumes "counts_ok h du de" "h a = None" "ref_count nd = 2"
    "\<And>p. du' p = du p + (if p = a then 2 else 0)" "\<And>p. de' p = de p"
  shows "counts_ok (h(a \<mapsto> nd)) du' de'"
  by (rule counts_upd [OF assms(1)]) (use assms counts_okD [OF assms(1), of a] in auto)

lemma counts_link:
  assumes "counts_ok h du de" "h t = Some nd" "ref_count nd' = ref_count nd"
    "\<And>p. du' p = du p" "\<And>p. de' p = de p"
  shows "counts_ok (h(t \<mapsto> nd')) du' de'"
  by (rule counts_upd [OF assms(1)]) (use assms counts_okD [OF assms(1), of t] in auto)

lemma counts_same:
  assumes "counts_ok h du de" "\<And>p. du' p = du p" "\<And>p. de' p = de p"
  shows "counts_ok h du' de'"
  using assms by (simp add: counts_ok_def)

lemma counts_release:
  assumes c: "counts_ok h du de" and t: "h t = Some nd"
    and du: "\<And>p. du p = du' p + (if p = t then 1 else 0)"
    and de: "\<And>p. de' p = de p + (if p = t \<and> ref_count nd = 1 then 1 else 0)"
  shows "counts_ok (h(t \<mapsto> nd\<lparr> ref_count := ref_count nd - 1 \<rparr>)) du' de'"
proof (rule counts_upd [OF c])
  have n: "du t \<le> 2" "ref_count nd = of_nat (du t)" "de t = 0"
    using counts_okD [OF c, of t] t du [of t] by auto
  then have "du t = 1 \<or> du t = 2" using du [of t] by auto
  then show "count_at (Some (nd\<lparr> ref_count := ref_count nd - 1 \<rparr>)) (du' t) (de' t)"
    using n du [of t] de [of t] by auto
qed (use du de in simp)

lemma counts_delete:
  assumes c: "counts_ok h du de" and de: "\<And>p. de p = de' p + (if p = t then 1 else 0)"
    and du: "\<And>p. du' p = du p"
  shows "counts_ok (h(t := None)) du' de'"
proof (rule counts_upd [OF c])
  show "count_at None (du' t) (de' t)"
    using deleted_apart [OF c, of t] de [of t] du [of t] by auto
qed (use du de in simp)

lemma chain_dues_pos: "p \<in> set ch \<Longrightarrow> 0 < dues ps c ch p"
  by (simp add: dues_def chain_dues_def)

lemma producer_dues_le:
  assumes "pc \<in> set ps" shows "producer_dues p pc \<le> dues ps c ch p"
proof -
  have "producer_dues p pc \<le> sum_list (map (producer_dues p) ps)"
    using assms by (simp add: member_le_sum_list)
  then show ?thesis by (simp add: dues_def)
qed

lemma producer_deletes_le:
  assumes "pc \<in> set ps" shows "producer_deletes p pc \<le> deletes ps c p"
proof -
  have "producer_deletes p pc \<le> sum_list (map (producer_deletes p) ps)"
    using assms by (simp add: member_le_sum_list)
  then show ?thesis by (simp add: deletes_def)
qed

lemma neighbours_Cons [simp]: "neighbours (a # b # ch) = insert (a, b) (neighbours (b # ch))"
  by (simp add: neighbours_def)

lemma neighbours_single [simp]: "neighbours [a] = {}"
  by (simp add: neighbours_def)

lemma neighbours_snoc: "ch \<noteq> [] \<Longrightarrow> neighbours (ch @ [a]) = insert (last ch, a) (neighbours ch)"
proof (induction ch)
  case (Cons b ch)
  then show ?case by (cases ch) auto
qed simp

lemma neighbours_set: "(p, n) \<in> neighbours ch \<Longrightarrow> p \<in> set ch \<and> n \<in> set (tl ch)"
  by (auto simp: neighbours_def dest: set_zip_leftD set_zip_rightD)

lemma neighbours_last: "(p, n) \<in> neighbours ch \<Longrightarrow> distinct ch \<Longrightarrow> p \<noteq> last ch"
proof (induction ch)
  case (Cons b ch)
  then show ?case by (cases ch) auto
qed (simp add: neighbours_def)

lemma neighbours_unique: "(p, n) \<in> neighbours ch \<Longrightarrow> (p, m) \<in> neighbours ch \<Longrightarrow> distinct ch \<Longrightarrow> n = m"
proof (induction ch)
  case (Cons b ch)
  then show ?case by (cases ch) (auto dest: neighbours_set)
qed (simp add: neighbours_def)

text \<open>A change of the nodes that nobody awaits the release of does not matter.\<close>

lemma producer_ok_view:
  assumes "producer_ok V ch pc" "\<And>p. 0 < producer_dues p pc \<Longrightarrow> V' p = V p"
  shows "producer_ok V' ch pc"
  using assms by (cases pc) auto

lemma chain_ok_view:
  assumes "chain_ok V ps ch" "\<And>p. p \<in> set ch \<Longrightarrow> V' p = V p"
  shows "chain_ok V' ps ch"
  using assms by (fastforce simp: chain_ok_def dest: neighbours_set)

lemma consumer_ok_view:
  assumes "consumer_ok V ch c" "ch \<noteq> []" "\<And>p. p \<in> set ch \<Longrightarrow> V' p = V p"
  shows "consumer_ok V' ch c"
  using assms by (cases c) auto

lemma node_values_view: "(\<And>p. p \<in> set ps \<Longrightarrow> V' p = V p) \<Longrightarrow> node_values V' ps = node_values V ps"
  by (simp add: node_values_def)

section \<open>Every step keeps the invariant\<close>

lemma ub_conc_invD:
  assumes "ub_conc_inv c ch s"
  shows "ut_consumers s = [c]" "ub_head (ut_queue s) = hd ch" "ub_tail (ut_queue s) = last ch"
    "counts_ok (ub_heap (ut_queue s)) (dues (ut_producers s) c ch) (deletes (ut_producers s) c)"
    "chain_ok (node_view (ub_heap (ut_queue s))) (ut_producers s) ch"
    "\<And>pc. pc \<in> set (ut_producers s) \<Longrightarrow> producer_ok (node_view (ub_heap (ut_queue s))) ch pc"
    "consumer_ok (node_view (ub_heap (ut_queue s))) ch c"
    "ut_in s = ut_out s @ taken (node_view (ub_heap (ut_queue s))) c
       @ node_values (node_view (ub_heap (ut_queue s))) (tl ch)"
    "ub_size (ut_queue s) + of_nat (sum_list (map uncounted (ut_producers s))) =
       of_nat (length (tl ch) + overcounted c)"
    "ch \<noteq> []" "distinct ch"
  using assms by (auto simp: ub_conc_inv_def chain_ok_def Let_def)

lemma taken_view:
  assumes "consumer_ok V ch c" "ch \<noteq> []" "\<And>p. p \<in> set ch \<Longrightarrow> V' p = V p"
  shows "taken V' c = taken V c"
  using assms by (cases c) (auto simp: taken_def node_values_def)

text \<open>A step of a producer that leaves the chain alone.\<close>

lemma producer_quiet:
  assumes inv: "ub_conc_inv c ch s" and i: "i < length (ut_producers s)"
    and s': "ut_producers s' = (ut_producers s)[i := w]" "ut_consumers s' = ut_consumers s"
      "ut_in s' = ut_in s" "ut_out s' = ut_out s" "ub_head (ut_queue s') = ub_head (ut_queue s)"
      "ub_tail (ut_queue s') = ub_tail (ut_queue s)"
    and size: "ub_size (ut_queue s') + of_nat (uncounted w) =
      ub_size (ut_queue s) + of_nat (uncounted (ut_producers s ! i))"
    and view: "\<And>p. 0 < dues (ut_producers s) c ch p \<Longrightarrow>
      node_view (ub_heap (ut_queue s')) p = node_view (ub_heap (ut_queue s)) p"
    and counts: "counts_ok (ub_heap (ut_queue s')) (dues (ut_producers s') c ch) (deletes (ut_producers s') c)"
    and ok: "producer_ok (node_view (ub_heap (ut_queue s'))) ch w"
    and nolink: "\<And>a t. ut_producers s ! i \<noteq> ULink a t"
  shows "ub_conc_inv c ch s'"
proof -
  note D = ub_conc_invD [OF inv]
  let ?V = "node_view (ub_heap (ut_queue s))" and ?V' = "node_view (ub_heap (ut_queue s'))"
  have ch: "?V' p = ?V p" if "p \<in> set ch" for p using chain_dues_pos [OF that] by (rule view)
  have "producer_ok ?V' ch pc" if "pc \<in> set (ut_producers s')" for pc
  proof (cases "pc = w")
    case False
    then have pc: "pc \<in> set (ut_producers s)"
      using that s'(1) set_update_subset_insert [of "ut_producers s" i w] by auto
    then show ?thesis
      by (intro producer_ok_view [OF D(6)] view order.strict_trans2 [OF _ producer_dues_le])
  qed (use ok in simp)
  moreover have "chain_ok ?V' (ut_producers s') ch"
  proof -
    have "ULink n p \<in> set (ut_producers s')" if "ULink n p \<in> set (ut_producers s)" for n p
      unfolding s'(1) using that nolink by (metis in_set_update_other)
    then have "chain_ok ?V (ut_producers s') ch" using D(5) unfolding chain_ok_def by fastforce
    then show ?thesis by (rule chain_ok_view) (rule ch)
  qed
  moreover have "consumer_ok ?V' ch c" "taken ?V' c = taken ?V c"
    using consumer_ok_view [OF D(7,10) ch] taken_view [OF D(7,10) ch] by blast+
  moreover have "node_values ?V' (tl ch) = node_values ?V (tl ch)"
    by (rule node_values_view) (use ch D(10) in \<open>auto dest: list.set_sel(2)\<close>)
  moreover have "of_nat (sum_list (map uncounted (ut_producers s'))) + of_nat (uncounted (ut_producers s ! i)) =
      (of_nat (sum_list (map uncounted (ut_producers s))) + of_nat (uncounted w) :: u64)"
    using arg_cong [OF sum_list_change [OF i, of uncounted w], of "of_nat :: nat \<Rightarrow> u64"] s'(1) by simp
  then have "ub_size (ut_queue s') + of_nat (sum_list (map uncounted (ut_producers s'))) =
      ub_size (ut_queue s) + of_nat (sum_list (map uncounted (ut_producers s)))"
    by (rule balance [OF size])
  ultimately show ?thesis using D counts s' by (simp add: ub_conc_inv_def Let_def)
qed

text \<open>The exchange of \<open>tail_\<close> appends the node to the chain.\<close>

lemma producer_exchange:
  assumes inv: "ub_conc_inv c ch s" and i: "i < length (ut_producers s)"
    and pc: "ut_producers s ! i = UTry x a t" and t: "ub_tail (ut_queue s) = t"
  shows "ub_conc_inv c (ch @ [a]) (s\<lparr> ut_producers := (ut_producers s)[i := ULink a t],
    ut_queue := (ut_queue s)\<lparr> ub_tail := a \<rparr>, ut_in := ut_in s @ [x] \<rparr>)"
proof -
  note D = ub_conc_invD [OF inv]
  let ?ps = "ut_producers s" and ?ps' = "(ut_producers s)[i := ULink a t]"
  let ?V = "node_view (ub_heap (ut_queue s))"
  have mem: "UTry x a t \<in> set ?ps" using i pc by (metis nth_mem)
  have a: "?V a = Some (x, None)" using D(6) [OF mem] by simp
  have tl: "t = last ch" "t \<in> set ch" using D(3,10) t by auto
  have "2 \<le> sum_list (map (producer_dues a) ?ps)"
    using producer_dues_le [OF mem, of a c] member_le_sum_list [of "2::nat" "map (producer_dues a) ?ps"] mem
    by (force simp: image_iff)
  moreover have "dues ?ps c ch a \<le> 2"
    using allocated_of_dues [OF D(4), of a] by (cases "dues ?ps c ch a") auto
  ultimately have an: "a \<notin> set ch" by (auto simp: dues_def chain_dues_def)
  have "dues ?ps' c (ch @ [a]) p = dues ?ps c ch p" for p
    using dues_change [OF i, of "ULink a t" c ch p] pc tl an
    by (auto simp: dues_def chain_dues_def split: if_splits)
  moreover have "deletes ?ps' c p = deletes ?ps c p" for p
    using deletes_change [OF i, of "ULink a t" c p] pc by simp
  ultimately have counts: "counts_ok (ub_heap (ut_queue s)) (dues ?ps' c (ch @ [a])) (deletes ?ps' c)"
    by (rule counts_same [OF D(4)])
  have link: "ULink a t \<in> set ?ps'" using i by (rule set_update_memI)
  have keep: "ULink n p \<in> set ?ps'" if "ULink n p \<in> set ?ps" for n p
    using that pc by (simp add: in_set_update_other)
  have chain: "chain_ok ?V ?ps' (ch @ [a])"
    using D(5) a an link keep tl unfolding chain_ok_def by (fastforce simp: neighbours_snoc)
  have "producer_ok ?V (ch @ [a]) p" if "producer_ok ?V ch p" for p
    using that D(10) by (cases p) (auto simp: neighbours_snoc)
  moreover have "producer_ok ?V (ch @ [a]) (ULink a t)"
    using D(5,10) tl by (auto simp: chain_ok_def neighbours_snoc)
  ultimately have prods: "\<forall>p \<in> set ?ps'. producer_ok ?V (ch @ [a]) p"
    using D(6) set_update_subset_insert [of ?ps i "ULink a t"] by blast
  have cons: "consumer_ok ?V (ch @ [a]) c" using D(7,10) by (cases c) auto
  have vals: "node_values ?V (tl (ch @ [a])) = node_values ?V (tl ch) @ [x]"
    using a D(10) by (simp add: node_values_def)
  have "sum_list (map uncounted ?ps') = sum_list (map uncounted ?ps) + 1"
    using sum_list_change [OF i, of uncounted "ULink a t"] pc by simp
  moreover have "of_nat (length ch) = (1 + of_nat (length ch - Suc 0) :: u64)" using D(10) by (cases ch) auto
  ultimately show ?thesis
    using D counts chain prods cons vals by (simp add: ub_conc_inv_def Let_def algebra_simps)
qed

text \<open>The old tail gets its \<open>next\<close>.\<close>

lemma producer_link:
  assumes inv: "ub_conc_inv c ch s" and i: "i < length (ut_producers s)"
    and pc: "ut_producers s ! i = ULink a t"
  shows "\<exists>nd. ub_heap (ut_queue s) t = Some nd \<and>
    ub_conc_inv c ch (s\<lparr> ut_producers := (ut_producers s)[i := URelease t],
      ut_queue := (ut_queue s)\<lparr> ub_heap := (ub_heap (ut_queue s))(t \<mapsto> nd\<lparr> nd_next := Some a \<rparr>) \<rparr> \<rparr>)"
proof -
  note D = ub_conc_invD [OF inv]
  let ?ps = "ut_producers s" and ?ps' = "(ut_producers s)[i := URelease t]"
  let ?h = "ub_heap (ut_queue s)"
  have mem: "ULink a t \<in> set ?ps" using i pc by (metis nth_mem)
  then obtain d where nb: "(t, a) \<in> neighbours ch" and V: "node_view ?h t = Some (d, None)"
    using D(6) by fastforce
  then obtain nd where nd: "?h t = Some nd" "nd_next nd = None" "nd_data nd = d"
    by (auto simp: node_view_def)
  let ?h' = "?h(t \<mapsto> nd\<lparr> nd_next := Some a \<rparr>)"
  have V': "node_view ?h' = (node_view ?h)(t \<mapsto> (d, Some a))"
    using nd by (auto simp: node_view_def)
  have tch: "t \<in> set ch" "t \<noteq> last ch" using neighbours_set [OF nb] neighbours_last [OF nb D(11)] by auto
  have "counts_ok ?h' (dues ?ps' c ch) (deletes ?ps' c)"
  proof (rule counts_link [OF D(4) nd(1)])
    show "dues ?ps' c ch p = dues ?ps c ch p" for p using dues_change [OF i, of "URelease t" c ch p] pc by simp
    show "deletes ?ps' c p = deletes ?ps c p" for p using deletes_change [OF i, of "URelease t" c p] pc by simp
  qed simp
  moreover have "\<forall>pc \<in> set ?ps'. producer_ok (node_view ?h') ch pc"
  proof
    fix w assume "w \<in> set ?ps'"
    then obtain j where j: "j < length ?ps" "w = ?ps' ! j" by (metis in_set_conv_nth length_list_update)
    show "producer_ok (node_view ?h') ch w"
    proof (cases "j = i")
      case False
      then have w: "w = ?ps ! j" using j by simp
      have "producer_dues t (?ps ! i) + producer_dues t (?ps ! j) \<le> sum_list (map (producer_dues t) ?ps)"
        by (rule two_le_sum_list) (use i j False in auto)
      moreover have "dues ?ps c ch t \<le> 2"
        using allocated_of_dues [OF D(4), of t] by (cases "dues ?ps c ch t") auto
      ultimately have z: "producer_dues t w = 0" using pc w tch by (auto simp: dues_def chain_dues_def)
      have "w \<in> set ?ps" unfolding w using j(1) by (rule nth_mem)
      then have ok: "producer_ok (node_view ?h) ch w" by (rule D(6))
      show ?thesis by (rule producer_ok_view [OF ok]) (use z V' in auto)
    qed (use i j in simp)
  qed
  moreover have "chain_ok (node_view ?h') ?ps' ch"
  proof -
    have "\<exists>d. node_view ?h' p = Some (d, Some n) \<or> node_view ?h' p = Some (d, None) \<and> ULink n p \<in> set ?ps'"
      if pn: "(p, n) \<in> neighbours ch" for p n
    proof (cases "p = t")
      case True
      then have "n = a" using neighbours_unique [OF pn _ D(11)] nb by simp
      then show ?thesis using True V' by simp
    next
      case False
      then have "ULink n p \<in> set ?ps \<Longrightarrow> ULink n p \<in> set ?ps'" using pc by (simp add: in_set_update_other)
      then show ?thesis using D(5) pn False V' unfolding chain_ok_def by fastforce
    qed
    then show ?thesis using D(5) tch V' unfolding chain_ok_def by auto
  qed
  moreover have "consumer_ok (node_view ?h') ch c" using D(7) V V' by (cases c) auto
  moreover have "node_values (node_view ?h') ps = node_values (node_view ?h) ps" for ps
    using V V' by (auto simp: node_values_def)
  then have "taken (node_view ?h') c = taken (node_view ?h) c"
    "node_values (node_view ?h') (tl ch) = node_values (node_view ?h) (tl ch)" by (simp_all add: taken_def)
  moreover have "sum_list (map uncounted ?ps') = sum_list (map uncounted ?ps)"
    using sum_list_change [OF i, of uncounted "URelease t"] pc by simp
  ultimately show ?thesis using D nd(1) by (simp add: ub_conc_inv_def Let_def)
qed

lemma node_view_release: "h t = Some nd \<Longrightarrow> node_view (h(t \<mapsto> nd\<lparr> ref_count := r \<rparr>)) = node_view h"
  by (auto simp: node_view_def)

text \<open>The other steps of a producer: its own state and the heap change, the memory it owes changes as
  the counters do.\<close>

lemma producer_pc:
  assumes inv: "ub_conc_inv c ch s" and i: "i < length (ut_producers s)"
    and size: "sz + of_nat (uncounted w) = ub_size (ut_queue s) + of_nat (uncounted (ut_producers s ! i))"
    and view: "\<And>p. 0 < dues (ut_producers s) c ch p \<Longrightarrow> node_view h p = node_view (ub_heap (ut_queue s)) p"
    and counts: "counts_ok h (dues ((ut_producers s)[i := w]) c ch) (deletes ((ut_producers s)[i := w]) c)"
    and ok: "producer_ok (node_view h) ch w"
    and nolink: "\<And>a t. ut_producers s ! i \<noteq> ULink a t"
  shows "ub_conc_inv c ch (s\<lparr> ut_producers := (ut_producers s)[i := w],
    ut_queue := (ut_queue s)\<lparr> ub_heap := h, ub_size := sz \<rparr> \<rparr>)"
  by (rule producer_quiet [OF inv i, of _ w]) (use assms in simp_all)

lemma producer_same_dues:
  assumes "i < length ps" "counts_ok h (dues ps c ch) (deletes ps c)"
    "\<And>p. producer_dues p w = producer_dues p (ps ! i)" "\<And>p. producer_deletes p w = producer_deletes p (ps ! i)"
  shows "counts_ok h (dues (ps[i := w]) c ch) (deletes (ps[i := w]) c)"
proof (rule counts_same [OF assms(2)])
  show "dues (ps[i := w]) c ch p = dues ps c ch p" for p
    using dues_change [OF assms(1), of w c ch p] assms(3) by simp
  show "deletes (ps[i := w]) c p = deletes ps c p" for p
    using deletes_change [OF assms(1), of w c p] assms(4) by simp
qed

lemma Enqueue_turn_inv:
  assumes inv: "ub_conc_inv c ch s" and i: "i < length (ut_producers s)"
  shows "\<exists>s' ch'. ub_threads_step dflt (ActProducer i) s = Some s' \<and> ub_conc_inv c ch' s'"
proof -
  note D = ub_conc_invD [OF inv]
  note pcs = producer_pc [OF inv i] and same = producer_same_dues [OF i D(4)]
  note dc = dues_change [OF i, of _ c ch] and ec = deletes_change [OF i, of _ c]
  let ?q = "ut_queue s" and ?ps = "ut_producers s"
  have mem: "?ps ! i \<in> set ?ps" using i by (rule nth_mem)
  note ok = D(6) [OF mem]
  have q: "?q\<lparr> ub_heap := ub_heap ?q, ub_size := ub_size ?q \<rparr> = ?q" by simp
  show ?thesis
  proof (cases "?ps ! i")
    case UIdle
    then have "?ps[i := UIdle] = ?ps" by (metis list_update_id)
    then show ?thesis using UIdle i inv by auto
  next
    case pc: (ULoad x a)
    have "ub_conc_inv c ch (s\<lparr> ut_producers := ?ps[i := UTry x a (ub_tail ?q)], ut_queue := ?q\<lparr> ub_heap := ub_heap ?q, ub_size := ub_size ?q \<rparr> \<rparr>)"
      by (rule pcs) (use pc ok in \<open>auto intro!: same\<close>)
    then show ?thesis using i pc q by auto
  next
    case pc: (UTry x a t)
    show ?thesis
    proof (cases "ub_tail ?q = t")
      case True
      then show ?thesis using producer_exchange [OF inv i pc True] i pc by auto
    next
      case False
      have "ub_conc_inv c ch (s\<lparr> ut_producers := ?ps[i := UTry x a (ub_tail ?q)], ut_queue := ?q\<lparr> ub_heap := ub_heap ?q, ub_size := ub_size ?q \<rparr> \<rparr>)"
        by (rule pcs) (use pc ok in \<open>auto intro!: same\<close>)
      then show ?thesis using False i pc q by auto
    qed
  next
    case pc: (ULink a t)
    then show ?thesis using producer_link [OF inv i pc] i by auto
  next
    case pc: (URelease t)
    have "0 < dues ?ps c ch t" using producer_dues_le [OF mem, of t c ch] pc by simp
    then obtain nd where nd: "ub_heap ?q t = Some nd" using allocated_of_dues [OF D(4), of t] by blast
    let ?h = "(ub_heap ?q)(t \<mapsto> nd\<lparr> ref_count := ref_count nd - 1 \<rparr>)"
    let ?w = "if ref_count nd = 1 then UDelete t else USize"
    have "ub_conc_inv c ch (s\<lparr> ut_producers := ?ps[i := ?w], ut_queue := ?q\<lparr> ub_heap := ?h, ub_size := ub_size ?q \<rparr> \<rparr>)"
    proof (rule pcs)
      show "counts_ok ?h (dues (?ps[i := ?w]) c ch) (deletes (?ps[i := ?w]) c)"
      proof (rule counts_release [OF D(4) nd])
        show "dues ?ps c ch p = dues (?ps[i := ?w]) c ch p + (if p = t then 1 else 0)" for p
          using dc [of ?w p] pc by (simp split: if_splits)
        show "deletes (?ps[i := ?w]) c p = deletes ?ps c p + (if p = t \<and> ref_count nd = 1 then 1 else 0)" for p
          using ec [of ?w p] pc by (simp split: if_splits)
      qed
    qed (use pc nd in \<open>auto simp: node_view_release\<close>)
    then show ?thesis using i pc nd by (auto simp: release_count_def)
  next
    case pc: (UDelete t)
    have "0 < deletes ?ps c t" using producer_deletes_le [OF mem, of t c] pc by simp
    then have t: "ub_heap ?q t \<noteq> None \<and> dues ?ps c ch t = 0" using deleted_apart [OF D(4)] by blast
    let ?h = "(ub_heap ?q)(t := None)"
    have "ub_conc_inv c ch (s\<lparr> ut_producers := ?ps[i := USize], ut_queue := ?q\<lparr> ub_heap := ?h, ub_size := ub_size ?q \<rparr> \<rparr>)"
    proof (rule pcs)
      show "counts_ok ?h (dues (?ps[i := USize]) c ch) (deletes (?ps[i := USize]) c)"
      proof (rule counts_delete [OF D(4)])
        show "deletes ?ps c p = deletes (?ps[i := USize]) c p + (if p = t then 1 else 0)" for p
          using ec [of USize p] pc by (simp split: if_splits)
        show "dues (?ps[i := USize]) c ch p = dues ?ps c ch p" for p using dc [of USize p] pc by simp
      qed
      show "node_view ?h p = node_view (ub_heap ?q) p" if "0 < dues ?ps c ch p" for p
        using that t by (auto simp: node_view_def)
    qed (use pc in auto)
    then show ?thesis using i pc t by (auto simp: delete_node_def)
  next
    case pc: USize
    have "ub_conc_inv c ch (s\<lparr> ut_producers := ?ps[i := UIdle], ut_queue := ?q\<lparr> ub_heap := ub_heap ?q, ub_size := ub_size ?q + 1 \<rparr> \<rparr>)"
      by (rule pcs) (use pc in \<open>auto intro!: same\<close>)
    then show ?thesis using i pc by auto
  qed
qed

lemma EnqueueCall_inv:
  assumes inv: "ub_conc_inv c ch s"
  shows "\<exists>s'. ub_threads_step dflt (ActEnqueueCall i x a) s = Some s' \<and> ub_conc_inv c ch s'"
proof (cases "i < length (ut_producers s) \<and> ub_heap (ut_queue s) a = None \<and> ut_producers s ! i = UIdle")
  case True
  then have i: "i < length (ut_producers s)" and pc: "ut_producers s ! i = UIdle"
    and a: "ub_heap (ut_queue s) a = None" by auto
  note D = ub_conc_invD [OF inv]
  let ?q = "ut_queue s" and ?ps = "ut_producers s"
  let ?h = "(ub_heap ?q)(a \<mapsto> (new_Node dflt)\<lparr> nd_data := x \<rparr>)"
  have "ub_conc_inv c ch (s\<lparr> ut_producers := ?ps[i := ULoad x a], ut_queue := ?q\<lparr> ub_heap := ?h, ub_size := ub_size ?q \<rparr> \<rparr>)"
  proof (rule producer_pc [OF inv i])
    show "counts_ok ?h (dues (?ps[i := ULoad x a]) c ch) (deletes (?ps[i := ULoad x a]) c)"
    proof (rule counts_new [OF D(4) a])
      show "dues (?ps[i := ULoad x a]) c ch p = dues ?ps c ch p + (if p = a then 2 else 0)" for p
        using dues_change [OF i, of "ULoad x a" c ch p] pc by simp
      show "deletes (?ps[i := ULoad x a]) c p = deletes ?ps c p" for p
        using deletes_change [OF i, of "ULoad x a" c p] pc by simp
    qed (simp add: new_Node_def)
    show "node_view ?h p = node_view (ub_heap ?q) p" if "0 < dues ?ps c ch p" for p
      using that counts_okD [OF D(4), of a] a by (auto simp: node_view_def)
  qed (use pc in \<open>auto simp: node_view_def new_Node_def\<close>)
  then show ?thesis using True by auto
next
  case False
  then show ?thesis using inv by (cases "ut_producers s ! i") auto
qed

text \<open>A step of the consumer that leaves the chain alone.\<close>

lemma consumer_pc:
  assumes inv: "ub_conc_inv c ch s"
    and size: "sz + of_nat (overcounted c) = ub_size (ut_queue s) + of_nat (overcounted w)"
    and view: "\<And>p. 0 < dues (ut_producers s) c ch p \<Longrightarrow> node_view h p = node_view (ub_heap (ut_queue s)) p"
    and counts: "counts_ok h (dues (ut_producers s) w ch) (deletes (ut_producers s) w)"
    and ok: "consumer_ok (node_view h) ch w"
    and out: "xs @ taken (node_view h) w = taken (node_view (ub_heap (ut_queue s))) c"
  shows "ub_conc_inv w ch (s\<lparr> ut_consumers := [w],
    ut_queue := (ut_queue s)\<lparr> ub_heap := h, ub_size := sz \<rparr>, ut_out := ut_out s @ xs \<rparr>)"
proof -
  note D = ub_conc_invD [OF inv]
  let ?V = "node_view (ub_heap (ut_queue s))" and ?ps = "ut_producers s"
  have ch: "node_view h p = ?V p" if "p \<in> set ch" for p using chain_dues_pos [OF that] by (rule view)
  have "\<forall>pc \<in> set ?ps. producer_ok (node_view h) ch pc"
    by (intro ballI producer_ok_view [OF D(6)] view order.strict_trans2 [OF _ producer_dues_le])
  moreover have "chain_ok (node_view h) ?ps ch" by (rule chain_ok_view [OF D(5) ch])
  moreover have "node_values (node_view h) (tl ch) = node_values ?V (tl ch)"
    by (rule node_values_view) (use ch D(10) in \<open>auto dest: list.set_sel(2)\<close>)
  moreover have "sz + of_nat (sum_list (map uncounted ?ps)) = of_nat (length (tl ch) + overcounted w)"
  proof (rule add_right_imp_eq)
    let ?u = "of_nat (sum_list (map uncounted ?ps)) :: u64" and ?c = "of_nat (overcounted c) :: u64"
    have "(sz + ?u) + ?c = (sz + ?c) + ?u" by (simp only: ac_simps)
    also have "\<dots> = (ub_size (ut_queue s) + ?u) + of_nat (overcounted w)" by (simp only: size ac_simps)
    also have "\<dots> = of_nat (length (tl ch) + overcounted w) + ?c" by (simp only: D(9) of_nat_add ac_simps)
    finally show "(sz + ?u) + ?c = of_nat (length (tl ch) + overcounted w) + ?c" .
  qed
  ultimately show ?thesis using D counts ok out by (simp add: ub_conc_inv_def Let_def)
qed

lemma consumer_same_dues:
  assumes "counts_ok h (dues ps c ch) (deletes ps c)"
    "\<And>p. consumer_dues p w = consumer_dues p c" "\<And>p. consumer_deletes p w = consumer_deletes p c"
  shows "counts_ok h (dues ps w ch) (deletes ps w)"
  by (rule counts_same [OF assms(1)]) (simp_all add: dues_def deletes_def assms(2,3))

text \<open>The exchange of \<open>head_\<close> takes the old sentinel out of the chain.\<close>

lemma consumer_exchange:
  assumes inv: "ub_conc_inv (DCas t n) ch s"
  shows "ub_head (ut_queue s) = t \<and> ub_conc_inv (DData t n) (tl ch)
    (s\<lparr> ut_consumers := [DData t n], ut_queue := (ut_queue s)\<lparr> ub_head := n \<rparr> \<rparr>)"
proof -
  note D = ub_conc_invD [OF inv]
  let ?V = "node_view (ub_heap (ut_queue s))" and ?ps = "ut_producers s"
  obtain d where t: "t = hd ch" and V: "?V t = Some (d, Some n)" using D(7) by auto
  obtain rest where ch: "ch = t # rest" using t D(10) by (cases ch) auto
  have "rest \<noteq> []" using D(5) ch V by (auto simp: chain_ok_def)
  then obtain m ms where rest: "rest = m # ms" by (cases rest) auto
  have "m = n" using D(5) V by (auto simp: chain_ok_def ch rest)
  then have ch: "ch = t # n # ms" using ch rest by simp
  have dist: "t \<noteq> n" "t \<notin> set ms" "distinct (n # ms)" using D(11) ch by auto
  have "counts_ok (ub_heap (ut_queue s)) (dues ?ps (DData t n) (n # ms)) (deletes ?ps (DData t n))"
    by (rule counts_same [OF D(4)]) (use dist in \<open>auto simp: dues_def deletes_def chain_dues_def ch\<close>)
  moreover have "producer_ok ?V (n # ms) pc" if "pc \<in> set ?ps" for pc
    using D(6) [OF that] V by (cases pc) (auto simp: ch)
  moreover have "chain_ok ?V ?ps (n # ms)" using D(5) dist by (simp add: chain_ok_def ch)
  moreover have "ub_head (ut_queue s) = t" using D(2) ch by simp
  moreover have "ub_tail (ut_queue s) = last (n # ms)" "ut_in s = ut_out s @ node_values ?V (n # ms)"
    "ub_size (ut_queue s) + of_nat (sum_list (map uncounted ?ps)) = of_nat (length ms + 1)"
    using D(3,8,9) by (simp_all add: ch taken_def node_values_def)
  ultimately show ?thesis
    using D(1) by (simp add: ub_conc_inv_def Let_def ch taken_def node_values_def)
qed

lemma Dequeue_turn_inv:
  assumes inv: "ub_conc_inv c ch s"
  shows "\<exists>s' c' ch'. ub_threads_step dflt (ActConsumer j) s = Some s' \<and> ub_conc_inv c' ch' s'"
proof (cases "j = 0")
  case False
  then show ?thesis using inv ub_conc_invD(1) [OF inv] by auto
next
  case True
  note D = ub_conc_invD [OF inv]
  note pcs = consumer_pc [OF inv] and same = consumer_same_dues [OF D(4)]
  let ?q = "ut_queue s" and ?ps = "ut_producers s"
  let ?V = "node_view (ub_heap ?q)"
  have calm: "ub_conc_inv w ch (s\<lparr> ut_consumers := [w], ut_queue := ?q\<lparr> ub_size := sz \<rparr>, ut_out := ut_out s @ xs \<rparr>)"
    if "\<And>p. consumer_dues p w = consumer_dues p c" "\<And>p. consumer_deletes p w = consumer_deletes p c"
      "sz + of_nat (overcounted c) = ub_size ?q + of_nat (overcounted w)" "consumer_ok ?V ch w"
      "xs @ taken ?V w = taken ?V c" for w xs sz
    using pcs [of sz w "ub_heap ?q" xs] same [of w] that by simp
  have q: "?q\<lparr> ub_size := ub_size ?q \<rparr> = ?q" by simp
  show ?thesis
  proof (cases c)
    case c: DIdle
    have "ub_conc_inv (DNext (ub_head ?q)) ch
        (s\<lparr> ut_consumers := [DNext (ub_head ?q)], ut_queue := ?q\<lparr> ub_size := ub_size ?q \<rparr>, ut_out := ut_out s @ [] \<rparr>)"
      by (rule calm) (use c D(2) in \<open>auto simp: taken_def\<close>)
    then show ?thesis using True c D(1) q by auto
  next
    case c: (DNext t)
    then have "t \<in> set ch" using D(7,10) by simp
    then obtain nd where nd: "ub_heap ?q t = Some nd"
      using allocated_of_dues [OF D(4) chain_dues_pos] by blast
    let ?w = "case nd_next nd of None \<Rightarrow> DIdle | Some n \<Rightarrow> DCas t n"
    have "ub_conc_inv ?w ch (s\<lparr> ut_consumers := [?w], ut_queue := ?q\<lparr> ub_size := ub_size ?q \<rparr>, ut_out := ut_out s @ [] \<rparr>)"
      by (rule calm) (use c D(7) nd in \<open>auto simp: taken_def node_view_def split: option.split\<close>)
    then show ?thesis using True c D(1) q nd by (auto split: option.splits)
  next
    case c: (DCas t n)
    then show ?thesis using consumer_exchange [of t n ch s] inv True D(1) by auto
  next
    case c: (DData t n)
    then have "n \<in> set ch" using D(7,10) by simp
    then obtain nd where nd: "ub_heap ?q n = Some nd"
      using allocated_of_dues [OF D(4) chain_dues_pos] by blast
    have "ub_conc_inv (DSize t) ch
        (s\<lparr> ut_consumers := [DSize t], ut_queue := ?q\<lparr> ub_size := ub_size ?q \<rparr>, ut_out := ut_out s @ [nd_data nd] \<rparr>)"
      by (rule calm) (use c nd in \<open>auto simp: taken_def node_values_def node_view_def\<close>)
    then show ?thesis using True c D(1) q nd by auto
  next
    case c: (DSize t)
    have "ub_conc_inv (DRelease t) ch
        (s\<lparr> ut_consumers := [DRelease t], ut_queue := ?q\<lparr> ub_size := ub_size ?q - 1 \<rparr>, ut_out := ut_out s @ [] \<rparr>)"
      by (rule calm) (use c in \<open>auto simp: taken_def\<close>)
    then show ?thesis using True c D(1) by auto
  next
    case c: (DRelease t)
    have "0 < dues ?ps c ch t" using c by (simp add: dues_def)
    then obtain nd where nd: "ub_heap ?q t = Some nd" using allocated_of_dues [OF D(4), of t] by blast
    let ?h = "(ub_heap ?q)(t \<mapsto> nd\<lparr> ref_count := ref_count nd - 1 \<rparr>)"
    let ?w = "if ref_count nd = 1 then DDelete t else DIdle"
    have "ub_conc_inv ?w ch (s\<lparr> ut_consumers := [?w], ut_queue := ?q\<lparr> ub_heap := ?h, ub_size := ub_size ?q \<rparr>, ut_out := ut_out s @ [] \<rparr>)"
    proof (rule pcs)
      show "counts_ok ?h (dues ?ps ?w ch) (deletes ?ps ?w)"
        by (rule counts_release [OF D(4) nd]) (auto simp: dues_def deletes_def c)
    qed (use c nd in \<open>auto simp: node_view_release taken_def\<close>)
    moreover have "ub_threads_step dflt (ActConsumer j) s =
        Some (s\<lparr> ut_consumers := [?w], ut_queue := ?q\<lparr> ub_heap := ?h, ub_size := ub_size ?q \<rparr>, ut_out := ut_out s @ [] \<rparr>)"
      using True c D(1) nd by (simp add: release_count_def)
    ultimately show ?thesis by blast
  next
    case c: (DDelete t)
    have "0 < deletes ?ps c t" using c by (simp add: deletes_def)
    then have t: "ub_heap ?q t \<noteq> None \<and> dues ?ps c ch t = 0" using deleted_apart [OF D(4)] by blast
    let ?h = "(ub_heap ?q)(t := None)"
    have "ub_conc_inv DIdle ch (s\<lparr> ut_consumers := [DIdle], ut_queue := ?q\<lparr> ub_heap := ?h, ub_size := ub_size ?q \<rparr>, ut_out := ut_out s @ [] \<rparr>)"
    proof (rule pcs)
      show "counts_ok ?h (dues ?ps DIdle ch) (deletes ?ps DIdle)"
        by (rule counts_delete [OF D(4)]) (auto simp: dues_def deletes_def c)
      show "node_view ?h p = node_view (ub_heap ?q) p" if "0 < dues ?ps c ch p" for p
        using that t by (auto simp: node_view_def)
    qed (use c in \<open>auto simp: taken_def node_values_def\<close>)
    then show ?thesis using True c D(1) t by (auto simp: delete_node_def)
  qed
qed

lemma ub_threads_step_inv:
  assumes "ub_conc_inv c ch s"
  shows "\<exists>s' c' ch'. ub_threads_step dflt a s = Some s' \<and> ub_conc_inv c' ch' s'"
proof (cases a)
  case (ActEnqueueCall i x p)
  then show ?thesis using EnqueueCall_inv [OF assms] by blast
next
  case (ActProducer i)
  show ?thesis
  proof (cases "i < length (ut_producers s)")
    case True
    then show ?thesis using Enqueue_turn_inv [OF assms, of i dflt] ActProducer by blast
  qed (use ActProducer assms in auto)
next
  case (ActConsumer j)
  then show ?thesis using Dequeue_turn_inv [OF assms, of dflt j] by blast
qed

lemma ub_threads_run_inv:
  "ub_conc_inv c ch s \<Longrightarrow> \<exists>s' c' ch'. ub_threads_run dflt acts s = Some s' \<and> ub_conc_inv c' ch' s'"
proof (induction acts arbitrary: c ch s)
  case (Cons a acts)
  then show ?case using ub_threads_step_inv [of c ch s dflt a] by fastforce
qed auto

lemma ub_threads_start_inv: "\<exists>ch. ub_conc_inv DIdle ch (ub_threads_start dflt n 1)"
proof -
  have "sum_list (map f (replicate n UIdle)) = 0" if "f UIdle = 0" for f :: "'b ub_producer \<Rightarrow> nat"
    using that by (simp add: sum_list_replicate)
  then have "ub_conc_inv DIdle [0] (ub_threads_start dflt n 1)"
    by (auto simp: ub_conc_inv_def ub_threads_start_def ub_construct_def ub_Reset_def new_Node_def Let_def
      counts_ok_def dues_def deletes_def chain_dues_def chain_ok_def node_view_def taken_def node_values_def
      sum_list_replicate)
  then show ?thesis by blast
qed

text \<open>Between calls the allocated nodes are those of the chain.\<close>

definition ub_quiet :: "'a ub_threads \<Rightarrow> bool" where
  "ub_quiet s \<longleftrightarrow> (\<forall>pc \<in> set (ut_producers s). pc = UIdle) \<and> (\<forall>c \<in> set (ut_consumers s). c = DIdle)"

lemma quiet_memory:
  assumes inv: "ub_conc_inv c ch s" and q: "ub_quiet s"
  shows "dom (ub_heap (ut_queue s)) = set ch \<and> ub_size (ut_queue s) = of_nat (length (tl ch)) \<and>
    length (ut_in s) = length (ut_out s) + length (tl ch)"
proof -
  note D = ub_conc_invD [OF inv]
  let ?ps = "ut_producers s"
  have c: "c = DIdle" using q D(1) by (simp add: ub_quiet_def)
  have z: "sum_list (map f ?ps) = 0" if "f UIdle = 0" for f :: "'a ub_producer \<Rightarrow> nat"
    using q that by (auto simp: ub_quiet_def)
  have "p \<in> dom (ub_heap (ut_queue s)) \<longleftrightarrow> p \<in> set ch" for p
    using counts_okD [OF D(4), of p] z [of "producer_dues p"] z [of "producer_deletes p"] D(10)
    by (cases "ub_heap (ut_queue s) p") (auto simp: dues_def deletes_def chain_dues_def c split: if_splits)
  then show ?thesis using D(8,9) z [of uncounted] by (auto simp: c taken_def node_values_def)
qed

text \<open>C36: With any number of producers and one consumer, in every order of their steps and wherever
  \<open>new\<close> puts the nodes, no step touches a node that is not allocated; what came out is a beginning
  of what went in, in the order of the exchanges of the tail; and whenever no call is in progress
  the allocated nodes are the sentinel and one for each element that has not come out, and the size
  is their number.  (The accesses are taken to be sequentially consistent.)\<close>

theorem one_consumer_queue_safe:
  "\<exists>s rest. ub_threads_run dflt acts (ub_threads_start dflt n 1) = Some s \<and> ut_in s = ut_out s @ rest \<and>
     (ub_quiet s \<longrightarrow> card (dom (ub_heap (ut_queue s))) = Suc (length rest) \<and>
        ub_size (ut_queue s) = of_nat (length rest))"
proof -
  obtain ch0 where i0: "ub_conc_inv DIdle ch0 (ub_threads_start dflt n 1)" using ub_threads_start_inv [of dflt n] by (elim exE)
  then obtain s c ch where run: "ub_threads_run dflt acts (ub_threads_start dflt n 1) = Some s"
      and inv: "ub_conc_inv c ch s"
    using ub_threads_run_inv [OF i0, of dflt acts] by (elim exE conjE)
  note D = ub_conc_invD [OF inv]
  obtain rest where rest: "ut_in s = ut_out s @ rest" using D(8) by blast
  moreover have "card (dom (ub_heap (ut_queue s))) = Suc (length rest) \<and>
      ub_size (ut_queue s) = of_nat (length rest)" if "ub_quiet s"
    using quiet_memory [OF inv that] rest D(10,11) by (cases ch) (simp_all add: distinct_card)
  ultimately show ?thesis using run by blast
qed

lemma one_consumer_queue_safe_witness:
  "(let acts = ActEnqueueCall 0 (5::int) 1 # ActEnqueueCall 1 7 2 # ActProducer 1 # replicate 5 (ActProducer 0) @
       replicate 6 (ActProducer 1) @ replicate 7 (ActConsumer 0);
     s = the (ub_threads_run 0 acts (ub_threads_start 0 2 1))
   in ub_quiet s \<and> ut_in s = [5, 7] \<and> ut_out s = [5] \<and> card (dom (ub_heap (ut_queue s))) = 2 \<and>
      ub_size (ut_queue s) = 1)"
proof -
  let ?acts = "ActEnqueueCall 0 (5::int) 1 # ActEnqueueCall 1 7 2 # ActProducer 1 # replicate 5 (ActProducer 0) @
       replicate 6 (ActProducer 1) @ replicate 7 (ActConsumer 0)"
  obtain s rest where s: "ub_threads_run 0 ?acts (ub_threads_start 0 2 1) = Some s" "ut_in s = ut_out s @ rest"
      and q: "ub_quiet s \<longrightarrow> card (dom (ub_heap (ut_queue s))) = Suc (length rest) \<and>
        ub_size (ut_queue s) = of_nat (length rest)"
    using one_consumer_queue_safe [of 0 ?acts 2] by blast
  have "(case ub_threads_run 0 ?acts (ub_threads_start 0 2 1) of None \<Rightarrow> False
      | Some s \<Rightarrow> ub_quiet s \<and> ut_in s = [5, 7] \<and> ut_out s = [5])"
    by code_simp
  then have v: "ub_quiet s \<and> ut_in s = [5, 7] \<and> ut_out s = [5]" unfolding s(1) option.case .
  then have "[5, 7] = [5] @ rest" using s(2) by metis
  then have "length rest = 1" by auto
  then show ?thesis unfolding Let_def s(1) option.sel using v q by simp
qed

text \<open>With two consumers: both load the sentinel, one removes and frees it, the other reads it.\<close>

lemma two_consumers_use_freed_node:
  "ub_threads_run 0 (ActEnqueueCall 0 (5::int) 1 # replicate 5 (ActProducer 0) @
     [ActConsumer 0, ActConsumer 1] @ replicate 6 (ActConsumer 0) @ [ActConsumer 1])
     (ub_threads_start 0 1 2) = None"
  by code_simp

end
