(* ===== verification/ObjectPools.thy ===== *)
theory ObjectPools
  imports Prelude
begin

text \<open>
  \<open>base/object_pool.h\<close> and \<open>base/concurrent_object_pool.h\<close>.  A node of the arena is its index; the
  \<open>next\<close> pointers of the nodes are a list indexed by it.  The single-threaded pool is a set of
  functions on that state; the lock-free pool is a step relation over any number of threads, one
  atomic access per step, with the tagged head (\<open>count\<close>, \<open>node\<close>) of the source.
\<close>

section \<open>Chains of free nodes\<close>

fun chained :: "nat option list \<Rightarrow> nat option \<Rightarrow> nat list \<Rightarrow> bool" where
  "chained nxt None fl = (fl = [])"
| "chained nxt (Some p) [] = False"
| "chained nxt (Some p) (q # fl) = (p = q \<and> p < length nxt \<and> chained nxt (nxt ! p) fl)"

lemma chained_update: "p \<notin> set fl \<Longrightarrow> chained (nxt[p := c]) h fl = chained nxt h fl"
  by (induction nxt h fl rule: chained.induct) auto

lemma chained_push:
  assumes "chained nxt h fl" "p \<notin> set fl" "p < length nxt"
  shows "chained (nxt[p := h]) (Some p) (p # fl)"
  using assms by (simp add: chained_update)

lemma chained_bound: "chained nxt h fl \<Longrightarrow> x \<in> set fl \<Longrightarrow> x < length nxt"
  by (induction nxt h fl rule: chained.induct) auto

section \<open>The single-threaded pool\<close>

record object_pool =
  op_next :: "nat option list"
  op_free_head :: "nat option"

text \<open>The constructor's loop links node after node in front of the list; \<open>f\<close>, the initial
  function of the second constructor, runs on the object and does not touch the links.\<close>

definition op_construct :: "nat \<Rightarrow> object_pool" where
  "op_construct num_objects =
     fold (\<lambda>i s. s\<lparr> op_next := (op_next s)[i := op_free_head s], op_free_head := Some i \<rparr>)
       [0..<num_objects] \<lparr> op_next = replicate num_objects None, op_free_head = None \<rparr>"

definition op_GetObject :: "object_pool \<Rightarrow> nat option \<times> object_pool" where
  "op_GetObject s =
     (case op_free_head s of
        None \<Rightarrow> (None, s)
      | Some obj \<Rightarrow> (Some obj, s\<lparr> op_free_head := op_next s ! obj \<rparr>))"

text \<open>\<open>None\<close> is a null pointer.\<close>

definition op_ReleaseObject :: "nat option \<Rightarrow> object_pool \<Rightarrow> object_pool" where
  "op_ReleaseObject object s =
     (case object of
        None \<Rightarrow> s
      | Some n \<Rightarrow> s\<lparr> op_next := (op_next s)[n := op_free_head s], op_free_head := Some n \<rparr>)"

text \<open>A client: the pool and the objects handed out (each \<open>shared_ptr\<close>'s deleter releases once).\<close>

datatype pool_request = GetReq | ReleaseReq nat

fun op_client :: "pool_request \<Rightarrow> object_pool \<times> nat list \<Rightarrow> object_pool \<times> nat list" where
  "op_client GetReq (s, held) =
     (case op_GetObject s of
        (None, s') \<Rightarrow> (s', held)
      | (Some n, s') \<Rightarrow> (s', n # held))"
| "op_client (ReleaseReq n) (s, held) =
     (if n \<in> set held then (op_ReleaseObject (Some n) s, remove1 n held) else (s, held))"

definition op_inv :: "nat \<Rightarrow> object_pool \<times> nat list \<Rightarrow> bool" where
  "op_inv N = (\<lambda>(s, held). length (op_next s) = N \<and>
     (\<exists>fl. chained (op_next s) (op_free_head s) fl \<and> distinct (fl @ held) \<and> set (fl @ held) = {..<N}))"

lemma op_invI:
  "\<lbrakk>length (op_next s) = N; chained (op_next s) (op_free_head s) fl; distinct (fl @ held);
    set (fl @ held) = {..<N}\<rbrakk> \<Longrightarrow> op_inv N (s, held)"
  by (auto simp: op_inv_def)

lemma op_construct_loop:
  assumes "n \<le> N"
  shows "\<exists>nxt. fold (\<lambda>i s. s\<lparr> op_next := (op_next s)[i := op_free_head s], op_free_head := Some i \<rparr>)
       [0..<n] \<lparr> op_next = replicate N None, op_free_head = None \<rparr>
     = \<lparr> op_next = nxt, op_free_head = (if n = 0 then None else Some (n - 1)) \<rparr> \<and>
     length nxt = N \<and> chained nxt (if n = 0 then None else Some (n - 1)) (rev [0..<n])"
  using assms
proof (induction n)
  case (Suc n)
  then obtain nxt where "fold (\<lambda>i s. s\<lparr> op_next := (op_next s)[i := op_free_head s], op_free_head := Some i \<rparr>)
       [0..<n] \<lparr> op_next = replicate N None, op_free_head = None \<rparr>
     = \<lparr> op_next = nxt, op_free_head = (if n = 0 then None else Some (n - 1)) \<rparr>"
     "length nxt = N" "chained nxt (if n = 0 then None else Some (n - 1)) (rev [0..<n])" by auto
  then show ?case using Suc.prems chained_push [of nxt _ "rev [0..<n]" n] by simp
qed simp

lemma op_construct_inv: "op_inv N (op_construct N, [])"
proof -
  obtain nxt where "op_construct N = \<lparr> op_next = nxt, op_free_head = (if N = 0 then None else Some (N - 1)) \<rparr>"
    "length nxt = N" "chained nxt (if N = 0 then None else Some (N - 1)) (rev [0..<N])"
    using op_construct_loop [of N N] by (auto simp: op_construct_def)
  then show ?thesis by (auto simp: op_inv_def intro!: exI [of _ "rev [0..<N]"])
qed

lemma op_client_inv: "op_inv N (s, held) \<Longrightarrow> op_inv N (op_client r (s, held))"
proof -
  assume "op_inv N (s, held)"
  then obtain fl where fl: "length (op_next s) = N" "chained (op_next s) (op_free_head s) fl"
      "distinct (fl @ held)" "set (fl @ held) = {..<N}"
    by (auto simp: op_inv_def)
  show ?thesis
  proof (cases r)
    case GetReq
    show ?thesis
    proof (cases "op_free_head s")
      case None
      then show ?thesis using fl GetReq by (auto simp: op_GetObject_def op_inv_def)
    next
      case (Some p)
      then obtain fl' where "fl = p # fl'" "chained (op_next s) (op_next s ! p) fl'"
        using fl(2) by (cases fl) auto
      then show ?thesis
        using fl GetReq Some by (auto simp: op_GetObject_def op_inv_def intro!: exI [of _ fl'])
    qed
  next
    case (ReleaseReq n)
    show ?thesis
    proof (cases "n \<in> set held")
      case True
      then have n: "n \<notin> set fl" "n < length (op_next s)" using fl by auto
      have "chained ((op_next s)[n := op_free_head s]) (Some n) (n # fl)"
        using chained_push [OF fl(2) n] .
      moreover have "distinct ((n # fl) @ remove1 n held)" using fl(3) n(1) by auto
      moreover have "set ((n # fl) @ remove1 n held) = {..<N}" using fl(3,4) True by auto
      ultimately have "op_inv N (op_ReleaseObject (Some n) s, remove1 n held)"
        using fl(1) by (intro op_invI [where fl = "n # fl"]) (simp_all add: op_ReleaseObject_def del: chained.simps)
      then show ?thesis using True ReleaseReq by simp
    qed (use \<open>op_inv N (s, held)\<close> ReleaseReq in simp)
  qed
qed

lemma op_run_inv: "op_inv N c \<Longrightarrow> op_inv N (fold op_client rs c)"
proof (induction rs arbitrary: c)
  case (Cons r rs)
  then have "op_inv N (op_client r c)" using op_client_inv [of N "fst c" "snd c" r] by simp
  then show ?case using Cons.IH by simp
qed simp

text \<open>the pool never hands out an object that is already out, whatever the requests, all objects
  handed out lie in the arena, and \<open>GetObject\<close> gives null exactly when all objects are out.\<close>

theorem object_pool_exclusive:
  assumes "fold op_client rs (op_construct N, []) = (s, held)"
  shows "distinct held \<and> set held \<subseteq> {..<N} \<and>
    (case fst (op_GetObject s) of None \<Rightarrow> length held = N | Some n \<Rightarrow> n < N \<and> n \<notin> set held)"
proof -
  have "op_inv N (s, held)"
    using op_run_inv [OF op_construct_inv [of N], of rs] assms by simp
  then obtain fl where fl: "chained (op_next s) (op_free_head s) fl"
      "distinct (fl @ held)" "set (fl @ held) = {..<N}"
    by (auto simp: op_inv_def)
  show ?thesis
  proof (cases "op_free_head s")
    case None
    then have "fl = []" using fl(1) by simp
    then have "length held = N" "set held = {..<N}" using fl distinct_card [of held] by auto
    then show ?thesis using None fl by (simp add: op_GetObject_def)
  next
    case (Some p)
    then show ?thesis using fl by (cases fl) (auto simp: op_GetObject_def)
  qed
qed

lemma object_pool_exclusive_witness:
  "distinct (snd (fold op_client [GetReq, GetReq, ReleaseReq 1, GetReq, GetReq] (op_construct 2, []))) \<and>
   snd (fold op_client [GetReq, GetReq, ReleaseReq 1, GetReq, GetReq] (op_construct 2, [])) = [1, 0]"
proof -
  let ?r = "fold op_client [GetReq, GetReq, ReleaseReq 1, GetReq, GetReq] (op_construct 2, [])"
  have "distinct (snd ?r)"
    using object_pool_exclusive [of "[GetReq, GetReq, ReleaseReq 1, GetReq, GetReq]" 2 "fst ?r" "snd ?r"]
    by (simp only: prod.collapse simp_thms)
  moreover have "snd ?r = [1, 0]" by code_simp
  ultimately show ?thesis by blast
qed

section \<open>The lock-free pool\<close>

text \<open>
  \<open>FindFreeHead\<close> loads the head (\<open>PopLoaded\<close>), reads \<open>next\<close> of the node it saw (\<open>PopRead\<close>) and swaps
  the head; \<open>ReleaseObject\<close> loads the head (\<open>PushLoaded\<close>), writes \<open>next\<close> of the released node
  (\<open>PushWritten\<close>) and swaps.  A failed swap reloads the head, and the weak swap may fail although the
  head is unchanged.  \<open>held\<close> are the objects in the hands of clients.
\<close>

datatype cc_thread =
    CcIdle | PopLoaded u64 "nat option" | PopRead u64 nat "nat option"
  | PushLoaded nat u64 "nat option" | PushWritten nat u64 "nat option"

record cc_pool =
  cc_next :: "nat option list"
  cc_count :: u64
  cc_node :: "nat option"
  cc_threads :: "nat \<Rightarrow> cc_thread"
  cc_held :: "nat list"
  cc_swaps :: nat

text \<open>The constructor for \<open>size \<ge> 1\<close>: the nodes linked in order.\<close>

definition cc_construct :: "nat \<Rightarrow> cc_pool" where
  "cc_construct sz = \<lparr> cc_next = map (\<lambda>i. if Suc i = sz then None else Some (Suc i)) [0..<sz],
     cc_count = 0, cc_node = Some 0, cc_threads = (\<lambda>_. CcIdle), cc_held = [], cc_swaps = 0 \<rparr>"

text \<open>\<open>size\<close> is an empty function in the source.\<close>

definition cc_size :: "cc_pool \<Rightarrow> u32" where
  "cc_size s = 0"

inductive cc_step :: "nat \<Rightarrow> cc_pool \<Rightarrow> cc_pool \<Rightarrow> bool" for t where
  pop_load: "cc_threads s t = CcIdle \<Longrightarrow>
    cc_step t s (s\<lparr> cc_threads := (cc_threads s)(t := PopLoaded (cc_count s) (cc_node s)) \<rparr>)"
| pop_null: "cc_threads s t = PopLoaded c None \<Longrightarrow>
    cc_step t s (s\<lparr> cc_threads := (cc_threads s)(t := CcIdle) \<rparr>)"
| pop_next: "cc_threads s t = PopLoaded c (Some n) \<Longrightarrow>
    cc_step t s (s\<lparr> cc_threads := (cc_threads s)(t := PopRead c n (cc_next s ! n)) \<rparr>)"
| pop_swap: "\<lbrakk>cc_threads s t = PopRead c n nx; cc_count s = c; cc_node s = Some n\<rbrakk> \<Longrightarrow>
    cc_step t s (s\<lparr> cc_count := c + 1, cc_node := nx, cc_held := n # cc_held s,
      cc_threads := (cc_threads s)(t := CcIdle), cc_swaps := Suc (cc_swaps s) \<rparr>)"
| pop_swap_fail: "cc_threads s t = PopRead c n nx \<Longrightarrow>
    cc_step t s (s\<lparr> cc_threads := (cc_threads s)(t := PopLoaded (cc_count s) (cc_node s)) \<rparr>)"
| push_load: "\<lbrakk>cc_threads s t = CcIdle; n \<in> set (cc_held s)\<rbrakk> \<Longrightarrow>
    cc_step t s (s\<lparr> cc_held := remove1 n (cc_held s),
      cc_threads := (cc_threads s)(t := PushLoaded n (cc_count s) (cc_node s)) \<rparr>)"
| push_next: "cc_threads s t = PushLoaded n c m \<Longrightarrow>
    cc_step t s (s\<lparr> cc_next := (cc_next s)[n := m],
      cc_threads := (cc_threads s)(t := PushWritten n c m) \<rparr>)"
| push_swap: "\<lbrakk>cc_threads s t = PushWritten n c m; cc_count s = c; cc_node s = m\<rbrakk> \<Longrightarrow>
    cc_step t s (s\<lparr> cc_count := c + 1, cc_node := Some n,
      cc_threads := (cc_threads s)(t := CcIdle), cc_swaps := Suc (cc_swaps s) \<rparr>)"
| push_swap_fail: "cc_threads s t = PushWritten n c m \<Longrightarrow>
    cc_step t s (s\<lparr> cc_threads := (cc_threads s)(t := PushLoaded n (cc_count s) (cc_node s)) \<rparr>)"

inductive cc_reach :: "nat \<Rightarrow> cc_pool \<Rightarrow> bool" for sz where
  construct: "cc_reach sz (cc_construct sz)"
| step: "\<lbrakk>cc_reach sz s; cc_step t s s'\<rbrakk> \<Longrightarrow> cc_reach sz s'"

text \<open>The node a releasing thread still owns.\<close>

fun pushing :: "cc_thread \<Rightarrow> nat option" where
  "pushing (PushLoaded n c m) = Some n"
| "pushing (PushWritten n c m) = Some n"
| "pushing _ = None"

fun cc_ok :: "cc_pool \<Rightarrow> nat list \<Rightarrow> cc_thread \<Rightarrow> bool" where
  "cc_ok s fl CcIdle = True"
| "cc_ok s fl (PopLoaded c m) =
     (unat c \<le> cc_swaps s \<and> (c = cc_count s \<longrightarrow> m = cc_node s) \<and> (\<forall>n. m = Some n \<longrightarrow> n < length (cc_next s)))"
| "cc_ok s fl (PopRead c n nx) =
     (unat c \<le> cc_swaps s \<and> (c = cc_count s \<longrightarrow> cc_node s = Some n \<and> nx = cc_next s ! n))"
| "cc_ok s fl (PushLoaded n c m) =
     (n < length (cc_next s) \<and> n \<notin> set fl \<and> n \<notin> set (cc_held s))"
| "cc_ok s fl (PushWritten n c m) =
     (n < length (cc_next s) \<and> n \<notin> set fl \<and> n \<notin> set (cc_held s) \<and> cc_next s ! n = m)"

definition cc_inv :: "nat \<Rightarrow> cc_pool \<Rightarrow> nat list \<Rightarrow> bool" where
  "cc_inv sz s fl \<longleftrightarrow> length (cc_next s) = sz \<and> unat (cc_count s) = cc_swaps s \<and>
     chained (cc_next s) (cc_node s) fl \<and> distinct (fl @ cc_held s) \<and> set (cc_held s) \<subseteq> {..<sz} \<and>
     (\<forall>t. cc_ok s fl (cc_threads s t)) \<and>
     (\<forall>t u n. pushing (cc_threads s t) = Some n \<and> pushing (cc_threads s u) = Some n \<longrightarrow> t = u)"

lemma cc_ok_frame [simp]:
  "cc_ok (s\<lparr> cc_threads := f \<rparr>) fl pc = cc_ok s fl pc"
  by (cases pc) auto

lemma cc_local:
  assumes "cc_inv sz s fl" "cc_ok s fl pc" "pushing pc = None \<or> pushing pc = pushing (cc_threads s t)"
  shows "cc_inv sz (s\<lparr> cc_threads := (cc_threads s)(t := pc) \<rparr>) fl"
proof -
  have u: "pushing (cc_threads s t) = Some n \<and> pushing (cc_threads s u) = Some n \<longrightarrow> t = u" for t u n
    using assms(1) by (simp add: cc_inv_def)
  have "a = b" if "pushing (((cc_threads s)(t := pc)) a) = Some n" "pushing (((cc_threads s)(t := pc)) b) = Some n" for a b n
    using that assms(3) u [of a n b] by (cases "a = t"; cases "b = t") auto
  moreover have "cc_ok s fl (((cc_threads s)(t := pc)) a)" for a
    using assms(1,2) by (simp add: cc_inv_def)
  ultimately show ?thesis using assms(1) unfolding cc_inv_def by (auto simp del: fun_upd_apply)
qed

lemma cc_thread_ok: "cc_inv sz s fl \<Longrightarrow> cc_ok s fl (cc_threads s t)"
  by (simp add: cc_inv_def)

lemma cc_head: "cc_inv sz s fl \<Longrightarrow> cc_node s = Some n \<Longrightarrow> n < length (cc_next s) \<and> (\<exists>fl'. fl = n # fl')"
  by (cases fl) (auto simp: cc_inv_def)

lemma cc_loaded: "cc_inv sz s fl \<Longrightarrow> cc_ok s fl (PopLoaded (cc_count s) (cc_node s))"
  using cc_head by (auto simp: cc_inv_def)

lemma cc_pop_swap:
  assumes inv: "cc_inv sz s fl" and pc: "cc_threads s t = PopRead (cc_count s) n nx" "cc_node s = Some n"
    and lim: "Suc (cc_swaps s) < 2 ^ 64"
  shows "cc_inv sz (s\<lparr> cc_count := cc_count s + 1, cc_node := nx, cc_held := n # cc_held s,
      cc_threads := (cc_threads s)(t := CcIdle), cc_swaps := Suc (cc_swaps s) \<rparr>) (tl fl)"
    (is "cc_inv sz ?s _")
proof -
  obtain fl' where fl: "fl = n # fl'" using cc_head [OF inv pc(2)] by auto
  have i: "length (cc_next s) = sz" "unat (cc_count s) = cc_swaps s" "chained (cc_next s) (cc_node s) fl"
      "distinct (fl @ cc_held s)" "set (cc_held s) \<subseteq> {..<sz}"
    using inv by (auto simp: cc_inv_def)
  have nx: "nx = cc_next s ! n" using cc_thread_ok [OF inv, of t] pc by simp
  have c: "unat (cc_count s + 1) = Suc (cc_swaps s)" using i(2) lim by (simp add: word_nat)
  have ne: "d \<noteq> cc_count s + 1" if "unat d \<le> cc_swaps s" for d using c that by auto
  have "cc_ok ?s fl' (cc_threads ?s u)" for u
    using cc_thread_ok [OF inv, of u] ne fl i(4) by (cases "cc_threads s u") (auto simp: le_Suc_eq)
  moreover have "pushing (cc_threads s a) = Some n \<and> pushing (cc_threads s b) = Some n \<longrightarrow> a = b" for a b n
    using inv by (simp add: cc_inv_def)
  ultimately show ?thesis
    using i fl c nx pc(2) by (simp add: cc_inv_def) (auto split: if_splits)
qed

lemma cc_push_load:
  assumes inv: "cc_inv sz s fl" and pc: "cc_threads s t = CcIdle" and n: "n \<in> set (cc_held s)"
  shows "cc_inv sz (s\<lparr> cc_held := remove1 n (cc_held s),
      cc_threads := (cc_threads s)(t := PushLoaded n (cc_count s) (cc_node s)) \<rparr>) fl" (is "cc_inv sz ?s _")
proof -
  have i: "length (cc_next s) = sz" "distinct (fl @ cc_held s)" "set (cc_held s) \<subseteq> {..<sz}"
    using inv by (auto simp: cc_inv_def)
  have "cc_ok ?s fl (cc_threads ?s u)" for u
    using cc_thread_ok [OF inv, of u] i n
    by (cases "cc_threads s u") (auto dest: set_remove1_subset [THEN subsetD])
  moreover have "pushing (cc_threads s u) \<noteq> Some n" for u
    using cc_thread_ok [OF inv, of u] n by (cases "cc_threads s u") auto
  moreover have "pushing (cc_threads s a) = Some n \<and> pushing (cc_threads s b) = Some n \<longrightarrow> a = b" for a b n
    using inv by (simp add: cc_inv_def)
  ultimately show ?thesis
    using inv i by (simp add: cc_inv_def) (auto dest: set_remove1_subset [THEN subsetD])
qed

lemma cc_push_next:
  assumes inv: "cc_inv sz s fl" and pc: "cc_threads s t = PushLoaded n c m"
  shows "cc_inv sz (s\<lparr> cc_next := (cc_next s)[n := m],
      cc_threads := (cc_threads s)(t := PushWritten n c m) \<rparr>) fl" (is "cc_inv sz ?s _")
proof -
  have n: "n < length (cc_next s)" "n \<notin> set fl" "n \<notin> set (cc_held s)"
    using cc_thread_ok [OF inv, of t] pc by auto
  have u: "pushing (cc_threads s a) = Some k \<and> pushing (cc_threads s b) = Some k \<longrightarrow> a = b" for a b k
    using inv by (simp add: cc_inv_def)
  have own: "pushing (cc_threads s u) \<noteq> Some n" if "u \<noteq> t" for u
    using u [of u n t] that pc by auto
  have hd: "k \<noteq> n" if "cc_node s = Some k" for k using cc_head [OF inv that] n by auto
  have "cc_ok ?s fl (cc_threads ?s u)" for u
  proof (cases "u = t")
    case False
    then show ?thesis
      using cc_thread_ok [OF inv, of u] own [OF False] hd by (cases "cc_threads s u") auto
  qed (use n in simp)
  moreover have "pushing (cc_threads ?s a) = pushing (cc_threads s a)" for a using pc by simp
  moreover have "chained ((cc_next s)[n := m]) (cc_node s) fl"
    using inv n(2) by (simp add: cc_inv_def chained_update)
  ultimately show ?thesis
    using inv u unfolding cc_inv_def by simp
qed

lemma cc_push_swap:
  assumes inv: "cc_inv sz s fl" and pc: "cc_threads s t = PushWritten n (cc_count s) (cc_node s)"
    and lim: "Suc (cc_swaps s) < 2 ^ 64"
  shows "cc_inv sz (s\<lparr> cc_count := cc_count s + 1, cc_node := Some n,
      cc_threads := (cc_threads s)(t := CcIdle), cc_swaps := Suc (cc_swaps s) \<rparr>) (n # fl)"
    (is "cc_inv sz ?s _")
proof -
  have n: "n < length (cc_next s)" "n \<notin> set fl" "n \<notin> set (cc_held s)" "cc_next s ! n = cc_node s"
    using cc_thread_ok [OF inv, of t] pc by auto
  have i: "length (cc_next s) = sz" "unat (cc_count s) = cc_swaps s" "chained (cc_next s) (cc_node s) fl"
      "distinct (fl @ cc_held s)"
    using inv by (auto simp: cc_inv_def)
  have u: "pushing (cc_threads s a) = Some k \<and> pushing (cc_threads s b) = Some k \<longrightarrow> a = b" for a b k
    using inv by (simp add: cc_inv_def)
  have own: "pushing (cc_threads s u) \<noteq> Some n" if "u \<noteq> t" for u
    using u [of u n t] that pc by auto
  have c: "unat (cc_count s + 1) = Suc (cc_swaps s)" using i(2) lim by (simp add: word_nat)
  have ne: "d \<noteq> cc_count s + 1" if "unat d \<le> cc_swaps s" for d using c that by auto
  have "cc_ok ?s (n # fl) (cc_threads ?s u)" for u
  proof (cases "u = t")
    case False
    then show ?thesis
      using cc_thread_ok [OF inv, of u] own [OF False] ne
      by (cases "cc_threads s u") (auto simp: le_Suc_eq)
  qed simp
  then show ?thesis
    using inv i c n u by (simp add: cc_inv_def) (auto split: if_splits)
qed

lemma cc_step_inv:
  assumes "cc_step t s s'" "cc_inv sz s fl" "cc_swaps s' < 2 ^ 64"
  shows "\<exists>fl'. cc_inv sz s' fl'"
  using assms(1)
proof (cases rule: cc_step.cases)
  case pop_load
  then show ?thesis using cc_local [OF assms(2) cc_loaded [OF assms(2)], of t] by auto
next
  case (pop_null c)
  then show ?thesis using cc_local [OF assms(2), of CcIdle t] by auto
next
  case (pop_next c n)
  then show ?thesis
    using cc_local [OF assms(2), of "PopRead c n (cc_next s ! n)" t] cc_thread_ok [OF assms(2), of t] by auto
next
  case (pop_swap c n nx)
  then show ?thesis using cc_pop_swap [OF assms(2), of t n nx] assms(3) by auto
next
  case (pop_swap_fail c n nx)
  then show ?thesis using cc_local [OF assms(2) cc_loaded [OF assms(2)], of t] by auto
next
  case (push_load n)
  then show ?thesis using cc_push_load [OF assms(2), of t n] by auto
next
  case (push_next n c m)
  then show ?thesis using cc_push_next [OF assms(2), of t n c m] by auto
next
  case (push_swap n c m)
  then show ?thesis using cc_push_swap [OF assms(2), of t n] assms(3) by auto
next
  case (push_swap_fail n c m)
  then show ?thesis
    using cc_local [OF assms(2), of "PushLoaded n (cc_count s) (cc_node s)" t] cc_thread_ok [OF assms(2), of t] by auto
qed

lemma chained_in_order:
  assumes "length nxt = sz" "\<And>j. j < sz \<Longrightarrow> nxt ! j = (if Suc j = sz then None else Some (Suc j))"
  shows "i < sz \<Longrightarrow> chained nxt (Some i) [i..<sz]"
proof (induction "sz - i" arbitrary: i)
  case (Suc d)
  have "[i..<sz] = i # [Suc i..<sz]" using Suc.prems by (rule upt_conv_Cons)
  then show ?case using Suc.hyps(1) [of "Suc i"] Suc.hyps(2) Suc.prems assms by (cases "Suc i = sz") auto
qed simp

lemma cc_construct_chain:
  "0 < sz \<Longrightarrow> chained (map (\<lambda>i. if Suc i = sz then None else Some (Suc i)) [0..<sz]) (Some 0) [0..<sz]"
  by (rule chained_in_order) auto

lemma cc_construct_inv: "1 \<le> sz \<Longrightarrow> cc_inv sz (cc_construct sz) [0..<sz]"
  using cc_construct_chain [of sz] by (simp add: cc_inv_def cc_construct_def)

lemma cc_swaps_mono: "cc_step t s s' \<Longrightarrow> cc_swaps s \<le> cc_swaps s'"
  by (auto elim: cc_step.cases)

lemma cc_reach_inv:
  assumes "cc_reach sz s" "1 \<le> sz" "cc_swaps s < 2 ^ 64"
  shows "\<exists>fl. cc_inv sz s fl"
  using assms
proof (induction rule: cc_reach.induct)
  case construct
  then show ?case using cc_construct_inv by blast
next
  case (step s t s')
  then obtain fl where "cc_inv sz s fl" using cc_swaps_mono [OF step.hyps(2)] by force
  then show ?case using cc_step_inv [OF step.hyps(2)] step.prems by blast
qed

text \<open>C24: the lock-free pool, for every interleaving of takers and releasers (fewer than
  \<open>2^64\<close> successful swaps, so that the tag does not wrap): no object is in the hands of two
  clients, none that is being released is handed out, every pointer a thread follows lies in the
  arena, and the tag detects a head that was removed and put back (the value read for \<open>next\<close> is
  current whenever the swap would succeed).\<close>

theorem cc_pool_exclusive:
  assumes "cc_reach sz s" "1 \<le> sz" "cc_swaps s < 2 ^ 64"
  shows "distinct (cc_held s) \<and> set (cc_held s) \<subseteq> {..<sz} \<and>
    (\<forall>t n. pushing (cc_threads s t) = Some n \<longrightarrow> n < sz \<and> n \<notin> set (cc_held s)) \<and>
    (\<forall>t c n. cc_threads s t = PopLoaded c (Some n) \<longrightarrow> n < sz) \<and>
    (\<forall>t n nx. cc_threads s t = PopRead (cc_count s) n nx \<longrightarrow>
       cc_node s = Some n \<and> n \<notin> set (cc_held s) \<and> nx = cc_next s ! n)"
proof -
  obtain fl where inv: "cc_inv sz s fl" using cc_reach_inv [OF assms] by blast
  have "n < sz \<and> n \<notin> set (cc_held s)" if "pushing (cc_threads s t) = Some n" for t n
    using cc_thread_ok [OF inv, of t] that inv by (cases "cc_threads s t") (auto simp: cc_inv_def)
  moreover have "n < sz" if "cc_threads s t = PopLoaded c (Some n)" for t c n
    using cc_thread_ok [OF inv, of t] that inv by (simp add: cc_inv_def)
  moreover have "cc_node s = Some n \<and> n \<notin> set (cc_held s) \<and> nx = cc_next s ! n"
    if "cc_threads s t = PopRead (cc_count s) n nx" for t n nx
    using cc_thread_ok [OF inv, of t] that cc_head [OF inv, of n] inv by (auto simp: cc_inv_def)
  ultimately show ?thesis using inv unfolding cc_inv_def by simp
qed

lemma cc_pool_exclusive_witness:
  "\<exists>s. cc_reach 2 s \<and> cc_held s = [0] \<and> distinct (cc_held s) \<and> set (cc_held s) \<subseteq> {..<2}"
proof -
  let ?s0 = "cc_construct 2"
  let ?s1 = "?s0\<lparr> cc_threads := (cc_threads ?s0)(0 := PopLoaded (cc_count ?s0) (cc_node ?s0)) \<rparr>"
  let ?s2 = "?s1\<lparr> cc_threads := (cc_threads ?s1)(0 := PopRead 0 0 (cc_next ?s1 ! 0)) \<rparr>"
  let ?s3 = "?s2\<lparr> cc_count := 0 + 1, cc_node := cc_next ?s1 ! 0, cc_held := 0 # cc_held ?s2,
      cc_threads := (cc_threads ?s2)(0 := CcIdle), cc_swaps := Suc (cc_swaps ?s2) \<rparr>"
  have "cc_reach 2 ?s1" by (rule step [OF construct pop_load]) (simp add: cc_construct_def)
  then have "cc_reach 2 ?s2" by (rule step [OF _ pop_next]) (simp add: cc_construct_def)
  then have r: "cc_reach 2 ?s3" by (rule step [OF _ pop_swap]) (simp_all add: cc_construct_def)
  have "distinct (cc_held ?s3) \<and> set (cc_held ?s3) \<subseteq> {..<2}"
    using cc_pool_exclusive [OF r] by (simp add: cc_construct_def)
  moreover have "cc_held ?s3 = [0]" by (simp add: cc_construct_def)
  ultimately show ?thesis using r by blast
qed

end
