(* ===== verification/RWLock.thy ===== *)
theory RWLock
  imports Prelude
begin

text \<open>
  \<open>base/atomic_rw_lock.h\<close> and \<open>base/rw_lock_guard.h\<close>: the read-write lock on one atomic counter.
  The threads that use the lock are a list of program counters; an action lets one thread make one
  atomic access.  The weak compare-and-swap may fail although the value matches (\<open>spurious\<close>).
\<close>

section \<open>The lock and its users\<close>

text \<open>Idle; at the inner \<open>while\<close> test of \<open>ReadLock\<close> with its local \<open>lock_num\<close>; before the swap of
  \<open>ReadLock\<close>; inside a \<open>ReadLockGuard\<close> scope; in the swap loop of \<open>WriteLock\<close>; before its
  \<open>fetch_sub\<close>; inside a \<open>WriteLockGuard\<close> scope.\<close>

datatype rw_pc = RwIdle | RwSpin i32 | RwTry i32 | RwReading | RwWaitWrite | RwGotWrite | RwWriting

record rw_lock =
  lock_num :: i32
  write_lock_wait_num :: u32
  write_first :: bool
  rw_threads :: "rw_pc list"

definition RW_LOCK_FREE :: i32 where "RW_LOCK_FREE = 0"
definition WRITE_EXCLUSIVE :: i32 where "WRITE_EXCLUSIVE = -1"

definition rw_construct :: "bool \<Rightarrow> nat \<Rightarrow> rw_lock" where
  "rw_construct wfirst n = \<lparr> lock_num = 0, write_lock_wait_num = 0, write_first = wfirst,
     rw_threads = replicate n RwIdle \<rparr>"

text \<open>The conditions under which \<open>ReadLock\<close> keeps spinning.\<close>

definition read_blocked :: "rw_lock \<Rightarrow> i32 \<Rightarrow> bool" where
  "read_blocked s l =
     (if write_first s then sint l < sint RW_LOCK_FREE \<or> write_lock_wait_num s > 0
      else sint l < sint RW_LOCK_FREE)"

definition ReadLock_step :: "bool \<Rightarrow> rw_pc \<Rightarrow> rw_lock \<Rightarrow> rw_pc \<times> rw_lock" where
  "ReadLock_step spurious pc s =
     (case pc of
        RwIdle \<Rightarrow> (RwSpin (lock_num s), s)
      | RwSpin l \<Rightarrow> (if read_blocked s l then RwSpin (lock_num s) else RwTry l, s)
      | RwTry l \<Rightarrow>
          (if lock_num s = l \<and> \<not> spurious then (RwReading, s\<lparr> lock_num := l + 1 \<rparr>)
           else (RwSpin (lock_num s), s))
      | _ \<Rightarrow> (pc, s))"

definition WriteLock_step :: "bool \<Rightarrow> rw_pc \<Rightarrow> rw_lock \<Rightarrow> rw_pc \<times> rw_lock" where
  "WriteLock_step spurious pc s =
     (case pc of
        RwIdle \<Rightarrow> (RwWaitWrite, s\<lparr> write_lock_wait_num := write_lock_wait_num s + 1 \<rparr>)
      | RwWaitWrite \<Rightarrow>
          (if lock_num s = RW_LOCK_FREE \<and> \<not> spurious then (RwGotWrite, s\<lparr> lock_num := WRITE_EXCLUSIVE \<rparr>)
           else (RwWaitWrite, s))
      | RwGotWrite \<Rightarrow> (RwWriting, s\<lparr> write_lock_wait_num := write_lock_wait_num s - 1 \<rparr>)
      | _ \<Rightarrow> (pc, s))"

definition ReadUnlock :: "rw_lock \<Rightarrow> rw_lock" where
  "ReadUnlock s = s\<lparr> lock_num := lock_num s - 1 \<rparr>"

definition WriteUnlock :: "rw_lock \<Rightarrow> rw_lock" where
  "WriteUnlock s = s\<lparr> lock_num := lock_num s + 1 \<rparr>"

text \<open>What thread \<open>i\<close> does next; an idle thread enters a read or a write scope, a thread inside a
  scope leaves it (the guard's destructor).\<close>

datatype rw_action = RwStep nat bool bool

fun rw_step :: "rw_action \<Rightarrow> rw_lock \<Rightarrow> rw_lock" where
  "rw_step (RwStep i want_write spurious) s =
     (if i \<ge> length (rw_threads s) then s
      else
        (let pc = rw_threads s ! i;
             (pc', s') =
               (case pc of
                  RwIdle \<Rightarrow> if want_write then WriteLock_step spurious pc s else ReadLock_step spurious pc s
                | RwSpin l \<Rightarrow> ReadLock_step spurious pc s
                | RwTry l \<Rightarrow> ReadLock_step spurious pc s
                | RwReading \<Rightarrow> (RwIdle, ReadUnlock s)
                | RwWaitWrite \<Rightarrow> WriteLock_step spurious pc s
                | RwGotWrite \<Rightarrow> WriteLock_step spurious pc s
                | RwWriting \<Rightarrow> (RwIdle, WriteUnlock s))
         in s'\<lparr> rw_threads := (rw_threads s)[i := pc'] \<rparr>))"

section \<open>Counting threads\<close>

definition cnt :: "('a \<Rightarrow> bool) \<Rightarrow> 'a list \<Rightarrow> nat" where
  "cnt P xs = length (filter P xs)"

lemma cnt_update:
  "i < length xs \<Longrightarrow> cnt P (xs[i := y]) + (if P (xs ! i) then 1 else 0) = cnt P xs + (if P y then 1 else 0)"
proof (induction xs arbitrary: i)
  case (Cons x xs)
  then show ?case by (cases i) (auto simp: cnt_def)
qed simp

lemma cnt_pos: "i < length xs \<Longrightarrow> P (xs ! i) \<Longrightarrow> 0 < cnt P xs"
  by (auto simp: cnt_def filter_empty_conv)

lemma cnt_le: "cnt P xs \<le> length xs"
  by (simp add: cnt_def)

definition is_reading :: "rw_pc \<Rightarrow> bool" where "is_reading pc \<longleftrightarrow> pc = RwReading"
definition is_writing :: "rw_pc \<Rightarrow> bool" where "is_writing pc \<longleftrightarrow> pc = RwGotWrite \<or> pc = RwWriting"
definition is_waiting :: "rw_pc \<Rightarrow> bool" where "is_waiting pc \<longleftrightarrow> pc = RwWaitWrite \<or> pc = RwGotWrite"

definition rw_inv :: "rw_lock \<Rightarrow> bool" where
  "rw_inv s \<longleftrightarrow>
     (let r = cnt is_reading (rw_threads s); w = cnt is_writing (rw_threads s) in
      lock_num s = (if w = 0 then of_nat r else WRITE_EXCLUSIVE) \<and> w \<le> 1 \<and> (w = 1 \<longrightarrow> r = 0) \<and>
      write_lock_wait_num s = of_nat (cnt is_waiting (rw_threads s)) \<and>
      length (rw_threads s) < 2 ^ 31 \<and> (\<forall>l. RwTry l \<in> set (rw_threads s) \<longrightarrow> 0 \<le> sint l))"

lemma of_nat_free:
  assumes "n < 2 ^ 31" shows "(of_nat n :: i32) = 0 \<longleftrightarrow> n = 0" "(of_nat n :: i32) \<noteq> -1"
proof -
  have u: "unat (of_nat n :: i32) = n" using assms by (simp add: unat_of_nat_less)
  then show "(of_nat n :: i32) = 0 \<longleftrightarrow> n = 0" by (metis unat_eq_zero unat_of_nat of_nat_0)
  have "unat (of_nat (Suc n) :: i32) = Suc n" using assms by (intro unat_of_nat_less) simp
  moreover have "(of_nat (Suc n) :: i32) = of_nat n + 1" by simp
  ultimately show "(of_nat n :: i32) \<noteq> -1" by auto
qed

lemma rw_invD:
  fixes s defines "ts \<equiv> rw_threads s"
  assumes "rw_inv s"
  shows "lock_num s = (if cnt is_writing ts = 0 then of_nat (cnt is_reading ts) else WRITE_EXCLUSIVE)"
    and "cnt is_writing ts \<le> 1" and "cnt is_writing ts = 1 \<longrightarrow> cnt is_reading ts = 0"
    and "write_lock_wait_num s = of_nat (cnt is_waiting ts)" and "length ts < 2 ^ 31"
    and "\<And>l. RwTry l \<in> set ts \<Longrightarrow> 0 \<le> sint l"
  using assms(2) unfolding ts_def by (auto simp: rw_inv_def Let_def)

lemma try_update: "RwTry l \<in> set (xs[i := pc]) \<Longrightarrow> RwTry l = pc \<or> RwTry l \<in> set xs"
  using set_update_subset_insert [of xs i pc] by auto

lemmas rw_pcs = is_reading_def is_writing_def is_waiting_def
lemmas cnt_updates = cnt_update [where P = is_reading] cnt_update [where P = is_writing] cnt_update [where P = is_waiting]
lemmas rw_steps = rw_inv_def Let_def ReadLock_step_def WriteLock_step_def ReadUnlock_def WriteUnlock_def

text \<open>One thread that does not read, write or wait before and after a step leaves the counts as they are.\<close>

lemma cnt_same:
  assumes "i < length xs" "\<not> is_reading (xs ! i)" "\<not> is_writing (xs ! i)" "\<not> is_waiting (xs ! i)"
    "\<not> is_reading pc" "\<not> is_writing pc" "\<not> is_waiting pc"
  shows "cnt is_reading (xs[i := pc]) = cnt is_reading xs" "cnt is_writing (xs[i := pc]) = cnt is_writing xs"
    "cnt is_waiting (xs[i := pc]) = cnt is_waiting xs"
  using cnt_updates [OF assms(1), of pc] assms(2-) by simp_all

lemma rw_step_idle:
  assumes inv: "rw_inv s" and i: "i < length (rw_threads s)" "rw_threads s ! i = RwIdle"
  shows "rw_inv (rw_step (RwStep i ww sp) s)"
proof -
  have "cnt is_reading ((rw_threads s)[i := pc]) = cnt is_reading (rw_threads s)"
    "cnt is_writing ((rw_threads s)[i := pc]) = cnt is_writing (rw_threads s)"
    "cnt is_waiting ((rw_threads s)[i := pc]) = cnt is_waiting (rw_threads s) + (if is_waiting pc then 1 else 0)"
    if "\<not> is_reading pc" "\<not> is_writing pc" for pc
    using cnt_updates [OF i(1), of pc] i(2) that by (auto simp: rw_pcs)
  from this [of "RwSpin (lock_num s)"] this [of RwWaitWrite] show ?thesis
    using rw_invD [OF inv] i by (auto dest!: try_update simp: rw_steps rw_pcs)
qed

lemma rw_step_spin:
  assumes inv: "rw_inv s" and i: "i < length (rw_threads s)" "rw_threads s ! i = RwSpin l"
  shows "rw_inv (rw_step (RwStep i ww sp) s)"
  using rw_invD [OF inv] i cnt_same [OF i(1), of "RwSpin (lock_num s)"] cnt_same [OF i(1), of "RwTry l"]
  by (auto dest!: try_update simp: rw_steps rw_pcs read_blocked_def RW_LOCK_FREE_def split: if_splits)

lemma rw_step_try:
  assumes inv: "rw_inv s" and i: "i < length (rw_threads s)" "rw_threads s ! i = RwTry l"
  shows "rw_inv (rw_step (RwStep i ww sp) s)"
proof (cases "lock_num s = l \<and> \<not> sp")
  case True
  let ?ts = "rw_threads s"
  have "0 \<le> sint l" using rw_invD(6) [OF inv, of l] i nth_mem by fastforce
  then have "cnt is_writing ?ts = 0" using rw_invD(1) [OF inv] True by (auto simp: WRITE_EXCLUSIVE_def split: if_splits)
  moreover have "cnt is_reading (?ts[i := RwReading]) = cnt is_reading ?ts + 1" "cnt is_writing (?ts[i := RwReading]) = cnt is_writing ?ts"
    "cnt is_waiting (?ts[i := RwReading]) = cnt is_waiting ?ts"
    using cnt_updates [OF i(1), of RwReading] i(2) by (auto simp: rw_pcs)
  ultimately show ?thesis using rw_invD [OF inv] True i by (auto dest!: try_update simp: rw_steps)
next
  case False
  then show ?thesis using rw_invD [OF inv] i cnt_same [OF i(1), of "RwSpin (lock_num s)"]
    by (auto dest!: try_update simp: rw_steps rw_pcs)
qed

lemma rw_step_reading:
  assumes inv: "rw_inv s" and i: "i < length (rw_threads s)" "rw_threads s ! i = RwReading"
  shows "rw_inv (rw_step (RwStep i ww sp) s)"
proof -
  let ?ts = "rw_threads s"
  have "0 < cnt is_reading ?ts" using i by (intro cnt_pos) (auto simp: rw_pcs)
  moreover have "Suc (cnt is_reading (?ts[i := RwIdle])) = cnt is_reading ?ts" "cnt is_writing (?ts[i := RwIdle]) = cnt is_writing ?ts"
    "cnt is_waiting (?ts[i := RwIdle]) = cnt is_waiting ?ts"
    using cnt_updates [OF i(1), of RwIdle] i(2) by (auto simp: rw_pcs)
  moreover from this(1) have "(of_nat (cnt is_reading ?ts) :: i32) - 1 = of_nat (cnt is_reading (?ts[i := RwIdle]))"
    by (metis add_diff_cancel_left' of_nat_Suc)
  ultimately show ?thesis using rw_invD [OF inv] i by (auto dest!: try_update simp: rw_steps split: if_splits)
qed

lemma rw_step_wait_write:
  assumes inv: "rw_inv s" and i: "i < length (rw_threads s)" "rw_threads s ! i = RwWaitWrite"
  shows "rw_inv (rw_step (RwStep i ww sp) s)"
proof (cases "lock_num s = RW_LOCK_FREE \<and> \<not> sp")
  case True
  let ?ts = "rw_threads s"
  have "cnt is_reading ?ts < 2 ^ 31" using cnt_le [of is_reading ?ts] rw_invD(5) [OF inv] by simp
  then have "cnt is_writing ?ts = 0" "cnt is_reading ?ts = 0"
    using rw_invD(1) [OF inv] True of_nat_free(1) by (auto simp: RW_LOCK_FREE_def WRITE_EXCLUSIVE_def split: if_splits)
  moreover have "cnt is_reading (?ts[i := RwGotWrite]) = cnt is_reading ?ts" "cnt is_writing (?ts[i := RwGotWrite]) = cnt is_writing ?ts + 1"
    "cnt is_waiting (?ts[i := RwGotWrite]) = cnt is_waiting ?ts"
    using cnt_updates [OF i(1), of RwGotWrite] i(2) by (auto simp: rw_pcs)
  ultimately show ?thesis using rw_invD [OF inv] True i by (auto dest!: try_update simp: rw_steps)
next
  case False
  have "(rw_threads s)[i := RwWaitWrite] = rw_threads s" using i by (metis list_update_id)
  then show ?thesis using inv False i by (auto simp: WriteLock_step_def)
qed

lemma rw_step_got_write:
  assumes inv: "rw_inv s" and i: "i < length (rw_threads s)" "rw_threads s ! i = RwGotWrite"
  shows "rw_inv (rw_step (RwStep i ww sp) s)"
proof -
  let ?ts = "rw_threads s"
  have "cnt is_reading (?ts[i := RwWriting]) = cnt is_reading ?ts" "cnt is_writing (?ts[i := RwWriting]) = cnt is_writing ?ts"
    "Suc (cnt is_waiting (?ts[i := RwWriting])) = cnt is_waiting ?ts"
    using cnt_updates [OF i(1), of RwWriting] i(2) by (auto simp: rw_pcs)
  moreover from this(3) have "(of_nat (cnt is_waiting ?ts) :: u32) - 1 = of_nat (cnt is_waiting (?ts[i := RwWriting]))"
    by (metis add_diff_cancel_left' of_nat_Suc)
  ultimately show ?thesis using rw_invD [OF inv] i by (auto dest!: try_update simp: rw_steps)
qed

lemma rw_step_writing:
  assumes inv: "rw_inv s" and i: "i < length (rw_threads s)" "rw_threads s ! i = RwWriting"
  shows "rw_inv (rw_step (RwStep i ww sp) s)"
proof -
  let ?ts = "rw_threads s"
  have "0 < cnt is_writing ?ts" using i by (intro cnt_pos) (auto simp: rw_pcs)
  then have "cnt is_writing ?ts = 1" "cnt is_reading ?ts = 0" using rw_invD(2,3) [OF inv] by auto
  moreover have "cnt is_reading (?ts[i := RwIdle]) = cnt is_reading ?ts" "Suc (cnt is_writing (?ts[i := RwIdle])) = cnt is_writing ?ts"
    "cnt is_waiting (?ts[i := RwIdle]) = cnt is_waiting ?ts"
    using cnt_updates [OF i(1), of RwIdle] i(2) by (auto simp: rw_pcs)
  ultimately show ?thesis using rw_invD [OF inv] i by (auto dest!: try_update simp: rw_steps WRITE_EXCLUSIVE_def)
qed

lemmas rw_thread_steps = rw_step_idle rw_step_spin rw_step_try rw_step_reading rw_step_wait_write rw_step_got_write rw_step_writing

lemma rw_inv_step:
  assumes "rw_inv s" shows "rw_inv (rw_step a s)"
proof (cases a)
  case (RwStep i ww sp)
  show ?thesis
  proof (cases "i < length (rw_threads s)")
    case True
    then show ?thesis unfolding RwStep using rw_thread_steps [OF assms True] by (cases "rw_threads s ! i") blast+
  qed (use RwStep assms in simp)
qed

lemma rw_construct_inv: "n < 2 ^ 31 \<Longrightarrow> rw_inv (rw_construct wfirst n)"
  by (auto simp: rw_inv_def rw_construct_def cnt_def is_reading_def is_writing_def is_waiting_def Let_def)

lemma rw_run_inv: "rw_inv s \<Longrightarrow> rw_inv (fold rw_step as s)"
  by (induction as arbitrary: s) (auto simp: rw_inv_step)

text \<open>C23: mutual exclusion.  For any number of threads (fewer than \<open>2^31\<close>), any interleaving and any
  spurious failures: at most one thread is in a write scope, and then none is in a read scope; the
  lock word counts the readers or is \<open>WRITE_EXCLUSIVE\<close>, and \<open>write_lock_wait_num\<close> counts the
  writers that are waiting.\<close>

theorem rw_lock_exclusion:
  assumes "n < 2 ^ 31" "fold rw_step acts (rw_construct wfirst n) = s"
  shows "cnt is_writing (rw_threads s) \<le> 1 \<and>
    (cnt is_writing (rw_threads s) = 0 \<or> cnt is_reading (rw_threads s) = 0) \<and>
    lock_num s = (if cnt is_writing (rw_threads s) = 0 then of_nat (cnt is_reading (rw_threads s)) else -1) \<and>
    write_lock_wait_num s = of_nat (cnt is_waiting (rw_threads s))"
proof -
  have "rw_inv s" using rw_run_inv [OF rw_construct_inv [OF assms(1)]] assms(2) by blast
  then show ?thesis by (auto simp: rw_inv_def Let_def WRITE_EXCLUSIVE_def)
qed

lemma rw_lock_exclusion_witness:
  "(let s = fold rw_step [RwStep 0 True False, RwStep 1 False False, RwStep 0 False False, RwStep 1 False False]
              (rw_construct True 2)
    in cnt is_writing (rw_threads s) \<le> 1 \<and> rw_threads s = [RwGotWrite, RwSpin (-1)] \<and> lock_num s = -1)"
proof -
  let ?s = "fold rw_step [RwStep 0 True False, RwStep 1 False False, RwStep 0 False False, RwStep 1 False False]
              (rw_construct True 2)"
  have "rw_threads ?s = [RwGotWrite, RwSpin (-1)] \<and> lock_num ?s = -1" by code_simp
  moreover have "cnt is_writing (rw_threads ?s) \<le> 1" by (rule rw_lock_exclusion [THEN conjunct1, OF _ refl]) simp
  ultimately show ?thesis unfolding Let_def by blast
qed

text \<open>With \<open>write_first\<close> no reader gets past the spin loop while a writer waits or writes.\<close>

lemma write_first_blocks_readers:
  assumes "rw_inv s" "write_first s" "0 < cnt is_waiting (rw_threads s) \<or> 0 < cnt is_writing (rw_threads s)"
    and "lock_num s = l"
  shows "ReadLock_step spurious (RwSpin l) s = (RwSpin l, s)"
proof -
  have "read_blocked s l"
  proof (cases "0 < cnt is_waiting (rw_threads s)")
    case True
    have "cnt is_waiting (rw_threads s) < 2 ^ 32"
      using assms(1) cnt_le [of is_waiting "rw_threads s"] by (simp add: rw_inv_def Let_def)
    then have "unat (write_lock_wait_num s) = cnt is_waiting (rw_threads s)"
      using assms(1) by (simp add: rw_inv_def Let_def unat_of_nat_less)
    then show ?thesis using True assms(2) by (simp add: read_blocked_def word_gt_0 unat_gt_0 flip: unat_eq_zero)
  next
    case False
    then have "l = -1" using assms by (auto simp: rw_inv_def Let_def WRITE_EXCLUSIVE_def)
    then show ?thesis by (simp add: read_blocked_def RW_LOCK_FREE_def)
  qed
  then show ?thesis using assms(4) by (simp add: ReadLock_step_def)
qed

end
