(* ===== verification/SignalSlot.thy ===== *)
theory SignalSlot
  imports Prelude
begin

text \<open>
  \<open>base/signal_slot.h\<close>: a signal with its list of shared slots, and connections.  A slot object is
  its address in \<open>slot_store\<close> (a \<open>shared_ptr\<close> held by the signal and by connections).  What a
  callback does is a parameter: \<open>run cb args\<close> transforms the outside world together with the signal
  (a callback may connect or disconnect slots of the signal that calls it; the mutex is not held
  during the calls).
\<close>

section \<open>State and operations\<close>

record 'cb slot =
  slot_cb :: "'cb option"
  slot_live :: bool

record 'cb signal =
  sig_slots :: "nat list"
  slot_store :: "nat \<Rightarrow> 'cb slot"
  slot_fresh :: nat

record connection =
  conn_slot :: "nat option"
  conn_signal :: bool

type_synonym ('cb, 'w) sig_state = "'w \<times> 'cb signal"

definition signal_construct :: "'cb signal" where
  "signal_construct = \<lparr> sig_slots = [], slot_store = (\<lambda>_. \<lparr> slot_cb = None, slot_live = True \<rparr>), slot_fresh = 0 \<rparr>"

text \<open>\<open>Slot::operator()\<close>.\<close>

definition slot_call ::
  "('cb \<Rightarrow> 'a \<Rightarrow> ('cb, 'w) sig_state \<Rightarrow> ('cb, 'w) sig_state) \<Rightarrow> 'a \<Rightarrow> nat
    \<Rightarrow> ('cb, 'w) sig_state \<Rightarrow> ('cb, 'w) sig_state" where
  "slot_call run args p st =
     (let sl = slot_store (snd st) p
      in case slot_cb sl of
           Some cb \<Rightarrow> if slot_live sl then run cb args st else st
         | None \<Rightarrow> st)"

definition slot_Disconnect :: "nat \<Rightarrow> 'cb signal \<Rightarrow> 'cb signal" where
  "slot_Disconnect p s = s\<lparr> slot_store := (slot_store s)(p := (slot_store s p)\<lparr> slot_live := False \<rparr>) \<rparr>"

definition slot_connected :: "'cb signal \<Rightarrow> nat \<Rightarrow> bool" where
  "slot_connected s p = slot_live (slot_store s p)"

definition ClearDisconnectedSlots :: "'cb signal \<Rightarrow> 'cb signal" where
  "ClearDisconnectedSlots s = s\<lparr> sig_slots := filter (slot_connected s) (sig_slots s) \<rparr>"

text \<open>\<open>Signal::operator()\<close> calls the slots of a copy of the list taken first.\<close>

definition signal_emit ::
  "('cb \<Rightarrow> 'a \<Rightarrow> ('cb, 'w) sig_state \<Rightarrow> ('cb, 'w) sig_state) \<Rightarrow> 'a
    \<Rightarrow> ('cb, 'w) sig_state \<Rightarrow> ('cb, 'w) sig_state" where
  "signal_emit run args st =
     (let st' = fold (slot_call run args) (sig_slots (snd st)) st
      in (fst st', ClearDisconnectedSlots (snd st')))"

definition Connect :: "'cb option \<Rightarrow> 'cb signal \<Rightarrow> connection \<times> 'cb signal" where
  "Connect cb s =
     (let p = slot_fresh s
      in (\<lparr> conn_slot = Some p, conn_signal = True \<rparr>,
          s\<lparr> sig_slots := sig_slots s @ [p], slot_store := (slot_store s)(p := \<lparr> slot_cb = cb, slot_live = True \<rparr>),
            slot_fresh := Suc p \<rparr>))"

definition HasSlot :: "connection \<Rightarrow> nat \<Rightarrow> bool" where
  "HasSlot conn p = (case conn_slot conn of None \<Rightarrow> False | Some q \<Rightarrow> q = p)"

definition signal_DisConnect :: "connection \<Rightarrow> 'cb signal \<Rightarrow> bool \<times> 'cb signal" where
  "signal_DisConnect conn s =
     (let (found, s1) =
        fold (\<lambda>p (found, s). if HasSlot conn p then (True, slot_Disconnect p s) else (found, s))
          (sig_slots s) (False, s)
      in (found, if found then ClearDisconnectedSlots s1 else s1))"

definition DisconnectAllSlots :: "'cb signal \<Rightarrow> 'cb signal" where
  "DisconnectAllSlots s = (fold slot_Disconnect (sig_slots s) s)\<lparr> sig_slots := [] \<rparr>"

definition IsConnected :: "'cb signal \<Rightarrow> connection \<Rightarrow> bool" where
  "IsConnected s conn = (case conn_slot conn of None \<Rightarrow> False | Some p \<Rightarrow> slot_connected s p)"

definition connection_Disconnect :: "connection \<Rightarrow> 'cb signal \<Rightarrow> bool \<times> 'cb signal" where
  "connection_Disconnect conn s =
     (if conn_signal conn \<and> conn_slot conn \<noteq> None then signal_DisConnect conn s else (False, s))"

section \<open>Well-formed signals\<close>

definition signal_inv :: "'cb signal \<Rightarrow> bool" where
  "signal_inv s \<longleftrightarrow> distinct (sig_slots s) \<and> (\<forall>p \<in> set (sig_slots s). p < slot_fresh s \<and> slot_connected s p)"

lemma construct_inv: "signal_inv signal_construct"
  by (simp add: signal_inv_def signal_construct_def)

lemma Connect_inv: "signal_inv s \<Longrightarrow> signal_inv (snd (Connect cb s))"
  by (auto simp: signal_inv_def Connect_def Let_def slot_connected_def)

lemma slot_Disconnect_simps [simp]:
  "sig_slots (slot_Disconnect p s) = sig_slots s" "slot_fresh (slot_Disconnect p s) = slot_fresh s"
  "slot_connected (slot_Disconnect p s) q = (slot_connected s q \<and> q \<noteq> p)"
  "slot_cb (slot_store (slot_Disconnect p s) q) = slot_cb (slot_store s q)"
  by (auto simp: slot_Disconnect_def slot_connected_def)

lemma DisConnect_fold:
  "fold (\<lambda>p (found, s). if HasSlot conn p then (True, slot_Disconnect p s) else (found, s)) ps (b, s) = (found, s') \<Longrightarrow>
    found = (b \<or> (\<exists>p \<in> set ps. HasSlot conn p)) \<and> sig_slots s' = sig_slots s \<and> slot_fresh s' = slot_fresh s \<and>
    (\<forall>q. slot_connected s' q = (slot_connected s q \<and> \<not> (q \<in> set ps \<and> HasSlot conn q)))"
proof (induction ps arbitrary: b s)
  case (Cons p ps)
  show ?case
  proof (cases "HasSlot conn p")
    case True
    then show ?thesis using Cons.IH [of True "slot_Disconnect p s"] Cons.prems
      by (auto simp: HasSlot_def split: option.splits)
  next
    case False
    then show ?thesis using Cons.IH [of b s] Cons.prems by auto
  qed
qed simp

lemma signal_DisConnect_spec:
  assumes "signal_inv s" "signal_DisConnect conn s = (found, s')"
  shows "found = (\<exists>p \<in> set (sig_slots s). HasSlot conn p) \<and> signal_inv s' \<and>
    sig_slots s' = filter (\<lambda>p. \<not> HasSlot conn p) (sig_slots s)"
proof -
  obtain f s1 where f: "fold (\<lambda>p (found, s). if HasSlot conn p then (True, slot_Disconnect p s) else (found, s))
      (sig_slots s) (False, s) = (f, s1)" by fastforce
  have found: "found = f" and s': "s' = (if f then ClearDisconnectedSlots s1 else s1)"
    using assms(2) f by (auto simp: signal_DisConnect_def)
  note * = DisConnect_fold [OF f]
  have conn: "slot_connected s1 p = (\<not> HasSlot conn p)" if "p \<in> set (sig_slots s)" for p
    using * that assms(1) by (auto simp: signal_inv_def)
  have sl: "sig_slots s' = filter (\<lambda>p. \<not> HasSlot conn p) (sig_slots s)"
  proof (cases f)
    case True
    then show ?thesis using * conn by (auto simp: s' ClearDisconnectedSlots_def intro: filter_cong)
  next
    case False
    then show ?thesis using * by (auto simp: s' filter_id_conv)
  qed
  have "slot_store s' = slot_store s1" "slot_fresh s' = slot_fresh s"
    using * by (auto simp: s' ClearDisconnectedSlots_def)
  then have "signal_inv s'"
    using sl conn assms(1) by (auto simp: signal_inv_def slot_connected_def)
  then show ?thesis using * found sl by simp
qed

text \<open>A callback that leaves the signal alone.\<close>

definition passive_cbs ::
  "('cb \<Rightarrow> 'a \<Rightarrow> ('cb, 'w) sig_state \<Rightarrow> ('cb, 'w) sig_state) \<Rightarrow> ('cb \<Rightarrow> 'a \<Rightarrow> 'w \<Rightarrow> 'w) \<Rightarrow> bool" where
  "passive_cbs run eff \<longleftrightarrow> (\<forall>cb a w s. run cb a (w, s) = (eff cb a w, s))"

fun apply_cb :: "('cb \<Rightarrow> 'a \<Rightarrow> 'w \<Rightarrow> 'w) \<Rightarrow> 'a \<Rightarrow> 'cb option \<Rightarrow> 'w \<Rightarrow> 'w" where
  "apply_cb eff a None w = w"
| "apply_cb eff a (Some cb) w = eff cb a w"

lemma emit_fold_passive:
  assumes "passive_cbs run eff" "\<forall>p \<in> set ps. slot_connected s p"
  shows "fold (slot_call run a) ps (w, s) = (fold (\<lambda>p. apply_cb eff a (slot_cb (slot_store s p))) ps w, s)"
  using assms
proof (induction ps arbitrary: w)
  case (Cons p ps)
  then have "slot_call run a p (w, s) = (apply_cb eff a (slot_cb (slot_store s p)) w, s)"
    by (auto simp: slot_call_def passive_cbs_def slot_connected_def Let_def split: option.split)
  then show ?case using Cons by simp
qed simp

text \<open>emitting a signal calls each connected slot exactly once, in the order in which the slots
  were connected, and disconnecting a slot (through the signal or its connection) removes exactly
  that slot: it reports whether the slot was still connected, and no later emission calls it.\<close>

theorem signal_emission_order:
  assumes "signal_inv s" "passive_cbs run eff"
  shows "signal_emit run a (w, s) = (fold (\<lambda>p. apply_cb eff a (slot_cb (slot_store s p))) (sig_slots s) w, s) \<and>
    sig_slots (snd (Connect cb s)) = sig_slots s @ [slot_fresh s] \<and>
    (\<forall>p found s'. connection_Disconnect \<lparr> conn_slot = Some p, conn_signal = True \<rparr> s = (found, s') \<longrightarrow>
       found = (p \<in> set (sig_slots s)) \<and>
       signal_emit run a (w, s') =
         (fold (\<lambda>r. apply_cb eff a (slot_cb (slot_store s' r))) (filter (\<lambda>q. q \<noteq> p) (sig_slots s)) w, s'))"
proof -
  have emit: "signal_emit run a (w, s') = (fold (\<lambda>p. apply_cb eff a (slot_cb (slot_store s' p))) (sig_slots s') w, s')"
    if "signal_inv s'" for s'
  proof -
    have "fold (slot_call run a) (sig_slots s') (w, s') = (fold (\<lambda>p. apply_cb eff a (slot_cb (slot_store s' p))) (sig_slots s') w, s')"
      using that by (intro emit_fold_passive assms(2)) (auto simp: signal_inv_def)
    moreover have "ClearDisconnectedSlots s' = s'"
      using that by (simp add: ClearDisconnectedSlots_def signal_inv_def filter_id_conv)
    ultimately show ?thesis by (simp add: signal_emit_def)
  qed
  have dis: "signal_inv s' \<and> sig_slots s' = filter (\<lambda>q. q \<noteq> p) (sig_slots s) \<and> found = (p \<in> set (sig_slots s))"
    if "connection_Disconnect \<lparr> conn_slot = Some p, conn_signal = True \<rparr> s = (found, s')" for p found s'
  proof -
    have "signal_DisConnect \<lparr> conn_slot = Some p, conn_signal = True \<rparr> s = (found, s')"
      using that by (simp add: connection_Disconnect_def)
    then have "found = (\<exists>q \<in> set (sig_slots s). HasSlot \<lparr> conn_slot = Some p, conn_signal = True \<rparr> q) \<and>
        signal_inv s' \<and> sig_slots s' = filter (\<lambda>q. \<not> HasSlot \<lparr> conn_slot = Some p, conn_signal = True \<rparr> q) (sig_slots s)"
      by (rule signal_DisConnect_spec [OF assms(1)])
    moreover have "HasSlot \<lparr> conn_slot = Some p, conn_signal = True \<rparr> q = (q = p)" for q
      by (auto simp: HasSlot_def)
    ultimately show ?thesis by auto
  qed
  have "found = (p \<in> set (sig_slots s)) \<and> signal_emit run a (w, s') =
         (fold (\<lambda>r. apply_cb eff a (slot_cb (slot_store s' r))) (filter (\<lambda>q. q \<noteq> p) (sig_slots s)) w, s')"
    if "connection_Disconnect \<lparr> conn_slot = Some p, conn_signal = True \<rparr> s = (found, s')" for p found s'
    using emit [of s'] dis [OF that] by simp
  moreover have "sig_slots (snd (Connect cb s)) = sig_slots s @ [slot_fresh s]" by (simp add: Connect_def Let_def)
  ultimately show ?thesis using emit [OF assms(1)] by blast
qed

lemma signal_emission_order_witness:
  "(let s = snd (Connect (Some (2 :: int)) (snd (Connect (Some 1) signal_construct)))
    in signal_emit (\<lambda>cb a (w, s). (w @ [cb * a], s)) 10 ([], s) = ([10, 20], s))"
proof -
  let ?s = "snd (Connect (Some (2 :: int)) (snd (Connect (Some 1) signal_construct)))"
  have "passive_cbs (\<lambda>cb a (w, s). (w @ [cb * a], s)) (\<lambda>cb a w. w @ [cb * a])" by (simp add: passive_cbs_def)
  from signal_emission_order [OF Connect_inv [OF Connect_inv [OF construct_inv]] this, THEN conjunct1]
  have "signal_emit (\<lambda>cb a (w, s). (w @ [cb * a], s)) 10 ([], ?s)
     = (fold (\<lambda>p. apply_cb (\<lambda>cb a w. w @ [cb * a]) 10 (slot_cb (slot_store ?s p))) (sig_slots ?s) [], ?s)" .
  also have "\<dots> = ([10, 20], ?s)" by (simp add: Connect_def signal_construct_def Let_def)
  finally show ?thesis by (simp only: Let_def)
qed

end
