(* ===== verification/Dispatcher.thy ===== *)
theory Dispatcher
  imports DataPlane
begin

text \<open>
  What happens when a message arrives: \<open>data/data_dispatcher.h\<close> (buffers registered per
  channel), \<open>data/data_notifier.h\<close> (callbacks per channel), \<open>data/data_fusion/all_latest.h\<close> (the
  fusion callback of a buffer) and the constructors of \<open>data/data_visitor/data_visitor.h\<close>.
  Buffers live in a heap: a registered \<open>weak_ptr\<close> is an address, \<open>None\<close> there is an expired one.
  There is one dispatcher for every message type; types are numbered.
\<close>

section \<open>Buffers with a fusion callback\<close>

text \<open>\<open>pb_fusion\<close>: the other buffers the callback reads and the buffer it fills; a fused message
  is the list of its two to four components.\<close>

record 'm plane_buffer =
  pb_cache :: "'m cache_buffer"
  pb_fusion :: "(nat list \<times> 'm list cache_buffer) option"

type_synonym 'm buffer_heap = "nat \<Rightarrow> 'm plane_buffer option"

definition Latest_at :: "'m buffer_heap \<Rightarrow> nat \<Rightarrow> 'm option" where
  "Latest_at h i = (case h i of None \<Rightarrow> None | Some pb \<Rightarrow> Latest (pb_cache pb))"

text \<open>The callback: all other buffers must have a latest message.\<close>

definition fusion_callback ::
  "'m buffer_heap \<Rightarrow> nat list \<Rightarrow> 'm \<Rightarrow> 'm list cache_buffer \<Rightarrow> 'm list cache_buffer" where
  "fusion_callback h others m0 buffer_fusion =
     (if \<exists>i \<in> set others. Latest_at h i = None then buffer_fusion
      else cb_Fill (m0 # map (\<lambda>i. the (Latest_at h i)) others) buffer_fusion)"

definition Fill_at :: "nat \<Rightarrow> 'm \<Rightarrow> 'm buffer_heap \<Rightarrow> 'm buffer_heap" where
  "Fill_at i x h =
     (case h i of
        None \<Rightarrow> h
      | Some pb \<Rightarrow>
          (case pb_fusion pb of
             None \<Rightarrow> h(i \<mapsto> pb\<lparr> pb_cache := cb_Fill x (pb_cache pb) \<rparr>)
           | Some (others, bf) \<Rightarrow>
               h(i \<mapsto> pb\<lparr> pb_fusion := Some (others, fusion_callback h others x bf) \<rparr>)))"

text \<open>The constructors of \<open>AllLatest\<close> over buffer \<open>i\<close> and the \<open>others\<close>, of which the code has one to three.  The
  messages of all channels have one type here; with more than two channels the code needs that, for
  its constructors take the third buffer as a \<open>ChannelBuffer<M0>\<close> and the fourth as a
  \<open>ChannelBuffer<M1>\<close>.\<close>

definition AllLatest_construct :: "'m list \<Rightarrow> nat \<Rightarrow> nat list \<Rightarrow> 'm buffer_heap \<Rightarrow> 'm buffer_heap" where
  "AllLatest_construct dflt i others h =
     (case h i of
        None \<Rightarrow> h
      | Some pb \<Rightarrow>
          h(i \<mapsto> pb\<lparr> pb_fusion := Some (others, cb_construct dflt (cb_Capacity (pb_cache pb) - 1)) \<rparr>))"

text \<open>\<open>Fusion\<close>: a fetch on the fusion buffer; the visitor then advances its index.\<close>

definition Fusion :: "u64 \<Rightarrow> 'm plane_buffer \<Rightarrow> u64 \<times> 'm list option" where
  "Fusion index pb = (case pb_fusion pb of None \<Rightarrow> (index, None) | Some (_, bf) \<Rightarrow> Fetch index bf)"

definition TryFetch_fused :: "u64 \<Rightarrow> 'm plane_buffer \<Rightarrow> u64 \<times> 'm list option" where
  "TryFetch_fused next_msg_index pb =
     (case Fusion next_msg_index pb of
        (index, Some ms) \<Rightarrow> (index + 1, Some ms)
      | (index, None) \<Rightarrow> (index, None))"

section \<open>The notifier\<close>

text \<open>A notifier is an address; \<open>callbacks\<close> gives the callback set by \<open>RegisterNotifyCallback\<close>,
  if any, by a name.  \<open>Notify\<close> returns the callbacks it calls, in order.\<close>

record data_notifier =
  notifiers_map :: "nat list hash_map"
  callbacks :: "nat \<Rightarrow> nat option"

definition RegisterNotifyCallback :: "nat \<Rightarrow> nat \<Rightarrow> data_notifier \<Rightarrow> data_notifier" where
  "RegisterNotifyCallback notifier callback d = d\<lparr> callbacks := (callbacks d)(notifier \<mapsto> callback) \<rparr>"

definition AddNotifier :: "u64 \<Rightarrow> nat \<Rightarrow> data_notifier \<Rightarrow> data_notifier" where
  "AddNotifier channel_id notifier d =
     (case ahm_Get (notifiers_map d) channel_id of
        Some notifiers \<Rightarrow> d\<lparr> notifiers_map := ahm_Set channel_id (notifiers @ [notifier]) (notifiers_map d) \<rparr>
      | None \<Rightarrow> d\<lparr> notifiers_map := ahm_Set channel_id [notifier] (notifiers_map d) \<rparr>)"

definition Notify :: "u64 \<Rightarrow> data_notifier \<Rightarrow> bool \<times> nat list" where
  "Notify channel_id d =
     (case ahm_Get (notifiers_map d) channel_id of
        Some notifiers \<Rightarrow> (True, List.map_filter (callbacks d) notifiers)
      | None \<Rightarrow> (False, []))"

section \<open>The dispatchers\<close>

record 'm data_plane =
  heap :: "'m buffer_heap"
  buffers_map :: "nat \<Rightarrow> nat list hash_map"
  notifier :: data_notifier

definition AddBuffer :: "nat \<Rightarrow> u64 \<Rightarrow> nat \<Rightarrow> 'm data_plane \<Rightarrow> 'm data_plane" where
  "AddBuffer T channel_id buffer d =
     (case ahm_Get (buffers_map d T) channel_id of
        Some buffers \<Rightarrow>
          d\<lparr> buffers_map := (buffers_map d)(T := ahm_Set channel_id (buffers @ [buffer]) (buffers_map d T)) \<rparr>
      | None \<Rightarrow>
          d\<lparr> buffers_map := (buffers_map d)(T := ahm_Set channel_id [buffer] (buffers_map d T)) \<rparr>)"

definition Dispatch ::
  "process_state \<Rightarrow> nat \<Rightarrow> u64 \<Rightarrow> 'm \<Rightarrow> 'm data_plane \<Rightarrow> bool \<times> nat list \<times> 'm data_plane" where
  "Dispatch p T channel_id msg d =
     (if IsShutdown p then (False, [], d)
      else
        (case ahm_Get (buffers_map d T) channel_id of
           None \<Rightarrow> (False, [], d)
         | Some buffers \<Rightarrow>
             (let d1 = d\<lparr> heap := fold (\<lambda>i. Fill_at i msg) buffers (heap d) \<rparr>;
                  (r, called) = Notify channel_id (notifier d1)
              in (r, called, d1))))"

section \<open>Visitors\<close>

text \<open>\<open>VisitorConfig\<close>, with the message type it belongs to.\<close>

record visitor_config =
  vc_type :: nat
  vc_channel_id :: u64
  vc_queue_size :: u32

text \<open>The constructors: the buffers are allocated at \<open>base\<close>, \<open>base + 1\<close>, ... and added to their
  dispatchers in this order; the notifier is added to the channel of the first one; with more
  than one buffer the fusion is set up.\<close>

definition new_buffer :: "'m \<Rightarrow> u32 \<Rightarrow> 'm plane_buffer" where
  "new_buffer dflt queue_size = \<lparr> pb_cache = cb_construct dflt (ucast queue_size), pb_fusion = None \<rparr>"

definition visitor_buffers :: "'m \<Rightarrow> nat \<Rightarrow> visitor_config list \<Rightarrow> 'm data_plane \<Rightarrow> 'm data_plane" where
  "visitor_buffers dflt base config d =
     fold (\<lambda>(i, c) d1. AddBuffer (vc_type c) (vc_channel_id c) (base + i) d1)
       (List.enumerate 0 config)
       (d\<lparr> heap := (\<lambda>a. if base \<le> a \<and> a < base + length config
             then Some (new_buffer dflt (vc_queue_size (config ! (a - base)))) else heap d a) \<rparr>)"

definition DataVisitor_construct ::
  "'m \<Rightarrow> nat \<Rightarrow> nat \<Rightarrow> visitor_config list \<Rightarrow> 'm data_plane \<Rightarrow> 'm data_plane" where
  "DataVisitor_construct dflt base notif config d =
     (let d1 = visitor_buffers dflt base config d;
          d2 = d1\<lparr> notifier := AddNotifier (vc_channel_id (config ! 0)) notif (notifier d1) \<rparr>
      in if length config = 1 then d2
         else d2\<lparr> heap := AllLatest_construct [] base [base + 1..<base + length config] (heap d2) \<rparr>)"

section \<open>What a dispatch does\<close>

lemma Fill_at_other: "j \<noteq> i \<Longrightarrow> Fill_at i x h j = h j"
  by (auto simp: Fill_at_def split: option.split)

text \<open>A buffer filled once; its fusion reads buffers that this dispatch does not fill.\<close>

lemma fold_Fill_at:
  assumes "distinct bs"
    and "\<forall>i \<in> set bs. \<forall>pb others bf. h i = Some pb \<and> pb_fusion pb = Some (others, bf) \<longrightarrow> set others \<inter> set bs = {}"
  shows "fold (\<lambda>i. Fill_at i x) bs h = (\<lambda>j. if j \<in> set bs then Fill_at j x h j else h j)"
  using assms
proof (induction bs arbitrary: h)
  case Nil
  then show ?case by simp
next
  case (Cons i bs)
  let ?h = "Fill_at i x h"
  have same: "?h j = h j" if "j \<noteq> i" for j using that by (rule Fill_at_other)
  have "Fill_at j x ?h j = Fill_at j x h j" if "j \<in> set bs" for j
  proof -
    have ji: "j \<noteq> i" using that Cons.prems(1) by auto
    have "fusion_callback ?h others x bf = fusion_callback h others x bf"
      if "h j = Some pb" "pb_fusion pb = Some (others, bf)" for pb others bf
    proof -
      have "i \<notin> set others" using Cons.prems(2) that \<open>j \<in> set bs\<close> by (metis disjoint_iff list.set_intros)
      then have e: "\<forall>k \<in> set others. Latest_at ?h k = Latest_at h k" by (metis Latest_at_def same)
      then have "map (\<lambda>k. the (Latest_at ?h k)) others = map (\<lambda>k. the (Latest_at h k)) others" by simp
      then show ?thesis using e by (simp only: fusion_callback_def bex_simps cong: bex_cong)
    qed
    then show ?thesis by (auto simp: Fill_at_def [of j] same [OF ji] split: option.split)
  qed
  moreover have "fold (\<lambda>i. Fill_at i x) bs ?h = (\<lambda>j. if j \<in> set bs then Fill_at j x ?h j else ?h j)"
    using Cons.prems same by (intro Cons.IH) (auto, metis disjoint_iff)
  ultimately show ?case using same by (auto simp: fun_eq_iff)
qed

text \<open>Registrations, of which \<open>ahm_Get\<close> returns those of one channel in their order.\<close>

definition add_entry :: "u64 \<times> nat \<Rightarrow> nat list hash_map \<Rightarrow> nat list hash_map" where
  "add_entry r m = ahm_Set (fst r)
     ((case ahm_Get m (fst r) of None \<Rightarrow> [] | Some l \<Rightarrow> l) @ [snd r]) m"

definition entries :: "(u64 \<times> nat) list \<Rightarrow> u64 \<Rightarrow> nat list option" where
  "entries rs c = (let l = map snd (filter (\<lambda>r. fst r = c) rs) in if l = [] then None else Some l)"

lemma add_entries:
  assumes "TableSize \<noteq> 0"
  shows "ahm_ok (fold add_entry rs (ahm_construct TableSize)) \<and>
    ahm_Get (fold add_entry rs (ahm_construct TableSize)) = entries rs"
proof (induction rs rule: rev_induct)
  case Nil
  then show ?case using assms by (simp add: ahm_construct_ok ahm_Get_construct entries_def)
next
  case (snoc r rs)
  then show ?case
    by (auto simp: add_entry_def ahm.insert_invar ahm.lookup_insert entries_def Let_def fun_eq_iff)
qed

lemma AddBuffer_entry:
  "AddBuffer T c b d = d\<lparr> buffers_map := (buffers_map d)(T := add_entry (c, b) (buffers_map d T)) \<rparr>"
  by (simp add: AddBuffer_def add_entry_def split: option.split)

lemma AddNotifier_entry: "AddNotifier c n d = d\<lparr> notifiers_map := add_entry (c, n) (notifiers_map d) \<rparr>"
  by (simp add: AddNotifier_def add_entry_def split: option.split)

lemma fold_AddBuffer:
  "buffers_map (fold (\<lambda>r. AddBuffer T (fst r) (snd r)) bs d) T = fold add_entry bs (buffers_map d T) \<and>
   heap (fold (\<lambda>r. AddBuffer T (fst r) (snd r)) bs d) = heap d \<and>
   notifier (fold (\<lambda>r. AddBuffer T (fst r) (snd r)) bs d) = notifier d"
  by (induction bs arbitrary: d) (simp_all add: AddBuffer_entry)

lemma fold_AddNotifier:
  "notifiers_map (fold (\<lambda>r. AddNotifier (fst r) (snd r)) ns d) = fold add_entry ns (notifiers_map d) \<and>
   callbacks (fold (\<lambda>r. AddNotifier (fst r) (snd r)) ns d) = callbacks d"
  by (induction ns arbitrary: d) (simp_all add: AddNotifier_entry)

text \<open>The data plane after the buffers \<open>bs\<close> of one message type and the notifiers \<open>ns\<close> were added.\<close>

definition registered ::
  "nat \<Rightarrow> (u64 \<times> nat) list \<Rightarrow> (u64 \<times> nat) list \<Rightarrow> (nat \<Rightarrow> nat option) \<Rightarrow> 'm buffer_heap \<Rightarrow> 'm data_plane" where
  "registered T bs ns cbs h =
     fold (\<lambda>r. AddBuffer T (fst r) (snd r)) bs
       \<lparr> heap = h, buffers_map = (\<lambda>_. ahm_construct 128),
         notifier = fold (\<lambda>r. AddNotifier (fst r) (snd r)) ns
           \<lparr> notifiers_map = ahm_construct 128, callbacks = cbs \<rparr> \<rparr>"

text \<open>C19: A message dispatched on a channel while the process runs is filled into every live buffer
  registered for the channel (and its fusion buffer, if it fuses) and into no other, and
  calls the callbacks of the notifiers registered for the channel, in the order of their
  registration.  On a channel without buffers, or after shutdown, \<open>Dispatch\<close> returns false and
  changes nothing; it also returns false, after filling the buffers, when no notifier is registered.\<close>

theorem dispatch_reaches_registered:
  assumes "\<not> IsShutdown p" "distinct (map snd (filter (\<lambda>r. fst r = c) bs))"
    and "\<forall>i pb others bf. (c, i) \<in> set bs \<and> h i = Some pb \<and> pb_fusion pb = Some (others, bf) \<longrightarrow>
      (\<forall>j \<in> set others. (c, j) \<notin> set bs)"
  shows "case Dispatch p T c m (registered T bs ns cbs h) of (r, called, d) \<Rightarrow>
    (\<forall>i. heap d i = (if (c, i) \<in> set bs then Fill_at i m h i else h i)) \<and>
    called = (if \<exists>i. (c, i) \<in> set bs
      then List.map_filter cbs (map snd (filter (\<lambda>r. fst r = c) ns)) else []) \<and>
    (r \<longleftrightarrow> (\<exists>i. (c, i) \<in> set bs) \<and> (\<exists>n. (c, n) \<in> set ns)) \<and>
    (\<forall>p'. IsShutdown p' \<longrightarrow> Dispatch p' T c m d = (False, [], d))"
proof -
  let ?d = "registered T bs ns cbs h"
  let ?l = "map snd (filter (\<lambda>r. fst r = c) bs)"
  have b: "ahm_Get (buffers_map ?d T) = entries bs" "heap ?d = h"
    by (simp_all add: registered_def fold_AddBuffer add_entries)
  have nt: "ahm_Get (notifiers_map (notifier ?d)) = entries ns" "callbacks (notifier ?d) = cbs"
    by (simp_all add: registered_def fold_AddBuffer fold_AddNotifier add_entries)
  have mem: "i \<in> set ?l \<longleftrightarrow> (c, i) \<in> set bs" for i by force
  have N: "Notify c (notifier ?d) = (\<exists>n. (c, n) \<in> set ns,
      List.map_filter cbs (map snd (filter (\<lambda>r. fst r = c) ns)))"
    by (auto simp: Notify_def nt entries_def filter_empty_conv Let_def map_filter_simps)
  show ?thesis
  proof (cases "?l = []")
    case True
    then have "\<not> (\<exists>i. (c, i) \<in> set bs)" using mem by auto
    then show ?thesis using True assms(1) by (simp add: Dispatch_def b entries_def Let_def)
  next
    case False
    have "fold (\<lambda>i. Fill_at i m) ?l h = (\<lambda>j. if j \<in> set ?l then Fill_at j m h j else h j)"
      using assms(2,3) mem by (intro fold_Fill_at) (simp, blast)
    then have "fold (\<lambda>i. Fill_at i m) ?l h = (\<lambda>j. if (c, j) \<in> set bs then Fill_at j m h j else h j)"
      by (simp only: mem)
    moreover have "\<exists>i. (c, i) \<in> set bs" using False mem by (metis list.set_sel(1))
    moreover have "ahm_Get (buffers_map ?d T) c = Some ?l" using False by (simp add: b entries_def Let_def)
    ultimately show ?thesis
      using assms(1) N b by (simp add: Dispatch_def)
  qed
qed

text \<open>Channel 5 of type 0 has the buffers 0 and 1, of which 1 fuses with buffer 2 of type 1.\<close>

lemma dispatch_reaches_registered_witness:
  "\<exists>r called d. Dispatch process_start 0 5 (7 :: nat)
       (registered 0 [(5, 0), (6, 3), (5, 1)] [(5, 0), (5, 1), (6, 2)] [0 \<mapsto> 30, 2 \<mapsto> 32]
         [0 \<mapsto> new_buffer 0 1, 1 \<mapsto> (new_buffer 0 1)\<lparr> pb_fusion := Some ([2], cb_construct [] 1) \<rparr>]) = (r, called, d) \<and>
     r \<and> called = [30]"
proof -
  let ?h = "[0 \<mapsto> new_buffer (0 :: nat) 1, 1 \<mapsto> (new_buffer 0 1)\<lparr> pb_fusion := Some ([2], cb_construct [] 1) \<rparr>]"
  let ?bs = "[(5, 0), (6, 3), (5, 1)] :: (u64 \<times> nat) list" and ?ns = "[(5, 0), (5, 1), (6, 2)] :: (u64 \<times> nat) list"
  let ?cbs = "[0 \<mapsto> 30, 2 \<mapsto> 32] :: nat \<Rightarrow> nat option"
  obtain r called d where D: "Dispatch process_start 0 5 (7 :: nat) (registered 0 ?bs ?ns ?cbs ?h) = (r, called, d)"
    by (metis prod_cases3)
  have "\<not> IsShutdown process_start" by (simp add: IsShutdown_def process_start_def)
  moreover have "distinct (map snd (filter (\<lambda>r. fst r = 5) ?bs))" by simp
  moreover have "\<forall>i pb others bf. (5, i) \<in> set ?bs \<and> ?h i = Some pb \<and> pb_fusion pb = Some (others, bf) \<longrightarrow>
      (\<forall>j \<in> set others. (5, j) \<notin> set ?bs)"
    by (auto simp: new_buffer_def split: if_splits)
  ultimately have "case Dispatch process_start 0 5 7 (registered 0 ?bs ?ns ?cbs ?h) of (r, called, d) \<Rightarrow>
    (\<forall>i. heap d i = (if (5, i) \<in> set ?bs then Fill_at i 7 ?h i else ?h i)) \<and>
    called = (if \<exists>i. (5, i) \<in> set ?bs
      then List.map_filter ?cbs (map snd (filter (\<lambda>r. fst r = 5) ?ns)) else []) \<and>
    (r \<longleftrightarrow> (\<exists>i. (5, i) \<in> set ?bs) \<and> (\<exists>n. (5, n) \<in> set ?ns)) \<and>
    (\<forall>p'. IsShutdown p' \<longrightarrow> Dispatch p' 0 5 7 d = (False, [], d))"
    by (rule dispatch_reaches_registered)
  then have "called = List.map_filter ?cbs [0, 1]" "r" unfolding D by auto
  then show ?thesis
    using D by (intro exI [of _ r] exI [of _ called] exI [of _ d]) (simp add: List.map_filter_def)
qed

section \<open>What a fusion holds\<close>

text \<open>The specification: of the fills \<open>(i, m)\<close> of several buffers, those of the fusing buffer \<open>a\<close> that find
  a message in all others are fused with the newest of each.\<close>

primrec fused :: "nat \<Rightarrow> nat list \<Rightarrow> (nat \<Rightarrow> 'm list) \<Rightarrow> (nat \<times> 'm) list \<Rightarrow> 'm list list" where
  "fused a others logs [] = []"
| "fused a others logs (e # es) =
     (if fst e = a then
        (if \<exists>j \<in> set others. logs j = [] then fused a others logs es
         else (snd e # map (\<lambda>j. last (logs j)) others) # fused a others logs es)
      else fused a others (logs(fst e := logs (fst e) @ [snd e])) es)"

definition fusing :: "nat \<Rightarrow> 'm list cache_buffer \<Rightarrow> nat \<Rightarrow> nat list \<Rightarrow> (nat \<Rightarrow> 'm list) \<Rightarrow> 'm list list
    \<Rightarrow> 'm buffer_heap \<Rightarrow> bool" where
  "fusing n bf a others logs flog h \<longleftrightarrow>
     (\<exists>pb. h a = Some pb \<and> pb_fusion pb = Some (others, bf) \<and> cb_inv n flog bf) \<and>
     (\<forall>j \<in> set others. j \<noteq> a \<and> (\<exists>pb. h j = Some pb \<and> pb_fusion pb = None \<and> cb_inv n (logs j) (pb_cache pb)))"

lemma fusing_fills:
  assumes "fusing (length es) bf a others logs flog h"
  shows "\<exists>bf'. fusing 0 bf' a others (\<lambda>j. logs j @ map snd (filter (\<lambda>e. fst e = j) es))
    (flog @ fused a others logs es) (fold (\<lambda>e. Fill_at (fst e) (snd e)) es h) \<and> cb_capacity bf' = cb_capacity bf"
  using assms
proof (induction es arbitrary: bf logs flog h)
  case Nil
  then show ?case by auto
next
  case (Cons e es)
  obtain i x where e: "e = (i, x)" by (cases e)
  let ?h = "Fill_at i x h"
  from Cons.prems obtain pb where pb: "h a = Some pb" "pb_fusion pb = Some (others, bf)" "cb_inv (Suc (length es)) flog bf"
    and oth: "\<And>j. j \<in> set others \<Longrightarrow> j \<noteq> a \<and>
      (\<exists>pb. h j = Some pb \<and> pb_fusion pb = None \<and> cb_inv (Suc (length es)) (logs j) (pb_cache pb))"
    by (auto simp: fusing_def)
  show ?case
  proof (cases "i = a")
    case True
    have latest: "Latest_at h j = (if logs j = [] then None else Some (last (logs j)))" if "j \<in> set others" for j
      using oth [OF that] Latest_spec by (fastforce simp: Latest_at_def)
    let ?bf = "fusion_callback h others x bf"
    let ?f = "if \<exists>j \<in> set others. logs j = [] then flog else flog @ [x # map (\<lambda>j. last (logs j)) others]"
    have cb: "?bf = (if \<exists>j \<in> set others. logs j = [] then bf else cb_Fill (x # map (\<lambda>j. last (logs j)) others) bf)"
      using latest by (auto simp: fusion_callback_def intro!: arg_cong [of _ _ "\<lambda>l. cb_Fill (x # l) bf"])
    have "?h = h(a \<mapsto> pb\<lparr> pb_fusion := Some (others, ?bf) \<rparr>)" using pb True by (simp add: Fill_at_def)
    moreover have "cb_inv (length es) ?f ?bf" using pb(3) by (simp add: cb cb_Fill_inv cb_inv_mono)
    ultimately have f: "fusing (length es) ?bf a others logs ?f ?h"
      using oth cb_inv_mono by (fastforce simp: fusing_def)
    have "cb_capacity ?bf = cb_capacity bf" by (simp add: cb cb_Fill_def)
    moreover have "flog @ fused a others logs (e # es) = ?f @ fused a others logs es" using True by (simp add: e)
    ultimately show ?thesis using Cons.IH [OF f] True by (simp add: e fusing_def cong: conj_cong ball_cong)
  next
    case False
    let ?l = "logs(i := logs i @ [x])"
    have same: "?h j = h j" if "j \<noteq> i" for j using that by (rule Fill_at_other)
    have "\<exists>pb. ?h j = Some pb \<and> pb_fusion pb = None \<and> cb_inv (length es) (?l j) (pb_cache pb)" if jin: "j \<in> set others" for j
    proof (cases "j = i")
      case True
      obtain pj where "h j = Some pj" "pb_fusion pj = None" "cb_inv (Suc (length es)) (logs j) (pb_cache pj)"
        using oth [OF jin] by blast
      then show ?thesis using True by (auto simp: Fill_at_def cb_Fill_inv)
    next
      case ne: False
      then show ?thesis using oth [OF jin] same [OF ne] cb_inv_mono by auto
    qed
    then have f: "fusing (length es) bf a others ?l flog ?h"
      using pb False oth same [of a] cb_inv_mono by (simp add: fusing_def)
    have l: "(\<lambda>j. ?l j @ map snd (filter (\<lambda>e. fst e = j) es)) = (\<lambda>j. logs j @ map snd (filter (\<lambda>e. fst e = j) (e # es)))"
      by (auto simp: e fun_eq_iff)
    show ?thesis using Cons.IH [OF f] False unfolding l by (simp add: e fun_upd_def)
  qed
qed

text \<open>C27: Of a visitor of two to four channels with messages of one type: the fusion buffer gets,
  for each message of the first channel that arrives when every other channel has had one, the tuple of that
  message and the newest message of each other channel at its arrival; messages that
  arrive before are dropped.  \<open>Fusion\<close> fetches from these tuples as from any buffer: the first fetch (index 0) and one
  that fell behind by \<open>queue_size\<close> jump to the newest, the others get the tuples in order, and at
  the end it answers that there is none.\<close>

theorem fusion_combines_latest:
  assumes "0 < length qs" "unat q + 1 < 2 ^ 64" "\<forall>q' \<in> set qs. unat q' + 1 < 2 ^ 64" "length es < 2 ^ 64 - 1"
    and "h0 = AllLatest_construct [] 0 [1..<length qs + 1]
      (\<lambda>i. if i \<le> length qs then Some \<lparr> pb_cache = cb_construct dflt ((q # qs) ! i), pb_fusion = None \<rparr> else None)"
    and "h = fold (\<lambda>e. Fill_at (fst e) (snd e)) es h0"
    and "F = fused 0 [1..<length qs + 1] (\<lambda>_. []) es" "length qs \<le> 3"
  shows "\<exists>pb bf. h 0 = Some pb \<and> pb_fusion pb = Some ([1..<length qs + 1], bf) \<and>
    (\<forall>index. unat index \<le> length F + 1 \<longrightarrow>
       Fusion index pb =
         (if F = [] then (index, None)
          else if index = 0 \<or> unat index \<noteq> length F + 1 \<and> length F \<ge> unat index + unat q
            then (of_nat (length F), Some (last F))
          else if unat index = length F + 1 then (index, None)
          else (index, Some (F ! (unat index - 1)))))"
proof -
  let ?o = "[1..<length qs + 1]" and ?bf = "cb_construct [] (cb_Capacity (cb_construct dflt q) - 1) :: 'a list cache_buffer"
  have q: "cb_Capacity (cb_construct dflt q) - 1 = q" by (simp add: cb_Capacity_def cb_construct_def)
  have c: "cb_inv (length es) [] (cb_construct dflt (qs ! (j - Suc 0)))" if "0 < j" "j \<le> length qs" for j
  proof (rule cb_construct_inv [OF _ assms(4)])
    have "qs ! (j - Suc 0) \<in> set qs" using that by (intro nth_mem) auto
    then show "unat (qs ! (j - Suc 0)) + 1 < 2 ^ 64" using assms(3) by blast
  qed
  have "cb_inv (length es) [] (cb_construct [] q :: 'a list cache_buffer)"
    by (rule cb_construct_inv [OF assms(2,4)])
  then have "fusing (length es) ?bf 0 ?o (\<lambda>_. []) [] h0"
    unfolding fusing_def assms(5) q using c q by (auto simp: AllLatest_construct_def)
  then obtain bf where f: "fusing 0 bf 0 ?o (\<lambda>j. [] @ map snd (filter (\<lambda>e. fst e = j) es)) ([] @ F) h"
    "cb_capacity bf = cb_capacity ?bf"
    unfolding assms(6,7) using fusing_fills by blast
  have "cb_capacity bf = q + 1" using f(2) unfolding q by (simp add: cb_construct_def)
  then have "unat (cb_capacity bf) - 1 = unat q" using unat_add_one_nowrap [of q] assms(2) by simp
  moreover obtain pb where "h 0 = Some pb" "pb_fusion pb = Some (?o, bf)" "cb_inv 0 F bf"
    using f(1) by (auto simp: fusing_def)
  ultimately show ?thesis
    by (intro exI [of _ pb] exI [of _ bf]) (simp add: Fusion_def Fetch_spec del: upt_Suc)
qed

lemma fusion_combines_latest_witness:
  "\<exists>pb. fold (\<lambda>e. Fill_at (fst e) (snd e)) [(0, 1), (1, 2), (0, 3), (1, 4), (1, 5), (0, 6 :: nat)]
      (AllLatest_construct [] 0 [1..<length [1 :: u64] + 1] (\<lambda>i. if i \<le> length [1 :: u64] then
         Some \<lparr> pb_cache = cb_construct 0 ([4, 1] ! i), pb_fusion = None \<rparr> else None)) 0 = Some pb \<and>
     Fusion 1 pb = (1, Some [3, 2]) \<and> Fusion 2 pb = (2, Some [6, 5])"
proof -
  let ?es = "[(0, 1), (1, 2), (0, 3), (1, 4), (1, 5), (0, 6 :: nat)]"
  define h0 :: "nat \<Rightarrow> nat plane_buffer option" where "h0 = AllLatest_construct [] 0 [1..<length [1 :: u64] + 1] (\<lambda>i. if i \<le> length [1 :: u64] then
         Some \<lparr> pb_cache = cb_construct 0 ([4, 1] ! i), pb_fusion = None \<rparr> else None)"
  define h where "h = fold (\<lambda>e. Fill_at (fst e) (snd e)) ?es h0"
  have "fused 0 [1..<length [1 :: u64] + 1] (\<lambda>_. []) ?es = [[3, 2], [6, 5]]" by code_simp
  then obtain pb where hp: "h 0 = Some pb"
    and F: "\<And>index. unat index \<le> length [[3, 2], [6, 5 :: nat]] + 1 \<Longrightarrow> Fusion index pb =
         (if [[3, 2], [6, 5 :: nat]] = [] then (index, None)
          else if index = 0 \<or> unat index \<noteq> length [[3, 2], [6, 5 :: nat]] + 1 \<and>
              length [[3, 2], [6, 5 :: nat]] \<ge> unat index + unat (4 :: u64)
            then (of_nat (length [[3, 2], [6, 5 :: nat]]), Some (last [[3, 2], [6, 5]]))
          else if unat index = length [[3, 2], [6, 5 :: nat]] + 1 then (index, None)
          else (index, Some ([[3, 2], [6, 5]] ! (unat index - 1))))"
    using fusion_combines_latest [of "[1]" 4 ?es h0 0 h "[[3, 2], [6, 5]]"] h0_def h_def
    by (simp del: upt_Suc fold_simps split del: if_split) blast
  have "Fusion 1 pb = (1, Some [3, 2])" "Fusion 2 pb = (2, Some [6, 5])"
    using F [of 1] F [of 2] by simp_all
  then show ?thesis using hp unfolding h_def h0_def by blast
qed

end
