(* ===== verification/Blocker.thy ===== *)
theory Blocker
  imports Prelude
begin

text \<open>
  In-process publishing: \<open>blocker/blocker.h\<close> (one channel) and \<open>blocker/blocker_manager.h\<close>,
  \<open>blocker/blocker_manager.cpp\<close> (all channels by name).  The mutexes make each operation atomic.
  A callback is a value of type \<open>'c\<close>; a call of a callback is recorded.  The list of callbacks
  stands for the \<open>unordered_map\<close>, whose iteration order is unspecified: no theorem below depends on it.
\<close>

section \<open>One blocker\<close>

record BlockerAttr =
  attr_capacity :: nat
  attr_channel_name :: string

definition BlockerAttr_of :: "string \<Rightarrow> BlockerAttr" where
  "BlockerAttr_of channel = \<lparr> attr_capacity = 10, attr_channel_name = channel \<rparr>"

record ('m, 'c) blocker =
  bk_attr :: BlockerAttr
  observed_msg_queue :: "'m list"
  published_msg_queue :: "'m list"
  published_callbacks :: "(string \<times> 'c) list"
  dummy_msg :: 'm

definition blocker_construct :: "'m \<Rightarrow> BlockerAttr \<Rightarrow> ('m, 'c) blocker" where
  "blocker_construct dflt attr = \<lparr> bk_attr = attr, observed_msg_queue = [], published_msg_queue = [],
     published_callbacks = [], dummy_msg = dflt \<rparr>"

lemma blocker_construct_simps [simp]:
  "bk_attr (blocker_construct dflt attr) = attr" "published_callbacks (blocker_construct dflt attr) = []"
  "published_msg_queue (blocker_construct dflt attr) = []" "observed_msg_queue (blocker_construct dflt attr) = []"
  by (simp_all add: blocker_construct_def)

text \<open>\<open>while(size() > capacity) pop_back()\<close>\<close>

fun trim :: "nat \<Rightarrow> 'm list \<Rightarrow> 'm list" where
  "trim capacity q = (if length q > capacity then trim capacity (butlast q) else q)"

declare trim.simps [simp del]

definition bk_Enqueue :: "'m \<Rightarrow> ('m, 'c) blocker \<Rightarrow> ('m, 'c) blocker" where
  "bk_Enqueue msg b =
     (if attr_capacity (bk_attr b) = 0 then b
      else b\<lparr> published_msg_queue := trim (attr_capacity (bk_attr b)) (msg # published_msg_queue b) \<rparr>)"

definition bk_Notify :: "'m \<Rightarrow> ('m, 'c) blocker \<Rightarrow> (string \<times> 'c \<times> 'm) list" where
  "bk_Notify msg b = map (\<lambda>(i, c). (i, c, msg)) (published_callbacks b)"

definition bk_Publish :: "'m \<Rightarrow> ('m, 'c) blocker \<Rightarrow> (string \<times> 'c \<times> 'm) list \<times> ('m, 'c) blocker" where
  "bk_Publish msg b = (let b1 = bk_Enqueue msg b in (bk_Notify msg b1, b1))"

definition bk_Reset :: "('m, 'c) blocker \<Rightarrow> ('m, 'c) blocker" where
  "bk_Reset b = b\<lparr> observed_msg_queue := [], published_msg_queue := [], published_callbacks := [] \<rparr>"

definition bk_ClearObserved :: "('m, 'c) blocker \<Rightarrow> ('m, 'c) blocker" where
  "bk_ClearObserved b = b\<lparr> observed_msg_queue := [] \<rparr>"

definition bk_ClearPublished :: "('m, 'c) blocker \<Rightarrow> ('m, 'c) blocker" where
  "bk_ClearPublished b = b\<lparr> published_msg_queue := [] \<rparr>"

definition bk_Observe :: "('m, 'c) blocker \<Rightarrow> ('m, 'c) blocker" where
  "bk_Observe b = b\<lparr> observed_msg_queue := published_msg_queue b \<rparr>"

definition bk_Subscribe :: "string \<Rightarrow> 'c \<Rightarrow> ('m, 'c) blocker \<Rightarrow> bool \<times> ('m, 'c) blocker" where
  "bk_Subscribe callback_id callback b =
     (if map_of (published_callbacks b) callback_id \<noteq> None then (False, b)
      else (True, b\<lparr> published_callbacks := published_callbacks b @ [(callback_id, callback)] \<rparr>))"

definition bk_Unsubscribe :: "string \<Rightarrow> ('m, 'c) blocker \<Rightarrow> bool \<times> ('m, 'c) blocker" where
  "bk_Unsubscribe callback_id b =
     (map_of (published_callbacks b) callback_id \<noteq> None,
      b\<lparr> published_callbacks := filter (\<lambda>e. fst e \<noteq> callback_id) (published_callbacks b) \<rparr>)"

definition bk_set_capacity :: "nat \<Rightarrow> ('m, 'c) blocker \<Rightarrow> ('m, 'c) blocker" where
  "bk_set_capacity capacity b =
     b\<lparr> bk_attr := (bk_attr b)\<lparr> attr_capacity := capacity \<rparr>,
       published_msg_queue := trim capacity (published_msg_queue b) \<rparr>"

definition IsObservedEmpty :: "('m, 'c) blocker \<Rightarrow> bool" where
  "IsObservedEmpty b \<longleftrightarrow> observed_msg_queue b = []"
definition IsPublishedEmpty :: "('m, 'c) blocker \<Rightarrow> bool" where
  "IsPublishedEmpty b \<longleftrightarrow> published_msg_queue b = []"
definition GetLatestObserved :: "('m, 'c) blocker \<Rightarrow> 'm" where
  "GetLatestObserved b = (case observed_msg_queue b of [] \<Rightarrow> dummy_msg b | m # _ \<Rightarrow> m)"
definition GetLatestObservedPtr :: "('m, 'c) blocker \<Rightarrow> 'm option" where
  "GetLatestObservedPtr b = (case observed_msg_queue b of [] \<Rightarrow> None | m # _ \<Rightarrow> Some m)"
definition GetOldestObservedPtr :: "('m, 'c) blocker \<Rightarrow> 'm option" where
  "GetOldestObservedPtr b = (if observed_msg_queue b = [] then None else Some (last (observed_msg_queue b)))"
definition GetLatestPublishedPtr :: "('m, 'c) blocker \<Rightarrow> 'm option" where
  "GetLatestPublishedPtr b = (case published_msg_queue b of [] \<Rightarrow> None | m # _ \<Rightarrow> Some m)"

lemma trim_take: "trim n q = take n q"
proof (induction n q rule: trim.induct)
  case (1 n q)
  then show ?case
    by (subst trim.simps) (auto simp: butlast_conv_take take_take min_def)
qed

subsection \<open>Any history of one blocker\<close>

datatype ('m, 'c) blocker_op =
    Op_Publish 'm | Op_Observe | Op_ClearObserved | Op_ClearPublished | Op_Subscribe string 'c | Op_Unsubscribe string

fun blocker_apply :: "('m, 'c) blocker_op \<Rightarrow> ('m, 'c) blocker \<Rightarrow> (string \<times> 'c \<times> 'm) list \<times> ('m, 'c) blocker" where
  "blocker_apply (Op_Publish m) b = bk_Publish m b"
| "blocker_apply Op_Observe b = ([], bk_Observe b)"
| "blocker_apply Op_ClearObserved b = ([], bk_ClearObserved b)"
| "blocker_apply Op_ClearPublished b = ([], bk_ClearPublished b)"
| "blocker_apply (Op_Subscribe i c) b = ([], snd (bk_Subscribe i c b))"
| "blocker_apply (Op_Unsubscribe i) b = ([], snd (bk_Unsubscribe i b))"

primrec blocker_run :: "('m, 'c) blocker_op list \<Rightarrow> ('m, 'c) blocker \<Rightarrow> (string \<times> 'c \<times> 'm) list \<times> ('m, 'c) blocker" where
  "blocker_run [] b = ([], b)"
| "blocker_run (x # xs) b =
     (let (calls, b1) = blocker_apply x b; (calls', b2) = blocker_run xs b1 in (calls @ calls', b2))"

text \<open>The specification keeps all messages: those published since the last clearing, newest first,
  and those there were at the last observation.\<close>

fun spec_apply :: "('m, 'c) blocker_op \<Rightarrow> 'm list \<times> 'm list \<Rightarrow> 'm list \<times> 'm list" where
  "spec_apply (Op_Publish m) (pub, obs) = (m # pub, obs)"
| "spec_apply Op_Observe (pub, obs) = (pub, pub)"
| "spec_apply Op_ClearObserved (pub, obs) = (pub, [])"
| "spec_apply Op_ClearPublished (pub, obs) = ([], obs)"
| "spec_apply _ s = s"

text \<open>What the callback of one identifier is called with.\<close>

fun spec_calls :: "string \<Rightarrow> 'c option \<Rightarrow> ('m, 'c) blocker_op list \<Rightarrow> ('c \<times> 'm) list" where
  "spec_calls i cb [] = []"
| "spec_calls i cb (Op_Publish m # xs) = (case cb of None \<Rightarrow> [] | Some c \<Rightarrow> [(c, m)]) @ spec_calls i cb xs"
| "spec_calls i cb (Op_Subscribe j c # xs) = spec_calls i (if i = j \<and> cb = None then Some c else cb) xs"
| "spec_calls i cb (Op_Unsubscribe j # xs) = spec_calls i (if i = j then None else cb) xs"
| "spec_calls i cb (_ # xs) = spec_calls i cb xs"

definition blocker_rel :: "'m list \<times> 'm list \<Rightarrow> ('m, 'c) blocker \<Rightarrow> bool" where
  "blocker_rel s b \<longleftrightarrow>
     published_msg_queue b = take (attr_capacity (bk_attr b)) (fst s) \<and>
     observed_msg_queue b = take (attr_capacity (bk_attr b)) (snd s) \<and>
     distinct (map fst (published_callbacks b))"

definition calls_of :: "string \<Rightarrow> (string \<times> 'c \<times> 'm) list \<Rightarrow> ('c \<times> 'm) list" where
  "calls_of i calls = map snd (filter (\<lambda>e. fst e = i) calls)"

lemma calls_of_append: "calls_of i (xs @ ys) = calls_of i xs @ calls_of i ys"
  by (simp add: calls_of_def)

lemma calls_of_Notify:
  "distinct (map fst cbs) \<Longrightarrow>
   calls_of i (map (\<lambda>(i, c). (i, c, m)) cbs) = (case map_of cbs i of None \<Rightarrow> [] | Some c \<Rightarrow> [(c, m)])"
proof (induction cbs)
  case (Cons e cbs)
  then have "fst e = i \<Longrightarrow> map_of cbs i = None" by (auto simp: map_of_eq_None_iff)
  then show ?case using Cons by (auto simp: calls_of_def split: option.splits prod.splits)
qed (simp add: calls_of_def)

lemma map_of_filter_ne: "map_of (filter (\<lambda>e. fst e \<noteq> j) xs) = (map_of xs)(j := None)"
  by (induction xs) (auto simp: fun_eq_iff)

lemma blocker_apply_rel:
  assumes "blocker_rel s b"
  shows "blocker_rel (spec_apply x s) (snd (blocker_apply x b)) \<and>
    bk_attr (snd (blocker_apply x b)) = bk_attr b"
proof (cases x)
  case (Op_Publish m)
  obtain pub obs where "s = (pub, obs)" by (cases s)
  then show ?thesis using assms Op_Publish
    by (cases "attr_capacity (bk_attr b)")
      (auto simp: blocker_rel_def bk_Publish_def bk_Enqueue_def Let_def trim_take take_Suc_Cons)
next
  case (Op_Subscribe i c)
  then show ?thesis using assms by (auto simp: blocker_rel_def bk_Subscribe_def map_of_eq_None_iff)
next
  case (Op_Unsubscribe i)
  then show ?thesis using assms by (auto simp: blocker_rel_def bk_Unsubscribe_def distinct_map_filter)
qed (use assms in \<open>cases s; simp add: blocker_rel_def bk_Observe_def bk_ClearObserved_def bk_ClearPublished_def\<close>)+

lemma blocker_apply_calls:
  assumes "distinct (map fst (published_callbacks b))"
  shows "spec_calls i (map_of (published_callbacks b) i) (x # xs) =
    calls_of i (fst (blocker_apply x b)) @ spec_calls i (map_of (published_callbacks (snd (blocker_apply x b))) i) xs"
proof (cases x)
  case (Op_Publish m)
  moreover have "published_callbacks (bk_Enqueue m b) = published_callbacks b" by (simp add: bk_Enqueue_def)
  ultimately show ?thesis using assms
    by (simp add: bk_Publish_def bk_Notify_def Let_def calls_of_Notify)
next
  case (Op_Subscribe j c)
  then show ?thesis
    by (auto simp: bk_Subscribe_def calls_of_def map_add_def split: option.split)
next
  case (Op_Unsubscribe j)
  then show ?thesis by (auto simp: bk_Unsubscribe_def calls_of_def map_of_filter_ne)
qed (simp_all add: calls_of_def bk_Observe_def bk_ClearObserved_def bk_ClearPublished_def)

lemma blocker_run_rel:
  assumes "blocker_rel s b" "blocker_run xs b = (calls, b')"
  shows "blocker_rel (fold spec_apply xs s) b' \<and> bk_attr b' = bk_attr b \<and>
    calls_of i calls = spec_calls i (map_of (published_callbacks b) i) xs"
  using assms
proof (induction xs arbitrary: s b calls b')
  case Nil
  then show ?case by (auto simp: calls_of_def)
next
  case (Cons x xs)
  obtain c1 b1 where a: "blocker_apply x b = (c1, b1)" by fastforce
  obtain c2 b2 where r: "blocker_run xs b1 = (c2, b2)" by fastforce
  have "distinct (map fst (published_callbacks b))" using Cons.prems(1) by (simp add: blocker_rel_def)
  moreover have rel: "blocker_rel (spec_apply x s) b1" "bk_attr b1 = bk_attr b"
    using blocker_apply_rel [OF Cons.prems(1), of x] a by simp_all
  moreover have "calls = c1 @ c2" "b' = b2" using Cons.prems(2) a r by simp_all
  ultimately show ?case
    using Cons.IH [OF rel(1) r] blocker_apply_calls [of b i x xs] a by (simp add: calls_of_append)
qed

lemma blocker_construct_rel: "blocker_rel ([], []) (blocker_construct dflt attr)"
  by (simp add: blocker_rel_def)

text \<open>C28: A blocker of capacity \<open>n\<close>, whatever its history, holds the newest \<open>n\<close> messages published since
  they were last cleared, newest first; what is observed is what was published at the last
  observation, however much is published later; and the callback of an identifier is called
  exactly once, in order, with every message published while it is subscribed (with
  capacity 0 too), a second subscription of the identifier being refused.\<close>

theorem blocker_keeps_newest:
  "published_msg_queue (snd (blocker_run ops (blocker_construct dflt attr)))
     = take (attr_capacity attr) (fst (fold spec_apply ops ([], []))) \<and>
   observed_msg_queue (snd (blocker_run ops (blocker_construct dflt attr)))
     = take (attr_capacity attr) (snd (fold spec_apply ops ([], []))) \<and>
   calls_of i (fst (blocker_run ops (blocker_construct dflt attr))) = spec_calls i None ops"
proof -
  note r = blocker_run_rel [OF blocker_construct_rel prod.collapse [symmetric], of ops dflt attr i]
  then show ?thesis by (simp add: blocker_rel_def)
qed

section \<open>All blockers\<close>

text \<open>Blockers of all message types in one table; \<open>fst\<close> of an entry is the message type, which
  \<open>dynamic_pointer_cast\<close> checks.  \<open>None\<close> is a null pointer.\<close>

type_synonym ('m, 'c) blocker_map = "string \<rightharpoonup> nat \<times> ('m, 'c) blocker"

definition GetBlocker :: "nat \<Rightarrow> string \<Rightarrow> ('m, 'c) blocker_map \<Rightarrow> ('m, 'c) blocker option" where
  "GetBlocker T channel_name bs =
     (case bs channel_name of
        Some (T', b) \<Rightarrow> (if T' = T then Some b else None)
      | None \<Rightarrow> None)"

definition GetOrCreateBlocker ::
  "'m \<Rightarrow> nat \<Rightarrow> BlockerAttr \<Rightarrow> ('m, 'c) blocker_map \<Rightarrow> ('m, 'c) blocker option \<times> ('m, 'c) blocker_map" where
  "GetOrCreateBlocker dflt T attr bs =
     (case bs (attr_channel_name attr) of
        Some (T', b) \<Rightarrow> (if T' = T then Some b else None, bs)
      | None \<Rightarrow> (let b = blocker_construct dflt attr in (Some b, bs(attr_channel_name attr \<mapsto> (T, b)))))"

text \<open>The operations act on the shared blocker: they return the table with it updated.\<close>

definition mgr_Publish ::
  "'m \<Rightarrow> nat \<Rightarrow> string \<Rightarrow> 'm \<Rightarrow> ('m, 'c) blocker_map \<Rightarrow> bool \<times> (string \<times> 'c \<times> 'm) list \<times> ('m, 'c) blocker_map" where
  "mgr_Publish dflt T channel_name msg bs =
     (case GetOrCreateBlocker dflt T (BlockerAttr_of channel_name) bs of
        (None, bs1) \<Rightarrow> (False, [], bs1)
      | (Some b, bs1) \<Rightarrow> (let (calls, b1) = bk_Publish msg b in (True, calls, bs1(channel_name \<mapsto> (T, b1)))))"

definition mgr_Subscribe ::
  "'m \<Rightarrow> nat \<Rightarrow> string \<Rightarrow> nat \<Rightarrow> string \<Rightarrow> 'c \<Rightarrow> ('m, 'c) blocker_map \<Rightarrow> bool \<times> ('m, 'c) blocker_map" where
  "mgr_Subscribe dflt T channel_name capacity callback_id callback bs =
     (case GetOrCreateBlocker dflt T \<lparr> attr_capacity = capacity, attr_channel_name = channel_name \<rparr> bs of
        (None, bs1) \<Rightarrow> (False, bs1)
      | (Some b, bs1) \<Rightarrow>
          (let (r, b1) = bk_Subscribe callback_id callback b in (r, bs1(channel_name \<mapsto> (T, b1)))))"

definition mgr_Unsubscribe ::
  "nat \<Rightarrow> string \<Rightarrow> string \<Rightarrow> ('m, 'c) blocker_map \<Rightarrow> bool \<times> ('m, 'c) blocker_map" where
  "mgr_Unsubscribe T channel_name callback_id bs =
     (case GetBlocker T channel_name bs of
        None \<Rightarrow> (False, bs)
      | Some b \<Rightarrow> (let (r, b1) = bk_Unsubscribe callback_id b in (r, bs(channel_name \<mapsto> (T, b1)))))"

definition mgr_Observe :: "('m, 'c) blocker_map \<Rightarrow> ('m, 'c) blocker_map" where
  "mgr_Observe bs = (\<lambda>n. map_option (map_prod id bk_Observe) (bs n))"

text \<open>\<open>Reset\<close> resets every blocker, for those who still hold one, and empties the table; the
  result is the table and the blockers it held.\<close>

definition mgr_Reset :: "('m, 'c) blocker_map \<Rightarrow> ('m, 'c) blocker_map \<times> ('m, 'c) blocker_map" where
  "mgr_Reset bs = (Map.empty, \<lambda>n. map_option (map_prod id bk_Reset) (bs n))"

datatype ('m, 'c) mgr_op =
    MPublish nat string 'm | MSubscribe nat string nat string 'c | MUnsubscribe nat string string | MObserve | MReset

fun mgr_apply :: "'m \<Rightarrow> ('m, 'c) mgr_op \<Rightarrow> ('m, 'c) blocker_map
    \<Rightarrow> (string \<times> string \<times> 'c \<times> 'm) list \<times> ('m, 'c) blocker_map" where
  "mgr_apply d (MPublish T ch m) bs =
     (let (r, calls, bs1) = mgr_Publish d T ch m bs in (map (Pair ch) calls, bs1))"
| "mgr_apply d (MSubscribe T ch n i c) bs = ([], snd (mgr_Subscribe d T ch n i c bs))"
| "mgr_apply d (MUnsubscribe T ch i) bs = ([], snd (mgr_Unsubscribe T ch i bs))"
| "mgr_apply d MObserve bs = ([], mgr_Observe bs)"
| "mgr_apply d MReset bs = ([], fst (mgr_Reset bs))"

primrec mgr_run :: "'m \<Rightarrow> ('m, 'c) mgr_op list \<Rightarrow> ('m, 'c) blocker_map
    \<Rightarrow> (string \<times> string \<times> 'c \<times> 'm) list \<times> ('m, 'c) blocker_map" where
  "mgr_run d [] bs = ([], bs)"
| "mgr_run d (x # xs) bs =
     (let (calls, bs1) = mgr_apply d x bs; (calls', bs2) = mgr_run d xs bs1 in (calls @ calls', bs2))"

text \<open>What one channel sees of the operations once its message type is \<open>T\<close>.\<close>

fun channel_op :: "nat \<Rightarrow> string \<Rightarrow> ('m, 'c) mgr_op \<Rightarrow> ('m, 'c) blocker_op list" where
  "channel_op T ch (MPublish T' ch' m) = (if T' = T \<and> ch' = ch then [Op_Publish m] else [])"
| "channel_op T ch (MSubscribe T' ch' n i c) = (if T' = T \<and> ch' = ch then [Op_Subscribe i c] else [])"
| "channel_op T ch (MUnsubscribe T' ch' i) = (if T' = T \<and> ch' = ch then [Op_Unsubscribe i] else [])"
| "channel_op T ch MObserve = [Op_Observe]"
| "channel_op T ch MReset = []"

definition channel_calls :: "string \<Rightarrow> (string \<times> string \<times> 'c \<times> 'm) list \<Rightarrow> (string \<times> 'c \<times> 'm) list" where
  "channel_calls ch calls = map snd (filter (\<lambda>e. fst e = ch) calls)"

lemma blocker_run_append:
  "blocker_run (xs @ ys) b =
     (let (c1, b1) = blocker_run xs b; (c2, b2) = blocker_run ys b1 in (c1 @ c2, b2))"
  by (induction xs arbitrary: b) (simp_all add: Let_def split: prod.splits)

lemma mgr_apply_channel:
  assumes "bs ch = Some (T, b)" "x \<noteq> MReset"
  shows "(channel_calls ch (fst (mgr_apply d x bs)), snd (mgr_apply d x bs) ch)
    = (fst (blocker_run (channel_op T ch x) b), Some (T, snd (blocker_run (channel_op T ch x) b)))"
proof (cases x)
  case (MPublish T' ch' m)
  then show ?thesis using assms(1)
    by (auto simp: mgr_Publish_def GetOrCreateBlocker_def BlockerAttr_of_def channel_calls_def Let_def comp_def
        split: prod.splits option.splits)
next
  case (MSubscribe T' ch' n i c)
  then show ?thesis using assms(1)
    by (auto simp: mgr_Subscribe_def GetOrCreateBlocker_def channel_calls_def Let_def split: prod.splits option.splits)
next
  case (MUnsubscribe T' ch' i)
  then show ?thesis using assms(1)
    by (auto simp: mgr_Unsubscribe_def GetBlocker_def channel_calls_def Let_def split: prod.splits option.splits)
qed (use assms in \<open>simp_all add: mgr_Observe_def channel_calls_def\<close>)

lemma mgr_run_channel:
  assumes "bs ch = Some (T, b)" "MReset \<notin> set xs"
  shows "(channel_calls ch (fst (mgr_run d xs bs)), snd (mgr_run d xs bs) ch)
    = (fst (blocker_run (concat (map (channel_op T ch) xs)) b),
       Some (T, snd (blocker_run (concat (map (channel_op T ch) xs)) b)))"
  using assms
proof (induction xs arbitrary: bs b)
  case Nil
  then show ?case by (simp add: channel_calls_def)
next
  case (Cons x xs)
  have ne: "x \<noteq> MReset" "MReset \<notin> set xs" using Cons.prems(2) by auto
  note a = mgr_apply_channel [where bs = bs and ch = ch and x = x and d = d, OF Cons.prems(1) ne(1)]
  from a have "snd (mgr_apply d x bs) ch = Some (T, snd (blocker_run (channel_op T ch x) b))" by simp
  from Cons.IH [where bs = "snd (mgr_apply d x bs)", OF this ne(2)] a show ?case
    by (simp add: channel_calls_def blocker_run_append Let_def split_beta)
qed

text \<open>The first user of a channel fixes its message type and its capacity: from then on, until a
  \<open>Reset\<close>, the channel behaves as one blocker fed with exactly the operations on that channel and of that
  type, whatever is done to other channels.  So a subscriber is called once, in order, for each message
  published while it is subscribed, the capacity asked for by a later subscriber is ignored, and
  operations of another type have no effect on the channel.\<close>

theorem first_user_fixes_channel:
  assumes "MReset \<notin> set xs" "snd (mgr_Subscribe dflt T ch n i c Map.empty) = bs"
  shows "\<exists>b. snd (mgr_run dflt xs bs) ch = Some (T, b) \<and>
    attr_capacity (bk_attr b) = n \<and>
    published_msg_queue b = take n (fst (fold spec_apply (concat (map (channel_op T ch) xs)) ([], []))) \<and>
    calls_of i (channel_calls ch (fst (mgr_run dflt xs bs)))
      = spec_calls i (Some c) (concat (map (channel_op T ch) xs))"
proof -
  let ?b = "snd (bk_Subscribe i c (blocker_construct dflt \<lparr> attr_capacity = n, attr_channel_name = ch \<rparr>))"
  let ?ops = "concat (map (channel_op T ch) xs)"
  have "bs ch = Some (T, ?b)"
    using assms(2) by (auto simp: mgr_Subscribe_def GetOrCreateBlocker_def Let_def split: prod.splits)
  note r = mgr_run_channel [where bs = bs and ch = ch and xs = xs and d = dflt, OF this assms(1)]
  have b: "blocker_rel ([], []) ?b" "published_callbacks ?b = [(i, c)]" "attr_capacity (bk_attr ?b) = n"
    by (simp_all add: blocker_rel_def blocker_construct_def bk_Subscribe_def)
  show ?thesis
    using r blocker_run_rel [OF b(1) prod.collapse [symmetric], of ?ops i] b
    by (simp add: blocker_rel_def)
qed

lemma first_user_fixes_channel_witness:
  "\<exists>b. snd (mgr_run 0 [MPublish 1 ''x'' 10, MPublish 2 ''x'' 11, MPublish 1 ''y'' 12, MSubscribe 1 ''x'' 9 ''b'' 8,
        MPublish 1 ''x'' (13 :: nat), MPublish 1 ''x'' 14]
      (snd (mgr_Subscribe 0 1 ''x'' 2 ''a'' (7 :: nat) Map.empty))) ''x'' = Some (1, b) \<and>
     published_msg_queue b = [14, 13]"
  using first_user_fixes_channel [of "[MPublish 1 ''x'' 10, MPublish 2 ''x'' 11, MPublish 1 ''y'' 12,
        MSubscribe 1 ''x'' 9 ''b'' (8 :: nat), MPublish 1 ''x'' (13 :: nat), MPublish 1 ''x'' 14]",
      OF _ refl, of 0 1 "''x''" 2 "''a''" 7]
  by (auto simp: numeral_2_eq_2 simp del: mgr_run.simps)

end
