(* ===== verification/ShmConf.thy ===== *)
theory ShmConf
  imports Prelude
begin

text \<open>
  Sizes of a shared memory segment (transport/shm/shm_conf.h/.cpp), its \<open>State\<close> (state.h/.cpp) and the lock
  of a \<open>Block\<close> (block.h/.cpp) as one process runs it.  The layout of a segment is that of segment.cpp and
  its two subclasses: the \<open>State\<close>, the array of blocks, then one buffer per block.
\<close>

section \<open>Sizes\<close>

definition EXTRA_SIZE :: u64 where "EXTRA_SIZE = 1024 * 4"
definition STATE_SIZE :: u64 where "STATE_SIZE = 1024"
definition BLOCK_SIZE :: u64 where "BLOCK_SIZE = 1024"
definition MESSAGE_INFO_SIZE :: u64 where "MESSAGE_INFO_SIZE = 1024"
definition BLOCK_NUM_16K :: u32 where "BLOCK_NUM_16K = 512"
definition MESSAGE_SIZE_16K :: u64 where "MESSAGE_SIZE_16K = 1024 * 16"
definition BLOCK_NUM_128K :: u32 where "BLOCK_NUM_128K = 128"
definition MESSAGE_SIZE_128K :: u64 where "MESSAGE_SIZE_128K = 1024 * 128"
definition BLOCK_NUM_1M :: u32 where "BLOCK_NUM_1M = 64"
definition MESSAGE_SIZE_1M :: u64 where "MESSAGE_SIZE_1M = 1024 * 1024"
definition BLOCK_NUM_8M :: u32 where "BLOCK_NUM_8M = 32"
definition MESSAGE_SIZE_8M :: u64 where "MESSAGE_SIZE_8M = 1024 * 1024 * 8"
definition BLOCK_NUM_16M :: u32 where "BLOCK_NUM_16M = 16"
definition MESSAGE_SIZE_16M :: u64 where "MESSAGE_SIZE_16M = 1024 * 1024 * 16"
definition BLOCK_NUM_MORE :: u32 where "BLOCK_NUM_MORE = 8"
definition MESSAGE_SIZE_MORE :: u64 where "MESSAGE_SIZE_MORE = 1024 * 1024 * 32"

named_theorems shm_sizes "the constants of a shared memory segment"

lemmas [shm_sizes] = EXTRA_SIZE_def STATE_SIZE_def BLOCK_SIZE_def MESSAGE_INFO_SIZE_def
  BLOCK_NUM_16K_def MESSAGE_SIZE_16K_def BLOCK_NUM_128K_def MESSAGE_SIZE_128K_def
  BLOCK_NUM_1M_def MESSAGE_SIZE_1M_def BLOCK_NUM_8M_def MESSAGE_SIZE_8M_def
  BLOCK_NUM_16M_def MESSAGE_SIZE_16M_def BLOCK_NUM_MORE_def MESSAGE_SIZE_MORE_def

record ShmConf =
  ceiling_msg_size :: u64
  block_buf_size :: u64
  block_num :: u64
  managed_shm_size :: u64

definition GetCeilingMessageSize :: "u64 \<Rightarrow> u64" where
  "GetCeilingMessageSize real_msg_size =
     (if real_msg_size \<le> MESSAGE_SIZE_16K then MESSAGE_SIZE_16K
      else if real_msg_size \<le> MESSAGE_SIZE_128K then MESSAGE_SIZE_128K
      else if real_msg_size \<le> MESSAGE_SIZE_1M then MESSAGE_SIZE_1M
      else if real_msg_size \<le> MESSAGE_SIZE_8M then MESSAGE_SIZE_8M
      else if real_msg_size \<le> MESSAGE_SIZE_16M then MESSAGE_SIZE_16M
      else MESSAGE_SIZE_MORE)"

definition GetBlockBufSize :: "u64 \<Rightarrow> u64" where
  "GetBlockBufSize ceiling = ceiling + MESSAGE_INFO_SIZE"

definition GetBlockNum :: "u64 \<Rightarrow> u64" where
  "GetBlockNum ceiling =
     ucast (if ceiling = MESSAGE_SIZE_16K then BLOCK_NUM_16K
      else if ceiling = MESSAGE_SIZE_128K then BLOCK_NUM_128K
      else if ceiling = MESSAGE_SIZE_1M then BLOCK_NUM_1M
      else if ceiling = MESSAGE_SIZE_8M then BLOCK_NUM_8M
      else if ceiling = MESSAGE_SIZE_16M then BLOCK_NUM_16M
      else if ceiling = MESSAGE_SIZE_MORE then BLOCK_NUM_MORE
      else 0)"

text \<open>\<open>Update\<close> overwrites all four members.\<close>

definition ShmConf_Update :: "u64 \<Rightarrow> ShmConf" where
  "ShmConf_Update real_msg_size =
     (let ceiling = GetCeilingMessageSize real_msg_size; buf = GetBlockBufSize ceiling; num = GetBlockNum ceiling
      in \<lparr> ceiling_msg_size = ceiling, block_buf_size = buf, block_num = num,
           managed_shm_size = EXTRA_SIZE + STATE_SIZE + (BLOCK_SIZE + buf) * num \<rparr>)"

definition ShmConf_construct :: ShmConf where
  "ShmConf_construct = ShmConf_Update MESSAGE_SIZE_16K"

text \<open>The sizes of the two classes on a 64 bit machine: each starts with a pointer to its virtual functions.\<close>

definition sizeof_State :: u64 where "sizeof_State = 32"
definition sizeof_Block :: u64 where "sizeof_Block = 32"

definition block_offset :: "u64 \<Rightarrow> u64" where
  "block_offset i = sizeof_State + i * sizeof_Block"

definition buf_offset :: "ShmConf \<Rightarrow> u64 \<Rightarrow> u64" where
  "buf_offset c i = sizeof_State + block_num c * sizeof_Block + i * block_buf_size c"

section \<open>ShmState and block\<close>

record ShmState =
  need_remap :: bool
  seq :: u32
  reference_count :: u32
  st_ceiling_msg_size :: u64

definition State_construct :: "u64 \<Rightarrow> ShmState" where
  "State_construct ceiling = \<lparr> need_remap = False, seq = 0, reference_count = 0, st_ceiling_msg_size = ceiling \<rparr>"

definition DecreaseReferenceCount :: "ShmState \<Rightarrow> ShmState" where
  "DecreaseReferenceCount s = (if reference_count s = 0 then s else s\<lparr> reference_count := reference_count s - 1 \<rparr>)"

definition IncreaseReferenceCount :: "ShmState \<Rightarrow> ShmState" where
  "IncreaseReferenceCount s = s\<lparr> reference_count := reference_count s + 1 \<rparr>"

definition FetchAddSeq :: "u32 \<Rightarrow> ShmState \<Rightarrow> u32 \<times> ShmState" where
  "FetchAddSeq diff s = (seq s, s\<lparr> seq := seq s + diff \<rparr>)"

record Block =
  blk_lock_num :: i32
  blk_msg_size :: u64
  blk_msg_info_size :: u64

definition KRWLockFree :: i32 where "KRWLockFree = 0"
definition KWriteExclusive :: i32 where "KWriteExclusive = -1"
definition KMaxTryLockTimes :: nat where "KMaxTryLockTimes = 5"

lemmas [shm_sizes] = KRWLockFree_def KWriteExclusive_def KMaxTryLockTimes_def

definition Block_construct :: Block where
  "Block_construct = \<lparr> blk_lock_num = KRWLockFree, blk_msg_size = 0, blk_msg_info_size = 0 \<rparr>"

text \<open>A weak exchange may fail although the value is the expected one: \<open>spurious\<close>.\<close>

definition TryLockForWrite :: "bool \<Rightarrow> Block \<Rightarrow> bool \<times> Block" where
  "TryLockForWrite spurious b =
     (if blk_lock_num b = KRWLockFree \<and> \<not> spurious then (True, b\<lparr> blk_lock_num := KWriteExclusive \<rparr>) else (False, b))"

text \<open>The loop of \<open>TryLockForRead\<close> with nobody else at the block; \<open>spurious t\<close> is for the attempt \<open>t\<close>.\<close>

function read_tries :: "(nat \<Rightarrow> bool) \<Rightarrow> nat \<Rightarrow> Block \<Rightarrow> bool \<times> Block" where
  "read_tries spurious try_times b =
     (if blk_lock_num b <s KRWLockFree then (False, b)
      else if \<not> spurious try_times then (True, b\<lparr> blk_lock_num := blk_lock_num b + 1 \<rparr>)
      else if try_times + 1 \<ge> KMaxTryLockTimes then (False, b)
      else read_tries spurious (try_times + 1) b)"
  by pat_completeness auto
termination by (relation "measure (\<lambda>(sp, t, b). KMaxTryLockTimes - t)") (auto simp: KMaxTryLockTimes_def)

declare read_tries.simps [simp del]

definition TryLockForRead :: "(nat \<Rightarrow> bool) \<Rightarrow> Block \<Rightarrow> bool \<times> Block" where
  "TryLockForRead spurious b = read_tries spurious 0 b"

definition ReleaseWriteLock :: "Block \<Rightarrow> Block" where
  "ReleaseWriteLock b = b\<lparr> blk_lock_num := blk_lock_num b + 1 \<rparr>"

definition ReleaseReadLock :: "Block \<Rightarrow> Block" where
  "ReleaseReadLock b = b\<lparr> blk_lock_num := blk_lock_num b - 1 \<rparr>"

section \<open>The layout\<close>

lemma ceiling_cases:
  "GetCeilingMessageSize m \<in> {MESSAGE_SIZE_16K, MESSAGE_SIZE_128K, MESSAGE_SIZE_1M, MESSAGE_SIZE_8M,
     MESSAGE_SIZE_16M, MESSAGE_SIZE_MORE}"
  by (simp add: GetCeilingMessageSize_def)

lemma conf_cases:
  obtains "ShmConf_Update m = \<lparr> ceiling_msg_size = 16384, block_buf_size = 17408, block_num = 512, managed_shm_size = 9442304 \<rparr>"
  | "ShmConf_Update m = \<lparr> ceiling_msg_size = 131072, block_buf_size = 132096, block_num = 128, managed_shm_size = 17044480 \<rparr>"
  | "ShmConf_Update m = \<lparr> ceiling_msg_size = 1048576, block_buf_size = 1049600, block_num = 64, managed_shm_size = 67245056 \<rparr>"
  | "ShmConf_Update m = \<lparr> ceiling_msg_size = 8388608, block_buf_size = 8389632, block_num = 32, managed_shm_size = 268506112 \<rparr>"
  | "ShmConf_Update m = \<lparr> ceiling_msg_size = 16777216, block_buf_size = 16778240, block_num = 16, managed_shm_size = 268473344 \<rparr>"
  | "ShmConf_Update m = \<lparr> ceiling_msg_size = 33554432, block_buf_size = 33555456, block_num = 8, managed_shm_size = 268456960 \<rparr>"
  using ceiling_cases [of m]
  by (auto simp: ShmConf_Update_def GetBlockBufSize_def GetBlockNum_def Let_def shm_sizes)

lemma Update_ceiling [simp]: "ShmConf_Update (ceiling_msg_size (ShmConf_Update m)) = ShmConf_Update m"
  by (cases rule: conf_cases [of m])
    (simp_all add: ShmConf_Update_def GetCeilingMessageSize_def GetBlockBufSize_def GetBlockNum_def Let_def shm_sizes)

lemma ceiling_enough: "m \<le> ceiling_msg_size (ShmConf_Update m) \<longleftrightarrow> m \<le> MESSAGE_SIZE_MORE"
  by (auto simp: ShmConf_Update_def GetCeilingMessageSize_def Let_def shm_sizes word_le_nat_alt)

text \<open>Byte offsets without wrap-around.\<close>

lemma buf_offset_nat:
  assumes "i < block_num (ShmConf_Update m)"
  defines "c \<equiv> ShmConf_Update m"
  shows "unat (buf_offset c i) = 32 + unat (block_num c) * 32 + unat i * unat (block_buf_size c)"
    and "unat (buf_offset c i) + unat (block_buf_size c) \<le> unat (managed_shm_size c)"
proof -
  have i: "unat i < unat (block_num c)" using assms by (simp add: word_less_nat_alt)
  have "unat (buf_offset c i) = 32 + unat (block_num c) * 32 + unat i * unat (block_buf_size c) \<and>
    unat (buf_offset c i) + unat (block_buf_size c) \<le> unat (managed_shm_size c)"
    using i unfolding c_def
    by (cases rule: conf_cases [of m])
      (auto simp: buf_offset_def sizeof_State_def sizeof_Block_def unat_word_ariths)
  then show "unat (buf_offset c i) = 32 + unat (block_num c) * 32 + unat i * unat (block_buf_size c)"
    and "unat (buf_offset c i) + unat (block_buf_size c) \<le> unat (managed_shm_size c)" by auto
qed


lemma msg_fits_iff:
  "unat m + 24 \<le> unat (block_buf_size (ShmConf_Update m)) \<longleftrightarrow> unat m \<le> 32 * 1024 * 1024 + 1000"
proof -
  have "unat m \<le> unat (ceiling_msg_size (ShmConf_Update m)) \<longleftrightarrow> unat m \<le> 32 * 1024 * 1024"
    using ceiling_enough [of m] by (simp add: word_le_nat_alt MESSAGE_SIZE_MORE_def)
  moreover have "\<not> unat m \<le> 32 * 1024 * 1024 \<Longrightarrow> ShmConf_Update m =
     \<lparr> ceiling_msg_size = 33554432, block_buf_size = 33555456, block_num = 8, managed_shm_size = 268456960 \<rparr>"
    by (simp add: ShmConf_Update_def GetCeilingMessageSize_def GetBlockBufSize_def GetBlockNum_def Let_def
        shm_sizes word_le_nat_alt)
  ultimately show ?thesis
    by (cases rule: conf_cases [of m]) (auto split: if_splits)
qed

lemma block_num_bounds:
  "0 < unat (block_num (ShmConf_Update m))" "unat (block_num (ShmConf_Update m)) \<le> 512"
  "unat (block_num (ShmConf_Update m)) dvd 2 ^ 32"
  by (cases rule: conf_cases [of m]; simp)+

text \<open>C32: The layout of a segment for messages of \<open>m\<close> bytes: the state, the blocks and the buffers lie inside the
  mapping, the state first, then the blocks, then the buffers, and no two blocks and no two buffers overlap; every size up to the ceiling leaves room for the 24 bytes of the message
  information; the ceiling covers \<open>m\<close> exactly up to 32 MB, and what \<open>Transmit\<close> copies stays inside its own
  buffer exactly up to 32 MB and 1000 bytes.\<close>

theorem segment_layout:
  assumes "c = ShmConf_Update m" "i < block_num c" "j < block_num c"
  shows "unat sizeof_State \<le> unat (block_offset i) \<and>
    (i \<noteq> j \<longrightarrow> unat (block_offset i) + unat sizeof_Block \<le> unat (block_offset j) \<or>
       unat (block_offset j) + unat sizeof_Block \<le> unat (block_offset i)) \<and>
    unat (block_offset j) + unat sizeof_Block \<le> unat (buf_offset c i) \<and>
    unat (buf_offset c i) + unat (block_buf_size c) \<le> unat (managed_shm_size c) \<and>
    (i \<noteq> j \<longrightarrow> unat (buf_offset c i) + unat (block_buf_size c) \<le> unat (buf_offset c j) \<or>
       unat (buf_offset c j) + unat (block_buf_size c) \<le> unat (buf_offset c i)) \<and>
    unat (ceiling_msg_size c) + 24 \<le> unat (block_buf_size c) \<and>
    (m \<le> ceiling_msg_size c \<longleftrightarrow> unat m \<le> 32 * 1024 * 1024) \<and>
    (unat m + 24 \<le> unat (block_buf_size c) \<longleftrightarrow> unat m \<le> 32 * 1024 * 1024 + 1000)"
proof (intro conjI impI)
  have i: "unat i < unat (block_num c)" and j: "unat j < unat (block_num c)"
    using assms by (simp_all add: word_less_nat_alt)
  have n: "unat (block_num c) \<le> 512" using block_num_bounds assms(1) by simp
  have o: "unat (buf_offset c i) = 32 + unat (block_num c) * 32 + unat i * unat (block_buf_size c)"
    "unat (buf_offset c j) = 32 + unat (block_num c) * 32 + unat j * unat (block_buf_size c)"
    using buf_offset_nat assms by blast+
  have bo: "unat (block_offset k) = 32 + unat k * 32" if "unat k < unat (block_num c)" for k
    using that n by (simp add: block_offset_def sizeof_State_def sizeof_Block_def unat_word_ariths)
  show "unat sizeof_State \<le> unat (block_offset i)" using bo [OF i] by (simp add: sizeof_State_def)
  show "unat (block_offset j) + unat sizeof_Block \<le> unat (buf_offset c i)"
    using j o bo [OF j] by (simp add: sizeof_Block_def)
  show "unat (buf_offset c i) + unat (block_buf_size c) \<le> unat (managed_shm_size c)"
    using buf_offset_nat assms by blast
  have step: "Suc a \<le> b \<Longrightarrow> a * k + k \<le> b * k" for a b k :: nat
    using mult_le_mono1 [of "Suc a" b k] by simp
  assume "i \<noteq> j"
  then have "Suc (unat i) \<le> unat j \<or> Suc (unat j) \<le> unat i"
    by (metis linorder_less_linear Suc_leI unat_inject_iff)
  then show "unat (buf_offset c i) + unat (block_buf_size c) \<le> unat (buf_offset c j) \<or>
       unat (buf_offset c j) + unat (block_buf_size c) \<le> unat (buf_offset c i)"
    using step [of "unat i" "unat j"] step [of "unat j" "unat i"] o by auto
  show "unat (block_offset i) + unat sizeof_Block \<le> unat (block_offset j) \<or>
       unat (block_offset j) + unat sizeof_Block \<le> unat (block_offset i)"
    using \<open>Suc (unat i) \<le> unat j \<or> Suc (unat j) \<le> unat i\<close> bo [OF i] bo [OF j] by (auto simp: sizeof_Block_def)
next
  show "unat (ceiling_msg_size c) + 24 \<le> unat (block_buf_size c)"
    unfolding assms(1) by (cases rule: conf_cases [of m]) simp_all
  show "m \<le> ceiling_msg_size c \<longleftrightarrow> unat m \<le> 32 * 1024 * 1024"
    using ceiling_enough [of m] assms(1) by (simp add: word_le_nat_alt MESSAGE_SIZE_MORE_def)
  show "unat m + 24 \<le> unat (block_buf_size c) \<longleftrightarrow> unat m \<le> 32 * 1024 * 1024 + 1000"
    using msg_fits_iff assms(1) by simp
qed

theorem segment_layout_witness:
  "32 \<le> unat (block_offset 3) \<and>
   (unat (block_offset 3) + 32 \<le> unat (block_offset 5) \<or> unat (block_offset 5) + 32 \<le> unat (block_offset 3)) \<and>
   (unat (buf_offset (ShmConf_Update 70000) 3) + 132096 \<le> unat (buf_offset (ShmConf_Update 70000) 5) \<or>
   unat (buf_offset (ShmConf_Update 70000) 5) + 132096 \<le> unat (buf_offset (ShmConf_Update 70000) 3))"
proof -
  have c: "ShmConf_Update 70000 =
    \<lparr> ceiling_msg_size = 131072, block_buf_size = 132096, block_num = 128, managed_shm_size = 17044480 \<rparr>"
    by (simp add: ShmConf_Update_def GetCeilingMessageSize_def GetBlockBufSize_def GetBlockNum_def Let_def shm_sizes)
  show ?thesis
    using segment_layout [OF refl, of 3 70000 5] by (simp add: c sizeof_State_def sizeof_Block_def)
qed

end
