(* ===== verification/ShmSegment.thy ===== *)
theory ShmSegment
  imports ShmConf Numerals "HOL-Library.AList" "HOL-Library.Monad_Syntax"
begin

text \<open>
  Shared memory segments (transport/shm/segment.h/.cpp, xsi_segment.h/.cpp, posix_segment.h/.cpp).  The
  operating system is a list of shared objects and the names they can be opened by: creating a name
  exclusively, opening one, mapping an object and removing a name, as the standards document these calls;
  whether a call fails is a parameter.  A removed name leaves the object to those who mapped it.  A
  result \<open>None\<close> is undefined behaviour (a null pointer or a block outside the array is used) or a loop that
  does not end.  A successful mapping is not at address 0, and placement new does not fail, so the tests
  for null after them are left out.
\<close>

section \<open>The operating system\<close>

datatype errno = EINVAL | EEXIST | EOTHER

datatype shm_name = XsiKey i32 | PosixName "u8 list"

text \<open>The contents of a shared object: \<open>so_mem\<close> holds the bytes of the buffers, by their offset.\<close>

record shm_obj =
  so_size :: u64
  so_state :: ShmState
  so_blocks :: "u64 \<Rightarrow> Block"
  so_mem :: "u64 \<Rightarrow> u8"

record shm_os =
  os_names :: "(shm_name \<times> nat) list"
  os_objs :: "shm_obj list"

record faults =
  fl_create :: "nat \<Rightarrow> errno option"
  fl_open :: bool
  fl_stat :: bool
  fl_truncate :: bool
  fl_attach :: bool
  fl_remove :: bool
  fl_cas_write :: "nat \<Rightarrow> bool"
  fl_cas_read :: "nat \<Rightarrow> bool"

definition no_faults :: faults where
  "no_faults = \<lparr> fl_create = (\<lambda>_. None), fl_open = False, fl_stat = False, fl_truncate = False, fl_attach = False,
     fl_remove = False, fl_cas_write = (\<lambda>_. False), fl_cas_read = (\<lambda>_. False) \<rparr>"

text \<open>A new object is filled with zeros.\<close>

definition zero_obj :: "u64 \<Rightarrow> shm_obj" where
  "zero_obj n = \<lparr> so_size = n, so_state = State_construct 0, so_blocks = (\<lambda>_. Block_construct), so_mem = (\<lambda>_. 0) \<rparr>"

definition os_create :: "shm_name \<Rightarrow> u64 \<Rightarrow> shm_os \<Rightarrow> nat \<times> shm_os" where
  "os_create name n os =
     (length (os_objs os), os\<lparr> os_names := (name, length (os_objs os)) # os_names os, os_objs := os_objs os @ [zero_obj n] \<rparr>)"

definition os_open :: "shm_name \<Rightarrow> shm_os \<Rightarrow> nat option" where
  "os_open name os = map_of (os_names os) name"

definition os_unlink :: "shm_name \<Rightarrow> shm_os \<Rightarrow> shm_os" where
  "os_unlink name os = os\<lparr> os_names := AList.delete name (os_names os) \<rparr>"

definition os_update :: "nat \<Rightarrow> (shm_obj \<Rightarrow> shm_obj) \<Rightarrow> shm_os \<Rightarrow> shm_os" where
  "os_update i f os = os\<lparr> os_objs := (os_objs os)[i := f (os_objs os ! i)] \<rparr>"

definition on_state :: "(ShmState \<Rightarrow> ShmState) \<Rightarrow> shm_obj \<Rightarrow> shm_obj" where
  "on_state f o1 = o1\<lparr> so_state := f (so_state o1) \<rparr>"

definition on_block :: "u64 \<Rightarrow> (Block \<Rightarrow> Block) \<Rightarrow> shm_obj \<Rightarrow> shm_obj" where
  "on_block i f o1 = o1\<lparr> so_blocks := (so_blocks o1)(i := f (so_blocks o1 i)) \<rparr>"

section \<open>The segment of a process\<close>

datatype managed = Unmapped | MapFailed | Mapped nat

text \<open>\<open>state_\<close> and \<open>blocks_\<close> name the object they point into; a buffer address is an object and an offset.\<close>

record segment =
  sm_init :: bool
  sm_conf :: ShmConf
  sm_channel :: u64
  sm_state :: "nat option"
  sm_blocks :: "nat option"
  sm_managed :: managed
  sm_bufs :: "u64 \<Rightarrow> (nat \<times> u64) option"

definition Segment_construct :: "u64 \<Rightarrow> segment" where
  "Segment_construct channel_id = \<lparr> sm_init = False, sm_conf = ShmConf_construct, sm_channel = channel_id,
     sm_state = None, sm_blocks = None, sm_managed = Unmapped, sm_bufs = (\<lambda>_. None) \<rparr>"

text \<open>The loop that enters the addresses of the buffers.\<close>

definition fill_bufs :: "nat \<Rightarrow> segment \<Rightarrow> segment" where
  "fill_bufs i s = s\<lparr> sm_bufs := (\<lambda>k. if k < block_num (sm_conf s) then Some (i, buf_offset (sm_conf s) k) else sm_bufs s k) \<rparr>"

text \<open>Constructing the blocks in place.\<close>

definition new_blocks :: "u64 \<Rightarrow> shm_obj \<Rightarrow> shm_obj" where
  "new_blocks n o1 = o1\<lparr> so_blocks := (\<lambda>k. if k < n then Block_construct else so_blocks o1 k) \<rparr>"

subsection \<open>System V\<close>

definition Xsi_name :: "u64 \<Rightarrow> shm_name" where "Xsi_name channel_id = XsiKey (ucast channel_id)"

definition Xsi_Reset :: "segment \<Rightarrow> segment" where
  "Xsi_Reset s = s\<lparr> sm_state := None, sm_blocks := None, sm_bufs := (\<lambda>_. None), sm_managed := Unmapped \<rparr>"

definition Xsi_Remove :: "faults \<Rightarrow> segment \<Rightarrow> shm_os \<Rightarrow> bool \<times> shm_os" where
  "Xsi_Remove flt s os =
     (if os_open (Xsi_name (sm_channel s)) os = None \<or> fl_open flt \<or> fl_remove flt then (False, os)
      else (True, os_unlink (Xsi_name (sm_channel s)) os))"

definition Xsi_OpenOnly :: "faults \<Rightarrow> segment \<times> shm_os \<Rightarrow> bool \<times> segment \<times> shm_os" where
  "Xsi_OpenOnly flt = (\<lambda>(s, os).
     if sm_init s then (True, s, os)
     else case os_open (Xsi_name (sm_channel s)) os of
            None \<Rightarrow> (False, s, os)
          | Some i \<Rightarrow>
              (if fl_open flt then (False, s, os)
               else if fl_attach flt then (False, s\<lparr> sm_managed := MapFailed \<rparr>, os)
               else
                 (let s1 = s\<lparr> sm_managed := Mapped i, sm_state := Some i \<rparr>;
                      s2 = s1\<lparr> sm_conf := ShmConf_Update (st_ceiling_msg_size (so_state (os_objs os ! i))), sm_blocks := Some i \<rparr>;
                      s3 = fill_bufs i s2
                  in (True, s3\<lparr> sm_init := True \<rparr>, os_update i (on_state IncreaseReferenceCount) os))))"

datatype shmget_result = ShmGot nat | ShmExists | ShmFailed

function xsi_shmget :: "faults \<Rightarrow> nat \<Rightarrow> segment \<times> shm_os \<Rightarrow> shmget_result \<times> segment \<times> shm_os" where
  "xsi_shmget flt retry (s, os) =
     (if \<not> retry < 2 then (ShmFailed, s, os)
      else if os_open (Xsi_name (sm_channel s)) os \<noteq> None then (ShmExists, s, os)
      else case fl_create flt retry of
             None \<Rightarrow> (case os_create (Xsi_name (sm_channel s)) (managed_shm_size (sm_conf s)) os of (i, os1) \<Rightarrow> (ShmGot i, s, os1))
           | Some EINVAL \<Rightarrow> xsi_shmget flt (retry + 1) (Xsi_Reset s, snd (Xsi_Remove flt (Xsi_Reset s) os))
           | Some EEXIST \<Rightarrow> (ShmExists, s, os)
           | Some EOTHER \<Rightarrow> (ShmFailed, s, os))"
  by pat_completeness auto
termination by (relation "measure (\<lambda>(flt, retry, s). 2 - retry)") auto

declare xsi_shmget.simps [simp del]

definition Xsi_OpenOrCreate :: "faults \<Rightarrow> segment \<times> shm_os \<Rightarrow> bool \<times> segment \<times> shm_os" where
  "Xsi_OpenOrCreate flt = (\<lambda>(s, os).
     if sm_init s then (True, s, os)
     else case xsi_shmget flt 0 (s, os) of
            (ShmExists, s1, os1) \<Rightarrow> Xsi_OpenOnly flt (s1, os1)
          | (ShmFailed, s1, os1) \<Rightarrow> (False, s1, os1)
          | (ShmGot i, s1, os1) \<Rightarrow>
              (if fl_attach flt then (False, s1\<lparr> sm_managed := MapFailed \<rparr>, os_unlink (Xsi_name (sm_channel s1)) os1)
               else
                 (let s2 = s1\<lparr> sm_managed := Mapped i, sm_state := Some i \<rparr>;
                      os2 = os_update i (on_state (\<lambda>_. State_construct (ceiling_msg_size (sm_conf s2)))) os1;
                      s3 = s2\<lparr> sm_conf := ShmConf_Update (st_ceiling_msg_size (so_state (os_objs os2 ! i))), sm_blocks := Some i \<rparr>;
                      os3 = os_update i (new_blocks (block_num (sm_conf s3))) os2;
                      s4 = fill_bufs i s3
                  in (True, s4\<lparr> sm_init := True \<rparr>, os_update i (on_state IncreaseReferenceCount) os3))))"

subsection \<open>POSIX\<close>

definition Posix_name :: "u64 \<Rightarrow> shm_name" where "Posix_name channel_id = PosixName (to_string (uint channel_id))"

definition Posix_Reset :: "segment \<Rightarrow> segment" where
  "Posix_Reset s = s\<lparr> sm_state := None, sm_blocks := None, sm_bufs := (\<lambda>_. None), sm_managed := Unmapped \<rparr>"

definition Posix_Remove :: "faults \<Rightarrow> segment \<Rightarrow> shm_os \<Rightarrow> bool \<times> shm_os" where
  "Posix_Remove flt s os =
     (if os_open (Posix_name (sm_channel s)) os = None \<or> fl_remove flt then (False, os)
      else (True, os_unlink (Posix_name (sm_channel s)) os))"

text \<open>Mapping an object of size 0 fails.\<close>

definition Posix_OpenOnly :: "faults \<Rightarrow> segment \<times> shm_os \<Rightarrow> bool \<times> segment \<times> shm_os" where
  "Posix_OpenOnly flt = (\<lambda>(s, os).
     if sm_init s then (True, s, os)
     else case os_open (Posix_name (sm_channel s)) os of
            None \<Rightarrow> (False, s, os)
          | Some i \<Rightarrow>
              (if fl_open flt \<or> fl_stat flt then (False, s, os)
               else if fl_attach flt \<or> so_size (os_objs os ! i) = 0 then (False, s\<lparr> sm_managed := MapFailed \<rparr>, os)
               else
                 (let s1 = s\<lparr> sm_managed := Mapped i, sm_state := Some i \<rparr>;
                      s2 = s1\<lparr> sm_conf := ShmConf_Update (st_ceiling_msg_size (so_state (os_objs os ! i))), sm_blocks := Some i \<rparr>;
                      s3 = fill_bufs i s2
                  in (True, s3\<lparr> sm_init := True \<rparr>, os_update i (on_state IncreaseReferenceCount) os))))"

definition Posix_OpenOrCreate :: "faults \<Rightarrow> segment \<times> shm_os \<Rightarrow> bool \<times> segment \<times> shm_os" where
  "Posix_OpenOrCreate flt = (\<lambda>(s, os).
     let name = Posix_name (sm_channel s)
     in if sm_init s then (True, s, os)
        else if os_open name os \<noteq> None \<or> fl_create flt 0 = Some EEXIST then Posix_OpenOnly flt (s, os)
        else if fl_create flt 0 \<noteq> None then (False, s, os)
        else case os_create name 0 os of
               (i, os1) \<Rightarrow>
                 (if fl_truncate flt then (False, s, os1)
                  else if fl_attach flt then (False, s\<lparr> sm_managed := MapFailed \<rparr>, os_unlink name os1)
                  else
                    (let os2 = os_update i (\<lambda>o1. o1\<lparr> so_size := managed_shm_size (sm_conf s) \<rparr>) os1;
                         s1 = s\<lparr> sm_managed := Mapped i, sm_state := Some i, sm_blocks := Some i \<rparr>;
                         os3 = os_update i (on_state (\<lambda>_. State_construct (ceiling_msg_size (sm_conf s1)))) os2;
                         os4 = os_update i (new_blocks (block_num (sm_conf s1))) os3;
                         s2 = fill_bufs i s1
                     in (True, s2\<lparr> sm_init := True \<rparr>, os_update i (on_state IncreaseReferenceCount) os4))))"

section \<open>The operations of the base class\<close>

text \<open>The virtual functions a subclass provides.\<close>

record backend =
  be_Reset :: "segment \<Rightarrow> segment"
  be_Remove :: "faults \<Rightarrow> segment \<Rightarrow> shm_os \<Rightarrow> bool \<times> shm_os"
  be_OpenOnly :: "faults \<Rightarrow> segment \<times> shm_os \<Rightarrow> bool \<times> segment \<times> shm_os"
  be_OpenOrCreate :: "faults \<Rightarrow> segment \<times> shm_os \<Rightarrow> bool \<times> segment \<times> shm_os"

definition XsiSegment :: backend where
  "XsiSegment = \<lparr> be_Reset = Xsi_Reset, be_Remove = Xsi_Remove, be_OpenOnly = Xsi_OpenOnly, be_OpenOrCreate = Xsi_OpenOrCreate \<rparr>"

definition PosixSegment :: backend where
  "PosixSegment = \<lparr> be_Reset = Posix_Reset, be_Remove = Posix_Remove, be_OpenOnly = Posix_OpenOnly,
     be_OpenOrCreate = Posix_OpenOrCreate \<rparr>"

record WritableBlock =
  wb_index :: u32
  wb_block :: "(nat \<times> u64) option"
  wb_buf :: "(nat \<times> u64) option"

definition Remap :: "backend \<Rightarrow> faults \<Rightarrow> segment \<times> shm_os \<Rightarrow> bool \<times> segment \<times> shm_os" where
  "Remap be flt = (\<lambda>(s, os). be_OpenOnly be flt (be_Reset be (s\<lparr> sm_init := False \<rparr>), os))"

definition Recreate :: "backend \<Rightarrow> faults \<Rightarrow> u64 \<Rightarrow> segment \<times> shm_os \<Rightarrow> (bool \<times> segment \<times> shm_os) option" where
  "Recreate be flt msg_size = (\<lambda>(s, os).
     do {
       i \<leftarrow> sm_state s;
       let os1 = os_update i (on_state (\<lambda>st. st\<lparr> need_remap := True \<rparr>)) os;
       let s1 = be_Reset be (s\<lparr> sm_init := False \<rparr>);
       let os2 = snd (be_Remove be flt s1 os1);
       Some (be_OpenOrCreate be flt (s1\<lparr> sm_conf := ShmConf_Update msg_size \<rparr>, os2))
     })"

definition Destory :: "backend \<Rightarrow> faults \<Rightarrow> segment \<times> shm_os \<Rightarrow> (bool \<times> segment \<times> shm_os) option" where
  "Destory be flt = (\<lambda>(s, os).
     if \<not> sm_init s then Some (True, s, os)
     else do {
       let s1 = s\<lparr> sm_init := False \<rparr>;
       i \<leftarrow> sm_state s1;
       let os1 = os_update i (on_state DecreaseReferenceCount) os;
       if reference_count (so_state (os_objs os1 ! i)) = 0
       then (let (r, os2) = be_Remove be flt s1 os1 in Some (r, s1, os2))
       else Some (True, s1, os1)
     })"

text \<open>The array of blocks of an object has the length its ceiling gives.\<close>

definition valid_block :: "shm_obj \<Rightarrow> u64 \<Rightarrow> bool" where
  "valid_block o1 i \<longleftrightarrow> i < GetBlockNum (st_ceiling_msg_size (so_state o1))"

text \<open>\<open>GetNextWritableBlockIndex\<close> tries one block after another until one is free, \<open>t\<close> counts the tries.\<close>

partial_function (option) next_writable :: "(nat \<Rightarrow> bool) \<Rightarrow> nat \<Rightarrow> u64 \<Rightarrow> shm_obj \<Rightarrow> (u32 \<times> shm_obj) option" where
  "next_writable spurious t n o1 =
     (let (v, st) = FetchAddSeq 1 (so_state o1); o2 = o1\<lparr> so_state := st \<rparr>; i = (ucast v :: u64) mod n
      in if \<not> valid_block o2 i then None
         else
           (let (locked, b) = TryLockForWrite (spurious t) (so_blocks o2 i)
            in if locked then Some (ucast i, on_block i (\<lambda>_. b) o2) else next_writable spurious (Suc t) n o2))"

declare next_writable.simps [code]

text \<open>The last part of \<open>AcquireBlockToWrite\<close>.\<close>

definition take_writable :: "faults \<Rightarrow> segment \<times> shm_os \<Rightarrow> (WritableBlock option \<times> segment \<times> shm_os) option" where
  "take_writable flt = (\<lambda>(s, os). do {
     j \<leftarrow> sm_state s;
     (index, o1) \<leftarrow> next_writable (fl_cas_write flt) 0 (block_num (sm_conf s)) (os_objs os ! j);
     b \<leftarrow> sm_blocks s;
     Some (Some \<lparr> wb_index = index, wb_block = Some (b, ucast index), wb_buf = sm_bufs s (ucast index) \<rparr>,
       s, os_update j (\<lambda>_. o1) os) })"

definition AcquireBlockToWrite ::
  "backend \<Rightarrow> faults \<Rightarrow> u64 \<Rightarrow> segment \<times> shm_os \<Rightarrow> (WritableBlock option \<times> segment \<times> shm_os) option" where
  "AcquireBlockToWrite be flt msg_size = (\<lambda>(s, os).
     do {
       let (opened, s1, os1) = (if sm_init s then (True, s, os) else be_OpenOrCreate be flt (s, os));
       if \<not> opened then Some (None, s1, os1)
       else do {
         i \<leftarrow> sm_state s1;
         let (result, s2, os2) = (if need_remap (so_state (os_objs os1 ! i)) then Remap be flt (s1, os1) else (True, s1, os1));
         (result, s3, os3) \<leftarrow> (if ceiling_msg_size (sm_conf s2) < msg_size then Recreate be flt msg_size (s2, os2)
                               else Some (result, s2, os2));
         if \<not> result then Some (None, s3, os3) else take_writable flt (s3, os3)
       }
     })"

text \<open>\<open>blocks_[i]\<close> of the segment.\<close>

definition with_block :: "segment \<Rightarrow> u64 \<Rightarrow> (Block \<Rightarrow> 'a \<times> Block) \<Rightarrow> shm_os \<Rightarrow> ('a \<times> shm_os) option" where
  "with_block s i f os =
     do {
       b \<leftarrow> sm_blocks s;
       if valid_block (os_objs os ! b) i
       then (let (r, blk) = f (so_blocks (os_objs os ! b) i) in Some (r, os_update b (on_block i (\<lambda>_. blk)) os))
       else None
     }"

definition ReleaseWrittenBlock :: "WritableBlock \<Rightarrow> segment \<times> shm_os \<Rightarrow> (segment \<times> shm_os) option" where
  "ReleaseWrittenBlock wb = (\<lambda>(s, os).
     if block_num (sm_conf s) \<le> ucast (wb_index wb) then Some (s, os)
     else do { (_, os1) \<leftarrow> with_block s (ucast (wb_index wb)) (\<lambda>b. ((), ReleaseWriteLock b)) os; Some (s, os1) })"

definition AcquireBlockToRead ::
  "backend \<Rightarrow> faults \<Rightarrow> u32 \<Rightarrow> segment \<times> shm_os \<Rightarrow> (WritableBlock option \<times> segment \<times> shm_os) option" where
  "AcquireBlockToRead be flt index = (\<lambda>(s, os).
     do {
       let (opened, s1, os1) = (if sm_init s then (True, s, os) else be_OpenOrCreate be flt (s, os));
       if \<not> opened then Some (None, s1, os1)
       else if block_num (sm_conf s1) \<le> ucast index then Some (None, s1, os1)
       else do {
         i \<leftarrow> sm_state s1;
         let (result, s2, os2) = (if need_remap (so_state (os_objs os1 ! i)) then Remap be flt (s1, os1) else (True, s1, os1));
         if \<not> result then Some (None, s2, os2)
         else do {
           (locked, os3) \<leftarrow> with_block s2 (ucast index) (TryLockForRead (fl_cas_read flt)) os2;
           if \<not> locked then Some (None, s2, os3)
           else do {
             b \<leftarrow> sm_blocks s2;
             Some (Some \<lparr> wb_index = index, wb_block = Some (b, ucast index), wb_buf = sm_bufs s2 (ucast index) \<rparr>, s2, os3)
           }
         }
       }
     })"

definition ReleaseReadableBlock :: "WritableBlock \<Rightarrow> segment \<times> shm_os \<Rightarrow> (segment \<times> shm_os) option" where
  "ReleaseReadableBlock rb = (\<lambda>(s, os).
     if block_num (sm_conf s) \<le> ucast (wb_index rb) then Some (s, os)
     else do { (_, os1) \<leftarrow> with_block s (ucast (wb_index rb)) (\<lambda>b. ((), ReleaseReadLock b)) os; Some (s, os1) })"

end
