(* ===== verification/ShmSegmentProps.thy ===== *)
theory ShmSegmentProps
  imports ShmSegment
begin

text \<open>
  Lemmas on shared memory segments: the search for a free block; what the two subclasses promise the base
  class (a locale, interpreted on both); the invariant that an initialised segment maps a whole object
  with the layout of its size, whatever calls fail and whatever other processes do.
\<close>

section \<open>The search for a free block\<close>

lemma valid_block_seq [simp]: "valid_block (o1\<lparr> so_state := (so_state o1)\<lparr> seq := v \<rparr> \<rparr>) i = valid_block o1 i"
  by (simp add: valid_block_def)

definition try_index :: "u64 \<Rightarrow> shm_obj \<Rightarrow> nat \<Rightarrow> u64" where
  "try_index n o1 k = ucast (seq (so_state o1) + of_nat k) mod n"

definition seq_at :: "nat \<Rightarrow> shm_obj \<Rightarrow> shm_obj" where
  "seq_at k o1 = o1\<lparr> so_state := (so_state o1)\<lparr> seq := seq (so_state o1) + of_nat k \<rparr> \<rparr>"

definition blk_free :: "shm_obj \<Rightarrow> u64 \<Rightarrow> bool" where
  "blk_free o1 i \<longleftrightarrow> blk_lock_num (so_blocks o1 i) = KRWLockFree"

definition write_locked :: "u64 \<Rightarrow> shm_obj \<Rightarrow> shm_obj" where
  "write_locked i o1 = on_block i (\<lambda>b. b\<lparr> blk_lock_num := KWriteExclusive \<rparr>) o1"

text \<open>Every result takes a free block, whatever exchanges fail.\<close>

lemma seq_at_frame [simp]: "valid_block (seq_at k o1) i = valid_block o1 i" "blk_free (seq_at k o1) i = blk_free o1 i"
  by (simp_all add: seq_at_def valid_block_def blk_free_def)

definition next_result :: "u64 \<Rightarrow> shm_obj \<Rightarrow> u32 \<times> shm_obj \<Rightarrow> bool" where
  "next_result n o1 y \<longleftrightarrow>
     (\<exists>k. y = (ucast (try_index n o1 k), write_locked (try_index n o1 k) (seq_at (Suc k) o1)) \<and>
        valid_block o1 (try_index n o1 k) \<and> blk_free o1 (try_index n o1 k))"

lemma next_result_later:
  assumes "next_result n (seq_at 1 o1) y"
  shows "next_result n o1 y"
proof -
  obtain k where k: "y = (ucast (try_index n (seq_at 1 o1) k), write_locked (try_index n (seq_at 1 o1) k) (seq_at (Suc k) (seq_at 1 o1)))"
    "valid_block (seq_at 1 o1) (try_index n (seq_at 1 o1) k)" "blk_free (seq_at 1 o1) (try_index n (seq_at 1 o1) k)"
    using assms by (auto simp: next_result_def)
  have "try_index n (seq_at 1 o1) k = try_index n o1 (Suc k)" by (simp add: try_index_def seq_at_def add.assoc)
  moreover have "seq_at (Suc k) (seq_at 1 o1) = seq_at (Suc (Suc k)) o1" by (simp add: seq_at_def add.assoc)
  ultimately show ?thesis using k
    unfolding next_result_def by auto
qed

lemma next_writable_turn:
  "next_writable spurious t n o1 =
     (let i = try_index n o1 0
      in if \<not> valid_block o1 i then None
         else if blk_free o1 i \<and> \<not> spurious t then Some (ucast i, write_locked i (seq_at 1 o1))
         else next_writable spurious (Suc t) n (seq_at 1 o1))"
  by (subst next_writable.simps)
    (simp add: FetchAddSeq_def Let_def TryLockForWrite_def try_index_def seq_at_def blk_free_def write_locked_def
      on_block_def valid_block_def split: prod.splits)

lemma next_writable_result: "next_writable spurious t n o1 = Some y \<Longrightarrow> next_result n o1 y"
proof (erule next_writable.raw_induct [rotated])
  fix f :: "(nat \<Rightarrow> bool) \<Rightarrow> nat \<Rightarrow> u64 \<Rightarrow> shm_obj \<Rightarrow> (u32 \<times> shm_obj) option" and sp t n o1 y
  assume ih: "\<And>sp t n o1 y. f sp t n o1 = Some y \<Longrightarrow> next_result n o1 y"
    and f: "(let (v, st) = FetchAddSeq 1 (so_state o1); o2 = o1\<lparr>so_state := st\<rparr>; i = (ucast v :: u64) mod n
      in if \<not> valid_block o2 i then None
         else let (locked, b) = TryLockForWrite (sp t) (so_blocks o2 i)
              in if locked then Some (ucast i, on_block i (\<lambda>_. b) o2) else f sp (Suc t) n o2) = Some y"
  let ?i = "try_index n o1 0"
  have v: "valid_block o1 ?i"
    using f by (auto simp: FetchAddSeq_def Let_def try_index_def split: if_splits)
  show "next_result n o1 y"
  proof (cases "blk_free o1 ?i \<and> \<not> sp t")
    case True
    then have "y = (ucast ?i, write_locked ?i (seq_at (Suc 0) o1)) \<and> valid_block o1 ?i \<and> blk_free o1 ?i"
      using f v
      by (auto simp: FetchAddSeq_def Let_def TryLockForWrite_def blk_free_def write_locked_def on_block_def
          try_index_def seq_at_def)
    then show ?thesis unfolding next_result_def by blast
  next
    case False
    then have "f sp (Suc t) n (seq_at 1 o1) = Some y"
      using f v
      by (auto simp: FetchAddSeq_def Let_def TryLockForWrite_def blk_free_def try_index_def seq_at_def split: if_splits)
    then show ?thesis using next_result_later ih by blast
  qed
qed

lemma try_index_seq_at [simp]: "try_index n (seq_at 1 o1) k = try_index n o1 (Suc k)"
  "seq_at k (seq_at 1 o1) = seq_at (Suc k) o1"
  by (simp_all add: try_index_def seq_at_def add.assoc)

text \<open>The attempts up to the \<open>d\<close>-th fail, on locked blocks or spuriously, and the \<open>d\<close>-th succeeds.\<close>

lemma next_writable_found:
  assumes "\<forall>l \<le> d. valid_block o1 (try_index n o1 l)" "\<forall>l < d. blk_free o1 (try_index n o1 l) \<longrightarrow> sp (t + l)"
    and "blk_free o1 (try_index n o1 d)" "\<not> sp (t + d)"
  shows "next_writable sp t n o1 = Some (ucast (try_index n o1 d), write_locked (try_index n o1 d) (seq_at (Suc d) o1))"
  using assms
proof (induction d arbitrary: o1 t)
  case 0
  then show ?case by (subst next_writable_turn) (simp add: Let_def)
next
  case (Suc d)
  have "\<forall>l \<le> d. valid_block (seq_at 1 o1) (try_index n (seq_at 1 o1) l)" using Suc.prems(1) by (auto simp del: One_nat_def)
  moreover have "\<forall>l < d. blk_free (seq_at 1 o1) (try_index n (seq_at 1 o1) l) \<longrightarrow> sp (Suc t + l)"
    using Suc.prems(2) by (auto simp del: One_nat_def)
  ultimately have "next_writable sp (Suc t) n (seq_at 1 o1)
      = Some (ucast (try_index n o1 (Suc d)), write_locked (try_index n o1 (Suc d)) (seq_at (Suc (Suc d)) o1))"
    using Suc.IH [of "seq_at 1 o1" "Suc t"] Suc.prems(3,4) by (simp del: One_nat_def)
  moreover have "valid_block o1 (try_index n o1 0)" "\<not> (blk_free o1 (try_index n o1 0) \<and> \<not> sp t)"
    using Suc.prems(1,2) by fastforce+
  ultimately show ?case by (subst next_writable_turn) (auto simp: Let_def simp del: One_nat_def)
qed

lemma next_writable_first:
  assumes "\<forall>l \<le> d. valid_block o1 (try_index n o1 l)" "\<forall>l < d. \<not> blk_free o1 (try_index n o1 l)"
    and "blk_free o1 (try_index n o1 d)"
  shows "next_writable (\<lambda>_. False) t n o1 = Some (ucast (try_index n o1 d), write_locked (try_index n o1 d) (seq_at (Suc d) o1))"
  using next_writable_found assms by simp

text \<open>A search that returns made an attempt that could succeed.\<close>

lemma next_writable_honest:
  "next_writable sp t n o1 = Some y \<Longrightarrow> \<exists>k. blk_free o1 (try_index n o1 k) \<and> \<not> sp (t + k)"
proof (erule next_writable.raw_induct [rotated])
  fix f :: "(nat \<Rightarrow> bool) \<Rightarrow> nat \<Rightarrow> u64 \<Rightarrow> shm_obj \<Rightarrow> (u32 \<times> shm_obj) option" and sp t n o1 y
  assume ih: "\<And>sp t n o1 y. f sp t n o1 = Some y \<Longrightarrow> \<exists>k. blk_free o1 (try_index n o1 k) \<and> \<not> sp (t + k)"
    and f: "(let (v, st) = FetchAddSeq 1 (so_state o1); o2 = o1\<lparr>so_state := st\<rparr>; i = (ucast v :: u64) mod n
      in if \<not> valid_block o2 i then None
         else let (locked, b) = TryLockForWrite (sp t) (so_blocks o2 i)
              in if locked then Some (ucast i, on_block i (\<lambda>_. b) o2) else f sp (Suc t) n o2) = Some y"
  show "\<exists>k. blk_free o1 (try_index n o1 k) \<and> \<not> sp (t + k)"
  proof (cases "blk_free o1 (try_index n o1 0) \<and> \<not> sp t")
    case True
    then show ?thesis by (intro exI [of _ 0]) simp
  next
    case False
    then have "f sp (Suc t) n (seq_at 1 o1) = Some y"
      using f by (auto simp: FetchAddSeq_def Let_def TryLockForWrite_def blk_free_def try_index_def seq_at_def split: if_splits)
    from ih [OF this] obtain k where "blk_free o1 (try_index n o1 (Suc k))" "\<not> sp (t + Suc k)" by (auto simp del: One_nat_def)
    then show ?thesis by blast
  qed
qed

lemma unat_try_index:
  assumes "unat n dvd 2 ^ 32"
  shows "unat (try_index n o1 k) = (unat (seq (so_state o1)) + k) mod unat n"
proof -
  have "unat (ucast (seq (so_state o1) + of_nat k) :: u64) = (unat (seq (so_state o1)) + k) mod 2 ^ 32"
    by (simp add: unsigned_ucast_eq unat_word_ariths unat_of_nat take_bit_eq_mod mod_simps)
  then show ?thesis using assms by (simp add: try_index_def unat_mod mod_mod_cancel)
qed

lemma try_index_covers:
  assumes "unat n dvd 2 ^ 32" "i < n"
  shows "\<exists>k < unat n. try_index n o1 k = i"
proof -
  let ?s = "unat (seq (so_state o1))" let ?n = "unat n"
  have i: "unat i < ?n" using assms(2) by (simp add: word_less_nat_alt)
  let ?k = "(unat i + ?n - ?s mod ?n) mod ?n"
  have "(?s + ?k) mod ?n = (?s mod ?n + (unat i + ?n - ?s mod ?n)) mod ?n" by (simp add: mod_simps)
  also have "?s mod ?n + (unat i + ?n - ?s mod ?n) = unat i + ?n"
    using i mod_less_divisor [of ?n ?s] by linarith
  also have "(unat i + ?n) mod ?n = unat i" using i by simp
  finally have "try_index n o1 ?k = i" by (simp add: unat_inject_iff unat_try_index [OF assms(1)])
  then show ?thesis using i by (intro exI [of _ ?k]) simp
qed

lemma ucast_try_index:
  assumes "n = block_num (ShmConf_Update m)"
  shows "ucast (ucast (try_index n o1 k) :: u32) = try_index n o1 k"
proof -
  have n: "unat n dvd 2 ^ 32" "0 < unat n" "unat n \<le> 512" using block_num_bounds assms by simp_all
  have "unat (try_index n o1 k) < 2 ^ 32"
    using mod_less_divisor [OF n(2), of "unat (seq (so_state o1)) + k"] n(3) by (simp add: unat_try_index [OF n(1)])
  then show ?thesis by (simp add: unat_inject_iff unsigned_ucast_eq unsigned_take_bit_eq take_bit_nat_eq_self)
qed

text \<open>C33: The search for a block to write to, while no other process locks or unlocks a block: attempt \<open>k\<close> looks at
  the \<open>k\<close>-th block from the running number on, and \<open>sp\<close> says which exchanges fail spuriously.  The search loops for
  ever exactly when no attempt is at a free block and does not fail spuriously; otherwise it takes the block of the first such
  attempt, locks it for writing and leaves the others alone.  If no exchange of one round fails spuriously, it returns
  within that round when some block is free.\<close>

theorem writable_block_found:
  assumes "n = block_num (ShmConf_Update m)"
    and "st_ceiling_msg_size (so_state o1) = ceiling_msg_size (ShmConf_Update m)"
  shows "(next_writable sp t n o1 = None \<longleftrightarrow> (\<forall>k. blk_free o1 (try_index n o1 k) \<longrightarrow> sp (t + k))) \<and>
    (\<forall>j o2. next_writable sp t n o1 = Some (j, o2) \<longrightarrow>
      (\<exists>k. ucast j = try_index n o1 k \<and> (\<forall>l < k. blk_free o1 (try_index n o1 l) \<longrightarrow> sp (t + l)) \<and>
         blk_free o1 (try_index n o1 k) \<and> \<not> sp (t + k) \<and> o2 = write_locked (try_index n o1 k) (seq_at (Suc k) o1) \<and>
         ((\<forall>l < unat n. \<not> sp (t + l)) \<and> (\<exists>i < n. blk_free o1 i) \<longrightarrow> k < unat n)))"
proof -
  have n: "unat n dvd 2 ^ 32" "0 < unat n" using block_num_bounds assms(1) by simp_all
  have nb: "GetBlockNum (st_ceiling_msg_size (so_state o1)) = n"
    unfolding assms by (simp add: ShmConf_Update_def Let_def)
  have valid: "valid_block o1 (try_index n o1 k)" for k
    using n by (simp add: valid_block_def nb word_less_nat_alt unat_try_index)
  let ?ok = "\<lambda>k. blk_free o1 (try_index n o1 k) \<and> \<not> sp (t + k)"
  show ?thesis
  proof (cases "\<exists>k. ?ok k")
    case True
    define d where "d = (LEAST k. ?ok k)"
    have d: "?ok d" "\<forall>l < d. blk_free o1 (try_index n o1 l) \<longrightarrow> sp (t + l)"
      using LeastI_ex [OF True] not_less_Least [of _ ?ok] by (auto simp: d_def)
    have "d < unat n" if h: "\<forall>l < unat n. \<not> sp (t + l)" "i < n" "blk_free o1 i" for i
    proof -
      obtain k where k: "k < unat n" "try_index n o1 k = i" using try_index_covers [OF n(1) h(2)] by blast
      then have "d \<le> k" unfolding d_def using h by (intro Least_le) simp
      then show ?thesis using k(1) by simp
    qed
    moreover have "next_writable sp t n o1 = Some (ucast (try_index n o1 d), write_locked (try_index n o1 d) (seq_at (Suc d) o1))"
      by (rule next_writable_found) (use d valid in auto)
    ultimately show ?thesis using d ucast_try_index [OF assms(1)] by auto
  next
    case False
    then have "next_writable sp t n o1 = None" using next_writable_honest [of sp t n o1] by (cases "next_writable sp t n o1") auto
    then show ?thesis using False by auto
  qed
qed


section \<open>What an initialised segment is\<close>

definition obj_ok :: "shm_obj \<Rightarrow> bool" where
  "obj_ok o1 \<longleftrightarrow> (let c = ShmConf_Update (st_ceiling_msg_size (so_state o1))
     in st_ceiling_msg_size (so_state o1) = ceiling_msg_size c \<and> so_size o1 = managed_shm_size c)"

text \<open>A named object is whole, or it is the empty one a failed \<open>ftruncate\<close> left behind.\<close>

definition os_ok :: "shm_os \<Rightarrow> bool" where
  "os_ok os \<longleftrightarrow> (\<forall>n i. os_open n os = Some i \<longrightarrow> i < length (os_objs os) \<and>
     (obj_ok (os_objs os ! i) \<or> so_size (os_objs os ! i) = 0 \<and> (\<exists>x. n = PosixName x)))"

text \<open>Objects stay, with their size and their ceiling.\<close>

definition os_le :: "shm_os \<Rightarrow> shm_os \<Rightarrow> bool" where
  "os_le os os' \<longleftrightarrow> length (os_objs os) \<le> length (os_objs os') \<and>
     (\<forall>i < length (os_objs os). so_size (os_objs os' ! i) = so_size (os_objs os ! i) \<and>
        st_ceiling_msg_size (so_state (os_objs os' ! i)) = st_ceiling_msg_size (so_state (os_objs os ! i)))"

definition attached :: "nat \<Rightarrow> segment \<Rightarrow> shm_os \<Rightarrow> bool" where
  "attached i s os \<longleftrightarrow> sm_init s \<and> i < length (os_objs os) \<and> obj_ok (os_objs os ! i) \<and>
     sm_state s = Some i \<and> sm_blocks s = Some i \<and> sm_managed s = Mapped i \<and>
     sm_conf s = ShmConf_Update (st_ceiling_msg_size (so_state (os_objs os ! i))) \<and>
     (\<forall>k < block_num (sm_conf s). sm_bufs s k = Some (i, buf_offset (sm_conf s) k))"

definition seg_ok :: "segment \<Rightarrow> shm_os \<Rightarrow> bool" where
  "seg_ok s os \<longleftrightarrow> (\<exists>m. sm_conf s = ShmConf_Update m) \<and> (sm_init s \<longrightarrow> (\<exists>i. attached i s os))"

definition fresh_obj :: "ShmConf \<Rightarrow> shm_obj" where
  "fresh_obj c = (zero_obj (managed_shm_size c))\<lparr> so_state := IncreaseReferenceCount (State_construct (ceiling_msg_size c)) \<rparr>"

definition created :: "shm_name \<Rightarrow> ShmConf \<Rightarrow> shm_os \<Rightarrow> shm_os" where
  "created n c os = os\<lparr> os_names := (n, length (os_objs os)) # os_names os, os_objs := os_objs os @ [fresh_obj c] \<rparr>"

definition open_outcome :: "shm_name \<Rightarrow> segment \<Rightarrow> shm_os \<Rightarrow> bool \<times> segment \<times> shm_os \<Rightarrow> bool" where
  "open_outcome n s os = (\<lambda>(r, s', os'). sm_channel s' = sm_channel s \<and>
     (if r then \<exists>i. os_open n os = Some i \<and> os' = os_update i (on_state IncreaseReferenceCount) os \<and> attached i s' os'
      else \<not> sm_init s' \<and> sm_conf s' = sm_conf s \<and> os' = os))"

definition create_outcome :: "shm_name \<Rightarrow> segment \<Rightarrow> shm_os \<Rightarrow> bool \<times> segment \<times> shm_os \<Rightarrow> bool" where
  "create_outcome n s os = (\<lambda>(r, s', os'). sm_channel s' = sm_channel s \<and>
     (if r then (os_open n os \<noteq> None \<and> open_outcome n s os (r, s', os')) \<or>
        (os_open n os = None \<and> os' = created n (sm_conf s) os \<and> attached (length (os_objs os)) s' os')
      else \<not> sm_init s' \<and> sm_conf s' = sm_conf s \<and> os_ok os' \<and> os_le os os'))"

lemma os_le_refl [simp]: "os_le os os" by (simp add: os_le_def)

lemma os_le_trans: "os_le a b \<Longrightarrow> os_le b c \<Longrightarrow> os_le a c"
  by (simp add: os_le_def)

lemma os_open_simps [simp]:
  "os_open n (os_update i f os) = os_open n os"
  "os_open n (os_unlink n' os) = (if n = n' then None else os_open n os)"
  "os_open n (created n' c os) = (if n = n' then Some (length (os_objs os)) else os_open n os)"
  by (auto simp: os_open_def os_update_def os_unlink_def created_def delete_conv' map_of_eq_None_iff)

lemma os_objs_simps [simp]:
  "length (os_objs (os_update i f os)) = length (os_objs os)"
  "os_objs (os_unlink n os) = os_objs os"
  "os_objs (created n c os) = os_objs os @ [fresh_obj c]"
  by (simp_all add: os_update_def os_unlink_def created_def)

lemma update_nth: "xs[i := f (xs ! i)] ! j = (if j = i \<and> i < length xs then f (xs ! i) else xs ! j)"
  by (cases "i < length xs") (auto simp: nth_list_update list_update_beyond)

lemma os_objs_update:
  "os_objs (os_update i f os) ! j = (if j = i \<and> i < length (os_objs os) then f (os_objs os ! i) else os_objs os ! j)"
  by (simp add: os_update_def update_nth)

text \<open>Updates that keep the size and the ceiling of an object.\<close>

definition keeps :: "(shm_obj \<Rightarrow> shm_obj) \<Rightarrow> bool" where
  "keeps f \<longleftrightarrow> (\<forall>x. so_size (f x) = so_size x \<and> st_ceiling_msg_size (so_state (f x)) = st_ceiling_msg_size (so_state x))"

lemma obj_ok_keeps: "keeps f \<Longrightarrow> obj_ok (f x) = obj_ok x"
  by (simp add: obj_ok_def keeps_def)

lemma keeps_ops [simp]:
  "keeps (on_block i g)" "keeps (on_state IncreaseReferenceCount)" "keeps (on_state DecreaseReferenceCount)"
  "keeps (on_state (\<lambda>st. st\<lparr> need_remap := b \<rparr>))" "keeps (\<lambda>x. x\<lparr> so_mem := h x \<rparr>)"
  by (simp_all add: keeps_def on_block_def on_state_def IncreaseReferenceCount_def DecreaseReferenceCount_def)

lemma os_update_le: "keeps f \<Longrightarrow> os_le os (os_update i f os)"
  by (simp add: os_le_def os_objs_update keeps_def)

lemma os_update_ok: "os_ok os \<Longrightarrow> keeps f \<Longrightarrow> os_ok (os_update i f os)"
  by (simp add: os_ok_def os_objs_update obj_ok_keeps) (simp add: keeps_def)

lemma os_unlink_ok: "os_ok os \<Longrightarrow> os_ok (os_unlink n os) \<and> os_le os (os_unlink n os)"
  by (auto simp: os_ok_def os_le_def split: if_splits)

lemma fresh_obj_ok: "obj_ok (fresh_obj (ShmConf_Update m))"
  by (simp add: obj_ok_def fresh_obj_def zero_obj_def IncreaseReferenceCount_def State_construct_def Let_def)

lemma created_ok: "os_ok os \<Longrightarrow> os_ok (created n (ShmConf_Update m) os) \<and> os_le os (created n (ShmConf_Update m) os)"
  using fresh_obj_ok by (auto simp: os_ok_def os_le_def nth_append intro: less_SucI split: if_splits)

lemma attached_mono: "attached i s os \<Longrightarrow> os_le os os' \<Longrightarrow> attached i s os'"
  by (auto simp: attached_def os_le_def obj_ok_def Let_def)

lemma seg_ok_mono: "seg_ok s os \<Longrightarrow> os_le os os' \<Longrightarrow> seg_ok s os'"
  unfolding seg_ok_def using attached_mono by blast

section \<open>What a subclass promises\<close>

locale shm_backend =
  fixes be :: backend and nm :: "u64 \<Rightarrow> shm_name"
  assumes reset: "be_Reset be s = s\<lparr> sm_state := None, sm_blocks := None, sm_bufs := (\<lambda>_. None), sm_managed := Unmapped \<rparr>"
    and remove: "be_Remove be flt s os \<in> {(False, os), (True, os_unlink (nm (sm_channel s)) os)}"
    and remove_works: "os_open (nm (sm_channel s)) os \<noteq> None \<Longrightarrow>
      be_Remove be no_faults s os = (True, os_unlink (nm (sm_channel s)) os)"
    and open_only: "os_ok os \<Longrightarrow> \<not> sm_init s \<Longrightarrow> open_outcome (nm (sm_channel s)) s os (be_OpenOnly be flt (s, os))"
    and open_only_works: "os_open (nm (sm_channel s)) os = Some i \<Longrightarrow> so_size (os_objs os ! i) \<noteq> 0 \<Longrightarrow>
      fst (be_OpenOnly be no_faults (s, os))"
    and open_or_create: "os_ok os \<Longrightarrow> \<not> sm_init s \<Longrightarrow> sm_conf s = ShmConf_Update m \<Longrightarrow>
      create_outcome (nm (sm_channel s)) s os (be_OpenOrCreate be flt (s, os))"
    and open_or_create_works: "os_open (nm (sm_channel s)) os = None \<Longrightarrow> fst (be_OpenOrCreate be no_faults (s, os))"
    and open_existing: "os_open (nm (sm_channel s)) os \<noteq> None \<Longrightarrow> be_OpenOrCreate be flt (s, os) = be_OpenOnly be flt (s, os)"

lemma open_outcome_cong:
  "sm_channel s1 = sm_channel s \<Longrightarrow> sm_conf s1 = sm_conf s \<Longrightarrow> open_outcome n s1 os x = open_outcome n s os x"
  by (cases x) (simp add: open_outcome_def)

lemma open_outcome_create: "open_outcome n s os x \<Longrightarrow> os_ok os \<Longrightarrow> create_outcome n s os x"
  by (cases x) (auto simp: open_outcome_def create_outcome_def split: if_splits)

lemma attach_opened:
  assumes "i < length (os_objs os)" "obj_ok (os_objs os ! i)"
  shows "attached i ((fill_bufs i (s\<lparr> sm_managed := Mapped i, sm_state := Some i,
      sm_conf := ShmConf_Update (st_ceiling_msg_size (so_state (os_objs os ! i))), sm_blocks := Some i \<rparr>))\<lparr> sm_init := True \<rparr>)
    (os_update i (on_state IncreaseReferenceCount) os)"
  using assms by (simp add: attached_def fill_bufs_def os_objs_update obj_ok_keeps)
    (simp add: on_state_def IncreaseReferenceCount_def)

lemma Xsi_OpenOnly_outcome:
  assumes "os_ok os" "\<not> sm_init s"
  shows "open_outcome (Xsi_name (sm_channel s)) s os (Xsi_OpenOnly flt (s, os))"
proof (cases "os_open (Xsi_name (sm_channel s)) os")
  case None then show ?thesis using assms by (simp add: Xsi_OpenOnly_def open_outcome_def)
next
  case (Some i)
  then have "i < length (os_objs os)" "obj_ok (os_objs os ! i)"
    using assms by (auto simp: os_ok_def Xsi_name_def)
  from attach_opened [OF this] show ?thesis using assms Some
    by (simp add: Xsi_OpenOnly_def open_outcome_def Let_def) (simp add: fill_bufs_def)
qed

lemma Posix_OpenOnly_outcome:
  assumes "os_ok os" "\<not> sm_init s"
  shows "open_outcome (Posix_name (sm_channel s)) s os (Posix_OpenOnly flt (s, os))"
proof (cases "os_open (Posix_name (sm_channel s)) os")
  case None then show ?thesis using assms by (simp add: Posix_OpenOnly_def open_outcome_def)
next
  case (Some i)
  then have i: "i < length (os_objs os)" "so_size (os_objs os ! i) \<noteq> 0 \<Longrightarrow> obj_ok (os_objs os ! i)"
    using assms by (auto simp: os_ok_def)
  show ?thesis
  proof (cases "so_size (os_objs os ! i) = 0")
    case True then show ?thesis using assms Some by (simp add: Posix_OpenOnly_def open_outcome_def)
  next
    case False
    from attach_opened [OF i(1) i(2) [OF False]] show ?thesis using assms Some False
      by (simp add: Posix_OpenOnly_def open_outcome_def Let_def) (simp add: fill_bufs_def)
  qed
qed

text \<open>Building a new object up, one call after another.\<close>

lemma build_object:
  fixes os :: shm_os
  defines "i \<equiv> length (os_objs os)"
  assumes "c = ShmConf_Update m" "so_blocks o1 = (\<lambda>_. Block_construct)" "so_mem o1 = (\<lambda>_. 0)" "so_size o1 = managed_shm_size c"
    and "os1 = os\<lparr> os_names := (n, i) # os_names os, os_objs := os_objs os @ [o1] \<rparr>"
  shows "os_update i (on_state IncreaseReferenceCount) (os_update i (new_blocks b)
      (os_update i (on_state (\<lambda>_. State_construct (ceiling_msg_size c))) os1)) = created n c os"
  using assms(2-)
  by (cases o1) (simp add: created_def os_update_def fresh_obj_def zero_obj_def new_blocks_def on_state_def i_def
      cong: if_cong)

lemma attach_created:
  assumes "sm_conf s = c" "c = ShmConf_Update m" "i = length (os_objs os)"
  shows "attached i ((fill_bufs i (s\<lparr> sm_managed := Mapped i, sm_state := Some i, sm_blocks := Some i \<rparr>))\<lparr> sm_init := True \<rparr>)
    (created n c os)"
  using assms fresh_obj_ok
  by (simp add: attached_def fill_bufs_def) (simp add: fresh_obj_def zero_obj_def IncreaseReferenceCount_def State_construct_def)

lemma xsi_shmget_outcome:
  assumes "xsi_shmget flt retry (s, os) = (r, s', os')"
  shows "sm_channel s' = sm_channel s \<and> sm_conf s' = sm_conf s \<and> sm_init s' = sm_init s \<and>
    (case r of
       ShmGot i \<Rightarrow> os_open (Xsi_name (sm_channel s)) os = None \<and> i = length (os_objs os) \<and>
         os' = os\<lparr> os_names := (Xsi_name (sm_channel s), i) # os_names os,
           os_objs := os_objs os @ [zero_obj (managed_shm_size (sm_conf s))] \<rparr>
     | _ \<Rightarrow> os' = os)"
  using assms
proof (induction flt retry "(s, os)" arbitrary: s os rule: xsi_shmget.induct)
  case (1 flt retry s os)
  show ?case
  proof (cases "\<not> retry < 2 \<or> os_open (Xsi_name (sm_channel s)) os \<noteq> None \<or> fl_create flt retry \<noteq> Some EINVAL")
    case True
    then show ?thesis using "1.prems"
      by (subst (asm) xsi_shmget.simps)
        (auto simp: os_create_def split: if_splits option.splits errno.splits)
  next
    case False
    then have rm: "snd (Xsi_Remove flt (Xsi_Reset s) os) = os" by (simp add: Xsi_Remove_def Xsi_Reset_def)
    have "xsi_shmget flt (retry + 1) (Xsi_Reset s, os) = (r, s', os')"
      using "1.prems" False rm by (subst (asm) xsi_shmget.simps) simp
    moreover have "sm_channel (Xsi_Reset s) = sm_channel s" "sm_conf (Xsi_Reset s) = sm_conf s"
      "sm_init (Xsi_Reset s) = sm_init s" by (simp_all add: Xsi_Reset_def)
    ultimately show ?thesis using "1.hyps" False rm by (cases r) simp_all
  qed
qed

lemma Xsi_OpenOrCreate_outcome:
  assumes "os_ok os" "\<not> sm_init s" "sm_conf s = ShmConf_Update m"
  shows "create_outcome (Xsi_name (sm_channel s)) s os (Xsi_OpenOrCreate flt (s, os))"
proof -
  let ?n = "Xsi_name (sm_channel s)"
  obtain r s1 os1 where g: "xsi_shmget flt 0 (s, os) = (r, s1, os1)" by (cases "xsi_shmget flt 0 (s, os)")
  note o = xsi_shmget_outcome [OF g]
  show ?thesis
  proof (cases r)
    case ShmFailed
    then show ?thesis using g o assms by (simp add: Xsi_OpenOrCreate_def create_outcome_def)
  next
    case ShmExists
    then have "open_outcome ?n s os (Xsi_OpenOnly flt (s1, os))"
      using Xsi_OpenOnly_outcome [of os s1 flt] o assms ShmExists open_outcome_cong [of s1 s] by simp
    moreover have "Xsi_OpenOrCreate flt (s, os) = Xsi_OpenOnly flt (s1, os)"
      using ShmExists g o assms(2) by (simp add: Xsi_OpenOrCreate_def)
    ultimately show ?thesis using assms(1) by (simp add: open_outcome_create)
  next
    case (ShmGot i)
    then have i: "os_open ?n os = None" "i = length (os_objs os)" "sm_conf s1 = ShmConf_Update m" "\<not> sm_init s1"
      "sm_channel s1 = sm_channel s"
      "os1 = os\<lparr> os_names := (?n, i) # os_names os, os_objs := os_objs os @ [zero_obj (managed_shm_size (ShmConf_Update m))] \<rparr>"
      using o assms by simp_all
    show ?thesis
    proof (cases "fl_attach flt")
      case True
      have "os_unlink ?n os1 = os\<lparr> os_objs := os_objs os @ [zero_obj (managed_shm_size (ShmConf_Update m))] \<rparr>"
        using i(1,6) by (simp add: os_unlink_def os_open_def delete_id map_of_eq_None_iff)
      then have "os_ok (os_unlink ?n os1) \<and> os_le os (os_unlink ?n os1)"
        using assms(1) by (auto simp: os_ok_def os_le_def os_open_def nth_append intro: less_SucI)
      then show ?thesis using True ShmGot g assms i
        by (simp add: Xsi_OpenOrCreate_def create_outcome_def)
    next
      case False
      have st: "st_ceiling_msg_size (so_state (os_objs (os_update i (on_state (\<lambda>_. State_construct (ceiling_msg_size (ShmConf_Update m)))) os1) ! i))
          = ceiling_msg_size (ShmConf_Update m)"
        using i by (simp add: os_objs_update on_state_def State_construct_def)
      have b: "os_update i (on_state IncreaseReferenceCount) (os_update i (new_blocks (block_num (ShmConf_Update m)))
          (os_update i (on_state (\<lambda>_. State_construct (ceiling_msg_size (ShmConf_Update m)))) os1))
          = created ?n (ShmConf_Update m) os"
        using build_object [of "ShmConf_Update m" m "zero_obj (managed_shm_size (ShmConf_Update m))" os1 os ?n] i(2,6)
        by (simp add: zero_obj_def)
      have a: "attached i ((fill_bufs i (s1\<lparr> sm_managed := Mapped i, sm_state := Some i, sm_blocks := Some i \<rparr>))\<lparr> sm_init := True \<rparr>)
          (created ?n (ShmConf_Update m) os)"
        using attach_created [of s1 "ShmConf_Update m" m i os] i(2,3) by simp
      have e: "s1\<lparr> sm_managed := Mapped i, sm_state := Some i, sm_conf := ShmConf_Update m, sm_blocks := Some i \<rparr>
          = s1\<lparr> sm_managed := Mapped i, sm_state := Some i, sm_blocks := Some i \<rparr>"
        using i(3) by (cases s1) simp
      have "Xsi_OpenOrCreate flt (s, os) = (True,
          (fill_bufs i (s1\<lparr> sm_managed := Mapped i, sm_state := Some i, sm_blocks := Some i \<rparr>))\<lparr> sm_init := True \<rparr>,
          created ?n (ShmConf_Update m) os)"
        using False ShmGot g assms(2) i(3) st b by (simp add: Xsi_OpenOrCreate_def Let_def e)
      then show ?thesis using a i assms(3) by (simp add: create_outcome_def) (simp add: fill_bufs_def)
    qed
  qed
qed


lemma Posix_OpenOrCreate_outcome:
  assumes "os_ok os" "\<not> sm_init s" "sm_conf s = ShmConf_Update m"
  shows "create_outcome (Posix_name (sm_channel s)) s os (Posix_OpenOrCreate flt (s, os))"
proof -
  let ?n = "Posix_name (sm_channel s)" let ?c = "ShmConf_Update m" let ?i = "length (os_objs os)"
  let ?os1 = "os\<lparr> os_names := (?n, ?i) # os_names os, os_objs := os_objs os @ [zero_obj 0] \<rparr>"
  have le: "os_le os os'" if "os_objs os' = os_objs os @ xs" for os' xs
    using that by (simp add: os_le_def nth_append)
  show ?thesis
  proof (cases "os_open ?n os \<noteq> None \<or> fl_create flt 0 = Some EEXIST")
    case True
    then have "Posix_OpenOrCreate flt (s, os) = Posix_OpenOnly flt (s, os)"
      using assms(2) by (auto simp: Posix_OpenOrCreate_def Let_def)
    then show ?thesis using Posix_OpenOnly_outcome [OF assms(1,2)] assms(1) by (simp add: open_outcome_create)
  next
    case not_open: False
    consider "fl_create flt 0 \<noteq> None" | "fl_create flt 0 = None" "fl_truncate flt"
      | "fl_create flt 0 = None" "\<not> fl_truncate flt" "fl_attach flt"
      | "fl_create flt 0 = None" "\<not> fl_truncate flt" "\<not> fl_attach flt" by blast
    then show ?thesis
    proof cases
      case 1
      then show ?thesis using not_open assms by (simp add: Posix_OpenOrCreate_def create_outcome_def Let_def)
    next
      case 2
      have "os_ok ?os1"
        using assms(1) by (auto simp: os_ok_def os_open_def nth_append Posix_name_def zero_obj_def intro: less_SucI)
      then show ?thesis using not_open assms 2 le [of ?os1]
        by (simp add: Posix_OpenOrCreate_def create_outcome_def Let_def os_create_def)
    next
      case 3
      have "os_unlink ?n ?os1 = os\<lparr> os_objs := os_objs os @ [zero_obj 0] \<rparr>"
        using not_open by (simp add: os_unlink_def os_open_def delete_id map_of_eq_None_iff)
      moreover have "os_ok (os\<lparr> os_objs := os_objs os @ [zero_obj 0] \<rparr>)"
        using assms(1) by (auto simp: os_ok_def os_open_def nth_append intro: less_SucI)
      ultimately show ?thesis using not_open assms 3 le [of "os\<lparr> os_objs := os_objs os @ [zero_obj 0] \<rparr>"]
        by (simp add: Posix_OpenOrCreate_def create_outcome_def Let_def os_create_def)
    next
      case 4
      have o2: "os_update ?i (\<lambda>o1. o1\<lparr> so_size := managed_shm_size ?c \<rparr>) ?os1 =
          os\<lparr> os_names := (?n, ?i) # os_names os, os_objs := os_objs os @ [zero_obj (managed_shm_size ?c)] \<rparr>"
        by (simp add: os_update_def zero_obj_def)
      have b: "os_update ?i (on_state IncreaseReferenceCount) (os_update ?i (new_blocks (block_num ?c))
          (os_update ?i (on_state (\<lambda>_. State_construct (ceiling_msg_size ?c)))
            (os_update ?i (\<lambda>o1. o1\<lparr> so_size := managed_shm_size ?c \<rparr>) ?os1))) = created ?n ?c os"
        unfolding o2 by (rule build_object [of ?c m "zero_obj (managed_shm_size ?c)"]) (simp_all add: zero_obj_def)
      have a: "attached ?i ((fill_bufs ?i (s\<lparr> sm_managed := Mapped ?i, sm_state := Some ?i, sm_blocks := Some ?i \<rparr>))\<lparr> sm_init := True \<rparr>)
          (created ?n ?c os)"
        by (rule attach_created [OF assms(3)]) simp_all
      have "Posix_OpenOrCreate flt (s, os) = (True,
          (fill_bufs ?i (s\<lparr> sm_managed := Mapped ?i, sm_state := Some ?i, sm_blocks := Some ?i \<rparr>))\<lparr> sm_init := True \<rparr>,
          created ?n ?c os)"
        using not_open 4 assms(2,3) b by (simp add: Posix_OpenOrCreate_def Let_def os_create_def)
      then show ?thesis using a not_open assms(3) by (simp add: create_outcome_def) (simp add: fill_bufs_def)
    qed
  qed
qed

section \<open>Both subclasses keep the promise\<close>

interpretation xsi: shm_backend XsiSegment Xsi_name
proof
  show "be_Reset XsiSegment s = s\<lparr> sm_state := None, sm_blocks := None, sm_bufs := (\<lambda>_. None), sm_managed := Unmapped \<rparr>" for s
    by (simp add: XsiSegment_def Xsi_Reset_def)
  show "be_Remove XsiSegment flt s os \<in> {(False, os), (True, os_unlink (Xsi_name (sm_channel s)) os)}" for flt s os
    by (simp add: XsiSegment_def Xsi_Remove_def)
  show "be_Remove XsiSegment no_faults s os = (True, os_unlink (Xsi_name (sm_channel s)) os)"
    if "os_open (Xsi_name (sm_channel s)) os \<noteq> None" for s os
    using that by (simp add: XsiSegment_def Xsi_Remove_def no_faults_def)
  show "open_outcome (Xsi_name (sm_channel s)) s os (be_OpenOnly XsiSegment flt (s, os))" if "os_ok os" "\<not> sm_init s" for s os flt
    using Xsi_OpenOnly_outcome [OF that] by (simp add: XsiSegment_def)
  show "fst (be_OpenOnly XsiSegment no_faults (s, os))" if "os_open (Xsi_name (sm_channel s)) os = Some i" for s os i
    using that by (simp add: XsiSegment_def Xsi_OpenOnly_def no_faults_def Let_def)
  show "create_outcome (Xsi_name (sm_channel s)) s os (be_OpenOrCreate XsiSegment flt (s, os))"
    if "os_ok os" "\<not> sm_init s" "sm_conf s = ShmConf_Update m" for s os flt m
    using Xsi_OpenOrCreate_outcome [OF that] by (simp add: XsiSegment_def)
  show "fst (be_OpenOrCreate XsiSegment no_faults (s, os))" if "os_open (Xsi_name (sm_channel s)) os = None" for s os
    using that by (simp add: XsiSegment_def Xsi_OpenOrCreate_def no_faults_def Let_def xsi_shmget.simps os_create_def)
  show "be_OpenOrCreate XsiSegment flt (s, os) = be_OpenOnly XsiSegment flt (s, os)"
    if "os_open (Xsi_name (sm_channel s)) os \<noteq> None" for s os flt
    using that by (simp add: XsiSegment_def Xsi_OpenOrCreate_def Xsi_OpenOnly_def xsi_shmget.simps)
qed

interpretation posix: shm_backend PosixSegment Posix_name
proof
  show "be_Reset PosixSegment s = s\<lparr> sm_state := None, sm_blocks := None, sm_bufs := (\<lambda>_. None), sm_managed := Unmapped \<rparr>" for s
    by (simp add: PosixSegment_def Posix_Reset_def)
  show "be_Remove PosixSegment flt s os \<in> {(False, os), (True, os_unlink (Posix_name (sm_channel s)) os)}" for flt s os
    by (simp add: PosixSegment_def Posix_Remove_def)
  show "be_Remove PosixSegment no_faults s os = (True, os_unlink (Posix_name (sm_channel s)) os)"
    if "os_open (Posix_name (sm_channel s)) os \<noteq> None" for s os
    using that by (simp add: PosixSegment_def Posix_Remove_def no_faults_def)
  show "open_outcome (Posix_name (sm_channel s)) s os (be_OpenOnly PosixSegment flt (s, os))" if "os_ok os" "\<not> sm_init s" for s os flt
    using Posix_OpenOnly_outcome [OF that] by (simp add: PosixSegment_def)
  show "fst (be_OpenOnly PosixSegment no_faults (s, os))"
    if "os_open (Posix_name (sm_channel s)) os = Some i" "so_size (os_objs os ! i) \<noteq> 0" for s os i
    using that by (simp add: PosixSegment_def Posix_OpenOnly_def no_faults_def Let_def)
  show "create_outcome (Posix_name (sm_channel s)) s os (be_OpenOrCreate PosixSegment flt (s, os))"
    if "os_ok os" "\<not> sm_init s" "sm_conf s = ShmConf_Update m" for s os flt m
    using Posix_OpenOrCreate_outcome [OF that] by (simp add: PosixSegment_def)
  show "fst (be_OpenOrCreate PosixSegment no_faults (s, os))" if "os_open (Posix_name (sm_channel s)) os = None" for s os
    using that by (simp add: PosixSegment_def Posix_OpenOrCreate_def no_faults_def Let_def os_create_def)
  show "be_OpenOrCreate PosixSegment flt (s, os) = be_OpenOnly PosixSegment flt (s, os)"
    if "os_open (Posix_name (sm_channel s)) os \<noteq> None" for s os flt
    using that by (simp add: PosixSegment_def Posix_OpenOrCreate_def Posix_OpenOnly_def)
qed


section \<open>The operations keep the invariant\<close>

definition os_grows :: "segment \<Rightarrow> shm_os \<Rightarrow> segment \<Rightarrow> shm_os \<Rightarrow> bool" where
  "os_grows s os s' os' \<longleftrightarrow> os_ok os' \<and> os_le os os' \<and> seg_ok s' os' \<and> sm_channel s' = sm_channel s"

lemma os_grows_refl: "os_ok os \<Longrightarrow> seg_ok s os \<Longrightarrow> os_grows s os s os"
  by (simp add: os_grows_def)

lemma os_grows_trans: "os_grows s os s1 os1 \<Longrightarrow> os_grows s1 os1 s2 os2 \<Longrightarrow> os_grows s os s2 os2"
  by (auto simp: os_grows_def intro: os_le_trans)

lemma os_grows_update: "os_ok os \<Longrightarrow> seg_ok s os \<Longrightarrow> keeps f \<Longrightarrow> os_grows s os s (os_update i f os)"
  by (auto simp: os_grows_def os_update_ok os_update_le intro: seg_ok_mono)

lemma open_outcome_grows:
  assumes "os_ok os" "sm_conf s = ShmConf_Update m" "open_outcome n s os (r, s', os')"
  shows "os_grows s os s' os' \<and> sm_init s' = r"
proof (cases r)
  case True
  then obtain i where i: "os' = os_update i (on_state IncreaseReferenceCount) os" "attached i s' os'" "sm_channel s' = sm_channel s"
    using assms(3) by (auto simp: open_outcome_def)
  have "seg_ok s' os'" using i(2) by (auto simp: seg_ok_def attached_def)
  then show ?thesis using i assms(1) True by (simp add: os_grows_def os_update_ok os_update_le attached_def)
next
  case False
  then show ?thesis using assms by (auto simp: open_outcome_def os_grows_def seg_ok_def)
qed

lemma create_outcome_grows:
  assumes "os_ok os" "sm_conf s = ShmConf_Update m" "create_outcome n s os (r, s', os')"
  shows "os_grows s os s' os' \<and> sm_init s' = r"
proof (cases "r \<and> os_open n os = None")
  case True
  then have c: "os' = created n (ShmConf_Update m) os" "attached (length (os_objs os)) s' os'" "sm_channel s' = sm_channel s"
    using assms by (auto simp: create_outcome_def)
  have "seg_ok s' os'" using c(2) by (auto simp: seg_ok_def attached_def)
  then show ?thesis using c created_ok [OF assms(1)] True by (simp add: os_grows_def attached_def)
next
  case False
  show ?thesis
  proof (cases r)
    case True
    then have "open_outcome n s os (r, s', os')" using False assms(3) by (auto simp: create_outcome_def)
    then show ?thesis using open_outcome_grows assms by blast
  next
    case False
    then show ?thesis using assms by (auto simp: create_outcome_def os_grows_def seg_ok_def)
  qed
qed

lemma next_writable_keeps:
  assumes "next_writable sp t n o1 = Some (j, o2)" "obj_ok o1"
    and "n = block_num (ShmConf_Update (st_ceiling_msg_size (so_state o1)))"
  shows "\<exists>k. ucast j = try_index n o1 k \<and> ucast j < n \<and> blk_free o1 (ucast j) \<and>
    o2 = write_locked (ucast j) (seq_at (Suc k) o1) \<and> so_size o2 = so_size o1 \<and>
    st_ceiling_msg_size (so_state o2) = st_ceiling_msg_size (so_state o1)"
proof -
  obtain k where k: "j = ucast (try_index n o1 k)" "o2 = write_locked (try_index n o1 k) (seq_at (Suc k) o1)"
    "valid_block o1 (try_index n o1 k)" "blk_free o1 (try_index n o1 k)"
    using next_writable_result [OF assms(1)] by (auto simp: next_result_def)
  have nb: "GetBlockNum (st_ceiling_msg_size (so_state o1)) = n"
    using assms(2,3) by (auto simp: obj_ok_def Let_def ShmConf_Update_def)
  then have lt: "try_index n o1 k < n" using k(3) by (simp add: valid_block_def)
  have n: "unat n \<le> 512" using block_num_bounds assms(3) by simp
  have "ucast (ucast (try_index n o1 k) :: u32) = try_index n o1 k"
  proof -
    have "unat (try_index n o1 k) < 2 ^ 32" using lt n by (simp add: word_less_nat_alt)
    then show ?thesis by (simp add: unat_inject_iff unsigned_ucast_eq unsigned_take_bit_eq take_bit_nat_eq_self)
  qed
  then show ?thesis using k lt by (auto simp: write_locked_def on_block_def seq_at_def)
qed

lemma os_update_const: "os_update i (\<lambda>_. x) os = os_update i (\<lambda>y. if y = os_objs os ! i then x else y) os"
  by (simp add: os_update_def)

lemma os_grows_const:
  assumes "os_ok os" "seg_ok s os" "so_size x = so_size (os_objs os ! i)"
    and "st_ceiling_msg_size (so_state x) = st_ceiling_msg_size (so_state (os_objs os ! i))"
  shows "os_grows s os s (os_update i (\<lambda>_. x) os)"
  unfolding os_update_const
  by (rule os_grows_update [OF assms(1,2)]) (use assms(3,4) in \<open>simp add: keeps_def\<close>)

text \<open>A block handed out: its header and its buffer in the object the segment maps.\<close>

definition block_of :: "WritableBlock \<Rightarrow> nat \<Rightarrow> segment \<Rightarrow> bool" where
  "block_of wb i s \<longleftrightarrow> ucast (wb_index wb) < block_num (sm_conf s) \<and> wb_block wb = Some (i, ucast (wb_index wb)) \<and>
     wb_buf wb = Some (i, buf_offset (sm_conf s) (ucast (wb_index wb)))"

context shm_backend
begin

lemma open_grows:
  assumes "os_ok os" "seg_ok s os" "\<not> sm_init s" "be_OpenOrCreate be flt (s, os) = (r, s', os')"
  shows "os_grows s os s' os' \<and> sm_init s' = r"
proof -
  obtain m where "sm_conf s = ShmConf_Update m" using assms(2) by (auto simp: seg_ok_def)
  then show ?thesis using open_or_create [OF assms(1,3), of m flt] create_outcome_grows assms(1,4) by metis
qed

lemma Remap_grows:
  assumes "os_ok os" "seg_ok s os" "Remap be flt (s, os) = (r, s', os')"
  shows "os_grows s os s' os' \<and> sm_init s' = r"
proof -
  let ?s = "be_Reset be (s\<lparr> sm_init := False \<rparr>)"
  obtain m where m: "sm_conf s = ShmConf_Update m" using assms(2) by (auto simp: seg_ok_def)
  have s: "\<not> sm_init ?s" "sm_conf ?s = ShmConf_Update m" "sm_channel ?s = sm_channel s" using m by (simp_all add: reset)
  have "open_outcome (nm (sm_channel ?s)) ?s os (r, s', os')"
    using open_only [OF assms(1) s(1), of flt] assms(3) by (simp add: Remap_def)
  then show ?thesis using open_outcome_grows [OF assms(1) s(2)] s(3) by (simp add: os_grows_def)
qed

lemma Recreate_grows:
  assumes "os_ok os" "seg_ok s os" "Recreate be flt msg_size (s, os) = Some (r, s', os')"
  shows "os_grows s os s' os' \<and> sm_init s' = r"
proof -
  obtain i where i: "sm_state s = Some i" using assms(3) by (cases "sm_state s") (simp_all add: Recreate_def)
  define os1 where "os1 = os_update i (on_state (\<lambda>st. st\<lparr> need_remap := True \<rparr>)) os"
  define s1 where "s1 = be_Reset be (s\<lparr> sm_init := False \<rparr>)"
  define os2 where "os2 = snd (be_Remove be flt s1 os1)"
  let ?s = "s1\<lparr> sm_conf := ShmConf_Update msg_size \<rparr>"
  have r: "be_OpenOrCreate be flt (?s, os2) = (r, s', os')"
    using assms(3) i by (simp add: Recreate_def Let_def os1_def s1_def os2_def)
  have 1: "os_ok os1" "os_le os os1" using assms(1) by (simp_all add: os1_def os_update_ok os_update_le)
  have "os2 = os1 \<or> os2 = os_unlink (nm (sm_channel s1)) os1" using remove [of flt s1 os1] by (auto simp: os2_def)
  then have 2: "os_ok os2" "os_le os1 os2" using os_unlink_ok [OF 1(1)] 1(1) by auto
  have s: "\<not> sm_init ?s" "seg_ok ?s os2" "sm_channel ?s = sm_channel s" by (auto simp: s1_def reset seg_ok_def)
  have "os_grows ?s os2 s' os' \<and> sm_init s' = r" by (rule open_grows [OF 2(1) s(2,1) r])
  then show ?thesis using s(3) 1 2 by (auto simp: os_grows_def intro: os_le_trans)
qed

end


definition locked_block :: "WritableBlock \<Rightarrow> nat \<Rightarrow> segment \<Rightarrow> shm_os \<Rightarrow> bool" where
  "locked_block wb i s os \<longleftrightarrow> attached i s os \<and> block_of wb i s \<and>
     blk_lock_num (so_blocks (os_objs os ! i) (ucast (wb_index wb))) = KWriteExclusive"

lemma take_writable_grows:
  assumes "os_ok os" "seg_ok s os" "attached i s os" "take_writable flt (s, os) = Some (w, s', os')"
  shows "os_grows s os s' os' \<and> s' = s \<and> (\<exists>wb. w = Some wb \<and> locked_block wb i s os')"
proof -
  let ?n = "block_num (sm_conf s)" let ?o = "os_objs os ! i"
  have st: "sm_state s = Some i" "sm_blocks s = Some i" "i < length (os_objs os)" "obj_ok ?o"
    "sm_conf s = ShmConf_Update (st_ceiling_msg_size (so_state ?o))"
    "\<forall>k < ?n. sm_bufs s k = Some (i, buf_offset (sm_conf s) k)"
    using assms(3) by (simp_all add: attached_def)
  obtain j o2 where nw: "next_writable (fl_cas_write flt) 0 ?n ?o = Some (j, o2)"
    "s' = s" "os' = os_update i (\<lambda>_. o2) os" "w = Some \<lparr> wb_index = j, wb_block = Some (i, ucast j), wb_buf = sm_bufs s (ucast j) \<rparr>"
    using assms(4) st(1,2) by (auto simp: take_writable_def bind_eq_Some_conv)
  obtain k where k: "ucast j < ?n" "o2 = write_locked (ucast j) (seq_at (Suc k) ?o)" "so_size o2 = so_size ?o"
    "st_ceiling_msg_size (so_state o2) = st_ceiling_msg_size (so_state ?o)"
    using next_writable_keeps [OF nw(1) st(4)] st(5) by auto
  have g: "os_grows s os s os'" unfolding nw(3) by (rule os_grows_const [OF assms(1,2) k(3,4)])
  moreover have "attached i s os'" using attached_mono [OF assms(3)] g by (simp add: os_grows_def)
  moreover have "blk_lock_num (so_blocks (os_objs os' ! i) (ucast j)) = KWriteExclusive"
    using st(3) by (simp add: nw(3) os_objs_update k(2) write_locked_def on_block_def)
  ultimately show ?thesis using nw(2,4) k(1) st(6) by (simp add: locked_block_def block_of_def)
qed

context shm_backend
begin

lemma AcquireBlockToWrite_grows:
  assumes "os_ok os" "seg_ok s os" "AcquireBlockToWrite be flt msg_size (s, os) = Some (w, s', os')"
  shows "os_grows s os s' os' \<and> (\<forall>wb. w = Some wb \<longrightarrow> (\<exists>i. locked_block wb i s' os'))"
proof -
  obtain opened s1 os1 where o: "(if sm_init s then (True, s, os) else be_OpenOrCreate be flt (s, os)) = (opened, s1, os1)"
    by (cases "if sm_init s then (True, s, os) else be_OpenOrCreate be flt (s, os)")
  have g1: "os_grows s os s1 os1 \<and> sm_init s1 = opened"
    using o assms(1,2) open_grows [OF assms(1,2)] by (auto simp: os_grows_def split: if_splits)
  show ?thesis
  proof (cases opened)
    case False
    then have "w = None" "s' = s1" "os' = os1" using assms(3) o by (simp_all add: AcquireBlockToWrite_def)
    then show ?thesis using g1 by simp
  next
    case True
    then obtain i where i: "attached i s1 os1" "sm_state s1 = Some i"
      using g1 by (auto simp: os_grows_def seg_ok_def attached_def)
    obtain result s2 os2 where r: "(if need_remap (so_state (os_objs os1 ! i)) then Remap be flt (s1, os1) else (True, s1, os1))
        = (result, s2, os2)"
      by (cases "if need_remap (so_state (os_objs os1 ! i)) then Remap be flt (s1, os1) else (True, s1, os1)")
    have ok1: "os_ok os1" "seg_ok s1 os1" using g1 by (simp_all add: os_grows_def)
    have g2: "os_grows s1 os1 s2 os2 \<and> sm_init s2 = result"
      using r Remap_grows [OF ok1] ok1 g1 True by (auto simp: os_grows_def split: if_splits)
    obtain result3 s3 os3 where r3: "(if ceiling_msg_size (sm_conf s2) < msg_size then Recreate be flt msg_size (s2, os2)
        else Some (result, s2, os2)) = Some (result3, s3, os3)"
      and rest: "(if \<not> result3 then Some (None, s3, os3) else take_writable flt (s3, os3)) = Some (w, s', os')"
      using assms(3) o True i(2) r by (auto simp: AcquireBlockToWrite_def bind_eq_Some_conv)
    have ok2: "os_ok os2" "seg_ok s2 os2" using g2 by (simp_all add: os_grows_def)
    have g3: "os_grows s2 os2 s3 os3 \<and> sm_init s3 = result3"
      using r3 Recreate_grows [OF ok2] ok2 g2 by (auto simp: os_grows_def split: if_splits)
    have g: "os_grows s os s3 os3" using g1 g2 g3 os_grows_trans by blast
    show ?thesis
    proof (cases result3)
      case False then show ?thesis using rest g by auto
    next
      case True
      have ok3: "os_ok os3" "seg_ok s3 os3" using g by (simp_all add: os_grows_def)
      then obtain j where j: "attached j s3 os3" using g3 True by (auto simp: seg_ok_def)
      have "take_writable flt (s3, os3) = Some (w, s', os')" using rest True by simp
      from take_writable_grows [OF ok3 j this] show ?thesis using os_grows_trans [OF g] by blast
    qed
  qed
qed

lemma AcquireBlockToRead_grows:
  assumes "os_ok os" "seg_ok s os" "AcquireBlockToRead be flt index (s, os) = Some (w, s', os')"
  shows "os_grows s os s' os' \<and> (\<forall>rb. w = Some rb \<longrightarrow> (\<exists>i. attached i s' os' \<and> block_of rb i s'))"
proof -
  obtain opened s1 os1 where o: "(if sm_init s then (True, s, os) else be_OpenOrCreate be flt (s, os)) = (opened, s1, os1)"
    by (cases "if sm_init s then (True, s, os) else be_OpenOrCreate be flt (s, os)")
  have g1: "os_grows s os s1 os1 \<and> sm_init s1 = opened"
    using o assms(1,2) open_grows [OF assms(1,2)] by (auto simp: os_grows_def split: if_splits)
  show ?thesis
  proof (cases "opened \<and> \<not> block_num (sm_conf s1) \<le> ucast index")
    case False
    then have "w = None" "s' = s1" "os' = os1" using assms(3) o
      by (auto simp: AcquireBlockToRead_def split: if_splits)
    then show ?thesis using g1 by simp
  next
    case True
    then obtain i where i: "sm_state s1 = Some i"
      using g1 by (auto simp: os_grows_def seg_ok_def attached_def)
    obtain result s2 os2 where r: "(if need_remap (so_state (os_objs os1 ! i)) then Remap be flt (s1, os1) else (True, s1, os1))
        = (result, s2, os2)"
      by (cases "if need_remap (so_state (os_objs os1 ! i)) then Remap be flt (s1, os1) else (True, s1, os1)")
    have ok1: "os_ok os1" "seg_ok s1 os1" using g1 by (simp_all add: os_grows_def)
    have g2: "os_grows s1 os1 s2 os2 \<and> sm_init s2 = result"
      using r Remap_grows [OF ok1] ok1 g1 True by (auto simp: os_grows_def split: if_splits)
    have g: "os_grows s os s2 os2" using g1 g2 os_grows_trans by blast
    show ?thesis
    proof (cases result)
      case False
      then have "w = None" "s' = s2" "os' = os2" using assms(3) o True i r by (simp_all add: AcquireBlockToRead_def)
      then show ?thesis using g by simp
    next
      case res: True
      have ok2: "os_ok os2" "seg_ok s2 os2" using g by (simp_all add: os_grows_def)
      then obtain j where j: "attached j s2 os2" using g2 res by (auto simp: seg_ok_def)
      then have b: "sm_blocks s2 = Some j" by (simp add: attached_def)
      obtain locked os3 where l: "with_block s2 (ucast index) (TryLockForRead (fl_cas_read flt)) os2 = Some (locked, os3)"
        "(if \<not> locked then Some (None, s2, os3)
          else Some (Some \<lparr> wb_index = index, wb_block = Some (j, ucast index), wb_buf = sm_bufs s2 (ucast index) \<rparr>, s2, os3)) = Some (w, s', os')"
        using assms(3) o True i r res b by (auto simp: AcquireBlockToRead_def bind_eq_Some_conv split: if_splits)
      have v: "valid_block (os_objs os2 ! j) (ucast index)"
        "\<exists>blk. os3 = os_update j (on_block (ucast index) (\<lambda>_. blk)) os2"
        using l(1) b by (auto simp: with_block_def Let_def split: if_splits prod.splits)
      have ob: "obj_ok (os_objs os2 ! j)" "sm_conf s2 = ShmConf_Update (st_ceiling_msg_size (so_state (os_objs os2 ! j)))"
        "\<forall>k < block_num (sm_conf s2). sm_bufs s2 k = Some (j, buf_offset (sm_conf s2) k)"
        using j by (simp_all add: attached_def)
      then have lt: "ucast index < block_num (sm_conf s2)"
        using v(1) by (auto simp: valid_block_def obj_ok_def Let_def ShmConf_Update_def)
      have g3: "os_grows s2 os2 s2 os3" using v(2) os_grows_update [OF ok2] by auto
      then have "attached j s2 os3" using attached_mono [OF j] by (simp add: os_grows_def)
      then show ?thesis using l(2) os_grows_trans [OF g g3] lt ob(3) by (auto simp: block_of_def split: if_splits)
    qed
  qed
qed

end

lemma with_block_grows:
  assumes "os_ok os" "seg_ok s os" "with_block s i f os = Some (r, os')"
  shows "os_grows s os s os'"
proof -
  obtain b blk where "os' = os_update b (on_block i (\<lambda>_. blk)) os"
    using assms(3) by (auto simp: with_block_def bind_eq_Some_conv Let_def split: if_splits prod.splits)
  then show ?thesis using os_grows_update [OF assms(1,2)] by simp
qed


section \<open>Any number of processes\<close>

datatype seg_op =
    OpAcquireWrite u64 | OpReleaseWritten WritableBlock | OpAcquireRead u32 | OpReleaseReadable WritableBlock | OpDestory

fun seg_apply :: "backend \<Rightarrow> faults \<Rightarrow> seg_op \<Rightarrow> segment \<times> shm_os \<Rightarrow> (segment \<times> shm_os) option" where
  "seg_apply be flt (OpAcquireWrite n) st = map_option snd (AcquireBlockToWrite be flt n st)"
| "seg_apply be flt (OpReleaseWritten wb) st = ReleaseWrittenBlock wb st"
| "seg_apply be flt (OpAcquireRead i) st = map_option snd (AcquireBlockToRead be flt i st)"
| "seg_apply be flt (OpReleaseReadable rb) st = ReleaseReadableBlock rb st"
| "seg_apply be flt OpDestory st = map_option snd (Destory be flt st)"

fun shm_run :: "(nat \<Rightarrow> backend) \<Rightarrow> (nat \<times> faults \<times> seg_op) list \<Rightarrow> (nat \<Rightarrow> segment) \<times> shm_os \<Rightarrow>
    ((nat \<Rightarrow> segment) \<times> shm_os) option" where
  "shm_run be [] st = Some st"
| "shm_run be ((p, flt, op) # cs) (segs, os) =
     do { (s, os1) \<leftarrow> seg_apply (be p) flt op (segs p, os); shm_run be cs (segs(p := s), os1) }"

definition empty_os :: shm_os where "empty_os = \<lparr> os_names = [], os_objs = [] \<rparr>"

context shm_backend
begin

lemma Destory_grows:
  assumes "os_ok os" "seg_ok s os" "Destory be flt (s, os) = Some (r, s', os')"
  shows "os_grows s os s' os'"
proof (cases "sm_init s")
  case False then show ?thesis using assms by (simp add: Destory_def os_grows_def)
next
  case True
  let ?s = "s\<lparr> sm_init := False \<rparr>"
  obtain i where i: "sm_state s = Some i" using assms(2) True by (auto simp: seg_ok_def attached_def)
  let ?os = "os_update i (on_state DecreaseReferenceCount) os"
  have u: "os_ok ?os" "os_le os ?os" using assms(1) by (simp_all add: os_update_ok os_update_le)
  have s: "s' = ?s \<and> (os' = ?os \<or> os' = snd (be_Remove be flt ?s ?os))"
    using assms(3) True i by (auto simp: Destory_def Let_def split: if_splits prod.splits)
  have "os' = ?os \<or> os' = os_unlink (nm (sm_channel ?s)) ?os" using s remove [of flt ?s ?os] by auto
  then have "os_ok os'" "os_le ?os os'" using os_unlink_ok [OF u(1)] u(1) by auto
  then show ?thesis using s u(2) assms(2) by (auto simp: os_grows_def seg_ok_def intro: os_le_trans)
qed

lemma seg_apply_grows:
  assumes "os_ok os" "seg_ok s os" "seg_apply be flt op (s, os) = Some (s', os')"
  shows "os_grows s os s' os'"
proof (cases op)
  case (OpAcquireWrite n)
  then show ?thesis using assms AcquireBlockToWrite_grows [OF assms(1,2)] by auto
next
  case (OpAcquireRead i)
  then show ?thesis using assms AcquireBlockToRead_grows [OF assms(1,2)] by auto
next
  case OpDestory
  then show ?thesis using assms Destory_grows [OF assms(1,2)] by auto
next
  case (OpReleaseWritten wb)
  then show ?thesis using assms os_grows_refl [OF assms(1,2)]
    by (auto simp: ReleaseWrittenBlock_def bind_eq_Some_conv split: if_splits dest: with_block_grows)
next
  case (OpReleaseReadable rb)
  then show ?thesis using assms os_grows_refl [OF assms(1,2)]
    by (auto simp: ReleaseReadableBlock_def bind_eq_Some_conv split: if_splits dest: with_block_grows)
qed

lemma stale_index:
  assumes "os_ok os" "attached i s os" "need_remap (so_state (os_objs os ! i))"
    and "os_open (nm (sm_channel s)) os = Some j" "so_size (os_objs os ! j) \<noteq> 0"
    and "GetBlockNum (st_ceiling_msg_size (so_state (os_objs os ! j))) \<le> ucast index"
    and "ucast index < block_num (sm_conf s)"
  shows "AcquireBlockToRead be no_faults index (s, os) = None"
proof -
  let ?s = "be_Reset be (s\<lparr> sm_init := False \<rparr>)"
  have a: "sm_init s" "sm_state s = Some i" using assms(2) by (simp_all add: attached_def)
  have s: "\<not> sm_init ?s" "sm_channel ?s = sm_channel s" by (simp_all add: reset)
  obtain r s2 os2 where r: "Remap be no_faults (s, os) = (r, s2, os2)" by (cases "Remap be no_faults (s, os)")
  then have "open_outcome (nm (sm_channel s)) ?s os (r, s2, os2)" "r"
    using open_only [OF assms(1) s(1), of no_faults] open_only_works [of ?s os j] assms(4,5) s(2)
    by (simp_all add: Remap_def)
  then have o: "os2 = os_update j (on_state IncreaseReferenceCount) os" "attached j s2 os2"
    using assms(4) by (auto simp: open_outcome_def)
  have "j < length (os_objs os)" using assms(1,4) by (auto simp: os_ok_def)
  then have "\<not> valid_block (os_objs os2 ! j) (ucast index)"
    using assms(6) by (simp add: o(1) os_objs_update valid_block_def on_state_def IncreaseReferenceCount_def not_less)
  then have "with_block s2 (ucast index) f os2 = None" for f :: "Block \<Rightarrow> bool \<times> Block"
    using o(2) by (simp add: with_block_def attached_def)
  then show ?thesis using a r \<open>r\<close> assms(3,7) by (simp add: AcquireBlockToRead_def not_le)
qed

end

lemma seg_apply_grows_both:
  assumes "be \<in> {XsiSegment, PosixSegment}" "os_ok os" "seg_ok s os" "seg_apply be flt op (s, os) = Some (s', os')"
  shows "os_grows s os s' os'"
  using assms xsi.seg_apply_grows posix.seg_apply_grows by blast

lemma shm_run_ok:
  assumes "\<forall>p. be p \<in> {XsiSegment, PosixSegment}" "shm_run be cs (segs, os) = Some (segs', os')"
    and "os_ok os" "\<forall>p. seg_ok (segs p) os"
  shows "os_ok os' \<and> (\<forall>p. seg_ok (segs' p) os')"
  using assms(2-)
proof (induction cs arbitrary: segs os)
  case Nil then show ?case by simp
next
  case (Cons c cs)
  obtain p flt op where c: "c = (p, flt, op)" by (cases c)
  obtain s os1 where a: "seg_apply (be p) flt op (segs p, os) = Some (s, os1)"
    "shm_run be cs (segs(p := s), os1) = Some (segs', os')"
    using Cons.prems(1) by (auto simp: c bind_eq_Some_conv)
  have g: "os_grows (segs p) os s os1"
    using seg_apply_grows_both [OF assms(1)[rule_format, of p] Cons.prems(2) _ a(1)] Cons.prems(3) by simp
  then have "\<forall>q. seg_ok ((segs(p := s)) q) os1" using Cons.prems(3) seg_ok_mono by (auto simp: os_grows_def)
  then show ?case using Cons.IH [OF a(2)] g by (simp add: os_grows_def)
qed

lemma start_ok: "os_ok empty_os" "seg_ok (Segment_construct ch) empty_os"
  by (auto simp: os_ok_def empty_os_def os_open_def seg_ok_def Segment_construct_def ShmConf_construct_def)

text \<open>The calls of a segment are single steps here, but no lock makes them so.  What another process can see
  inside \<open>OpenOrCreate\<close>: after \<open>shmget\<close> the object has its name and is full of zeros; the rest of the call,
  \<open>xsi_construct\<close>, then makes the state and the blocks in it.\<close>

definition xsi_construct :: "nat \<Rightarrow> segment \<times> shm_os \<Rightarrow> bool \<times> segment \<times> shm_os" where
  "xsi_construct i = (\<lambda>(s1, os1).
     let s2 = s1\<lparr> sm_managed := Mapped i, sm_state := Some i \<rparr>;
         os2 = os_update i (on_state (\<lambda>_. State_construct (ceiling_msg_size (sm_conf s2)))) os1;
         s3 = s2\<lparr> sm_conf := ShmConf_Update (st_ceiling_msg_size (so_state (os_objs os2 ! i))), sm_blocks := Some i \<rparr>;
         os3 = os_update i (new_blocks (block_num (sm_conf s3))) os2;
         s4 = fill_bufs i s3
     in (True, s4\<lparr> sm_init := True \<rparr>, os_update i (on_state IncreaseReferenceCount) os3))"

lemma Xsi_OpenOrCreate_halves:
  "\<not> sm_init s \<Longrightarrow> os_open (Xsi_name (sm_channel s)) os = None \<Longrightarrow>
    Xsi_OpenOrCreate no_faults (s, os) =
      (case os_create (Xsi_name (sm_channel s)) (managed_shm_size (sm_conf s)) os of (i, os1) \<Rightarrow> xsi_construct i (s, os1))"
  by (simp add: Xsi_OpenOrCreate_def xsi_shmget.simps no_faults_def xsi_construct_def os_create_def Let_def)

lemma os_update_len: "length (os_objs (os_update i f os)) = length (os_objs os)"
  by (simp add: os_update_def)

lemma os_update_last: "i = length xs \<Longrightarrow> os_objs os = xs @ [o1] \<Longrightarrow> os_objs (os_update i f os) = xs @ [f o1]"
  by (simp add: os_update_def)

text \<open>A process that opens the object between the two halves reads the ceiling 0 and keeps the layout for 16 kB;
  a block it locks for writing is unlocked when the creator makes the blocks, and it is not counted.\<close>

lemma early_opener:
  assumes "sm_conf s = ShmConf_Update n" "16384 < n" "\<not> sm_init s2" "sm_channel s2 = sm_channel s"
    and "os_create (Xsi_name (sm_channel s)) (managed_shm_size (sm_conf s)) os = (i, os1)"
    and "Xsi_OpenOnly no_faults (s2, os1) = (r2, s2', os2)"
    and "xsi_construct i (s, os_update i (on_block k f) os2) = (r, s', os3)" "k < block_num (ShmConf_Update n)"
  shows "r2 \<and> r \<and> attached i s' os3 \<and> sm_init s2' \<and> sm_state s2' = Some i \<and> sm_conf s2' = ShmConf_Update 0 \<and>
    \<not> attached i s2' os3 \<and> so_blocks (os_objs os3 ! i) k = Block_construct \<and>
    reference_count (so_state (os_objs os3 ! i)) = 1"
proof -
  have "ceiling_msg_size (ShmConf_Update n) \<noteq> ceiling_msg_size (ShmConf_Update 0)"
    using assms(2) by (simp add: ShmConf_Update_def GetCeilingMessageSize_def Let_def shm_sizes)
  then have ne: "ShmConf_Update 0 \<noteq> ShmConf_Update n" by metis
  have i: "i = length (os_objs os)" and o1: "os_objs os1 = os_objs os @ [zero_obj (managed_shm_size (sm_conf s))]"
    and nm: "os_open (Xsi_name (sm_channel s)) os1 = Some i"
    using assms(5) by (auto simp: os_create_def os_open_def)
  have s2: "r2 \<and> sm_init s2' \<and> sm_state s2' = Some i \<and> sm_conf s2' = ShmConf_Update 0"
    using assms(3,4,6) nm i by (auto simp: Xsi_OpenOnly_def no_faults_def Let_def fill_bufs_def o1 zero_obj_def State_construct_def)
  let ?z = "zero_obj (managed_shm_size (sm_conf s))"
  have o2: "os_objs os2 = os_objs os @ [on_state IncreaseReferenceCount ?z]"
    using assms(3,4,6) nm i by (auto simp: Xsi_OpenOnly_def no_faults_def Let_def os_update_def o1)
  then have len2: "i < length (os_objs os2)" using i by simp
  have ceil: "st_ceiling_msg_size (so_state (os_objs (os_update i (on_state (\<lambda>_. State_construct c)) os') ! i)) = c"
    if "i < length (os_objs os')" for c os'
    using that by (simp add: os_update_def on_state_def State_construct_def)
  let ?s1 = "s\<lparr> sm_managed := Mapped i, sm_state := Some i, sm_conf := ShmConf_Update n, sm_blocks := Some i \<rparr>"
  let ?os = "os_update i (new_blocks (block_num (ShmConf_Update n)))
      (os_update i (on_state (\<lambda>_. State_construct (ceiling_msg_size (ShmConf_Update n)))) (os_update i (on_block k f) os2))"
  have c: "r \<and> s' = (fill_bufs i ?s1)\<lparr> sm_init := True \<rparr> \<and> os3 = os_update i (on_state IncreaseReferenceCount) ?os"
    using assms(7,1) len2 by (simp add: xsi_construct_def Let_def ceil os_update_len)
  have "os_objs os3 = os_objs os @ [on_state IncreaseReferenceCount (new_blocks (block_num (ShmConf_Update n))
      (on_state (\<lambda>_. State_construct (ceiling_msg_size (ShmConf_Update n))) (on_block k f (on_state IncreaseReferenceCount ?z))))]"
    using c i o2 by (simp add: os_update_last)
  also have "\<dots> = os_objs os @ [fresh_obj (ShmConf_Update n)]"
    using assms(1,8) by (auto simp: fresh_obj_def on_state_def on_block_def new_blocks_def zero_obj_def fun_eq_iff)
  finally have o3: "os_objs os3 = os_objs os @ [fresh_obj (ShmConf_Update n)]" .
  then have obj: "os_objs os3 ! i = fresh_obj (ShmConf_Update n)" "i < length (os_objs os3)" using i by simp_all
  have "attached i s' os3"
    using c obj fresh_obj_ok [of n] by (auto simp: attached_def fill_bufs_def fresh_obj_def State_construct_def IncreaseReferenceCount_def)
  moreover have "\<not> attached i s2' os3"
    using s2 ne obj by (auto simp: attached_def fresh_obj_def State_construct_def IncreaseReferenceCount_def)
  ultimately show ?thesis using s2 c obj
    by (simp add: fresh_obj_def zero_obj_def State_construct_def IncreaseReferenceCount_def)
qed

text \<open>C4: Whatever processes do with segments of whatever channels, of either kind, and whatever system calls
  fail, each call of a segment taken as one step:
  an initialised segment maps one whole object, its configuration is that of the object's ceiling
  and its buffers are where the layout puts them; and every block handed out for writing or reading is
  one of that object, with its own buffer, and is locked exclusively when handed out for writing.  (A call that
  comes inside another one's creation breaks this: lemma \<open>early_opener\<close>.)\<close>

theorem segments_stay_whole:
  assumes "\<forall>p. be p \<in> {XsiSegment, PosixSegment}"
    and "shm_run be cs (\<lambda>p. Segment_construct (ch p), empty_os) = Some (segs, os)"
  shows "(sm_init (segs p) \<longrightarrow> (\<exists>i. attached i (segs p) os)) \<and>
    (AcquireBlockToWrite (be p) flt n (segs p, os) = Some (Some wb, s', os') \<longrightarrow> (\<exists>i. locked_block wb i s' os')) \<and>
    (AcquireBlockToRead (be p) flt index (segs p, os) = Some (Some rb, s'', os'') \<longrightarrow>
      (\<exists>i. attached i s'' os'' \<and> block_of rb i s''))"
proof -
  have ok: "os_ok os" "seg_ok (segs p) os" using shm_run_ok [OF assms] start_ok by blast+
  have "be p = XsiSegment \<or> be p = PosixSegment" using assms(1) by blast
  then show ?thesis
    using ok xsi.AcquireBlockToWrite_grows [OF ok] posix.AcquireBlockToWrite_grows [OF ok]
      xsi.AcquireBlockToRead_grows [OF ok] posix.AcquireBlockToRead_grows [OF ok]
    by (auto simp: seg_ok_def)
qed

text \<open>C34: When a writer has recreated the segment of a channel for longer messages, a reader that still gets a
  block index of the old, longer array checks it against the old number of blocks, maps the new object
  and then uses a block outside its array.\<close>

theorem stale_index_undefined:
  assumes "(be, nm) \<in> {(XsiSegment, Xsi_name), (PosixSegment, Posix_name)}"
    and "os_ok os" "attached i s os" "need_remap (so_state (os_objs os ! i))"
    and "os_open (nm (sm_channel s)) os = Some j" "obj_ok (os_objs os ! j)"
    and "block_num (ShmConf_Update (st_ceiling_msg_size (so_state (os_objs os ! j)))) \<le> ucast index"
    and "ucast index < block_num (sm_conf s)"
  shows "AcquireBlockToRead be no_faults index (s, os) = None"
proof -
  have sz: "so_size (os_objs os ! j) \<noteq> 0"
    using assms(6) by (cases rule: conf_cases [of "st_ceiling_msg_size (so_state (os_objs os ! j))"])
      (auto simp: obj_ok_def Let_def)
  have "GetBlockNum (st_ceiling_msg_size (so_state (os_objs os ! j))) \<le> ucast index"
    using assms(6,7) by (simp add: obj_ok_def Let_def ShmConf_Update_def)
  then show ?thesis
    using xsi.stale_index [OF assms(2-4) _ sz _ assms(8)] posix.stale_index [OF assms(2-4) _ sz _ assms(8)] assms(1,5)
    by auto
qed


lemma attached_state: "attached i s os \<Longrightarrow> sm_state s = Some i"
  by (simp add: attached_def)

text \<open>A writer takes a block, a reader opens the segment, the writer recreates it for longer messages.\<close>

definition demo_calls :: "(nat \<times> faults \<times> seg_op) list" where
  "demo_calls = [(0, no_faults, OpAcquireWrite 100), (1, no_faults, OpAcquireRead 7), (0, no_faults, OpAcquireWrite 70000)]"

definition demo_shm :: "((nat \<Rightarrow> segment) \<times> shm_os) option" where
  "demo_shm = shm_run (\<lambda>_. XsiSegment) demo_calls (\<lambda>p. Segment_construct 5, empty_os)"

lemma demo_shm_eval:
  "case demo_shm of
     None \<Rightarrow> False
   | Some (segs, os) \<Rightarrow>
       sm_init (segs 0) \<and> sm_state (segs 0) = Some 1 \<and> sm_init (segs 1) \<and> sm_state (segs 1) = Some 0 \<and>
       sm_channel (segs 1) = 5 \<and> block_num (sm_conf (segs 1)) = 512 \<and> os_open (Xsi_name 5) os = Some 1 \<and>
       need_remap (so_state (os_objs os ! 0)) \<and> obj_ok (os_objs os ! 1) \<and>
       st_ceiling_msg_size (so_state (os_objs os ! 1)) = 131072"
  by code_simp

lemma demo_shm_facts:
  obtains segs os where "demo_shm = Some (segs, os)"
    "shm_run (\<lambda>_. XsiSegment) demo_calls (\<lambda>p. Segment_construct 5, empty_os) = Some (segs, os)"
    "sm_init (segs 0)" "sm_state (segs 0) = Some 1" "sm_init (segs 1)" "sm_state (segs 1) = Some 0"
    "sm_channel (segs 1) = 5" "block_num (sm_conf (segs 1)) = 512" "os_open (Xsi_name 5) os = Some 1"
    "need_remap (so_state (os_objs os ! 0))" "obj_ok (os_objs os ! 1)"
    "st_ceiling_msg_size (so_state (os_objs os ! 1)) = 131072"
  using demo_shm_eval by (auto simp: demo_shm_def split: option.splits)

theorem segments_stay_whole_witness:
  "\<exists>segs os. shm_run (\<lambda>_. XsiSegment) demo_calls (\<lambda>p. Segment_construct 5, empty_os) = Some (segs, os) \<and>
     attached 1 (segs 0) os \<and> attached 0 (segs 1) os"
proof (rule demo_shm_facts)
  fix segs os
  assume r: "shm_run (\<lambda>_. XsiSegment) demo_calls (\<lambda>p. Segment_construct 5, empty_os) = Some (segs, os)"
    and st: "sm_init (segs 0)" "sm_state (segs 0) = Some 1" "sm_init (segs 1)" "sm_state (segs 1) = Some 0"
  have "sm_init (segs p) \<longrightarrow> (\<exists>i. attached i (segs p) os)" for p
    using segments_stay_whole [OF _ r, of p] by blast
  then have "attached 1 (segs 0) os \<and> attached 0 (segs 1) os"
    using st by (metis attached_state option.inject)
  then show ?thesis using r by blast
qed

theorem stale_index_undefined_witness:
  "\<exists>segs os. demo_shm = Some (segs, os) \<and> AcquireBlockToRead XsiSegment no_faults 200 (segs 1, os) = None"
proof (rule demo_shm_facts)
  fix segs os
  assume d: "demo_shm = Some (segs, os)"
    and r: "shm_run (\<lambda>_. XsiSegment) demo_calls (\<lambda>p. Segment_construct 5, empty_os) = Some (segs, os)"
    and st: "sm_init (segs 1)" "sm_state (segs 1) = Some 0"
    and f: "sm_channel (segs 1) = 5" "block_num (sm_conf (segs 1)) = 512" "os_open (Xsi_name 5) os = Some 1"
      "need_remap (so_state (os_objs os ! 0))" "obj_ok (os_objs os ! 1)"
      "st_ceiling_msg_size (so_state (os_objs os ! 1)) = 131072"
  have ok: "os_ok os" "seg_ok (segs 1) os" using shm_run_ok [OF _ r] start_ok by blast+
  then have "attached 0 (segs 1) os" using st by (metis attached_state option.inject seg_ok_def)
  then have "AcquireBlockToRead XsiSegment no_faults 200 (segs 1, os) = None"
    using ok(1) f
    by (intro stale_index_undefined [of XsiSegment Xsi_name os 0 "segs 1" 1])
      (simp_all add: ShmConf_Update_def GetCeilingMessageSize_def GetBlockNum_def Let_def shm_sizes)
  then show ?thesis using d by blast
qed

theorem writable_block_found_witness:
  "next_writable (\<lambda>t. t = 1) 0 512 (write_locked 3 (seq_at 3 (fresh_obj (ShmConf_Update 100))))
     = Some (5, write_locked 5 (write_locked 3 (seq_at 6 (fresh_obj (ShmConf_Update 100)))))"
proof -
  let ?o = "write_locked 3 (seq_at 3 (fresh_obj (ShmConf_Update 100)))" and ?sp = "\<lambda>t. t = (1 :: nat)"
  have c: "ShmConf_Update 100 = \<lparr> ceiling_msg_size = 16384, block_buf_size = 17408, block_num = 512, managed_shm_size = 9442304 \<rparr>"
    by (simp add: ShmConf_Update_def GetCeilingMessageSize_def GetBlockBufSize_def GetBlockNum_def Let_def shm_sizes)
  have st: "st_ceiling_msg_size (so_state ?o) = ceiling_msg_size (ShmConf_Update 100)"
    "seq (so_state ?o) = 3"
    by (simp_all add: write_locked_def on_block_def seq_at_def fresh_obj_def IncreaseReferenceCount_def State_construct_def)
  have free: "blk_free ?o 5" "\<not> blk_free ?o 3"
    by (simp_all add: blk_free_def write_locked_def on_block_def seq_at_def fresh_obj_def zero_obj_def Block_construct_def shm_sizes)
  have t: "try_index 512 ?o 0 = 3" "try_index 512 ?o 2 = 5" by (simp_all add: try_index_def st(2))
  note found = writable_block_found [of 512 100 ?o ?sp 0]
  have "\<not> (\<forall>k. blk_free ?o (try_index 512 ?o k) \<longrightarrow> ?sp k)" using free(1) t(2) by (metis numeral_One numeral_eq_iff semiring_norm(85))
  then have "next_writable ?sp 0 512 ?o \<noteq> None" using found st(1) c by auto
  then obtain j o2 where n: "next_writable ?sp 0 512 ?o = Some (j, o2)" by auto
  then obtain k where k: "ucast j = try_index 512 ?o k" "\<forall>l < k. blk_free ?o (try_index 512 ?o l) \<longrightarrow> ?sp l"
    "blk_free ?o (try_index 512 ?o k)" "\<not> ?sp k" "o2 = write_locked (try_index 512 ?o k) (seq_at (Suc k) ?o)"
    using found st(1) c by auto
  have "k = 2"
  proof (rule antisym)
    show "k \<le> 2" using k(2) t(2) free(1) by (metis not_le_imp_less numeral_One numeral_eq_iff semiring_norm(85))
    have "k \<noteq> 0" using k(3) t(1) free(2) by (cases k) auto
    then show "2 \<le> k" using k(4) by simp
  qed
  then have "take_bit 64 (unat j) = 5" using k(1) t(2) by (simp add: unat_inject_iff unsigned_ucast_eq)
  moreover have "unat j < 2 ^ 64" using unsigned_less [of j, where 'a = nat] by simp
  ultimately have "j = 5" by (simp add: unat_inject_iff take_bit_nat_eq_self)
  moreover have "seq_at (Suc 2) ?o = write_locked 3 (seq_at 6 (fresh_obj (ShmConf_Update 100)))"
    by (simp add: write_locked_def on_block_def seq_at_def)
  ultimately show ?thesis using n k(5) t(2) \<open>k = 2\<close> by simp
qed

end
