(* ===== verification/ShmNotifier.thy ===== *)
theory ShmNotifier
  imports Prelude
begin

text \<open>
  The notification ring of the shared memory transport (transport/shm/condition_notifier.h/.cpp and
  readable_info.h/.cpp): \<open>ReadableInfo\<close>, the \<open>Indicator\<close> every process maps, \<open>Notify\<close> and \<open>Listen\<close>; then the
  interleaving of any number of notifying processes with one listener, where the counter is advanced,
  each field of an entry is copied and its sequence number is stored in separate steps.
\<close>

section \<open>Data\<close>

record ReadableInfo =
  ri_host_id :: u64
  ri_block_index :: u32
  ri_channel_id :: u64

definition ReadableInfo_construct :: ReadableInfo where
  "ReadableInfo_construct = \<lparr> ri_host_id = 0, ri_block_index = 0, ri_channel_id = 0 \<rparr>"

text \<open>\<open>operator=\<close> copies field by field, in this order.\<close>

definition assign_field :: "nat \<Rightarrow> ReadableInfo \<Rightarrow> ReadableInfo \<Rightarrow> ReadableInfo" where
  "assign_field k other self =
     (if k = 0 then self\<lparr> ri_host_id := ri_host_id other \<rparr>
      else if k = 1 then self\<lparr> ri_block_index := ri_block_index other \<rparr>
      else self\<lparr> ri_channel_id := ri_channel_id other \<rparr>)"

definition ReadableInfo_assign :: "ReadableInfo \<Rightarrow> ReadableInfo \<Rightarrow> ReadableInfo" where
  "ReadableInfo_assign other self = assign_field 2 other (assign_field 1 other (assign_field 0 other self))"

definition KBufLength :: u64 where "KBufLength = 4096"

record indicator =
  ind_next_seq :: u64
  ind_infos :: "u64 \<Rightarrow> ReadableInfo"
  ind_seqs :: "u64 \<Rightarrow> u64"

definition Indicator_construct :: indicator where
  "Indicator_construct = \<lparr> ind_next_seq = 0, ind_infos = (\<lambda>_. ReadableInfo_construct), ind_seqs = (\<lambda>_. 0) \<rparr>"

section \<open>One process at a time\<close>

definition CN_Notify :: "bool \<Rightarrow> ReadableInfo \<Rightarrow> indicator \<Rightarrow> bool \<times> indicator" where
  "CN_Notify is_shutdown info ind =
     (if is_shutdown then (False, ind)
      else
        (let seq = ind_next_seq ind; idx = seq mod KBufLength
         in (True, ind\<lparr> ind_next_seq := seq + 1,
              ind_infos := (ind_infos ind)(idx := ReadableInfo_assign info (ind_infos ind idx)),
              ind_seqs := (ind_seqs ind)(idx := seq) \<rparr>)))"

text \<open>One look of the loop of \<open>Listen\<close> at the indicator: the entry and the new \<open>next_seq_\<close>.\<close>

definition listen_look :: "u64 \<Rightarrow> indicator \<Rightarrow> (ReadableInfo \<times> u64) option" where
  "listen_look next_seq ind =
     (if ind_next_seq ind \<noteq> next_seq then
        (let idx = next_seq mod KBufLength; actual_seq = ind_seqs ind idx
         in if next_seq \<le> actual_seq then Some (ind_infos ind idx, actual_seq + 1) else None)
      else None)"

text \<open>\<open>mem i\<close> is what the loop finds in its \<open>i\<close>-th iteration: the shutdown flag and the indicator.\<close>

function listen_loop :: "(nat \<Rightarrow> bool \<times> indicator) \<Rightarrow> nat \<Rightarrow> int \<Rightarrow> u64 \<Rightarrow> ReadableInfo option \<times> u64" where
  "listen_loop mem i timeout_us next_seq =
     (if fst (mem i) then (None, next_seq)
      else case listen_look next_seq (snd (mem i)) of
             Some (info, next_seq1) \<Rightarrow> (Some info, next_seq1)
           | None \<Rightarrow> if 0 < timeout_us then listen_loop mem (Suc i) (timeout_us - 50) next_seq else (None, next_seq))"
  by pat_completeness auto
termination by (relation "measure (\<lambda>(mem, i, t, n). nat t)") auto

declare listen_loop.simps [simp del]

definition CN_Listen :: "(nat \<Rightarrow> bool \<times> indicator) \<Rightarrow> int \<Rightarrow> u64 \<Rightarrow> ReadableInfo option \<times> u64" where
  "CN_Listen mem timeout_ms next_seq = listen_loop mem 0 (timeout_ms * 1000) next_seq"

section \<open>Interleaving\<close>

text \<open>A process in \<open>Notify\<close>: it took \<open>seq\<close> and has copied \<open>k\<close> fields of its entry.  The listener in
  \<open>Listen\<close>: it saw that the counter moved; it accepted \<open>actual_seq\<close> and has copied \<open>k\<close> fields.  \<open>nt_log\<close>
  lists the notifications in the order of their sequence numbers, \<open>nt_outs\<close> what \<open>Listen\<close> returned.\<close>

datatype notify_pc = NtIdle | NtWrite u64 ReadableInfo nat
datatype listen_pc = LsIdle | LsCheck | LsRead nat

record nt =
  nt_ind :: indicator
  nt_writer :: "nat \<Rightarrow> notify_pc"
  nt_pc :: listen_pc
  nt_next :: u64
  nt_info :: ReadableInfo
  nt_log :: "ReadableInfo list"
  nt_outs :: "ReadableInfo list"

abbreviation ring_slot :: "u64 \<Rightarrow> u64" where "ring_slot seq \<equiv> seq mod KBufLength"

inductive notify_step :: "nat \<Rightarrow> nt \<Rightarrow> nt \<Rightarrow> bool" for p where
  take_seq: "nt_writer s p = NtIdle \<Longrightarrow>
    notify_step p s (s\<lparr> nt_ind := (nt_ind s)\<lparr> ind_next_seq := ind_next_seq (nt_ind s) + 1 \<rparr>,
      nt_writer := (nt_writer s)(p := NtWrite (ind_next_seq (nt_ind s)) info 0), nt_log := nt_log s @ [info] \<rparr>)"
| copy_in: "nt_writer s p = NtWrite seq info k \<Longrightarrow> k < 3 \<Longrightarrow>
    notify_step p s (s\<lparr> nt_ind := (nt_ind s)\<lparr> ind_infos :=
        (ind_infos (nt_ind s))(ring_slot seq := assign_field k info (ind_infos (nt_ind s) (ring_slot seq))) \<rparr>,
      nt_writer := (nt_writer s)(p := NtWrite seq info (Suc k)) \<rparr>)"
| publish: "nt_writer s p = NtWrite seq info 3 \<Longrightarrow>
    notify_step p s (s\<lparr> nt_ind := (nt_ind s)\<lparr> ind_seqs := (ind_seqs (nt_ind s))(ring_slot seq := seq) \<rparr>,
      nt_writer := (nt_writer s)(p := NtIdle) \<rparr>)"

inductive listen_step :: "nt \<Rightarrow> nt \<Rightarrow> bool" where
  moved: "nt_pc s = LsIdle \<Longrightarrow> ind_next_seq (nt_ind s) \<noteq> nt_next s \<Longrightarrow> listen_step s (s\<lparr> nt_pc := LsCheck \<rparr>)"
| accept: "nt_pc s = LsCheck \<Longrightarrow> nt_next s \<le> ind_seqs (nt_ind s) (ring_slot (nt_next s)) \<Longrightarrow>
    listen_step s (s\<lparr> nt_next := ind_seqs (nt_ind s) (ring_slot (nt_next s)), nt_pc := LsRead 0 \<rparr>)"
| not_yet: "nt_pc s = LsCheck \<Longrightarrow> \<not> nt_next s \<le> ind_seqs (nt_ind s) (ring_slot (nt_next s)) \<Longrightarrow>
    listen_step s (s\<lparr> nt_pc := LsIdle \<rparr>)"
| copy_out: "nt_pc s = LsRead k \<Longrightarrow> k < 3 \<Longrightarrow>
    listen_step s (s\<lparr> nt_info := assign_field k (ind_infos (nt_ind s) (ring_slot (nt_next s))) (nt_info s), nt_pc := LsRead (Suc k) \<rparr>)"
| return: "nt_pc s = LsRead 3 \<Longrightarrow>
    listen_step s (s\<lparr> nt_next := nt_next s + 1, nt_outs := nt_outs s @ [nt_info s], nt_pc := LsIdle \<rparr>)"

inductive nt_step :: "nt \<Rightarrow> nt \<Rightarrow> bool" where
  by_notifier: "notify_step p s t \<Longrightarrow> nt_step s t"
| by_listener: "listen_step s t \<Longrightarrow> nt_step s t"

text \<open>The ring has not gone round past the listener.\<close>

definition lap_free :: "nt \<Rightarrow> bool" where
  "lap_free s \<longleftrightarrow> unat (ind_next_seq (nt_ind s)) \<le> unat (nt_next s) + unat KBufLength"

text \<open>A listener that starts while nobody is in \<open>Notify\<close>, and all entries are older than its counter.\<close>

definition listen_start :: "nt \<Rightarrow> bool" where
  "listen_start s \<longleftrightarrow> nt_next s = ind_next_seq (nt_ind s) \<and> nt_pc s = LsIdle \<and> nt_log s = [] \<and> nt_outs s = [] \<and>
     (\<forall>p. nt_writer s p = NtIdle) \<and> (\<forall>i. ind_seqs (nt_ind s) i < ind_next_seq (nt_ind s))"


section \<open>The invariant\<close>

text \<open>\<open>B\<close> is the counter at which the listener started.\<close>

definition agree :: "nat \<Rightarrow> ReadableInfo \<Rightarrow> ReadableInfo \<Rightarrow> bool" where
  "agree k a b \<longleftrightarrow> (0 < k \<longrightarrow> ri_host_id b = ri_host_id a) \<and> (1 < k \<longrightarrow> ri_block_index b = ri_block_index a) \<and>
     (2 < k \<longrightarrow> ri_channel_id b = ri_channel_id a)"

lemma agree_none [simp]: "agree 0 a b" "agree k a a"
  by (simp_all add: agree_def)

lemma agree_field: "agree k a b \<Longrightarrow> k < 3 \<Longrightarrow> agree (Suc k) a (assign_field k a b)"
  by (auto simp: agree_def assign_field_def)

lemma agree_all: "agree 3 a b \<Longrightarrow> b = a"
  by (simp add: agree_def)

definition live :: "nat \<Rightarrow> nt \<Rightarrow> u64 \<Rightarrow> bool" where
  "live B s j \<longleftrightarrow> unat (nt_next s) \<le> unat j \<and> unat j < B + length (nt_log s)"

definition pending :: "nt \<Rightarrow> u64 \<Rightarrow> bool" where
  "pending s j \<longleftrightarrow> (\<exists>p info k. nt_writer s p = NtWrite j info k)"

definition inv_count :: "nat \<Rightarrow> nt \<Rightarrow> bool" where
  "inv_count B s \<longleftrightarrow> unat (ind_next_seq (nt_ind s)) = B + length (nt_log s) \<and> B \<le> unat (nt_next s) \<and>
     unat (nt_next s) \<le> B + length (nt_log s) \<and> B + length (nt_log s) \<le> unat (nt_next s) + 4096 \<and>
     nt_outs s = take (unat (nt_next s) - B) (nt_log s)"

definition inv_writer :: "nat \<Rightarrow> nt \<Rightarrow> bool" where
  "inv_writer B s \<longleftrightarrow> (\<forall>p j info k. nt_writer s p = NtWrite j info k \<longrightarrow>
     live B s j \<and> info = nt_log s ! (unat j - B) \<and> k \<le> 3 \<and> agree k info (ind_infos (nt_ind s) (ring_slot j)))"

definition inv_unique :: "nt \<Rightarrow> bool" where
  "inv_unique s \<longleftrightarrow> (\<forall>p q j a b k l. nt_writer s p = NtWrite j a k \<and> nt_writer s q = NtWrite j b l \<longrightarrow> p = q)"

definition inv_done :: "nat \<Rightarrow> nt \<Rightarrow> bool" where
  "inv_done B s \<longleftrightarrow> (\<forall>j. live B s j \<and> \<not> pending s j \<longrightarrow>
     ind_seqs (nt_ind s) (ring_slot j) = j \<and> ind_infos (nt_ind s) (ring_slot j) = nt_log s ! (unat j - B))"

definition inv_old :: "nat \<Rightarrow> nt \<Rightarrow> bool" where
  "inv_old B s \<longleftrightarrow> (\<forall>i. unat (nt_next s) \<le> unat (ind_seqs (nt_ind s) i) \<longrightarrow>
     live B s (ind_seqs (nt_ind s) i) \<and> ring_slot (ind_seqs (nt_ind s) i) = i \<and> \<not> pending s (ind_seqs (nt_ind s) i))"

definition inv_pc :: "nat \<Rightarrow> nt \<Rightarrow> bool" where
  "inv_pc B s \<longleftrightarrow> (\<forall>k. nt_pc s = LsRead k \<longrightarrow>
     live B s (nt_next s) \<and> \<not> pending s (nt_next s) \<and> k \<le> 3 \<and> agree k (nt_log s ! (unat (nt_next s) - B)) (nt_info s))"

definition nt_inv :: "nat \<Rightarrow> nt \<Rightarrow> bool" where
  "nt_inv B s \<longleftrightarrow> inv_count B s \<and> inv_writer B s \<and> inv_unique s \<and> inv_done B s \<and> inv_old B s \<and> inv_pc B s"

lemma unat_slot: "unat (ring_slot j) = unat j mod 4096"
  by (simp add: KBufLength_def unat_mod)

lemma live_slot:
  assumes "inv_count B s" "live B s a" "live B s b" "ring_slot a = ring_slot b"
  shows "a = b"
proof -
  have "unat a mod 4096 = unat b mod 4096" using assms(4) by (metis unat_slot)
  then have "unat a = unat b"
    using ring_distinct_window [of "unat a" 4096 "unat b" "unat (nt_next s)"] assms(1-3)
    by (auto simp: inv_count_def live_def)
  then show ?thesis by (simp add: unat_inject_iff)
qed

lemma nt_inv_take:
  assumes inv: "nt_inv B s" and idle: "nt_writer s p = NtIdle" and b: "B + length (nt_log s) < 2 ^ 64 - 1"
    and t: "t = s\<lparr> nt_ind := (nt_ind s)\<lparr> ind_next_seq := ind_next_seq (nt_ind s) + 1 \<rparr>,
      nt_writer := (nt_writer s)(p := NtWrite (ind_next_seq (nt_ind s)) info 0), nt_log := nt_log s @ [info] \<rparr>"
    and lap: "lap_free t"
  shows "nt_inv B t"
proof -
  let ?n = "ind_next_seq (nt_ind s)"
  have c: "inv_count B s" and w: "inv_writer B s" and u: "inv_unique s" and d: "inv_done B s"
    and o: "inv_old B s" and pc: "inv_pc B s" using inv by (simp_all add: nt_inv_def)
  have n: "unat ?n = B + length (nt_log s)" using c by (simp add: inv_count_def)
  have n1: "unat (?n + 1) = Suc (unat ?n)" using n b by (simp add: unat_add_one_nowrap)
  have len: "length (nt_log t) = Suc (length (nt_log s))" by (simp add: t)
  have c': "inv_count B t" using c lap n1 by (auto simp: inv_count_def t lap_free_def KBufLength_def)
  have lv: "live B t j \<longleftrightarrow> live B s j \<or> j = ?n" for j
    using c n by (auto simp: live_def t inv_count_def less_Suc_eq word_unat_eq_iff)
  have pd: "pending t j \<longleftrightarrow> pending s j \<or> j = ?n" for j
    using idle by (auto simp: t pending_def) (metis notify_pc.distinct(1))
  have ent: "live B s j \<Longrightarrow> nt_log t ! (unat j - B) = nt_log s ! (unat j - B)" for j
    using c by (auto simp: live_def t nth_append inv_count_def)
  have entn: "nt_log t ! (unat ?n - B) = info" by (simp add: t n)
  have nlive: "\<not> live B s ?n" using n by (simp add: live_def)
  have npend: "\<not> pending s ?n" using w nlive by (auto simp: inv_writer_def pending_def)
  have w': "inv_writer B t"
    unfolding inv_writer_def
  proof (intro allI impI)
    fix q j i k assume q: "nt_writer t q = NtWrite j i k"
    show "live B t j \<and> i = nt_log t ! (unat j - B) \<and> k \<le> 3 \<and> agree k i (ind_infos (nt_ind t) (ring_slot j))"
    proof (cases "q = p")
      case True then show ?thesis using q entn lv by (auto simp: t)
    next
      case False
      then have q0: "nt_writer s q = NtWrite j i k" using q by (simp add: t)
      then show ?thesis using w lv ent by (auto simp: inv_writer_def t)
    qed
  qed
  have u': "inv_unique t"
    using u npend by (auto simp: inv_unique_def t pending_def split: if_splits)
  have d': "inv_done B t"
    using d lv pd ent by (auto simp: inv_done_def) (auto simp: t)
  have sq: "ind_seqs (nt_ind t) = ind_seqs (nt_ind s)" "nt_next t = nt_next s" by (simp_all add: t)
  have o': "inv_old B t" using o nlive unfolding inv_old_def sq lv pd by metis
  have pc': "inv_pc B t"
    using pc lv pd ent nlive by (auto simp: inv_pc_def) (auto simp: t)
  show ?thesis using c' w' u' d' o' pc' by (simp add: nt_inv_def)
qed

lemma nt_inv_copy_in:
  assumes inv: "nt_inv B s" and q: "nt_writer s p = NtWrite seq info k" and k: "k < 3"
    and t: "t = s\<lparr> nt_ind := (nt_ind s)\<lparr> ind_infos :=
        (ind_infos (nt_ind s))(ring_slot seq := assign_field k info (ind_infos (nt_ind s) (ring_slot seq))) \<rparr>,
      nt_writer := (nt_writer s)(p := NtWrite seq info (Suc k)) \<rparr>"
  shows "nt_inv B t"
proof -
  have c: "inv_count B s" and w: "inv_writer B s" and u: "inv_unique s" and d: "inv_done B s"
    and o: "inv_old B s" and pc: "inv_pc B s" using inv by (simp_all add: nt_inv_def)
  have fr: "ind_seqs (nt_ind t) = ind_seqs (nt_ind s)" "nt_next t = nt_next s" "nt_log t = nt_log s"
    "nt_pc t = nt_pc s" "nt_info t = nt_info s" "nt_outs t = nt_outs s"
    "ind_next_seq (nt_ind t) = ind_next_seq (nt_ind s)" by (simp_all add: t)
  have lv: "live B t j \<longleftrightarrow> live B s j" for j by (simp add: live_def fr)
  have pd: "pending t j \<longleftrightarrow> pending s j" for j
    using q by (auto simp: t pending_def) (metis notify_pc.inject)
  have sl: "live B s seq" "info = nt_log s ! (unat seq - B)" "agree k info (ind_infos (nt_ind s) (ring_slot seq))"
    using w q by (auto simp: inv_writer_def)
  have ps: "pending s seq" using q by (auto simp: pending_def)
  have other: "ind_infos (nt_ind t) (ring_slot j) = ind_infos (nt_ind s) (ring_slot j)" if "live B s j" "j \<noteq> seq" for j
    using live_slot [OF c that(1) sl(1)] that(2) by (auto simp: t)
  have here: "ind_infos (nt_ind t) (ring_slot seq) = assign_field k info (ind_infos (nt_ind s) (ring_slot seq))" by (simp add: t)
  have w': "inv_writer B t"
    unfolding inv_writer_def lv fr
  proof (intro allI impI)
    fix r j i l assume r: "nt_writer t r = NtWrite j i l"
    show "live B s j \<and> i = nt_log s ! (unat j - B) \<and> l \<le> 3 \<and> agree l i (ind_infos (nt_ind t) (ring_slot j))"
    proof (cases "r = p")
      case True
      then have "j = seq" "i = info" "l = Suc k" using r by (simp_all add: t)
      then show ?thesis using sl k agree_field [OF sl(3) k] here by auto
    next
      case False
      then have r0: "nt_writer s r = NtWrite j i l" using r by (simp add: t)
      then have "j \<noteq> seq" using False q u by (auto simp: inv_unique_def)
      moreover have "live B s j \<and> i = nt_log s ! (unat j - B) \<and> l \<le> 3 \<and> agree l i (ind_infos (nt_ind s) (ring_slot j))"
        using w r0 by (auto simp: inv_writer_def)
      ultimately show ?thesis using other by auto
    qed
  qed
  have u': "inv_unique t"
    unfolding inv_unique_def
  proof (intro allI impI)
    fix r r' j a b l l' assume "nt_writer t r = NtWrite j a l \<and> nt_writer t r' = NtWrite j b l'"
    then have "\<exists>l. nt_writer s r = NtWrite j a l" "\<exists>l. nt_writer s r' = NtWrite j b l"
      using q by (auto simp: t split: if_splits)
    then show "r = r'" using u by (auto simp: inv_unique_def)
  qed
  have d': "inv_done B t"
    using d other ps unfolding inv_done_def lv pd fr by metis
  have "inv_count B t" "inv_old B t" "inv_pc B t"
    using c o pc by (simp_all add: inv_count_def inv_old_def inv_pc_def lv pd fr)
  then show ?thesis using w' u' d' by (simp add: nt_inv_def)
qed

lemma nt_inv_publish:
  assumes inv: "nt_inv B s" and q: "nt_writer s p = NtWrite seq info 3"
    and t: "t = s\<lparr> nt_ind := (nt_ind s)\<lparr> ind_seqs := (ind_seqs (nt_ind s))(ring_slot seq := seq) \<rparr>,
      nt_writer := (nt_writer s)(p := NtIdle) \<rparr>"
  shows "nt_inv B t"
proof -
  have c: "inv_count B s" and w: "inv_writer B s" and u: "inv_unique s" and d: "inv_done B s"
    and o: "inv_old B s" and pc: "inv_pc B s" using inv by (simp_all add: nt_inv_def)
  have fr: "ind_infos (nt_ind t) = ind_infos (nt_ind s)" "nt_next t = nt_next s" "nt_log t = nt_log s"
    "nt_pc t = nt_pc s" "nt_info t = nt_info s" "nt_outs t = nt_outs s"
    "ind_next_seq (nt_ind t) = ind_next_seq (nt_ind s)" by (simp_all add: t)
  have lv: "live B t j \<longleftrightarrow> live B s j" for j by (simp add: live_def fr)
  have uniq: "nt_writer s r = NtWrite seq a l \<Longrightarrow> r = p" for r a l using u q by (auto simp: inv_unique_def)
  have "pending t j \<longleftrightarrow> (\<exists>r i k. r \<noteq> p \<and> nt_writer s r = NtWrite j i k)" for j
    by (auto simp: t pending_def)
  then have pd: "pending t j \<longleftrightarrow> pending s j \<and> j \<noteq> seq" for j
    using q uniq unfolding pending_def by (metis notify_pc.inject)
  have "live B s seq \<and> info = nt_log s ! (unat seq - B) \<and> agree 3 info (ind_infos (nt_ind s) (ring_slot seq))"
    using w q unfolding inv_writer_def by blast
  then have sl: "live B s seq" "info = nt_log s ! (unat seq - B)" "ind_infos (nt_ind s) (ring_slot seq) = info"
    by (auto dest: agree_all)
  have ps: "pending s seq" using q by (auto simp: pending_def)
  have sq: "ind_seqs (nt_ind t) i = (if i = ring_slot seq then seq else ind_seqs (nt_ind s) i)" for i by (simp add: t)
  have w': "inv_writer B t" using w unfolding inv_writer_def lv fr by (auto simp: t split: if_splits)
  have u': "inv_unique t" using u by (auto simp: inv_unique_def t split: if_splits)
  have d': "inv_done B t"
    unfolding inv_done_def lv pd fr
  proof (intro allI impI)
    fix j assume j: "live B s j \<and> \<not> (pending s j \<and> j \<noteq> seq)"
    show "ind_seqs (nt_ind t) (ring_slot j) = j \<and> ind_infos (nt_ind s) (ring_slot j) = nt_log s ! (unat j - B)"
    proof (cases "j = seq")
      case True then show ?thesis using sl sq by simp
    next
      case False
      then have "ring_slot j \<noteq> ring_slot seq" using live_slot [OF c _ sl(1)] j by blast
      then show ?thesis using d j False sq by (auto simp: inv_done_def)
    qed
  qed
  have o': "inv_old B t"
    unfolding inv_old_def lv pd fr sq using o sl(1) by (auto simp: inv_old_def)
  have "inv_count B t" "inv_pc B t"
    using c pc by (simp_all add: inv_count_def inv_pc_def lv pd fr)
  then show ?thesis using w' u' d' o' by (simp add: nt_inv_def)
qed

lemma nt_inv_listen:
  assumes inv: "nt_inv B s" and b: "B + length (nt_log s) < 2 ^ 64" and st: "listen_step s t"
  shows "nt_inv B t \<and> nt_log t = nt_log s"
proof -
  have c: "inv_count B s" and w: "inv_writer B s" and u: "inv_unique s" and d: "inv_done B s"
    and o: "inv_old B s" and pc: "inv_pc B s" using inv by (simp_all add: nt_inv_def)
  note frame = inv_count_def inv_writer_def inv_unique_def inv_done_def inv_old_def inv_pc_def live_def pending_def
  from st show ?thesis
  proof cases
    case moved
    then show ?thesis using inv by (simp add: nt_inv_def frame)
  next
    case not_yet
    then show ?thesis using inv by (simp add: nt_inv_def frame)
  next
    case accept
    let ?a = "ind_seqs (nt_ind s) (ring_slot (nt_next s))"
    have a: "live B s ?a" "ring_slot ?a = ring_slot (nt_next s)" "\<not> pending s ?a"
      using o accept(3) by (auto simp: inv_old_def word_le_nat_alt)
    then have "live B s (nt_next s)" by (simp add: live_def)
    then have "?a = nt_next s" using live_slot [OF c a(1) _ a(2)] by simp
    then have "t = s\<lparr> nt_pc := LsRead 0 \<rparr>" using accept(1) by (simp add: accept(1))
    moreover have "live B s (nt_next s) \<and> \<not> pending s (nt_next s)" using a \<open>?a = nt_next s\<close> by simp
    ultimately show ?thesis using inv by (simp add: nt_inv_def frame)
  next
    case (copy_out k)
    have p: "live B s (nt_next s)" "\<not> pending s (nt_next s)" "agree k (nt_log s ! (unat (nt_next s) - B)) (nt_info s)"
      using pc copy_out(2) by (auto simp: inv_pc_def)
    have "ind_infos (nt_ind s) (ring_slot (nt_next s)) = nt_log s ! (unat (nt_next s) - B)"
      using d p by (simp add: inv_done_def)
    then have "inv_pc B t"
      using agree_field [OF p(3) copy_out(3)] p copy_out(1,3) by (simp add: inv_pc_def live_def pending_def)
    moreover have "inv_count B t" "inv_writer B t" "inv_unique t" "inv_done B t" "inv_old B t"
      using c w u d o copy_out(1)
      by (simp_all add: inv_count_def inv_writer_def inv_unique_def inv_done_def inv_old_def live_def pending_def)
    ultimately show ?thesis using copy_out(1) by (simp add: nt_inv_def)
  next
    case return
    let ?n = "nt_next s"
    have p: "live B s ?n" "\<not> pending s ?n" "nt_info s = nt_log s ! (unat ?n - B)"
      using pc return(2) by (auto simp: inv_pc_def dest: agree_all)
    have n1: "unat (?n + 1) = Suc (unat ?n)" using p(1) b by (simp add: unat_add_one_nowrap live_def)
    have lv: "live B t j \<longleftrightarrow> live B s j \<and> j \<noteq> ?n" for j
      by (auto simp: live_def return(1) n1 word_unat_eq_iff)
    have pd: "pending t j \<longleftrightarrow> pending s j" for j by (simp add: pending_def return(1))
    have fr: "nt_ind t = nt_ind s" "nt_writer t = nt_writer s" "nt_log t = nt_log s" "nt_pc t = LsIdle"
      "nt_next t = ?n + 1" by (simp_all add: return(1))
    have "inv_count B t"
      using c p n1 by (auto simp: inv_count_def return(1) live_def take_Suc_conv_app_nth Suc_diff_le)
    moreover have "inv_writer B t" using w p(2) unfolding inv_writer_def lv fr pending_def by metis
    moreover have "inv_unique t" "inv_done B t" "inv_pc B t"
      using u d unfolding inv_unique_def inv_done_def inv_pc_def lv pd fr by auto
    moreover have "inv_old B t"
      using o unfolding inv_old_def lv pd fr n1 by (metis Suc_leD Suc_n_not_le_n)
    ultimately show ?thesis using fr by (simp add: nt_inv_def)
  qed
qed

lemma nt_inv_step:
  assumes "nt_inv B s" "nt_step s t" "lap_free t" "B + length (nt_log t) < 2 ^ 64"
  shows "nt_inv B t"
  using assms(2)
proof cases
  case by_listener
  then have "nt_log t = nt_log s" by cases simp_all
  then show ?thesis using nt_inv_listen [OF assms(1) _ by_listener] assms(4) by simp
next
  case (by_notifier p)
  then show ?thesis
  proof cases
    case (take_seq info)
    then show ?thesis using nt_inv_take [OF assms(1) take_seq(2) _ take_seq(1) assms(3)] assms(4) by simp
  next
    case (copy_in seq info k)
    then show ?thesis using nt_inv_copy_in [OF assms(1)] by blast
  next
    case (publish seq info)
    then show ?thesis using nt_inv_publish [OF assms(1)] by blast
  qed
qed

lemma nt_log_step: "nt_step s t \<Longrightarrow> length (nt_log s) \<le> length (nt_log t)"
  by (auto elim!: nt_step.cases notify_step.cases listen_step.cases)

lemma nt_inv_run:
  assumes "(\<lambda>s t. nt_step s t \<and> lap_free t)\<^sup>*\<^sup>* s t" "listen_start s"
    and "unat (ind_next_seq (nt_ind s)) + length (nt_log t) < 2 ^ 64"
  shows "nt_inv (unat (ind_next_seq (nt_ind s))) t"
  using assms(1,3)
proof (induction rule: rtranclp_induct)
  case base
  have "\<And>i. unat (ind_seqs (nt_ind s) i) < unat (nt_next s)"
    using assms(2) by (simp add: listen_start_def word_less_nat_alt)
  then have "\<And>i. \<not> unat (nt_next s) \<le> unat (ind_seqs (nt_ind s) i)" by (simp add: not_le)
  then show ?case using assms(2)
    by (auto simp: nt_inv_def listen_start_def inv_count_def inv_writer_def inv_unique_def inv_done_def
        inv_old_def inv_pc_def live_def)
next
  case (step u v)
  then show ?case using nt_log_step [of u v] nt_inv_step by simp
qed

text \<open>The condition that all entries are older than the counter holds on every ring that is in use: it was
  made new, at least one notification has been given, and none is in progress.\<close>

definition ring_numbers :: "nt \<Rightarrow> bool" where
  "ring_numbers s \<longleftrightarrow> unat (ind_next_seq (nt_ind s)) = length (nt_log s) \<and>
     (\<forall>p j info k. nt_writer s p = NtWrite j info k \<longrightarrow> unat j < length (nt_log s)) \<and>
     (\<forall>i. ind_seqs (nt_ind s) i = 0 \<or> unat (ind_seqs (nt_ind s) i) < length (nt_log s))"

lemma ring_numbers_step:
  assumes inv: "ring_numbers s" and st: "nt_step s t" and b: "length (nt_log t) < 2 ^ 64"
  shows "ring_numbers t"
  using st
proof cases
  case by_listener
  then show ?thesis using inv by cases (simp_all add: ring_numbers_def)
next
  case (by_notifier p)
  then show ?thesis
  proof cases
    case (take_seq info)
    then have "unat (ind_next_seq (nt_ind s) + 1) = Suc (unat (ind_next_seq (nt_ind s)))"
      using inv b by (simp add: ring_numbers_def unat_add_one_nowrap)
    then show ?thesis using inv take_seq by (auto simp: ring_numbers_def less_Suc_eq)
  next
    case (copy_in sn info k)
    then show ?thesis using inv by (auto simp: ring_numbers_def split: if_splits)
  next
    case (publish sn info)
    then show ?thesis using inv by (auto simp: ring_numbers_def split: if_splits)
  qed
qed

lemma used_ring_starts:
  assumes "nt_ind s0 = Indicator_construct" "\<And>p. nt_writer s0 p = NtIdle" "nt_log s0 = []"
    and "nt_step\<^sup>*\<^sup>* s0 s" "length (nt_log s) < 2 ^ 64" "0 < ind_next_seq (nt_ind s)" "\<And>p. nt_writer s p = NtIdle"
  shows "listen_start (s\<lparr> nt_next := ind_next_seq (nt_ind s), nt_pc := LsIdle, nt_log := [], nt_outs := [] \<rparr>)"
proof -
  have "ring_numbers s"
    using assms(4,5)
  proof (induction rule: rtranclp_induct)
    case base
    then show ?case using assms(1-3) by (simp add: ring_numbers_def Indicator_construct_def)
  next
    case (step t u)
    then show ?case using ring_numbers_step [of t u] nt_log_step [of t u] by simp
  qed
  then have "ind_seqs (nt_ind s) i < ind_next_seq (nt_ind s)" for i
    using assms(6) by (auto simp: ring_numbers_def word_less_nat_alt dest!: spec [of _ i])
  then show ?thesis using assms(7) by (simp add: listen_start_def)
qed

text \<open>C6: Of a ring that is in use (all its entries are older than the counter: lemma
  \<open>used_ring_starts\<close>) a listener that starts while nobody is in \<open>Notify\<close>, and that the ring does not go
  round past, gets every later notification exactly once, whole and in
  the order of their sequence numbers, however the notifying processes and the listener interleave;
  and as soon as nobody is in the middle of \<open>Notify\<close>, \<open>Listen\<close> returns the next one at once.  On a new
  ring this does not hold of the very first notification (lemma \<open>first_entry_read_unwritten\<close>).\<close>

theorem listen_in_order:
  assumes "listen_start s" "(\<lambda>s t. nt_step s t \<and> lap_free t)\<^sup>*\<^sup>* s t"
    and "unat (ind_next_seq (nt_ind s)) + length (nt_log t) < 2 ^ 64"
  shows "nt_outs t = take (length (nt_outs t)) (nt_log t) \<and>
    ((\<forall>p. nt_writer t p = NtIdle) \<and> length (nt_outs t) < length (nt_log t) \<longrightarrow>
       CN_Listen (\<lambda>_. (False, nt_ind t)) timeout_ms (nt_next t)
         = (Some (nt_log t ! length (nt_outs t)), nt_next t + 1))"
proof -
  let ?B = "unat (ind_next_seq (nt_ind s))"
  have inv: "nt_inv ?B t" by (rule nt_inv_run [OF assms(2,1,3)])
  then have c: "inv_count ?B t" and d: "inv_done ?B t" by (simp_all add: nt_inv_def)
  have len: "length (nt_outs t) = unat (nt_next t) - ?B" using c by (auto simp: inv_count_def)
  have "CN_Listen (\<lambda>_. (False, nt_ind t)) timeout_ms (nt_next t)
         = (Some (nt_log t ! length (nt_outs t)), nt_next t + 1)"
    if i: "\<forall>p. nt_writer t p = NtIdle" "length (nt_outs t) < length (nt_log t)"
  proof -
    have l: "live ?B t (nt_next t)" "\<not> pending t (nt_next t)"
      using i c len by (auto simp: live_def pending_def inv_count_def)
    have "ind_next_seq (nt_ind t) \<noteq> nt_next t" using c l by (auto simp: inv_count_def live_def)
    then have "listen_look (nt_next t) (nt_ind t) = Some (nt_log t ! length (nt_outs t), nt_next t + 1)"
      using d l len by (simp add: listen_look_def inv_done_def Let_def)
    then show ?thesis by (simp add: CN_Listen_def listen_loop.simps)
  qed
  then show ?thesis using c len by (simp add: inv_count_def)
qed


definition demo_info :: ReadableInfo where
  "demo_info = \<lparr> ri_host_id = 7, ri_block_index = 3, ri_channel_id = 11 \<rparr>"

text \<open>A ring on which \<open>n\<close> notifications went out before the listener started.\<close>

definition demo_ring :: "u64 \<Rightarrow> nt" where
  "demo_ring n = \<lparr> nt_ind = Indicator_construct\<lparr> ind_next_seq := n \<rparr>, nt_writer = (\<lambda>_. NtIdle), nt_pc = LsIdle,
     nt_next = n, nt_info = ReadableInfo_construct, nt_log = [], nt_outs = [] \<rparr>"

definition demo_take :: "nt \<Rightarrow> nt" where
  "demo_take s = s\<lparr> nt_ind := (nt_ind s)\<lparr> ind_next_seq := ind_next_seq (nt_ind s) + 1 \<rparr>,
      nt_writer := (nt_writer s)(0 := NtWrite (ind_next_seq (nt_ind s)) demo_info 0), nt_log := nt_log s @ [demo_info] \<rparr>"

definition demo_copy :: "u64 \<Rightarrow> nat \<Rightarrow> nt \<Rightarrow> nt" where
  "demo_copy seq k s = s\<lparr> nt_ind := (nt_ind s)\<lparr> ind_infos :=
        (ind_infos (nt_ind s))(ring_slot seq := assign_field k demo_info (ind_infos (nt_ind s) (ring_slot seq))) \<rparr>,
      nt_writer := (nt_writer s)(0 := NtWrite seq demo_info (Suc k)) \<rparr>"

definition demo_publish :: "u64 \<Rightarrow> nt \<Rightarrow> nt" where
  "demo_publish seq s = s\<lparr> nt_ind := (nt_ind s)\<lparr> ind_seqs := (ind_seqs (nt_ind s))(ring_slot seq := seq) \<rparr>,
      nt_writer := (nt_writer s)(0 := NtIdle) \<rparr>"

definition demo_end :: nt where
  "demo_end = demo_publish 1 (demo_copy 1 2 (demo_copy 1 1 (demo_copy 1 0 (demo_take (demo_ring 1)))))"

lemmas demo_simps = demo_ring_def demo_take_def demo_copy_def demo_publish_def demo_end_def

lemma demo_more:
  "(\<lambda>s t. nt_step s t \<and> lap_free t)\<^sup>*\<^sup>* s t \<Longrightarrow> nt_step t u \<Longrightarrow> lap_free u \<Longrightarrow>
     (\<lambda>s t. nt_step s t \<and> lap_free t)\<^sup>*\<^sup>* s u"
  by (rule rtranclp.rtrancl_into_rtrancl) auto

lemma demo_notify: "(\<lambda>s t. nt_step s t \<and> lap_free t)\<^sup>*\<^sup>* (demo_ring 1) demo_end"
proof -
  let ?R = "\<lambda>s t. nt_step s t \<and> lap_free t"
  let ?s1 = "demo_take (demo_ring 1)" let ?s2 = "demo_copy 1 0 ?s1" let ?s3 = "demo_copy 1 1 ?s2"
  let ?s4 = "demo_copy 1 2 ?s3"
  have lf: "lap_free ?s1" "lap_free ?s2" "lap_free ?s3" "lap_free ?s4" "lap_free demo_end"
    by (simp_all add: lap_free_def demo_simps KBufLength_def)
  have w: "nt_writer ?s1 0 = NtWrite 1 demo_info 0" "nt_writer ?s2 0 = NtWrite 1 demo_info 1"
    "nt_writer ?s3 0 = NtWrite 1 demo_info 2" "nt_writer ?s4 0 = NtWrite 1 demo_info 3"
    by (simp_all add: demo_simps)
  have st1: "nt_step (demo_ring 1) ?s1"
    unfolding demo_take_def by (rule nt_step.by_notifier, rule notify_step.take_seq) (simp add: demo_simps)
  have st2: "nt_step ?s1 ?s2"
    by (subst demo_copy_def, rule nt_step.by_notifier, rule notify_step.copy_in [OF w(1)]) simp
  have st3: "nt_step ?s2 ?s3"
    by (subst demo_copy_def [of 1 1], rule nt_step.by_notifier, rule notify_step.copy_in [OF w(2)]) simp
  have st4: "nt_step ?s3 ?s4"
    by (subst demo_copy_def [of 1 2], rule nt_step.by_notifier, rule notify_step.copy_in [OF w(3)]) simp
  have st5: "nt_step ?s4 demo_end"
    unfolding demo_end_def by (subst demo_publish_def, rule nt_step.by_notifier, rule notify_step.publish [OF w(4)])
  show ?thesis
    by (rule demo_more [OF demo_more [OF demo_more [OF demo_more [OF demo_more [OF rtranclp.rtrancl_refl
      st1 lf(1)] st2 lf(2)] st3 lf(3)] st4 lf(4)] st5 lf(5)])
qed

theorem listen_in_order_witness:
  "CN_Listen (\<lambda>_. (False, nt_ind demo_end)) 100 1 = (Some demo_info, 2)"
proof -
  have "listen_start (demo_ring 1)"
    by (simp add: listen_start_def demo_ring_def Indicator_construct_def)
  moreover have "unat (ind_next_seq (nt_ind (demo_ring 1))) + length (nt_log demo_end) < 2 ^ 64"
    by (simp add: demo_simps)
  ultimately have "(\<forall>p. nt_writer demo_end p = NtIdle) \<and> length (nt_outs demo_end) < length (nt_log demo_end) \<longrightarrow>
       CN_Listen (\<lambda>_. (False, nt_ind demo_end)) 100 (nt_next demo_end)
         = (Some (nt_log demo_end ! length (nt_outs demo_end)), nt_next demo_end + 1)"
    using listen_in_order [OF _ demo_notify, where timeout_ms = 100] by blast
  then show ?thesis by (simp add: demo_simps)
qed

text \<open>On a new ring the hypothesis fails: the entries claim to hold number 0 before anything is written.
  Between the two steps of the first \<open>Notify\<close> a listener returns an entry nobody wrote.\<close>

lemma first_entry_read_unwritten:
  "CN_Listen (\<lambda>_. (False, nt_ind (demo_take (demo_ring 0)))) 100 0 = (Some ReadableInfo_construct, 1)"
  by (simp add: CN_Listen_def listen_loop.simps listen_look_def demo_simps Indicator_construct_def)

text \<open>\<open>Notify\<close> as one process alone runs it is the sequence of its steps.\<close>

lemma CN_Notify_steps:
  assumes "nt_writer s p = NtIdle"
  shows "\<exists>t. (notify_step p)\<^sup>*\<^sup>* s t \<and> nt_ind t = snd (CN_Notify False info (nt_ind s)) \<and> nt_writer t = nt_writer s"
proof -
  let ?n = "ind_next_seq (nt_ind s)"
  let ?c = "\<lambda>k u. u\<lparr> nt_ind := (nt_ind u)\<lparr> ind_infos :=
        (ind_infos (nt_ind u))(ring_slot ?n := assign_field k info (ind_infos (nt_ind u) (ring_slot ?n))) \<rparr>,
      nt_writer := (nt_writer u)(p := NtWrite ?n info (Suc k)) \<rparr>"
  let ?s1 = "s\<lparr> nt_ind := (nt_ind s)\<lparr> ind_next_seq := ?n + 1 \<rparr>,
      nt_writer := (nt_writer s)(p := NtWrite ?n info 0), nt_log := nt_log s @ [info] \<rparr>"
  let ?s4 = "?c 2 (?c 1 (?c 0 ?s1))"
  let ?s5 = "?s4\<lparr> nt_ind := (nt_ind ?s4)\<lparr> ind_seqs := (ind_seqs (nt_ind ?s4))(ring_slot ?n := ?n) \<rparr>,
      nt_writer := (nt_writer ?s4)(p := NtIdle) \<rparr>"
  have c: "notify_step p u (?c k u)" if "nt_writer u p = NtWrite ?n info k" "k < 3" for k u
    by (rule notify_step.copy_in [OF that])
  have "notify_step p s ?s1" by (rule notify_step.take_seq [OF assms])
  moreover have "notify_step p ?s1 (?c 0 ?s1)" by (rule c) simp_all
  moreover have "notify_step p (?c 0 ?s1) (?c 1 (?c 0 ?s1))" by (rule c) simp_all
  moreover have "notify_step p (?c 1 (?c 0 ?s1)) ?s4" by (rule c) simp_all
  moreover have "notify_step p ?s4 ?s5" by (rule notify_step.publish) simp
  ultimately have "(notify_step p)\<^sup>*\<^sup>* s ?s5" by (meson converse_rtranclp_into_rtranclp rtranclp.rtrancl_refl)
  moreover have "nt_ind ?s5 = snd (CN_Notify False info (nt_ind s))"
    by (simp add: CN_Notify_def Let_def ReadableInfo_assign_def)
  moreover have "nt_writer ?s5 = nt_writer s" using assms by auto
  ultimately show ?thesis by blast
qed

end
