(* ===== verification/Listeners.thy ===== *)
theory Listeners
  imports SignalSlot AtomicHashMap ConfigMsgs
begin

text \<open>
  Who gets a message that arrives: identifiers (transport/common/identity.h/.cpp), the information that
  travels with a message (transport/message/message_info.h/.cpp), the listeners of a channel
  (transport/message/listener_handler.h) and the table of channels (transport/dispatcher/dispatcher.h/.cpp).
  \<open>Hash\<close> is \<open>std::hash\<close>.  A listener does not touch the handler that calls it (that would wait for a lock
  the caller holds), so calling one transforms only the outside world: \<open>eff cb (msg, info)\<close>.
\<close>

section \<open>Identifiers\<close>

definition ID_SIZE :: nat where "ID_SIZE = 8"

record Identity =
  id_data :: bytes
  hash_value :: u64

text \<open>The first bytes of what \<open>uuid_generate\<close> gives.\<close>

definition Identity_construct :: "(bytes \<Rightarrow> u64) \<Rightarrow> bytes \<Rightarrow> bool \<Rightarrow> Identity" where
  "Identity_construct Hash uuid need_generate =
     (if need_generate then \<lparr> id_data = take ID_SIZE uuid, hash_value = Hash (take ID_SIZE uuid) \<rparr>
      else \<lparr> id_data = replicate ID_SIZE 0, hash_value = 0 \<rparr>)"

definition set_data :: "(bytes \<Rightarrow> u64) \<Rightarrow> bytes \<Rightarrow> Identity \<Rightarrow> Identity" where
  "set_data Hash d self = (let d8 = take ID_SIZE d in self\<lparr> id_data := d8, hash_value := Hash d8 \<rparr>)"

text \<open>\<open>memcmp\<close> is 0 for equal bytes, and the operators return it as a truth value.\<close>

definition Identity_eq :: "Identity \<Rightarrow> Identity \<Rightarrow> bool" where
  "Identity_eq a b \<longleftrightarrow> id_data a \<noteq> id_data b"

definition Identity_ne :: "Identity \<Rightarrow> Identity \<Rightarrow> bool" where
  "Identity_ne a b \<longleftrightarrow> \<not> id_data a \<noteq> id_data b"

section \<open>Message information\<close>

record MessageInfo =
  sender_id :: Identity
  spare_id :: Identity
  mi_channel_id :: u64
  seq_num :: u64

definition Ksize :: nat where "Ksize = 2 * ID_SIZE + 8"

definition MessageInfo_construct :: "(bytes \<Rightarrow> u64) \<Rightarrow> MessageInfo" where
  "MessageInfo_construct Hash =
     \<lparr> sender_id = Identity_construct Hash [] False, spare_id = Identity_construct Hash [] False, mi_channel_id = 0, seq_num = 0 \<rparr>"

definition MessageInfo_eq :: "MessageInfo \<Rightarrow> MessageInfo \<Rightarrow> bool" where
  "MessageInfo_eq a b \<longleftrightarrow> Identity_eq (sender_id a) (sender_id b) \<and> mi_channel_id a = mi_channel_id b \<and>
     seq_num a = seq_num b \<and> Identity_eq (spare_id a) (spare_id b)"

definition MessageInfo_ne :: "MessageInfo \<Rightarrow> MessageInfo \<Rightarrow> bool" where
  "MessageInfo_ne a b \<longleftrightarrow> \<not> MessageInfo_eq a b"

text \<open>Both overloads of \<open>SerializeTo\<close> take the sequence number for an address: \<open>peek a n\<close> is what the \<open>n\<close> bytes
  at address \<open>a\<close> hold, \<open>None\<close> where nothing can be read.\<close>

definition SerializeTo_string :: "(u64 \<Rightarrow> nat \<Rightarrow> bytes option) \<Rightarrow> MessageInfo \<Rightarrow> bytes option" where
  "SerializeTo_string peek mi =
     map_option (\<lambda>s. id_data (sender_id mi) @ s @ id_data (spare_id mi)) (peek (seq_num mi) 8)"

definition SerializeTo_buffer :: "(u64 \<Rightarrow> nat \<Rightarrow> bytes option) \<Rightarrow> MessageInfo \<Rightarrow> nat \<Rightarrow> (bool \<times> bytes) option" where
  "SerializeTo_buffer peek mi len =
     (if len < Ksize then Some (False, [])
      else map_option (\<lambda>s. (True, id_data (sender_id mi) @ s @ id_data (spare_id mi))) (peek (seq_num mi) 8))"

definition mem_u64 :: "ByteOrder \<Rightarrow> bytes \<Rightarrow> u64" where
  "mem_u64 bo bs = of_nat (of_mem_bytes bo bs)"

definition DeserializeFrom :: "ByteOrder \<Rightarrow> (bytes \<Rightarrow> u64) \<Rightarrow> bytes \<Rightarrow> MessageInfo \<Rightarrow> bool \<times> MessageInfo" where
  "DeserializeFrom bo Hash src mi =
     (if length src \<noteq> Ksize then (False, mi)
      else (True, mi\<lparr> sender_id := set_data Hash src (sender_id mi), seq_num := mem_u64 bo (take 8 (drop ID_SIZE src)),
        spare_id := set_data Hash (drop (ID_SIZE + 8) src) (spare_id mi) \<rparr>))"

section \<open>The listeners of a channel\<close>

record 'cb handler =
  lh_type :: nat
  lh_signal :: "'cb signal"
  lh_conns :: "u64 \<Rightarrow> connection option"
  lh_signals :: "u64 \<Rightarrow> 'cb signal option"
  lh_signals_conns :: "u64 \<Rightarrow> (u64 \<Rightarrow> connection option) option"

definition ListenerHandler_construct :: "nat \<Rightarrow> 'cb handler" where
  "ListenerHandler_construct M = \<lparr> lh_type = M, lh_signal = signal_construct, lh_conns = (\<lambda>_. None),
     lh_signals = (\<lambda>_. None), lh_signals_conns = (\<lambda>_. None) \<rparr>"

definition lh_Connect :: "u64 \<Rightarrow> 'cb \<Rightarrow> 'cb handler \<Rightarrow> 'cb handler" where
  "lh_Connect self_id cb h =
     (let (conn, sig) = Connect (Some cb) (lh_signal h); h1 = h\<lparr> lh_signal := sig \<rparr>
      in if \<not> IsConnected sig conn then h1 else h1\<lparr> lh_conns := (lh_conns h1)(self_id \<mapsto> conn) \<rparr>)"

definition lh_Connect_to :: "u64 \<Rightarrow> u64 \<Rightarrow> 'cb \<Rightarrow> 'cb handler \<Rightarrow> 'cb handler" where
  "lh_Connect_to self_id oppo_id cb h =
     (let h1 = (if lh_signals h oppo_id = None then h\<lparr> lh_signals := (lh_signals h)(oppo_id \<mapsto> signal_construct) \<rparr> else h);
          (conn, sig) = Connect (Some cb) (the (lh_signals h1 oppo_id));
          h2 = h1\<lparr> lh_signals := (lh_signals h1)(oppo_id \<mapsto> sig) \<rparr>;
          h3 = (if lh_signals_conns h2 oppo_id = None
                then h2\<lparr> lh_signals_conns := (lh_signals_conns h2)(oppo_id \<mapsto> (\<lambda>_. None)) \<rparr> else h2)
      in h3\<lparr> lh_signals_conns := (lh_signals_conns h3)(oppo_id \<mapsto> (the (lh_signals_conns h3 oppo_id))(self_id \<mapsto> conn)) \<rparr>)"

definition lh_Disconnect :: "u64 \<Rightarrow> 'cb handler \<Rightarrow> 'cb handler" where
  "lh_Disconnect self_id h =
     (case lh_conns h self_id of
        None \<Rightarrow> h
      | Some conn \<Rightarrow> h\<lparr> lh_signal := snd (connection_Disconnect conn (lh_signal h)), lh_conns := (lh_conns h)(self_id := None) \<rparr>)"

definition lh_Disconnect_from :: "u64 \<Rightarrow> u64 \<Rightarrow> 'cb handler \<Rightarrow> 'cb handler" where
  "lh_Disconnect_from self_id oppo_id h =
     (case lh_signals_conns h oppo_id of
        None \<Rightarrow> h
      | Some conns \<Rightarrow>
          (case conns self_id of
             None \<Rightarrow> h
           | Some conn \<Rightarrow>
               h\<lparr> lh_signals := (lh_signals h)(oppo_id \<mapsto> snd (connection_Disconnect conn (the (lh_signals h oppo_id)))),
                 lh_signals_conns := (lh_signals_conns h)(oppo_id \<mapsto> conns(self_id := None)) \<rparr>))"

definition passively :: "('cb \<Rightarrow> 'a \<Rightarrow> 'w \<Rightarrow> 'w) \<Rightarrow> 'cb \<Rightarrow> 'a \<Rightarrow> ('cb, 'w) sig_state \<Rightarrow> ('cb, 'w) sig_state" where
  "passively eff cb a = (\<lambda>(w, s). (eff cb a w, s))"

definition lh_Run :: "('cb \<Rightarrow> 'm \<times> MessageInfo \<Rightarrow> 'w \<Rightarrow> 'w) \<Rightarrow> 'm \<Rightarrow> MessageInfo \<Rightarrow> 'w \<times> 'cb handler \<Rightarrow> 'w \<times> 'cb handler" where
  "lh_Run eff msg info = (\<lambda>(w, h).
     let (w1, sig) = signal_emit (passively eff) (msg, info) (w, lh_signal h);
         h1 = h\<lparr> lh_signal := sig \<rparr>; oppo_id = hash_value (sender_id info)
     in case lh_signals h1 oppo_id of
          None \<Rightarrow> (w1, h1)
        | Some s \<Rightarrow> (let (w2, s2) = signal_emit (passively eff) (msg, info) (w1, s)
                    in (w2, h1\<lparr> lh_signals := (lh_signals h1)(oppo_id \<mapsto> s2) \<rparr>)))"

section \<open>The table of channels\<close>

record 'cb dispatcher =
  dp_shutdown :: bool
  dp_listeners :: "'cb handler hash_map"

definition Dispatcher_construct :: "'cb dispatcher" where
  "Dispatcher_construct = \<lparr> dp_shutdown = False, dp_listeners = ahm_construct 128 \<rparr>"

definition Dispatcher_Shutdown :: "'cb dispatcher \<Rightarrow> 'cb dispatcher" where
  "Dispatcher_Shutdown d = d\<lparr> dp_shutdown := True \<rparr>"

definition HasChannel :: "u64 \<Rightarrow> 'cb dispatcher \<Rightarrow> bool" where
  "HasChannel channel d = ahm_Has channel (dp_listeners d)"

text \<open>\<open>AddListener<M>\<close>: an existing handler of another message type refuses the listener.\<close>

definition AddListener :: "nat \<Rightarrow> u64 \<Rightarrow> u64 \<Rightarrow> 'cb \<Rightarrow> 'cb dispatcher \<Rightarrow> 'cb dispatcher" where
  "AddListener M channel self_id cb d =
     (if dp_shutdown d then d
      else case ahm_Get (dp_listeners d) channel of
             Some h \<Rightarrow> if lh_type h \<noteq> M then d
                       else d\<lparr> dp_listeners := ahm_Set channel (lh_Connect self_id cb h) (dp_listeners d) \<rparr>
           | None \<Rightarrow> d\<lparr> dp_listeners := ahm_Set channel (lh_Connect self_id cb (ListenerHandler_construct M)) (dp_listeners d) \<rparr>)"

definition AddListener_to :: "nat \<Rightarrow> u64 \<Rightarrow> u64 \<Rightarrow> u64 \<Rightarrow> 'cb \<Rightarrow> 'cb dispatcher \<Rightarrow> 'cb dispatcher" where
  "AddListener_to M channel self_id oppo_id cb d =
     (if dp_shutdown d then d
      else case ahm_Get (dp_listeners d) channel of
             Some h \<Rightarrow> if lh_type h \<noteq> M then d
                       else d\<lparr> dp_listeners := ahm_Set channel (lh_Connect_to self_id oppo_id cb h) (dp_listeners d) \<rparr>
           | None \<Rightarrow> d\<lparr> dp_listeners :=
               ahm_Set channel (lh_Connect_to self_id oppo_id cb (ListenerHandler_construct M)) (dp_listeners d) \<rparr>)"

definition RemoveListener :: "u64 \<Rightarrow> u64 \<Rightarrow> 'cb dispatcher \<Rightarrow> 'cb dispatcher" where
  "RemoveListener channel self_id d =
     (if dp_shutdown d then d
      else case ahm_Get (dp_listeners d) channel of
             None \<Rightarrow> d
           | Some h \<Rightarrow> d\<lparr> dp_listeners := ahm_Set channel (lh_Disconnect self_id h) (dp_listeners d) \<rparr>)"

definition RemoveListener_from :: "u64 \<Rightarrow> u64 \<Rightarrow> u64 \<Rightarrow> 'cb dispatcher \<Rightarrow> 'cb dispatcher" where
  "RemoveListener_from channel self_id oppo_id d =
     (if dp_shutdown d then d
      else case ahm_Get (dp_listeners d) channel of
             None \<Rightarrow> d
           | Some h \<Rightarrow> d\<lparr> dp_listeners := ahm_Set channel (lh_Disconnect_from self_id oppo_id h) (dp_listeners d) \<rparr>)"

text \<open>\<open>OnMessage\<close> of \<open>ShmDispatcher\<close> and of \<open>RtpsDispatcher\<close>.\<close>

definition OnMessage ::
  "('cb \<Rightarrow> 'm \<times> MessageInfo \<Rightarrow> 'w \<Rightarrow> 'w) \<Rightarrow> u64 \<Rightarrow> 'm \<Rightarrow> MessageInfo \<Rightarrow> 'w \<times> 'cb dispatcher \<Rightarrow> 'w \<times> 'cb dispatcher" where
  "OnMessage eff channel msg info = (\<lambda>(w, d).
     if dp_shutdown d then (w, d)
     else case ahm_Get (dp_listeners d) channel of
            None \<Rightarrow> (w, d)
          | Some h \<Rightarrow> (let (w1, h1) = lh_Run eff msg info (w, h)
                      in (w1, d\<lparr> dp_listeners := ahm_Set channel h1 (dp_listeners d) \<rparr>)))"

lemma DisConnect_cb:
  assumes "signal_DisConnect conn s = (found, s')"
  shows "slot_cb (slot_store s' q) = slot_cb (slot_store s q)"
proof -
  have "slot_cb (slot_store (snd (fold (\<lambda>p (found, s). if HasSlot conn p then (True, slot_Disconnect p s) else (found, s))
      ps (b, t))) q) = slot_cb (slot_store t q)" for ps b t
    by (induction ps arbitrary: b t) auto
  from this [of "sig_slots s" False s] show ?thesis using assms
    by (auto simp: signal_DisConnect_def ClearDisconnectedSlots_def split: prod.splits if_splits)
qed

section \<open>Listeners of one signal\<close>

text \<open>What a signal and the map of its connections stand for: the callbacks in the order they are called,
  each with the identifier it can still be disconnected under.\<close>

type_synonym 'cb entries = "(u64 option \<times> 'cb) list"

definition sp_connect :: "u64 \<Rightarrow> 'cb \<Rightarrow> 'cb entries \<Rightarrow> 'cb entries" where
  "sp_connect self_id cb es = map (\<lambda>(i, c). (if i = Some self_id then None else i, c)) es @ [(Some self_id, cb)]"

definition sp_disconnect :: "u64 \<Rightarrow> 'cb entries \<Rightarrow> 'cb entries" where
  "sp_disconnect self_id es = filter (\<lambda>(i, c). i \<noteq> Some self_id) es"

abbreviation conn_to :: "nat \<Rightarrow> connection" where
  "conn_to p \<equiv> \<lparr> conn_slot = Some p, conn_signal = True \<rparr>"

definition entry_rel :: "'cb signal \<Rightarrow> (u64 \<Rightarrow> connection option) \<Rightarrow> nat \<Rightarrow> u64 option \<times> 'cb \<Rightarrow> bool" where
  "entry_rel sig conns p e \<longleftrightarrow> slot_cb (slot_store sig p) = Some (snd e) \<and>
     (\<forall>self_id. conns self_id = Some (conn_to p) \<longleftrightarrow> fst e = Some self_id)"

lemma entry_relD:
  "entry_rel sig conns p e \<Longrightarrow> (conns i = Some (conn_to p)) = (fst e = Some i)"
  "entry_rel sig conns p e \<Longrightarrow> slot_cb (slot_store sig p) = Some (snd e)"
  by (simp_all add: entry_rel_def)

definition grp_rel :: "'cb signal \<Rightarrow> (u64 \<Rightarrow> connection option) \<Rightarrow> 'cb entries \<Rightarrow> bool" where
  "grp_rel sig conns es \<longleftrightarrow> signal_inv sig \<and> list_all2 (entry_rel sig conns) (sig_slots sig) es \<and>
     (\<forall>self_id c. conns self_id = Some c \<longrightarrow> (\<exists>p \<in> set (sig_slots sig). c = conn_to p))"

lemma grp_rel_empty: "grp_rel signal_construct (\<lambda>_. None) []"
  by (simp add: grp_rel_def construct_inv) (simp add: signal_construct_def)

lemma grp_rel_connect:
  assumes "grp_rel sig conns es" "Connect (Some cb) sig = (conn, sig')"
  shows "grp_rel sig' (conns(self_id \<mapsto> conn)) (sp_connect self_id cb es) \<and> IsConnected sig' conn"
proof -
  let ?p = "slot_fresh sig" let ?c = "conns(self_id \<mapsto> conn)"
  have c: "conn = conn_to ?p" "sig' = snd (Connect (Some cb) sig)" "sig_slots sig' = sig_slots sig @ [?p]"
    "slot_store sig' = (slot_store sig)(?p := \<lparr> slot_cb = Some cb, slot_live = True \<rparr>)"
    using assms(2) by (auto simp: Connect_def Let_def)
  have inv: "signal_inv sig" "list_all2 (entry_rel sig conns) (sig_slots sig) es"
    "\<And>s k. conns s = Some k \<Longrightarrow> \<exists>p \<in> set (sig_slots sig). k = conn_to p"
    using assms(1) by (auto simp: grp_rel_def)
  have old: "p \<noteq> ?p" if "p \<in> set (sig_slots sig)" for p using that inv(1) by (auto simp: signal_inv_def)
  have "list_all2 (entry_rel sig' ?c) (sig_slots sig) (map (\<lambda>(i, c). (if i = Some self_id then None else i, c)) es)"
    unfolding list_all2_map2
  proof (rule list.rel_mono_strong [OF inv(2)])
    fix p e assume "p \<in> set (sig_slots sig)" "entry_rel sig conns p e"
    then show "entry_rel sig' ?c p (case e of (i, c) \<Rightarrow> (if i = Some self_id then None else i, c))"
      using old by (auto simp: entry_rel_def c(1,4) split: prod.splits)
  qed
  moreover have "entry_rel sig' ?c ?p (Some self_id, cb)"
    using inv(3) old by (fastforce simp: entry_rel_def c(1,4))
  ultimately have "list_all2 (entry_rel sig' ?c) (sig_slots sig') (sp_connect self_id cb es)"
    by (simp add: sp_connect_def c(3) list_all2_appendI)
  moreover have "signal_inv sig'" unfolding c(2) by (rule Connect_inv [OF inv(1)])
  moreover have "\<forall>s k. ?c s = Some k \<longrightarrow> (\<exists>p \<in> set (sig_slots sig'). k = conn_to p)"
    using inv(3) c(1,3) by auto
  moreover have "IsConnected sig' conn" by (simp add: IsConnected_def c(1,4) slot_connected_def)
  ultimately show ?thesis by (simp add: grp_rel_def)
qed

lemma list_all2_filter:
  assumes "list_all2 R xs ys" "\<And>x y. x \<in> set xs \<Longrightarrow> y \<in> set ys \<Longrightarrow> R x y \<Longrightarrow> P x = Q y"
  shows "list_all2 R (filter P xs) (filter Q ys)"
  using assms by (induction rule: list_all2_induct) auto

lemma grp_rel_disconnect:
  assumes "grp_rel sig conns es" "conns self_id = Some conn"
  shows "grp_rel (snd (connection_Disconnect conn sig)) (conns(self_id := None)) (sp_disconnect self_id es)"
proof -
  let ?c = "conns(self_id := None)"
  obtain p where p: "conn = conn_to p" "p \<in> set (sig_slots sig)" using assms by (auto simp: grp_rel_def)
  obtain found sig' where d: "signal_DisConnect conn sig = (found, sig')" by (cases "signal_DisConnect conn sig")
  have inv: "signal_inv sig" "list_all2 (entry_rel sig conns) (sig_slots sig) es"
    "\<And>s k. conns s = Some k \<Longrightarrow> \<exists>p \<in> set (sig_slots sig). k = conn_to p"
    using assms(1) by (auto simp: grp_rel_def)
  have hs: "HasSlot conn q \<longleftrightarrow> q = p" for q by (auto simp: HasSlot_def p(1))
  have s': "signal_inv sig'" "sig_slots sig' = filter (\<lambda>q. q \<noteq> p) (sig_slots sig)"
    using signal_DisConnect_spec [OF inv(1) d] by (auto simp: hs)
  have cb: "slot_cb (slot_store sig' q) = slot_cb (slot_store sig q)" for q
    using DisConnect_cb [OF d] by simp
  have only: "conns s = Some (conn_to p) \<longleftrightarrow> s = self_id" for s
  proof -
    obtain n where "n < length (sig_slots sig)" "sig_slots sig ! n = p" using p(2) by (auto simp: in_set_conv_nth)
    then have "entry_rel sig conns p (es ! n)" using list_all2_nthD [OF inv(2)] by blast
    then show ?thesis using assms(2) p(1) by (auto simp: entry_rel_def)
  qed
  have "list_all2 (entry_rel sig conns) (filter (\<lambda>q. q \<noteq> p) (sig_slots sig)) (sp_disconnect self_id es)"
    unfolding sp_disconnect_def
  proof (rule list_all2_filter [OF inv(2)])
    fix q and e :: "u64 option \<times> 'a" assume "entry_rel sig conns q e"
    then have "conns self_id = Some (conn_to q) \<longleftrightarrow> fst e = Some self_id" by (simp add: entry_rel_def)
    then show "(q \<noteq> p) = (case e of (i, c) \<Rightarrow> i \<noteq> Some self_id)"
      using assms(2) p(1) by (auto split: prod.splits)
  qed
  then have "list_all2 (entry_rel sig' ?c) (sig_slots sig') (sp_disconnect self_id es)"
    unfolding s'(2)
  proof (rule list.rel_mono_strong)
    fix q e assume q: "q \<in> set (filter (\<lambda>q. q \<noteq> p) (sig_slots sig))" "entry_rel sig conns q e"
    have "fst e \<noteq> Some self_id" using entry_relD(1) [OF q(2), of self_id] q(1) assms(2) p(1) by auto
    then show "entry_rel sig' ?c q e" using entry_relD [OF q(2)] by (auto simp: entry_rel_def cb)
  qed
  moreover have "\<forall>s k. ?c s = Some k \<longrightarrow> (\<exists>q \<in> set (sig_slots sig'). k = conn_to q)"
  proof (intro allI impI)
    fix s k assume k: "?c s = Some k"
    then obtain q where "q \<in> set (sig_slots sig)" "k = conn_to q" "s \<noteq> self_id" "conns s = Some k"
      using inv(3) by (auto split: if_splits)
    then show "\<exists>q \<in> set (sig_slots sig'). k = conn_to q" using only s'(2) by auto
  qed
  ultimately show ?thesis using s'(1) d p(1) by (simp add: grp_rel_def connection_Disconnect_def)
qed

lemma grp_rel_emit:
  assumes "grp_rel sig conns es"
  shows "signal_emit (passively eff) a (w, sig) = (fold (\<lambda>e. eff (snd e) a) es w, sig)"
proof -
  have inv: "signal_inv sig" "list_all2 (entry_rel sig conns) (sig_slots sig) es" using assms by (auto simp: grp_rel_def)
  have p: "passive_cbs (passively eff) eff" by (simp add: passive_cbs_def passively_def)
  have "fold (slot_call (passively eff) a) (sig_slots sig) (w, sig)
      = (fold (\<lambda>p. apply_cb eff a (slot_cb (slot_store sig p))) (sig_slots sig) w, sig)"
    using inv(1) by (intro emit_fold_passive p) (auto simp: signal_inv_def)
  moreover have "fold (\<lambda>p. apply_cb eff a (slot_cb (slot_store sig p))) (sig_slots sig) w = fold (\<lambda>e. eff (snd e) a) es w"
    using inv(2) by (induction arbitrary: w rule: list_all2_induct) (auto simp: entry_rel_def)
  moreover have "ClearDisconnectedSlots sig = sig"
    using inv(1) by (simp add: ClearDisconnectedSlots_def signal_inv_def filter_id_conv)
  ultimately show ?thesis by (simp add: signal_emit_def)
qed

section \<open>Listeners of all channels\<close>

datatype 'cb listen_op =
    LConnect u64 u64 'cb | LConnectTo u64 u64 u64 'cb | LDisconnect u64 u64 | LDisconnectFrom u64 u64 u64
  | LMessage u64 bytes MessageInfo

text \<open>The dispatcher with a record of the calls it makes.\<close>

type_synonym 'cb call_log = "('cb \<times> bytes \<times> MessageInfo) list"

definition log_call :: "'cb \<Rightarrow> bytes \<times> MessageInfo \<Rightarrow> 'cb call_log \<Rightarrow> 'cb call_log" where
  "log_call cb a w = w @ [(cb, a)]"

fun listen_apply :: "nat \<Rightarrow> 'cb listen_op \<Rightarrow> 'cb call_log \<times> 'cb dispatcher \<Rightarrow> 'cb call_log \<times> 'cb dispatcher" where
  "listen_apply M (LConnect ch i cb) (w, d) = (w, AddListener M ch i cb d)"
| "listen_apply M (LConnectTo ch i j cb) (w, d) = (w, AddListener_to M ch i j cb d)"
| "listen_apply M (LDisconnect ch i) (w, d) = (w, RemoveListener ch i d)"
| "listen_apply M (LDisconnectFrom ch i j) (w, d) = (w, RemoveListener_from ch i j d)"
| "listen_apply M (LMessage ch m info) (w, d) = OnMessage log_call ch m info (w, d)"

text \<open>The abstract state: per channel the listeners of every message, and per channel and sender those of
  the messages of that sender.\<close>

type_synonym 'cb listen_spec = "(u64 \<Rightarrow> 'cb entries) \<times> (u64 \<Rightarrow> u64 \<Rightarrow> 'cb entries)"

fun listen_sp :: "'cb listen_op \<Rightarrow> 'cb call_log \<times> 'cb listen_spec \<Rightarrow> 'cb call_log \<times> 'cb listen_spec" where
  "listen_sp (LConnect ch i cb) (w, (a, b)) = (w, (a(ch := sp_connect i cb (a ch)), b))"
| "listen_sp (LConnectTo ch i j cb) (w, (a, b)) = (w, (a, b(ch := (b ch)(j := sp_connect i cb (b ch j)))))"
| "listen_sp (LDisconnect ch i) (w, (a, b)) = (w, (a(ch := sp_disconnect i (a ch)), b))"
| "listen_sp (LDisconnectFrom ch i j) (w, (a, b)) = (w, (a, b(ch := (b ch)(j := sp_disconnect i (b ch j)))))"
| "listen_sp (LMessage ch m info) (w, (a, b)) =
     (w @ map (\<lambda>e. (snd e, m, info)) (a ch @ b ch (hash_value (sender_id info))), (a, b))"

definition sender_rel :: "'cb signal option \<Rightarrow> (u64 \<Rightarrow> connection option) option \<Rightarrow> 'cb entries \<Rightarrow> bool" where
  "sender_rel so co es \<longleftrightarrow>
     (case so of None \<Rightarrow> es = [] \<and> co = None | Some s \<Rightarrow> \<exists>c. co = Some c \<and> grp_rel s c es)"

lemma sender_rel_simps [simp]:
  "sender_rel None co es \<longleftrightarrow> es = [] \<and> co = None"
  "sender_rel (Some s) (Some c) es \<longleftrightarrow> grp_rel s c es"
  "sender_rel so None es \<longleftrightarrow> es = [] \<and> so = None"
  by (auto simp: sender_rel_def split: option.splits)

definition handler_rel :: "'cb handler \<Rightarrow> 'cb entries \<Rightarrow> (u64 \<Rightarrow> 'cb entries) \<Rightarrow> bool" where
  "handler_rel h a b \<longleftrightarrow> grp_rel (lh_signal h) (lh_conns h) a \<and>
     (\<forall>j. sender_rel (lh_signals h j) (lh_signals_conns h j) (b j))"

definition chan_rel :: "nat \<Rightarrow> 'cb handler option \<Rightarrow> 'cb entries \<Rightarrow> (u64 \<Rightarrow> 'cb entries) \<Rightarrow> bool" where
  "chan_rel M ho a b \<longleftrightarrow>
     (case ho of None \<Rightarrow> a = [] \<and> b = (\<lambda>_. []) | Some h \<Rightarrow> lh_type h = M \<and> handler_rel h a b)"

lemma chan_rel_simps [simp]:
  "chan_rel M None a b \<longleftrightarrow> a = [] \<and> b = (\<lambda>_. [])"
  "chan_rel M (Some h) a b \<longleftrightarrow> lh_type h = M \<and> handler_rel h a b"
  by (simp_all add: chan_rel_def)

definition dispatcher_rel :: "nat \<Rightarrow> 'cb dispatcher \<Rightarrow> 'cb listen_spec \<Rightarrow> bool" where
  "dispatcher_rel M d ab \<longleftrightarrow> \<not> dp_shutdown d \<and> ahm_ok (dp_listeners d) \<and>
     (\<forall>ch. chan_rel M (ahm_Get (dp_listeners d) ch) (fst ab ch) (snd ab ch))"

lemma sp_disconnect_Nil [simp]: "sp_disconnect i [] = []"
  by (simp add: sp_disconnect_def)

lemma handler_rel_construct: "handler_rel (ListenerHandler_construct M) [] (\<lambda>_. [])"
  using grp_rel_empty by (simp add: handler_rel_def ListenerHandler_construct_def)

lemma handler_rel_Connect:
  assumes "handler_rel h a b"
  shows "handler_rel (lh_Connect i cb h) (sp_connect i cb a) b \<and> lh_type (lh_Connect i cb h) = lh_type h"
proof -
  obtain conn sig where k: "Connect (Some cb) (lh_signal h) = (conn, sig)" by (cases "Connect (Some cb) (lh_signal h)")
  have "grp_rel (lh_signal h) (lh_conns h) a" using assms by (simp add: handler_rel_def)
  from grp_rel_connect [OF this k, of i] assms show ?thesis by (simp add: handler_rel_def lh_Connect_def k)
qed

lemma grp_rel_absent:
  assumes "grp_rel sig conns es" "conns i = None"
  shows "sp_disconnect i es = es"
proof -
  have r: "list_all2 (entry_rel sig conns) (sig_slots sig) es" using assms(1) by (simp add: grp_rel_def)
  have "fst e \<noteq> Some i" if e: "e \<in> set es" for e
  proof -
    obtain n where n: "n < length es" "es ! n = e" using e by (auto simp: in_set_conv_nth)
    then have "entry_rel sig conns (sig_slots sig ! n) e" using list_all2_nthD2 [OF r, of n] by simp
    from entry_relD(1) [OF this, of i] assms(2) show ?thesis by simp
  qed
  then have "\<forall>e \<in> set es. (\<lambda>(k, c). k \<noteq> Some i) e" by (simp add: case_prod_beta)
  then show ?thesis unfolding sp_disconnect_def by (rule filter_True)
qed

lemma handler_rel_Disconnect:
  assumes "handler_rel h a b"
  shows "handler_rel (lh_Disconnect i h) (sp_disconnect i a) b \<and> lh_type (lh_Disconnect i h) = lh_type h"
proof (cases "lh_conns h i")
  case None
  then have "sp_disconnect i a = a" using assms grp_rel_absent unfolding handler_rel_def by blast
  then show ?thesis using assms None by (simp add: lh_Disconnect_def)
next
  case (Some conn)
  then show ?thesis using grp_rel_disconnect [of "lh_signal h" "lh_conns h" a i conn] assms
    by (auto simp: handler_rel_def lh_Disconnect_def)
qed

lemma handler_rel_Connect_to:
  assumes "handler_rel h a b"
  shows "handler_rel (lh_Connect_to i j cb h) a (b(j := sp_connect i cb (b j))) \<and> lh_type (lh_Connect_to i j cb h) = lh_type h"
proof -
  obtain s c where sc: "(case lh_signals h j of None \<Rightarrow> signal_construct | Some s \<Rightarrow> s) = s"
    "(case lh_signals_conns h j of None \<Rightarrow> (\<lambda>_. None) | Some c \<Rightarrow> c) = c" by blast
  have "sender_rel (lh_signals h j) (lh_signals_conns h j) (b j)" using assms by (simp add: handler_rel_def)
  then have g: "grp_rel s c (b j)"
    using sc grp_rel_empty by (cases "lh_signals h j"; cases "lh_signals_conns h j") auto
  obtain conn sig where k: "Connect (Some cb) s = (conn, sig)" by (cases "Connect (Some cb) s")
  have h: "lh_Connect_to i j cb h = h\<lparr> lh_signals := (lh_signals h)(j \<mapsto> sig),
      lh_signals_conns := (lh_signals_conns h)(j \<mapsto> c(i \<mapsto> conn)) \<rparr>"
    using sc k by (cases "lh_signals h j"; cases "lh_signals_conns h j") (auto simp: lh_Connect_to_def Let_def)
  show ?thesis using assms grp_rel_connect [OF g k, of i] by (simp add: h handler_rel_def)
qed

lemma handler_rel_Disconnect_from:
  assumes "handler_rel h a b"
  shows "handler_rel (lh_Disconnect_from i j h) a (b(j := sp_disconnect i (b j))) \<and> lh_type (lh_Disconnect_from i j h) = lh_type h"
proof -
  have r: "sender_rel (lh_signals h j) (lh_signals_conns h j) (b j)" using assms by (simp add: handler_rel_def)
  show ?thesis
  proof (cases "lh_signals_conns h j")
    case None
    then have "b(j := sp_disconnect i (b j)) = b" using r by (auto simp: fun_eq_iff)
    then show ?thesis using assms None by (simp add: lh_Disconnect_from_def)
  next
    case c: (Some c)
    then obtain s where s: "lh_signals h j = Some s" "grp_rel s c (b j)" using r by (cases "lh_signals h j") auto
    show ?thesis
    proof (cases "c i")
      case None
      then have "b(j := sp_disconnect i (b j)) = b" using grp_rel_absent [OF s(2)] by (auto simp: fun_eq_iff)
      then show ?thesis using assms None c by (simp add: lh_Disconnect_from_def)
    next
      case (Some conn)
      then show ?thesis using assms c s grp_rel_disconnect [OF s(2) Some]
        by (simp add: lh_Disconnect_from_def handler_rel_def)
    qed
  qed
qed

lemma fold_log_call: "fold (\<lambda>e. log_call (snd e) (m, info)) es w = w @ map (\<lambda>e. (snd e, m, info)) es"
  by (induction es arbitrary: w) (simp_all add: log_call_def)

lemma handler_rel_Run:
  assumes "handler_rel h a b"
  shows "lh_Run eff m info (w, h) = (fold (\<lambda>e. eff (snd e) (m, info)) (a @ b (hash_value (sender_id info))) w, h)"
proof -
  let ?j = "hash_value (sender_id info)"
  have r: "sender_rel (lh_signals h ?j) (lh_signals_conns h ?j) (b ?j)" and p: "grp_rel (lh_signal h) (lh_conns h) a"
    using assms by (simp_all add: handler_rel_def)
  have e: "signal_emit (passively eff) (m, info) (w, lh_signal h) = (fold (\<lambda>e. eff (snd e) (m, info)) a w, lh_signal h)"
    by (simp add: grp_rel_emit [OF p])
  show ?thesis
  proof (cases "lh_signals h ?j")
    case None
    then show ?thesis using r e by (simp add: lh_Run_def)
  next
    case (Some s)
    then obtain c where "grp_rel s c (b ?j)" using r by (auto simp: sender_rel_def)
    from grp_rel_emit [OF this, of eff "(m, info)" "fold (\<lambda>e. eff (snd e) (m, info)) a w"] Some e
    show ?thesis by (cases h) (auto simp: lh_Run_def fun_upd_idem)
  qed
qed

definition handler_of :: "nat \<Rightarrow> u64 \<Rightarrow> 'cb dispatcher \<Rightarrow> 'cb handler" where
  "handler_of M ch d = (case ahm_Get (dp_listeners d) ch of None \<Rightarrow> ListenerHandler_construct M | Some h \<Rightarrow> h)"

lemma handler_of_simps:
  "ahm_Get (dp_listeners d) ch = None \<Longrightarrow> handler_of M ch d = ListenerHandler_construct M"
  "ahm_Get (dp_listeners d) ch = Some h \<Longrightarrow> handler_of M ch d = h"
  by (simp_all add: handler_of_def)

lemma handler_of_rel:
  assumes "dispatcher_rel M d (a, b)"
  shows "handler_rel (handler_of M ch d) (a ch) (b ch)" "lh_type (handler_of M ch d) = M"
proof -
  have c: "chan_rel M (ahm_Get (dp_listeners d) ch) (a ch) (b ch)" using assms by (simp add: dispatcher_rel_def)
  have "handler_rel (handler_of M ch d) (a ch) (b ch) \<and> lh_type (handler_of M ch d) = M"
  proof (cases "ahm_Get (dp_listeners d) ch")
    case None
    have n: "lh_type (ListenerHandler_construct M) = M" by (simp add: ListenerHandler_construct_def)
    have "a ch = []" "b ch = (\<lambda>_. [])" using c unfolding None by simp_all
    then show ?thesis using handler_rel_construct [of M] n by (simp add: handler_of_simps(1) [OF None])
  next
    case (Some h)
    show ?thesis using c unfolding Some by (simp add: handler_of_simps(2) [OF Some])
  qed
  then show "handler_rel (handler_of M ch d) (a ch) (b ch)" "lh_type (handler_of M ch d) = M" by simp_all
qed

lemma dispatcher_rel_put:
  assumes "dispatcher_rel M d (a, b)" "handler_rel h' a' b'" "lh_type h' = M"
  shows "dispatcher_rel M (d\<lparr> dp_listeners := ahm_Set ch h' (dp_listeners d) \<rparr>) (a(ch := a'), b(ch := b'))"
proof -
  have d: "ahm_ok (dp_listeners d)" "\<not> dp_shutdown d"
    "\<And>k. chan_rel M (ahm_Get (dp_listeners d) k) (a k) (b k)" using assms(1) by (simp_all add: dispatcher_rel_def)
  show ?thesis using d assms(2,3) ahm_Set_ok [OF d(1)] ahm_Get_Set [OF d(1)] by (simp add: dispatcher_rel_def)
qed

lemma dispatcher_rel_missing:
  assumes "dispatcher_rel M d (a, b)" "ahm_Get (dp_listeners d) ch = None"
  shows "a ch = []" "b ch = (\<lambda>_. [])"
proof -
  have "chan_rel M (ahm_Get (dp_listeners d) ch) (a ch) (b ch)" using assms(1) by (simp add: dispatcher_rel_def)
  then show "a ch = []" "b ch = (\<lambda>_. [])" unfolding assms(2) by simp_all
qed

lemma put_handler_AddListener:
  assumes "dispatcher_rel M d (a, b)"
  shows "AddListener M ch i cb d = d\<lparr> dp_listeners := ahm_Set ch (lh_Connect i cb (handler_of M ch d)) (dp_listeners d) \<rparr>"
    "AddListener_to M ch i j cb d = d\<lparr> dp_listeners := ahm_Set ch (lh_Connect_to i j cb (handler_of M ch d)) (dp_listeners d) \<rparr>"
proof -
  have d: "\<not> dp_shutdown d" using assms by (simp add: dispatcher_rel_def)
  note h = handler_of_rel(2) [OF assms, of ch]
  have "AddListener M ch i cb d = d\<lparr> dp_listeners := ahm_Set ch (lh_Connect i cb (handler_of M ch d)) (dp_listeners d) \<rparr> \<and>
    AddListener_to M ch i j cb d = d\<lparr> dp_listeners := ahm_Set ch (lh_Connect_to i j cb (handler_of M ch d)) (dp_listeners d) \<rparr>"
  proof (cases "ahm_Get (dp_listeners d) ch")
    case None
    show ?thesis by (simp add: AddListener_def AddListener_to_def d None handler_of_simps(1) [OF None])
  next
    case (Some g)
    have "lh_type g = M" using h by (simp add: handler_of_simps(2) [OF Some])
    then show ?thesis by (simp add: AddListener_def AddListener_to_def d Some handler_of_simps(2) [OF Some])
  qed
  then show "AddListener M ch i cb d = d\<lparr> dp_listeners := ahm_Set ch (lh_Connect i cb (handler_of M ch d)) (dp_listeners d) \<rparr>"
    "AddListener_to M ch i j cb d = d\<lparr> dp_listeners := ahm_Set ch (lh_Connect_to i j cb (handler_of M ch d)) (dp_listeners d) \<rparr>"
    by simp_all
qed

lemma RemoveListener_rel:
  assumes "dispatcher_rel M d (a, b)"
  shows "dispatcher_rel M (RemoveListener ch i d) (a(ch := sp_disconnect i (a ch)), b)"
proof (cases "ahm_Get (dp_listeners d) ch")
  case None
  then show ?thesis using assms dispatcher_rel_missing [OF assms None]
    by (simp add: RemoveListener_def dispatcher_rel_def fun_upd_idem)
next
  case (Some g)
  have d: "\<not> dp_shutdown d" using assms by (simp add: dispatcher_rel_def)
  have "handler_rel g (a ch) (b ch)" "lh_type g = M"
    using handler_of_rel [OF assms, of ch] by (simp_all add: handler_of_simps(2) [OF Some])
  then have "handler_rel (lh_Disconnect i g) (sp_disconnect i (a ch)) (b ch)" "lh_type (lh_Disconnect i g) = M"
    using handler_rel_Disconnect [of g "a ch" "b ch" i] by simp_all
  from dispatcher_rel_put [OF assms this, of ch] show ?thesis by (simp add: RemoveListener_def d Some)
qed

lemma RemoveListener_from_rel:
  assumes "dispatcher_rel M d (a, b)"
  shows "dispatcher_rel M (RemoveListener_from ch i j d) (a, b(ch := (b ch)(j := sp_disconnect i (b ch j))))"
proof (cases "ahm_Get (dp_listeners d) ch")
  case None
  have "b(ch := (b ch)(j := sp_disconnect i (b ch j))) = b" using dispatcher_rel_missing(2) [OF assms None] by (simp add: fun_eq_iff)
  then show ?thesis using assms None by (simp add: RemoveListener_from_def)
next
  case (Some g)
  have d: "\<not> dp_shutdown d" using assms by (simp add: dispatcher_rel_def)
  have "handler_rel g (a ch) (b ch)" "lh_type g = M"
    using handler_of_rel [OF assms, of ch] by (simp_all add: handler_of_simps(2) [OF Some])
  then have "handler_rel (lh_Disconnect_from i j g) (a ch) ((b ch)(j := sp_disconnect i (b ch j)))"
    "lh_type (lh_Disconnect_from i j g) = M"
    using handler_rel_Disconnect_from [of g "a ch" "b ch" i j] by simp_all
  from dispatcher_rel_put [OF assms this, of ch] show ?thesis by (simp add: RemoveListener_from_def d Some)
qed

lemma OnMessage_rel:
  assumes "dispatcher_rel M d (a, b)"
  obtains d' where "\<forall>w. OnMessage eff ch m info (w, d)
      = (fold (\<lambda>e. eff (snd e) (m, info)) (a ch @ b ch (hash_value (sender_id info))) w, d')" "dispatcher_rel M d' (a, b)"
proof (cases "ahm_Get (dp_listeners d) ch")
  case None
  then show thesis using assms dispatcher_rel_missing [OF assms None] that [of d]
    by (simp add: OnMessage_def)
next
  case (Some g)
  have d: "\<not> dp_shutdown d" using assms by (simp add: dispatcher_rel_def)
  have g: "handler_rel g (a ch) (b ch)" "lh_type g = M"
    using handler_of_rel [OF assms, of ch] by (simp_all add: handler_of_simps(2) [OF Some])
  have "OnMessage eff ch m info (w, d) = (fold (\<lambda>e. eff (snd e) (m, info)) (a ch @ b ch (hash_value (sender_id info))) w,
      d\<lparr> dp_listeners := ahm_Set ch g (dp_listeners d) \<rparr>)" for w
    by (simp add: OnMessage_def d Some handler_rel_Run [OF g(1)])
  with dispatcher_rel_put [OF assms g, of ch] that show thesis by simp
qed

lemma dispatcher_rel_step:
  assumes "dispatcher_rel M d ab" "listen_apply M op (w, d) = (w', d')"
  shows "\<exists>ab'. listen_sp op (w, ab) = (w', ab') \<and> dispatcher_rel M d' ab'"
proof -
  obtain a b where ab: "ab = (a, b)" by (cases ab)
  have r: "dispatcher_rel M d (a, b)" using assms(1) ab by simp
  note h = handler_of_rel [OF r] and put = dispatcher_rel_put [OF r]
  show ?thesis
  proof (cases op)
    case (LConnect ch i cb)
    have "dispatcher_rel M (AddListener M ch i cb d) (a(ch := sp_connect i cb (a ch)), b)"
      using put [of "lh_Connect i cb (handler_of M ch d)" "sp_connect i cb (a ch)" "b ch" ch] handler_rel_Connect [OF h(1)] h(2)
      by (simp add: put_handler_AddListener [OF r])
    then show ?thesis using assms(2) by (auto simp: LConnect ab)
  next
    case (LConnectTo ch i j cb)
    have "dispatcher_rel M (AddListener_to M ch i j cb d) (a, b(ch := (b ch)(j := sp_connect i cb (b ch j))))"
      using put [of "lh_Connect_to i j cb (handler_of M ch d)" "a ch" "(b ch)(j := sp_connect i cb (b ch j))" ch]
        handler_rel_Connect_to [OF h(1)] h(2)
      by (simp add: put_handler_AddListener [OF r])
    then show ?thesis using assms(2) by (auto simp: LConnectTo ab)
  next
    case (LDisconnect ch i)
    then show ?thesis using assms(2) RemoveListener_rel [OF r] by (auto simp: ab)
  next
    case (LDisconnectFrom ch i j)
    then show ?thesis using assms(2) RemoveListener_from_rel [OF r] by (auto simp: ab)
  next
    case (LMessage ch m info)
    obtain d1 where "\<forall>w. OnMessage log_call ch m info (w, d)
        = (fold (\<lambda>e. log_call (snd e) (m, info)) (a ch @ b ch (hash_value (sender_id info))) w, d1)" "dispatcher_rel M d1 (a, b)"
      by (rule OnMessage_rel [OF r, where eff = log_call and ch = ch and m = m and info = info])
    then show ?thesis using assms(2) by (simp add: LMessage ab fold_log_call)
  qed
qed

lemma dispatcher_rel_fold:
  assumes "dispatcher_rel M d ab"
  shows "fst (fold (listen_apply M) ops (w, d)) = fst (fold listen_sp ops (w, ab)) \<and>
    dispatcher_rel M (snd (fold (listen_apply M) ops (w, d))) (snd (fold listen_sp ops (w, ab)))"
  using assms
proof (induction ops arbitrary: w d ab)
  case (Cons op ops)
  obtain w' d' where s: "listen_apply M op (w, d) = (w', d')" by (cases "listen_apply M op (w, d)")
  obtain ab' where "listen_sp op (w, ab) = (w', ab')" "dispatcher_rel M d' ab'" using dispatcher_rel_step [OF Cons.prems s] by blast
  then show ?case using s Cons.IH by simp
qed simp

lemma dispatcher_rel_run:
  "fst (fold (listen_apply M) ops ([], Dispatcher_construct)) = fst (fold listen_sp ops ([], (\<lambda>_. []), (\<lambda>_ _. []))) \<and>
   dispatcher_rel M (snd (fold (listen_apply M) ops ([], Dispatcher_construct))) (snd (fold listen_sp ops ([], (\<lambda>_. []), (\<lambda>_ _. []))))"
  by (rule dispatcher_rel_fold)
    (simp add: dispatcher_rel_def Dispatcher_construct_def ahm_construct_ok ahm_Get_construct)

text \<open>C12: Each message is passed on to the listeners of its channel that are connected, in the order they
  connected, and then to those connected to its sender only; disconnecting stops the listener that
  connected last under the identifier.  One that was connected before it under the same identifier
  stays, and nothing can disconnect it any more.\<close>

theorem listeners_refine:
  "fst (fold (listen_apply M) ops ([], Dispatcher_construct)) = fst (fold listen_sp ops ([], (\<lambda>_. []), (\<lambda>_ _. [])))"
  by (simp only: dispatcher_rel_run)

end
