(* ===== verification/ShmTransport.thy ===== *)
theory ShmTransport
  imports ShmSegmentProps ShmNotifier Listeners
begin

text \<open>
  The shared memory transport on top of segments and notifications: endpoints (transport/common/endpoint.cpp),
  transmitters (transport/transmitter/transmitter.h, shm_transmitter.h), receivers
  (transport/receiver/receiver.h, shm_receiver.h) and the thread that reads messages
  (transport/dispatcher/shm_dispatcher.h/.cpp).  Messages are their serialized bytes.  \<open>be\<close> is the kind of
  segment \<open>SegmentFactory\<close> makes, \<open>flt\<close> says which system calls fail, \<open>bo\<close> is the byte order of the host;
  \<open>None\<close> is undefined behaviour, as for segments.
\<close>

section \<open>Endpoints\<close>

record endpoint =
  ep_enabled :: bool
  ep_attr :: RoleAttributes
  ep_id :: Identity

definition Endpoint_construct :: "(bytes \<Rightarrow> u64) \<Rightarrow> bytes \<Rightarrow> bytes \<Rightarrow> i32 \<Rightarrow> RoleAttributes \<Rightarrow> endpoint" where
  "Endpoint_construct Hash uuid HostName ProcessId attr =
     (let ident = Identity_construct Hash uuid True;
          attr1 = (if host_name attr \<noteq> [] then attr\<lparr> host_name := HostName \<rparr> else attr);
          attr2 = (if process_id attr1 = 0 then attr1\<lparr> process_id := ProcessId \<rparr> else attr1);
          attr3 = (if role_id attr2 = 0 then attr2\<lparr> role_id := hash_value ident \<rparr> else attr2)
      in \<lparr> ep_enabled = False, ep_attr = attr3, ep_id = ident \<rparr>)"

section \<open>Transmitters\<close>

record transmitter = endpoint +
  seq_num_ctr :: u64
  tr_msg_info :: MessageInfo

definition Transmitter_construct :: "(bytes \<Rightarrow> u64) \<Rightarrow> endpoint \<Rightarrow> transmitter" where
  "Transmitter_construct Hash ep =
     endpoint.extend ep
       (transmitter.fields 0 ((MessageInfo_construct Hash)\<lparr> sender_id := ep_id ep, MessageInfo.seq_num := 0 \<rparr>))"

text \<open>Identifiers have 8 bytes.\<close>

definition info_ok :: "MessageInfo \<Rightarrow> bool" where
  "info_ok info \<longleftrightarrow> length (id_data (sender_id info)) = ID_SIZE \<and> length (id_data (spare_id info)) = ID_SIZE"

text \<open>The first step of \<open>Transmit (msg)\<close>; the second is the overload of the subclass.\<close>

definition NextSeqNum :: "'a transmitter_scheme \<Rightarrow> u64 \<times> 'a transmitter_scheme" where
  "NextSeqNum t = (let n = seq_num_ctr t + 1 in (n, t\<lparr> seq_num_ctr := n \<rparr>))"

definition stamp_info :: "'a transmitter_scheme \<Rightarrow> 'a transmitter_scheme" where
  "stamp_info t = (let (n, t1) = NextSeqNum t in t1\<lparr> tr_msg_info := (tr_msg_info t1)\<lparr> MessageInfo.seq_num := n \<rparr> \<rparr>)"

record shm_transmitter = transmitter +
  sx_segment :: "segment option"
  sx_channel_id :: u64
  sx_host_id :: u64
  sx_notifier :: bool
  receiver_count :: i32

definition ShmTransmitter_construct :: "(bytes \<Rightarrow> u64) \<Rightarrow> transmitter \<Rightarrow> RoleAttributes \<Rightarrow> shm_transmitter" where
  "ShmTransmitter_construct Hash t attr =
     transmitter.extend t (shm_transmitter.fields None (channel_id attr) (Hash (host_ip attr)) False 0)"

definition CreateSegment :: "u64 \<Rightarrow> segment" where
  "CreateSegment ch = Segment_construct ch"

definition ShmTransmitter_Enable0 :: "shm_transmitter \<Rightarrow> shm_transmitter" where
  "ShmTransmitter_Enable0 t =
     (if ep_enabled t then t
      else if receiver_count t = 0 then t
      else t\<lparr> sx_segment := Some (CreateSegment (sx_channel_id t)), sx_notifier := True, ep_enabled := True \<rparr>)"

definition ShmTransmitter_Enable :: "shm_transmitter \<Rightarrow> shm_transmitter" where
  "ShmTransmitter_Enable t =
     (let t1 = t\<lparr> receiver_count := receiver_count t + 1 \<rparr>
      in if ep_enabled t1 then t1 else ShmTransmitter_Enable0 t1)"

text \<open>Giving up the segment runs its destructor.\<close>

definition ShmTransmitter_Disable0 ::
  "backend \<Rightarrow> faults \<Rightarrow> shm_transmitter \<times> shm_os \<Rightarrow> (shm_transmitter \<times> shm_os) option" where
  "ShmTransmitter_Disable0 be flt = (\<lambda>(t, os).
     if ep_enabled t then
       do {
         os1 \<leftarrow> (case sx_segment t of None \<Rightarrow> Some os | Some s \<Rightarrow> do { (_, _, os1) \<leftarrow> Destory be flt (s, os); Some os1 });
         Some (t\<lparr> sx_segment := None, sx_notifier := False, ep_enabled := False \<rparr>, os1)
       }
     else Some (t, os))"

definition ShmTransmitter_Disable ::
  "backend \<Rightarrow> faults \<Rightarrow> shm_transmitter \<times> shm_os \<Rightarrow> (shm_transmitter \<times> shm_os) option" where
  "ShmTransmitter_Disable be flt = (\<lambda>(t, os).
     if \<not> ep_enabled t then Some (t, os)
     else
       (let n = receiver_count t; t1 = t\<lparr> receiver_count := n - 1 \<rparr>
        in if n \<le>s 1 then ShmTransmitter_Disable0 be flt (t1, os) else Some (t1, os)))"

subsection \<open>Bytes of a shared object\<close>

text \<open>Copying to and from the mapping, undefined outside it.\<close>

definition store_bytes :: "nat \<times> u64 \<Rightarrow> bytes \<Rightarrow> shm_os \<Rightarrow> shm_os option" where
  "store_bytes = (\<lambda>(i, off) bs os.
     if unat off + length bs \<le> unat (so_size (os_objs os ! i))
     then Some (os_update i (\<lambda>o1. o1\<lparr> so_mem := (\<lambda>a. if unat off \<le> unat a \<and> unat a < unat off + length bs
                                                  then bs ! (unat a - unat off) else so_mem o1 a) \<rparr>) os)
     else None)"

definition load_bytes :: "nat \<times> u64 \<Rightarrow> nat \<Rightarrow> shm_os \<Rightarrow> bytes option" where
  "load_bytes = (\<lambda>(i, off) n os.
     if unat off + n \<le> unat (so_size (os_objs os ! i))
     then Some (map (\<lambda>k. so_mem (os_objs os ! i) (of_nat (unat off + k))) [0..<n])
     else None)"

text \<open>Setting a field of the block a \<open>WritableBlock\<close> points to.\<close>

definition set_block :: "WritableBlock \<Rightarrow> (Block \<Rightarrow> Block) \<Rightarrow> shm_os \<Rightarrow> shm_os option" where
  "set_block wb f os =
     do { (i, k) \<leftarrow> wb_block wb; if valid_block (os_objs os ! i) k then Some (os_update i (on_block k f) os) else None }"

definition shift_by :: "nat \<times> u64 \<Rightarrow> u64 \<Rightarrow> nat \<times> u64" where
  "shift_by a n = (fst a, snd a + n)"

text \<open>What \<open>Transmit\<close> writes into the block it got: the message, its size, and behind the message the two
  identifiers and the sequence number.\<close>

definition write_message :: "ByteOrder \<Rightarrow> bytes \<Rightarrow> MessageInfo \<Rightarrow> WritableBlock \<Rightarrow> shm_os \<Rightarrow> shm_os option" where
  "write_message bo bs info wb os =
     do {
       buf \<leftarrow> wb_buf wb;
       let msg_size = of_nat (length bs);
       os1 \<leftarrow> store_bytes buf bs os;
       os2 \<leftarrow> set_block wb (\<lambda>b. b\<lparr> blk_msg_size := msg_size \<rparr>) os1;
       let msg_info_addr = shift_by buf msg_size;
       os3 \<leftarrow> store_bytes msg_info_addr (id_data (sender_id info)) os2;
       os4 \<leftarrow> store_bytes (shift_by msg_info_addr (of_nat ID_SIZE)) (id_data (spare_id info)) os3;
       os5 \<leftarrow> store_bytes (shift_by msg_info_addr (of_nat (ID_SIZE * 2))) (mem_bytes bo 8 (unat (MessageInfo.seq_num info))) os4;
       set_block wb (\<lambda>b. b\<lparr> blk_msg_info_size := of_nat (ID_SIZE * 2) + 8 \<rparr>) os5
     }"

text \<open>\<open>is_shutdown\<close> is the flag of the notifier.\<close>

definition ShmTransmitter_Transmit ::
  "backend \<Rightarrow> faults \<Rightarrow> ByteOrder \<Rightarrow> bool \<Rightarrow> bytes \<Rightarrow> MessageInfo \<Rightarrow> shm_transmitter \<times> shm_os \<times> indicator
     \<Rightarrow> (bool \<times> shm_transmitter \<times> shm_os \<times> indicator) option" where
  "ShmTransmitter_Transmit be flt bo is_shutdown bs info = (\<lambda>(t, os, ind).
     if \<not> ep_enabled t then Some (False, t, os, ind)
     else do {
       s \<leftarrow> sx_segment t;
       (acquired, s1, os1) \<leftarrow> AcquireBlockToWrite be flt (of_nat (length bs)) (s, os);
       case acquired of
         None \<Rightarrow> Some (False, t\<lparr> sx_segment := Some s1 \<rparr>, os1, ind)
       | Some wb \<Rightarrow> do {
           os2 \<leftarrow> write_message bo bs info wb os1;
           (s3, os3) \<leftarrow> ReleaseWrittenBlock wb (s1, os2);
           let (sent, ind1) = CN_Notify is_shutdown
             \<lparr> ri_host_id = sx_host_id t, ri_block_index = wb_index wb, ri_channel_id = sx_channel_id t \<rparr> ind;
           Some (sent, t\<lparr> sx_segment := Some s3 \<rparr>, os3, ind1)
         }
     })"

definition Transmitter_Transmit ::
  "backend \<Rightarrow> faults \<Rightarrow> ByteOrder \<Rightarrow> bool \<Rightarrow> bytes \<Rightarrow> shm_transmitter \<times> shm_os \<times> indicator
     \<Rightarrow> (bool \<times> shm_transmitter \<times> shm_os \<times> indicator) option" where
  "Transmitter_Transmit be flt bo is_shutdown bs = (\<lambda>(t, os, ind).
     let t1 = stamp_info t in ShmTransmitter_Transmit be flt bo is_shutdown bs (tr_msg_info t1) (t1, os, ind))"

section \<open>The dispatcher\<close>

record 'cb shm_dispatcher =
  sd_base :: "'cb dispatcher"
  sd_host_id :: u64
  sd_segments :: "u64 \<Rightarrow> segment option"
  sd_previous :: "u64 \<Rightarrow> u32 option"
  sd_next_seq :: u64

text \<open>The notifier of the process listens from \<open>next_seq\<close>.\<close>

definition ShmDispatcher_construct :: "(bytes \<Rightarrow> u64) \<Rightarrow> bytes \<Rightarrow> u64 \<Rightarrow> 'cb shm_dispatcher" where
  "ShmDispatcher_construct Hash HostIp next_seq =
     \<lparr> sd_base = Dispatcher_construct, sd_host_id = Hash HostIp, sd_segments = (\<lambda>_. None),
       sd_previous = (\<lambda>_. None), sd_next_seq = next_seq \<rparr>"

definition AddSegment :: "RoleAttributes \<Rightarrow> 'cb shm_dispatcher \<Rightarrow> 'cb shm_dispatcher" where
  "AddSegment self_attr d =
     (let ch = channel_id self_attr
      in if sd_segments d ch \<noteq> None then d
         else d\<lparr> sd_segments := (sd_segments d)(ch \<mapsto> CreateSegment ch), sd_previous := (sd_previous d)(ch \<mapsto> - 1) \<rparr>)"

text \<open>The type tag of the handlers of this dispatcher.\<close>

definition ReadableBlock_tag :: nat where "ReadableBlock_tag = 0"

definition ShmDispatcher_AddListener :: "RoleAttributes \<Rightarrow> 'cb \<Rightarrow> 'cb shm_dispatcher \<Rightarrow> 'cb shm_dispatcher" where
  "ShmDispatcher_AddListener self_attr cb d =
     AddSegment self_attr
       (d\<lparr> sd_base := AddListener ReadableBlock_tag (channel_id self_attr) (role_id self_attr) cb (sd_base d) \<rparr>)"

definition ShmDispatcher_AddListener_to ::
  "RoleAttributes \<Rightarrow> RoleAttributes \<Rightarrow> 'cb \<Rightarrow> 'cb shm_dispatcher \<Rightarrow> 'cb shm_dispatcher" where
  "ShmDispatcher_AddListener_to self_attr opposite_attr cb d =
     AddSegment self_attr
       (d\<lparr> sd_base := AddListener_to ReadableBlock_tag (channel_id self_attr) (role_id self_attr) (role_id opposite_attr) cb
            (sd_base d) \<rparr>)"

text \<open>The listener adapter: it deserializes the content of the block (\<open>None\<close>: it is not all mapped) and passes the
  message on.  \<open>dec\<close> is the deserialization of the message type.\<close>

definition listener_adapter ::
  "(bytes \<Rightarrow> 'm) \<Rightarrow> ('cb \<Rightarrow> 'm \<times> MessageInfo \<Rightarrow> 'w \<Rightarrow> 'w) \<Rightarrow> 'cb \<Rightarrow> bytes option \<times> MessageInfo \<Rightarrow> 'w option \<Rightarrow> 'w option" where
  "listener_adapter dec listener cb = (\<lambda>(content, info) world.
     do { w \<leftarrow> world; bs \<leftarrow> content; Some (listener cb (dec bs, info) w) })"

text \<open>The identifiers are copied into the \<open>MessageInfo\<close> without updating the hash values.\<close>

definition read_info :: "ByteOrder \<Rightarrow> (bytes \<Rightarrow> u64) \<Rightarrow> nat \<times> u64 \<Rightarrow> shm_os \<Rightarrow> MessageInfo option" where
  "read_info bo Hash msg_info_addr os =
     do {
       let mi = MessageInfo_construct Hash;
       sender \<leftarrow> load_bytes msg_info_addr ID_SIZE os;
       spare \<leftarrow> load_bytes (shift_by msg_info_addr (of_nat ID_SIZE)) ID_SIZE os;
       seq \<leftarrow> load_bytes (shift_by msg_info_addr (of_nat (2 * ID_SIZE))) 8 os;
       Some (mi\<lparr> sender_id := (sender_id mi)\<lparr> id_data := sender \<rparr>, spare_id := (spare_id mi)\<lparr> id_data := spare \<rparr>,
               MessageInfo.seq_num := mem_u64 bo seq \<rparr>)
     }"

definition ReadMessage ::
  "backend \<Rightarrow> faults \<Rightarrow> ByteOrder \<Rightarrow> (bytes \<Rightarrow> u64) \<Rightarrow> ('cb \<Rightarrow> bytes option \<times> MessageInfo \<Rightarrow> 'w option \<Rightarrow> 'w option) \<Rightarrow>
     u64 \<Rightarrow> u32 \<Rightarrow> 'w \<times> 'cb shm_dispatcher \<times> shm_os \<Rightarrow> ('w \<times> 'cb shm_dispatcher \<times> shm_os) option" where
  "ReadMessage be flt bo Hash eff ch block_index = (\<lambda>(w, d, os).
     do {
       s \<leftarrow> sd_segments d ch;
       (acquired, s1, os1) \<leftarrow> AcquireBlockToRead be flt block_index (s, os);
       rb \<leftarrow> acquired;
       (i, k) \<leftarrow> wb_block rb;
       buf \<leftarrow> wb_buf rb;
       let msg_size = blk_msg_size (so_blocks (os_objs os1 ! i) k);
       info \<leftarrow> read_info bo Hash (shift_by buf msg_size) os1;
       let (world, base1) = OnMessage eff ch (load_bytes buf (unat msg_size) os1) info (Some w, sd_base d);
       w1 \<leftarrow> world;
       (s2, os2) \<leftarrow> ReleaseReadableBlock rb (s1, os1);
       Some (w1, d\<lparr> sd_base := base1, sd_segments := (sd_segments d)(ch \<mapsto> s2) \<rparr>, os2)
     })"

text \<open>One turn of the loop of \<open>ThreadFunc\<close>; \<open>mem\<close> is what \<open>Listen\<close> finds in its iterations.\<close>

definition thread_turn ::
  "backend \<Rightarrow> faults \<Rightarrow> ByteOrder \<Rightarrow> (bytes \<Rightarrow> u64) \<Rightarrow> ('cb \<Rightarrow> bytes option \<times> MessageInfo \<Rightarrow> 'w option \<Rightarrow> 'w option) \<Rightarrow>
     (nat \<Rightarrow> bool \<times> indicator) \<Rightarrow> 'w \<times> 'cb shm_dispatcher \<times> shm_os \<Rightarrow> ('w \<times> 'cb shm_dispatcher \<times> shm_os) option" where
  "thread_turn be flt bo Hash eff mem = (\<lambda>(w, d, os).
     case CN_Listen mem 100 (sd_next_seq d) of
       (None, n) \<Rightarrow> Some (w, d\<lparr> sd_next_seq := n \<rparr>, os)
     | (Some readable_info, n) \<Rightarrow>
         (let d1 = d\<lparr> sd_next_seq := n \<rparr>; ch = ri_channel_id readable_info; block_index = ri_block_index readable_info
          in if ri_host_id readable_info \<noteq> sd_host_id d1 then Some (w, d1, os)
             else if sd_segments d1 ch = None then Some (w, d1, os)
             else ReadMessage be flt bo Hash eff ch block_index
                    (w, d1\<lparr> sd_previous := (sd_previous d1)(ch \<mapsto> block_index) \<rparr>, os)))"

primrec ThreadFunc ::
  "backend \<Rightarrow> faults \<Rightarrow> ByteOrder \<Rightarrow> (bytes \<Rightarrow> u64) \<Rightarrow> ('cb \<Rightarrow> bytes option \<times> MessageInfo \<Rightarrow> 'w option \<Rightarrow> 'w option) \<Rightarrow>
     (nat \<Rightarrow> bool \<times> indicator) list \<Rightarrow> 'w \<times> 'cb shm_dispatcher \<times> shm_os \<Rightarrow> ('w \<times> 'cb shm_dispatcher \<times> shm_os) option" where
  "ThreadFunc be flt bo Hash eff [] st = Some st"
| "ThreadFunc be flt bo Hash eff (mem # mems) st =
     (if dp_shutdown (sd_base (fst (snd st))) then Some st
      else do { st1 \<leftarrow> thread_turn be flt bo Hash eff mem st; ThreadFunc be flt bo Hash eff mems st1 })"

text \<open>The segments a dispatcher gives up are destroyed one after the other, \<open>chs\<close> is their order.\<close>

primrec clear_segments ::
  "backend \<Rightarrow> faults \<Rightarrow> u64 list \<Rightarrow> 'cb shm_dispatcher \<times> shm_os \<Rightarrow> ('cb shm_dispatcher \<times> shm_os) option" where
  "clear_segments be flt [] st = Some st"
| "clear_segments be flt (ch # chs) st =
     do {
       os1 \<leftarrow> (case sd_segments (fst st) ch of
                None \<Rightarrow> Some (snd st)
              | Some s \<Rightarrow> do { (_, _, os1) \<leftarrow> Destory be flt (s, snd st); Some os1 });
       clear_segments be flt chs ((fst st)\<lparr> sd_segments := (sd_segments (fst st))(ch := None) \<rparr>, os1)
     }"

definition ShmDispatcher_Shutdown ::
  "backend \<Rightarrow> faults \<Rightarrow> u64 list \<Rightarrow> 'cb shm_dispatcher \<times> shm_os \<Rightarrow> ('cb shm_dispatcher \<times> shm_os) option" where
  "ShmDispatcher_Shutdown be flt chs = (\<lambda>(d, os).
     if dp_shutdown (sd_base d) then Some (d, os)
     else clear_segments be flt chs (d\<lparr> sd_base := Dispatcher_Shutdown (sd_base d) \<rparr>, os))"

section \<open>Receivers\<close>

text \<open>What is bound to a dispatcher is \<open>OnNewMessage\<close> of a receiver: the listener it was made with and its attributes.\<close>

record 'l receiver = endpoint +
  msg_listener :: "'l option"

type_synonym 'l bound = "'l option \<times> RoleAttributes"

definition OnNewMessage ::
  "('l \<Rightarrow> 'm \<times> MessageInfo \<times> RoleAttributes \<Rightarrow> 'w \<Rightarrow> 'w) \<Rightarrow> 'l bound \<Rightarrow> 'm \<times> MessageInfo \<Rightarrow> 'w \<Rightarrow> 'w" where
  "OnNewMessage call = (\<lambda>(listener, attr) (msg, info) w.
     case listener of None \<Rightarrow> w | Some l \<Rightarrow> call l (msg, info, attr) w)"

definition bind_receiver :: "'l receiver \<Rightarrow> 'l bound" where
  "bind_receiver r = (msg_listener r, ep_attr r)"

definition Receiver_construct :: "endpoint \<Rightarrow> 'l option \<Rightarrow> 'l receiver" where
  "Receiver_construct ep listener = endpoint.extend ep (receiver.fields listener)"

definition ShmReceiver_Enable0 :: "'l receiver \<times> 'l bound shm_dispatcher \<Rightarrow> 'l receiver \<times> 'l bound shm_dispatcher" where
  "ShmReceiver_Enable0 = (\<lambda>(r, d).
     if ep_enabled r then (r, d)
     else (r\<lparr> ep_enabled := True \<rparr>, ShmDispatcher_AddListener (ep_attr r) (bind_receiver r) d))"

definition ShmReceiver_Disable0 :: "'l receiver \<times> 'l bound shm_dispatcher \<Rightarrow> 'l receiver \<times> 'l bound shm_dispatcher" where
  "ShmReceiver_Disable0 = (\<lambda>(r, d).
     if \<not> ep_enabled r then (r, d)
     else (r\<lparr> ep_enabled := False \<rparr>,
           d\<lparr> sd_base := RemoveListener (channel_id (ep_attr r)) (role_id (ep_attr r)) (sd_base d) \<rparr>))"

definition ShmReceiver_Enable :: "RoleAttributes \<Rightarrow> 'l receiver \<times> 'l bound shm_dispatcher \<Rightarrow> 'l receiver \<times> 'l bound shm_dispatcher" where
  "ShmReceiver_Enable opposite_attr = (\<lambda>(r, d).
     (r, ShmDispatcher_AddListener_to (ep_attr r) opposite_attr (bind_receiver r) d))"

definition ShmReceiver_Disable :: "RoleAttributes \<Rightarrow> 'l receiver \<times> 'l bound shm_dispatcher \<Rightarrow> 'l receiver \<times> 'l bound shm_dispatcher" where
  "ShmReceiver_Disable opposite_attr = (\<lambda>(r, d).
     (r, d\<lparr> sd_base := RemoveListener_from (channel_id (ep_attr r)) (role_id (ep_attr r)) (role_id opposite_attr) (sd_base d) \<rparr>))"

end
