(* ===== verification/ShmDelivery.thy ===== *)
theory ShmDelivery
  imports ShmTransport
begin

text \<open>
  From \<open>Transmit\<close> to the listeners: whatever the sizes of the messages, so that segments are created,
  recreated and remapped on the way, the thread of \<open>ShmDispatcher\<close> hands the listeners of the channel the
  bytes, the sender and the sequence number that were sent.
\<close>

section \<open>A channel between two messages\<close>

definition nblk :: "shm_obj \<Rightarrow> u64" where
  "nblk o1 = block_num (ShmConf_Update (st_ceiling_msg_size (so_state o1)))"

lemma nblk_GetBlockNum: "obj_ok o1 \<Longrightarrow> GetBlockNum (st_ceiling_msg_size (so_state o1)) = nblk o1"
  by (auto simp: obj_ok_def nblk_def Let_def ShmConf_Update_def)

lemma valid_block_nblk: "obj_ok o1 \<Longrightarrow> valid_block o1 k = (k < nblk o1)"
  by (simp add: valid_block_def nblk_GetBlockNum)

text \<open>The object of the channel, if there is one, is whole, is not to be replaced and no block of it is locked.\<close>

definition obj_ready :: "shm_obj \<Rightarrow> bool" where
  "obj_ready o1 \<longleftrightarrow> obj_ok o1 \<and> \<not> need_remap (so_state o1) \<and> (\<forall>k < nblk o1. blk_free o1 k)"

definition chan_ready :: "shm_name \<Rightarrow> shm_os \<Rightarrow> bool" where
  "chan_ready n os \<longleftrightarrow> os_ok os \<and> (\<forall>i. os_open n os = Some i \<longrightarrow> obj_ready (os_objs os ! i))"

text \<open>An initialised segment maps the object of the channel or one that is marked and has no fewer blocks.\<close>

definition in_sync :: "shm_name \<Rightarrow> segment \<Rightarrow> shm_os \<Rightarrow> bool" where
  "in_sync n s os \<longleftrightarrow> seg_ok s os \<and>
     (sm_init s \<longrightarrow> (\<exists>i j. os_open n os = Some i \<and> attached j s os \<and>
        (j = i \<or> need_remap (so_state (os_objs os ! j)) \<and> nblk (os_objs os ! i) \<le> nblk (os_objs os ! j))))"

definition sync_kept :: "shm_name \<Rightarrow> shm_os \<Rightarrow> shm_os \<Rightarrow> bool" where
  "sync_kept n os os' \<longleftrightarrow> os_le os os' \<and> (\<forall>s. in_sync n s os \<longrightarrow> in_sync n s os')"

lemma sync_kept_refl [simp]: "sync_kept n os os"
  by (simp add: sync_kept_def)

lemma sync_kept_trans: "sync_kept n a b \<Longrightarrow> sync_kept n b c \<Longrightarrow> sync_kept n a c"
  by (auto simp: sync_kept_def intro: os_le_trans)

definition calm :: "(shm_obj \<Rightarrow> shm_obj) \<Rightarrow> bool" where
  "calm f \<longleftrightarrow> keeps f \<and> (\<forall>x. need_remap (so_state (f x)) = need_remap (so_state x))"

lemma calm_ops [simp]:
  "calm (on_block k g)" "calm (on_state IncreaseReferenceCount)" "calm (\<lambda>x. x\<lparr> so_mem := h x \<rparr>)"
  by (simp_all add: calm_def) (simp_all add: on_block_def on_state_def IncreaseReferenceCount_def)

lemma nblk_keeps: "keeps f \<Longrightarrow> nblk (f x) = nblk x"
  by (simp add: nblk_def keeps_def)

lemma calm_update:
  assumes "calm f"
  shows "sync_kept n os (os_update i f os)"
proof -
  have k: "keeps f" "\<And>x. need_remap (so_state (f x)) = need_remap (so_state x)" using assms by (auto simp: calm_def)
  have le: "os_le os (os_update i f os)" by (rule os_update_le [OF k(1)])
  have nb: "nblk (os_objs (os_update i f os) ! j) = nblk (os_objs os ! j)"
    "need_remap (so_state (os_objs (os_update i f os) ! j)) = need_remap (so_state (os_objs os ! j))" for j
    using nblk_keeps [OF k(1)] k(2) by (simp_all add: os_objs_update)
  show ?thesis
    unfolding sync_kept_def in_sync_def using le seg_ok_mono [OF _ le] attached_mono [OF _ le] by (auto simp: nb) metis+
qed

lemma in_sync_attached:
  assumes "attached i s os" "os_open n os = Some i"
  shows "in_sync n s os"
  using assms by (auto simp: in_sync_def seg_ok_def attached_def)

lemma obj_ready_inc: "obj_ready o1 \<Longrightarrow> obj_ready (on_state IncreaseReferenceCount o1)"
  by (simp add: obj_ready_def obj_ok_keeps nblk_keeps)
    (simp add: on_state_def IncreaseReferenceCount_def blk_free_def)

lemma inc_ready:
  assumes "chan_ready n os" "os_open n os = Some i"
  shows "chan_ready n (os_update i (on_state IncreaseReferenceCount) os)"
  using assms obj_ready_inc by (auto simp: chan_ready_def os_update_ok os_objs_update)

lemma fresh_ready: "obj_ready (fresh_obj (ShmConf_Update m))"
  using fresh_obj_ok [of m]
  by (simp add: obj_ready_def fresh_obj_def zero_obj_def IncreaseReferenceCount_def State_construct_def blk_free_def
      Block_construct_def KRWLockFree_def)

lemma created_ready:
  assumes "os_ok os"
  shows "chan_ready n (created n (ShmConf_Update m) os)"
  using created_ok [OF assms] fresh_ready by (simp add: chan_ready_def)

text \<open>A larger ceiling never comes with more blocks.\<close>

lemma fewer_blocks:
  assumes "ceiling_msg_size (ShmConf_Update m) < n"
  shows "block_num (ShmConf_Update n) \<le> block_num (ShmConf_Update m)"
proof -
  have "n \<le> 33554432 \<longrightarrow> n \<le> ceiling_msg_size (ShmConf_Update n)" using ceiling_enough [of n] by (simp add: MESSAGE_SIZE_MORE_def)
  moreover have "\<not> n \<le> 33554432 \<Longrightarrow> block_num (ShmConf_Update n) = 8"
    by (simp add: ShmConf_Update_def GetCeilingMessageSize_def GetBlockNum_def Let_def shm_sizes word_le_nat_alt)
  ultimately show ?thesis using assms
    by (cases rule: conf_cases [of n]; cases rule: conf_cases [of m]) (auto simp: word_le_nat_alt word_less_nat_alt)
qed

section \<open>Getting hold of the object\<close>

lemma created_kept:
  assumes "os_open n os = None" "os_ok os"
  shows "sync_kept n os (created n (ShmConf_Update m) os)"
proof -
  have le: "os_le os (created n (ShmConf_Update m) os)" using created_ok [OF assms(2)] by simp
  then show ?thesis using assms(1) seg_ok_mono [OF _ le] by (auto simp: sync_kept_def in_sync_def)
qed

context shm_backend
begin

text \<open>Opening by name, with no failing system call.\<close>

lemma open_current:
  assumes "chan_ready (nm ch) os" "os_open (nm ch) os = Some i" "\<not> sm_init s" "sm_channel s = ch"
  obtains s1 where "be_OpenOnly be no_faults (s, os) = (True, s1, os_update i (on_state IncreaseReferenceCount) os)"
    "attached i s1 (os_update i (on_state IncreaseReferenceCount) os)" "sm_channel s1 = ch"
proof -
  have ok: "os_ok os" "obj_ok (os_objs os ! i)" using assms(1,2) by (auto simp: chan_ready_def obj_ready_def)
  have "so_size (os_objs os ! i) \<noteq> 0"
    using ok(2) by (cases rule: conf_cases [of "st_ceiling_msg_size (so_state (os_objs os ! i))"])
      (auto simp: obj_ok_def Let_def)
  then have "fst (be_OpenOnly be no_faults (s, os))" using open_only_works assms(2,4) by metis
  moreover have "open_outcome (nm (sm_channel s)) s os (be_OpenOnly be no_faults (s, os))"
    using open_only [OF ok(1) assms(3)] .
  ultimately show thesis using that assms(2,4) by (cases "be_OpenOnly be no_faults (s, os)") (auto simp: open_outcome_def)
qed

text \<open>The first lines of both \<open>Acquire\<close> operations.\<close>

definition ensure_init :: "segment \<times> shm_os \<Rightarrow> bool \<times> segment \<times> shm_os" where
  "ensure_init = (\<lambda>(s, os). if sm_init s then (True, s, os) else be_OpenOrCreate be no_faults (s, os))"

definition ensure_current :: "segment \<times> shm_os \<Rightarrow> nat \<Rightarrow> bool \<times> segment \<times> shm_os" where
  "ensure_current = (\<lambda>(s, os) j. if need_remap (so_state (os_objs os ! j)) then Remap be no_faults (s, os) else (True, s, os))"

lemma ensure_current_object:
  assumes "chan_ready (nm ch) os" "os_open (nm ch) os = Some i" "in_sync (nm ch) s os" "sm_channel s = ch"
  obtains s1 j s2 os1 os2 where "ensure_init (s, os) = (True, s1, os1)" "sm_state s1 = Some j"
    "nblk (os_objs os ! i) \<le> block_num (sm_conf s1)"
    "ensure_current (s1, os1) j = (True, s2, os2)" "attached i s2 os2" "sm_channel s2 = ch"
    "os2 = os \<or> os2 = os_update i (on_state IncreaseReferenceCount) os"
proof (cases "sm_init s")
  case False
  let ?os = "os_update i (on_state IncreaseReferenceCount) os"
  obtain s1 where s1: "be_OpenOnly be no_faults (s, os) = (True, s1, ?os)" "attached i s1 ?os" "sm_channel s1 = ch"
    using open_current [OF assms(1,2) False assms(4)] .
  have 1: "ensure_init (s, os) = (True, s1, ?os)"
    using open_existing [of s os no_faults] assms(2,4) False s1(1) by (simp add: ensure_init_def)
  have r: "chan_ready (nm ch) ?os" by (rule inc_ready [OF assms(1,2)])
  then have "\<not> need_remap (so_state (os_objs ?os ! i))" using assms(2) by (simp add: chan_ready_def obj_ready_def)
  then have 2: "ensure_current (s1, ?os) i = (True, s1, ?os)" by (simp add: ensure_current_def)
  have "block_num (sm_conf s1) = nblk (os_objs ?os ! i)" using s1(2) by (simp add: attached_def nblk_def)
  also have "\<dots> = nblk (os_objs os ! i)" by (simp add: os_objs_update nblk_keeps)
  finally have nb: "nblk (os_objs os ! i) \<le> block_num (sm_conf s1)" by simp
  show thesis by (rule that [OF 1 _ nb 2 s1(2,3)]) (use s1(2) in \<open>simp_all add: attached_def\<close>)
next
  case True
  then obtain j where j: "attached j s os"
    "j = i \<or> need_remap (so_state (os_objs os ! j)) \<and> nblk (os_objs os ! i) \<le> nblk (os_objs os ! j)"
    using assms(2,3) by (auto simp: in_sync_def)
  have 1: "ensure_init (s, os) = (True, s, os)" using True by (simp add: ensure_init_def)
  have st: "sm_state s = Some j" "block_num (sm_conf s) = nblk (os_objs os ! j)" using j(1) by (simp_all add: attached_def nblk_def)
  then have nb: "nblk (os_objs os ! i) \<le> block_num (sm_conf s)" using j(2) by auto
  show thesis
  proof (cases "need_remap (so_state (os_objs os ! j))")
    case False
    then have "j = i" using j(2) by simp
    then show thesis using that [OF 1 st(1) nb, of s os] False j(1) assms(4) by (simp add: ensure_current_def)
  next
    case need: True
    let ?s = "be_Reset be (s\<lparr> sm_init := False \<rparr>)" let ?os = "os_update i (on_state IncreaseReferenceCount) os"
    have s: "\<not> sm_init ?s" "sm_channel ?s = ch" using assms(4) by (simp_all add: reset)
    obtain s2 where s2: "be_OpenOnly be no_faults (?s, os) = (True, s2, ?os)" "attached i s2 ?os" "sm_channel s2 = ch"
      using open_current [OF assms(1,2) s] .
    then have 2: "ensure_current (s, os) j = (True, s2, ?os)" using need by (simp add: ensure_current_def Remap_def)
    show thesis by (rule that [OF 1 st(1) nb 2 s2(2,3)]) simp
  qed
qed

lemma ensure_new_object:
  assumes "chan_ready (nm ch) os" "os_open (nm ch) os = None" "in_sync (nm ch) s os" "sm_channel s = ch"
  obtains s1 os1 where "ensure_init (s, os) = (True, s1, os1)" "ensure_current (s1, os1) (length (os_objs os)) = (True, s1, os1)"
    "os_open (nm ch) os1 = Some (length (os_objs os))" "attached (length (os_objs os)) s1 os1" "sm_channel s1 = ch"
    "chan_ready (nm ch) os1" "sync_kept (nm ch) os os1"
proof -
  have ok: "os_ok os" using assms(1) by (simp add: chan_ready_def)
  have i: "\<not> sm_init s" using assms(2,3) by (auto simp: in_sync_def)
  obtain m where m: "sm_conf s = ShmConf_Update m" using assms(3) by (auto simp: in_sync_def seg_ok_def)
  have "fst (be_OpenOrCreate be no_faults (s, os))" using open_or_create_works assms(2,4) by simp
  moreover have "create_outcome (nm ch) s os (be_OpenOrCreate be no_faults (s, os))"
    using open_or_create [OF ok i m] assms(4) by simp
  ultimately obtain s1 where s1: "be_OpenOrCreate be no_faults (s, os) = (True, s1, created (nm ch) (ShmConf_Update m) os)"
    "attached (length (os_objs os)) s1 (created (nm ch) (ShmConf_Update m) os)" "sm_channel s1 = ch"
    using assms(2,4) m by (cases "be_OpenOrCreate be no_faults (s, os)") (auto simp: create_outcome_def)
  let ?os = "created (nm ch) (ShmConf_Update m) os"
  have r: "chan_ready (nm ch) ?os" by (rule created_ready [OF ok])
  have 1: "ensure_init (s, os) = (True, s1, ?os)" using i s1(1) by (simp add: ensure_init_def)
  have "\<not> need_remap (so_state (os_objs ?os ! length (os_objs os)))" using fresh_ready [of m] by (simp add: obj_ready_def)
  then have 2: "ensure_current (s1, ?os) (length (os_objs os)) = (True, s1, ?os)" by (simp add: ensure_current_def)
  show thesis by (rule that [OF 1 2 _ s1(2,3) r created_kept [OF assms(2) ok]]) simp
qed

lemma ensure_object:
  assumes "chan_ready (nm ch) os" "in_sync (nm ch) s os" "sm_channel s = ch"
  obtains s1 os1 j i s2 os2 where "ensure_init (s, os) = (True, s1, os1)" "sm_state s1 = Some j"
    "ensure_current (s1, os1) j = (True, s2, os2)" "os_open (nm ch) os2 = Some i" "attached i s2 os2" "sm_channel s2 = ch"
    "chan_ready (nm ch) os2" "sync_kept (nm ch) os os2"
proof (cases "os_open (nm ch) os")
  case None
  show thesis
  proof (rule ensure_new_object [OF assms(1) None assms(2,3)])
    fix s1 os1 assume a: "ensure_init (s, os) = (True, s1, os1)" "ensure_current (s1, os1) (length (os_objs os)) = (True, s1, os1)"
      "os_open (nm ch) os1 = Some (length (os_objs os))" "attached (length (os_objs os)) s1 os1" "sm_channel s1 = ch"
      "chan_ready (nm ch) os1" "sync_kept (nm ch) os os1"
    show thesis by (rule that [OF a(1) attached_state [OF a(4)] a(2,3,4,5,6,7)])
  qed
next
  case (Some i)
  show thesis
  proof (rule ensure_current_object [OF assms(1) Some assms(2,3)])
    fix s1 j s2 os1 os2
    assume a: "ensure_init (s, os) = (True, s1, os1)" "sm_state s1 = Some j" "ensure_current (s1, os1) j = (True, s2, os2)"
      "attached i s2 os2" "sm_channel s2 = ch" and o: "os2 = os \<or> os2 = os_update i (on_state IncreaseReferenceCount) os"
    have "os_open (nm ch) os2 = Some i" "chan_ready (nm ch) os2" "sync_kept (nm ch) os os2"
      using o Some assms(1) inc_ready [OF assms(1) Some] calm_update by auto
    then show thesis by (rule that [OF a(1,2,3) _ a(4,5)])
  qed
qed

text \<open>A message above the ceiling gets a new object.\<close>

lemma Recreate_ready:
  assumes "chan_ready (nm ch) os" "os_open (nm ch) os = Some i" "attached i s os" "sm_channel s = ch"
    and "ceiling_msg_size (sm_conf s) < n"
  obtains i' s' os' where "Recreate be no_faults n (s, os) = Some (True, s', os')" "os_open (nm ch) os' = Some i'" "attached i' s' os'"
    "sm_channel s' = ch" "sm_conf s' = ShmConf_Update n" "chan_ready (nm ch) os'" "sync_kept (nm ch) os os'"
proof -
  define os1 where "os1 = os_update i (on_state (\<lambda>st. st\<lparr> need_remap := True \<rparr>)) os"
  define s1 where "s1 = be_Reset be (s\<lparr> sm_init := False \<rparr>)"
  define os2 where "os2 = os_unlink (nm ch) os1"
  let ?s = "s1\<lparr> sm_conf := ShmConf_Update n \<rparr>" let ?os = "created (nm ch) (ShmConf_Update n) os2" let ?i = "length (os_objs os)"
  have ok: "os_ok os" "i < length (os_objs os)" using assms(1,3) by (simp_all add: chan_ready_def attached_def)
  have ok1: "os_ok os1" "os_le os os1" using ok by (simp_all add: os1_def os_update_ok os_update_le)
  have ok2: "os_ok os2" "os_le os1 os2" using os_unlink_ok [OF ok1(1)] by (simp_all add: os2_def)
  have ok3: "os_ok ?os" "os_le os2 ?os" using created_ok [OF ok2(1)] by simp_all
  have le: "os_le os ?os" using ok1(2) ok2(2) ok3(2) os_le_trans by blast
  have s: "\<not> sm_init ?s" "sm_channel ?s = ch" "sm_conf ?s = ShmConf_Update n" using assms(4) by (simp_all add: s1_def reset)
  have rm: "be_Remove be no_faults s1 os1 = (True, os2)"
    using remove_works [of s1 os1] s(2) assms(2) by (simp add: os2_def os1_def s1_def reset assms(4))
  have none: "os_open (nm ch) os2 = None" by (simp add: os2_def)
  have "fst (be_OpenOrCreate be no_faults (?s, os2))" using open_or_create_works [of ?s os2] none s(2) by simp
  moreover have "create_outcome (nm ch) ?s os2 (be_OpenOrCreate be no_faults (?s, os2))"
    using open_or_create [OF ok2(1) s(1,3), of no_faults] s(2) by simp
  moreover have len: "length (os_objs os2) = ?i" by (simp add: os2_def os1_def)
  ultimately obtain s' where s': "be_OpenOrCreate be no_faults (?s, os2) = (True, s', ?os)" "attached ?i s' ?os" "sm_channel s' = ch"
    using none s(2,3) by (cases "be_OpenOrCreate be no_faults (?s, os2)") (auto simp: create_outcome_def)
  have r: "Recreate be no_faults n (s, os) = Some (True, s', ?os)"
    using s'(1) rm assms(3) by (simp add: Recreate_def attached_def os1_def s1_def)
  have new: "os_objs ?os ! ?i = fresh_obj (ShmConf_Update n)" using len by (simp add: nth_append)
  have conf: "sm_conf s' = ShmConf_Update n"
    using s'(2) new by (simp add: attached_def fresh_obj_def IncreaseReferenceCount_def State_construct_def)
  have "nblk (os_objs ?os ! ?i) = block_num (ShmConf_Update n)" using s'(2) conf by (simp add: attached_def nblk_def)
  also have "\<dots> \<le> nblk (os_objs os ! i)" using fewer_blocks assms(3,5) by (simp add: attached_def nblk_def)
  finally have fewer: "nblk (os_objs ?os ! ?i) \<le> nblk (os_objs os ! i)" .
  have old: "nblk (os_objs ?os ! j) = nblk (os_objs os ! j)"
    "need_remap (so_state (os_objs ?os ! j)) = (j = i \<or> need_remap (so_state (os_objs os ! j)))" if "j < length (os_objs os)" for j
  proof -
    have o: "os_objs ?os ! j = os_objs os1 ! j" using that len by (simp add: nth_append os2_def)
    show "nblk (os_objs ?os ! j) = nblk (os_objs os ! j)" unfolding o os1_def by (simp add: os_objs_update nblk_keeps)
    show "need_remap (so_state (os_objs ?os ! j)) = (j = i \<or> need_remap (so_state (os_objs os ! j)))"
      unfolding o os1_def using that by (simp add: os_objs_update on_state_def)
  qed
  have "in_sync (nm ch) t ?os" if t: "in_sync (nm ch) t os" for t
  proof -
    have "\<exists>j. attached j t ?os \<and> need_remap (so_state (os_objs ?os ! j)) \<and> nblk (os_objs ?os ! ?i) \<le> nblk (os_objs ?os ! j)"
      if "sm_init t"
    proof -
      obtain j where j: "attached j t os" "j = i \<or> need_remap (so_state (os_objs os ! j)) \<and> nblk (os_objs os ! i) \<le> nblk (os_objs os ! j)"
        using t \<open>sm_init t\<close> assms(2) by (auto simp: in_sync_def)
      then have "j < length (os_objs os)" by (simp add: attached_def)
      then show ?thesis using attached_mono [OF j(1) le] old [of j] j(2) fewer by (intro exI [of _ j]) auto
    qed
    then show ?thesis using t seg_ok_mono [OF _ le] len by (auto simp: in_sync_def)
  qed
  then have "sync_kept (nm ch) os ?os" using le by (simp add: sync_kept_def)
  then show thesis using that [OF r _ s'(2,3) conf created_ready [OF ok2(1)]] len by simp
qed

end

section \<open>Blocks for writing and reading\<close>

definition lock_block :: "u64 \<Rightarrow> i32 \<Rightarrow> shm_obj \<Rightarrow> shm_obj" where
  "lock_block k n o1 = on_block k (\<lambda>b. b\<lparr> blk_lock_num := n \<rparr>) o1"

lemma take_writable_ready:
  assumes "attached i s os" "obj_ready (os_objs os ! i)"
  obtains wb where "take_writable no_faults (s, os) = Some (Some wb, s, os_update i (\<lambda>o1. write_locked (ucast (wb_index wb)) (seq_at 1 o1)) os)"
    "block_of wb i s"
proof -
  let ?o = "os_objs os ! i" let ?k = "try_index (block_num (sm_conf s)) ?o 0"
  have a: "sm_state s = Some i" "sm_blocks s = Some i" "obj_ok ?o" "block_num (sm_conf s) = nblk ?o"
    "\<forall>k < block_num (sm_conf s). sm_bufs s k = Some (i, buf_offset (sm_conf s) k)" using assms(1) by (simp_all add: attached_def nblk_def)
  have n: "0 < unat (nblk ?o)" "unat (nblk ?o) \<le> 512" using block_num_bounds by (simp_all add: nblk_def)
  have k: "?k < nblk ?o" using n(1) by (simp add: a(4) try_index_def word_less_nat_alt unat_mod)
  have "valid_block ?o ?k" "blk_free ?o ?k" using k assms(2) a(3) by (simp_all add: valid_block_nblk obj_ready_def)
  then have w: "next_writable (\<lambda>_. False) 0 (block_num (sm_conf s)) ?o = Some (ucast ?k, write_locked ?k (seq_at 1 ?o))"
    using next_writable_first [of 0 ?o "block_num (sm_conf s)" 0] by simp
  have u: "ucast (ucast ?k :: u32) = ?k"
  proof -
    have "unat ?k < 2 ^ 32" using k n by (simp add: word_less_nat_alt)
    then show ?thesis by (simp add: unat_inject_iff unsigned_ucast_eq unsigned_take_bit_eq take_bit_nat_eq_self)
  qed
  let ?wb = "\<lparr> wb_index = ucast ?k, wb_block = Some (i, ?k), wb_buf = sm_bufs s ?k \<rparr>"
  have "take_writable no_faults (s, os) = Some (Some ?wb, s, os_update i (\<lambda>_. write_locked ?k (seq_at 1 ?o)) os)"
    using w a u by (simp add: take_writable_def no_faults_def)
  moreover have "os_update i (\<lambda>_. write_locked ?k (seq_at 1 ?o)) os = os_update i (\<lambda>o1. write_locked ?k (seq_at 1 o1)) os"
    by (simp add: os_update_def)
  ultimately show thesis using that [of ?wb] u k a(4,5) by (simp add: block_of_def)
qed

context shm_backend
begin

lemma AcquireBlockToWrite_ready:
  assumes "chan_ready (nm ch) os" "in_sync (nm ch) s os" "sm_channel s = ch" "n \<le> MESSAGE_SIZE_MORE"
  obtains i wb s1 os1 where "os_open (nm ch) os1 = Some i" "attached i s1 os1" "sm_channel s1 = ch" "chan_ready (nm ch) os1"
    "sync_kept (nm ch) os os1" "block_of wb i s1" "n \<le> ceiling_msg_size (sm_conf s1)"
    "AcquireBlockToWrite be no_faults n (s, os) = Some (Some wb, s1,
       os_update i (\<lambda>o1. write_locked (ucast (wb_index wb)) (seq_at 1 o1)) os1)"
proof -
  obtain s1 os1 j i s2 os2 where e: "ensure_init (s, os) = (True, s1, os1)" "sm_state s1 = Some j"
    "ensure_current (s1, os1) j = (True, s2, os2)" "os_open (nm ch) os2 = Some i" "attached i s2 os2" "sm_channel s2 = ch"
    "chan_ready (nm ch) os2" "sync_kept (nm ch) os os2"
    by (rule ensure_object [OF assms(1-3)])
  have init: "(if sm_init s then (True, s, os) else be_OpenOrCreate be no_faults (s, os)) = (True, s1, os1)"
    using e(1) by (simp add: ensure_init_def)
  have cur: "(if need_remap (so_state (os_objs os1 ! j)) then Remap be no_faults (s1, os1) else (True, s1, os1)) = (True, s2, os2)"
    using e(3) by (simp add: ensure_current_def)
  have acq: "AcquireBlockToWrite be no_faults n (s, os) =
      do { (result, s3, os3) \<leftarrow> (if ceiling_msg_size (sm_conf s2) < n then Recreate be no_faults n (s2, os2) else Some (True, s2, os2));
           if \<not> result then Some (None, s3, os3) else take_writable no_faults (s3, os3) }"
    by (simp add: AcquireBlockToWrite_def init e(2) cur)
  obtain i3 s3 os3 where r: "(if ceiling_msg_size (sm_conf s2) < n then Recreate be no_faults n (s2, os2) else Some (True, s2, os2))
      = Some (True, s3, os3)" "os_open (nm ch) os3 = Some i3" "attached i3 s3 os3" "sm_channel s3 = ch" "chan_ready (nm ch) os3"
      "sync_kept (nm ch) os os3" "n \<le> ceiling_msg_size (sm_conf s3)"
  proof (cases "ceiling_msg_size (sm_conf s2) < n")
    case False
    then show thesis using that [of s2 os2 i] e by simp
  next
    case True
    then obtain i3 s3 os3 where "Recreate be no_faults n (s2, os2) = Some (True, s3, os3)" "os_open (nm ch) os3 = Some i3"
      "attached i3 s3 os3" "sm_channel s3 = ch" "sm_conf s3 = ShmConf_Update n" "chan_ready (nm ch) os3" "sync_kept (nm ch) os2 os3"
      by (rule Recreate_ready [OF e(7,4,5,6)])
    then show thesis using that [of s3 os3 i3] True sync_kept_trans [OF e(8)] ceiling_enough [of n] assms(4) by simp
  qed
  have "obj_ready (os_objs os3 ! i3)" using r(2,5) by (simp add: chan_ready_def)
  then obtain wb where wb: "take_writable no_faults (s3, os3)
      = Some (Some wb, s3, os_update i3 (\<lambda>o1. write_locked (ucast (wb_index wb)) (seq_at 1 o1)) os3)" "block_of wb i3 s3"
    by (rule take_writable_ready [OF r(3)])
  show thesis
    by (rule that [OF r(2,3,4,5,6) wb(2) r(7)]) (simp add: acq r(1) wb(1))
qed

text \<open>Reading a block that is not locked.\<close>

lemma AcquireBlockToRead_ready:
  assumes "chan_ready (nm ch) os" "os_open (nm ch) os = Some i" "in_sync (nm ch) s os" "sm_channel s = ch"
    and "ucast index < nblk (os_objs os ! i)"
  obtains rb s1 os1 where "os1 = os \<or> os1 = os_update i (on_state IncreaseReferenceCount) os" "attached i s1 os1" "sm_channel s1 = ch"
    "block_of rb i s1" "wb_index rb = index"
    "AcquireBlockToRead be no_faults index (s, os) = Some (Some rb, s1, os_update i (lock_block (ucast index) 1) os1)"
proof -
  let ?k = "ucast index :: u64"
  obtain s1 j s2 os1 os2 where e: "ensure_init (s, os) = (True, s1, os1)" "sm_state s1 = Some j"
    "nblk (os_objs os ! i) \<le> block_num (sm_conf s1)"
    "ensure_current (s1, os1) j = (True, s2, os2)" "attached i s2 os2" "sm_channel s2 = ch"
    and os2: "os2 = os \<or> os2 = os_update i (on_state IncreaseReferenceCount) os"
    by (rule ensure_current_object [OF assms(1-4)])
  have init: "(if sm_init s then (True, s, os) else be_OpenOrCreate be no_faults (s, os)) = (True, s1, os1)"
    using e(1) by (simp add: ensure_init_def)
  have cur: "(if need_remap (so_state (os_objs os1 ! j)) then Remap be no_faults (s1, os1) else (True, s1, os1)) = (True, s2, os2)"
    using e(4) by (simp add: ensure_current_def)
  have "chan_ready (nm ch) os2" "os_open (nm ch) os2 = Some i" using os2 assms(1,2) inc_ready [OF assms(1,2)] by auto
  then have rdy: "obj_ready (os_objs os2 ! i)" by (simp add: chan_ready_def)
  have nb: "nblk (os_objs os2 ! i) = nblk (os_objs os ! i)" using os2 by (auto simp: os_objs_update nblk_keeps)
  have k: "?k < nblk (os_objs os2 ! i)" "valid_block (os_objs os2 ! i) ?k" "blk_free (os_objs os2 ! i) ?k"
    using assms(5) rdy nb by (simp_all add: obj_ready_def valid_block_nblk)
  have a2: "sm_blocks s2 = Some i" "block_num (sm_conf s2) = nblk (os_objs os2 ! i)"
    "sm_bufs s2 ?k = Some (i, buf_offset (sm_conf s2) ?k)" using e(5) k(1) by (simp_all add: attached_def nblk_def)
  have lck: "TryLockForRead (fl_cas_read no_faults) (so_blocks (os_objs os2 ! i) ?k)
      = (True, (so_blocks (os_objs os2 ! i) ?k)\<lparr> blk_lock_num := 1 \<rparr>)"
    using k(3) by (simp add: TryLockForRead_def read_tries.simps no_faults_def blk_free_def KRWLockFree_def)
  let ?rb = "\<lparr> wb_index = index, wb_block = Some (i, ?k), wb_buf = sm_bufs s2 ?k \<rparr>"
  have wbk: "with_block s2 ?k (TryLockForRead (fl_cas_read no_faults)) os2 = Some (True, os_update i (lock_block ?k 1) os2)"
    using a2(1) k(2) lck by (simp add: with_block_def os_update_def lock_block_def on_block_def)
  have "\<not> block_num (sm_conf s1) \<le> ?k" using assms(5) e(3) by simp
  then have "AcquireBlockToRead be no_faults index (s, os) = Some (Some ?rb, s2, os_update i (lock_block ?k 1) os2)"
    by (simp add: AcquireBlockToRead_def init e(2) cur wbk a2(1))
  then show thesis using that [OF os2 e(5,6), of ?rb] a2 k(1) by (simp add: block_of_def)
qed

end

section \<open>The bytes of a message\<close>

definition store_mem :: "u64 \<Rightarrow> bytes \<Rightarrow> shm_obj \<Rightarrow> shm_obj" where
  "store_mem off bs o1 = o1\<lparr> so_mem := (\<lambda>a. if unat off \<le> unat a \<and> unat a < unat off + length bs
     then bs ! (unat a - unat off) else so_mem o1 a) \<rparr>"

definition has_bytes :: "nat \<Rightarrow> bytes \<Rightarrow> shm_obj \<Rightarrow> bool" where
  "has_bytes a xs o1 \<longleftrightarrow> a + length xs < 2 ^ 64 \<and> (\<forall>j < length xs. so_mem o1 (of_nat (a + j)) = xs ! j)"

lemma has_bytes_append:
  assumes "has_bytes a xs o1" "unat w = a + length xs" "a + length xs + length ys < 2 ^ 64"
  shows "has_bytes a (xs @ ys) (store_mem w ys o1)"
proof -
  have u: "unat (of_nat (a + j) :: u64) = a + j" if "j < length xs + length ys" for j
    using that assms(3) unat_of_nat_less [of "a + j", where 'a = 64] by simp
  show ?thesis using assms(1,3) u by (auto simp: has_bytes_def store_mem_def assms(2) nth_append)
qed

lemma load_has_bytes:
  assumes "has_bytes a xs (os_objs os ! i)" "unat w = a + d" "d + n \<le> length xs" "a + length xs \<le> unat (so_size (os_objs os ! i))"
  shows "load_bytes (i, w) n os = Some (take n (drop d xs))"
proof -
  have "map (\<lambda>k. so_mem (os_objs os ! i) (of_nat (a + d + k))) [0..<n] = take n (drop d xs)"
  proof (rule nth_equalityI)
    fix j assume "j < length (map (\<lambda>k. so_mem (os_objs os ! i) (of_nat (a + d + k))) [0..<n])"
    then have j: "j < n" "d + j < length xs" using assms(3) by simp_all
    have "so_mem (os_objs os ! i) (of_nat (a + (d + j))) = xs ! (d + j)"
      using assms(1) j(2) unfolding has_bytes_def by blast
    then show "map (\<lambda>k. so_mem (os_objs os ! i) (of_nat (a + d + k))) [0..<n] ! j = take n (drop d xs) ! j"
      using j by (simp add: add.assoc)
  qed (use assms(3) in simp)
  then show ?thesis using assms by (simp add: load_bytes_def)
qed

lemma os_update_comp: "os_update i f (os_update i g os) = os_update i (\<lambda>x. f (g x)) os"
  by (cases "i < length (os_objs os)") (simp_all add: os_update_def list_update_beyond)

lemma store_bytes_mem:
  "unat w + length bs \<le> unat (so_size (os_objs os ! i)) \<Longrightarrow> store_bytes (i, w) bs os = Some (os_update i (store_mem w bs) os)"
  by (simp add: store_bytes_def store_mem_def [abs_def])

lemma store_mem_frame [simp]:
  "so_size (store_mem w bs o1) = so_size o1" "so_state (store_mem w bs o1) = so_state o1" "so_blocks (store_mem w bs o1) = so_blocks o1"
  "valid_block (store_mem w bs o1) k = valid_block o1 k" "calm (store_mem w bs)"
  by (simp_all add: store_mem_def valid_block_def calm_def keeps_def)

lemma on_block_frame [simp]:
  "so_size (on_block k f o1) = so_size o1" "so_state (on_block k f o1) = so_state o1" "so_mem (on_block k f o1) = so_mem o1"
  "so_blocks (on_block k f o1) = (so_blocks o1)(k := f (so_blocks o1 k))" "valid_block (on_block k f o1) j = valid_block o1 j"
  "has_bytes a xs (on_block k f o1) = has_bytes a xs o1"
  by (simp_all add: on_block_def valid_block_def has_bytes_def)

text \<open>The message and what follows it.\<close>

definition wire :: "ByteOrder \<Rightarrow> bytes \<Rightarrow> MessageInfo \<Rightarrow> bytes" where
  "wire bo bs info = bs @ id_data (sender_id info) @ id_data (spare_id info) @ mem_bytes bo 8 (unat (MessageInfo.seq_num info))"

lemma length_mem_bytes [simp]: "length (mem_bytes bo n v) = n"
  by (cases bo) (simp_all add: mem_bytes_def)

lemma length_wire: "info_ok info \<Longrightarrow> length (wire bo bs info) = length bs + 24"
  by (simp add: wire_def info_ok_def ID_SIZE_def)

definition write_effect :: "ByteOrder \<Rightarrow> bytes \<Rightarrow> MessageInfo \<Rightarrow> u64 \<Rightarrow> u64 \<Rightarrow> shm_obj \<Rightarrow> shm_obj" where
  "write_effect bo bs info k off o1 =
     on_block k (\<lambda>b. b\<lparr> blk_msg_info_size := 24 \<rparr>)
       (store_mem (off + of_nat (length bs) + 16) (mem_bytes bo 8 (unat (MessageInfo.seq_num info)))
         (store_mem (off + of_nat (length bs) + 8) (id_data (spare_id info))
           (store_mem (off + of_nat (length bs)) (id_data (sender_id info))
             (on_block k (\<lambda>b. b\<lparr> blk_msg_size := of_nat (length bs) \<rparr>) (store_mem off bs o1)))))"

lemma write_effect_frame [simp]:
  "so_size (write_effect bo bs info k off o1) = so_size o1" "so_state (write_effect bo bs info k off o1) = so_state o1"
  "blk_lock_num (so_blocks (write_effect bo bs info k off o1) j) = blk_lock_num (so_blocks o1 j)"
  "blk_msg_size (so_blocks (write_effect bo bs info k off o1) k) = of_nat (length bs)"
  "calm (write_effect bo bs info k off)"
  by (simp_all add: write_effect_def calm_def keeps_def)

lemma unat_offsets:
  assumes "unat (off :: u64) + n + 24 < 2 ^ 64"
  shows "unat (off + of_nat n) = unat off + n" "unat (off + of_nat n + 8) = unat off + n + 8" "unat (off + of_nat n + 16) = unat off + n + 16"
proof -
  have "unat (off + of_nat (n + c)) = unat off + n + c" if "c \<le> 24" for c
    using assms that by (simp add: unat_word_ariths unat_of_nat take_bit_nat_eq_self)
  from this [of 0] this [of 8] this [of 16] show "unat (off + of_nat n) = unat off + n"
    "unat (off + of_nat n + 8) = unat off + n + 8" "unat (off + of_nat n + 16) = unat off + n + 16"
    by (simp_all add: add.assoc)
qed

lemma write_effect_bytes:
  assumes "info_ok info" "unat off + length bs + 24 < 2 ^ 64"
  shows "has_bytes (unat off) (wire bo bs info) (write_effect bo bs info k off o1)"
proof -
  have ids: "length (id_data (sender_id info)) = 8" "length (id_data (spare_id info)) = 8"
    using assms(1) by (simp_all add: info_ok_def ID_SIZE_def)
  note u = unat_offsets [OF assms(2)]
  have "has_bytes (unat off) [] o1" using assms(2) by (simp add: has_bytes_def)
  from has_bytes_append [OF this, of off bs] assms(2)
  have "has_bytes (unat off) bs (on_block k (\<lambda>b. b\<lparr> blk_msg_size := of_nat (length bs) \<rparr>) (store_mem off bs o1))" by simp
  from has_bytes_append [OF this u(1), of "id_data (sender_id info)"]
  have "has_bytes (unat off) (bs @ id_data (sender_id info)) (store_mem (off + of_nat (length bs)) (id_data (sender_id info))
      (on_block k (\<lambda>b. b\<lparr> blk_msg_size := of_nat (length bs) \<rparr>) (store_mem off bs o1)))" using ids assms(2) by simp
  from has_bytes_append [OF this, of "off + of_nat (length bs) + 8" "id_data (spare_id info)"] u(2) ids assms(2)
  have "has_bytes (unat off) (bs @ id_data (sender_id info) @ id_data (spare_id info))
      (store_mem (off + of_nat (length bs) + 8) (id_data (spare_id info)) (store_mem (off + of_nat (length bs)) (id_data (sender_id info))
      (on_block k (\<lambda>b. b\<lparr> blk_msg_size := of_nat (length bs) \<rparr>) (store_mem off bs o1))))" by simp
  from has_bytes_append [OF this, of "off + of_nat (length bs) + 16" "mem_bytes bo 8 (unat (MessageInfo.seq_num info))"] u(3) ids assms(2)
  show ?thesis by (simp add: write_effect_def wire_def)
qed

lemma write_message_effect:
  assumes "wb_block wb = Some (i, k)" "wb_buf wb = Some (i, off)" "i < length (os_objs os)" "valid_block (os_objs os ! i) k"
    and "info_ok info" "unat off + length bs + 24 \<le> unat (so_size (os_objs os ! i))"
  shows "write_message bo bs info wb os = Some (os_update i (write_effect bo bs info k off) os)"
proof -
  have ids: "length (id_data (sender_id info)) = 8" "length (id_data (spare_id info)) = 8"
    using assms(5) by (simp_all add: info_ok_def ID_SIZE_def)
  have "unat off + length bs + 24 < 2 ^ 64" using assms(6) unsigned_less [of "so_size (os_objs os ! i)", where ?'a = nat] by simp
  note u = unat_offsets [OF this]
  show ?thesis
    using assms(1-4,6) ids u
    by (simp add: write_message_def shift_by_def ID_SIZE_def store_bytes_mem set_block_def os_objs_update os_update_comp
        write_effect_def [abs_def] Let_def)
qed

section \<open>One message\<close>

text \<open>Block \<open>k\<close> of object \<open>i\<close> holds the message.\<close>

definition message_in :: "ByteOrder \<Rightarrow> bytes \<Rightarrow> MessageInfo \<Rightarrow> nat \<Rightarrow> u64 \<Rightarrow> shm_os \<Rightarrow> bool" where
  "message_in bo bs info i k os \<longleftrightarrow>
     (let o1 = os_objs os ! i; off = buf_offset (ShmConf_Update (st_ceiling_msg_size (so_state o1))) k
      in k < nblk o1 \<and> blk_msg_size (so_blocks o1 k) = of_nat (length bs) \<and>
         unat off + length bs + 24 \<le> unat (so_size o1) \<and> has_bytes (unat off) (wire bo bs info) o1)"

definition write_turn :: "ByteOrder \<Rightarrow> bytes \<Rightarrow> MessageInfo \<Rightarrow> u64 \<Rightarrow> u64 \<Rightarrow> shm_obj \<Rightarrow> shm_obj" where
  "write_turn bo bs info k off o1 =
     on_block k ReleaseWriteLock (write_effect bo bs info k off (write_locked k (seq_at 1 o1)))"

lemma locked_frame [simp]:
  "so_size (write_locked k o1) = so_size o1" "so_state (write_locked k o1) = so_state o1"
  "so_size (seq_at n o1) = so_size o1" "so_blocks (seq_at n o1) = so_blocks o1"
  "so_blocks (write_locked k o1) = (so_blocks o1)(k := (so_blocks o1 k)\<lparr> blk_lock_num := KWriteExclusive \<rparr>)"
  "st_ceiling_msg_size (so_state (seq_at n o1)) = st_ceiling_msg_size (so_state o1)"
  "need_remap (so_state (seq_at n o1)) = need_remap (so_state o1)"
  "valid_block (write_locked k o1) j = valid_block o1 j"
  by (simp_all add: write_locked_def seq_at_def)

lemma write_turn_frame [simp]:
  "so_size (write_turn bo bs info k off o1) = so_size o1"
  "st_ceiling_msg_size (so_state (write_turn bo bs info k off o1)) = st_ceiling_msg_size (so_state o1)"
  "need_remap (so_state (write_turn bo bs info k off o1)) = need_remap (so_state o1)"
  "calm (write_turn bo bs info k off)"
  by (simp_all add: write_turn_def calm_def keeps_def)

lemma write_turn_ready: "obj_ready o1 \<Longrightarrow> obj_ready (write_turn bo bs info k off o1)"
  by (simp add: obj_ready_def obj_ok_def nblk_def blk_free_def)
    (simp add: write_turn_def ReleaseWriteLock_def KRWLockFree_def KWriteExclusive_def)

lemma write_turn_message:
  assumes "obj_ok o1" "k < nblk o1" "info_ok info" "off = buf_offset (ShmConf_Update (st_ceiling_msg_size (so_state o1))) k"
    and "length bs \<le> unat (ceiling_msg_size (ShmConf_Update (st_ceiling_msg_size (so_state o1))))" "i < length (os_objs os)" "os_objs os ! i = o1"
  shows "message_in bo bs info i k (os_update i (write_turn bo bs info k off) os)" "unat off + length bs + 24 \<le> unat (so_size o1)"
proof -
  let ?c = "ShmConf_Update (st_ceiling_msg_size (so_state o1))"
  have "unat off + unat (block_buf_size ?c) \<le> unat (managed_shm_size ?c)"
    using buf_offset_nat(2) assms(2,4) by (simp add: nblk_def)
  moreover have "length bs + 24 \<le> unat (block_buf_size ?c)"
    using assms(5) by (cases rule: conf_cases [of "st_ceiling_msg_size (so_state o1)"]) simp_all
  ultimately show fits: "unat off + length bs + 24 \<le> unat (so_size o1)" using assms(1) by (simp add: obj_ok_def Let_def)
  then have "unat off + length bs + 24 < 2 ^ 64" using unsigned_less [of "so_size o1", where ?'a = nat] by simp
  from write_effect_bytes [OF assms(3) this] have "has_bytes (unat off) (wire bo bs info) (write_turn bo bs info k off o1)"
    by (simp add: write_turn_def)
  then show "message_in bo bs info i k (os_update i (write_turn bo bs info k off) os)"
    using assms(2,4,6,7) fits by (simp add: message_in_def os_objs_update nblk_def) (simp add: write_turn_def ReleaseWriteLock_def)
qed

lemma with_block_update:
  assumes "sm_blocks s = Some i" "valid_block (os_objs os ! i) k"
  shows "with_block s k (\<lambda>b. ((), f b)) os = Some ((), os_update i (on_block k f) os)"
  using assms by (simp add: with_block_def os_update_def on_block_def)

context shm_backend
begin

lemma Transmit_ready:
  assumes "chan_ready (nm ch) os" "in_sync (nm ch) s os" "sm_channel s = ch" "length bs \<le> 32 * 1024 * 1024" "info_ok info"
    and "ep_enabled t" "sx_segment t = Some s" "sx_channel_id t = ch"
  obtains i index s' os' where
    "ShmTransmitter_Transmit be no_faults bo False bs info (t, os, ind) = Some (True, t\<lparr> sx_segment := Some s' \<rparr>, os',
       snd (CN_Notify False \<lparr> ri_host_id = sx_host_id t, ri_block_index = index, ri_channel_id = ch \<rparr> ind))"
    "os_open (nm ch) os' = Some i" "message_in bo bs info i (ucast index) os'" "chan_ready (nm ch) os'" "sync_kept (nm ch) os os'"
    "in_sync (nm ch) s' os'" "sm_channel s' = ch"
proof -
  have len: "unat (of_nat (length bs) :: u64) = length bs" using assms(4) by (intro unat_of_nat_less) simp
  have fit: "of_nat (length bs) \<le> MESSAGE_SIZE_MORE" using len assms(4) by (simp add: word_le_nat_alt MESSAGE_SIZE_MORE_def)
  obtain i wb s1 os1 where a: "os_open (nm ch) os1 = Some i" "attached i s1 os1" "sm_channel s1 = ch" "chan_ready (nm ch) os1"
    "sync_kept (nm ch) os os1" "block_of wb i s1" "of_nat (length bs) \<le> ceiling_msg_size (sm_conf s1)"
    "AcquireBlockToWrite be no_faults (of_nat (length bs)) (s, os) = Some (Some wb, s1,
       os_update i (\<lambda>o1. write_locked (ucast (wb_index wb)) (seq_at 1 o1)) os1)"
    by (rule AcquireBlockToWrite_ready [OF assms(1-3) fit])
  let ?k = "ucast (wb_index wb) :: u64" let ?o = "os_objs os1 ! i" let ?off = "buf_offset (sm_conf s1) ?k"
  let ?os2 = "os_update i (\<lambda>o1. write_locked ?k (seq_at 1 o1)) os1" let ?os' = "os_update i (write_turn bo bs info ?k ?off) os1"
  have o: "i < length (os_objs os1)" "obj_ok ?o" "sm_conf s1 = ShmConf_Update (st_ceiling_msg_size (so_state ?o))" "sm_blocks s1 = Some i"
    using a(2) by (simp_all add: attached_def)
  have k: "?k < nblk ?o" "?k < block_num (sm_conf s1)" "wb_block wb = Some (i, ?k)" "wb_buf wb = Some (i, ?off)"
    using a(6) o(3) by (simp_all add: block_of_def nblk_def)
  have cl: "length bs \<le> unat (ceiling_msg_size (ShmConf_Update (st_ceiling_msg_size (so_state ?o))))"
    using a(7) len o(3) by (simp add: word_le_nat_alt)
  have off: "?off = buf_offset (ShmConf_Update (st_ceiling_msg_size (so_state ?o))) ?k" using o(3) by simp
  note m = write_turn_message [OF o(2) k(1) assms(5) off cl o(1) refl]
  have v: "valid_block ?o ?k" using k(1) o(2) by (simp add: valid_block_nblk)
  have "write_message bo bs info wb ?os2 = Some (os_update i (write_effect bo bs info ?k ?off) ?os2)"
    by (rule write_message_effect [OF k(3,4) _ _ assms(5)]) (use o(1) v m(2) in \<open>simp_all add: os_objs_update\<close>)
  then have w: "write_message bo bs info wb ?os2
      = Some (os_update i (\<lambda>o1. write_effect bo bs info ?k ?off (write_locked ?k (seq_at 1 o1))) os1)"
    by (simp add: os_update_comp)
  have "valid_block (write_effect bo bs info ?k ?off (write_locked ?k (seq_at 1 ?o))) ?k" using v by (simp add: valid_block_def)
  then have "with_block s1 ?k (\<lambda>b. ((), ReleaseWriteLock b)) (os_update i (\<lambda>o1. write_effect bo bs info ?k ?off (write_locked ?k (seq_at 1 o1))) os1)
      = Some ((), ?os')"
    using with_block_update [OF o(4), of "os_update i (\<lambda>o1. write_effect bo bs info ?k ?off (write_locked ?k (seq_at 1 o1))) os1" ?k ReleaseWriteLock] o(1)
    by (simp add: os_objs_update os_update_comp write_turn_def [abs_def])
  then have r: "ReleaseWrittenBlock wb (s1, os_update i (\<lambda>o1. write_effect bo bs info ?k ?off (write_locked ?k (seq_at 1 o1))) os1)
      = Some (s1, ?os')" using k(2) by (simp add: ReleaseWrittenBlock_def)
  have T: "ShmTransmitter_Transmit be no_faults bo False bs info (t, os, ind) = Some (True, t\<lparr> sx_segment := Some s1 \<rparr>, ?os',
     snd (CN_Notify False \<lparr> ri_host_id = sx_host_id t, ri_block_index = wb_index wb, ri_channel_id = ch \<rparr> ind))"
    using assms(6-8) a(8) w r by (simp add: ShmTransmitter_Transmit_def CN_Notify_def Let_def)
  have kept: "sync_kept (nm ch) os1 ?os'" by (rule calm_update) simp
  have "chan_ready (nm ch) ?os'"
    using a(1,4) o(1) write_turn_ready by (auto simp: chan_ready_def os_objs_update os_update_ok keeps_def)
  moreover have "in_sync (nm ch) s1 ?os'" using in_sync_attached [OF a(2,1)] kept by (simp add: sync_kept_def)
  ultimately show thesis using that [OF T _ m(1)] a(1,3) sync_kept_trans [OF a(5) kept] by simp
qed

end

section \<open>Reading it\<close>

text \<open>What arrives: the data of the identifiers, with the hash values of empty ones.\<close>

definition received_info :: "MessageInfo \<Rightarrow> MessageInfo" where
  "received_info info =
     \<lparr> sender_id = \<lparr> id_data = id_data (sender_id info), hash_value = 0 \<rparr>,
       spare_id = \<lparr> id_data = id_data (spare_id info), hash_value = 0 \<rparr>, mi_channel_id = 0, seq_num = MessageInfo.seq_num info \<rparr>"

lemma mem_u64_bytes: "mem_u64 bo (mem_bytes bo 8 (unat x)) = x"
proof -
  have "of_mem_bytes bo (mem_bytes bo 8 (unat x)) = unat x"
    using of_le_bytes_unat [of 8 x] by (cases bo) (simp_all add: of_mem_bytes_def mem_bytes_def)
  then show ?thesis by (simp add: mem_u64_def)
qed

lemma read_message_bytes:
  assumes "message_in bo bs info i k os" "info_ok info" "os_objs os ! i = o1" "length bs \<le> 32 * 1024 * 1024"
    and "off = buf_offset (ShmConf_Update (st_ceiling_msg_size (so_state o1))) k"
  shows "load_bytes (i, off) (unat (blk_msg_size (so_blocks o1 k))) os = Some bs"
    "read_info bo Hash (shift_by (i, off) (blk_msg_size (so_blocks o1 k))) os = Some (received_info info)"
proof -
  let ?a = "unat off"
  have m: "blk_msg_size (so_blocks o1 k) = of_nat (length bs)" "?a + length bs + 24 \<le> unat (so_size o1)"
    "has_bytes ?a (wire bo bs info) (os_objs os ! i)"
    using assms(1,3,5) by (simp_all add: message_in_def Let_def)
  have len: "unat (of_nat (length bs) :: u64) = length bs" using assms(4) by (intro unat_of_nat_less) simp
  have wl: "length (wire bo bs info) = length bs + 24" by (rule length_wire [OF assms(2)])
  have ids: "length (id_data (sender_id info)) = 8" "length (id_data (spare_id info)) = 8"
    using assms(2) by (simp_all add: info_ok_def ID_SIZE_def)
  have "?a + length bs + 24 < 2 ^ 64" using m(2) unsigned_less [of "so_size o1", where ?'a = nat] by simp
  note u = unat_offsets [OF this]
  have ld: "load_bytes (i, w) n os = Some (take n (drop d (wire bo bs info)))" if "unat w = ?a + d" "d + n \<le> length bs + 24" for w d n
    using load_has_bytes [OF m(3) that(1), of n] that(2) wl m(2) assms(3) by simp
  show "load_bytes (i, off) (unat (blk_msg_size (so_blocks o1 k))) os = Some bs"
    using ld [of off 0 "length bs"] m(1) len by (simp add: wire_def)
  have "load_bytes (i, off + of_nat (length bs)) 8 os = Some (id_data (sender_id info))"
    using ld [of "off + of_nat (length bs)" "length bs" 8] u(1) ids by (simp add: wire_def)
  moreover have "load_bytes (i, off + of_nat (length bs) + 8) 8 os = Some (id_data (spare_id info))"
    using ld [of "off + of_nat (length bs) + 8" "length bs + 8" 8] u(2) ids by (simp add: wire_def)
  moreover have "load_bytes (i, off + of_nat (length bs) + 16) 8 os = Some (mem_bytes bo 8 (unat (MessageInfo.seq_num info)))"
    using ld [of "off + of_nat (length bs) + 16" "length bs + 16" 8] u(3) ids by (simp add: wire_def)
  ultimately show "read_info bo Hash (shift_by (i, off) (blk_msg_size (so_blocks o1 k))) os = Some (received_info info)"
    using m(1) by (simp add: read_info_def shift_by_def ID_SIZE_def mem_u64_bytes received_info_def MessageInfo_construct_def
        Identity_construct_def Let_def)
qed

text \<open>Reading changes locks and the reference count only.\<close>

definition read_turn :: "bool \<Rightarrow> u64 \<Rightarrow> shm_obj \<Rightarrow> shm_obj" where
  "read_turn remapped k o1 = on_block k ReleaseReadLock (lock_block k 1 (if remapped then on_state IncreaseReferenceCount o1 else o1))"

lemma calm_id [simp]: "calm (\<lambda>x. x)" by (simp add: calm_def keeps_def)

lemma calm_comp: "calm f \<Longrightarrow> calm g \<Longrightarrow> calm (\<lambda>x. f (g x))"
  by (simp add: calm_def keeps_def)

lemma read_turn_calm [simp]: "calm (read_turn b k)"
  by (simp add: calm_def keeps_def read_turn_def lock_block_def)
    (simp add: on_state_def IncreaseReferenceCount_def)

lemma read_turn_ready: "obj_ready o1 \<Longrightarrow> obj_ready (read_turn b k o1)"
  using obj_ready_inc [of o1]
  by (cases b) (simp_all add: read_turn_def lock_block_def obj_ready_def obj_ok_def nblk_def blk_free_def ReleaseReadLock_def KRWLockFree_def)

lemma message_in_frame:
  assumes "so_size (f (os_objs os ! i)) = so_size (os_objs os ! i)" "so_mem (f (os_objs os ! i)) = so_mem (os_objs os ! i)"
    "st_ceiling_msg_size (so_state (f (os_objs os ! i))) = st_ceiling_msg_size (so_state (os_objs os ! i))"
    "blk_msg_size (so_blocks (f (os_objs os ! i)) k) = blk_msg_size (so_blocks (os_objs os ! i) k)"
  shows "message_in bo bs info i k (os_update i f os) = message_in bo bs info i k os"
  using assms by (cases "i < length (os_objs os)") (simp_all add: message_in_def os_objs_update nblk_def has_bytes_def Let_def)

context shm_backend
begin

lemma ReadMessage_ready:
  assumes "chan_ready (nm ch) os" "os_open (nm ch) os = Some i" "in_sync (nm ch) s os" "sm_channel s = ch"
    and "message_in bo bs info i (ucast index) os" "info_ok info" "length bs \<le> 32 * 1024 * 1024"
    and "sd_segments d ch = Some s" "dispatcher_rel M (sd_base d) (a, b)"
  obtains s' os' base' where
    "\<And>w. ReadMessage be no_faults bo Hash (listener_adapter dec eff) ch index (w, d, os)
       = Some (fold (\<lambda>e. eff (snd e) (dec bs, received_info info)) (a ch @ b ch 0) w,
               d\<lparr> sd_base := base', sd_segments := (sd_segments d)(ch \<mapsto> s') \<rparr>, os')"
    "dispatcher_rel M base' (a, b)" "os_open (nm ch) os' = Some i" "chan_ready (nm ch) os'" "sync_kept (nm ch) os os'"
    "in_sync (nm ch) s' os'" "sm_channel s' = ch"
proof -
  let ?k = "ucast index :: u64"
  have k: "?k < nblk (os_objs os ! i)" using assms(5) by (simp add: message_in_def Let_def)
  obtain rb s1 os1 where r: "os1 = os \<or> os1 = os_update i (on_state IncreaseReferenceCount) os" "attached i s1 os1" "sm_channel s1 = ch"
    "block_of rb i s1" "wb_index rb = index"
    "AcquireBlockToRead be no_faults index (s, os) = Some (Some rb, s1, os_update i (lock_block ?k 1) os1)"
    by (rule AcquireBlockToRead_ready [OF assms(1-4) k])
  obtain g where g: "os1 = os_update i (if g then on_state IncreaseReferenceCount else (\<lambda>x. x)) os"
    using r(1) by (metis (full_types) os_update_def list_update_id shm_os.surjective shm_os.update_convs(2))
  let ?os2 = "os_update i (lock_block ?k 1) os1" let ?os' = "os_update i (read_turn g ?k) os"
  have il: "i < length (os_objs os)" using r(2) g by (simp add: attached_def)
  have o: "obj_ok (os_objs os1 ! i)" "sm_conf s1 = ShmConf_Update (st_ceiling_msg_size (so_state (os_objs os1 ! i)))" "sm_blocks s1 = Some i"
    using r(2) by (simp_all add: attached_def)
  have blk: "wb_block rb = Some (i, ?k)" "wb_buf rb = Some (i, buf_offset (sm_conf s1) ?k)" "?k < block_num (sm_conf s1)"
    using r(4,5) by (auto simp: block_of_def)
  have mi: "message_in bo bs info i ?k ?os2"
  proof -
    have "message_in bo bs info i ?k os1" using assms(5) unfolding g
      by (cases g) (simp_all add: message_in_frame on_state_def IncreaseReferenceCount_def)
    then show ?thesis by (simp add: message_in_frame lock_block_def)
  qed
  have ce: "st_ceiling_msg_size (so_state (os_objs ?os2 ! i)) = st_ceiling_msg_size (so_state (os_objs os1 ! i))"
    by (simp add: os_objs_update lock_block_def)
  note rd = read_message_bytes [OF mi assms(6) refl assms(7)]
  have content: "load_bytes (i, buf_offset (sm_conf s1) ?k) (unat (blk_msg_size (so_blocks (os_objs ?os2 ! i) ?k))) ?os2 = Some bs"
    using rd(1) ce o(2) by simp
  have inf: "read_info bo Hash (shift_by (i, buf_offset (sm_conf s1) ?k) (blk_msg_size (so_blocks (os_objs ?os2 ! i) ?k))) ?os2
      = Some (received_info info)"
    using rd(2) ce o(2) by simp
  obtain base' where base: "\<forall>w. OnMessage (listener_adapter dec eff) ch (Some bs) (received_info info) (w, sd_base d)
      = (fold (\<lambda>e. listener_adapter dec eff (snd e) (Some bs, received_info info)) (a ch @ b ch (hash_value (sender_id (received_info info)))) w, base')"
    "dispatcher_rel M base' (a, b)"
    by (rule OnMessage_rel [OF assms(9), where eff = "listener_adapter dec eff" and ch = ch and m = "Some bs" and info = "received_info info"])
  have adapt: "fold (\<lambda>e. listener_adapter dec eff (snd e) (Some bs, received_info info)) es (Some w)
      = Some (fold (\<lambda>e. eff (snd e) (dec bs, received_info info)) es w)" for es w
    by (induction es arbitrary: w) (simp_all add: listener_adapter_def)
  have "obj_ok (os_objs ?os2 ! i)" using o(1) by (simp add: os_objs_update lock_block_def obj_ok_keeps)
  moreover have "?k < nblk (os_objs ?os2 ! i)" using mi by (simp only: message_in_def Let_def)
  ultimately have "valid_block (os_objs ?os2 ! i) ?k" by (simp only: valid_block_nblk)
  from with_block_update [OF o(3) this, of ReleaseReadLock]
  have rel: "ReleaseReadableBlock rb (s1, ?os2) = Some (s1, os_update i (on_block ?k ReleaseReadLock) ?os2)"
    using blk(3) r(5) by (simp add: ReleaseReadableBlock_def)
  have os': "os_update i (on_block ?k ReleaseReadLock) ?os2 = ?os'"
    unfolding g by (cases g) (simp_all add: os_update_comp read_turn_def [abs_def])
  have h0: "hash_value (sender_id (received_info info)) = 0" by (simp add: received_info_def)
  have on: "OnMessage (listener_adapter dec eff) ch (Some bs) (received_info info) (Some w, sd_base d)
      = (Some (fold (\<lambda>e. eff (snd e) (dec bs, received_info info)) (a ch @ b ch 0) w), base')" for w
    using base(1) by (simp only: h0 adapt)
  have R: "ReadMessage be no_faults bo Hash (listener_adapter dec eff) ch index (w, d, os)
      = Some (fold (\<lambda>e. eff (snd e) (dec bs, received_info info)) (a ch @ b ch 0) w,
              d\<lparr> sd_base := base', sd_segments := (sd_segments d)(ch \<mapsto> s1) \<rparr>, ?os')" for w
    using assms(8) r(6) blk content inf rel by (simp add: ReadMessage_def Let_def on os')
  have kept: "sync_kept (nm ch) os ?os'" by (rule calm_update) simp
  have rdy: "chan_ready (nm ch) ?os'"
    using assms(1,2) il read_turn_ready calm_def [of "read_turn g ?k"] read_turn_calm [of g ?k]
    by (auto simp: chan_ready_def os_objs_update os_update_ok)
  have "attached i s1 ?os'"
  proof -
    have "os_le os1 ?os2" "os_le ?os2 (os_update i (on_block ?k ReleaseReadLock) ?os2)"
      by (simp_all add: os_update_le lock_block_def [abs_def])
    then show ?thesis using attached_mono [OF r(2)] os_le_trans os' by metis
  qed
  then have "in_sync (nm ch) s1 ?os'" using in_sync_attached assms(2) by simp
  then show thesis using that [OF R base(2)] assms(2) rdy kept r(3) by simp
qed

end

section \<open>Any number of messages\<close>

text \<open>Transmitter \<open>p\<close> of a process of this host sends a message and the thread of the dispatcher runs once.\<close>

type_synonym ('w, 'cb) shm_net = "(nat \<Rightarrow> shm_transmitter) \<times> indicator \<times> 'w \<times> 'cb shm_dispatcher \<times> shm_os"

definition send_and_read ::
  "backend \<Rightarrow> ByteOrder \<Rightarrow> (bytes \<Rightarrow> u64) \<Rightarrow> ('cb \<Rightarrow> bytes option \<times> MessageInfo \<Rightarrow> 'w option \<Rightarrow> 'w option) \<Rightarrow>
     nat \<Rightarrow> bytes \<Rightarrow> ('w, 'cb) shm_net \<Rightarrow> (bool \<times> ('w, 'cb) shm_net) option" where
  "send_and_read be bo Hash eff p bs = (\<lambda>(txs, ind, w, d, os).
     do {
       (sent, t1, os1, ind1) \<leftarrow> Transmitter_Transmit be no_faults bo False bs (txs p, os, ind);
       (w1, d1, os2) \<leftarrow> thread_turn be no_faults bo Hash eff (\<lambda>_. (False, ind1)) (w, d, os1);
       Some (sent, txs(p := t1), ind1, w1, d1, os2)
     })"

primrec send_all ::
  "backend \<Rightarrow> ByteOrder \<Rightarrow> (bytes \<Rightarrow> u64) \<Rightarrow> ('cb \<Rightarrow> bytes option \<times> MessageInfo \<Rightarrow> 'w option \<Rightarrow> 'w option) \<Rightarrow>
     (nat \<times> bytes) list \<Rightarrow> ('w, 'cb) shm_net \<Rightarrow> (bool \<times> ('w, 'cb) shm_net) option" where
  "send_all be bo Hash eff [] st = Some (True, st)"
| "send_all be bo Hash eff (m # ms) st =
     do {
       (sent, st1) \<leftarrow> send_and_read be bo Hash eff (fst m) (snd m) st;
       (sent_all, st2) \<leftarrow> send_all be bo Hash eff ms st1;
       Some (sent \<and> sent_all, st2)
     }"

text \<open>What has to arrive: the bytes, the sender and its running number.  \<open>ctr p\<close> messages of \<open>p\<close> were sent before.\<close>

fun arrivals :: "(nat \<Rightarrow> u64) \<Rightarrow> (nat \<Rightarrow> bytes) \<Rightarrow> (nat \<times> bytes) list \<Rightarrow> (bytes \<times> MessageInfo) list" where
  "arrivals ctr ident [] = []"
| "arrivals ctr ident ((p, bs) # ms) =
     (bs, \<lparr> sender_id = \<lparr> id_data = ident p, hash_value = 0 \<rparr>, spare_id = \<lparr> id_data = replicate ID_SIZE 0, hash_value = 0 \<rparr>,
            mi_channel_id = 0, seq_num = ctr p + 1 \<rparr>) # arrivals (ctr(p := ctr p + 1)) ident ms"

definition deliver :: "('cb \<Rightarrow> 'm \<times> MessageInfo \<Rightarrow> 'w \<Rightarrow> 'w) \<Rightarrow> (bytes \<Rightarrow> 'm) \<Rightarrow> 'cb entries \<Rightarrow> (bytes \<times> MessageInfo) list \<Rightarrow> 'w \<Rightarrow> 'w" where
  "deliver eff dec es = fold (\<lambda>(bs, info) w. fold (\<lambda>e. eff (snd e) (dec bs, info)) es w)"

lemma listen_notified:
  "CN_Listen (\<lambda>_. (False, snd (CN_Notify False info ind))) 100 (ind_next_seq ind) = (Some info, ind_next_seq ind + 1)"
  "ind_next_seq (snd (CN_Notify False info ind)) = ind_next_seq ind + 1"
proof -
  have a: "ReadableInfo_assign info x = info" for x :: ReadableInfo by (simp add: ReadableInfo_assign_def assign_field_def)
  show "CN_Listen (\<lambda>_. (False, snd (CN_Notify False info ind))) 100 (ind_next_seq ind) = (Some info, ind_next_seq ind + 1)"
    by (simp add: CN_Listen_def listen_loop.simps listen_look_def CN_Notify_def Let_def a)
  show "ind_next_seq (snd (CN_Notify False info ind)) = ind_next_seq ind + 1" by (simp add: CN_Notify_def Let_def)
qed

definition tx_inv :: "shm_name \<Rightarrow> u64 \<Rightarrow> u64 \<Rightarrow> bytes \<Rightarrow> u64 \<Rightarrow> shm_os \<Rightarrow> shm_transmitter \<Rightarrow> bool" where
  "tx_inv n ch host ident ctr os t \<longleftrightarrow> ep_enabled t \<and> sx_channel_id t = ch \<and> sx_host_id t = host \<and> seq_num_ctr t = ctr \<and>
     id_data (sender_id (tr_msg_info t)) = ident \<and> length ident = ID_SIZE \<and>
     id_data (spare_id (tr_msg_info t)) = replicate ID_SIZE 0 \<and>
     (\<exists>s. sx_segment t = Some s \<and> in_sync n s os \<and> sm_channel s = ch)"

definition net_inv :: "shm_name \<Rightarrow> u64 \<Rightarrow> u64 \<Rightarrow> (nat \<Rightarrow> bytes) \<Rightarrow> (nat \<Rightarrow> u64) \<Rightarrow> nat \<Rightarrow> 'cb listen_spec \<Rightarrow>
    (nat \<Rightarrow> shm_transmitter) \<Rightarrow> indicator \<Rightarrow> 'cb shm_dispatcher \<Rightarrow> shm_os \<Rightarrow> bool" where
  "net_inv n ch host ident ctr M ab txs ind d os \<longleftrightarrow> chan_ready n os \<and> (\<forall>p. tx_inv n ch host (ident p) (ctr p) os (txs p)) \<and>
     dispatcher_rel M (sd_base d) ab \<and> sd_host_id d = host \<and> sd_next_seq d = ind_next_seq ind \<and>
     (\<exists>s. sd_segments d ch = Some s \<and> in_sync n s os \<and> sm_channel s = ch)"

lemma tx_inv_kept: "tx_inv n ch host ident ctr os t \<Longrightarrow> sync_kept n os os' \<Longrightarrow> tx_inv n ch host ident ctr os' t"
  by (auto simp: tx_inv_def sync_kept_def)

context shm_backend
begin

lemma send_and_read_inv:
  assumes "net_inv (nm ch) ch host ident ctr M (a, b) txs ind d os" "length bs \<le> 32 * 1024 * 1024"
  obtains t ind' d' os' where
    "\<And>w. send_and_read be bo Hash (listener_adapter dec eff) p bs (txs, ind, w, d, os) = Some (True, txs(p := t), ind',
       deliver eff dec (a ch @ b ch 0) (arrivals ctr ident [(p, bs)]) w, d', os')"
    "net_inv (nm ch) ch host ident (ctr(p := ctr p + 1)) M (a, b) (txs(p := t)) ind' d' os'"
proof -
  have tx: "\<And>q. tx_inv (nm ch) ch host (ident q) (ctr q) os (txs q)" and rdy: "chan_ready (nm ch) os"
    and rel: "dispatcher_rel M (sd_base d) (a, b)" and hs: "sd_host_id d = host" and nx: "sd_next_seq d = ind_next_seq ind"
    using assms(1) by (simp_all add: net_inv_def)
  obtain s where s: "sx_segment (txs p) = Some s" "in_sync (nm ch) s os" "sm_channel s = ch" using tx [of p] by (auto simp: tx_inv_def)
  obtain r where r: "sd_segments d ch = Some r" "in_sync (nm ch) r os" "sm_channel r = ch" using assms(1) by (auto simp: net_inv_def)
  let ?t = "stamp_info (txs p)" let ?info = "tr_msg_info ?t"
  have t: "ep_enabled ?t" "sx_segment ?t = Some s" "sx_channel_id ?t = ch" "sx_host_id ?t = host" "info_ok ?info"
    "seq_num_ctr ?t = ctr p + 1" "MessageInfo.seq_num ?info = ctr p + 1"
    "id_data (sender_id ?info) = ident p" "id_data (spare_id ?info) = replicate ID_SIZE 0" "length (ident p) = ID_SIZE"
    using tx [of p] s(1) by (simp_all add: tx_inv_def stamp_info_def NextSeqNum_def info_ok_def Let_def)
  obtain i index s1 os1 where T: "ShmTransmitter_Transmit be no_faults bo False bs ?info (?t, os, ind)
      = Some (True, ?t\<lparr> sx_segment := Some s1 \<rparr>, os1,
       snd (CN_Notify False \<lparr> ri_host_id = sx_host_id ?t, ri_block_index = index, ri_channel_id = ch \<rparr> ind))"
    "os_open (nm ch) os1 = Some i" "message_in bo bs ?info i (ucast index) os1" "chan_ready (nm ch) os1" "sync_kept (nm ch) os os1"
    "in_sync (nm ch) s1 os1" "sm_channel s1 = ch"
    by (rule Transmit_ready [OF rdy s(2,3) assms(2) t(5,1,2,3)])
  let ?ri = "\<lparr> ri_host_id = host, ri_block_index = index, ri_channel_id = ch \<rparr>"
  let ?ind = "snd (CN_Notify False ?ri ind)"
  define d1 where "d1 = d\<lparr> sd_next_seq := ind_next_seq ind + 1, sd_previous := (sd_previous d)(ch \<mapsto> index) \<rparr>"
  have d1: "sd_segments d1 ch = Some r" "dispatcher_rel M (sd_base d1) (a, b)" using r(1) rel by (simp_all add: d1_def)
  have rs: "in_sync (nm ch) r os1" using r(2) T(5) by (simp add: sync_kept_def)
  obtain r1 os2 base1 where R: "\<And>w. ReadMessage be no_faults bo Hash (listener_adapter dec eff) ch index (w, d1, os1)
       = Some (fold (\<lambda>e. eff (snd e) (dec bs, received_info ?info)) (a ch @ b ch 0) w,
               d1\<lparr> sd_base := base1, sd_segments := (sd_segments d1)(ch \<mapsto> r1) \<rparr>, os2)"
    "dispatcher_rel M base1 (a, b)" "os_open (nm ch) os2 = Some i" "chan_ready (nm ch) os2" "sync_kept (nm ch) os1 os2"
    "in_sync (nm ch) r1 os2" "sm_channel r1 = ch"
    using ReadMessage_ready [OF T(4,2) rs r(3) T(3) t(5) assms(2) d1] by metis
  let ?d = "d1\<lparr> sd_base := base1, sd_segments := (sd_segments d1)(ch \<mapsto> r1) \<rparr>"
  let ?tx = "?t\<lparr> sx_segment := Some s1 \<rparr>"
  have turn: "thread_turn be no_faults bo Hash (listener_adapter dec eff) (\<lambda>_. (False, ?ind)) (w, d, os1)
      = Some (fold (\<lambda>e. eff (snd e) (dec bs, received_info ?info)) (a ch @ b ch 0) w, ?d, os2)" for w
    using r(1) hs R(1) by (simp add: thread_turn_def nx listen_notified Let_def d1_def)
  have one: "deliver eff dec (a ch @ b ch 0) (arrivals ctr ident [(p, bs)]) w
      = fold (\<lambda>e. eff (snd e) (dec bs, received_info ?info)) (a ch @ b ch 0) w" for w
    by (simp add: deliver_def received_info_def t(7,8,9))
  have S: "send_and_read be bo Hash (listener_adapter dec eff) p bs (txs, ind, w, d, os)
      = Some (True, txs(p := ?tx), ?ind, deliver eff dec (a ch @ b ch 0) (arrivals ctr ident [(p, bs)]) w, ?d, os2)" for w
    unfolding one using T(1) turn t(4) by (simp add: send_and_read_def Transmitter_Transmit_def Let_def)
  have kept: "sync_kept (nm ch) os os2" using T(5) R(5) sync_kept_trans by blast
  have "tx_inv (nm ch) ch host (ident q) ((ctr(p := ctr p + 1)) q) os2 ((txs(p := ?tx)) q)" for q
  proof (cases "q = p")
    case True
    have "in_sync (nm ch) s1 os2" using T(6) R(5) by (simp add: sync_kept_def)
    then show ?thesis using True t T(7) by (simp add: tx_inv_def)
  next
    case False
    then show ?thesis using tx_inv_kept [OF tx [of q] kept] by simp
  qed
  then have "net_inv (nm ch) ch host ident (ctr(p := ctr p + 1)) M (a, b) (txs(p := ?tx)) ?ind ?d os2"
    using R(2,4,6,7) hs by (simp add: net_inv_def d1_def listen_notified)
  then show thesis using that S by blast
qed

lemma send_all_inv:
  assumes "net_inv (nm ch) ch host ident ctr M (a, b) txs ind d os" "\<forall>m \<in> set ms. length (snd m) \<le> 32 * 1024 * 1024"
  shows "\<exists>txs' ind' d' os'. send_all be bo Hash (listener_adapter dec eff) ms (txs, ind, w, d, os)
    = Some (True, txs', ind', deliver eff dec (a ch @ b ch 0) (arrivals ctr ident ms) w, d', os')"
  using assms
proof (induction ms arbitrary: ctr txs ind d os w)
  case Nil
  then show ?case by (simp add: deliver_def)
next
  case (Cons m ms)
  obtain p bs where m: "m = (p, bs)" by (cases m)
  have len: "length bs \<le> 32 * 1024 * 1024" and rest: "\<forall>m \<in> set ms. length (snd m) \<le> 32 * 1024 * 1024"
    using Cons.prems(2) m by simp_all
  obtain t ind' d' os' where s: "\<And>w. send_and_read be bo Hash (listener_adapter dec eff) p bs (txs, ind, w, d, os) = Some (True, txs(p := t), ind',
       deliver eff dec (a ch @ b ch 0) (arrivals ctr ident [(p, bs)]) w, d', os')"
    "net_inv (nm ch) ch host ident (ctr(p := ctr p + 1)) M (a, b) (txs(p := t)) ind' d' os'"
    using send_and_read_inv [OF Cons.prems(1) len, of bo Hash dec eff p] by metis
  obtain txs2 ind2 d2 os2 where r: "send_all be bo Hash (listener_adapter dec eff) ms (txs(p := t), ind',
      deliver eff dec (a ch @ b ch 0) (arrivals ctr ident [(p, bs)]) w, d', os')
    = Some (True, txs2, ind2, deliver eff dec (a ch @ b ch 0) (arrivals (ctr(p := ctr p + 1)) ident ms)
        (deliver eff dec (a ch @ b ch 0) (arrivals ctr ident [(p, bs)]) w), d2, os2)"
    using Cons.IH [OF s(2) rest, of "deliver eff dec (a ch @ b ch 0) (arrivals ctr ident [(p, bs)]) w"] by blast
  have "deliver eff dec (a ch @ b ch 0) (arrivals (ctr(p := ctr p + 1)) ident ms)
      (deliver eff dec (a ch @ b ch 0) (arrivals ctr ident [(p, bs)]) w)
    = deliver eff dec (a ch @ b ch 0) (arrivals ctr ident (m # ms)) w"
    by (simp add: deliver_def m)
  then show ?case using s(1) r by (simp add: m)
qed

end

section \<open>From the constructors\<close>

text \<open>A publisher's transmitter when \<open>k + 1\<close> readers have registered.\<close>

definition tx_start :: "(bytes \<Rightarrow> u64) \<Rightarrow> bytes \<Rightarrow> bytes \<Rightarrow> i32 \<Rightarrow> RoleAttributes \<Rightarrow> nat \<Rightarrow> shm_transmitter" where
  "tx_start Hash uuid HostName ProcessId attr k =
     (ShmTransmitter_Enable ^^ Suc k)
       (ShmTransmitter_construct Hash (Transmitter_construct Hash (Endpoint_construct Hash uuid HostName ProcessId attr)) attr)"

lemma new_segment_sync: "in_sync n (CreateSegment ch) os" "sm_channel (CreateSegment ch) = ch"
  using start_ok(2) [of ch] by (auto simp: in_sync_def seg_ok_def CreateSegment_def Segment_construct_def)

lemma tx_start_inv:
  assumes "length uuid = 16"
  shows "tx_inv n (channel_id attr) (Hash (host_ip attr)) (take 8 uuid) 0 os (tx_start Hash uuid HostName ProcessId attr k)"
proof -
  let ?t = "ShmTransmitter_construct Hash (Transmitter_construct Hash (Endpoint_construct Hash uuid HostName ProcessId attr)) attr"
  note defs = ShmTransmitter_construct_def Transmitter_construct_def Endpoint_construct_def Identity_construct_def
    MessageInfo_construct_def endpoint.defs transmitter.defs shm_transmitter.defs
  have t: "\<not> ep_enabled ?t" "receiver_count ?t = 0" "sx_channel_id ?t = channel_id attr" "sx_host_id ?t = Hash (host_ip attr)"
    "seq_num_ctr ?t = 0" "id_data (sender_id (tr_msg_info ?t)) = take 8 uuid" "id_data (spare_id (tr_msg_info ?t)) = replicate ID_SIZE 0"
    by (simp_all add: defs Let_def ID_SIZE_def)
  have "(ShmTransmitter_Enable ^^ Suc k) ?t = ?t\<lparr> sx_segment := Some (CreateSegment (channel_id attr)), sx_notifier := True,
      ep_enabled := True, receiver_count := of_nat (Suc k) \<rparr>"
  proof (induction k)
    case 0
    then show ?case using t by (simp add: ShmTransmitter_Enable_def ShmTransmitter_Enable0_def Let_def)
  next
    case (Suc k)
    have "(ShmTransmitter_Enable ^^ Suc (Suc k)) ?t = ShmTransmitter_Enable ((ShmTransmitter_Enable ^^ Suc k) ?t)" by simp
    also have "\<dots> = ?t\<lparr> sx_segment := Some (CreateSegment (channel_id attr)), sx_notifier := True,
      ep_enabled := True, receiver_count := of_nat (Suc (Suc k)) \<rparr>"
      unfolding Suc.IH by (simp add: ShmTransmitter_Enable_def Let_def add.commute)
    finally show ?case .
  qed
  then show ?thesis using t assms new_segment_sync
    by (simp add: tx_start_def tx_inv_def ID_SIZE_def)
qed

text \<open>C1: End to end over shared memory, in lockstep and without failing system calls: publishers of this host that
  have a reader send any sequence of messages of up to 32 MB on a channel whose name has no segment yet (other
  channels may have been used in any way before), and the thread of the dispatcher, which has a new segment of the
  channel and has seen all earlier notifications, runs once after each \<open>Transmit\<close>.  Every \<open>Transmit\<close>
  succeeds, and the listeners of the channel are called once for each message, in order, with the
  message read from the same bytes, the identifier of its sender and its number, however often the segment
  is replaced by a larger one on the way.  The hash value of the sender is lost: besides the listeners of all
  messages, those for sender 0 are called, and no others.\<close>

theorem shm_delivery:
  assumes "(be, nm) \<in> {(XsiSegment, Xsi_name), (PosixSegment, Posix_name)}" "\<forall>p. bes p \<in> {XsiSegment, PosixSegment}"
    and "shm_run bes cs (\<lambda>p. Segment_construct (chs p), empty_os) = Some (segs, os)" "os_open (nm ch) os = None"
    and "\<forall>p. txs p = tx_start Hash (uuid p) HostName ProcessId (attr p) (k p) \<and> length (uuid p) = 16 \<and>
      channel_id (attr p) = ch \<and> host_ip (attr p) = HostIp"
    and "sd_base d = snd (fold (listen_apply ReadableBlock_tag) ops ([], Dispatcher_construct))"
    and "fold listen_sp ops ([], (\<lambda>_. []), (\<lambda>_ _. [])) = (calls, a, b)"
    and "sd_host_id d = Hash HostIp" "sd_next_seq d = ind_next_seq ind" "sd_segments d ch = Some (CreateSegment ch)"
    and "\<forall>m \<in> set ms. length (snd m) \<le> 32 * 1024 * 1024"
  shows "\<exists>txs' ind' d' os'. send_all be bo Hash (listener_adapter dec eff) ms (txs, ind, w, d, os)
    = Some (True, txs', ind', deliver eff dec (a ch @ b ch 0) (arrivals (\<lambda>_. 0) (\<lambda>p. take 8 (uuid p)) ms) w, d', os')"
proof -
  have os: "os_ok os" using shm_run_ok [OF assms(2,3)] start_ok by blast
  then have rdy: "chan_ready (nm ch) os" using assms(4) by (simp add: chan_ready_def)
  have tx: "tx_inv (nm ch) ch (Hash HostIp) (take 8 (uuid p)) 0 os (txs p)" for p
    using assms(5) tx_start_inv [of "uuid p" "nm ch" "attr p" Hash os HostName ProcessId "k p"] by auto
  have "dispatcher_rel ReadableBlock_tag (sd_base d) (a, b)"
    using dispatcher_rel_run [of ReadableBlock_tag ops] assms(6,7) by simp
  then have inv: "net_inv (nm ch) ch (Hash HostIp) (\<lambda>p. take 8 (uuid p)) (\<lambda>_. 0) ReadableBlock_tag (a, b) txs ind d os"
    using rdy tx assms(8-10) new_segment_sync by (simp add: net_inv_def)
  consider (x) "be = XsiSegment" "nm = Xsi_name" | (p) "be = PosixSegment" "nm = Posix_name" using assms(1) by blast
  then show ?thesis
  proof cases
    case x show ?thesis using xsi.send_all_inv [OF inv [unfolded x] assms(11)] by (simp only: x)
  next
    case p show ?thesis using posix.send_all_inv [OF inv [unfolded p] assms(11)] by (simp only: p)
  qed
qed

text \<open>Two publishers, the second message needs a larger segment; listener 1 hears everything, listener 2 only what
  sender 9 sends.\<close>

definition shm_demo_attr :: RoleAttributes where
  "shm_demo_attr = \<lparr> host_name = [], host_ip = [1], process_id = 0, channel_name = [], channel_id = 5,
     qos_profile = QosProfile_default, role_id = 0, node_name = [], node_id = 0, message_type = [] \<rparr>"

definition shm_demo_ops :: "nat listen_op list" where
  "shm_demo_ops = [LConnect 5 7 1, LConnectTo 5 7 9 2]"

definition shm_demo_net :: "(nat call_log, nat) shm_net" where
  "shm_demo_net = (\<lambda>p. tx_start (\<lambda>_. 3) (replicate 16 (of_nat p)) [] 0 shm_demo_attr 0, Indicator_construct, [],
     \<lparr> sd_base = snd (fold (listen_apply ReadableBlock_tag) shm_demo_ops ([], Dispatcher_construct)), sd_host_id = 3,
       sd_segments = [5 \<mapsto> CreateSegment 5], sd_previous = (\<lambda>_. None), sd_next_seq = 0 \<rparr>, empty_os)"

definition shm_demo_arrival :: "u8 \<Rightarrow> bytes \<Rightarrow> nat \<times> bytes \<times> MessageInfo" where
  "shm_demo_arrival p bs = (1, bs, \<lparr> sender_id = \<lparr> id_data = replicate 8 p, hash_value = 0 \<rparr>,
     spare_id = \<lparr> id_data = replicate 8 0, hash_value = 0 \<rparr>, mi_channel_id = 0, seq_num = 1 \<rparr>)"

theorem shm_delivery_witness:
  "\<exists>txs' ind' d' os'.
     send_all XsiSegment LittleEndian (\<lambda>_. 3) (listener_adapter (\<lambda>bs. bs) log_call) [(0, [1, 2]), (1, replicate 20000 7)] shm_demo_net
       = Some (True, txs', ind', [shm_demo_arrival 0 [1, 2], shm_demo_arrival 1 (replicate 20000 7)], d', os')"
proof -
  let ?a = "(\<lambda>_. [])(5 := [(Some 7, 1)]) :: u64 \<Rightarrow> nat entries"
  let ?b = "(\<lambda>_ _. [])(5 := (\<lambda>_. [])(9 := [(Some 7, 2)])) :: u64 \<Rightarrow> u64 \<Rightarrow> nat entries"
  have l: "fold listen_sp shm_demo_ops ([], (\<lambda>_. []), (\<lambda>_ _. [])) = ([], ?a, ?b)"
    by (simp add: shm_demo_ops_def sp_connect_def)
  have "(\<lambda>bs. deliver log_call (\<lambda>bs. bs) [(Some 7, 1)] (arrivals (\<lambda>_. 0) (\<lambda>p. take 8 (replicate 16 (of_nat p)))
      [(0, [1, 2]), (1, bs)]) []) (replicate 20000 7) = [shm_demo_arrival 0 [1, 2], shm_demo_arrival 1 (replicate 20000 7)]"
    unfolding shm_demo_arrival_def by (simp add: deliver_def log_call_def ID_SIZE_def)
  moreover have "\<exists>txs' ind' d' os'. send_all XsiSegment LittleEndian (\<lambda>_. 3) (listener_adapter (\<lambda>bs. bs) log_call)
      [(0, [1, 2]), (1, replicate 20000 7)] shm_demo_net = Some (True, txs', ind',
        deliver log_call (\<lambda>bs. bs) (?a 5 @ ?b 5 0)
          (arrivals (\<lambda>_. 0) (\<lambda>p. take 8 (replicate 16 (of_nat p))) [(0, [1, 2]), (1, replicate 20000 7)]) [], d', os')"
    unfolding shm_demo_net_def
    by (rule shm_delivery [where bes = "\<lambda>_. XsiSegment" and cs = "[]" and chs = "\<lambda>_. 0" and segs = "\<lambda>_. Segment_construct 0"
        and ch = 5 and nm = Xsi_name and uuid = "\<lambda>p. replicate 16 (of_nat p)" and attr = "\<lambda>_. shm_demo_attr" and k = "\<lambda>_. 0"
        and HostName = "[]" and ProcessId = 0 and HostIp = "[1]" and ops = shm_demo_ops and calls = "[]", OF _ _ _ _ _ _ l])
      (simp_all add: empty_os_def os_open_def shm_demo_attr_def Indicator_construct_def)
  ultimately show ?thesis by simp
qed

end
