(* ===== verification/RtpsTransport.thy ===== *)
theory RtpsTransport
  imports ShmTransport GlobalData
begin

text \<open>
  The RTPS transport: quality of service (transport/qos/qos_profile_conf.cpp, transport/rtps/attributes_filler.cpp),
  the participant (transport/rtps/participant.cpp), \<open>RtpsTransmitter\<close> (transport/transmitter/rtps_transmitter.h),
  \<open>ReaListener\<close> (transport/rtps/rea_listener.cpp), \<open>RtpsDispatcher\<close> (transport/dispatcher/rtps_dispatcher.h/.cpp)
  and \<open>RtpsReceiver\<close> (transport/receiver/rtps_receiver.h).  Fast RTPS is not part of the repository: the attribute
  structures are given to the code with their defaults, whether a participant, a writer or a change is
  accepted is a parameter, and so is what its history does.
\<close>

section \<open>Quality of service\<close>

definition CreateQosProfile ::
  "QosHistoryPolicy \<Rightarrow> u32 \<Rightarrow> u32 \<Rightarrow> QosReliabilityPolicy \<Rightarrow> QosDurabilityPolicy \<Rightarrow> QosProfile" where
  "CreateQosProfile hist dep m rel dur =
     QosProfile_default\<lparr> history := hist, reliability := rel, durability := dur, mps := m, depth := dep \<rparr>"

definition QOS_HISTORY_DEPTH_SYSTEM_DEFAULT :: u32 where "QOS_HISTORY_DEPTH_SYSTEM_DEFAULT = 0"
definition QOS_MPS_SYSTEM_DEFAULT :: u32 where "QOS_MPS_SYSTEM_DEFAULT = 0"

definition QOS_PROFILE_DEFAULT :: QosProfile where
  "QOS_PROFILE_DEFAULT = CreateQosProfile HISTORY_KEEP_LAST 1 QOS_MPS_SYSTEM_DEFAULT RELIABILITY_RELIABLE DURABILITY_VOLATILE"

definition QOS_PROFILE_SENSOR_DATA :: QosProfile where
  "QOS_PROFILE_SENSOR_DATA =
     CreateQosProfile HISTORY_KEEP_LAST 5 QOS_MPS_SYSTEM_DEFAULT RELIABILITY_BEST_EFFORT DURABILITY_VOLATILE"

definition QOS_PROFILE_PARAMETERS :: QosProfile where
  "QOS_PROFILE_PARAMETERS =
     CreateQosProfile HISTORY_KEEP_LAST 1000 QOS_MPS_SYSTEM_DEFAULT RELIABILITY_RELIABLE DURABILITY_VOLATILE"

definition QOS_PROFILE_SERVICES_DEFAULT :: QosProfile where
  "QOS_PROFILE_SERVICES_DEFAULT =
     CreateQosProfile HISTORY_KEEP_LAST 10 QOS_MPS_SYSTEM_DEFAULT RELIABILITY_RELIABLE DURABILITY_TRANSIENT_LOCAL"

definition QOS_PROFILE_PARAM_EVENT :: QosProfile where
  "QOS_PROFILE_PARAM_EVENT =
     CreateQosProfile HISTORY_KEEP_LAST 1000 QOS_MPS_SYSTEM_DEFAULT RELIABILITY_RELIABLE DURABILITY_VOLATILE"

definition QOS_PROFILE_SYSTEM_DEFAULT :: QosProfile where
  "QOS_PROFILE_SYSTEM_DEFAULT = CreateQosProfile HISTORY_SYSTEM_DEFAULT QOS_HISTORY_DEPTH_SYSTEM_DEFAULT QOS_MPS_SYSTEM_DEFAULT
     RELIABILITY_RELIABLE DURABILITY_TRANSIENT_LOCAL"

definition QOS_PROFILE_TF_STATIC :: QosProfile where
  "QOS_PROFILE_TF_STATIC =
     CreateQosProfile HISTORY_KEEP_ALL 10 QOS_MPS_SYSTEM_DEFAULT RELIABILITY_RELIABLE DURABILITY_TRANSIENT_LOCAL"

definition QOS_PROFILE_TOPO_CHANGE :: QosProfile where
  "QOS_PROFILE_TOPO_CHANGE =
     CreateQosProfile HISTORY_KEEP_ALL 10 QOS_MPS_SYSTEM_DEFAULT RELIABILITY_RELIABLE DURABILITY_TRANSIENT_LOCAL"

section \<open>Attributes\<close>

text \<open>The fields the code sets; \<open>kind\<close> fields hold the enumerators of Fast RTPS, or the default they had.\<close>

datatype reliability_kind = BEST_EFFORT_RELIABILITY_QOS | RELIABLE_RELIABILITY_QOS
datatype durability_kind = VOLATILE_DURABILITY_QOS | TRANSIENT_LOCAL_DURABILITY_QOS | Other_durability
datatype history_kind = KEEP_LAST_HISTORY_QOS | KEEP_ALL_HISTORY_QOS

record rtps_attributes =
  topicName :: bytes
  topicDataType :: string
  with_key :: bool
  payloadMaxSize :: u32
  best_effort_endpoint :: bool
  m_reliability :: reliability_kind
  m_durability :: durability_kind
  history_qos_kind :: history_kind
  history_qos_depth :: i32

record rtps_writer_attributes = rtps_attributes +
  maximumReservedCaches :: i32
  heartbeat_seconds :: i32
  heartbeat_nanosec :: u32

text \<open>The assignments both functions make.  \<open>HISTORY_KEEP_LAST\<close>, which labels a case of the durability, has the
  value of \<open>DURABILITY_TRANSIENT_LOCAL\<close>.\<close>

definition fill_common :: "bytes \<Rightarrow> QosProfile \<Rightarrow> 'a rtps_attributes_scheme \<Rightarrow> 'a rtps_attributes_scheme" where
  "fill_common channel qos a =
     (let a1 = a\<lparr> topicName := channel, topicDataType := ''string'', with_key := False,
                 payloadMaxSize := qos_msg_size qos + 255, best_effort_endpoint := True \<rparr>;
          a2 = (case reliability qos of
                  RELIABILITY_BEST_EFFORT \<Rightarrow> a1\<lparr> m_reliability := BEST_EFFORT_RELIABILITY_QOS \<rparr>
                | RELIABILITY_RELIABLE \<Rightarrow> a1\<lparr> m_reliability := RELIABLE_RELIABILITY_QOS \<rparr>
                | _ \<Rightarrow> a1);
          a3 = (if durability_code (durability qos) = history_code HISTORY_KEEP_LAST
                then a2\<lparr> m_durability := TRANSIENT_LOCAL_DURABILITY_QOS \<rparr>
                else if durability qos = DURABILITY_VOLATILE then a2\<lparr> m_durability := VOLATILE_DURABILITY_QOS \<rparr>
                else a2)
      in case history qos of
           HISTORY_KEEP_LAST \<Rightarrow> a3\<lparr> history_qos_kind := KEEP_LAST_HISTORY_QOS \<rparr>
         | HISTORY_KEEP_ALL \<Rightarrow> a3\<lparr> history_qos_kind := KEEP_ALL_HISTORY_QOS \<rparr>
         | _ \<Rightarrow> a3)"

definition set_depth :: "QosProfile \<Rightarrow> 'a rtps_attributes_scheme \<Rightarrow> bool \<times> 'a rtps_attributes_scheme" where
  "set_depth qos a =
     (let a1 = (if depth qos \<noteq> QOS_HISTORY_DEPTH_SYSTEM_DEFAULT then a\<lparr> history_qos_depth := depth qos \<rparr> else a)
      in if history_qos_depth a1 <s 0 then (False, a1) else (True, a1))"

text \<open>\<open>heartbeatPeriod\<close> in seconds and, in the field for nanoseconds, fractions of \<open>2^-32\<close> seconds.\<close>

definition set_heartbeat :: "QosProfile \<Rightarrow> rtps_writer_attributes \<Rightarrow> rtps_writer_attributes" where
  "set_heartbeat qos a =
     (if mps qos = 0 then a
      else
        (let m = (ucast (mps qos) :: u64);
             m1 = (if 1024 < m then 1024 else if m < 64 then 64 else m);
             fractions = push_bit 32 256 div m1
         in a\<lparr> heartbeat_seconds := ucast (drop_bit 32 fractions), heartbeat_nanosec := ucast (fractions AND 0xffffffff) \<rparr>))"

definition FillInWriterAttr :: "bytes \<Rightarrow> QosProfile \<Rightarrow> rtps_writer_attributes \<Rightarrow> bool \<times> rtps_writer_attributes" where
  "FillInWriterAttr channel qos a = set_depth qos (set_heartbeat qos ((fill_common channel qos a)\<lparr> maximumReservedCaches := 50 \<rparr>))"

definition FillInReaderAttr :: "bytes \<Rightarrow> QosProfile \<Rightarrow> rtps_attributes \<Rightarrow> bool \<times> rtps_attributes" where
  "FillInReaderAttr channel qos a = set_depth qos (fill_common channel qos a)"

section \<open>The participant\<close>

record participant =
  pt_shutdown :: bool
  pt_exists :: bool
  pt_listener :: bool

definition Participant_construct :: "bool \<Rightarrow> participant" where
  "Participant_construct listener = \<lparr> pt_shutdown = False, pt_exists = False, pt_listener = listener \<rparr>"

definition Participant_Shutdown :: "participant \<Rightarrow> participant" where
  "Participant_Shutdown p =
     (if pt_shutdown p then p
      else
        (let p1 = p\<lparr> pt_shutdown := True \<rparr>
         in if pt_exists p1 then p1\<lparr> pt_exists := False, pt_listener := False \<rparr> else p1))"

text \<open>\<open>env\<close> is the variable \<open>RCMW_IP\<close>, \<open>can_create ip\<close> whether a participant can be made at the address.\<close>

definition CreateFastRtpsParticipant :: "bytes option \<Rightarrow> (bytes \<Rightarrow> bool) \<Rightarrow> participant \<Rightarrow> participant" where
  "CreateFastRtpsParticipant env can_create p =
     (let ip_env = (case env of None \<Rightarrow> [49, 50, 55, 46, 48, 46, 48, 46, 49] | Some ip \<Rightarrow> ip)
      in if env = Some [] then p else p\<lparr> pt_exists := can_create ip_env \<rparr>)"

definition fastrtps_participant :: "bytes option \<Rightarrow> (bytes \<Rightarrow> bool) \<Rightarrow> participant \<Rightarrow> bool \<times> participant" where
  "fastrtps_participant env can_create p =
     (if pt_shutdown p then (False, p)
      else if pt_exists p then (True, p)
      else (let p1 = CreateFastRtpsParticipant env can_create p in (pt_exists p1, p1)))"

section \<open>Sending\<close>

text \<open>A change: the payload size that was asked for, the payload copied into it, and of the related sample
  identity the 16 bytes of the writer GUID and the sequence number.\<close>

record rtps_change =
  ch_requested :: u32
  ch_payload :: bytes
  ch_guid :: bytes
  ch_high :: i32
  ch_low :: u32

text \<open>\<open>add_change\<close> and \<open>remove_older\<close> are what the history of Fast RTPS does.\<close>

record 'h rtps_history =
  h_state :: 'h
  h_add :: "rtps_change \<Rightarrow> 'h \<Rightarrow> bool \<times> 'h"
  h_remove_older :: "nat \<Rightarrow> 'h \<Rightarrow> 'h"

record 'h rtps_transmitter = transmitter +
  rtps_write :: bool
  mp_history :: "'h rtps_history option"

definition RtpsTransmitter_construct :: "transmitter \<Rightarrow> 'h rtps_transmitter" where
  "RtpsTransmitter_construct t = transmitter.extend t (rtps_transmitter.fields False None)"

text \<open>\<open>fresh\<close> is a new history for the attributes, \<open>reg\<close> the result of \<open>registerWriter\<close>.  Without a participant a
  null pointer is used.\<close>

definition RtpsTransmitter_Enable ::
  "rtps_writer_attributes \<Rightarrow> (rtps_writer_attributes \<Rightarrow> 'h rtps_history) \<Rightarrow> bool \<Rightarrow> bool \<Rightarrow> 'h rtps_transmitter \<Rightarrow> 'h rtps_transmitter option" where
  "RtpsTransmitter_Enable dflt fresh participant reg t =
     (if ep_enabled t then Some t
      else if \<not> participant then None
      else
        (let (filled, a) = FillInWriterAttr (channel_name (ep_attr t)) (qos_profile (ep_attr t)) dflt;
             t1 = t\<lparr> mp_history := Some (fresh a), rtps_write := True \<rparr>
         in Some (if reg then t1\<lparr> ep_enabled := True \<rparr> else t1)))"

definition RtpsTransmitter_Disable :: "'h rtps_transmitter \<Rightarrow> 'h rtps_transmitter" where
  "RtpsTransmitter_Disable t = (if ep_enabled t then t\<lparr> rtps_write := False, ep_enabled := False \<rparr> else t)"

text \<open>The payload is asked for with 255 bytes; \<open>None\<close>: more is copied into it.\<close>

definition make_change :: "bytes \<Rightarrow> MessageInfo \<Rightarrow> rtps_change option" where
  "make_change bs info =
     (if 255 < length bs then None
      else Some \<lparr> ch_requested = 255, ch_payload = bs, ch_guid = id_data (sender_id info) @ id_data (spare_id info),
       ch_high = ucast (drop_bit 32 (MessageInfo.seq_num info AND 0xFFFFFFFF00000000)),
       ch_low = ucast (MessageInfo.seq_num info AND 0xFFFFFFFF) \<rparr>)"

definition RtpsTransmitter_Transmit :: "bool \<Rightarrow> bytes \<Rightarrow> MessageInfo \<Rightarrow> 'h rtps_transmitter \<Rightarrow> (bool \<times> 'h rtps_transmitter) option" where
  "RtpsTransmitter_Transmit participant_shutdown bs info t =
     (if \<not> ep_enabled t then Some (False, t)
      else do {
        h \<leftarrow> mp_history t;
        ch \<leftarrow> make_change bs info;
        let (flag, s1) = h_add h ch (h_state h);
        let s2 = (if \<not> flag then snd (h_add h ch (h_remove_older h 20 s1)) else s1);
        let t1 = t\<lparr> mp_history := Some (h\<lparr> h_state := s2 \<rparr>) \<rparr>;
        if participant_shutdown then Some (False, t1) else Some (True, t1)
      })"

section \<open>Receiving\<close>

text \<open>What arrives: the GUID of the sample identity, the sequence number Fast RTPS gave the change, the payload.\<close>

record rtps_arrival =
  ar_guid :: bytes
  ar_high :: i32
  ar_low :: u32
  ar_payload :: bytes

definition ReaListener_seq :: "i32 \<Rightarrow> u32 \<Rightarrow> u64" where
  "ReaListener_seq high low = push_bit 32 (scast high) OR ucast low"

text \<open>\<open>msg_info_\<close> is kept from one message to the next.\<close>

definition onNewCacheChangeAdded ::
  "(bytes \<Rightarrow> u64) \<Rightarrow> bytes \<Rightarrow> rtps_arrival \<Rightarrow> MessageInfo \<Rightarrow> (u64 \<times> bytes \<times> MessageInfo) \<times> MessageInfo" where
  "onNewCacheChangeAdded Hash channel ar msg_info =
     (let sender = set_data Hash (ar_guid ar) (Identity_construct Hash [] False);
          spare = set_data Hash (drop ID_SIZE (ar_guid ar)) (Identity_construct Hash [] False);
          info = msg_info\<lparr> sender_id := sender, spare_id := spare, MessageInfo.seq_num := ReaListener_seq (ar_high ar) (ar_low ar) \<rparr>
      in ((Hash channel, ar_payload ar, info), info))"

record 'cb rtps_dispatcher =
  rd_base :: "'cb dispatcher"
  rd_readers :: "u64 \<Rightarrow> (bytes \<times> bool) option"
  rd_participant :: bool

definition RtpsDispatcher_construct :: "'cb rtps_dispatcher" where
  "RtpsDispatcher_construct = \<lparr> rd_base = Dispatcher_construct, rd_readers = (\<lambda>_. None), rd_participant = False \<rparr>"

definition set_participant :: "bool \<Rightarrow> 'cb rtps_dispatcher \<Rightarrow> 'cb rtps_dispatcher" where
  "set_participant participant d = d\<lparr> rd_participant := participant \<rparr>"

text \<open>A reader: the name its listener hashes, and whether it is still there.\<close>

definition AddReader :: "RoleAttributes \<Rightarrow> 'cb rtps_dispatcher \<Rightarrow> 'cb rtps_dispatcher" where
  "AddReader self_attr d =
     (if \<not> rd_participant d then d
      else if rd_readers d (channel_id self_attr) \<noteq> None then d
      else d\<lparr> rd_readers := (rd_readers d)(channel_id self_attr \<mapsto> (channel_name self_attr, True)) \<rparr>)"

definition string_tag :: nat where "string_tag = 1"

definition RtpsDispatcher_AddListener :: "RoleAttributes \<Rightarrow> 'cb \<Rightarrow> 'cb rtps_dispatcher \<Rightarrow> 'cb rtps_dispatcher" where
  "RtpsDispatcher_AddListener self_attr cb d =
     AddReader self_attr (d\<lparr> rd_base := AddListener string_tag (channel_id self_attr) (role_id self_attr) cb (rd_base d) \<rparr>)"

definition RtpsDispatcher_AddListener_to ::
  "RoleAttributes \<Rightarrow> RoleAttributes \<Rightarrow> 'cb \<Rightarrow> 'cb rtps_dispatcher \<Rightarrow> 'cb rtps_dispatcher" where
  "RtpsDispatcher_AddListener_to self_attr opposite_attr cb d =
     AddReader self_attr (d\<lparr> rd_base :=
       AddListener_to string_tag (channel_id self_attr) (role_id self_attr) (role_id opposite_attr) cb (rd_base d) \<rparr>)"

definition RtpsDispatcher_Shutdown :: "'cb rtps_dispatcher \<Rightarrow> 'cb rtps_dispatcher" where
  "RtpsDispatcher_Shutdown d =
     (if dp_shutdown (rd_base d) then d
      else d\<lparr> rd_base := Dispatcher_Shutdown (rd_base d),
             rd_readers := (\<lambda>ch. map_option (\<lambda>(n, _). (n, False)) (rd_readers d ch)), rd_participant := False \<rparr>)"

text \<open>A reader hands a change to its listener, which calls \<open>OnMessage\<close> of the dispatcher.\<close>

definition Rtps_arrive ::
  "(bytes \<Rightarrow> u64) \<Rightarrow> (bytes \<Rightarrow> 'm) \<Rightarrow> ('cb \<Rightarrow> 'm \<times> MessageInfo \<Rightarrow> 'w \<Rightarrow> 'w) \<Rightarrow> u64 \<Rightarrow> rtps_arrival \<Rightarrow>
     'w \<times> 'cb rtps_dispatcher \<Rightarrow> 'w \<times> 'cb rtps_dispatcher" where
  "Rtps_arrive Hash dec eff reader ar = (\<lambda>(w, d).
     case rd_readers d reader of
       Some (name, True) \<Rightarrow>
         (let ((ch, payload, info), _) = onNewCacheChangeAdded Hash name ar (MessageInfo_construct Hash);
              (w1, base1) = OnMessage (\<lambda>cb (bs, mi). eff cb (dec bs, mi)) ch payload info (w, rd_base d)
          in (w1, d\<lparr> rd_base := base1 \<rparr>))
     | _ \<Rightarrow> (w, d))"

definition RtpsReceiver_Enable0 :: "'l receiver \<times> 'l bound rtps_dispatcher \<Rightarrow> 'l receiver \<times> 'l bound rtps_dispatcher" where
  "RtpsReceiver_Enable0 = (\<lambda>(r, d).
     if ep_enabled r then (r, d)
     else (r\<lparr> ep_enabled := True \<rparr>, RtpsDispatcher_AddListener (ep_attr r) (bind_receiver r) d))"

definition RtpsReceiver_Disable0 :: "'l receiver \<times> 'l bound rtps_dispatcher \<Rightarrow> 'l receiver \<times> 'l bound rtps_dispatcher" where
  "RtpsReceiver_Disable0 = (\<lambda>(r, d).
     if \<not> ep_enabled r then (r, d)
     else (r\<lparr> ep_enabled := False \<rparr>,
           d\<lparr> rd_base := RemoveListener (channel_id (ep_attr r)) (role_id (ep_attr r)) (rd_base d) \<rparr>))"

definition RtpsReceiver_Enable :: "RoleAttributes \<Rightarrow> 'l receiver \<times> 'l bound rtps_dispatcher \<Rightarrow> 'l receiver \<times> 'l bound rtps_dispatcher" where
  "RtpsReceiver_Enable opposite_attr = (\<lambda>(r, d).
     (r, RtpsDispatcher_AddListener_to (ep_attr r) opposite_attr (bind_receiver r) d))"

definition RtpsReceiver_Disable :: "RoleAttributes \<Rightarrow> 'l receiver \<times> 'l bound rtps_dispatcher \<Rightarrow> 'l receiver \<times> 'l bound rtps_dispatcher" where
  "RtpsReceiver_Disable opposite_attr = (\<lambda>(r, d).
     (r, d\<lparr> rd_base := RemoveListener_from (channel_id (ep_attr r)) (role_id (ep_attr r)) (role_id opposite_attr) (rd_base d) \<rparr>))"

section \<open>What arrives\<close>

lemma low_word: "n AND 0xFFFFFFFF = take_bit 32 n" for n :: u64
  by (simp add: take_bit_eq_mask mask_eq_exp_minus_1)

lemma high_word: "drop_bit 32 (n AND 0xFFFFFFFF00000000) = drop_bit 32 n" for n :: u64
proof -
  have "drop_bit 32 (0xFFFFFFFF00000000 :: u64) = mask 32" by (simp add: mask_eq_exp_minus_1)
  then have "drop_bit 32 (n AND 0xFFFFFFFF00000000) = take_bit 32 (drop_bit 32 n)"
    unfolding drop_bit_and by (simp only: take_bit_eq_mask)
  also have "\<dots> = drop_bit 32 n"
  proof (rule bit_word_eqI)
    fix i
    show "bit (take_bit 32 (drop_bit 32 n)) i = bit (drop_bit 32 n) i"
      using bit_imp_le_length [of n "32 + i"] by (auto simp: bit_simps)
  qed
  finally show ?thesis .
qed

lemma seq_round_trip:
  "ReaListener_seq (ucast (drop_bit 32 (n AND 0xFFFFFFFF00000000))) (ucast (n AND 0xFFFFFFFF)) = (n :: u64)"
  unfolding low_word high_word ReaListener_seq_def
proof (rule bit_word_eqI)
  fix i assume "i < LENGTH(64)"
  then show "bit (push_bit 32 (scast (ucast (drop_bit 32 n) :: i32)) OR ucast (ucast (take_bit 32 n) :: u32) :: u64) i = bit n i"
    by (cases "i < 32") (auto simp: bit_simps)
qed

text \<open>The information a message arrives with: the hash values belong to the identifiers.\<close>

definition rtps_info :: "(bytes \<Rightarrow> u64) \<Rightarrow> MessageInfo \<Rightarrow> MessageInfo" where
  "rtps_info Hash info = info\<lparr> sender_id := \<lparr> id_data = id_data (sender_id info), hash_value = Hash (id_data (sender_id info)) \<rparr>,
     spare_id := \<lparr> id_data = id_data (spare_id info), hash_value = Hash (id_data (spare_id info)) \<rparr>, mi_channel_id := 0 \<rparr>"

text \<open>What Fast RTPS hands over of a change: the related sample identity that was written, as the sample identity
  of what arrives, and the payload.  The number of
  the arrival is that of its own counter, not \<open>ch_high\<close> and \<open>ch_low\<close>.\<close>

definition carries :: "rtps_change \<Rightarrow> rtps_arrival \<Rightarrow> bool" where
  "carries ch ar \<longleftrightarrow> ar_guid ar = ch_guid ch \<and> ar_payload ar = ch_payload ch"

lemma arrival_info:
  assumes "info_ok info" "make_change bs info = Some ch" "carries ch ar"
  shows "onNewCacheChangeAdded Hash name ar (MessageInfo_construct Hash) =
    ((Hash name, bs, (rtps_info Hash info)\<lparr> MessageInfo.seq_num := ReaListener_seq (ar_high ar) (ar_low ar) \<rparr>),
     (rtps_info Hash info)\<lparr> MessageInfo.seq_num := ReaListener_seq (ar_high ar) (ar_low ar) \<rparr>)"
proof -
  have ids: "length (id_data (sender_id info)) = 8" "length (id_data (spare_id info)) = 8"
    using assms(1) by (simp_all add: info_ok_def ID_SIZE_def)
  have "ar_guid ar = id_data (sender_id info) @ id_data (spare_id info)" "ar_payload ar = bs"
    using assms(2,3) by (auto simp: make_change_def carries_def split: if_splits)
  then show ?thesis using ids
    by (simp add: onNewCacheChangeAdded_def)
      (simp add: rtps_info_def set_data_def Identity_construct_def MessageInfo_construct_def ID_SIZE_def Let_def)
qed

text \<open>The number the transmitter writes is not read; if it were, it would be restored.\<close>

lemma written_number_unused:
  assumes "make_change bs info = Some ch"
  shows "ReaListener_seq (ch_high ch) (ch_low ch) = MessageInfo.seq_num info"
proof -
  have "ch_high ch = ucast (drop_bit 32 (MessageInfo.seq_num info AND 0xFFFFFFFF00000000))"
    "ch_low ch = ucast (MessageInfo.seq_num info AND 0xFFFFFFFF)"
    using assms by (auto simp: make_change_def split: if_splits)
  then show ?thesis by (simp only: seq_round_trip)
qed

text \<open>C35: A message of at most 255 bytes that is sent over RTPS reaches, in a process with a reader for the channel name,
  the listeners under the
  hash of that name: first those of all messages, then those of its sender, with the message read from the
  same bytes and the sender, whose hash value is restored.  The number it arrives with is not the
  sender's, which is written into the change, but the one Fast RTPS counts for the writer.  A receiver that is enabled
  for all
  messages and for this sender, as a subscriber enables its receiver, is therefore called twice.\<close>

theorem rtps_delivery:
  assumes "info_ok info" "rd_readers d reader = Some (name, True)"
    and sent: "make_change bs info = Some ch" "carries ch ar"
    and "rd_base d = snd (fold (listen_apply string_tag) ops ([], Dispatcher_construct))"
    and "fold listen_sp ops ([], (\<lambda>_. []), (\<lambda>_ _. [])) = (calls, a, b)"
  shows "fst (Rtps_arrive Hash dec eff reader ar (w, d)) =
    fold (\<lambda>e. eff (snd e) (dec bs, (rtps_info Hash info)\<lparr> MessageInfo.seq_num := ReaListener_seq (ar_high ar) (ar_low ar) \<rparr>))
      (a (Hash name) @ b (Hash name) (Hash (id_data (sender_id info)))) w"
proof -
  let ?i = "(rtps_info Hash info)\<lparr> MessageInfo.seq_num := ReaListener_seq (ar_high ar) (ar_low ar) \<rparr>"
  have "dispatcher_rel string_tag (rd_base d) (a, b)" using dispatcher_rel_run [of string_tag ops] assms(5,6) by simp
  then obtain base' where "\<forall>w. OnMessage (\<lambda>cb (bs, mi). eff cb (dec bs, mi)) (Hash name) bs ?i (w, rd_base d)
      = (fold (\<lambda>e. (\<lambda>cb (bs, mi). eff cb (dec bs, mi)) (snd e) (bs, ?i))
          (a (Hash name) @ b (Hash name) (hash_value (sender_id ?i))) w, base')"
    by (rule OnMessage_rel [where eff = "\<lambda>cb (bs, mi). eff cb (dec bs, mi)" and ch = "Hash name" and m = bs and info = ?i])
  moreover have "hash_value (sender_id ?i) = Hash (id_data (sender_id info))" by (simp add: rtps_info_def)
  ultimately show ?thesis using assms(2) arrival_info [OF assms(1) sent] by (simp add: Rtps_arrive_def Let_def)
qed

text \<open>A receiver with listener 4, enabled for all messages and for the sender.\<close>

definition rtps_demo_info :: MessageInfo where
  "rtps_demo_info = \<lparr> sender_id = \<lparr> id_data = replicate 8 1, hash_value = 6 \<rparr>, spare_id = \<lparr> id_data = replicate 8 0, hash_value = 6 \<rparr>,
     mi_channel_id = 0, seq_num = 0x100000002 \<rparr>"

definition rtps_demo_ops :: "nat listen_op list" where
  "rtps_demo_ops = [LConnect 6 7 4, LConnectTo 6 7 6 4]"

theorem rtps_delivery_witness:
  "fst (Rtps_arrive (\<lambda>_. 6) (\<lambda>bs. bs) log_call 5
      \<lparr> ar_guid = replicate 8 1 @ replicate 8 0, ar_high = 0, ar_low = 9, ar_payload = [3] \<rparr> ([],
      \<lparr> rd_base = snd (fold (listen_apply string_tag) rtps_demo_ops ([], Dispatcher_construct)),
        rd_readers = [5 \<mapsto> ([99], True)], rd_participant = True \<rparr>))
   = [(4, [3], rtps_demo_info\<lparr> MessageInfo.seq_num := 9 \<rparr>), (4, [3], rtps_demo_info\<lparr> MessageInfo.seq_num := 9 \<rparr>)]"
proof -
  let ?a = "(\<lambda>_. [])(6 := [(Some 7, 4)]) :: u64 \<Rightarrow> nat entries"
  let ?b = "(\<lambda>_ _. [])(6 := (\<lambda>_. [])(6 := [(Some 7, 4)])) :: u64 \<Rightarrow> u64 \<Rightarrow> nat entries"
  let ?ar = "\<lparr> ar_guid = replicate 8 1 @ replicate 8 0, ar_high = 0, ar_low = 9, ar_payload = [3] \<rparr>"
  have l: "fold listen_sp rtps_demo_ops ([], (\<lambda>_. []), (\<lambda>_ _. [])) = ([], ?a, ?b)"
    by (simp add: rtps_demo_ops_def sp_connect_def)
  have i: "rtps_info (\<lambda>_. 6) rtps_demo_info = rtps_demo_info" by (simp add: rtps_info_def rtps_demo_info_def)
  obtain ch where ch: "make_change [3] rtps_demo_info = Some ch" by (simp add: make_change_def)
  then have c: "carries ch ?ar" by (auto simp: make_change_def carries_def rtps_demo_info_def)
  have n: "ReaListener_seq 0 9 = 9" by (simp add: ReaListener_seq_def)
  show ?thesis
    by (subst rtps_delivery [OF _ _ ch c _ l])
      (simp_all add: info_ok_def i n log_call_def, simp_all add: rtps_demo_info_def ID_SIZE_def)
qed

section \<open>The heartbeat\<close>

definition clamp_mps :: "u32 \<Rightarrow> nat" where
  "clamp_mps m = max 64 (min 1024 (unat m))"

text \<open>The heartbeat period of a writer with a rate of messages is \<open>256 / mps\<close> seconds, the rate taken between 64 and
  1024 messages per second, written as whole seconds and 32 binary digits after the point, with no overflow.  The field
  the digits are stored in counts nanoseconds, so what Fast RTPS makes of them is another period.\<close>

theorem heartbeat_period:
  assumes "mps qos \<noteq> 0" "FillInWriterAttr channel qos a = (r, a')"
  shows "unat (heartbeat_seconds a') * 2 ^ 32 + unat (heartbeat_nanosec a') = 256 * 2 ^ 32 div clamp_mps (mps qos)"
proof -
  let ?m = "ucast (mps qos) :: u64"
  define m1 :: u64 where "m1 = (if 1024 < ?m then 1024 else if ?m < 64 then 64 else ?m)"
  define f where "f = push_bit 32 256 div m1"
  have u: "unat ?m = unat (mps qos)"
  proof -
    have "unat (mps qos) < 2 ^ 64" using unsigned_less [of "mps qos", where ?'a = nat] by simp
    then show ?thesis by (simp add: unsigned_ucast_eq unsigned_take_bit_eq take_bit_nat_eq_self)
  qed
  have m1: "unat m1 = clamp_mps (mps qos)" using u by (auto simp: m1_def clamp_mps_def word_less_nat_alt)
  have "unat (push_bit 32 256 :: u64) = 256 * 2 ^ 32" by (simp add: push_bit_eq_mult)
  then have f: "unat f = 256 * 2 ^ 32 div clamp_mps (mps qos)" by (simp add: f_def unat_div m1)
  have "64 \<le> clamp_mps (mps qos)" by (simp add: clamp_mps_def)
  then have "unat f \<le> 256 * 2 ^ 32 div 64" unfolding f by (intro div_le_mono2) simp_all
  then have "unat f div 2 ^ 32 \<le> 256 * 2 ^ 32 div 64 div 2 ^ 32" by (rule div_le_mono)
  then have small: "unat f div 2 ^ 32 < 2 ^ 32" by simp
  have s: "heartbeat_seconds a' = ucast (drop_bit 32 f)" "heartbeat_nanosec a' = ucast (f AND 0xffffffff)"
    using assms by (auto simp: FillInWriterAttr_def set_depth_def set_heartbeat_def Let_def f_def m1_def split: if_splits)
  have "unat (heartbeat_seconds a') = unat f div 2 ^ 32"
  proof -
    have "unat (drop_bit 32 f) = unat f div 2 ^ 32" by (simp add: drop_bit_eq_div unat_div)
    then show ?thesis unfolding s using small
      by (simp only: unsigned_ucast_eq) (simp add: take_bit_nat_eq_self unsigned_take_bit_eq)
  qed
  moreover have "unat (heartbeat_nanosec a') = unat f mod 2 ^ 32"
    by (simp add: s low_word unsigned_ucast_eq unsigned_take_bit_eq take_bit_eq_mod unat_mod)
  ultimately show ?thesis using f by simp
qed

text \<open>With 100 messages per second the field for nanoseconds gets 2405181685, more than a second has.\<close>

definition demo_writer_attributes :: rtps_writer_attributes where
  "demo_writer_attributes = \<lparr> topicName = [], topicDataType = [], with_key = True, payloadMaxSize = 0, best_effort_endpoint = False,
     m_reliability = BEST_EFFORT_RELIABILITY_QOS, m_durability = Other_durability, history_qos_kind = KEEP_LAST_HISTORY_QOS,
     history_qos_depth = 1, maximumReservedCaches = 0, heartbeat_seconds = 3, heartbeat_nanosec = 0 \<rparr>"

theorem heartbeat_period_witness:
  "let a' = snd (FillInWriterAttr [99] (QosProfile_default\<lparr> mps := 100 \<rparr>) demo_writer_attributes)
   in unat (heartbeat_seconds a') * 2 ^ 32 + unat (heartbeat_nanosec a') = 256 * 2 ^ 32 div 100 \<and>
      heartbeat_seconds a' = 2 \<and> heartbeat_nanosec a' = 2405181685"
proof -
  let ?q = "QosProfile_default\<lparr> mps := 100 \<rparr>"
  have "mps ?q \<noteq> 0" by simp
  from heartbeat_period [OF this surjective_pairing, of "[99]" demo_writer_attributes]
  have "unat (heartbeat_seconds (snd (FillInWriterAttr [99] ?q demo_writer_attributes))) * 2 ^ 32 +
      unat (heartbeat_nanosec (snd (FillInWriterAttr [99] ?q demo_writer_attributes))) = 256 * 2 ^ 32 div 100"
    by (simp add: clamp_mps_def)
  moreover have "heartbeat_seconds (snd (FillInWriterAttr [99] ?q demo_writer_attributes)) = 2 \<and>
      heartbeat_nanosec (snd (FillInWriterAttr [99] ?q demo_writer_attributes)) = 2405181685"
    by code_simp
  ultimately show ?thesis by (simp add: Let_def)
qed

end
