(* ===== verification/PubSub.thy ===== *)
theory PubSub
  imports RtpsTransport SchedulingProps Managers Dispatcher Blocker
begin

text \<open>
  Publishers, subscribers and nodes of one process: \<open>Transport\<close> (transport/transport.h/.cpp), \<open>Publisher\<close>
  (node/publisher.h), \<open>Subscriber\<close> and \<open>ReceiverManager\<close> (node/subscriber.h, subscriber_base.h),
  \<open>NodeChannelImpl\<close> (node/node_channel_impl.h) and \<open>Node\<close> (node/node.h/.cpp), on the channel manager, the
  scheduler, the data plane and the shared memory transport of the process.  All channels carry messages
  of one type.  Publishers and subscribers are known by the number of their change listener.  \<open>None\<close> is
  undefined behaviour or a call that does not return.
\<close>

section \<open>Transport\<close>

datatype OptionalMode = HYBRID | INTRA | SHM | RTPS

record transport =
  tp_shutdown :: bool
  tp_participant :: "participant option"

definition Transport_construct :: "transport" where
  "Transport_construct = \<lparr> tp_shutdown = False, tp_participant = Some (Participant_construct False) \<rparr>"

definition Transport_Shutdown :: "transport \<Rightarrow> transport" where
  "Transport_Shutdown tp =
     (if tp_shutdown tp then tp
      else tp\<lparr> tp_shutdown := True, tp_participant := None \<rparr>)"

text \<open>What the constructors of endpoints need: \<open>std::hash\<close>, a fresh identifier, the name of the host and the
  process id.\<close>

record endpoint_env =
  ev_hash :: "bytes \<Rightarrow> u64"
  ev_uuid :: bytes
  ev_host_name :: bytes
  ev_process_id :: i32

definition new_endpoint :: "endpoint_env \<Rightarrow> RoleAttributes \<Rightarrow> endpoint" where
  "new_endpoint ev attr = Endpoint_construct (ev_hash ev) (ev_uuid ev) (ev_host_name ev) (ev_process_id ev) attr"

datatype 'h any_transmitter = AnyShm shm_transmitter | AnyRtps "'h rtps_transmitter"

text \<open>\<open>enable\<close> is \<open>Enable\<close> of an \<open>RtpsTransmitter\<close> with what Fast RTPS does.  \<open>Some None\<close>: no transmitter.\<close>

definition CreateTransmitter ::
  "endpoint_env \<Rightarrow> ('h rtps_transmitter \<Rightarrow> 'h rtps_transmitter option) \<Rightarrow> transport \<Rightarrow> RoleAttributes \<Rightarrow> OptionalMode
     \<Rightarrow> 'h any_transmitter option option" where
  "CreateTransmitter ev enable tp attr mode =
     (if tp_shutdown tp then Some None
      else
        (let base = Transmitter_construct (ev_hash ev) (new_endpoint ev attr)
         in if mode = SHM
            then (let t = ShmTransmitter_construct (ev_hash ev) base attr
                  in Some (Some (AnyShm (if mode \<noteq> HYBRID then ShmTransmitter_Enable0 t else t))))
            else (let t = RtpsTransmitter_construct base
                  in if mode \<noteq> HYBRID then map_option (\<lambda>t1. Some (AnyRtps t1)) (enable t) else Some (Some (AnyRtps t)))))"

datatype 'l any_receiver = AnyShmReceiver "'l receiver" | AnyRtpsReceiver "'l receiver"

definition CreateReceiver ::
  "endpoint_env \<Rightarrow> transport \<Rightarrow> RoleAttributes \<Rightarrow> 'l \<Rightarrow> OptionalMode \<Rightarrow> 'l bound shm_dispatcher \<times> 'l bound rtps_dispatcher
     \<Rightarrow> 'l any_receiver option \<times> 'l bound shm_dispatcher \<times> 'l bound rtps_dispatcher" where
  "CreateReceiver ev tp attr listener mode = (\<lambda>(sd, rd).
     if tp_shutdown tp then (None, sd, rd)
     else
       (let r = Receiver_construct (new_endpoint ev attr) (Some listener)
        in if mode = SHM
           then (let (r1, sd1) = (if mode \<noteq> HYBRID then ShmReceiver_Enable0 (r, sd) else (r, sd)) in (Some (AnyShmReceiver r1), sd1, rd))
           else (let (r1, rd1) = (if mode \<noteq> HYBRID then RtpsReceiver_Enable0 (r, rd) else (r, rd)) in (Some (AnyRtpsReceiver r1), sd, rd1))))"

section \<open>State of a process\<close>

record publisher =
  pb_attr :: RoleAttributes
  pb_init :: bool
  pb_tx :: "shm_transmitter option"

text \<open>Times are whole nanoseconds; \<open>-10^9\<close> stands for the initial \<open>-1.0\<close> seconds.  The receiver is the one of the
  channel name.\<close>

record 'm subscriber =
  ss_attr :: RoleAttributes
  ss_init :: bool
  ss_func :: "nat option"
  ss_pending_queue_size :: u32
  ss_receiver :: "bytes option"
  ss_croutine_name :: bytes
  ss_blocker :: "('m, nat) blocker"
  ss_latest_recv :: int
  ss_second_to_latest_recv :: int

text \<open>\<open>ps_recvs\<close> is the map of \<open>ReceiverManager\<close>; it can hold null pointers.  The names are registered in
  \<open>registers (ps_sched ps)\<close>.\<close>

record 'm pubsub =
  ps_tp :: transport
  ps_cm :: channel_manager
  ps_nm :: node_manager
  ps_sched :: scheduler
  ps_plane :: "'m data_plane"
  ps_pubs :: "nat \<Rightarrow> publisher option"
  ps_subs :: "nat \<Rightarrow> 'm subscriber option"
  ps_recvs :: "bytes \<Rightarrow> unit any_receiver option option"
  ps_shm :: "unit bound shm_dispatcher"
  ps_rtps :: "unit bound rtps_dispatcher"
  ps_os :: shm_os
  ps_ind :: indicator
  ps_fresh :: nat

section \<open>Publishers\<close>

definition Publisher_construct :: "RoleAttributes \<Rightarrow> publisher" where
  "Publisher_construct attr = \<lparr> pb_attr = attr, pb_init = False, pb_tx = None \<rparr>"

definition Publisher_OnChannelChange ::
  "backend \<Rightarrow> faults \<Rightarrow> ChangeMsg \<Rightarrow> publisher \<times> shm_os \<Rightarrow> (publisher \<times> shm_os) option" where
  "Publisher_OnChannelChange be flt change_msg = (\<lambda>(p, os).
     if role_type change_msg \<noteq> ROLE_READER then Some (p, os)
     else if channel_name (role_attr change_msg) \<noteq> channel_name (pb_attr p) then Some (p, os)
     else do {
       t \<leftarrow> pb_tx p;
       (t1, os1) \<leftarrow> (if operate_type change_msg = OPT_JOIN then Some (ShmTransmitter_Enable t, os)
                     else ShmTransmitter_Disable be flt (t, os));
       Some (p\<lparr> pb_tx := Some t1 \<rparr>, os1)
     })"

text \<open>\<open>Enable\<close> and \<open>Disable\<close> of a receiver for one sender.\<close>

definition recv_Enable :: "RoleAttributes \<Rightarrow> unit any_receiver \<Rightarrow> 'm pubsub \<Rightarrow> 'm pubsub" where
  "recv_Enable publisher r ps =
     (case r of
        AnyShmReceiver r1 \<Rightarrow> ps\<lparr> ps_shm := snd (ShmReceiver_Enable publisher (r1, ps_shm ps)) \<rparr>
      | AnyRtpsReceiver r1 \<Rightarrow> ps\<lparr> ps_rtps := snd (RtpsReceiver_Enable publisher (r1, ps_rtps ps)) \<rparr>)"

definition recv_Disable :: "RoleAttributes \<Rightarrow> unit any_receiver \<Rightarrow> 'm pubsub \<Rightarrow> 'm pubsub" where
  "recv_Disable publisher r ps =
     (case r of
        AnyShmReceiver r1 \<Rightarrow> ps\<lparr> ps_shm := snd (ShmReceiver_Disable publisher (r1, ps_shm ps)) \<rparr>
      | AnyRtpsReceiver r1 \<Rightarrow> ps\<lparr> ps_rtps := snd (RtpsReceiver_Disable publisher (r1, ps_rtps ps)) \<rparr>)"

definition the_receiver :: "'m subscriber \<Rightarrow> 'm pubsub \<Rightarrow> unit any_receiver option" where
  "the_receiver s ps = do { name \<leftarrow> ss_receiver s; ptr \<leftarrow> ps_recvs ps name; ptr }"

definition Subscriber_OnChannelChange :: "ChangeMsg \<Rightarrow> 'm subscriber \<Rightarrow> 'm pubsub \<Rightarrow> 'm pubsub option" where
  "Subscriber_OnChannelChange change_msg s ps =
     (if role_type change_msg \<noteq> ROLE_WRITER then Some ps
      else if channel_name (role_attr change_msg) \<noteq> channel_name (ss_attr s) then Some ps
      else do {
        r \<leftarrow> the_receiver s ps;
        Some (if operate_type change_msg = OPT_JOIN then recv_Enable (role_attr change_msg) r ps
              else recv_Disable (role_attr change_msg) r ps)
      })"

text \<open>A change listener is called.\<close>

definition change_call :: "backend \<Rightarrow> faults \<Rightarrow> nat \<times> ChangeMsg \<Rightarrow> 'm pubsub \<Rightarrow> 'm pubsub option" where
  "change_call be flt = (\<lambda>(l, msg) ps.
     case ps_pubs ps l of
       Some p \<Rightarrow> do { (p1, os1) \<leftarrow> Publisher_OnChannelChange be flt msg (p, ps_os ps);
                     Some (ps\<lparr> ps_pubs := (ps_pubs ps)(l \<mapsto> p1), ps_os := os1 \<rparr>) }
     | None \<Rightarrow> (case ps_subs ps l of
                  Some s \<Rightarrow> Subscriber_OnChannelChange msg s ps
                | None \<Rightarrow> Some ps))"

primrec change_calls :: "backend \<Rightarrow> faults \<Rightarrow> (nat \<times> ChangeMsg) list \<Rightarrow> 'm pubsub \<Rightarrow> 'm pubsub option" where
  "change_calls be flt [] ps = Some ps"
| "change_calls be flt (c # cs) ps = do { ps1 \<leftarrow> change_call be flt c ps; change_calls be flt cs ps1 }"

text \<open>An operation of the channel manager, with the calls of the listeners it notifies.\<close>

definition on_manager ::
  "backend \<Rightarrow> faults \<Rightarrow> (channel_manager \<Rightarrow> ('r \<times> channel_manager) option) \<Rightarrow> 'm pubsub \<Rightarrow> ('r \<times> 'm pubsub) option" where
  "on_manager be flt f ps =
     do {
       (r, cm1) \<leftarrow> f (ps_cm ps);
       ps1 \<leftarrow> change_calls be flt (drop (length (notified (ps_cm ps))) (notified cm1)) (ps\<lparr> ps_cm := cm1 \<rparr>);
       Some (r, ps1)
     }"

definition Publisher_JoinTheTopology :: "backend \<Rightarrow> faults \<Rightarrow> u64 \<Rightarrow> nat \<Rightarrow> publisher \<Rightarrow> 'm pubsub \<Rightarrow> 'm pubsub option" where
  "Publisher_JoinTheTopology be flt now l p ps =
     do {
       (_, ps1) \<leftarrow> on_manager be flt (ChannelManager_Join now (pb_attr p) ROLE_WRITER True)
         (ps\<lparr> ps_pubs := (ps_pubs ps)(l \<mapsto> p), ps_cm := AddChangeListener l (ps_cm ps) \<rparr>);
       Some ps1
     }"

definition Publisher_LeaveTheTopology :: "backend \<Rightarrow> faults \<Rightarrow> u64 \<Rightarrow> nat \<Rightarrow> publisher \<Rightarrow> 'm pubsub \<Rightarrow> 'm pubsub option" where
  "Publisher_LeaveTheTopology be flt now l p ps =
     do {
       (_, ps1) \<leftarrow> on_manager be flt (ChannelManager_Leave now (pb_attr p) ROLE_WRITER)
         (ps\<lparr> ps_cm := RemoveChangeListener l (ps_cm ps) \<rparr>);
       Some ps1
     }"

text \<open>The default mode is \<open>SHM\<close>, so the transmitter is an \<open>ShmTransmitter\<close>.\<close>

definition Publisher_Init ::
  "backend \<Rightarrow> faults \<Rightarrow> endpoint_env \<Rightarrow> u64 \<Rightarrow> nat \<Rightarrow> publisher \<Rightarrow> 'm pubsub \<Rightarrow> (bool \<times> 'm pubsub) option" where
  "Publisher_Init be flt ev now l p ps =
     (if pb_init p then Some (True, ps)
      else do {
        tx \<leftarrow> CreateTransmitter ev (\<lambda>t :: unit rtps_transmitter. Some t) (ps_tp ps) (pb_attr p) SHM;
        case tx of
          Some (AnyShm t) \<Rightarrow> do {
            ps1 \<leftarrow> Publisher_JoinTheTopology be flt now l
              (p\<lparr> pb_tx := Some t, pb_init := True, pb_attr := (pb_attr p)\<lparr> role_id := hash_value (ep_id t) \<rparr> \<rparr>) ps;
            Some (True, ps1)
          }
        | _ \<Rightarrow> Some (False, ps)
      })"

text \<open>Giving up the transmitter runs its destructor, which disables it.\<close>

definition Publisher_Shutdown :: "backend \<Rightarrow> faults \<Rightarrow> u64 \<Rightarrow> nat \<Rightarrow> 'm pubsub \<Rightarrow> 'm pubsub option" where
  "Publisher_Shutdown be flt now l ps =
     do {
       p \<leftarrow> ps_pubs ps l;
       if \<not> pb_init p then Some ps
       else do {
         ps1 \<leftarrow> Publisher_LeaveTheTopology be flt now l p (ps\<lparr> ps_pubs := (ps_pubs ps)(l \<mapsto> p\<lparr> pb_init := False \<rparr>) \<rparr>);
         p1 \<leftarrow> ps_pubs ps1 l;
         os1 \<leftarrow> (case pb_tx p1 of None \<Rightarrow> Some (ps_os ps1)
                 | Some t \<Rightarrow> do { (_, os1) \<leftarrow> ShmTransmitter_Disable0 be flt (t, ps_os ps1); Some os1 });
         Some (ps1\<lparr> ps_pubs := (ps_pubs ps1)(l \<mapsto> p1\<lparr> pb_tx := None \<rparr>), ps_os := os1 \<rparr>)
       }
     }"

definition with_names :: "(u8 name_registers \<Rightarrow> ('r \<times> u8 name_registers) option) \<Rightarrow> 'm pubsub \<Rightarrow> ('r \<times> 'm pubsub) option" where
  "with_names f ps =
     map_option (\<lambda>(r, g). (r, ps\<lparr> ps_sched := (ps_sched ps)\<lparr> registers := g \<rparr> \<rparr>)) (f (registers (ps_sched ps)))"

definition HasSubscriber :: "(bytes \<Rightarrow> u64) \<Rightarrow> publisher \<Rightarrow> 'm pubsub \<Rightarrow> (bool \<times> 'm pubsub) option" where
  "HasSubscriber Hash p ps =
     (if \<not> pb_init p then Some (False, ps) else with_names (HasReader Hash (channel_name (pb_attr p)) (ps_cm ps)) ps)"

definition GetSubscribers ::
  "(bytes \<Rightarrow> u64) \<Rightarrow> publisher \<Rightarrow> RoleAttributes list \<Rightarrow> 'm pubsub \<Rightarrow> (RoleAttributes list \<times> 'm pubsub) option" where
  "GetSubscribers Hash p subscribers ps =
     (if \<not> pb_init p then Some (subscribers, ps)
      else map_option (\<lambda>(rs, ps1). (subscribers @ rs, ps1))
             (with_names (GetReadersOfChannel Hash (channel_name (pb_attr p)) (ps_cm ps)) ps))"

text \<open>\<open>enc\<close> serializes the message; \<open>stopped\<close> is the flag of the notifier.\<close>

definition Publish ::
  "backend \<Rightarrow> faults \<Rightarrow> ByteOrder \<Rightarrow> bool \<Rightarrow> ('m \<Rightarrow> bytes) \<Rightarrow> nat \<Rightarrow> 'm \<Rightarrow> 'm pubsub \<Rightarrow> (bool \<times> 'm pubsub) option" where
  "Publish be flt bo stopped enc l msg ps =
     do {
       p \<leftarrow> ps_pubs ps l;
       if \<not> pb_init p then Some (False, ps)
       else do {
         t \<leftarrow> pb_tx p;
         (sent, t1, os1, ind1) \<leftarrow> Transmitter_Transmit be flt bo stopped (enc msg) (t, ps_os ps, ps_ind ps);
         Some (sent, ps\<lparr> ps_pubs := (ps_pubs ps)(l \<mapsto> p\<lparr> pb_tx := Some t1 \<rparr>), ps_os := os1, ps_ind := ind1 \<rparr>)
       }
     }"

section \<open>Subscribers\<close>

definition to_chars :: "bytes \<Rightarrow> string" where "to_chars bs = map (\<lambda>b. char_of (unat b)) bs"

definition Subscriber_construct :: "'m \<Rightarrow> RoleAttributes \<Rightarrow> nat option \<Rightarrow> u32 \<Rightarrow> 'm subscriber" where
  "Subscriber_construct dflt attr func pending_queue_size =
     \<lparr> ss_attr = attr, ss_init = False, ss_func = func, ss_pending_queue_size = pending_queue_size, ss_receiver = None,
       ss_croutine_name = [],
       ss_blocker = blocker_construct dflt \<lparr> attr_capacity = unat (depth (qos_profile attr)), attr_channel_name = to_chars (channel_name attr) \<rparr>,
       ss_latest_recv = - 1000000000, ss_second_to_latest_recv = - 1000000000 \<rparr>"

definition Subscriber_Enqueue :: "int \<Rightarrow> 'm \<Rightarrow> 'm subscriber \<Rightarrow> (string \<times> nat \<times> 'm) list \<times> 'm subscriber" where
  "Subscriber_Enqueue now msg s =
     (let s1 = s\<lparr> ss_second_to_latest_recv := ss_latest_recv s, ss_latest_recv := now \<rparr>;
          (calls, b) = bk_Publish msg (ss_blocker s1)
      in (calls, s1\<lparr> ss_blocker := b \<rparr>))"

text \<open>The function the coroutine runs for each message: what the blocker calls and then the callback.\<close>

definition Subscriber_func :: "int \<Rightarrow> 'm \<Rightarrow> 'm subscriber \<Rightarrow> (nat \<times> 'm) list \<times> 'm subscriber" where
  "Subscriber_func now msg s =
     (let (calls, s1) = Subscriber_Enqueue now msg s
      in (map snd calls @ (case ss_func s1 of None \<Rightarrow> [] | Some f \<Rightarrow> [(f, msg)]), s1))"

definition Subscriber_Observe :: "'m subscriber \<Rightarrow> 'm subscriber" where
  "Subscriber_Observe s = s\<lparr> ss_blocker := bk_Observe (ss_blocker s) \<rparr>"

definition Subscriber_ClearData :: "'m subscriber \<Rightarrow> 'm subscriber" where
  "Subscriber_ClearData s = s\<lparr> ss_blocker := bk_ClearObserved (bk_ClearPublished (ss_blocker s)) \<rparr>"

definition HasReceived :: "'m subscriber \<Rightarrow> bool" where
  "HasReceived s \<longleftrightarrow> \<not> IsPublishedEmpty (ss_blocker s)"

definition Subscriber_Empty :: "'m subscriber \<Rightarrow> bool" where
  "Subscriber_Empty s \<longleftrightarrow> IsObservedEmpty (ss_blocker s)"

definition GetDelaySec :: "int \<Rightarrow> 'm subscriber \<Rightarrow> int" where
  "GetDelaySec now s =
     (if ss_latest_recv s < 0 then - 1000000000
      else if ss_second_to_latest_recv s < 0 then now - ss_latest_recv s
      else max (now - ss_latest_recv s) (ss_latest_recv s - ss_second_to_latest_recv s))"

definition SetHistoryDepth :: "u32 \<Rightarrow> 'm subscriber \<Rightarrow> 'm subscriber" where
  "SetHistoryDepth dep s = s\<lparr> ss_blocker := bk_set_capacity (unat dep) (ss_blocker s) \<rparr>"

definition GetHistoryDepth :: "'m subscriber \<Rightarrow> u32" where
  "GetHistoryDepth s = of_nat (attr_capacity (bk_attr (ss_blocker s)))"

definition GetLatestObserved_ptr :: "'m subscriber \<Rightarrow> 'm option" where
  "GetLatestObserved_ptr s = GetLatestObservedPtr (ss_blocker s)"

definition GetOldestObserved_ptr :: "'m subscriber \<Rightarrow> 'm option" where
  "GetOldestObserved_ptr s = GetOldestObservedPtr (ss_blocker s)"

text \<open>\<open>ReceiverManager::GetReceiver\<close>: the first subscriber of a channel name makes the receiver.\<close>

definition GetReceiver :: "endpoint_env \<Rightarrow> RoleAttributes \<Rightarrow> 'm pubsub \<Rightarrow> unit any_receiver option \<times> 'm pubsub" where
  "GetReceiver ev attr ps =
     (case ps_recvs ps (channel_name attr) of
        Some ptr \<Rightarrow> (ptr, ps)
      | None \<Rightarrow>
          (let (ptr, sd, rd) = CreateReceiver ev (ps_tp ps) attr () SHM (ps_shm ps, ps_rtps ps)
           in (ptr, ps\<lparr> ps_recvs := (ps_recvs ps)(channel_name attr \<mapsto> ptr), ps_shm := sd, ps_rtps := rd \<rparr>)))"

definition any_receiver_id :: "unit any_receiver \<Rightarrow> Identity" where
  "any_receiver_id r = (case r of AnyShmReceiver r1 \<Rightarrow> ep_id r1 | AnyRtpsReceiver r1 \<Rightarrow> ep_id r1)"

definition Subscriber_JoinTheTopology ::
  "backend \<Rightarrow> faults \<Rightarrow> (bytes \<Rightarrow> u64) \<Rightarrow> u64 \<Rightarrow> nat \<Rightarrow> 'm subscriber \<Rightarrow> unit any_receiver \<Rightarrow> 'm pubsub \<Rightarrow> 'm pubsub option" where
  "Subscriber_JoinTheTopology be flt Hash now l s r ps =
     do {
       let ps1 = ps\<lparr> ps_subs := (ps_subs ps)(l \<mapsto> s), ps_cm := AddChangeListener l (ps_cm ps) \<rparr>;
       (publishers, ps2) \<leftarrow> with_names (GetWritersOfChannel Hash (channel_name (ss_attr s)) (ps_cm ps1)) ps1;
       let ps3 = fold (\<lambda>publisher. recv_Enable publisher r) publishers ps2;
       (_, ps4) \<leftarrow> on_manager be flt (ChannelManager_Join now (ss_attr s) ROLE_READER True) ps3;
       Some ps4
     }"

text \<open>The data visitor gets the addresses \<open>base\<close> (buffer) and \<open>base + 1\<close> (notifier).  Without a task the
  visitor is given up, and its buffer with it.\<close>

definition Subscriber_Init ::
  "backend \<Rightarrow> faults \<Rightarrow> endpoint_env \<Rightarrow> 'm \<Rightarrow> int \<Rightarrow> u64 \<Rightarrow> nat \<Rightarrow> 'm subscriber \<Rightarrow> 'm pubsub \<Rightarrow> (bool \<times> 'm pubsub) option" where
  "Subscriber_Init be flt ev dflt clock now l s ps =
     (if ss_init s then Some (True, ps)
      else do {
        let name = node_name (ss_attr s) @ [95] @ channel_name (ss_attr s);
        let s1 = s\<lparr> ss_init := True, ss_croutine_name := name \<rparr>;
        let base = ps_fresh ps;
        let plane = DataVisitor_construct dflt base (base + 1)
          [\<lparr> vc_type = 0, vc_channel_id = channel_id (ss_attr s), vc_queue_size = ss_pending_queue_size s \<rparr>] (ps_plane ps);
        (made, sched) \<leftarrow> CreateTask (ev_hash ev) clock name (Some base) (ps_sched ps);
        let ps1 = ps\<lparr> ps_plane := plane, ps_sched := sched, ps_fresh := base + 2 \<rparr>;
        if \<not> made
        then Some (False, ps1\<lparr> ps_plane := plane\<lparr> heap := (heap plane)(base := None) \<rparr>,
                    ps_subs := (ps_subs ps1)(l \<mapsto> s1\<lparr> ss_init := False \<rparr>) \<rparr>)
        else do {
          let (ptr, ps2) = GetReceiver ev (ss_attr s1) ps1;
          r \<leftarrow> ptr;
          let s2 = s1\<lparr> ss_receiver := Some (channel_name (ss_attr s1)),
                       ss_attr := (ss_attr s1)\<lparr> role_id := hash_value (any_receiver_id r) \<rparr> \<rparr>;
          ps3 \<leftarrow> Subscriber_JoinTheTopology be flt (ev_hash ev) now l s2 r ps2;
          Some (True, ps3)
        }
      })"

definition Subscriber_LeaveTheTopology :: "backend \<Rightarrow> faults \<Rightarrow> u64 \<Rightarrow> nat \<Rightarrow> 'm subscriber \<Rightarrow> 'm pubsub \<Rightarrow> 'm pubsub option" where
  "Subscriber_LeaveTheTopology be flt now l s ps =
     do {
       (_, ps1) \<leftarrow> on_manager be flt (ChannelManager_Leave now (ss_attr s) ROLE_READER)
         (ps\<lparr> ps_cm := RemoveChangeListener l (ps_cm ps) \<rparr>);
       Some ps1
     }"

definition Subscriber_Shutdown :: "backend \<Rightarrow> faults \<Rightarrow> (bytes \<Rightarrow> u64) \<Rightarrow> u64 \<Rightarrow> nat \<Rightarrow> 'm pubsub \<Rightarrow> 'm pubsub option" where
  "Subscriber_Shutdown be flt Hash now l ps =
     do {
       s \<leftarrow> ps_subs ps l;
       if \<not> ss_init s then Some ps
       else do {
         ps1 \<leftarrow> Subscriber_LeaveTheTopology be flt now l s (ps\<lparr> ps_subs := (ps_subs ps)(l \<mapsto> s\<lparr> ss_init := False \<rparr>) \<rparr>);
         let ps2 = ps1\<lparr> ps_subs := (ps_subs ps1)(l \<mapsto> s\<lparr> ss_init := False, ss_receiver := None \<rparr>) \<rparr>;
         if ss_croutine_name s \<noteq> []
         then do { (_, sched) \<leftarrow> RemoveTask Hash (ss_croutine_name s) (ps_sched ps2); Some (ps2\<lparr> ps_sched := sched \<rparr>) }
         else Some ps2
       }
     }"

section \<open>Nodes\<close>

text \<open>A \<open>RoleAttributes\<close> that is only declared: the strings are empty, the numbers are what memory held, \<open>junk\<close>.\<close>

definition RoleAttributes_declared :: "RoleAttributes \<Rightarrow> RoleAttributes" where
  "RoleAttributes_declared junk = junk\<lparr> host_name := [], host_ip := [], channel_name := [], qos_profile := QosProfile_default,
     node_name := [], message_type := [] \<rparr>"

record node =
  nd_name :: bytes
  nd_attr :: RoleAttributes
  nd_subscribers :: "bytes \<Rightarrow> nat option"

text \<open>\<open>NodeChannelImpl\<close> joins the node manager; \<open>host\<close> are host name and address, \<open>pid\<close> the process id.\<close>

definition NodeChannelImpl_construct ::
  "(bytes \<Rightarrow> u64) \<Rightarrow> u64 \<Rightarrow> RoleAttributes \<Rightarrow> bytes \<times> bytes \<Rightarrow> i32 \<Rightarrow> bytes \<Rightarrow> 'm pubsub \<Rightarrow> (RoleAttributes \<times> 'm pubsub) option" where
  "NodeChannelImpl_construct Hash now junk host pid nm ps =
     do {
       let attr = (RoleAttributes_declared junk)\<lparr> host_name := fst host, host_ip := snd host, process_id := pid, node_name := nm \<rparr>;
       (nid, ps1) \<leftarrow> with_names (RegisterNode Hash nm) ps;
       let attr1 = attr\<lparr> node_id := nid \<rparr>;
       (_, nm1) \<leftarrow> NodeManager_Join now attr1 ROLE_NODE True (ps_nm ps1);
       Some (attr1, ps1\<lparr> ps_nm := nm1 \<rparr>)
     }"

definition NodeChannelImpl_destruct :: "u64 \<Rightarrow> RoleAttributes \<Rightarrow> 'm pubsub \<Rightarrow> 'm pubsub option" where
  "NodeChannelImpl_destruct now attr ps =
     do { (_, nm1) \<leftarrow> NodeManager_Leave now attr ROLE_NODE (ps_nm ps); Some (ps\<lparr> ps_nm := nm1 \<rparr>) }"

definition FillInAttr :: "(bytes \<Rightarrow> u64) \<Rightarrow> RoleAttributes \<Rightarrow> RoleAttributes \<Rightarrow> 'm pubsub \<Rightarrow> (RoleAttributes \<times> 'm pubsub) option" where
  "FillInAttr Hash nattr attr ps =
     do {
       let attr1 = attr\<lparr> host_name := host_name nattr, host_ip := host_ip nattr, process_id := process_id nattr,
                         node_name := node_name nattr, node_id := node_id nattr \<rparr>;
       (cid, ps1) \<leftarrow> with_names (RegisterChannel Hash (channel_name attr1)) ps;
       Some (attr1\<lparr> channel_id := cid \<rparr>, ps1)
     }"

text \<open>\<open>Some None\<close> is a null pointer; otherwise the number of the new object.\<close>

definition CreatePublisher ::
  "backend \<Rightarrow> faults \<Rightarrow> endpoint_env \<Rightarrow> u64 \<Rightarrow> RoleAttributes \<Rightarrow> RoleAttributes \<Rightarrow> 'm pubsub \<Rightarrow> (nat option \<times> 'm pubsub) option" where
  "CreatePublisher be flt ev now nattr attr ps =
     (if channel_name attr = [] then Some (None, ps)
      else do {
        (new_attr, ps1) \<leftarrow> FillInAttr (ev_hash ev) nattr attr ps;
        let l = ps_fresh ps1;
        (ok, ps2) \<leftarrow> Publisher_Init be flt ev now l (Publisher_construct new_attr) (ps1\<lparr> ps_fresh := l + 1 \<rparr>);
        Some (if ok then Some l else None, ps2)
      })"

definition CreatePublisher_named ::
  "backend \<Rightarrow> faults \<Rightarrow> endpoint_env \<Rightarrow> u64 \<Rightarrow> RoleAttributes \<Rightarrow> RoleAttributes \<Rightarrow> bytes \<Rightarrow> 'm pubsub \<Rightarrow> (nat option \<times> 'm pubsub) option" where
  "CreatePublisher_named be flt ev now junk nattr name ps =
     CreatePublisher be flt ev now nattr ((RoleAttributes_declared junk)\<lparr> channel_name := name \<rparr>) ps"

definition DEFAULT_PENDING_QUEUE_SIZE :: u32 where "DEFAULT_PENDING_QUEUE_SIZE = 1"

definition CreateSubscriber ::
  "backend \<Rightarrow> faults \<Rightarrow> endpoint_env \<Rightarrow> 'm \<Rightarrow> int \<Rightarrow> u64 \<Rightarrow> RoleAttributes \<Rightarrow> RoleAttributes \<Rightarrow> nat option \<Rightarrow> u32 \<Rightarrow> 'm pubsub
     \<Rightarrow> (nat option \<times> 'm pubsub) option" where
  "CreateSubscriber be flt ev dflt clock now nattr attr func pending_queue_size ps =
     (if channel_name attr = [] then Some (None, ps)
      else do {
        (new_attr, ps1) \<leftarrow> FillInAttr (ev_hash ev) nattr attr ps;
        let l = ps_fresh ps1;
        (ok, ps2) \<leftarrow> Subscriber_Init be flt ev dflt clock now l (Subscriber_construct dflt new_attr func pending_queue_size)
          (ps1\<lparr> ps_fresh := l + 1 \<rparr>);
        Some (if ok then Some l else None, ps2)
      })"

record SubscriberConfig =
  cfg_channel_name :: bytes
  cfg_qos_profile :: QosProfile
  cfg_pending_queue_size :: u32

definition SubscriberConfig_construct :: "u32 \<Rightarrow> SubscriberConfig" where
  "SubscriberConfig_construct junk = \<lparr> cfg_channel_name = [], cfg_qos_profile = QosProfile_default\<lparr> history := HISTORY_KEEP_LAST,
     depth := 1, mps := 0, reliability := RELIABILITY_RELIABLE, durability := DURABILITY_VOLATILE \<rparr>, cfg_pending_queue_size = junk \<rparr>"

definition config_attr :: "RoleAttributes \<Rightarrow> SubscriberConfig \<Rightarrow> RoleAttributes" where
  "config_attr junk cfg = (RoleAttributes_declared junk)\<lparr> channel_name := cfg_channel_name cfg, qos_profile := cfg_qos_profile cfg \<rparr>"

text \<open>\<open>Node::CreateSubscriber\<close> for attributes, a name and a configuration.\<close>

definition Node_CreateSubscriber ::
  "backend \<Rightarrow> faults \<Rightarrow> endpoint_env \<Rightarrow> 'm \<Rightarrow> int \<Rightarrow> u64 \<Rightarrow> RoleAttributes \<Rightarrow> nat option \<Rightarrow> u32 \<Rightarrow> node \<times> 'm pubsub
     \<Rightarrow> (nat option \<times> node \<times> 'm pubsub) option" where
  "Node_CreateSubscriber be flt ev dflt clock now attr func pending_queue_size = (\<lambda>(nd, ps).
     if nd_subscribers nd (channel_name attr) \<noteq> None then Some (None, nd, ps)
     else do {
       (sub, ps1) \<leftarrow> CreateSubscriber be flt ev dflt clock now (nd_attr nd) attr func pending_queue_size ps;
       case sub of
         None \<Rightarrow> Some (None, nd, ps1)
       | Some l \<Rightarrow> Some (Some l, nd\<lparr> nd_subscribers := (nd_subscribers nd)(channel_name attr \<mapsto> l) \<rparr>, ps1)
     })"

definition Node_CreateSubscriber_named ::
  "backend \<Rightarrow> faults \<Rightarrow> endpoint_env \<Rightarrow> 'm \<Rightarrow> int \<Rightarrow> u64 \<Rightarrow> RoleAttributes \<Rightarrow> bytes \<Rightarrow> nat option \<Rightarrow> node \<times> 'm pubsub
     \<Rightarrow> (nat option \<times> node \<times> 'm pubsub) option" where
  "Node_CreateSubscriber_named be flt ev dflt clock now junk name func =
     Node_CreateSubscriber be flt ev dflt clock now ((RoleAttributes_declared junk)\<lparr> channel_name := name \<rparr>) func DEFAULT_PENDING_QUEUE_SIZE"

definition Node_CreateSubscriber_config ::
  "backend \<Rightarrow> faults \<Rightarrow> endpoint_env \<Rightarrow> 'm \<Rightarrow> int \<Rightarrow> u64 \<Rightarrow> RoleAttributes \<Rightarrow> SubscriberConfig \<Rightarrow> nat option \<Rightarrow> node \<times> 'm pubsub
     \<Rightarrow> (nat option \<times> node \<times> 'm pubsub) option" where
  "Node_CreateSubscriber_config be flt ev dflt clock now junk cfg func =
     Node_CreateSubscriber be flt ev dflt clock now (config_attr junk cfg) func (cfg_pending_queue_size cfg)"

definition GetSubscriber :: "bytes \<Rightarrow> node \<Rightarrow> nat option" where
  "GetSubscriber name nd = nd_subscribers nd name"

text \<open>The loops over the map of subscribers, \<open>names\<close> are its keys in order.\<close>

definition on_subscribers :: "('m subscriber \<Rightarrow> 'm subscriber) \<Rightarrow> bytes list \<Rightarrow> node \<Rightarrow> 'm pubsub \<Rightarrow> 'm pubsub" where
  "on_subscribers f names nd = fold (\<lambda>name ps.
     case nd_subscribers nd name of
       None \<Rightarrow> ps
     | Some l \<Rightarrow> ps\<lparr> ps_subs := (ps_subs ps)(l := map_option f (ps_subs ps l)) \<rparr>) names"

definition Node_Observe :: "bytes list \<Rightarrow> node \<Rightarrow> 'm pubsub \<Rightarrow> 'm pubsub" where
  "Node_Observe = on_subscribers Subscriber_Observe"

definition Node_ClearData :: "bytes list \<Rightarrow> node \<Rightarrow> 'm pubsub \<Rightarrow> 'm pubsub" where
  "Node_ClearData = on_subscribers Subscriber_ClearData"

text \<open>A message of the receivers of this process: \<open>Dispatch\<close> of the data plane, with the notifiers called.\<close>

definition receive_call ::
  "process_state \<Rightarrow> unit \<Rightarrow> 'm \<times> MessageInfo \<times> RoleAttributes \<Rightarrow> nat list \<times> 'm data_plane \<Rightarrow> nat list \<times> 'm data_plane" where
  "receive_call st listener = (\<lambda>(msg, info, subscriber_attr) (called, plane).
     case Dispatch st 0 (channel_id subscriber_attr) msg plane of (_, ns, plane1) \<Rightarrow> (called @ ns, plane1))"

end
