(* ===== verification/PubSubProps.thy ===== *)
theory PubSubProps
  imports PubSub
begin

text \<open>
  When a publisher sends: its transmitter is enabled exactly while readers that joined after it are left.
\<close>

section \<open>What a publisher hears\<close>

definition count_change :: "bytes \<Rightarrow> ChangeMsg \<Rightarrow> nat \<Rightarrow> nat" where
  "count_change name msg c =
     (if role_type msg = ROLE_READER \<and> channel_name (role_attr msg) = name
      then (if operate_type msg = OPT_JOIN then Suc c else c - 1) else c)"

definition tx_counts :: "nat \<Rightarrow> shm_transmitter \<Rightarrow> bool" where
  "tx_counts c t \<longleftrightarrow> receiver_count t = of_nat c \<and> (ep_enabled t \<longleftrightarrow> 0 < c) \<and> c < 2 ^ 31"

definition pub_inv :: "nat \<Rightarrow> bytes \<Rightarrow> nat \<Rightarrow> 'm pubsub \<Rightarrow> bool" where
  "pub_inv l name c ps \<longleftrightarrow> (\<exists>p t. ps_pubs ps l = Some p \<and> pb_init p \<and> channel_name (pb_attr p) = name \<and>
     pb_tx p = Some t \<and> tx_counts c t)"

lemma tx_counts_Enable: "tx_counts c t \<Longrightarrow> Suc c < 2 ^ 31 \<Longrightarrow> tx_counts (Suc c) (ShmTransmitter_Enable t)"
proof -
  assume t: "tx_counts c t" and b: "Suc c < 2 ^ 31"
  have "unat (of_nat (Suc c) :: i32) = Suc c" using b by (intro unat_of_nat_less) simp
  then have "(of_nat (Suc c) :: i32) \<noteq> 0" by (metis nat.distinct(1) unat_0)
  then have "(1 + word_of_nat c :: i32) \<noteq> 0" "(word_of_nat c + 1 :: i32) \<noteq> 0" by (simp_all add: add.commute)
  then show ?thesis using t b
    by (cases "ep_enabled t") (auto simp: tx_counts_def ShmTransmitter_Enable_def ShmTransmitter_Enable0_def Let_def add.commute)
qed

lemma small_signed: "c < 2 ^ 31 \<Longrightarrow> (of_nat c :: i32) \<le>s 1 \<longleftrightarrow> c \<le> 1"
proof -
  assume "c < 2 ^ 31"
  then have "sint (of_nat c :: i32) = int c"
    by (simp add: signed_of_nat signed_take_bit_int_eq_self)
  then show ?thesis by (simp add: word_sle_eq)
qed

lemma tx_counts_Disable:
  assumes "tx_counts c t" "ShmTransmitter_Disable be flt (t, os) = Some (t', os')"
  shows "tx_counts (c - 1) t'"
proof (cases c)
  case 0
  then show ?thesis using assms by (simp add: tx_counts_def ShmTransmitter_Disable_def)
next
  case (Suc n)
  have c: "(of_nat (Suc n) :: i32) \<le>s 1 \<longleftrightarrow> n = 0" "Suc n < 2 ^ 31" "ep_enabled t" "receiver_count t = of_nat (Suc n)"
    using assms(1) Suc small_signed [of "Suc n"] by (simp_all add: tx_counts_def del: of_nat_Suc)
  have m: "(of_nat (Suc n) :: i32) - 1 = of_nat n" by simp
  show ?thesis
  proof (cases "n = 0")
    case True
    then show ?thesis using assms(2) c m Suc
      by (auto simp: ShmTransmitter_Disable_def ShmTransmitter_Disable0_def Let_def tx_counts_def bind_eq_Some_conv split: option.splits)
  next
    case False
    then have "t' = t\<lparr> receiver_count := of_nat n \<rparr>"
      using assms(2) c m by (simp add: ShmTransmitter_Disable_def Let_def del: of_nat_Suc)
    then show ?thesis using c False Suc by (simp add: tx_counts_def)
  qed
qed

lemma pub_inv_own_change:
  assumes "pub_inv l name c ps" "Suc c < 2 ^ 31" "change_call be flt (l, msg) ps = Some ps'"
  shows "pub_inv l name (count_change name msg c) ps'"
proof -
  obtain p t where p: "ps_pubs ps l = Some p" "pb_init p" "channel_name (pb_attr p) = name" "pb_tx p = Some t" "tx_counts c t"
    using assms(1) by (auto simp: pub_inv_def)
  obtain p1 os1 where c: "Publisher_OnChannelChange be flt msg (p, ps_os ps) = Some (p1, os1)"
    "ps' = ps\<lparr> ps_pubs := (ps_pubs ps)(l \<mapsto> p1), ps_os := os1 \<rparr>"
    using assms(3) p(1) by (auto simp: change_call_def bind_eq_Some_conv)
  show ?thesis
  proof (cases "role_type msg = ROLE_READER \<and> channel_name (role_attr msg) = name")
    case False
    then have "p1 = p" using c(1) p(3) by (auto simp: Publisher_OnChannelChange_def split: if_splits)
    then show ?thesis using p c(2) False by (auto simp: pub_inv_def count_change_def)
  next
    case True
    obtain t1 where t1: "p1 = p\<lparr> pb_tx := Some t1 \<rparr>" "tx_counts (count_change name msg c) t1"
    proof (cases "operate_type msg = OPT_JOIN")
      case join: True
      then have "p1 = p\<lparr> pb_tx := Some (ShmTransmitter_Enable t) \<rparr>"
        using c(1) p(3,4) True by (simp add: Publisher_OnChannelChange_def)
      then show thesis using that tx_counts_Enable [OF p(5) assms(2)] True join by (simp add: count_change_def)
    next
      case leave: False
      then obtain t1 where "p1 = p\<lparr> pb_tx := Some t1 \<rparr>" "ShmTransmitter_Disable be flt (t, ps_os ps) = Some (t1, os1)"
        using c(1) p(3,4) True by (auto simp: Publisher_OnChannelChange_def bind_eq_Some_conv)
      then show thesis using that tx_counts_Disable [OF p(5)] True leave by (simp add: count_change_def)
    qed
    then show ?thesis using p c(2) by (simp add: pub_inv_def)
  qed
qed

lemma recv_frame [simp]:
  "ps_pubs (recv_Enable a r ps) = ps_pubs ps" "ps_pubs (recv_Disable a r ps) = ps_pubs ps"
  "ps_cm (recv_Enable a r ps) = ps_cm ps" "ps_cm (recv_Disable a r ps) = ps_cm ps"
  by (simp_all add: recv_Enable_def recv_Disable_def split: any_receiver.splits)

lemma change_call_frame:
  assumes "change_call be flt (i, msg) ps = Some ps'"
  shows "ps_cm ps' = ps_cm ps \<and> (i \<noteq> l \<longrightarrow> ps_pubs ps' l = ps_pubs ps l)"
proof (cases "ps_pubs ps i")
  case (Some p)
  then show ?thesis using assms by (auto simp: change_call_def bind_eq_Some_conv)
next
  case None
  show ?thesis
  proof (cases "ps_subs ps i")
    case (Some s)
    then show ?thesis using assms None
      by (auto simp: change_call_def Subscriber_OnChannelChange_def bind_eq_Some_conv split: if_splits)
  qed (use assms None in \<open>simp add: change_call_def\<close>)
qed

definition heard :: "nat \<Rightarrow> (nat \<times> ChangeMsg) list \<Rightarrow> ChangeMsg list" where
  "heard l cs = map snd (filter (\<lambda>e. fst e = l) cs)"

lemma heard_simps [simp]:
  "heard l [] = []" "heard l (xs @ ys) = heard l xs @ heard l ys"
  "heard l ((i, msg) # cs) = (if i = l then msg # heard l cs else heard l cs)"
  by (simp_all add: heard_def)

lemma count_change_le: "count_change name msg c \<le> Suc c"
  by (auto simp: count_change_def)

lemma change_calls_inv:
  assumes "pub_inv l name c ps" "c + length (heard l cs) < 2 ^ 31" "change_calls be flt cs ps = Some ps'"
  shows "pub_inv l name (fold (count_change name) (heard l cs) c) ps' \<and> ps_cm ps' = ps_cm ps"
  using assms
proof (induction cs arbitrary: c ps)
  case Nil
  then show ?case by simp
next
  case (Cons e cs)
  obtain i msg where e: "e = (i, msg)" by (cases e)
  obtain ps1 where ps1: "change_call be flt (i, msg) ps = Some ps1" "change_calls be flt cs ps1 = Some ps'"
    using Cons.prems(3) by (auto simp: e bind_eq_Some_conv)
  have fr: "ps_cm ps1 = ps_cm ps" "i \<noteq> l \<Longrightarrow> ps_pubs ps1 l = ps_pubs ps l" using change_call_frame [OF ps1(1), of l] by auto
  show ?case
  proof (cases "i = l")
    case True
    have "pub_inv l name (count_change name msg c) ps1"
      by (rule pub_inv_own_change [OF Cons.prems(1)]) (use Cons.prems(2) ps1(1) True in \<open>simp_all add: e\<close>)
    moreover have "count_change name msg c + length (heard l cs) < 2 ^ 31"
      using Cons.prems(2) count_change_le [of name msg c] True by (simp add: e)
    ultimately show ?thesis using Cons.IH [OF _ _ ps1(2)] fr(1) True by (simp add: e)
  next
    case False
    then have "pub_inv l name c ps1" using Cons.prems(1) fr(2) by (simp add: pub_inv_def)
    then show ?thesis using Cons.IH [OF _ _ ps1(2)] Cons.prems(2) fr(1) False by (simp add: e)
  qed
qed

section \<open>The channel manager tells what it is told\<close>

text \<open>Operations of the manager only add to the calls it has made.\<close>

definition appends :: "(channel_manager \<Rightarrow> ('r \<times> channel_manager) option) \<Rightarrow> bool" where
  "appends f \<longleftrightarrow> (\<forall>cm r cm1. f cm = Some (r, cm1) \<longrightarrow> (\<exists>x. notified cm1 = notified cm @ x))"

lemma notified_dispose [simp]:
  "notified (ChannelManager_DisposeJoin msg cm) = notified cm"
  "notified (ChannelManager_DisposeLeave msg cm) = notified cm"
  by (simp_all add: ChannelManager_DisposeJoin_def ChannelManager_DisposeLeave_def Let_def)

lemma notified_Notify [simp]: "notified (Manager_Notify msg m) = notified m @ map (\<lambda>l. (l, msg)) (listeners m)"
  by (simp add: Manager_Notify_def)

lemma notified_Dispose: "\<exists>x. notified (ChannelManager_Dispose msg cm) = notified cm @ x"
  by (simp add: ChannelManager_Dispose_def)

lemma notified_Write: "Manager_Write msg m = Some (r, m1) \<Longrightarrow> notified m1 = notified m"
  by (auto simp: Manager_Write_def case_prod_unfold Let_def split: if_splits option.splits)

lemma appends_Join: "appends (ChannelManager_Join now attr role w)"
  unfolding appends_def
proof (intro allI impI)
  fix cm r cm1
  assume a: "ChannelManager_Join now attr role w cm = Some (r, cm1)"
  show "\<exists>x. notified cm1 = notified cm @ x"
    using a notified_Dispose [of "Manager_Convert now attr role OPT_JOIN cm" cm]
    by (auto simp: ChannelManager_Join_def Manager_Join_def Let_def dest: notified_Write split: if_splits)
qed

lemma appends_Leave: "appends (ChannelManager_Leave now attr role)"
  unfolding appends_def
proof (intro allI impI)
  fix cm r cm1
  assume a: "ChannelManager_Leave now attr role cm = Some (r, cm1)"
  show "\<exists>x. notified cm1 = notified cm @ x"
    using a notified_Dispose [of "Manager_Convert now attr role OPT_LEAVE cm" cm]
    by (auto simp: ChannelManager_Leave_def Manager_Leave_def Let_def NeedPublish_def dest: notified_Write split: if_splits)
qed

definition remote_change :: "ChangeMsg \<Rightarrow> bytes \<Rightarrow> channel_manager \<Rightarrow> (unit \<times> channel_manager) option" where
  "remote_change junk msg_str cm = map_option (Pair ()) (ChannelManager_OnRemoteChange junk msg_str cm)"

definition module_leave ::
  "(nat \<Rightarrow> u64) \<Rightarrow> RoleAttributes \<Rightarrow> bytes \<Rightarrow> i32 \<Rightarrow> channel_manager \<Rightarrow> (unit \<times> channel_manager) option" where
  "module_leave now junk host pid cm = Some ((), ChannelManager_OnTopoModuleLeave now junk host pid cm)"

lemma appends_remote_change: "appends (remote_change junk msg_str)"
  unfolding appends_def
proof (intro allI impI)
  fix cm r cm1
  assume "remote_change junk msg_str cm = Some (r, cm1)"
  then show "\<exists>x. notified cm1 = notified cm @ x"
    by (auto simp: remote_change_def ChannelManager_OnRemoteChange_def OnRemoteChange_def notified_Dispose
        split: if_splits option.splits)
qed

lemma appends_fold:
  assumes "\<And>y cm. \<exists>x. notified (f y cm) = notified (cm :: channel_manager) @ x"
  shows "\<exists>x. notified (fold f ys cm) = notified cm @ x"
proof (induction ys arbitrary: cm)
  case (Cons y ys)
  obtain x where "notified (f y cm) = notified cm @ x" using assms by blast
  moreover obtain z where "notified (fold f ys (f y cm)) = notified (f y cm) @ z" using Cons.IH by blast
  ultimately show ?case by simp
qed simp

lemma appends_module_leave: "appends (module_leave now junk host pid)"
  unfolding appends_def
proof (intro allI impI)
  fix cm r cm1
  assume a: "module_leave now junk host pid cm = Some (r, cm1)"
  show "\<exists>x. notified cm1 = notified cm @ x"
  proof (cases "is_discovery_started cm")
    case True
    then have e: "cm1 = ChannelManager_OnTopoModuleLeave now junk host pid cm" using a by (simp add: module_leave_def)
    show ?thesis
      unfolding e ChannelManager_OnTopoModuleLeave_def Let_def using True
      by (simp only: not_True_eq_False if_False, intro appends_fold) (simp add: case_prod_beta)
  qed (use a in \<open>simp add: module_leave_def ChannelManager_OnTopoModuleLeave_def\<close>)
qed

text \<open>What publisher \<open>l\<close> of channel \<open>name\<close> has heard since the \<open>n\<close>-th call: the readers that are left.\<close>

definition readers_heard :: "nat \<Rightarrow> bytes \<Rightarrow> nat \<Rightarrow> channel_manager \<Rightarrow> nat" where
  "readers_heard l name n cm = fold (count_change name) (heard l (drop n (notified cm))) 0"

definition counts_heard :: "nat \<Rightarrow> bytes \<Rightarrow> nat \<Rightarrow> 'm pubsub \<Rightarrow> bool" where
  "counts_heard l name n ps \<longleftrightarrow> n \<le> length (notified (ps_cm ps)) \<and> pub_inv l name (readers_heard l name n (ps_cm ps)) ps"

lemma counts_heard_cong:
  "\<lbrakk>counts_heard l name n ps; ps_pubs ps' l = ps_pubs ps l; notified (ps_cm ps') = notified (ps_cm ps)\<rbrakk> \<Longrightarrow> counts_heard l name n ps'"
  by (simp add: counts_heard_def pub_inv_def readers_heard_def)

lemma count_change_fold_le: "fold (count_change name) ms c \<le> c + length ms"
proof (induction ms arbitrary: c)
  case (Cons m ms)
  then show ?case using count_change_le [of name m c] by (simp add: le_trans [OF Cons.IH])
qed simp

lemma change_calls_cm: "change_calls be flt cs ps = Some ps' \<Longrightarrow> ps_cm ps' = ps_cm ps"
proof (induction cs arbitrary: ps)
  case (Cons e cs)
  obtain i msg ps1 where "e = (i, msg)" "change_call be flt (i, msg) ps = Some ps1" "change_calls be flt cs ps1 = Some ps'"
    using Cons.prems by (cases e) (auto simp: bind_eq_Some_conv)
  then show ?case using Cons.IH change_call_frame by metis
qed simp

lemma on_manager_counts:
  assumes "appends f" "counts_heard l name n ps" "on_manager be flt f ps = Some (r, ps')"
    "length (notified (ps_cm ps')) < 2 ^ 31"
  shows "counts_heard l name n ps' \<and> (\<exists>x. notified (ps_cm ps') = notified (ps_cm ps) @ x)"
proof -
  obtain cm1 where cm1: "f (ps_cm ps) = Some (r, cm1)"
    "change_calls be flt (drop (length (notified (ps_cm ps))) (notified cm1)) (ps\<lparr> ps_cm := cm1 \<rparr>) = Some ps'"
    using assms(3) by (auto simp: on_manager_def bind_eq_Some_conv)
  obtain x where x: "notified cm1 = notified (ps_cm ps) @ x" using assms(1) cm1(1) unfolding appends_def by blast
  let ?c = "readers_heard l name n (ps_cm ps)"
  have n: "n \<le> length (notified (ps_cm ps))" and inv: "pub_inv l name ?c (ps\<lparr> ps_cm := cm1 \<rparr>)"
    using assms(2) by (simp_all add: counts_heard_def pub_inv_def)
  have calls: "change_calls be flt x (ps\<lparr> ps_cm := cm1 \<rparr>) = Some ps'" using cm1(2) x by simp
  have cm': "ps_cm ps' = cm1" using calls change_calls_cm [OF calls] by simp
  have "?c \<le> length (heard l (drop n (notified (ps_cm ps))))"
    using count_change_fold_le [of name _ 0] by (simp add: readers_heard_def)
  also have "\<dots> \<le> length (notified (ps_cm ps))" by (simp add: heard_def le_trans [OF length_filter_le])
  finally have "?c + length (heard l x) \<le> length (notified cm1)"
    using length_filter_le [of "\<lambda>e. fst e = l" x] by (simp add: x heard_def add_mono)
  then have b: "?c + length (heard l x) < 2 ^ 31" using assms(4) cm' by simp
  show ?thesis using change_calls_inv [OF inv b calls] n x cm'
    by (auto simp: counts_heard_def readers_heard_def)
qed

section \<open>The life of a publisher\<close>

text \<open>Calls in the process of publisher \<open>l\<close> that do not shut it down.\<close>

inductive process_step :: "backend \<Rightarrow> faults \<Rightarrow> nat \<Rightarrow> 'm pubsub \<Rightarrow> 'm pubsub \<Rightarrow> bool" for be flt l where
  remote: "on_manager be flt (remote_change junk msg_str) ps = Some (r, ps') \<Longrightarrow> process_step be flt l ps ps'"
| module_left: "on_manager be flt (module_leave now junk host pid) ps = Some (r, ps') \<Longrightarrow> process_step be flt l ps ps'"
| pub_init: "\<lbrakk>i \<noteq> l; Publisher_Init be flt ev clock i p ps = Some (made, ps')\<rbrakk> \<Longrightarrow> process_step be flt l ps ps'"
| pub_down: "\<lbrakk>i \<noteq> l; Publisher_Shutdown be flt clock i ps = Some ps'\<rbrakk> \<Longrightarrow> process_step be flt l ps ps'"
| publish: "Publish be flt bo stopped enc i msg ps = Some (went, ps') \<Longrightarrow> process_step be flt l ps ps'"
| sub_init: "Subscriber_Init be flt ev dflt cr_clock clock i s ps = Some (made, ps') \<Longrightarrow> process_step be flt l ps ps'"
| sub_down: "Subscriber_Shutdown be flt Hash clock i ps = Some ps' \<Longrightarrow> process_step be flt l ps ps'"

text \<open>A step with its effect on the log of calls.\<close>

definition keeps_count :: "nat \<Rightarrow> bytes \<Rightarrow> nat \<Rightarrow> 'm pubsub \<Rightarrow> 'm pubsub \<Rightarrow> bool" where
  "keeps_count l name n ps ps' \<longleftrightarrow>
     (length (notified (ps_cm ps')) < 2 ^ 31 \<longrightarrow> counts_heard l name n ps \<longrightarrow> counts_heard l name n ps') \<and>
     (\<exists>x. notified (ps_cm ps') = notified (ps_cm ps) @ x)"

lemma keeps_frame:
  "\<lbrakk>ps_pubs ps' l = ps_pubs ps l; notified (ps_cm ps') = notified (ps_cm ps)\<rbrakk> \<Longrightarrow> keeps_count l name n ps ps'"
  by (auto simp: keeps_count_def intro: counts_heard_cong)

lemma keeps_trans:
  assumes "keeps_count l name n ps ps1" "keeps_count l name n ps1 ps2"
  shows "keeps_count l name n ps ps2"
proof -
  obtain x where x: "notified (ps_cm ps1) = notified (ps_cm ps) @ x" using assms(1) by (auto simp: keeps_count_def)
  obtain y where y: "notified (ps_cm ps2) = notified (ps_cm ps1) @ y" using assms(2) by (auto simp: keeps_count_def)
  then have "length (notified (ps_cm ps2)) < 2 ^ 31 \<Longrightarrow> length (notified (ps_cm ps1)) < 2 ^ 31" by simp
  then show ?thesis using assms x y by (auto simp: keeps_count_def)
qed

lemma on_manager_appends:
  assumes "appends f" "on_manager be flt f ps = Some (r, ps')"
  shows "\<exists>x. notified (ps_cm ps') = notified (ps_cm ps) @ x"
proof -
  obtain cm1 where cm1: "f (ps_cm ps) = Some (r, cm1)"
    "change_calls be flt (drop (length (notified (ps_cm ps))) (notified cm1)) (ps\<lparr> ps_cm := cm1 \<rparr>) = Some ps'"
    using assms(2) by (auto simp: on_manager_def bind_eq_Some_conv)
  show ?thesis using assms(1) cm1(1) change_calls_cm [OF cm1(2)] unfolding appends_def by fastforce
qed

lemma keeps_on_manager:
  "\<lbrakk>appends f; on_manager be flt f ps = Some (r, ps')\<rbrakk> \<Longrightarrow> keeps_count l name n ps ps'"
  using on_manager_counts on_manager_appends unfolding keeps_count_def by metis

lemma keeps_pub_join:
  assumes "i \<noteq> l" "Publisher_JoinTheTopology be flt clock i p ps = Some ps'"
  shows "keeps_count l name n ps ps'"
proof -
  let ?ps = "ps\<lparr> ps_pubs := (ps_pubs ps)(i \<mapsto> p), ps_cm := AddChangeListener i (ps_cm ps) \<rparr>"
  obtain r where r: "on_manager be flt (ChannelManager_Join clock (pb_attr p) ROLE_WRITER True) ?ps = Some (r, ps')"
    using assms(2) by (auto simp: Publisher_JoinTheTopology_def bind_eq_Some_conv)
  have "keeps_count l name n ps ?ps" using assms(1) by (intro keeps_frame) (simp_all add: AddChangeListener_def)
  then show ?thesis by (rule keeps_trans [OF _ keeps_on_manager [OF appends_Join r]])
qed

lemma keeps_pub_init:
  assumes "i \<noteq> l" "Publisher_Init be flt ev clock i p ps = Some (made, ps')"
  shows "keeps_count l name n ps ps'"
proof -
  have "ps' = ps \<or> (\<exists>p1. Publisher_JoinTheTopology be flt clock i p1 ps = Some ps')"
  proof (cases "pb_init p")
    case False
    then obtain tx where "CreateTransmitter ev (\<lambda>t :: unit rtps_transmitter. Some t) (ps_tp ps) (pb_attr p) SHM = Some tx"
      using assms(2) by (auto simp: Publisher_Init_def bind_eq_Some_conv)
    then show ?thesis using assms(2) False
      by (cases tx; cases "the tx") (auto simp: Publisher_Init_def bind_eq_Some_conv)
  qed (use assms(2) in \<open>simp add: Publisher_Init_def\<close>)
  then show ?thesis using keeps_pub_join [OF assms(1)] by (auto intro: keeps_frame)
qed

lemma keeps_leave:
  assumes "on_manager be flt (ChannelManager_Leave clock attr role) (ps\<lparr> ps_cm := RemoveChangeListener i (ps_cm ps) \<rparr>) = Some (r, ps')"
  shows "keeps_count l name n ps ps'"
proof -
  have "keeps_count l name n ps (ps\<lparr> ps_cm := RemoveChangeListener i (ps_cm ps) \<rparr>)"
    by (intro keeps_frame) (simp_all add: RemoveChangeListener_def)
  then show ?thesis by (rule keeps_trans [OF _ keeps_on_manager [OF appends_Leave assms]])
qed

lemma keeps_pub_down:
  assumes "i \<noteq> l" "Publisher_Shutdown be flt clock i ps = Some ps'"
  shows "keeps_count l name n ps ps'"
proof (cases "\<exists>p. ps_pubs ps i = Some p \<and> pb_init p")
  case False
  then show ?thesis using assms(2) by (auto simp: Publisher_Shutdown_def bind_eq_Some_conv intro: keeps_frame split: if_splits)
next
  case True
  then obtain p where p: "ps_pubs ps i = Some p" "pb_init p" by blast
  let ?ps = "ps\<lparr> ps_pubs := (ps_pubs ps)(i \<mapsto> p\<lparr> pb_init := False \<rparr>) \<rparr>"
  obtain ps1 where s: "Publisher_LeaveTheTopology be flt clock i p ?ps = Some ps1"
    "ps_pubs ps' l = ps_pubs ps1 l" "ps_cm ps' = ps_cm ps1"
    using assms p by (auto simp: Publisher_Shutdown_def bind_eq_Some_conv)
  have "keeps_count l name n ps ?ps" using assms(1) by (intro keeps_frame) simp_all
  moreover have "keeps_count l name n ?ps ps1"
    using s(1) unfolding Publisher_LeaveTheTopology_def bind_eq_Some_conv by (auto intro: keeps_leave)
  moreover have "keeps_count l name n ps1 ps'" using s by (intro keeps_frame) simp_all
  ultimately show ?thesis by (blast intro: keeps_trans)
qed

lemma Transmit_counts:
  assumes "Transmitter_Transmit be flt bo stopped bs (t, os, ind) = Some (went, t1, os1, ind1)"
  shows "receiver_count t1 = receiver_count t \<and> ep_enabled t1 = ep_enabled t"
proof (cases "ep_enabled t")
  case False
  then show ?thesis using assms
    by (auto simp: Transmitter_Transmit_def ShmTransmitter_Transmit_def stamp_info_def NextSeqNum_def Let_def)
next
  case True
  let ?t = "stamp_info t"
  have fr: "receiver_count ?t = receiver_count t" "ep_enabled ?t = ep_enabled t"
    by (simp_all add: stamp_info_def NextSeqNum_def Let_def)
  obtain s aq s1 os' where s: "sx_segment ?t = Some s" "AcquireBlockToWrite be flt (of_nat (length bs)) (s, os) = Some (aq, s1, os')"
    using assms True fr by (auto simp: Transmitter_Transmit_def ShmTransmitter_Transmit_def Let_def bind_eq_Some_conv)
  show ?thesis using assms True fr s
    by (cases aq) (auto simp: Transmitter_Transmit_def ShmTransmitter_Transmit_def Let_def bind_eq_Some_conv case_prod_unfold)
qed

lemma keeps_publish:
  assumes "Publish be flt bo stopped enc i msg ps = Some (went, ps')"
  shows "keeps_count l name n ps ps'"
proof -
  obtain p where p: "ps_pubs ps i = Some p" using assms by (auto simp: Publish_def bind_eq_Some_conv)
  show ?thesis
  proof (cases "pb_init p")
    case False
    then show ?thesis using assms p by (auto simp: Publish_def intro: keeps_frame)
  next
    case True
    then obtain t t1 os1 ind1 where t: "pb_tx p = Some t"
      "Transmitter_Transmit be flt bo stopped (enc msg) (t, ps_os ps, ps_ind ps) = Some (went, t1, os1, ind1)"
      "ps' = ps\<lparr> ps_pubs := (ps_pubs ps)(i \<mapsto> p\<lparr> pb_tx := Some t1 \<rparr>), ps_os := os1, ps_ind := ind1 \<rparr>"
      using assms p by (auto simp: Publish_def bind_eq_Some_conv)
    show ?thesis
    proof (cases "i = l")
      case True
      then have "counts_heard l name n ps \<Longrightarrow> counts_heard l name n ps'"
        using Transmit_counts [OF t(2)] t p by (auto simp: counts_heard_def pub_inv_def tx_counts_def)
      then show ?thesis using t(3) by (simp add: keeps_count_def)
    qed (use t(3) in \<open>auto intro: keeps_frame\<close>)
  qed
qed

lemma fold_recv_Enable: "ps_pubs (fold (\<lambda>a. recv_Enable a r) as ps) = ps_pubs ps \<and> ps_cm (fold (\<lambda>a. recv_Enable a r) as ps) = ps_cm ps"
  by (induction as arbitrary: ps) simp_all

lemma with_names_frame: "with_names f ps = Some (r, ps') \<Longrightarrow> ps_pubs ps' = ps_pubs ps \<and> ps_cm ps' = ps_cm ps"
  by (auto simp: with_names_def)

lemma keeps_sub_join:
  assumes "Subscriber_JoinTheTopology be flt Hash clock i s r ps = Some ps'"
  shows "keeps_count l name n ps ps'"
proof -
  let ?ps1 = "ps\<lparr> ps_subs := (ps_subs ps)(i \<mapsto> s), ps_cm := AddChangeListener i (ps_cm ps) \<rparr>"
  obtain pubs ps2 q where j: "with_names (GetWritersOfChannel Hash (channel_name (ss_attr s)) (ps_cm ?ps1)) ?ps1 = Some (pubs, ps2)"
    "on_manager be flt (ChannelManager_Join clock (ss_attr s) ROLE_READER True) (fold (\<lambda>a. recv_Enable a r) pubs ps2) = Some (q, ps')"
    using assms by (auto simp: Subscriber_JoinTheTopology_def Let_def bind_eq_Some_conv)
  have "keeps_count l name n ps (fold (\<lambda>a. recv_Enable a r) pubs ps2)"
    using with_names_frame [OF j(1)] fold_recv_Enable [of r pubs ps2] by (intro keeps_frame) (simp_all add: AddChangeListener_def)
  then show ?thesis by (rule keeps_trans [OF _ keeps_on_manager [OF appends_Join j(2)]])
qed

lemma GetReceiver_frame: "GetReceiver ev attr ps = (ptr, ps') \<Longrightarrow> ps_pubs ps' = ps_pubs ps \<and> ps_cm ps' = ps_cm ps"
  by (auto simp: GetReceiver_def split: option.splits prod.splits)

lemma keeps_sub_init:
  assumes "Subscriber_Init be flt ev dflt cr_clock clock i s ps = Some (made, ps')"
  shows "keeps_count l name n ps ps'"
proof -
  let ?name = "node_name (ss_attr s) @ [95] @ channel_name (ss_attr s)"
  have "\<exists>ps1. ps_pubs ps1 = ps_pubs ps \<and> ps_cm ps1 = ps_cm ps \<and>
      (ps' = ps1 \<or> (\<exists>s1 r. Subscriber_JoinTheTopology be flt (ev_hash ev) clock i s1 r ps1 = Some ps'))"
  proof (cases "ss_init s")
    case False
    then obtain ok sched where c: "CreateTask (ev_hash ev) cr_clock ?name (Some (ps_fresh ps)) (ps_sched ps) = Some (ok, sched)"
      using assms by (auto simp: Subscriber_Init_def Let_def bind_eq_Some_conv)
    show ?thesis
    proof (cases ok)
      case True
      let ?ps = "ps\<lparr> ps_plane := DataVisitor_construct dflt (ps_fresh ps) (ps_fresh ps + 1)
          [\<lparr> vc_type = 0, vc_channel_id = channel_id (ss_attr s), vc_queue_size = ss_pending_queue_size s \<rparr>] (ps_plane ps),
          ps_sched := sched, ps_fresh := ps_fresh ps + 2 \<rparr>"
      obtain ptr ps2 where g: "GetReceiver ev (ss_attr s) ?ps = (ptr, ps2)" by (cases "GetReceiver ev (ss_attr s) ?ps")
      have "\<exists>s1 r. Subscriber_JoinTheTopology be flt (ev_hash ev) clock i s1 r ps2 = Some ps'"
        using assms False True c g by (auto simp: Subscriber_Init_def Let_def bind_eq_Some_conv) (rule exI, rule exI, assumption)
      then show ?thesis using GetReceiver_frame [OF g] by auto
    next
      case not_ok: False
      then show ?thesis using assms False c by (intro exI [of _ ps']) (auto simp: Subscriber_Init_def Let_def)
    qed
  qed (use assms in \<open>auto simp: Subscriber_Init_def\<close>)
  then obtain ps1 where ps1: "ps_pubs ps1 = ps_pubs ps" "ps_cm ps1 = ps_cm ps"
    "ps' = ps1 \<or> (\<exists>s1 r. Subscriber_JoinTheTopology be flt (ev_hash ev) clock i s1 r ps1 = Some ps')" by blast
  have "keeps_count l name n ps1 ps'" using ps1(3) keeps_sub_join by (auto intro: keeps_frame)
  moreover have "keeps_count l name n ps ps1" using ps1 by (simp add: keeps_frame)
  ultimately show ?thesis by (blast intro: keeps_trans)
qed

lemma keeps_sub_down:
  assumes "Subscriber_Shutdown be flt Hash clock i ps = Some ps'"
  shows "keeps_count l name n ps ps'"
proof -
  obtain s where s: "ps_subs ps i = Some s" using assms by (auto simp: Subscriber_Shutdown_def bind_eq_Some_conv)
  show ?thesis
  proof (cases "ss_init s")
    case False
    then show ?thesis using assms s by (auto simp: Subscriber_Shutdown_def intro: keeps_frame)
  next
    case True
    let ?ps = "ps\<lparr> ps_subs := (ps_subs ps)(i \<mapsto> s\<lparr> ss_init := False \<rparr>) \<rparr>"
    obtain ps1 where d: "Subscriber_LeaveTheTopology be flt clock i s ?ps = Some ps1"
      "ps_pubs ps' = ps_pubs ps1" "ps_cm ps' = ps_cm ps1"
      using assms s True by (auto simp: Subscriber_Shutdown_def bind_eq_Some_conv Let_def split: if_splits)
    have "keeps_count l name n ?ps ps1"
      using d(1) unfolding Subscriber_LeaveTheTopology_def bind_eq_Some_conv by (auto intro: keeps_leave)
    moreover have "keeps_count l name n ps ?ps" "keeps_count l name n ps1 ps'" using d by (simp_all add: keeps_frame)
    ultimately show ?thesis by (blast intro: keeps_trans)
  qed
qed

lemmas keeps_rules = keeps_on_manager [OF appends_remote_change] keeps_on_manager [OF appends_module_leave]
  keeps_pub_init keeps_pub_down keeps_publish keeps_sub_init keeps_sub_down

lemma process_step_keeps: "process_step be flt l ps ps' \<Longrightarrow> keeps_count l name n ps ps'"
  by (induction rule: process_step.induct) (blast intro: keeps_rules)+

lemma process_steps_keep: "(process_step be flt l)\<^sup>*\<^sup>* ps ps' \<Longrightarrow> keeps_count l name n ps ps'"
  by (induction rule: rtranclp_induct) (auto intro: keeps_frame dest: process_step_keeps keeps_trans)

lemma init_counts:
  assumes "Publisher_Init be flt ev clock l p ps = Some (True, ps')" "\<not> pb_init p" "length (notified (ps_cm ps')) < 2 ^ 31"
  shows "counts_heard l (channel_name (pb_attr p)) (length (notified (ps_cm ps))) ps'"
proof -
  obtain tx where tx: "CreateTransmitter ev (\<lambda>t :: unit rtps_transmitter. Some t) (ps_tp ps) (pb_attr p) SHM = Some tx"
    using assms(1,2) by (auto simp: Publisher_Init_def bind_eq_Some_conv)
  obtain t where t: "tx = Some (AnyShm t)" using assms(1,2) tx
    by (cases tx; cases "the tx") (auto simp: Publisher_Init_def)
  have cnt: "tx_counts 0 t" using tx t
    by (auto simp: CreateTransmitter_def Let_def tx_counts_def ShmTransmitter_construct_def ShmTransmitter_Enable0_def
        Transmitter_construct_def new_endpoint_def Endpoint_construct_def transmitter.defs endpoint.defs shm_transmitter.defs split: if_splits)
  let ?p = "p\<lparr> pb_tx := Some t, pb_init := True, pb_attr := (pb_attr p)\<lparr> role_id := hash_value (ep_id t) \<rparr> \<rparr>"
  let ?ps = "ps\<lparr> ps_pubs := (ps_pubs ps)(l \<mapsto> ?p), ps_cm := AddChangeListener l (ps_cm ps) \<rparr>"
  obtain r where r: "on_manager be flt (ChannelManager_Join clock (pb_attr ?p) ROLE_WRITER True) ?ps = Some (r, ps')"
    using assms(1,2) tx t by (auto simp: Publisher_Init_def Publisher_JoinTheTopology_def bind_eq_Some_conv)
  have "counts_heard l (channel_name (pb_attr p)) (length (notified (ps_cm ps))) ?ps"
    using cnt by (simp add: counts_heard_def readers_heard_def pub_inv_def AddChangeListener_def)
  then show ?thesis using on_manager_counts [OF appends_Join _ r assms(3)] by blast
qed

lemma silent_publish:
  assumes "ps_pubs ps l = Some p" "pb_init p" "pb_tx p = Some t" "\<not> ep_enabled t"
  shows "Publish be flt bo stopped enc l msg ps =
    Some (False, ps\<lparr> ps_pubs := (ps_pubs ps)(l \<mapsto> p\<lparr> pb_tx := Some (stamp_info t) \<rparr>) \<rparr>)"
  using assms by (simp add: Publish_def Transmitter_Transmit_def ShmTransmitter_Transmit_def stamp_info_def NextSeqNum_def Let_def)

text \<open>C2: A publisher that was initialised has its transmitter enabled exactly while readers of its channel that joined
  since then are left by its count: it counts the joins it is told and takes one off for each leave, not below
  zero.  While the count is zero, \<open>Publish\<close> answers false and changes nothing but the number and the
  information the transmitter keeps for its next message; the shared objects and the
  notifications stay as they are.  Whatever other publishers, subscribers and remote processes do in between does not change this,
  and readers that joined before \<open>Init\<close> are not counted.\<close>

theorem publisher_enabled_iff:
  assumes init: "Publisher_Init be flt ev clock l p ps0 = Some (True, ps1)" "\<not> pb_init p"
    and steps: "(process_step be flt l)\<^sup>*\<^sup>* ps1 ps"
    and small: "length (notified (ps_cm ps)) < 2 ^ 31"
  shows "\<exists>p1 t. ps_pubs ps l = Some p1 \<and> pb_tx p1 = Some t \<and>
      (let c = readers_heard l (channel_name (pb_attr p)) (length (notified (ps_cm ps0))) (ps_cm ps)
       in receiver_count t = of_nat c \<and> (ep_enabled t \<longleftrightarrow> 0 < c) \<and>
          (c = 0 \<longrightarrow> (\<forall>bo stopped enc msg. Publish be flt bo stopped enc l msg ps =
             Some (False, ps\<lparr> ps_pubs := (ps_pubs ps)(l \<mapsto> p1\<lparr> pb_tx := Some (stamp_info t) \<rparr>) \<rparr>))))"
proof -
  let ?n = "length (notified (ps_cm ps0))" and ?name = "channel_name (pb_attr p)"
  have k: "keeps_count l ?name ?n ps1 ps" by (rule process_steps_keep [OF steps])
  then have "length (notified (ps_cm ps1)) < 2 ^ 31" using small by (auto simp: keeps_count_def)
  then have "counts_heard l ?name ?n ps" using init_counts [OF init] k small by (simp add: keeps_count_def)
  then obtain p1 t where "ps_pubs ps l = Some p1" "pb_init p1" "pb_tx p1 = Some t"
    "tx_counts (readers_heard l ?name ?n (ps_cm ps)) t"
    by (auto simp: counts_heard_def pub_inv_def)
  then show ?thesis using silent_publish by (auto simp: tx_counts_def Let_def)
qed

lemma remote_change_reads:
  assumes "msg_ok msg" "\<not> is_shutdown cm" "\<not> IsFromSameProcess msg cm" "ChannelManager_Check (role_attr msg)"
  shows "remote_change junk (enc_change msg) cm = Some ((), ChannelManager_Dispose msg cm)"
proof -
  obtain ds ds' where "ds_of_bytes (mgr_order cm) (enc_change msg) = Some ds" "ChangeMsg_unserialize junk ds = Some (True, msg, ds')"
    by (rule wire_read [OF assms(1)])
  then show ?thesis using assms by (simp add: remote_change_def ChannelManager_OnRemoteChange_def OnRemoteChange_def)
qed

text \<open>A publisher made after a remote subscriber, and then another subscriber joining.\<close>

definition late_reader :: "u64 \<Rightarrow> OperateType \<Rightarrow> ChangeMsg" where
  "late_reader rid opt = \<lparr> timestamp = 7, change_type = CHANGE_CHANNEL, operate_type = opt, role_type = ROLE_READER,
     role_attr = demo_attr\<lparr> host_name := [104], process_id := 9, role_id := rid, channel_id := 3 \<rparr> \<rparr>"

definition late_start :: "u8 pubsub" where
  "late_start = \<lparr> ps_tp = Transport_construct,
     ps_cm = ChannelManager_Dispose (late_reader 20 OPT_JOIN) (ChannelManager_construct [104] 1 BigEndian),
     ps_nm = NodeManager_construct [104] 1 BigEndian, ps_sched = scheduler_empty registers_init,
     ps_plane = registered 0 [] [] (\<lambda>_. None) (\<lambda>_. None), ps_pubs = (\<lambda>_. None), ps_subs = (\<lambda>_. None),
     ps_recvs = (\<lambda>_. None), ps_shm = ShmDispatcher_construct (\<lambda>_. 3) [] 0, ps_rtps = RtpsDispatcher_construct, ps_os = empty_os,
     ps_ind = Indicator_construct, ps_fresh = 1 \<rparr>"

definition late_env :: endpoint_env where
  "late_env = \<lparr> ev_hash = (\<lambda>_. 3), ev_uuid = replicate 16 1, ev_host_name = [104], ev_process_id = 1 \<rparr>"

lemma late_reader_ok: "msg_ok (late_reader rid OPT_JOIN)"
  by (simp add: late_reader_def msg_ok_def attr_ok_def attr_strings_def demo_attr_def ok_qos_def QosProfile_default_def)

lemma late_manager: "\<not> is_shutdown (ps_cm late_start)" "allowed_role (ps_cm late_start) = role_bit ROLE_WRITER OR role_bit ROLE_READER"
  "listeners (ps_cm late_start) = []" "notified (ps_cm late_start) = []" "\<not> is_discovery_started (ps_cm late_start)"
  "mgr_process_id (ps_cm late_start) = 1"
  by (simp_all add: late_start_def ChannelManager_Dispose_def ChannelManager_DisposeJoin_def Let_def ChannelManager_construct_def
      Manager_Notify_def late_reader_def)

definition late_pub :: publisher where
  "late_pub = (let t = ShmTransmitter_construct (\<lambda>_. 3) (Transmitter_construct (\<lambda>_. 3) (new_endpoint late_env demo_attr)) demo_attr
     in \<lparr> pb_attr = demo_attr\<lparr> role_id := hash_value (ep_id t) \<rparr>, pb_init = True, pb_tx = Some t \<rparr>)"

lemma late_created:
  "CreateTransmitter late_env (\<lambda>t :: unit rtps_transmitter. Some t) (ps_tp late_start) demo_attr SHM = Some (Some (AnyShm (the (pb_tx late_pub))))"
  by (simp add: CreateTransmitter_def late_start_def Transport_construct_def Let_def late_pub_def ShmTransmitter_Enable0_def late_env_def
      ShmTransmitter_construct_def transmitter.defs shm_transmitter.defs)

lemma late_id: "role_id (pb_attr late_pub) = 3" "channel_name (pb_attr late_pub) = [99]" "channel_id (pb_attr late_pub) = 3"
  by code_simp+

definition late_cm :: channel_manager where
  "late_cm = snd (the (ChannelManager_Join 8 (pb_attr late_pub) ROLE_WRITER True (AddChangeListener 0 (ps_cm late_start))))"

lemma late_join_made:
  "ChannelManager_Join 8 (pb_attr late_pub) ROLE_WRITER True (AddChangeListener 0 (ps_cm late_start)) = Some (False, late_cm)"
  "notified late_cm = [(0, Manager_Convert 8 (pb_attr late_pub) ROLE_WRITER OPT_JOIN (ps_cm late_start))]"
  "listeners late_cm = [0]" "\<not> is_shutdown late_cm" "mgr_process_id late_cm = 1"
  unfolding late_cm_def using late_manager late_id
  by (simp_all add: ChannelManager_Join_def Manager_Join_def AddChangeListener_def role_bit_def ChannelManager_Check_def Let_def
      Manager_Write_def ChannelManager_Dispose_def Manager_Notify_def ChannelManager_DisposeJoin_def Manager_Convert_def)

definition late_ps1 :: "u8 pubsub" where
  "late_ps1 = late_start\<lparr> ps_pubs := (ps_pubs late_start)(0 \<mapsto> late_pub), ps_cm := late_cm \<rparr>"

lemma late_init: "Publisher_Init XsiSegment no_faults late_env 8 0 (Publisher_construct demo_attr) late_start = Some (True, late_ps1)"
proof -
  have c: "change_calls XsiSegment no_faults (drop 0 (notified late_cm)) late_ps1 = Some late_ps1"
    by (simp add: late_join_made change_call_def late_ps1_def Publisher_OnChannelChange_def Manager_Convert_def)
  have a: "demo_attr\<lparr> role_id := hash_value (ep_id (the (pb_tx late_pub))) \<rparr> = pb_attr late_pub"
    and p: "\<lparr> pb_attr = pb_attr late_pub, pb_init = True, pb_tx = Some (the (pb_tx late_pub)) \<rparr> = late_pub"
    by (simp_all add: late_pub_def Let_def)
  show ?thesis
    using late_join_made(1) c late_manager
    by (simp add: Publisher_Init_def late_created Publisher_construct_def a p Publisher_JoinTheTopology_def on_manager_def
        late_ps1_def AddChangeListener_def)
qed

definition late_ps2 :: "u8 pubsub" where
  "late_ps2 = late_ps1\<lparr> ps_cm := ChannelManager_Dispose (late_reader 21 OPT_JOIN) late_cm,
     ps_pubs := (ps_pubs late_ps1)(0 \<mapsto> late_pub\<lparr> pb_tx := map_option ShmTransmitter_Enable (pb_tx late_pub) \<rparr>) \<rparr>"

lemma late_second:
  "on_manager XsiSegment no_faults (remote_change (late_reader 0 OPT_JOIN) (enc_change (late_reader 21 OPT_JOIN))) late_ps1 = Some ((), late_ps2)"
proof -
  obtain t where t: "pb_tx late_pub = Some t" by (simp add: late_pub_def Let_def)
  have r: "remote_change (late_reader 0 OPT_JOIN) (enc_change (late_reader 21 OPT_JOIN)) late_cm =
      Some ((), ChannelManager_Dispose (late_reader 21 OPT_JOIN) late_cm)"
    by (rule remote_change_reads [OF late_reader_ok])
      (simp_all add: late_join_made IsFromSameProcess_def late_reader_def demo_attr_def ChannelManager_Check_def)
  have n: "notified (ChannelManager_Dispose (late_reader 21 OPT_JOIN) late_cm) = notified late_cm @ [(0, late_reader 21 OPT_JOIN)]"
    by (simp add: ChannelManager_Dispose_def late_reader_def ChannelManager_DisposeJoin_def Let_def late_join_made Manager_Notify_def)
  have c: "change_call XsiSegment no_faults (0, late_reader 21 OPT_JOIN) (late_ps1\<lparr> ps_cm := cm \<rparr>) = 
     Some (late_ps1\<lparr> ps_cm := cm, ps_pubs := (ps_pubs late_ps1)(0 \<mapsto> late_pub\<lparr> pb_tx := map_option ShmTransmitter_Enable (pb_tx late_pub) \<rparr>) \<rparr>)" for cm
    by (simp add: change_call_def late_ps1_def Publisher_OnChannelChange_def late_reader_def late_id t demo_attr_def)
  have cm: "ps_cm late_ps1 = late_cm" by (simp add: late_ps1_def)
  show ?thesis using c by (simp add: on_manager_def cm r n late_ps2_def)
qed

lemma late_heard: "readers_heard 0 [99] 0 (ps_cm late_ps1) = 0" "readers_heard 0 [99] 0 (ps_cm late_ps2) = 1"
  "length (notified (ps_cm late_ps1)) = 1" "length (notified (ps_cm late_ps2)) = 2"
  by (simp_all add: readers_heard_def late_ps1_def late_ps2_def ChannelManager_Dispose_def ChannelManager_DisposeJoin_def Manager_Notify_def
      late_join_made late_reader_def Manager_Convert_def count_change_def demo_attr_def Let_def)

lemma late_readers: "map role_id (GetReaders (ps_cm late_ps1)) = [20]" "map role_id (GetReaders (ps_cm late_ps2)) = [20, 21]"
  by code_simp+

theorem publisher_enabled_iff_witness:
  "\<exists>ps1 ps2. Publisher_Init XsiSegment no_faults late_env 8 0 (Publisher_construct demo_attr) late_start = Some (True, ps1) \<and>
     process_step XsiSegment no_faults 0 ps1 ps2 \<and>
     map role_id (GetReaders (ps_cm ps1)) = [20] \<and>
     (\<exists>ps3. Publish XsiSegment no_faults LittleEndian False (\<lambda>b. [b]) 0 (7 :: u8) ps1 = Some (False, ps3)) \<and>
     map role_id (GetReaders (ps_cm ps2)) = [20, 21] \<and>
     (\<exists>p t. ps_pubs ps2 0 = Some p \<and> pb_tx p = Some t \<and> receiver_count t = 1 \<and> ep_enabled t)"
proof -
  have n: "notified (ps_cm late_start) = []" "\<not> pb_init (Publisher_construct demo_attr)"
    "channel_name (pb_attr (Publisher_construct demo_attr)) = [99]"
    by (simp_all add: late_manager Publisher_construct_def demo_attr_def)
  have step: "process_step XsiSegment no_faults 0 late_ps1 late_ps2" by (rule process_step.remote [OF late_second])
  then have steps: "(process_step XsiSegment no_faults 0)\<^sup>*\<^sup>* late_ps1 late_ps2" by (rule r_into_rtranclp)
  note iff = publisher_enabled_iff [OF late_init n(2)]
  from iff [OF rtranclp.rtrancl_refl] obtain ps3 where a: "Publish XsiSegment no_faults LittleEndian False (\<lambda>b. [b]) 0 (7 :: u8) late_ps1 = Some (False, ps3)"
    unfolding n(1,3) list.size by (simp add: late_heard Let_def) blast
  from iff [OF steps] have b: "\<exists>p t. ps_pubs late_ps2 0 = Some p \<and> pb_tx p = Some t \<and> receiver_count t = 1 \<and> ep_enabled t"
    unfolding n(1,3) list.size by (simp add: late_heard Let_def)
  show ?thesis
    by (rule exI [of _ late_ps1], rule exI [of _ late_ps2]) (use a b late_init step late_readers in simp)
qed

end
