(* ===== verification/NotifierLife.thy ===== *)
theory NotifierLife
  imports ShmNotifier ShmSegment DataStream
begin

text \<open>
  The life of the notifiers (transport/shm/condition_notifier.cpp, multicast_notifier.h/.cpp, notifier_factory.cpp,
  readable_info.cpp): how a process opens or creates the ring of notifications and gives it up, with failing system calls, and
  the notifier over multicast sockets.
\<close>

section \<open>The condition notifier\<close>

text \<open>All processes use one key: \<open>ro_named\<close> is the segment it stands for, \<open>ro_rings\<close> are all rings that were made.  A
  removed segment lives on for the processes that mapped it.\<close>

record ring_os =
  ro_named :: "nat option"
  ro_rings :: "indicator list"

record condition_notifier =
  cn_managed :: managed
  cn_indicator :: "nat option"
  cn_next_seq :: u64
  cn_shutdown :: bool

definition CN_declared :: condition_notifier where
  "CN_declared = \<lparr> cn_managed = Unmapped, cn_indicator = None, cn_next_seq = 0, cn_shutdown = False \<rparr>"

definition CN_Reset :: "condition_notifier \<Rightarrow> condition_notifier" where
  "CN_Reset n =
     (let n1 = n\<lparr> cn_indicator := None \<rparr> in if cn_managed n1 \<noteq> Unmapped then n1\<lparr> cn_managed := Unmapped \<rparr> else n1)"

definition CN_Remove :: "faults \<Rightarrow> ring_os \<Rightarrow> bool \<times> ring_os" where
  "CN_Remove flt os =
     (if ro_named os = None \<or> fl_open flt \<or> fl_remove flt then (False, os) else (True, os\<lparr> ro_named := None \<rparr>))"

text \<open>A failed attachment removes the segment.\<close>

definition remove_id :: "faults \<Rightarrow> nat \<Rightarrow> ring_os \<Rightarrow> ring_os" where
  "remove_id flt i os = (if fl_remove flt \<or> ro_named os \<noteq> Some i then os else os\<lparr> ro_named := None \<rparr>)"

definition CN_OpenOnly :: "faults \<Rightarrow> condition_notifier \<times> ring_os \<Rightarrow> bool \<times> condition_notifier \<times> ring_os" where
  "CN_OpenOnly flt = (\<lambda>(n, os).
     case ro_named os of
       None \<Rightarrow> (False, n, os)
     | Some i \<Rightarrow>
         (if fl_open flt then (False, n, os)
          else if fl_attach flt then (False, n\<lparr> cn_managed := MapFailed \<rparr>, remove_id flt i os)
          else (True, n\<lparr> cn_managed := Mapped i, cn_indicator := Some i \<rparr>, os)))"

definition ring_create :: "ring_os \<Rightarrow> nat \<times> ring_os" where
  "ring_create os =
     (length (ro_rings os), os\<lparr> ro_named := Some (length (ro_rings os)), ro_rings := ro_rings os @ [Indicator_construct] \<rparr>)"

function CN_shmget :: "faults \<Rightarrow> nat \<Rightarrow> condition_notifier \<times> ring_os \<Rightarrow> shmget_result \<times> condition_notifier \<times> ring_os" where
  "CN_shmget flt retry (n, os) =
     (if \<not> retry < 2 then (ShmFailed, n, os)
      else if ro_named os \<noteq> None then (ShmExists, n, os)
      else case fl_create flt retry of
             None \<Rightarrow> (case ring_create os of (i, os1) \<Rightarrow> (ShmGot i, n, os1))
           | Some EINVAL \<Rightarrow> CN_shmget flt (retry + 1) (CN_Reset n, snd (CN_Remove flt os))
           | Some EEXIST \<Rightarrow> (ShmExists, n, os)
           | Some EOTHER \<Rightarrow> (ShmFailed, n, os))"
  by pat_completeness auto
termination by (relation "measure (\<lambda>(flt, retry, s). 2 - retry)") auto

declare CN_shmget.simps [simp del]

text \<open>The new segment holds zeros, and so does the constructed indicator.\<close>

definition CN_OpenOrCreate :: "faults \<Rightarrow> condition_notifier \<times> ring_os \<Rightarrow> bool \<times> condition_notifier \<times> ring_os" where
  "CN_OpenOrCreate flt st =
     (case CN_shmget flt 0 st of
        (ShmExists, n, os) \<Rightarrow> CN_OpenOnly flt (n, os)
      | (ShmFailed, n, os) \<Rightarrow> (False, n, os)
      | (ShmGot i, n, os) \<Rightarrow>
          (if fl_attach flt then (False, n\<lparr> cn_managed := MapFailed \<rparr>, remove_id flt i os)
           else (True, n\<lparr> cn_managed := Mapped i, cn_indicator := Some i \<rparr>,
                 os\<lparr> ro_rings := (ro_rings os)[i := Indicator_construct] \<rparr>)))"

definition CN_construct :: "faults \<Rightarrow> ring_os \<Rightarrow> condition_notifier \<times> ring_os" where
  "CN_construct flt os =
     (case CN_OpenOrCreate flt (CN_declared, os) of
        (False, n, os1) \<Rightarrow> (n\<lparr> cn_shutdown := True \<rparr>, os1)
      | (True, n, os1) \<Rightarrow> (n\<lparr> cn_next_seq := ind_next_seq (ro_rings os1 ! the (cn_indicator n)) \<rparr>, os1))"

subsection \<open>Calls in steps\<close>

text \<open>There is no lock: \<open>Notify\<close> and \<open>Listen\<close> test \<open>is_shutdown_\<close> and then use \<open>indicator_\<close>, while
  \<open>Shutdown\<close> sets the flag, sleeps for 100 milliseconds and unmaps.  A call of a thread is where it
  stands: outside; in \<open>Notify\<close> before the test, before the counter is advanced, before the entry and
  before its number are written; in \<open>Listen\<close> before the test, before the counter, the number and the entry
  are read, before the pause; in \<open>Shutdown\<close> before the flag is set, asleep, before \<open>Reset\<close>.  A
  call that goes on after the test keeps the time of that test.  Times are microseconds.\<close>

datatype cn_call =
    CnOut
  | CnNotify ReadableInfo | CnTake ReadableInfo int | CnStore ReadableInfo u64 int | CnPublish u64 int
  | CnListen int | CnLook int int | CnEntry int int | CnCopy int | CnWait int
  | CnShutdown | CnSleep int | CnReset

fun checked_at :: "cn_call \<Rightarrow> int option" where
  "checked_at (CnTake info t) = Some t"
| "checked_at (CnStore info sn t) = Some t"
| "checked_at (CnPublish sn t) = Some t"
| "checked_at (CnLook timeout t) = Some t"
| "checked_at (CnEntry timeout t) = Some t"
| "checked_at (CnCopy t) = Some t"
| "checked_at _ = None"

text \<open>An access through \<open>indicator_\<close>; \<open>None\<close>: it is null, or the segment is not mapped.\<close>

definition ring_access ::
  "(indicator \<Rightarrow> 'r \<times> indicator) \<Rightarrow> condition_notifier \<Rightarrow> ring_os \<Rightarrow> ('r \<times> ring_os) option" where
  "ring_access f n os =
     (case cn_indicator n of
        None \<Rightarrow> None
      | Some i \<Rightarrow>
          if cn_managed n = Mapped i then
            (case f (ro_rings os ! i) of (r, ind) \<Rightarrow> Some (r, os\<lparr> ro_rings := (ro_rings os)[i := ind] \<rparr>))
          else None)"

definition SHUTDOWN_SLEEP :: int where "SHUTDOWN_SLEEP = 100 * 1000"

text \<open>One step of a call.  The entry is copied in one step (theory ShmNotifier has its fields).\<close>

fun cn_turn :: "int \<Rightarrow> cn_call \<Rightarrow> condition_notifier \<times> ring_os \<Rightarrow> (cn_call \<times> condition_notifier \<times> ring_os) option" where
  "cn_turn now CnOut (n, os) = Some (CnOut, n, os)"
| "cn_turn now (CnNotify info) (n, os) = Some (if cn_shutdown n then CnOut else CnTake info now, n, os)"
| "cn_turn now (CnTake info t) (n, os) =
     map_option (\<lambda>(sn, os1). (CnStore info sn t, n, os1))
       (ring_access (\<lambda>ind. (ind_next_seq ind, ind\<lparr> ind_next_seq := ind_next_seq ind + 1 \<rparr>)) n os)"
| "cn_turn now (CnStore info sn t) (n, os) =
     map_option (\<lambda>(_, os1). (CnPublish sn t, n, os1))
       (ring_access (\<lambda>ind. ((), ind\<lparr> ind_infos := (ind_infos ind)
          (ring_slot sn := ReadableInfo_assign info (ind_infos ind (ring_slot sn))) \<rparr>)) n os)"
| "cn_turn now (CnPublish sn t) (n, os) =
     map_option (\<lambda>(_, os1). (CnOut, n, os1))
       (ring_access (\<lambda>ind. ((), ind\<lparr> ind_seqs := (ind_seqs ind)(ring_slot sn := sn) \<rparr>)) n os)"
| "cn_turn now (CnListen timeout) (n, os) = Some (if cn_shutdown n then CnOut else CnLook timeout now, n, os)"
| "cn_turn now (CnLook timeout t) (n, os) =
     map_option (\<lambda>(sn, os1). (if sn \<noteq> cn_next_seq n then CnEntry timeout t else CnWait timeout, n, os1))
       (ring_access (\<lambda>ind. (ind_next_seq ind, ind)) n os)"
| "cn_turn now (CnEntry timeout t) (n, os) =
     map_option (\<lambda>(actual_seq, os1).
         if cn_next_seq n \<le> actual_seq then (CnCopy t, n\<lparr> cn_next_seq := actual_seq \<rparr>, os1) else (CnWait timeout, n, os1))
       (ring_access (\<lambda>ind. (ind_seqs ind (ring_slot (cn_next_seq n)), ind)) n os)"
| "cn_turn now (CnCopy t) (n, os) =
     map_option (\<lambda>(info, os1). (CnOut, n\<lparr> cn_next_seq := cn_next_seq n + 1 \<rparr>, os1))
       (ring_access (\<lambda>ind. (ind_infos ind (ring_slot (cn_next_seq n)), ind)) n os)"
| "cn_turn now (CnWait timeout) (n, os) = Some (if 0 < timeout then CnListen (timeout - 50) else CnOut, n, os)"
| "cn_turn now CnShutdown (n, os) =
     Some (if cn_shutdown n then CnOut else CnSleep (now + SHUTDOWN_SLEEP), n\<lparr> cn_shutdown := True \<rparr>, os)"
| "cn_turn now (CnSleep wake) (n, os) = Some (if wake \<le> now then CnReset else CnSleep wake, n, os)"
| "cn_turn now CnReset (n, os) = Some (CnOut, CN_Reset n, os)"

text \<open>The processes that have made their notifier, and the calls of their threads.  Making the notifier is
  one step.\<close>

record cn_system =
  cs_os :: ring_os
  cs_now :: int
  cs_notifier :: "nat \<Rightarrow> condition_notifier option"
  cs_calls :: "nat \<Rightarrow> nat \<Rightarrow> cn_call"

datatype cn_action = CnTime nat | CnConstruct faults nat | CnCall nat nat cn_call | CnTurn nat nat

fun cn_begins :: "cn_call \<Rightarrow> bool" where
  "cn_begins (CnNotify info) = True"
| "cn_begins (CnListen timeout) = True"
| "cn_begins CnShutdown = True"
| "cn_begins _ = False"

definition set_call :: "nat \<Rightarrow> nat \<Rightarrow> cn_call \<Rightarrow> cn_system \<Rightarrow> cn_system" where
  "set_call p th c s = s\<lparr> cs_calls := (cs_calls s)(p := (cs_calls s p)(th := c)) \<rparr>"

fun cn_apply :: "cn_action \<Rightarrow> cn_system \<Rightarrow> cn_system option" where
  "cn_apply (CnTime d) s = Some (s\<lparr> cs_now := cs_now s + int d \<rparr>)"
| "cn_apply (CnConstruct flt p) s =
     (if cs_notifier s p = None then
        (case CN_construct flt (cs_os s) of
           (n, os1) \<Rightarrow> Some (s\<lparr> cs_notifier := (cs_notifier s)(p \<mapsto> n), cs_os := os1 \<rparr>))
      else Some s)"
| "cn_apply (CnCall p th c) s =
     (if cs_notifier s p \<noteq> None \<and> cs_calls s p th = CnOut \<and> cn_begins c then Some (set_call p th c s) else Some s)"
| "cn_apply (CnTurn p th) s =
     (case cs_notifier s p of
        None \<Rightarrow> Some s
      | Some n \<Rightarrow>
          (case cn_turn (cs_now s) (cs_calls s p th) (n, cs_os s) of
             None \<Rightarrow> None
           | Some (c, n1, os1) \<Rightarrow>
               Some (set_call p th c (s\<lparr> cs_notifier := (cs_notifier s)(p \<mapsto> n1), cs_os := os1 \<rparr>))))"

fun cn_run :: "cn_action list \<Rightarrow> cn_system \<Rightarrow> cn_system option" where
  "cn_run [] s = Some s"
| "cn_run (a # as) s = (case cn_apply a s of None \<Rightarrow> None | Some s1 \<Rightarrow> cn_run as s1)"

definition ring_start :: ring_os where "ring_start = \<lparr> ro_named = None, ro_rings = [] \<rparr>"

definition cn_start :: cn_system where
  "cn_start = \<lparr> cs_os = ring_start, cs_now = 0, cs_notifier = (\<lambda>_. None), cs_calls = (\<lambda>_ _. CnOut) \<rparr>"

text \<open>No call has been between its test and its return for as long as \<open>Shutdown\<close> sleeps.\<close>

definition prompt :: "cn_system \<Rightarrow> bool" where
  "prompt s \<longleftrightarrow> (\<forall>p th t. checked_at (cs_calls s p th) = Some t \<longrightarrow> cs_now s < t + SHUTDOWN_SLEEP)"

fun prompt_run :: "cn_action list \<Rightarrow> cn_system \<Rightarrow> bool" where
  "prompt_run [] s = True"
| "prompt_run (a # as) s = (prompt s \<and> (case cn_apply a s of None \<Rightarrow> True | Some s1 \<Rightarrow> prompt_run as s1))"

section \<open>No call touches an unmapped ring\<close>

definition ring_ok :: "ring_os \<Rightarrow> bool" where
  "ring_ok os \<longleftrightarrow> (\<forall>i. ro_named os = Some i \<longrightarrow> i < length (ro_rings os))"

definition has_ring :: "ring_os \<Rightarrow> condition_notifier \<Rightarrow> bool" where
  "has_ring os n \<longleftrightarrow> (\<exists>i. cn_indicator n = Some i \<and> cn_managed n = Mapped i \<and> i < length (ro_rings os))"

definition cn_ok :: "ring_os \<Rightarrow> condition_notifier \<Rightarrow> bool" where
  "cn_ok os n \<longleftrightarrow> (\<not> cn_shutdown n \<longrightarrow> has_ring os n)"

lemma CN_shmget_ok:
  assumes "ring_ok os" "CN_shmget flt retry (n, os) = (r, n1, os1)"
  shows "ring_ok os1 \<and> length (ro_rings os) \<le> length (ro_rings os1) \<and> (\<forall>i. r = ShmGot i \<longrightarrow> i < length (ro_rings os1)) \<and>
    (\<forall>i. r = ShmGot i \<longrightarrow> length (ro_rings os) \<le> i) \<and> cn_shutdown n1 = cn_shutdown n"
  using assms
proof (induction flt retry "(n, os)" arbitrary: n os r n1 os1 rule: CN_shmget.induct)
  case (1 flt retry n os)
  show ?case
  proof (cases "retry < 2 \<and> ro_named os = None")
    case False
    then show ?thesis using "1.prems" by (auto simp: CN_shmget.simps [of flt retry] split: if_splits)
  next
    case True
    show ?thesis
    proof (cases "fl_create flt retry = Some EINVAL")
      case False
      then show ?thesis using "1.prems" True
        by (auto simp: CN_shmget.simps [of flt retry] ring_create_def ring_ok_def split: option.splits errno.splits)
    next
      case einval: True
      have "snd (CN_Remove flt os) = os" using True by (simp add: CN_Remove_def)
      moreover have "cn_shutdown (CN_Reset n) = cn_shutdown n" by (simp add: CN_Reset_def Let_def)
      ultimately show ?thesis
        using "1.prems" True einval "1.hyps" [of EINVAL r n1 os1] by (simp add: CN_shmget.simps [of flt retry])
    qed
  qed
qed

lemma CN_OpenOnly_ok:
  assumes "ring_ok os" "CN_OpenOnly flt (n, os) = (r, n1, os1)"
  shows "ring_ok os1 \<and> ro_rings os1 = ro_rings os \<and> cn_shutdown n1 = cn_shutdown n \<and>
    (r \<longrightarrow> (\<exists>i. cn_indicator n1 = Some i \<and> cn_managed n1 = Mapped i \<and> i < length (ro_rings os1)))"
  using assms by (auto simp: CN_OpenOnly_def remove_id_def ring_ok_def split: option.splits if_splits)

lemma CN_construct_ok:
  assumes "ring_ok os" "CN_construct flt os = (n, os1)"
  shows "ring_ok os1 \<and> length (ro_rings os) \<le> length (ro_rings os1) \<and> cn_ok os1 n"
proof -
  obtain r n0 os0 where g: "CN_shmget flt 0 (CN_declared, os) = (r, n0, os0)" by (metis prod_cases3)
  note ok = CN_shmget_ok [OF assms(1) g]
  show ?thesis
  proof (cases r)
    case (ShmGot i)
    then show ?thesis using assms(2) g ok
      by (auto simp: CN_construct_def CN_OpenOrCreate_def remove_id_def ring_ok_def cn_ok_def has_ring_def CN_declared_def split: if_splits)
  next
    case ShmExists
    obtain r2 n2 os2 where o: "CN_OpenOnly flt (n0, os0) = (r2, n2, os2)" by (metis prod_cases3)
    note ok2 = CN_OpenOnly_ok [OF _ o]
    have "CN_construct flt os = (if r2 then (n2\<lparr> cn_next_seq := ind_next_seq (ro_rings os2 ! the (cn_indicator n2)) \<rparr>, os2)
        else (n2\<lparr> cn_shutdown := True \<rparr>, os2))"
      using g o ShmExists by (simp add: CN_construct_def CN_OpenOrCreate_def)
    then show ?thesis using assms(2) ok ok2 by (cases r2) (auto simp: cn_ok_def has_ring_def)
  next
    case ShmFailed
    then show ?thesis using assms(2) g ok by (auto simp: CN_construct_def CN_OpenOrCreate_def cn_ok_def)
  qed
qed

text \<open>A process: a notifier that is not shut down has its ring, and so has one in which a call is past its
  test; a thread sleeps in \<open>Shutdown\<close> until all such calls are over.\<close>

definition calls_ok :: "int \<Rightarrow> ring_os \<Rightarrow> condition_notifier \<Rightarrow> (nat \<Rightarrow> cn_call) \<Rightarrow> bool" where
  "calls_ok now os n calls \<longleftrightarrow> cn_ok os n \<and>
     (\<forall>th t. checked_at (calls th) = Some t \<longrightarrow> has_ring os n \<and> t \<le> now) \<and>
     (\<forall>th wake. calls th = CnSleep wake \<longrightarrow> cn_shutdown n \<and>
        (\<forall>th' t. checked_at (calls th') = Some t \<longrightarrow> t + SHUTDOWN_SLEEP \<le> wake)) \<and>
     (\<forall>th. calls th = CnReset \<longrightarrow> cn_shutdown n \<and> (\<forall>th'. checked_at (calls th') = None))"

definition system_ok :: "cn_system \<Rightarrow> bool" where
  "system_ok s \<longleftrightarrow> ring_ok (cs_os s) \<and>
     (\<forall>p n. cs_notifier s p = Some n \<longrightarrow> calls_ok (cs_now s) (cs_os s) n (cs_calls s p)) \<and>
     (\<forall>p th. cs_notifier s p = None \<longrightarrow> cs_calls s p th = CnOut)"

lemma system_okD:
  assumes "system_ok s"
  shows "ring_ok (cs_os s)" "cs_notifier s p = Some n \<Longrightarrow> calls_ok (cs_now s) (cs_os s) n (cs_calls s p)"
    "cs_notifier s p = None \<Longrightarrow> cs_calls s p th = CnOut"
  using assms by (auto simp: system_ok_def)

lemma has_ring_mono: "has_ring os n \<Longrightarrow> length (ro_rings os) \<le> length (ro_rings os1) \<Longrightarrow> has_ring os1 n"
  by (auto simp: has_ring_def)

lemma calls_ok_mono:
  assumes "calls_ok now os n calls" "now \<le> now1" "length (ro_rings os) \<le> length (ro_rings os1)"
  shows "calls_ok now1 os1 n calls"
  using assms has_ring_mono [OF _ assms(3)] unfolding calls_ok_def cn_ok_def by (meson order_trans)

lemma ring_access_ok:
  assumes "has_ring os n"
  shows "\<exists>r os1. ring_access f n os = Some (r, os1) \<and> length (ro_rings os1) = length (ro_rings os) \<and>
    ro_named os1 = ro_named os"
  using assms by (auto simp: ring_access_def has_ring_def split: prod.split)

text \<open>A step of a call whose access, if any, succeeds and which stays behind its test.\<close>

lemma calls_ok_stay:
  assumes ok: "calls_ok now os n calls" and n1: "cn_shutdown n1 = cn_shutdown n" "cn_indicator n1 = cn_indicator n"
      "cn_managed n1 = cn_managed n"
    and len: "length (ro_rings os1) = length (ro_rings os)"
    and c: "checked_at c = None \<or> checked_at c = checked_at (calls th) \<or>
      checked_at c = Some now \<and> \<not> cn_shutdown n" "c \<noteq> CnReset" "\<And>w. c = CnSleep w \<Longrightarrow> calls th = CnSleep w"
  shows "calls_ok now os1 n1 (calls(th := c))"
proof -
  have r: "has_ring os1 n1 = has_ring os n" using n1 len by (simp add: has_ring_def)
  show ?thesis
    using ok c n1 unfolding calls_ok_def cn_ok_def r by (auto split: if_splits)
qed

lemma cn_turn_ok:
  assumes ok: "calls_ok now os n calls" and prompt: "\<And>th t. checked_at (calls th) = Some t \<Longrightarrow> now < t + SHUTDOWN_SLEEP"
  shows "\<exists>c n1 os1. cn_turn now (calls th) (n, os) = Some (c, n1, os1) \<and> calls_ok now os1 n1 (calls(th := c)) \<and>
    length (ro_rings os1) = length (ro_rings os) \<and> ro_named os1 = ro_named os"
proof -
  have acc: "\<exists>r os1. ring_access f n os = Some (r, os1) \<and> length (ro_rings os1) = length (ro_rings os) \<and>
      ro_named os1 = ro_named os" if "checked_at (calls th) = Some t" for f :: "indicator \<Rightarrow> 'r \<times> indicator" and t
    using ring_access_ok ok that unfolding calls_ok_def by blast
  note stay = calls_ok_stay [OF ok, where th = th]
  show ?thesis
  proof (cases "calls th")
    case (CnTake info t)
    then show ?thesis
      using acc [of t "\<lambda>ind. (ind_next_seq ind, ind\<lparr> ind_next_seq := ind_next_seq ind + 1 \<rparr>)"]
      by (auto intro!: stay)
  next
    case (CnStore info sn t)
    then show ?thesis
      using acc [of t "\<lambda>ind. ((), ind\<lparr> ind_infos := (ind_infos ind)
          (ring_slot sn := ReadableInfo_assign info (ind_infos ind (ring_slot sn))) \<rparr>)"]
      by (auto intro!: stay)
  next
    case (CnPublish sn t)
    then show ?thesis
      using acc [of t "\<lambda>ind. ((), ind\<lparr> ind_seqs := (ind_seqs ind)(ring_slot sn := sn) \<rparr>)"]
      by (auto intro!: stay)
  next
    case (CnLook timeout t)
    then obtain r os1 where "ring_access (\<lambda>ind. (ind_next_seq ind, ind)) n os = Some (r, os1)"
        "length (ro_rings os1) = length (ro_rings os)" "ro_named os1 = ro_named os"
      using acc [of t "\<lambda>ind. (ind_next_seq ind, ind)"] by auto
    then show ?thesis using CnLook by (cases "r = cn_next_seq n") (auto intro!: stay)
  next
    case (CnEntry timeout t)
    then obtain r os1 where "ring_access (\<lambda>ind. (ind_seqs ind (ring_slot (cn_next_seq n)), ind)) n os = Some (r, os1)"
        "length (ro_rings os1) = length (ro_rings os)" "ro_named os1 = ro_named os"
      using acc [of t "\<lambda>ind. (ind_seqs ind (ring_slot (cn_next_seq n)), ind)"] by auto
    then show ?thesis using CnEntry by (cases "cn_next_seq n \<le> r") (auto intro!: stay)
  next
    case (CnCopy t)
    then show ?thesis
      using acc [of t "\<lambda>ind. (ind_infos ind (ring_slot (cn_next_seq n)), ind)"] by (auto intro!: stay)
  next
    case CnShutdown
    show ?thesis
    proof (cases "cn_shutdown n")
      case True
      then show ?thesis using CnShutdown by (auto intro!: stay)
    next
      case False
      have "calls_ok now os (n\<lparr> cn_shutdown := True \<rparr>) (calls(th := CnSleep (now + SHUTDOWN_SLEEP)))"
        using ok False unfolding calls_ok_def cn_ok_def has_ring_def by (auto split: if_splits)
      then show ?thesis using CnShutdown False by simp
    qed
  next
    case (CnSleep wake)
    show ?thesis
    proof (cases "wake \<le> now")
      case True
      have "checked_at (calls th') = None" for th'
      proof (cases "checked_at (calls th')")
        case (Some t)
        then have "t + SHUTDOWN_SLEEP \<le> wake" using ok CnSleep unfolding calls_ok_def by blast
        then show ?thesis using prompt [OF Some] True by simp
      qed simp
      then have "calls_ok now os n (calls(th := CnReset))"
        using ok CnSleep unfolding calls_ok_def by (auto split: if_splits)
      then show ?thesis using CnSleep True by simp
    qed (use CnSleep in \<open>auto intro!: stay\<close>)
  next
    case CnReset
    then have "calls_ok now os (CN_Reset n) (calls(th := CnOut))"
      using ok unfolding calls_ok_def cn_ok_def by (auto simp: CN_Reset_def Let_def split: if_splits)
    then show ?thesis using CnReset by simp
  qed (auto intro!: stay)
qed

lemma cn_apply_ok:
  assumes ok: "system_ok s" and pr: "prompt s"
  shows "\<exists>s1. cn_apply a s = Some s1 \<and> system_ok s1"
proof (cases a)
  case (CnTime d)
  have "calls_ok (cs_now s + int d) (cs_os s) n (cs_calls s p)" if "cs_notifier s p = Some n" for p n
    using calls_ok_mono [OF system_okD(2) [OF ok that]] by simp
  then show ?thesis using CnTime ok by (auto simp: system_ok_def split: option.splits)
next
  case (CnConstruct flt p)
  show ?thesis
  proof (cases "cs_notifier s p")
    case None
    obtain n os1 where c: "CN_construct flt (cs_os s) = (n, os1)" by (cases "CN_construct flt (cs_os s)")
    note k = CN_construct_ok [OF system_okD(1) [OF ok] c]
    have "calls_ok (cs_now s) os1 n (cs_calls s p)"
      using k system_okD(3) [OF ok None] by (simp add: calls_ok_def)
    moreover have "calls_ok (cs_now s) os1 m (cs_calls s q)" if "cs_notifier s q = Some m" for q m
      using calls_ok_mono [OF system_okD(2) [OF ok that]] k by simp
    ultimately show ?thesis using CnConstruct None c k ok by (auto simp: system_ok_def split: option.splits)
  qed (use CnConstruct ok in auto)
next
  case (CnCall p th c)
  show ?thesis
  proof (cases "cs_notifier s p \<noteq> None \<and> cs_calls s p th = CnOut \<and> cn_begins c")
    case True
    then obtain n where n: "cs_notifier s p = Some n" by auto
    have "calls_ok (cs_now s) (cs_os s) n ((cs_calls s p)(th := c))"
      by (rule calls_ok_stay [OF system_okD(2) [OF ok n]]) (use True in \<open>cases c; auto\<close>)+
    then have "system_ok (set_call p th c s)"
      using ok n by (auto simp: system_ok_def set_call_def split: option.splits)
    then show ?thesis using CnCall True by simp
  qed (use CnCall ok in auto)
next
  case (CnTurn p th)
  show ?thesis
  proof (cases "cs_notifier s p")
    case (Some n)
    have "now < t + SHUTDOWN_SLEEP" if "checked_at (cs_calls s p th) = Some t" "now = cs_now s" for th t now
      using pr that by (simp add: prompt_def)
    then obtain c n1 os1 where t: "cn_turn (cs_now s) (cs_calls s p th) (n, cs_os s) = Some (c, n1, os1)"
        and k: "calls_ok (cs_now s) os1 n1 ((cs_calls s p)(th := c))"
        and l: "length (ro_rings os1) = length (ro_rings (cs_os s))" "ro_named os1 = ro_named (cs_os s)"
      using cn_turn_ok [OF system_okD(2) [OF ok Some], of th] by blast
    let ?s1 = "set_call p th c (s\<lparr> cs_notifier := (cs_notifier s)(p \<mapsto> n1), cs_os := os1 \<rparr>)"
    have "calls_ok (cs_now s) os1 m (cs_calls s q)" if "cs_notifier s q = Some m" for q m
      using calls_ok_mono [OF system_okD(2) [OF ok that]] l by simp
    then have "system_ok ?s1"
      using ok k l by (auto simp: system_ok_def set_call_def ring_ok_def split: option.splits)
    then show ?thesis using CnTurn Some t by simp
  qed (use CnTurn ok in auto)
qed

lemma cn_run_ok: "system_ok s \<Longrightarrow> prompt_run as s \<Longrightarrow> \<exists>s1. cn_run as s = Some s1 \<and> system_ok s1"
proof (induction as arbitrary: s)
  case (Cons a as)
  then show ?case using cn_apply_ok [of s a] by fastforce
qed simp

text \<open>C38: Whatever processes make, use and shut down notifiers, in every order of the steps of their
  threads and whatever system calls fail at the making: if no call ever takes 100 milliseconds from its
  test of the flag to its return, no call touches a ring that is not mapped, and every notifier that is not
  shut down has its ring mapped.\<close>

theorem notifier_mapped_or_shut:
  assumes "prompt_run acts cn_start"
  shows "\<exists>s. cn_run acts cn_start = Some s \<and>
    (\<forall>p n. cs_notifier s p = Some n \<longrightarrow> cn_shutdown n \<or>
       (\<exists>i. cn_indicator n = Some i \<and> cn_managed n = Mapped i \<and> i < length (ro_rings (cs_os s))))"
proof -
  have "system_ok cn_start" by (simp add: system_ok_def cn_start_def ring_ok_def ring_start_def)
  then obtain s where s: "cn_run acts cn_start = Some s" "system_ok s" using cn_run_ok assms by blast
  have "cn_shutdown n \<or> (\<exists>i. cn_indicator n = Some i \<and> cn_managed n = Mapped i \<and> i < length (ro_rings (cs_os s)))"
    if "cs_notifier s p = Some n" for p n
    using system_okD(2) [OF s(2) that] by (auto simp: calls_ok_def cn_ok_def has_ring_def)
  then show ?thesis using s(1) by blast
qed

text \<open>A notification, and a shutdown that begins during it.\<close>

definition demo_notice :: "cn_action list" where
  "demo_notice = [CnConstruct no_faults 0, CnCall 0 0 (CnNotify demo_info), CnTurn 0 0, CnCall 0 1 CnShutdown, CnTurn 0 1,
     CnTurn 0 0, CnTurn 0 0, CnTurn 0 0, CnTime 100000, CnTurn 0 1, CnTurn 0 1]"

lemma CN_construct_first:
  "CN_construct no_faults ring_start = (CN_declared\<lparr> cn_managed := Mapped 0, cn_indicator := Some 0 \<rparr>,
     \<lparr> ro_named = Some 0, ro_rings = [Indicator_construct] \<rparr>)"
  by (simp add: CN_construct_def CN_OpenOrCreate_def CN_shmget.simps ring_create_def no_faults_def CN_declared_def
      Indicator_construct_def ring_start_def)

lemmas demo_run_simps = set_call_def ring_access_def CN_declared_def cn_start_def SHUTDOWN_SLEEP_def CN_Reset_def
  Indicator_construct_def KBufLength_def

lemma CN_construct_started: "CN_construct no_faults (cs_os cn_start) = (CN_declared\<lparr> cn_managed := Mapped 0, cn_indicator := Some 0 \<rparr>,
     \<lparr> ro_named = Some 0, ro_rings = [Indicator_construct] \<rparr>)"
  using CN_construct_first by (simp add: cn_start_def)

theorem notifier_mapped_or_shut_witness:
  "\<exists>s n. cn_run demo_notice cn_start = Some s \<and> cs_notifier s 0 = Some n \<and> cn_shutdown n \<and> cn_managed n = Unmapped"
proof -
  have "prompt_run demo_notice cn_start"
    unfolding demo_notice_def using CN_construct_started by (simp add: prompt_def demo_run_simps)
  from notifier_mapped_or_shut [OF this] obtain s where s: "cn_run demo_notice cn_start = Some s" by blast
  then have "cs_notifier s 0 = Some (CN_declared\<lparr> cn_shutdown := True \<rparr>)"
    unfolding demo_notice_def using CN_construct_started by (auto simp: demo_run_simps)
  then show ?thesis using s by (auto simp: CN_declared_def)
qed

text \<open>A call that is held up for longer: after the test it uses the ring that \<open>Shutdown\<close> has unmapped.\<close>

lemma late_call_uses_unmapped_ring:
  "cn_run [CnConstruct no_faults 0, CnCall 0 0 (CnNotify demo_info), CnTurn 0 0, CnCall 0 1 CnShutdown, CnTurn 0 1,
     CnTime 100000, CnTurn 0 1, CnTurn 0 1, CnTurn 0 0] cn_start = None"
  using CN_construct_started by (simp add: demo_run_simps)

definition attach_fails :: faults where "attach_fails = no_faults\<lparr> fl_attach := True \<rparr>"

text \<open>A process that cannot attach the ring removes it for all: one that starts later makes a ring of its own,
  which is not the one the earlier processes use.\<close>

lemma failed_attach_splits:
  assumes "ring_ok os" "ro_named os = Some i" "CN_construct attach_fails os = (nq, os1)" "CN_construct no_faults os1 = (nr, os2)"
  shows "cn_shutdown nq \<and> \<not> cn_shutdown nr \<and> ro_named os2 = cn_indicator nr \<and> cn_indicator nr \<noteq> Some i"
proof -
  let ?osq = "os\<lparr> ro_named := None \<rparr>"
  have "i < length (ro_rings os)" using assms(1,2) by (simp add: ring_ok_def)
  moreover have q: "CN_construct attach_fails os = (CN_declared\<lparr> cn_managed := MapFailed, cn_shutdown := True \<rparr>, ?osq)"
    using assms(2) by (simp add: CN_construct_def CN_OpenOrCreate_def CN_shmget.simps CN_OpenOnly_def remove_id_def
        attach_fails_def no_faults_def CN_declared_def)
  moreover have "CN_construct no_faults ?osq =
      (CN_declared\<lparr> cn_managed := Mapped (length (ro_rings os)), cn_indicator := Some (length (ro_rings os)) \<rparr>,
       os\<lparr> ro_named := Some (length (ro_rings os)), ro_rings := ro_rings os @ [Indicator_construct] \<rparr>)"
    by (simp add: CN_construct_def CN_OpenOrCreate_def CN_shmget.simps ring_create_def no_faults_def CN_declared_def
        Indicator_construct_def)
  ultimately show ?thesis using assms(3,4) by (auto simp: CN_declared_def)
qed

section \<open>Readable infos as bytes\<close>

definition ri_ksize :: nat where "ri_ksize = 8 * 2 + 4"

definition ReadableInfo_SerializeTo :: "ByteOrder \<Rightarrow> ReadableInfo \<Rightarrow> u8 list" where
  "ReadableInfo_SerializeTo bo r =
     mem_bytes bo 8 (unat (ri_host_id r)) @ mem_bytes bo 4 (unat (ri_block_index r)) @ mem_bytes bo 8 (unat (ri_channel_id r))"

text \<open>The result is returned before anything is read; a short source is only logged.\<close>

definition ReadableInfo_DeserializeFrom :: "u8 list \<Rightarrow> ReadableInfo \<Rightarrow> bool \<times> ReadableInfo" where
  "ReadableInfo_DeserializeFrom src r = (False, r)"

section \<open>The multicast notifier\<close>

text \<open>A socket address of the internet family: address and port.\<close>

record multicast_notifier =
  mc_notify_fd :: int
  mc_notify_addr :: "(string \<times> nat) option"
  mc_listen_fd :: int
  mc_listen_addr :: "(string \<times> nat) option"
  mc_shutdown :: bool

text \<open>The descriptors that are open in the process, and which calls fail.\<close>

record mc_faults =
  mf_notify_socket :: bool
  mf_listen_socket :: bool
  mf_fcntl :: bool
  mf_reuse :: bool
  mf_bind :: bool
  mf_loop :: bool
  mf_membership :: bool

definition new_fd :: "int list \<Rightarrow> int" where
  "new_fd fds = (if fds = [] then 3 else Max (set fds) + 1)"

definition MC_declared :: multicast_notifier where
  "MC_declared = \<lparr> mc_notify_fd = - 1, mc_notify_addr = None, mc_listen_fd = - 1, mc_listen_addr = None, mc_shutdown = False \<rparr>"

definition MC_socket :: "bool \<Rightarrow> int list \<Rightarrow> int \<times> int list" where
  "MC_socket fails fds = (if fails then (- 1, fds) else (new_fd fds, new_fd fds # fds))"

definition MC_Init :: "mc_faults \<Rightarrow> multicast_notifier \<times> int list \<Rightarrow> bool \<times> multicast_notifier \<times> int list" where
  "MC_Init flt = (\<lambda>(n, fds).
     let (fd, fds1) = MC_socket (mf_notify_socket flt) fds; n1 = n\<lparr> mc_notify_fd := fd \<rparr>
     in if mc_notify_fd n1 = - 1 then (False, n1, fds1)
        else
          (let n2 = n1\<lparr> mc_notify_addr := Some (''239.255.0.100'', 8888) \<rparr>;
               (fd2, fds2) = MC_socket (mf_listen_socket flt) fds1; n3 = n2\<lparr> mc_listen_fd := fd2 \<rparr>
           in if mc_listen_fd n3 = - 1 then (False, n3, fds2)
              else if mf_fcntl flt then (False, n3, fds2)
              else
                (let n4 = n3\<lparr> mc_listen_addr := Some (''0.0.0.0'', 8888) \<rparr>
                 in if mf_reuse flt then (False, n4, fds2)
                    else if mf_bind flt then (False, n4, fds2)
                    else if mf_loop flt then (False, n4, fds2)
                    else if mf_membership flt then (False, n4, fds2)
                    else (True, n4, fds2))))"

definition MC_Shutdown :: "multicast_notifier \<times> int list \<Rightarrow> multicast_notifier \<times> int list" where
  "MC_Shutdown = (\<lambda>(n, fds).
     if mc_shutdown n then (n, fds)
     else
       (let n1 = n\<lparr> mc_shutdown := True \<rparr>;
            (n2, fds2) = (if mc_notify_fd n1 \<noteq> - 1 then (n1\<lparr> mc_notify_fd := - 1 \<rparr>, remove1 (mc_notify_fd n1) fds) else (n1, fds));
            n3 = n2\<lparr> mc_notify_addr := None \<rparr>;
            (n4, fds4) = (if mc_listen_fd n3 \<noteq> - 1 then (n3\<lparr> mc_listen_fd := - 1 \<rparr>, remove1 (mc_listen_fd n3) fds2) else (n3, fds2))
        in (n4\<lparr> mc_listen_addr := None \<rparr>, fds4)))"

definition MC_construct :: "mc_faults \<Rightarrow> int list \<Rightarrow> multicast_notifier \<times> int list" where
  "MC_construct flt fds =
     (case MC_Init flt (MC_declared, fds) of
        (False, st) \<Rightarrow> MC_Shutdown st
      | (True, st) \<Rightarrow> st)"

text \<open>\<open>sendto\<close> gives the number of bytes it sent from the descriptor to the address.\<close>

definition MC_Notify :: "ByteOrder \<Rightarrow> (int \<Rightarrow> u8 list \<Rightarrow> (string \<times> nat) option \<Rightarrow> int) \<Rightarrow> ReadableInfo \<Rightarrow> multicast_notifier \<Rightarrow> bool" where
  "MC_Notify bo sendto info n =
     (if mc_shutdown n then False else 0 < sendto (mc_notify_fd n) (ReadableInfo_SerializeTo bo info) (mc_notify_addr n))"

text \<open>\<open>poll\<close> gives the number of descriptors that are ready; \<open>recvfrom\<close> at most 32 bytes, or it fails.\<close>

definition MC_Listen :: "(int \<Rightarrow> int \<Rightarrow> int) \<Rightarrow> (int \<Rightarrow> u8 list option) \<Rightarrow> int \<Rightarrow> ReadableInfo \<Rightarrow> multicast_notifier \<Rightarrow> bool \<times> ReadableInfo" where
  "MC_Listen poll recvfrom timeout_ms info n =
     (if mc_shutdown n then (False, info)
      else if poll (mc_listen_fd n) timeout_ms > 0
      then (case recvfrom (mc_listen_fd n) of
              None \<Rightarrow> (False, info)
            | Some buf \<Rightarrow> ReadableInfo_DeserializeFrom (take 32 buf) info)
      else (False, info))"

datatype notifier_kind = ConditionKind | MulticastKind

definition ConditionNotifier_Type :: string where "ConditionNotifier_Type = ''contion''"
definition MulticastNotifier_Type :: string where "MulticastNotifier_Type = ''multicast''"

definition CreateNotifier :: notifier_kind where
  "CreateNotifier =
     (let notifier_type = ConditionNotifier_Type
      in if notifier_type = MulticastNotifier_Type then MulticastKind
         else if notifier_type = ConditionNotifier_Type then ConditionKind
         else ConditionKind)"

lemma new_fd_fresh: "new_fd fds \<notin> set fds"
proof
  assume m: "new_fd fds \<in> set fds"
  then have "new_fd fds \<le> Max (set fds)" by simp
  moreover have "fds \<noteq> []" using m by auto
  ultimately show False by (simp add: new_fd_def)
qed

lemma new_fd_pos: "\<forall>x \<in> set fds. 0 \<le> x \<Longrightarrow> 0 \<le> new_fd fds"
proof (cases fds)
  case (Cons x xs)
  assume "\<forall>x \<in> set fds. 0 \<le> x"
  then have "0 \<le> x" "x \<le> Max (set fds)" using Cons by simp_all
  then have "0 \<le> Max (set fds)" by linarith
  then show ?thesis using Cons by (simp only: new_fd_def list.distinct if_False)
qed (simp add: new_fd_def)

text \<open>C39: However many of the system calls fail, the constructor leaves a notifier with two open sockets of its own, or one
  that is shut down and leaves no socket open that was not before.  Either way it never hears anything: whatever arrives,
  \<open>Listen\<close> answers false and leaves the info as it was, because reading an info always does.\<close>

theorem multicast_deaf_no_leak:
  assumes fds: "\<forall>x \<in> set fds. 0 \<le> x" and c: "MC_construct flt fds = (n, fds1)"
  shows "(if mc_shutdown n then fds1 = fds \<and> mc_notify_fd n = - 1 \<and> mc_listen_fd n = - 1
    else fds1 = mc_listen_fd n # mc_notify_fd n # fds \<and> mc_notify_fd n \<notin> set fds \<and>
      mc_listen_fd n \<notin> set (mc_notify_fd n # fds) \<and> mc_notify_addr n = Some (''239.255.0.100'', 8888)) \<and>
    MC_Listen poll recvfrom timeout_ms info n = (False, info)"
proof (rule conjI)
  let ?a = "new_fd fds" let ?b = "new_fd (?a # fds)"
  have "0 \<le> ?a" using fds by (rule new_fd_pos)
  moreover have "0 \<le> ?b" using fds calculation by (intro new_fd_pos) simp
  ultimately have p: "?a \<noteq> - 1" "?b \<noteq> - 1" by simp_all
  have f: "?b \<noteq> ?a" "?b \<notin> set fds" "?a \<notin> set fds" using new_fd_fresh [of fds] new_fd_fresh [of "?a # fds"] by auto
  show "if mc_shutdown n then fds1 = fds \<and> mc_notify_fd n = - 1 \<and> mc_listen_fd n = - 1
    else fds1 = mc_listen_fd n # mc_notify_fd n # fds \<and> mc_notify_fd n \<notin> set fds \<and>
      mc_listen_fd n \<notin> set (mc_notify_fd n # fds) \<and> mc_notify_addr n = Some (''239.255.0.100'', 8888)"
    using c p f
    by (auto simp: MC_construct_def MC_Init_def MC_socket_def MC_Shutdown_def MC_declared_def Let_def split: if_splits)
  show "MC_Listen poll recvfrom timeout_ms info n = (False, info)"
    by (simp add: MC_Listen_def ReadableInfo_DeserializeFrom_def split: option.split)
qed

theorem multicast_deaf_no_leak_witness:
  "snd (MC_construct \<lparr> mf_notify_socket = False, mf_listen_socket = False, mf_fcntl = False, mf_reuse = False, mf_bind = True,
      mf_loop = False, mf_membership = False \<rparr> [0, 1, 2]) = [0, 1, 2] \<and>
   MC_Listen (\<lambda>_ _. 1) (\<lambda>_. Some (replicate 20 7)) 100 ReadableInfo_construct
     (fst (MC_construct \<lparr> mf_notify_socket = False, mf_listen_socket = False, mf_fcntl = False, mf_reuse = False, mf_bind = False,
       mf_loop = False, mf_membership = False \<rparr> [0, 1, 2])) = (False, ReadableInfo_construct)"
proof -
  let ?bad = "\<lparr> mf_notify_socket = False, mf_listen_socket = False, mf_fcntl = False, mf_reuse = False, mf_bind = True,
      mf_loop = False, mf_membership = False \<rparr>"
  let ?good = "\<lparr> mf_notify_socket = False, mf_listen_socket = False, mf_fcntl = False, mf_reuse = False, mf_bind = False,
      mf_loop = False, mf_membership = False \<rparr>"
  have s: "mc_shutdown (fst (MC_construct ?bad [0, 1, 2]))" by code_simp
  note d = multicast_deaf_no_leak [of "[0, 1, 2]" _ "fst (MC_construct _ [0, 1, 2])" "snd (MC_construct _ [0, 1, 2])"]
  have "snd (MC_construct ?bad [0, 1, 2]) = [0, 1, 2]"
    using d [of ?bad ?bad ?bad] s by simp
  moreover have "MC_Listen (\<lambda>_ _. 1) (\<lambda>_. Some (replicate 20 7)) 100 ReadableInfo_construct (fst (MC_construct ?good [0, 1, 2])) =
      (False, ReadableInfo_construct)"
    using d [of ?good ?good ?good] by simp
  ultimately show ?thesis by simp
qed

end
