(* ===== verification/Tasks.thy ===== *)
theory Tasks
  imports BoundedQueue Scheduling "HOL-Library.Monad_Syntax"
begin

text \<open>
  The task manager (task/task_manager.h/.cpp, task/task.h): a pool of coroutines that run the tasks of a bounded queue,
  and the waiting calls a task can make.
\<close>

section \<open>The pool\<close>

record 'a task_manager =
  tk_num_threads :: u32
  tk_task_queue_size :: u32
  tk_stop :: bool
  tk_tasks :: "u64 list"
  tk_queue :: "'a bounded_queue"

text \<open>The bytes of \<open>/internal/task\<close>.\<close>

definition task_prefix :: "u8 list" where
  "task_prefix = [47, 105, 110, 116, 101, 114, 110, 97, 108, 47, 116, 97, 115, 107]"

definition task_name :: "nat \<Rightarrow> u8 list" where "task_name i = task_prefix @ to_string (int i)"

definition TaskPoolSize :: "scheduler \<Rightarrow> u32" where "TaskPoolSize s = task_pool_size s"

text \<open>The loop that makes the coroutines; a task that could not be made is only logged.\<close>

primrec create_tasks ::
  "(u8 list \<Rightarrow> u64) \<Rightarrow> int \<Rightarrow> nat list \<Rightarrow> u64 list \<times> scheduler \<Rightarrow> (u64 list \<times> scheduler) option" where
  "create_tasks Hash now [] st = Some st"
| "create_tasks Hash now (i # is) st =
     do {
       (task_id, g) \<leftarrow> RegisterTaskName Hash (task_name i) (registers (snd st));
       (_, s1) \<leftarrow> CreateTask Hash now (task_name i) None ((snd st)\<lparr> registers := g \<rparr>);
       create_tasks Hash now is (fst st @ [task_id], s1)
     }"

text \<open>\<open>Some None\<close> is the exception when the queue cannot be made.\<close>

definition TaskManager_construct ::
  "(u64 \<Rightarrow> bool) \<Rightarrow> 'a \<Rightarrow> (u8 list \<Rightarrow> u64) \<Rightarrow> int \<Rightarrow> scheduler \<Rightarrow> ('a task_manager option \<times> scheduler) option" where
  "TaskManager_construct alloc dflt Hash now s =
     (case bq_Init alloc dflt 1000 bq_construct of
        (False, _) \<Rightarrow> Some (None, s)
      | (True, q) \<Rightarrow>
          do {
            (ids, s1) \<leftarrow> create_tasks Hash now [0..<unat (TaskPoolSize s)] ([], s);
            Some (Some \<lparr> tk_num_threads = TaskPoolSize s, tk_task_queue_size = 1000, tk_stop = False, tk_tasks = ids, tk_queue = q \<rparr>, s1)
          })"

primrec remove_tasks :: "(u8 list \<Rightarrow> u64) \<Rightarrow> nat list \<Rightarrow> scheduler \<Rightarrow> scheduler option" where
  "remove_tasks Hash [] s = Some s"
| "remove_tasks Hash (i # is) s = do { (_, s1) \<leftarrow> RemoveTask Hash (task_name i) s; remove_tasks Hash is s1 }"

definition TaskManager_Shutdown :: "(u8 list \<Rightarrow> u64) \<Rightarrow> 'a task_manager \<times> scheduler \<Rightarrow> ('a task_manager \<times> scheduler) option" where
  "TaskManager_Shutdown Hash = (\<lambda>(tm, s).
     if tk_stop tm then Some (tm, s)
     else do { s1 \<leftarrow> remove_tasks Hash [0..<unat (tk_num_threads tm)] s; Some (tm\<lparr> tk_stop := True \<rparr>, s1) })"

text \<open>Whether the queue took the task is not looked at.\<close>

definition TaskManager_Enqueue :: "'a \<Rightarrow> 'a task_manager \<times> scheduler \<Rightarrow> 'a task_manager \<times> scheduler" where
  "TaskManager_Enqueue new_task = (\<lambda>(tm, s).
     if tk_stop tm then (tm, s)
     else (tm\<lparr> tk_queue := snd (bq_Enqueue new_task (tk_queue tm)) \<rparr>, fold (\<lambda>task s1. snd (NotifyTask task s1)) (tk_tasks tm) s))"

section \<open>The coroutines\<close>

text \<open>A coroutine of the pool from its entry to its first switch to the main stack: \<open>CRoutineEntry\<close> runs
  the body, the loop, and after it yields with \<open>FINISHED\<close>.  \<open>env i\<close> is what the \<open>i\<close>-th turn finds: the
  flag \<open>stop_\<close> and what \<open>Dequeue\<close> gives.  The tasks that ran are listed; they are taken not to wait
  themselves.  \<open>HangUp\<close> gives back a coroutine, not a switch: the loop goes on with \<open>continue\<close>.\<close>

partial_function (option) task_loop ::
  "(nat \<Rightarrow> bool \<times> 'a option) \<Rightarrow> nat \<Rightarrow> croutine \<Rightarrow> 'a list \<Rightarrow> (switched \<times> 'a list) option" where
  [code]: "task_loop env i r ran0 =
     (if fst (env i) then Some (Yield_state FINISHED r, ran0)
      else if snd (env i) = None then task_loop env (Suc i) (HangUp r) ran0
      else task_loop env (Suc i) r (ran0 @ [the (snd (env i))]))"

section \<open>Waiting\<close>

text \<open>The calls of task.h for the current coroutine, if there is one; otherwise the thread waits.\<close>

definition task_Yield :: "croutine option \<Rightarrow> switched option" where
  "task_Yield routine = (case routine of Some r \<Rightarrow> Some (Yield r) | None \<Rightarrow> None)"

definition task_SleepFor :: "int \<Rightarrow> int \<Rightarrow> croutine option \<Rightarrow> switched option" where
  "task_SleepFor now sleep_us routine = (case routine of None \<Rightarrow> None | Some r \<Rightarrow> Some (Sleep now sleep_us r))"

definition task_USleep :: "int \<Rightarrow> u32 \<Rightarrow> croutine option \<Rightarrow> switched option" where
  "task_USleep now usec routine = (case routine of None \<Rightarrow> None | Some r \<Rightarrow> Some (Sleep now (uint usec) r))"

section \<open>A worker never rests\<close>

definition tasks_given :: "(nat \<Rightarrow> bool \<times> 'a option) \<Rightarrow> nat list \<Rightarrow> 'a list" where
  "tasks_given env is = map (\<lambda>i. the (snd (env i))) (filter (\<lambda>i. snd (env i) \<noteq> None) is)"

definition finished :: "croutine \<Rightarrow> switched" where
  "finished r = Switched (r\<lparr> cr_state := FINISHED \<rparr>)"

lemma finished_simps [simp]: "Yield_state FINISHED r = finished r" "finished (HangUp r) = finished r"
  by (simp_all add: finished_def Yield_state_def set_state_def HangUp_def)

lemma task_loop_until:
  assumes "fst (env (i + n))" "\<forall>k \<in> set [i..<i + n]. \<not> fst (env k)"
  shows "task_loop env i r ran0 = Some (finished r, ran0 @ tasks_given env [i..<i + n])"
  using assms
proof (induction n arbitrary: i r ran0)
  case 0
  then show ?case by (subst task_loop.simps) (simp add: tasks_given_def)
next
  case (Suc n)
  have u: "[i..<i + Suc n] = i # [Suc i..<Suc i + n]" by (simp add: upt_conv_Cons del: upt_Suc)
  have s: "\<not> fst (env i)" "fst (env (Suc i + n))" "\<forall>k \<in> set [Suc i..<Suc i + n]. \<not> fst (env k)"
    using Suc.prems unfolding u by simp_all
  note IH = Suc.IH [OF s(2,3)]
  show ?case
  proof (cases "snd (env i)")
    case None
    then have "task_loop env i r ran0 = task_loop env (Suc i) (HangUp r) ran0" using s by (subst task_loop.simps) simp
    then show ?thesis unfolding IH u using None by (simp add: tasks_given_def del: upt_Suc)
  next
    case (Some t)
    then have "task_loop env i r ran0 = task_loop env (Suc i) r (ran0 @ [t])" using s by (subst task_loop.simps) simp
    then show ?thesis unfolding IH u using Some by (simp add: tasks_given_def del: upt_Suc)
  qed
qed

lemma task_loop_stopped:
  assumes "task_loop env i r ran0 = Some y"
  shows "\<exists>k \<ge> i. fst (env k)"
proof (rule task_loop.raw_induct [OF _ assms])
  fix tl and env :: "nat \<Rightarrow> bool \<times> 'a option" and i r ran0 y
  assume IH: "\<And>env i r ran0 y. tl env i r ran0 = Some y \<Longrightarrow> \<exists>k \<ge> i. fst (env k)"
    and y: "(if fst (env i) then Some (Yield_state FINISHED r, ran0)
      else if snd (env i) = None then tl env (Suc i) (HangUp r) ran0
      else tl env (Suc i) r (ran0 @ [the (snd (env i))])) = Some y"
  show "\<exists>k \<ge> i. fst (env k)"
  proof (cases "fst (env i)")
    case False
    then have "\<exists>k \<ge> Suc i. fst (env k)" using y IH by (cases "snd (env i) = None") auto
    then show ?thesis using Suc_leD by blast
  qed auto
qed

text \<open>C37: A coroutine of the pool whose tasks do not wait switches to the main stack once, when the
  manager is stopped, and then as \<open>FINISHED\<close>: it gets there exactly when some turn finds \<open>stop_\<close> set, having
  run, in order, every task it was given before, and no other.  A turn without a task does not switch (the
  state that \<open>HangUp\<close> sets is seen by nobody); if the manager is never stopped the coroutine keeps its processor
  for ever.\<close>

theorem task_worker_spins:
  "task_loop env 0 r ran0 =
    (if \<exists>i. fst (env i)
     then Some (Switched (r\<lparr> cr_state := FINISHED \<rparr>), ran0 @ tasks_given env [0..<(LEAST i. fst (env i))])
     else None)"
proof (cases "\<exists>i. fst (env i)")
  case True
  define n where "n = (LEAST i. fst (env i))"
  have "fst (env n)" unfolding n_def using True by (rule LeastI_ex)
  moreover have "\<forall>k \<in> set [0..<n]. \<not> fst (env k)" unfolding n_def using not_less_Least by fastforce
  ultimately have "task_loop env 0 r ran0 = Some (finished r, ran0 @ tasks_given env [0..<n])"
    using task_loop_until [of env 0 n r ran0] by (simp only: add_0)
  then show ?thesis using True by (simp only: if_True n_def finished_def)
next
  case False
  then show ?thesis using task_loop_stopped [of env 0 r ran0] by (cases "task_loop env 0 r ran0") auto
qed

text \<open>The queue of a manager that runs takes a task unless it is full; otherwise the task is gone, and its future with it.\<close>

lemma enqueue_takes:
  assumes "bq_inv (Suc n) (tk_queue tm)"
  shows "bq_items (tk_queue (fst (TaskManager_Enqueue t (tm, s)))) =
    (if tk_stop tm \<or> bq_full (tk_queue tm) then bq_items (tk_queue tm) else bq_items (tk_queue tm) @ [t])"
  using bq.enq_accept [OF assms] bq.enq_refuse [OF assms] by (auto simp: TaskManager_Enqueue_def)

end
