(* ===== verification/ConfParse.thy ===== *)
theory ConfParse
  imports Tasks
begin

text \<open>
  Reading the configuration (config/conf_parse.cpp, config/rcmw_conf.h) and making the scheduler from it
  (scheduler/scheduler_factory.cpp).  The JSON library is an argument: a document is of a type \<open>'j\<close> the library gives
  access to, \<open>None\<close> is an exception it throws.
\<close>

section \<open>From JSON\<close>

record 'j json_lib =
  js_contains :: "'j \<Rightarrow> string \<Rightarrow> bool"
  js_at :: "'j \<Rightarrow> string \<Rightarrow> 'j option"
  js_string :: "'j \<Rightarrow> u8 list option"
  js_u32 :: "'j \<Rightarrow> u32 option"
  js_i32 :: "'j \<Rightarrow> i32 option"
  js_array :: "'j \<Rightarrow> 'j list option"

text \<open>\<open>if (j.contains(key)) j.at(key).get_to(field)\<close>.\<close>

definition get_to :: "'j json_lib \<Rightarrow> 'j \<Rightarrow> string \<Rightarrow> ('j \<Rightarrow> 'v option) \<Rightarrow> ('v \<Rightarrow> 'r \<Rightarrow> 'r) \<Rightarrow> 'r \<Rightarrow> 'r option" where
  "get_to lib j key rd upd x =
     (if js_contains lib j key then do { v \<leftarrow> js_at lib j key; y \<leftarrow> rd v; Some (upd y x) } else Some x)"

text \<open>\<open>get<std::vector<T>>\<close>: each element is made and then filled.\<close>

definition get_vector :: "'j json_lib \<Rightarrow> ('j \<Rightarrow> 'r \<Rightarrow> 'r option) \<Rightarrow> 'r \<Rightarrow> 'j \<Rightarrow> 'r list option" where
  "get_vector lib fill fresh j = do { js \<leftarrow> js_array lib j; those (map (\<lambda>e. fill e fresh) js) }"

definition InnerThread_construct :: InnerThread where
  "InnerThread_construct = \<lparr> it_name = [], it_cpuset = [], it_policy = [], it_prio = 0 \<rparr>"

definition ClassicTask_construct :: ClassicTask where
  "ClassicTask_construct = \<lparr> ct_name = [], ct_prio = 0, ct_group_name = [] \<rparr>"

definition SchedGroup_construct :: SchedGroup where
  "SchedGroup_construct = \<lparr> sg_name = [], sg_processor_num = 0, sg_affinity = [], sg_cpuset = [], sg_processor_policy = [],
     sg_processor_prio = 0, sg_tasks = [] \<rparr>"

definition SchedulerConf_construct :: SchedulerConf where
  "SchedulerConf_construct = \<lparr> sc_policy = [], sc_routine_num = 0, sc_default_proc_num = 0, sc_process_level_cpuset = [],
     sc_threads = [], sc_classic_groups = [] \<rparr>"

definition from_json_InnerThread :: "'j json_lib \<Rightarrow> 'j \<Rightarrow> InnerThread \<Rightarrow> InnerThread option" where
  "from_json_InnerThread lib j t =
     do {
       t1 \<leftarrow> get_to lib j ''name'' (js_string lib) (\<lambda>v x. x\<lparr> it_name := v \<rparr>) t;
       t2 \<leftarrow> get_to lib j ''cpuset'' (js_string lib) (\<lambda>v x. x\<lparr> it_cpuset := v \<rparr>) t1;
       t3 \<leftarrow> get_to lib j ''policy'' (js_string lib) (\<lambda>v x. x\<lparr> it_policy := v \<rparr>) t2;
       get_to lib j ''prio'' (js_u32 lib) (\<lambda>v x. x\<lparr> it_prio := v \<rparr>) t3
     }"

definition from_json_ClassicTask :: "'j json_lib \<Rightarrow> 'j \<Rightarrow> ClassicTask \<Rightarrow> ClassicTask option" where
  "from_json_ClassicTask lib j t =
     do {
       t1 \<leftarrow> get_to lib j ''name'' (js_string lib) (\<lambda>v x. x\<lparr> ct_name := v \<rparr>) t;
       t2 \<leftarrow> get_to lib j ''prio'' (js_u32 lib) (\<lambda>v x. x\<lparr> ct_prio := v \<rparr>) t1;
       get_to lib j ''group_name'' (js_string lib) (\<lambda>v x. x\<lparr> ct_group_name := v \<rparr>) t2
     }"

definition from_json_SchedGroup :: "'j json_lib \<Rightarrow> 'j \<Rightarrow> SchedGroup \<Rightarrow> SchedGroup option" where
  "from_json_SchedGroup lib j g =
     do {
       g1 \<leftarrow> get_to lib j ''name'' (js_string lib) (\<lambda>v x. x\<lparr> sg_name := v \<rparr>) g;
       g2 \<leftarrow> get_to lib j ''processor_num'' (js_u32 lib) (\<lambda>v x. x\<lparr> sg_processor_num := v \<rparr>) g1;
       g3 \<leftarrow> get_to lib j ''affinity'' (js_string lib) (\<lambda>v x. x\<lparr> sg_affinity := v \<rparr>) g2;
       g4 \<leftarrow> get_to lib j ''cpuset'' (js_string lib) (\<lambda>v x. x\<lparr> sg_cpuset := v \<rparr>) g3;
       g5 \<leftarrow> get_to lib j ''processor_policy'' (js_string lib) (\<lambda>v x. x\<lparr> sg_processor_policy := v \<rparr>) g4;
       g6 \<leftarrow> get_to lib j ''processor_prio'' (js_i32 lib) (\<lambda>v x. x\<lparr> sg_processor_prio := v \<rparr>) g5;
       get_to lib j ''tasks'' (get_vector lib (from_json_ClassicTask lib) ClassicTask_construct) (\<lambda>v x. x\<lparr> sg_tasks := v \<rparr>) g6
     }"

text \<open>\<open>ClassicConf\<close> has only its groups.\<close>

definition from_json_ClassicConf :: "'j json_lib \<Rightarrow> 'j \<Rightarrow> SchedGroup list \<Rightarrow> SchedGroup list option" where
  "from_json_ClassicConf lib j gs =
     get_to lib j ''groups'' (get_vector lib (from_json_SchedGroup lib) SchedGroup_construct) (\<lambda>v _. v) gs"

definition from_json_SchedulerConf :: "'j json_lib \<Rightarrow> 'j \<Rightarrow> SchedulerConf \<Rightarrow> SchedulerConf option" where
  "from_json_SchedulerConf lib j c =
     do {
       c1 \<leftarrow> get_to lib j ''policy'' (js_string lib) (\<lambda>v x. x\<lparr> sc_policy := v \<rparr>) c;
       c2 \<leftarrow> get_to lib j ''routine_num'' (js_u32 lib) (\<lambda>v x. x\<lparr> sc_routine_num := v \<rparr>) c1;
       c3 \<leftarrow> get_to lib j ''default_proc_num'' (js_u32 lib) (\<lambda>v x. x\<lparr> sc_default_proc_num := v \<rparr>) c2;
       c4 \<leftarrow> get_to lib j ''process_level_cpuset'' (js_string lib) (\<lambda>v x. x\<lparr> sc_process_level_cpuset := v \<rparr>) c3;
       c5 \<leftarrow> get_to lib j ''threads'' (get_vector lib (from_json_InnerThread lib) InnerThread_construct) (\<lambda>v x. x\<lparr> sc_threads := v \<rparr>) c4;
       get_to lib j ''classic_conf'' (\<lambda>v. from_json_ClassicConf lib v []) (\<lambda>v x. x\<lparr> sc_classic_groups := v \<rparr>) c5
     }"

text \<open>Of \<open>RcmwConfig\<close> only the part of the scheduler is read; \<open>get_to\<close> fills the one it is given.\<close>

definition from_json_RcmwConfig :: "'j json_lib \<Rightarrow> 'j \<Rightarrow> SchedulerConf \<Rightarrow> SchedulerConf option" where
  "from_json_RcmwConfig lib j c =
     get_to lib j ''scheduler_conf'' (\<lambda>v. from_json_SchedulerConf lib v c) (\<lambda>v _. v) c"

text \<open>\<open>read_file\<close> gives the bytes of a file that can be opened, \<open>parse\<close> the document; \<open>config\<close> is what the pointer
  shows, \<open>None\<close> the null pointer.\<close>

definition GetRcmwConfFromFile ::
  "'j json_lib \<Rightarrow> (string \<Rightarrow> u8 list option) \<Rightarrow> (u8 list \<Rightarrow> 'j option) \<Rightarrow> string \<Rightarrow> SchedulerConf option
     \<Rightarrow> (bool \<times> SchedulerConf option) option" where
  "GetRcmwConfFromFile lib read_file parse file_path config =
     (case config of
        None \<Rightarrow> Some (False, None)
      | Some old \<Rightarrow>
          (case read_file file_path of
             None \<Rightarrow> Some (False, Some old)
           | Some text \<Rightarrow> do { j \<leftarrow> parse text; c \<leftarrow> from_json_RcmwConfig lib j SchedulerConf_construct; Some (True, Some c) }))"

section \<open>The factory\<close>

text \<open>A file is used when it exists, can be opened and is read; \<open>Some None\<close>: it is not used.\<close>

definition used_conf ::
  "'j json_lib \<Rightarrow> (string \<Rightarrow> bool) \<Rightarrow> (string \<Rightarrow> u8 list option) \<Rightarrow> (u8 list \<Rightarrow> 'j option) \<Rightarrow> string \<Rightarrow> SchedulerConf option option" where
  "used_conf lib path_exist read_file parse p =
     (if \<not> path_exist p then Some None
      else do {
        (ok, c) \<leftarrow> GetRcmwConfFromFile lib read_file parse p (Some SchedulerConf_construct);
        Some (if ok then c else None)
      })"

definition conf_path :: "string \<Rightarrow> string" where "conf_path process_group = ''conf/'' @ process_group @ ''.conf''"

text \<open>\<open>new SchedulerClassic()\<close> reads the file under the work root itself.\<close>

definition new_SchedulerClassic ::
  "'j json_lib \<Rightarrow> (string \<Rightarrow> bool) \<Rightarrow> (string \<Rightarrow> u8 list option) \<Rightarrow> (u8 list \<Rightarrow> 'j option) \<Rightarrow> string \<Rightarrow> string \<Rightarrow> u32
     \<Rightarrow> u8 name_registers \<Rightarrow> scheduler option" where
  "new_SchedulerClassic lib path_exist read_file parse work_root process_group default_proc_num g =
     do {
       cfg \<leftarrow> used_conf lib path_exist read_file parse (GetAbsolutePath work_root (conf_path process_group));
       SchedulerClassic_construct cfg default_proc_num g
     }"

text \<open>The bytes of \<open>classic\<close> and \<open>choreography\<close>.\<close>

definition policy_classic :: "u8 list" where "policy_classic = [99, 108, 97, 115, 115, 105, 99]"

definition policy_choreography :: "u8 list" where
  "policy_choreography = [99, 104, 111, 114, 101, 111, 103, 114, 97, 112, 104, 121]"

definition Scheduler_Instance ::
  "'j json_lib \<Rightarrow> (string \<Rightarrow> bool) \<Rightarrow> (string \<Rightarrow> u8 list option) \<Rightarrow> (u8 list \<Rightarrow> 'j option) \<Rightarrow> string \<Rightarrow> string \<Rightarrow> u32
     \<Rightarrow> u8 name_registers \<Rightarrow> scheduler option \<Rightarrow> scheduler option" where
  "Scheduler_Instance lib path_exist read_file parse work_root process_group default_proc_num g obj =
     (case obj of
        Some s \<Rightarrow> Some s
      | None \<Rightarrow>
          do {
            let config_file = conf_path process_group;
            here \<leftarrow> used_conf lib path_exist read_file parse config_file;
            policy \<leftarrow> (case here of
              Some config \<Rightarrow> Some (sc_policy config)
            | None \<Rightarrow> do {
                rooted \<leftarrow> used_conf lib path_exist read_file parse (GetAbsolutePath work_root config_file);
                Some (case rooted of Some config \<Rightarrow> sc_policy config | None \<Rightarrow> policy_classic)
              });
            if policy = policy_classic then new_SchedulerClassic lib path_exist read_file parse work_root process_group default_proc_num g
            else if policy = policy_choreography
            then new_SchedulerClassic lib path_exist read_file parse work_root process_group default_proc_num g
            else new_SchedulerClassic lib path_exist read_file parse work_root process_group default_proc_num g
          })"

definition Scheduler_CleanUp :: "scheduler option \<Rightarrow> scheduler option option" where
  "Scheduler_CleanUp obj =
     (case obj of None \<Rightarrow> Some None | Some s \<Rightarrow> map_option Some (Scheduler_Shutdown s))"

section \<open>What is read\<close>

lemma get_to_missing [simp]: "\<not> js_contains lib j key \<Longrightarrow> get_to lib j key rd upd x = Some x"
  by (simp add: get_to_def)

text \<open>A document without any of the keys leaves every field as it was; so an empty document gives a configuration
  without policy, threads and groups.\<close>

lemma missing_keys_keep_fields:
  assumes "\<And>key. \<not> js_contains lib j key"
  shows "from_json_InnerThread lib j t = Some t" "from_json_ClassicTask lib j k = Some k" "from_json_SchedGroup lib j g = Some g"
    "from_json_SchedulerConf lib j c = Some c" "from_json_RcmwConfig lib j c = Some c"
  using assms by (simp_all add: from_json_InnerThread_def from_json_ClassicTask_def from_json_SchedGroup_def
      from_json_SchedulerConf_def from_json_RcmwConfig_def)

lemma get_vector_length: "get_vector lib fill fresh j = Some xs \<Longrightarrow> \<exists>js. js_array lib j = Some js \<and> length js = length xs"
proof -
  have "\<And>js ys. those (map (\<lambda>e. fill e fresh) js) = Some ys \<Longrightarrow> length js = length ys"
    subgoal for js ys by (induction js arbitrary: ys) (auto split: option.splits)
    done
  then show "get_vector lib fill fresh j = Some xs \<Longrightarrow> \<exists>js. js_array lib j = Some js \<and> length js = length xs"
    by (auto simp: get_vector_def bind_eq_Some_conv)
qed

text \<open>A file that is missing or cannot be opened is no error.\<close>

lemma used_conf_absent: "\<not> path_exist p \<or> read_file p = None \<Longrightarrow> used_conf lib path_exist read_file parse p = Some None"
  by (auto simp: used_conf_def GetRcmwConfFromFile_def)

text \<open>The policy that is read has no effect: where reading does not throw, the factory makes the same scheduler for
  any contents of the file in the working directory.\<close>

lemma factory_ignores_policy:
  assumes "used_conf lib path_exist read_file parse (conf_path pg) \<noteq> None"
    "used_conf lib path_exist read_file parse (GetAbsolutePath root (conf_path pg)) \<noteq> None"
  shows "Scheduler_Instance lib path_exist read_file parse root pg n g None =
    new_SchedulerClassic lib path_exist read_file parse root pg n g"
  using assms by (auto simp: Scheduler_Instance_def Let_def split: option.split)

text \<open>So without a file under the work root the scheduler is the default one, although a file in the working directory
  was reported as found and used.\<close>

lemma working_directory_conf_ignored:
  assumes "used_conf lib path_exist read_file parse (conf_path pg) = Some (Some conf)"
    "\<not> path_exist (GetAbsolutePath root (conf_path pg))"
  shows "Scheduler_Instance lib path_exist read_file parse root pg n g None = SchedulerClassic_construct None n g"
  using assms factory_ignores_policy [of lib path_exist read_file parse pg root n g]
  by (simp add: new_SchedulerClassic_def used_conf_absent)

lemma instance_is_kept: "Scheduler_Instance lib path_exist read_file parse root pg n g (Some s) = Some s"
  by (simp add: Scheduler_Instance_def)

end
