(* ===== verification/Logging.thy ===== *)
theory Logging
  imports Numerals
begin

text \<open>
  The logger (logger/logger.cpp, logger.h, logstream.h): one object that writes lines to the terminal and to a file,
  which it moves away when it has grown too long.  Files are a map from names to contents, the environment of a call
  says which system calls succeed and what the clock shows.
\<close>

section \<open>State\<close>

datatype Level = LOG_DEBUG | LOG_INFO | LOG_WARN | LOG_ERROR | LOG_FATAL | LOG_COUNT

fun level_num :: "Level \<Rightarrow> nat" where
  "level_num LOG_DEBUG = 0" | "level_num LOG_INFO = 1" | "level_num LOG_WARN = 2" | "level_num LOG_ERROR = 3"
| "level_num LOG_FATAL = 4" | "level_num LOG_COUNT = 5"

definition cstr :: "string \<Rightarrow> u8 list" where "cstr s = map of_char s"

text \<open>\<open>s_level\<close>, an array of \<open>LOG_COUNT\<close> names.\<close>

fun s_level :: "Level \<Rightarrow> u8 list option" where
  "s_level LOG_DEBUG = Some (cstr ''DEBUG'')" | "s_level LOG_INFO = Some (cstr ''INFO'')"
| "s_level LOG_WARN = Some (cstr ''WARN'')" | "s_level LOG_ERROR = Some (cstr ''ERROR'')"
| "s_level LOG_FATAL = Some (cstr ''FATAL'')" | "s_level LOG_COUNT = None"

text \<open>The stream \<open>m_fout\<close> is whether it is open and whether it failed.\<close>

record logger =
  fout_open :: bool
  fout_fail :: bool
  log_file :: "u8 list"
  file_len :: i32
  max_filestr :: i32
  log_level :: Level
  isconsole :: bool

record log_host =
  files :: "u8 list \<Rightarrow> u8 list option"
  console :: "u8 list"

record log_env =
  can_open :: "u8 list \<Rightarrow> bool"
  can_write :: bool
  can_rename :: bool
  line_stamp :: "u8 list"
  file_stamp :: "u8 list"

text \<open>A \<open>logic_error\<close> leaves the state it was thrown in; a read outside the names and an overflow of \<open>file_len\<close>
  are undefined.\<close>

datatype log_failure = LogicError "logger \<times> log_host" | LogUndefined

type_synonym log_result = "log_failure + logger \<times> log_host"

section \<open>Operations\<close>

text \<open>The instance has static storage: what the constructor does not set is zero.\<close>

definition logger_level :: "Level \<Rightarrow> logger \<Rightarrow> logger" where "logger_level lv l = l\<lparr> log_level := lv \<rparr>"

definition Set_console :: "bool \<Rightarrow> logger \<Rightarrow> logger" where "Set_console c l = l\<lparr> isconsole := c \<rparr>"

definition Set_maxstr :: "i32 \<Rightarrow> logger \<Rightarrow> logger" where "Set_maxstr bytes l = l\<lparr> max_filestr := bytes \<rparr>"

definition Logger_construct :: logger where
  "Logger_construct = Set_console True (logger_level LOG_DEBUG \<lparr> fout_open = False, fout_fail = False, log_file = [],
     file_len = 0, max_filestr = 0, log_level = LOG_DEBUG, isconsole = False \<rparr>)"

definition Logger_close :: "logger \<Rightarrow> logger" where
  "Logger_close l = (if fout_open l then l\<lparr> fout_open := False \<rparr> else l\<lparr> fout_fail := True \<rparr>)"

definition Logger_open :: "log_env \<Rightarrow> u8 list \<Rightarrow> logger \<times> log_host \<Rightarrow> log_result" where
  "Logger_open e filename = (\<lambda>(l, w).
     let l1 = (if fout_open l then l\<lparr> fout_open := False \<rparr> else l);
         l2 = l1\<lparr> log_file := filename \<rparr>
     in if \<not> can_open e filename then Inl (LogicError (l2\<lparr> fout_fail := True \<rparr>, w))
        else (let old = (case files w filename of None \<Rightarrow> [] | Some bytes \<Rightarrow> bytes)
              in Inr (l2\<lparr> fout_open := True, fout_fail := False, file_len := of_nat (length old) \<rparr>,
                   w\<lparr> files := (files w)(filename \<mapsto> old) \<rparr>)))"

definition rotate_log :: "log_env \<Rightarrow> logger \<times> log_host \<Rightarrow> log_result" where
  "rotate_log e = (\<lambda>(l, w).
     let l1 = Logger_close l; filename = log_file l1 @ file_stamp e
     in case files w (log_file l1) of
          Some bytes \<Rightarrow>
            if can_rename e
            then Logger_open e (log_file l1) (l1, w\<lparr> files := (files w)(log_file l1 := None, filename \<mapsto> bytes) \<rparr>)
            else Inl (LogicError (l1, w))
        | None \<Rightarrow> Inl (LogicError (l1, w)))"

definition log_add_len :: "nat \<Rightarrow> i32 \<Rightarrow> i32 option" where
  "log_add_len n len = (if sint len + int n < 2 ^ 31 then Some (len + of_nat n) else None)"

text \<open>\<open>content\<close> is what the format and the arguments give; \<open>oss << content\<close> stops at its first zero byte.\<close>

definition log_header :: "log_env \<Rightarrow> u8 list \<Rightarrow> u8 list \<Rightarrow> i32 \<Rightarrow> u8 list" where
  "log_header e level_name src line =
     line_stamp e @ cstr '' '' @ level_name @ cstr '' '' @ src @ cstr '':'' @ to_string (sint line) @ cstr '' ''"

definition log_line :: "u8 list \<Rightarrow> u8 list \<Rightarrow> u8 list" where
  "log_line header content = header @ takeWhile (\<lambda>c. c \<noteq> 0) content @ [10]"

definition log_write :: "log_env \<Rightarrow> u8 list \<Rightarrow> logger \<times> log_host \<Rightarrow> logger \<times> log_host" where
  "log_write e str = (\<lambda>(l, w).
     let w1 = (if isconsole l then w\<lparr> console := console w @ str \<rparr> else w)
     in if fout_open l \<and> can_write e
        then (l, w1\<lparr> files := (files w1)(log_file l \<mapsto> (case files w1 (log_file l) of None \<Rightarrow> [] | Some b \<Rightarrow> b) @ str) \<rparr>)
        else (l\<lparr> fout_fail := True \<rparr>, w1))"

definition Logger_log :: "log_env \<Rightarrow> Level \<Rightarrow> u8 list \<Rightarrow> i32 \<Rightarrow> u8 list \<Rightarrow> logger \<times> log_host \<Rightarrow> log_result" where
  "Logger_log e level src line content = (\<lambda>(l, w).
     if level_num (log_level l) > level_num level then Inr (l, w)
     else if fout_fail l then Inr (l, w)
     else case s_level level of
       None \<Rightarrow> Inl LogUndefined
     | Some level_name \<Rightarrow>
         (let header = log_header e level_name src line
          in case log_add_len (length header) (file_len l) of
               None \<Rightarrow> Inl LogUndefined
             | Some len1 \<Rightarrow>
                 (case log_add_len (length content) len1 of
                    None \<Rightarrow> Inl LogUndefined
                  | Some len2 \<Rightarrow>
                      (let (l1, w1) = log_write e (log_line header content) (l\<lparr> file_len := len2 \<rparr>, w)
                       in if sint (max_filestr l1) > 0 \<and> sint (file_len l1) \<ge> sint (max_filestr l1)
                          then rotate_log e (l1, w1) else Inr (l1, w1)))))"

section \<open>Streams\<close>

text \<open>A string stream writes at its position, which is 0 when it is made, also when it is made with a content.  The copy
  constructor leaves \<open>m_line\<close> uninitialised, \<open>None\<close>.\<close>

record log_stream =
  ls_level :: Level
  ls_file :: "u8 list"
  ls_line :: "i32 option"
  ls_stream :: "u8 list"
  ls_pos :: nat

definition logStream :: "Level \<Rightarrow> u8 list \<Rightarrow> i32 \<Rightarrow> log_stream" where
  "logStream level src line = \<lparr> ls_level = level, ls_file = src, ls_line = Some line, ls_stream = [], ls_pos = 0 \<rparr>"

definition ls_put :: "u8 list \<Rightarrow> log_stream \<Rightarrow> log_stream" where
  "ls_put msg st = st\<lparr> ls_stream := take (ls_pos st) (ls_stream st) @ msg @ drop (ls_pos st + length msg) (ls_stream st),
     ls_pos := ls_pos st + length msg \<rparr>"

definition ls_copy :: "log_stream \<Rightarrow> log_host \<Rightarrow> log_stream \<times> log_host" where
  "ls_copy other w = (other\<lparr> ls_line := None, ls_pos := 0 \<rparr>, w\<lparr> console := console w @ cstr ''debug logstream!'' @ [10] \<rparr>)"

text \<open>The destructor logs; an exception that leaves it ends the program, \<open>None\<close>.\<close>

definition ls_destroy :: "log_env \<Rightarrow> log_stream \<Rightarrow> logger \<times> log_host \<Rightarrow> (logger \<times> log_host) option" where
  "ls_destroy e st s =
     (case ls_line st of
        None \<Rightarrow> None
      | Some line \<Rightarrow>
          (case Logger_log e (ls_level st) (ls_file st) line (takeWhile (\<lambda>c. c \<noteq> 0) (ls_stream st)) s of
             Inl _ \<Rightarrow> None
           | Inr s1 \<Rightarrow> Some s1))"

section \<open>What is kept\<close>

text \<open>A line that passes the threshold is appended to the file; if the file is moved away then, it is with all its
  lines, and logging goes on in an empty one.\<close>

lemma log_keeps_lines:
  assumes "Logger_log e level src line content (l, w) = Inr (l1, w1)"
    and "fout_open l" "\<not> fout_fail l" "can_write e" "level_num (log_level l) \<le> level_num level"
    and "files w (log_file l) = Some old" "file_stamp e \<noteq> []"
  obtains nm new where "s_level level = Some nm" "new = old @ log_line (log_header e nm src line) content"
    "fout_open l1" "\<not> fout_fail l1" "log_file l1 = log_file l"
    "files w1 = (files w)(log_file l \<mapsto> new) \<or> files w1 = (files w)(log_file l \<mapsto> [], log_file l @ file_stamp e \<mapsto> new)"
proof -
  from assms obtain nm len1 len2 where nm: "s_level level = Some nm"
    and len: "log_add_len (length (log_header e nm src line)) (file_len l) = Some len1"
      "log_add_len (length content) len1 = Some len2"
    by (auto simp: Logger_log_def Let_def split: option.splits prod.splits)
  show thesis
    using assms nm len
    by (intro that [OF nm refl])
      (auto simp: Logger_log_def Let_def log_write_def rotate_log_def Logger_close_def Logger_open_def fun_upd_twist
        split: if_splits option.splits)
qed

text \<open>A logger that was never given a file prints its first line on the terminal and then nothing more: writing to
  the closed stream makes it fail.\<close>

lemma unopened_logger_stops:
  assumes "Logger_log e level src line content (l, w) = Inr (l1, w1)"
    and "\<not> fout_open l" "\<not> fout_fail l" "level_num (log_level l) \<le> level_num level" "max_filestr l = 0"
  shows "Logger_log e' level' src' line' content' (l1, w1) = Inr (l1, w1)"
proof -
  have "fout_fail l1" using assms
    by (auto simp: Logger_log_def Let_def log_write_def split: if_splits option.splits)
  then show ?thesis by (simp add: Logger_log_def)
qed

text \<open>A file moved away in the same second as another replaces it.\<close>

lemma rotation_replaces:
  assumes "rotate_log e (l, w) = Inr (l1, w1)" "fout_open l" "file_stamp e \<noteq> []"
  shows "files w1 (log_file l @ file_stamp e) = files w (log_file l)"
  using assms by (auto simp: rotate_log_def Let_def Logger_close_def Logger_open_def split: if_splits option.splits)

end
