(* ===== verification/Startup.thy ===== *)
theory Startup
  imports ConfParse RuntimeState Logging
begin

text \<open>
  The start of a process: the singleton \<open>GlobalData\<close> (common/global_data.cpp) with the configuration it reads,
  \<open>Init\<close> (init.cpp) with the log file it opens, and what scheduler the process then gets.
\<close>

section \<open>Global data\<close>

record global_data =
  gd_config :: SchedulerConf
  gd_host_ip :: string
  gd_host_name :: string
  gd_process_id :: int
  gd_process_group :: string
  gd_component_nums :: i32
  gd_sched_name :: string

text \<open>\<open>readlink\<close> of \<open>proc/self/exe\<close>, a path relative to the working directory, into 4095 bytes; \<open>link\<close> is what the path
  leads to, if there is one.\<close>

definition program_path :: "string option \<Rightarrow> string" where
  "program_path link = (case link of None \<Rightarrow> [] | Some target \<Rightarrow> take 4095 target)"

text \<open>\<open>std::to_string\<close> with the digits as characters.\<close>

definition decimal :: "int \<Rightarrow> string" where "decimal i = map (\<lambda>c. char_of (unat c)) (to_string i)"

definition process_group_name :: "string option \<Rightarrow> int \<Rightarrow> string" where
  "process_group_name link pid =
     (let prog_path = program_path link
      in if prog_path \<noteq> [] then GetFileName prog_path False @ ''_'' @ decimal pid else ''rcmw_default_'' @ decimal pid)"

definition InitConfig ::
  "'j json_lib \<Rightarrow> (string \<Rightarrow> u8 list option) \<Rightarrow> (u8 list \<Rightarrow> 'j option) \<Rightarrow> (string \<rightharpoonup> string) \<Rightarrow> SchedulerConf
     \<Rightarrow> (bool \<times> SchedulerConf) option" where
  "InitConfig lib read_file parse env config =
     do {
       let config_path = GetAbsolutePath (WorkRoot env) ''conf/rcmw.pb.conf'';
       (ok, c) \<leftarrow> GetRcmwConfFromFile lib read_file parse config_path (Some config);
       Some (ok, case c of Some c1 \<Rightarrow> c1 | None \<Rightarrow> config)
     }"

definition GlobalData_construct ::
  "'j json_lib \<Rightarrow> (string \<Rightarrow> u8 list option) \<Rightarrow> (u8 list \<Rightarrow> 'j option) \<Rightarrow> (string \<rightharpoonup> string) \<Rightarrow> ifaddr list \<Rightarrow> string \<Rightarrow> int
     \<Rightarrow> string option \<Rightarrow> global_data option" where
  "GlobalData_construct lib read_file parse env ifaddrs hostname pid link =
     do {
       (ok, c) \<leftarrow> InitConfig lib read_file parse env SchedulerConf_construct;
       Some \<lparr> gd_config = c, gd_host_ip = InitHostInfo env ifaddrs, gd_host_name = hostname, gd_process_id = pid,
         gd_process_group = process_group_name link pid, gd_component_nums = 0, gd_sched_name = ''HNU_CMW_DEFAULT'' \<rparr>
     }"

definition SetProcessGroup :: "string \<Rightarrow> global_data \<Rightarrow> global_data" where
  "SetProcessGroup grp d = d\<lparr> gd_process_group := grp \<rparr>"

definition SetComponentNums :: "i32 \<Rightarrow> global_data \<Rightarrow> global_data" where
  "SetComponentNums n d = d\<lparr> gd_component_nums := n \<rparr>"

section \<open>Init\<close>

text \<open>\<open>Logger_Init\<close> comes first and its exception leaves \<open>Init\<close>; the global data are made when they are first asked
  for, and \<open>fresh\<close> is the result.  \<open>Inl\<close>: an exception.\<close>

datatype init_failure = LogFile "logger \<times> log_host" | ConfigFile

definition Init_process ::
  "log_env \<Rightarrow> string \<Rightarrow> global_data option \<Rightarrow> global_data option \<Rightarrow> logger \<times> log_host \<Rightarrow> process_state
     \<Rightarrow> init_failure + (global_data \<times> (logger \<times> log_host) \<times> process_state)" where
  "Init_process e binary_name fresh existing lw p =
     (case Logger_open e (cstr (binary_name @ ''.log'')) lw of
        Inl (LogicError lw1) \<Rightarrow> Inl (LogFile lw1)
      | Inl LogUndefined \<Rightarrow> Inl (LogFile lw)
      | Inr lw1 \<Rightarrow>
          (case (case existing of Some d \<Rightarrow> Some d | None \<Rightarrow> fresh) of
             None \<Rightarrow> Inl ConfigFile
           | Some d \<Rightarrow> Inr (d, lw1, snd (rcmw_Init binary_name p))))"

section \<open>The scheduler a process gets\<close>

text \<open>The factory asks the global data for the group of the process and for the default number of processors.\<close>

definition process_scheduler ::
  "'j json_lib \<Rightarrow> (string \<Rightarrow> bool) \<Rightarrow> (string \<Rightarrow> u8 list option) \<Rightarrow> (u8 list \<Rightarrow> 'j option) \<Rightarrow> (string \<rightharpoonup> string) \<Rightarrow> global_data
     \<Rightarrow> u8 name_registers \<Rightarrow> scheduler option \<Rightarrow> scheduler option" where
  "process_scheduler lib path_exist read_file parse env d g obj =
     Scheduler_Instance lib path_exist read_file parse (WorkRoot env) (gd_process_group d) (sc_default_proc_num (gd_config d)) g obj"

lemma add_processors_shape:
  "task_pool_size (add_processors grp n s) = task_pool_size s \<and> conf_groups (add_processors grp n s) = conf_groups s \<and>
   length (processors (add_processors grp n s)) = length (processors s) + n \<and>
   map cx_group (pctxs (add_processors grp n s)) = map cx_group (pctxs s) @ replicate n grp"
  by (induction grp n s rule: add_processors.induct)
    (simp_all add: InitGroup_def Let_def replicate_append_same [symmetric])

lemma default_scheduler:
  assumes "SchedulerClassic_construct None n g = Some s"
  shows "map cx_group (pctxs s) = replicate (unat (if n = 0 then 2 else n)) DEFAULT_GROUP_NAME \<and>
    length (processors s) = unat (if n = 0 then 2 else n) \<and> task_pool_size s = (if n = 0 then 2 else n)"
  using assms add_processors_shape [of DEFAULT_GROUP_NAME]
  by (auto simp: SchedulerClassic_construct_def CreateProcessor_def scheduler_empty_def ParseCpuset_def Let_def split: if_splits)

lemma default_scheduler_made: "SchedulerClassic_construct None n g \<noteq> None"
  by (simp add: SchedulerClassic_construct_def CreateProcessor_def ParseCpuset_def Let_def)

text \<open>A process whose program is not found under its working directory, as is usual, is in a group named after its
  own process id.  If no configuration file has that name, its scheduler is the default one: processors for the group
  \<open>default_grp\<close> only, as many as the global configuration says, or two.\<close>

lemma startup_scheduler:
  assumes "GlobalData_construct lib read_file parse env ifs hostname pid None = Some d"
    and "\<not> path_exist (''conf/rcmw_default_'' @ decimal pid @ ''.conf'')"
    and "\<not> path_exist (GetAbsolutePath (WorkRoot env) (''conf/rcmw_default_'' @ decimal pid @ ''.conf''))"
  shows "\<exists>s. process_scheduler lib path_exist read_file parse env d g None = Some s \<and>
    map cx_group (pctxs s) = replicate (length (processors s)) DEFAULT_GROUP_NAME \<and>
    length (processors s) = unat (if sc_default_proc_num (gd_config d) = 0 then 2 else sc_default_proc_num (gd_config d))"
proof -
  let ?n = "sc_default_proc_num (gd_config d)"
  have grp: "conf_path (gd_process_group d) = ''conf/rcmw_default_'' @ decimal pid @ ''.conf''"
    using assms(1) by (auto simp: GlobalData_construct_def process_group_name_def program_path_def conf_path_def bind_eq_Some_conv)
  have "process_scheduler lib path_exist read_file parse env d g None = SchedulerClassic_construct None ?n g"
    using assms(2,3) by (simp add: process_scheduler_def Scheduler_Instance_def new_SchedulerClassic_def grp used_conf_absent Let_def)
  then show ?thesis using default_scheduler [of ?n g] default_scheduler_made [of ?n g] by auto
qed

text \<open>A log file that cannot be opened is an exception that leaves \<open>Init\<close> before anything else is done.\<close>

lemma init_needs_log:
  "\<not> can_open e (cstr (binary_name @ ''.log'')) \<Longrightarrow> \<exists>lw1. Init_process e binary_name fresh existing lw p = Inl (LogFile lw1)"
  by (cases lw) (simp add: Init_process_def Logger_open_def Let_def)

end
