(* ===== verification/ThreadAttrs.thy ===== *)
theory ThreadAttrs
  imports Scheduling
begin

text \<open>
  What the scheduler asks of the operating system for its threads (scheduler/common/pin_thread.cpp and its callers in
  scheduler.cpp and scheduler_classic.cpp), and the report of \<open>CheckSchedStatus\<close>.  A system call is recorded; its
  failure is ignored by the code.
\<close>

section \<open>Affinity and policy of a thread\<close>

text \<open>The calls name a thread: the caller itself, a processor by its number, or a thread handed in.\<close>

datatype thread_handle = ThisThread | ProcessorThread nat | InnerThreadHandle nat

datatype thread_call =
    pthread_setaffinity_np thread_handle "nat list"
  | pthread_setschedparam thread_handle "u8 list" i32
  | setpriority i32 i32

definition ascii :: "string \<Rightarrow> u8 list" where "ascii s = map of_char s"

text \<open>\<open>CPU_SET\<close> ignores a number outside the \<open>cpu_set_t\<close>, whose 1024 bits are given here in ascending order.\<close>

definition CPU_SETSIZE :: nat where "CPU_SETSIZE = 1024"

definition CPU_SET :: "int \<Rightarrow> nat list \<Rightarrow> nat list" where
  "CPU_SET cpu cs = (if 0 \<le> cpu \<and> cpu < int CPU_SETSIZE \<and> nat cpu \<notin> set cs then insort (nat cpu) cs else cs)"

text \<open>\<open>cpu_id\<close> is \<open>- 1\<close> unless it is given; the comparison with the size is on 32 bits without sign.\<close>

definition SetSchedAffinity :: "thread_handle \<Rightarrow> int list \<Rightarrow> u8 list \<Rightarrow> i32 \<Rightarrow> thread_call list" where
  "SetSchedAffinity thread cpus affinity cpu_id =
     (if cpus = [] then []
      else if affinity = ascii ''range'' then [pthread_setaffinity_np thread (fold CPU_SET cpus [])]
      else if affinity = ascii ''1to1'' then
        (if cpu_id = - 1 \<or> length cpus \<le> unat cpu_id then []
         else [pthread_setaffinity_np thread (CPU_SET (cpus ! unat cpu_id) [])])
      else [])"

definition SetSchedPolicy :: "thread_handle \<Rightarrow> u8 list \<Rightarrow> i32 \<Rightarrow> i32 \<Rightarrow> thread_call list" where
  "SetSchedPolicy thread spolicy sched_priority tid =
     (if spolicy = ascii ''SCHED_FIFO'' then [pthread_setschedparam thread spolicy sched_priority]
      else if spolicy = ascii ''SCHED_RR'' then [pthread_setschedparam thread spolicy sched_priority]
      else if spolicy = ascii ''SCHED_OTHER'' then [setpriority tid sched_priority]
      else [])"

section \<open>Callers\<close>

text \<open>\<open>None\<close>: the cpu set cannot be parsed, which throws or ends the program.\<close>

definition ProcessLevelResourceControl :: "scheduler \<Rightarrow> thread_call list option" where
  "ProcessLevelResourceControl s =
     (case ParseCpuset (process_level_cpuset s) of
        Cpus cpus \<Rightarrow> Some [pthread_setaffinity_np ThisThread (fold CPU_SET cpus [])]
      | _ \<Rightarrow> None)"

definition SetInnerThreadConfs :: "(u8 list \<times> InnerThread) list \<Rightarrow> scheduler \<Rightarrow> scheduler" where
  "SetInnerThreadConfs confs s = s\<lparr> inner_thr_confs := confs \<rparr>"

text \<open>\<open>thr\<close> is \<open>None\<close> for the null pointer.\<close>

definition SetInnerThreadAttr :: "u8 list \<Rightarrow> nat option \<Rightarrow> scheduler \<Rightarrow> thread_call list option" where
  "SetInnerThreadAttr name thr s =
     (case thr of
        None \<Rightarrow> Some []
      | Some t \<Rightarrow>
          (case map_of (inner_thr_confs s) name of
             None \<Rightarrow> Some []
           | Some th_conf \<Rightarrow>
               (case ParseCpuset (it_cpuset th_conf) of
                  Cpus cpus \<Rightarrow> Some (SetSchedAffinity (InnerThreadHandle t) cpus (ascii ''range'') (- 1) @
                    SetSchedPolicy (InnerThreadHandle t) (it_policy th_conf) (it_prio th_conf) (- 1))
                | _ \<Rightarrow> None)))"

text \<open>The calls of \<open>CreateProcessor\<close>, besides the state it builds: \<open>k\<close> processors exist, \<open>tids p\<close> is the thread id
  processor \<open>p\<close> stores, for which \<open>Tid\<close> waits.\<close>

fun processor_calls :: "(nat \<Rightarrow> i32) \<Rightarrow> SchedGroup \<Rightarrow> int list \<Rightarrow> nat \<Rightarrow> nat list \<Rightarrow> thread_call list" where
  "processor_calls tids g cpuset k [] = []"
| "processor_calls tids g cpuset k (i # is) =
     SetSchedAffinity (ProcessorThread k) cpuset (sg_affinity g) (of_nat i) @
     SetSchedPolicy (ProcessorThread k) (sg_processor_policy g) (sg_processor_prio g) (tids k) @
     processor_calls tids g cpuset (Suc k) is"

fun CreateProcessor_calls :: "(nat \<Rightarrow> i32) \<Rightarrow> SchedGroup list \<Rightarrow> nat \<Rightarrow> thread_call list option" where
  "CreateProcessor_calls tids [] k = Some []"
| "CreateProcessor_calls tids (g # gs) k =
     (case ParseCpuset (sg_cpuset g) of
        Cpus cpuset \<Rightarrow>
          map_option ((@) (processor_calls tids g cpuset k [0..<unat (sg_processor_num g)]))
            (CreateProcessor_calls tids gs (k + unat (sg_processor_num g)))
      | _ \<Rightarrow> None)"

section \<open>The report\<close>

text \<open>\<open>ids\<close>: the thread ids in the snapshots, 0 for a processor whose thread has not started.\<close>

definition snap_entry :: "u64 \<Rightarrow> i32 \<Rightarrow> processor \<Rightarrow> u8 list" where
  "snap_entry now tid p =
     (if pr_execute_start_time p \<noteq> 0 then
        (let execute_time = (now - pr_execute_start_time p) div 1000000
         in to_string (sint tid) @ ascii '':'' @ pr_routine_name p @ ascii '':'' @ to_string (uint execute_time))
      else to_string (sint tid) @ ascii '':idle'') @ ascii '', ''"

definition CheckSchedStatus :: "u64 \<Rightarrow> (nat \<Rightarrow> i32) \<Rightarrow> scheduler \<Rightarrow> u8 list" where
  "CheckSchedStatus now ids s =
     concat (map (\<lambda>k. snap_entry now (ids k) (processors s ! k)) [0..<length (processors s)]) @
     ascii ''timestamp: '' @ to_string (uint now)"

section \<open>What is set\<close>

lemma CPU_SET_set: "set (CPU_SET c cs) = set cs \<union> (if 0 \<le> c \<and> c < int CPU_SETSIZE then {nat c} else {})"
  by (auto simp: CPU_SET_def set_insort_key)

lemma fold_CPU_SET: "set (fold CPU_SET cpus cs) = set cs \<union> nat ` {c \<in> set cpus. 0 \<le> c \<and> c < int CPU_SETSIZE}"
  by (induction cpus arbitrary: cs) (auto simp: CPU_SET_set)

lemma CPU_SET_sorted: "sorted cs \<Longrightarrow> distinct cs \<Longrightarrow> sorted (CPU_SET c cs) \<and> distinct (CPU_SET c cs)"
  by (auto simp: CPU_SET_def sorted_insort distinct_insort)

lemma fold_CPU_SET_sorted: "sorted cs \<Longrightarrow> distinct cs \<Longrightarrow> sorted (fold CPU_SET cpus cs) \<and> distinct (fold CPU_SET cpus cs)"
  by (induction cpus arbitrary: cs) (auto simp: CPU_SET_sorted)

lemma ascii_distinct: "ascii ''range'' \<noteq> ascii ''1to1''" by (simp add: ascii_def)

text \<open>With \<open>1to1\<close> processor \<open>i\<close> of the group is bound to the \<open>i\<close>-th cpu of the set, and the processors beyond the set
  are not bound.\<close>

lemma one_to_one_affinity:
  assumes "cpus \<noteq> []" "i < 2 ^ 31"
  shows "SetSchedAffinity t cpus (ascii ''1to1'') (of_nat i) =
    (if i < length cpus then [pthread_setaffinity_np t (CPU_SET (cpus ! i) [])] else [])"
proof -
  have u: "unat (of_nat i :: i32) = i" using assms(2) by (simp add: unat_of_nat_less)
  have "(of_nat i :: i32) \<noteq> - 1"
  proof
    assume "(of_nat i :: i32) = - 1"
    then have "unat (of_nat i :: i32) = unat (- 1 :: i32)" by simp
    then show False using u assms(2) by (simp add: unsigned_minus_1_eq_mask mask_eq_exp_minus_1)
  qed
  then show ?thesis using assms(1) u ascii_distinct by (auto simp: SetSchedAffinity_def)
qed

text \<open>For a thread of the configuration the policy \<open>SCHED_OTHER\<close> is set for the thread id \<open>- 1\<close>, which no thread has.\<close>

lemma inner_thread_other_policy:
  assumes "map_of (inner_thr_confs s) name = Some c" "it_policy c = ascii ''SCHED_OTHER''" "ParseCpuset (it_cpuset c) = Cpus []"
  shows "SetInnerThreadAttr name (Some t) s = Some [setpriority (- 1) (it_prio c)]"
  using assms by (simp add: SetInnerThreadAttr_def SetSchedAffinity_def SetSchedPolicy_def ascii_def)

text \<open>The calls are possible exactly when the processors can be made.\<close>

lemma processor_calls_iff: "CreateProcessor_calls tids gs k = None \<longleftrightarrow> CreateProcessor_loop gs s = None"
  by (induction gs arbitrary: k s) (auto simp: Let_def split: cpuset_result.splits)

end
