(* ===== verification/PerfTrace.thy ===== *)
theory PerfTrace
  imports ThreadPool GlobalData Numerals "HOL-Library.Monad_Syntax"
begin

text \<open>
  The trace of transport events (event/perf_event.h, perf_event_cache.h, perf_event_cache.cpp): calls add events to a
  bounded queue, a thread writes them to a file.  The thread is a program counter whose steps interleave with the calls.
\<close>

section \<open>Events\<close>

datatype EventType = SCHED_EVENT | TRANS_EVENT | TRY_FETCH_EVENT

fun event_type_num :: "EventType \<Rightarrow> i32" where
  "event_type_num SCHED_EVENT = 0" | "event_type_num TRANS_EVENT = 1" | "event_type_num TRY_FETCH_EVENT = 3"

datatype TransPerf =
    TRANSMIT_BEGIN | SERIALIZE | SEND | MESSAGE_ARRIVE | OBTAIN | DESERIALIZE | DISPATCH | NOTIFY | FETCH | CALLBACK | TRANS_END

fun trans_perf_num :: "TransPerf \<Rightarrow> i32" where
  "trans_perf_num TRANSMIT_BEGIN = 0" | "trans_perf_num SERIALIZE = 1" | "trans_perf_num SEND = 2"
| "trans_perf_num MESSAGE_ARRIVE = 3" | "trans_perf_num OBTAIN = 4" | "trans_perf_num DESERIALIZE = 5"
| "trans_perf_num DISPATCH = 6" | "trans_perf_num NOTIFY = 7" | "trans_perf_num FETCH = 8" | "trans_perf_num CALLBACK = 9"
| "trans_perf_num TRANS_END = 10"

fun ShowTransPerf :: "TransPerf \<Rightarrow> string" where
  "ShowTransPerf TRANSMIT_BEGIN = ''TRANSMIT_BEGIN''" | "ShowTransPerf SERIALIZE = ''SERIALIZE''"
| "ShowTransPerf SEND = ''SEND''" | "ShowTransPerf MESSAGE_ARRIVE = ''MESSAGE_ARRIVE''"
| "ShowTransPerf OBTAIN = ''OBTAIN''" | "ShowTransPerf DESERIALIZE = ''DESERIALIZE''"
| "ShowTransPerf DISPATCH = ''DISPATCH''" | "ShowTransPerf NOTIFY = ''NOTIFY''" | "ShowTransPerf FETCH = ''FETCH''"
| "ShowTransPerf CALLBACK = ''CALLBACK''" | "ShowTransPerf TRANS_END = ''''"

text \<open>The id and the stamp of an event have no initial value: \<open>None\<close>.\<close>

record transport_event =
  etype :: i32
  eid :: "i32 option"
  estamp :: "u64 option"
  adder :: "u8 list"
  ev_msg_seq :: u64
  ev_channel_id :: u64

definition TransportEvent_construct :: transport_event where
  "TransportEvent_construct = \<lparr> etype = event_type_num TRANS_EVENT, eid = None, estamp = None, adder = [],
     ev_msg_seq = 0, ev_channel_id = - 1 \<rparr>"

definition set_eid :: "i32 \<Rightarrow> transport_event \<Rightarrow> transport_event" where "set_eid i e = e\<lparr> eid := Some i \<rparr>"
definition set_etype :: "i32 \<Rightarrow> transport_event \<Rightarrow> transport_event" where "set_etype i e = e\<lparr> etype := i \<rparr>"
definition set_stamp :: "u64 \<Rightarrow> transport_event \<Rightarrow> transport_event" where "set_stamp t e = e\<lparr> estamp := Some t \<rparr>"
definition set_msg_seq :: "u64 \<Rightarrow> transport_event \<Rightarrow> transport_event" where "set_msg_seq n e = e\<lparr> ev_msg_seq := n \<rparr>"
definition set_channel_id :: "u64 \<Rightarrow> transport_event \<Rightarrow> transport_event" where
  "set_channel_id c e = e\<lparr> ev_channel_id := c \<rparr>"
definition set_adder :: "u8 list \<Rightarrow> transport_event \<Rightarrow> transport_event" where "set_adder a e = e\<lparr> adder := a \<rparr>"

text \<open>Fields are followed by tabs, byte 9; \<open>None\<close>: a field without a value is read.\<close>

definition SerializeTostring :: "u8 name_registers \<Rightarrow> transport_event \<Rightarrow> u8 list option" where
  "SerializeTostring g e =
     do {
       i \<leftarrow> eid e;
       t \<leftarrow> estamp e;
       Some (to_string (sint (etype e)) @ [9] @ to_string (sint i) @ [9] @ GetChannelById (ev_channel_id e) g @ [9] @
         to_string (uint (ev_msg_seq e)) @ [9] @ to_string (uint t) @ [9] @ adder e @ [9])
     }"

section \<open>The cache\<close>

datatype run_pc = RunTest | RunWait "transport_event option option wait_pc" | RunEnd

record perf_cache =
  pf_enable :: bool
  pf_shutdown :: bool
  pf_file :: string
  pf_lines :: "u8 list list"
  pf_file_open :: bool
  pf_queue :: "transport_event option bounded_queue"
  pf_thread :: "run_pc option"
  pf_buf_size :: nat

definition KFlushSize :: nat where "KFlushSize = 512"
definition KEventQueueSize :: u64 where "KEventQueueSize = 8192"

definition perf_members :: perf_cache where
  "perf_members = \<lparr> pf_enable = False, pf_shutdown = False, pf_file = [], pf_lines = [], pf_file_open = False,
     pf_queue = bq_construct, pf_thread = None, pf_buf_size = 0 \<rparr>"

definition replace_char :: "char \<Rightarrow> char \<Rightarrow> string \<Rightarrow> string" where
  "replace_char a b s = map (\<lambda>c. if c = a then b else c) s"

text \<open>\<open>can_open\<close>: whether the file can be opened.\<close>

definition Perf_Start :: "bool \<Rightarrow> perf_cache \<Rightarrow> perf_cache" where
  "Perf_Start can_open p =
     (let perf_file = replace_char CHR '':'' CHR ''-'' (replace_char CHR '' '' CHR ''_'' ''rcmw_perf_.data'')
      in p\<lparr> pf_file := perf_file, pf_file_open := can_open, pf_lines := [], pf_thread := Some RunTest, pf_buf_size := 0 \<rparr>)"

text \<open>The body of the constructor, on given members; \<open>None\<close>: the queue has no memory and the
  constructor throws.\<close>

definition PerfEventCache_body :: "(u64 \<Rightarrow> bool) \<Rightarrow> bool \<Rightarrow> perf_cache \<Rightarrow> perf_cache option" where
  "PerfEventCache_body alloc can_open p =
     (if pf_enable p then
        (case bq_Init alloc None KEventQueueSize (pf_queue p) of
           (False, _) \<Rightarrow> None
         | (True, q) \<Rightarrow> Some (Perf_Start can_open (p\<lparr> pf_queue := q \<rparr>)))
      else Some p)"

text \<open>\<open>enable_\<close> starts as \<open>False\<close>, with a comment that it is to come from a configuration.\<close>

definition PerfEventCache_construct :: "(u64 \<Rightarrow> bool) \<Rightarrow> bool \<Rightarrow> perf_cache option" where
  "PerfEventCache_construct alloc can_open = PerfEventCache_body alloc can_open perf_members"

definition AddTransportEvent :: "TransPerf \<Rightarrow> u64 \<Rightarrow> u64 \<Rightarrow> u64 \<Rightarrow> u8 list \<Rightarrow> perf_cache \<Rightarrow> perf_cache" where
  "AddTransportEvent event_id channel_id msg_seq stamp adder_name p =
     (if \<not> pf_enable p then p
      else (let e = set_stamp stamp (set_adder adder_name (set_msg_seq msg_seq (set_channel_id channel_id
                  (set_eid (trans_perf_num event_id) TransportEvent_construct))))
            in p\<lparr> pf_queue := snd (bq_Enqueue (Some e) (pf_queue p)) \<rparr>))"

text \<open>One step of \<open>Run\<close>; \<open>None\<close>: a null event is dereferenced.  \<open>std::endl\<close> writes each line out, so the count of
  lines since the last \<open>flush\<close> decides nothing.\<close>

definition Run_step :: "u8 name_registers \<Rightarrow> perf_cache \<Rightarrow> perf_cache option" where
  "Run_step g p =
     (case pf_thread p of
        None \<Rightarrow> Some p
      | Some RunEnd \<Rightarrow> Some p
      | Some RunTest \<Rightarrow> Some (p\<lparr> pf_thread := Some (if pf_shutdown p then RunEnd else RunWait WLoop) \<rparr>)
      | Some (RunWait (WDone None)) \<Rightarrow> Some (p\<lparr> pf_thread := Some RunTest \<rparr>)
      | Some (RunWait (WDone (Some event))) \<Rightarrow>
          do {
            e \<leftarrow> event;
            line \<leftarrow> SerializeTostring g e;
            let n = Suc (pf_buf_size p);
            Some (p\<lparr> pf_lines := (if pf_file_open p then pf_lines p @ [line @ [10]] else pf_lines p),
                    pf_buf_size := (if n \<ge> KFlushSize then 0 else n), pf_thread := Some RunTest \<rparr>)
          }
      | Some (RunWait pc) \<Rightarrow>
          (let (pc1, q1) = WaitDequeue_step (SleepWaitStrategy 10000) False False pc (pf_queue p)
           in Some (p\<lparr> pf_thread := Some (RunWait pc1), pf_queue := q1 \<rparr>)))"

text \<open>\<open>Shutdown\<close> up to the \<open>join\<close>, and after it, which needs the thread to have ended.\<close>

definition Perf_Shutdown_signal :: "perf_cache \<Rightarrow> perf_cache" where
  "Perf_Shutdown_signal p =
     (if \<not> pf_enable p then p else p\<lparr> pf_shutdown := True, pf_queue := bq_BreakAllWait (pf_queue p) \<rparr>)"

definition Perf_Shutdown_join :: "perf_cache \<Rightarrow> perf_cache option" where
  "Perf_Shutdown_join p =
     (if \<not> pf_enable p then Some p
      else if pf_thread p = None \<or> pf_thread p = Some RunEnd then Some (p\<lparr> pf_file_open := False, pf_thread := None \<rparr>)
      else None)"

section \<open>What reaches the file\<close>

datatype perf_action = PAdd TransPerf u64 u64 u64 "u8 list" | PRun | PSignal

text \<open>The event a call of \<open>AddTransportEvent\<close> gives the queue.\<close>

definition added_event :: "TransPerf \<Rightarrow> u64 \<Rightarrow> u64 \<Rightarrow> u64 \<Rightarrow> u8 list \<Rightarrow> transport_event" where
  "added_event event_id channel_id msg_seq stamp adder_name =
     \<lparr> etype = 1, eid = Some (trans_perf_num event_id), estamp = Some stamp, adder = adder_name,
       ev_msg_seq = msg_seq, ev_channel_id = channel_id \<rparr>"

fun perf_apply :: "u8 name_registers \<Rightarrow> perf_action \<Rightarrow> perf_cache \<times> transport_event list \<Rightarrow> (perf_cache \<times> transport_event list) option" where
  "perf_apply g (PAdd i c n t a) (p, acc) =
     Some (AddTransportEvent i c n t a p,
       if pf_enable p \<and> fst (bq_Enqueue (Some (added_event i c n t a)) (pf_queue p)) then acc @ [added_event i c n t a] else acc)"
| "perf_apply g PRun (p, acc) = map_option (\<lambda>p1. (p1, acc)) (Run_step g p)"
| "perf_apply g PSignal (p, acc) = Some (Perf_Shutdown_signal p, acc)"

primrec perf_run :: "u8 name_registers \<Rightarrow> perf_action list \<Rightarrow> perf_cache \<times> transport_event list \<Rightarrow> (perf_cache \<times> transport_event list) option" where
  "perf_run g [] s = Some s"
| "perf_run g (a # as) s = do { s1 \<leftarrow> perf_apply g a s; perf_run g as s1 }"

definition trace_line :: "u8 name_registers \<Rightarrow> transport_event \<Rightarrow> u8 list" where
  "trace_line g e = the (SerializeTostring g e) @ [10]"

definition held_event :: "perf_cache \<Rightarrow> transport_event list" where
  "held_event p = (case pf_thread p of Some (RunWait (WDone (Some (Some e)))) \<Rightarrow> [e] | _ \<Rightarrow> [])"

text \<open>\<open>w\<close>: the events whose lines are in the file, \<open>rest\<close>: those still in the queue.\<close>

definition perf_inv :: "u8 name_registers \<Rightarrow> nat \<Rightarrow> perf_cache \<Rightarrow> transport_event list \<Rightarrow> transport_event list \<Rightarrow> transport_event list \<Rightarrow> bool" where
  "perf_inv g n p acc w rest \<longleftrightarrow>
     pf_enable p \<and> pf_file_open p \<and> bq_inv n (pf_queue p) \<and> pf_thread p \<noteq> None \<and>
     pf_thread p \<noteq> Some (RunWait (WDone (Some None))) \<and> (\<forall>e \<in> set acc. SerializeTostring g e \<noteq> None) \<and>
     acc = w @ held_event p @ rest \<and> bq_items (pf_queue p) = map Some rest \<and> pf_lines p = map (trace_line g) w"

lemma added_event_eq:
  "AddTransportEvent i c n t a p =
    (if pf_enable p then p\<lparr> pf_queue := snd (bq_Enqueue (Some (added_event i c n t a)) (pf_queue p)) \<rparr> else p)"
  by (simp add: AddTransportEvent_def added_event_def TransportEvent_construct_def set_eid_def set_stamp_def set_adder_def
      set_msg_seq_def set_channel_id_def)

lemma added_event_line: "SerializeTostring g (added_event i c n t a) \<noteq> None"
  by (simp add: SerializeTostring_def added_event_def)

lemma bq_break [simp]: "bq_inv n (bq_BreakAllWait q) = bq_inv n q" "bq_items (bq_BreakAllWait q) = bq_items q"
  by (simp_all add: bq_BreakAllWait_def bq_inv_def bq_items_def)

lemma perf_inv_add:
  assumes inv: "perf_inv g (Suc m) p acc w rest" and step: "perf_apply g (PAdd i c n t a) (p, acc) = Some (p1, acc1)"
  shows "\<exists>rest1. perf_inv g m p1 acc1 w rest1"
proof (cases "bq_full (pf_queue p)")
  case True
  then have "perf_inv g m p1 acc1 w rest" using inv step bq_inv_mono [of m "pf_queue p"]
    by (auto simp: perf_inv_def added_event_eq bq_Enqueue_refused)
  then show ?thesis ..
next
  case False
  have "bq_inv (Suc m) (pf_queue p)" using inv by (simp add: perf_inv_def)
  note q = bq_Enqueue_accepted [OF this False, of "Some (added_event i c n t a)"]
  have "perf_inv g m p1 acc1 w (rest @ [added_event i c n t a])" using inv step q added_event_line [of g i c n t a]
    by (auto simp: perf_inv_def added_event_eq held_event_def)
  then show ?thesis ..
qed

text \<open>The thread takes an event from the queue, or finds it empty.\<close>

lemma perf_inv_take:
  assumes inv: "perf_inv g m p acc w rest" and at: "pf_thread p = Some (RunWait WTry)"
  shows "\<exists>p1 rest1. Run_step g p = Some p1 \<and> perf_inv g m p1 acc w rest1"
proof (cases rest)
  case Nil
  then have "bq_Dequeue (pf_queue p) = (None, pf_queue p)" using bq_Dequeue_empty [of m "pf_queue p"] inv by (simp add: perf_inv_def)
  then show ?thesis using inv at by (simp add: Run_step_def perf_inv_def held_event_def)
next
  case (Cons e es)
  have q: "bq_inv m (pf_queue p)" "bq_items (pf_queue p) = Some e # map Some es" using inv Cons by (auto simp: perf_inv_def)
  obtain q1 where d: "bq_Dequeue (pf_queue p) = (Some (Some e), q1)" "bq_items q1 = map Some es" "bq_inv m q1"
    using bq_Dequeue_item [OF q] by (cases "bq_Dequeue (pf_queue p)") auto
  let ?p1 = "p\<lparr> pf_thread := Some (RunWait (WDone (Some (Some e)))), pf_queue := q1 \<rparr>"
  have "Run_step g p = Some ?p1" "perf_inv g m ?p1 acc w es"
    using inv at d Cons by (simp_all add: Run_step_def perf_inv_def held_event_def)
  then show ?thesis by blast
qed

text \<open>The thread writes the event it holds.\<close>

lemma perf_inv_write:
  assumes inv: "perf_inv g m p acc w rest" and at: "pf_thread p = Some (RunWait (WDone (Some event)))"
  shows "\<exists>p1 w1. Run_step g p = Some p1 \<and> perf_inv g m p1 acc w1 rest"
proof -
  obtain e where e: "event = Some e" using inv at by (cases event) (auto simp: perf_inv_def)
  have h: "held_event p = [e]" using at e by (simp add: held_event_def)
  then obtain line where l: "SerializeTostring g e = Some line" using inv by (auto simp: perf_inv_def)
  let ?n = "Suc (pf_buf_size p)"
  let ?p1 = "p\<lparr> pf_lines := pf_lines p @ [line @ [10]], pf_buf_size := (if ?n \<ge> KFlushSize then 0 else ?n),
     pf_thread := Some RunTest \<rparr>"
  have "Run_step g p = Some ?p1" using inv at e l by (simp add: Run_step_def Let_def perf_inv_def)
  moreover have "perf_inv g m ?p1 acc (w @ [e]) rest" using inv h l by (simp add: perf_inv_def held_event_def trace_line_def)
  ultimately show ?thesis by blast
qed

lemma perf_inv_run:
  assumes inv: "perf_inv g m p acc w rest"
  shows "\<exists>p1 w1 rest1. Run_step g p = Some p1 \<and> perf_inv g m p1 acc w1 rest1"
proof -
  obtain pc where pc: "pf_thread p = Some pc" using inv by (auto simp: perf_inv_def)
  consider "pc = RunWait WTry" | event where "pc = RunWait (WDone (Some event))"
    | "pc \<in> {RunTest, RunEnd, RunWait WLoop, RunWait WWait, RunWait (WDone None)}"
    by (metis insert_iff option.exhaust run_pc.exhaust wait_pc.exhaust)
  then show ?thesis
  proof cases
    case 1
    then show ?thesis using perf_inv_take [OF inv] pc by blast
  next
    case 2
    then show ?thesis using perf_inv_write [OF inv] pc by blast
  next
    case 3
    then show ?thesis using inv pc by (auto simp: Run_step_def perf_inv_def held_event_def)
  qed
qed

lemma perf_run_inv:
  assumes "perf_inv g (m + length as) p acc w rest"
  shows "\<exists>p1 acc1 w1 rest1. perf_run g as (p, acc) = Some (p1, acc1) \<and> perf_inv g m p1 acc1 w1 rest1"
  using assms
proof (induction as arbitrary: p acc w rest)
  case Nil
  then show ?case by auto
next
  case (Cons a as)
  have less: "perf_inv g (m + length as) q acc2 v rs" if "perf_inv g (Suc (m + length as)) q acc2 v rs" for q acc2 v rs
    using that bq_inv_mono by (auto simp: perf_inv_def)
  have inv: "perf_inv g (Suc (m + length as)) p acc w rest" using Cons.prems by simp
  have "\<exists>p1 acc1 w1 rest1. perf_apply g a (p, acc) = Some (p1, acc1) \<and> perf_inv g (m + length as) p1 acc1 w1 rest1"
  proof (cases a)
    case (PAdd i c n t ad)
    then show ?thesis using perf_inv_add [OF inv, of i c n t ad] by fastforce
  next
    case PRun
    then show ?thesis using perf_inv_run [OF inv] less by fastforce
  next
    case PSignal
    then show ?thesis using less [OF inv] by (auto simp: perf_inv_def Perf_Shutdown_signal_def held_event_def)
  qed
  then show ?case using Cons.IH by fastforce
qed

text \<open>What the code would do were \<open>enable_\<close> set, as its comment announces: every run of calls of
  AddTransportEvent, steps of the writing thread and shutdowns up to the join has a result, no null event is
  dereferenced, and the file holds the lines of the accepted events in the order they were accepted, each once, all
  but those the thread holds or the queue still has.\<close>

lemma trace_in_order:
  assumes "alloc (KEventQueueSize + 2)" "unat KEventQueueSize + 2 + length as < 2 ^ 64"
  shows "\<exists>p0 p acc w rest. PerfEventCache_body alloc True (perf_members\<lparr> pf_enable := True \<rparr>) = Some p0 \<and>
    perf_run g as (p0, []) = Some (p, acc) \<and>
    acc = w @ held_event p @ rest \<and> pf_lines p = map (trace_line g) w \<and> bq_items (pf_queue p) = map Some rest"
proof -
  note q = bq_Init_ok [where d = "None :: transport_event option" and alloc = alloc and sz = KEventQueueSize and n = "length as", OF assms]
  obtain q0 where q0: "bq_Init alloc None KEventQueueSize bq_construct = (True, q0 :: transport_event option bounded_queue)"
    "bq_inv (length as) q0" "bq_items q0 = []"
    using q by (cases "bq_Init alloc None KEventQueueSize (bq_construct :: transport_event option bounded_queue)") auto
  let ?p0 = "Perf_Start True (perf_members\<lparr> pf_enable := True, pf_queue := q0 \<rparr>)"
  have c: "PerfEventCache_body alloc True (perf_members\<lparr> pf_enable := True \<rparr>) = Some ?p0"
    using q0(1) by (simp add: PerfEventCache_body_def perf_members_def)
  have "perf_inv g (0 + length as) ?p0 [] [] []" using q0 by (simp add: perf_inv_def Perf_Start_def perf_members_def held_event_def Let_def)
  from perf_run_inv [OF this] c show ?thesis by (auto simp: perf_inv_def)
qed

text \<open>As the source has it the trace is never enabled: the constructor does nothing and nothing is ever recorded.\<close>

lemma trace_disabled:
  "PerfEventCache_construct alloc can_open = Some perf_members \<and>
     perf_run g as (perf_members, acc) = Some (perf_members, acc) \<and> pf_lines perf_members = []"
proof -
  have "perf_run g as (perf_members, acc) = Some (perf_members, acc)"
  proof (induction as)
    case (Cons a as)
    then show ?case
      by (cases a) (simp_all add: added_event_eq Run_step_def Perf_Shutdown_signal_def perf_members_def)
  qed simp
  then show ?thesis by (simp add: PerfEventCache_construct_def PerfEventCache_body_def perf_members_def)
qed

end
