(* ===== verification/DiscoveryListeners.thy ===== *)
theory DiscoveryListeners
  imports Prelude
begin

text \<open>
  The adapters between Fast RTPS and the topology (discovery/communication/): a callback behind a mutex, called from
  threads of Fast RTPS while another thread may destroy the listener.  Both listeners look at the callback before they
  take the mutex.
\<close>

text \<open>Where a call is: not begun; past the test; holding the mutex; returned; ended by \<open>bad_function_call\<close>, which an
  empty callback throws; or using a listener that is no longer there.\<close>

datatype 'm call_pc = CallIdle | CallTested 'm | CallLocked 'm | CallReturned | CallThrew | CallDangling

datatype dtor_pc = DtorIdle | DtorLocked | DtorCleared | Destroyed

datatype lock_holder = Free | HeldByCall nat | HeldByDtor

record ('m, 'a) listener =
  callback_set :: bool
  holder :: lock_holder
  call_at :: "nat \<Rightarrow> 'm call_pc"
  dtor :: dtor_pc
  called_with :: "'a list"

definition listener_construct :: "bool \<Rightarrow> ('m, 'a) listener" where
  "listener_construct has_callback = \<lparr> callback_set = has_callback, holder = Free, call_at = (\<lambda>_. CallIdle), dtor = DtorIdle,
     called_with = [] \<rparr>"

datatype 'm listener_action = Begin nat 'm | TakeLock nat | CallIt nat | DtorLock | DtorClear | DtorUnlock

definition set_call :: "nat \<Rightarrow> 'm call_pc \<Rightarrow> ('m, 'a) listener \<Rightarrow> ('m, 'a) listener" where
  "set_call i pc l = l\<lparr> call_at := (call_at l)(i := pc) \<rparr>"

text \<open>\<open>arg\<close>: what the callback is given for a message.  An action that is not possible changes nothing.\<close>

fun listener_step :: "('m \<Rightarrow> 'a) \<Rightarrow> 'm listener_action \<Rightarrow> ('m, 'a) listener \<Rightarrow> ('m, 'a) listener" where
  "listener_step arg (Begin i m) l =
     (case call_at l i of
        CallIdle \<Rightarrow>
          if dtor l = Destroyed then set_call i CallDangling l
          else if callback_set l then set_call i (CallTested m) l else set_call i CallReturned l
      | _ \<Rightarrow> l)"
| "listener_step arg (TakeLock i) l =
     (case call_at l i of
        CallTested m \<Rightarrow>
          if dtor l = Destroyed then set_call i CallDangling l
          else if holder l = Free then set_call i (CallLocked m) (l\<lparr> holder := HeldByCall i \<rparr>) else l
      | _ \<Rightarrow> l)"
| "listener_step arg (CallIt i) l =
     (case call_at l i of
        CallLocked m \<Rightarrow>
          if callback_set l
          then set_call i CallReturned (l\<lparr> holder := Free, called_with := called_with l @ [arg m] \<rparr>)
          else set_call i CallThrew (l\<lparr> holder := Free \<rparr>)
      | _ \<Rightarrow> l)"
| "listener_step arg DtorLock l =
     (if dtor l = DtorIdle \<and> holder l = Free then l\<lparr> holder := HeldByDtor, dtor := DtorLocked \<rparr> else l)"
| "listener_step arg DtorClear l = (if dtor l = DtorLocked then l\<lparr> callback_set := False, dtor := DtorCleared \<rparr> else l)"
| "listener_step arg DtorUnlock l = (if dtor l = DtorCleared then l\<lparr> holder := Free, dtor := Destroyed \<rparr> else l)"

text \<open>The participant's listener passes what was discovered.\<close>

definition onParticipantDiscovery :: "'i listener_action list \<Rightarrow> ('i, 'i) listener \<Rightarrow> ('i, 'i) listener" where
  "onParticipantDiscovery = fold (listener_step (\<lambda>info. info))"

text \<open>The reader's listener passes the first \<open>length\<close> bytes of the payload.\<close>

definition ReaderListener_onNewCacheChangeAdded ::
  "(u8 list \<times> u32) listener_action list \<Rightarrow> (u8 list \<times> u32, u8 list) listener \<Rightarrow> (u8 list \<times> u32, u8 list) listener" where
  "ReaderListener_onNewCacheChangeAdded = fold (listener_step (\<lambda>(data, len). take (unat len) data))"

section \<open>What holds while the listener lives\<close>

text \<open>The mutex is held by whom the program counters say, and the callback is there until the destructor clears it.\<close>

definition listener_inv :: "('m, 'a) listener \<Rightarrow> bool" where
  "listener_inv l \<longleftrightarrow>
     (\<forall>i m. call_at l i = CallLocked m \<longrightarrow> holder l = HeldByCall i) \<and>
     (dtor l \<in> {DtorLocked, DtorCleared} \<longleftrightarrow> holder l = HeldByDtor) \<and>
     (dtor l \<in> {DtorCleared, Destroyed} \<longrightarrow> \<not> callback_set l) \<and>
     (dtor l \<in> {DtorIdle, DtorLocked} \<longrightarrow> callback_set l) \<and>
     (\<forall>i. call_at l i \<noteq> CallThrew) \<and>
     (dtor l \<noteq> Destroyed \<longrightarrow> (\<forall>i. call_at l i \<noteq> CallDangling)) \<and>
     (dtor l = Destroyed \<longrightarrow> (\<forall>i m. call_at l i \<noteq> CallLocked m) \<and> holder l = Free)"

lemma listener_construct_inv: "listener_inv (listener_construct True)"
  by (auto simp: listener_inv_def listener_construct_def)

lemma locked_unique: "listener_inv l \<Longrightarrow> call_at l i = CallLocked m \<Longrightarrow> call_at l j = CallLocked n \<Longrightarrow> i = j"
  unfolding listener_inv_def by (metis lock_holder.inject)

lemma step_inv:
  assumes "listener_inv l" shows "listener_inv (listener_step arg a l)"
  using assms locked_unique [OF assms]
  by (cases a; cases "dtor l") (auto simp: listener_inv_def set_call_def split: call_pc.splits)

lemma run_inv: "listener_inv l \<Longrightarrow> listener_inv (fold (listener_step arg) as l)"
  by (induction as arbitrary: l) (auto simp: step_inv)

text \<open>A call never finds the callback empty once it holds the mutex of a living listener, two calls never run it at
  once, and while the listener lives no call is lost to it.\<close>

lemma live_listener_safe:
  assumes "l = fold (listener_step arg) as (listener_construct True)"
  shows "call_at l i \<noteq> CallThrew"
    and "call_at l i = CallLocked m \<Longrightarrow> call_at l j = CallLocked n \<Longrightarrow> i = j"
    and "dtor l \<noteq> Destroyed \<Longrightarrow> call_at l i \<noteq> CallDangling"
proof -
  have inv: "listener_inv l" using run_inv [OF listener_construct_inv, of arg as] assms by simp
  show "call_at l i \<noteq> CallThrew" "dtor l \<noteq> Destroyed \<Longrightarrow> call_at l i \<noteq> CallDangling" using inv by (auto simp: listener_inv_def)
  show "call_at l i = CallLocked m \<Longrightarrow> call_at l j = CallLocked n \<Longrightarrow> i = j" by (rule locked_unique [OF inv])
qed

text \<open>But a call that passed the test before the destructor ran goes on with a listener that is gone.\<close>

lemma tested_call_outlives_listener:
  "call_at (onParticipantDiscovery [Begin 0 info, DtorLock, DtorClear, DtorUnlock, TakeLock 0] (listener_construct True)) 0 = CallDangling"
  by (simp add: onParticipantDiscovery_def listener_construct_def set_call_def)

end
