(* ===== verification/Times.thy ===== *)
theory Times
  imports Prelude Numerals
begin

text \<open>
  Time points and durations in nanoseconds and the rate of a loop (time/time.h/.cpp, time/duration.h/.cpp,
  time/rate.h/.cpp).  A time point is an unsigned, a duration a signed word of 64 bits; adding a duration to a time
  point wraps, adding durations beyond their range is undefined (\<open>None\<close>).  Constructors from and conversions to
  floating point numbers are left out; the clock is an argument.
\<close>

type_synonym time_point = u64
type_synonym duration = "64 word"

section \<open>Durations\<close>

definition Duration_of_int :: "i32 \<Rightarrow> duration" where "Duration_of_int nanoseconds = scast nanoseconds"

definition Duration_of_parts :: "u32 \<Rightarrow> u32 \<Rightarrow> duration" where
  "Duration_of_parts seconds nanoseconds = ucast seconds * 1000000000 + ucast nanoseconds"

definition signed_result :: "int \<Rightarrow> duration option" where
  "signed_result i = (if - (2 ^ 63) \<le> i \<and> i < 2 ^ 63 then Some (word_of_int i) else None)"

definition Duration_add :: "duration \<Rightarrow> duration \<Rightarrow> duration option" where
  "Duration_add l r = signed_result (sint l + sint r)"

definition Duration_sub :: "duration \<Rightarrow> duration \<Rightarrow> duration option" where
  "Duration_sub l r = signed_result (sint l - sint r)"

definition Duration_neg :: "duration \<Rightarrow> duration option" where
  "Duration_neg l = signed_result (- sint l)"

definition Duration_IsZero :: "duration \<Rightarrow> bool" where "Duration_IsZero d \<longleftrightarrow> d = 0"
definition Duration_eq :: "duration \<Rightarrow> duration \<Rightarrow> bool" where "Duration_eq l r \<longleftrightarrow> l = r"
definition Duration_ne :: "duration \<Rightarrow> duration \<Rightarrow> bool" where "Duration_ne l r \<longleftrightarrow> l \<noteq> r"
definition Duration_gt :: "duration \<Rightarrow> duration \<Rightarrow> bool" where "Duration_gt l r \<longleftrightarrow> r <s l"
definition Duration_lt :: "duration \<Rightarrow> duration \<Rightarrow> bool" where "Duration_lt l r \<longleftrightarrow> l <s r"
definition Duration_ge :: "duration \<Rightarrow> duration \<Rightarrow> bool" where "Duration_ge l r \<longleftrightarrow> r \<le>s l"
definition Duration_le :: "duration \<Rightarrow> duration \<Rightarrow> bool" where "Duration_le l r \<longleftrightarrow> l \<le>s r"

section \<open>Time points\<close>

definition Time_MAX :: time_point where "Time_MAX = - 1"
definition Time_MIN :: time_point where "Time_MIN = 0"

definition Time_of_int :: "i32 \<Rightarrow> time_point" where "Time_of_int nanoseconds = scast nanoseconds"

definition Time_of_parts :: "u32 \<Rightarrow> u32 \<Rightarrow> time_point" where
  "Time_of_parts seconds nanoseconds = ucast seconds * 1000000000 + ucast nanoseconds"

definition Time_IsZero :: "time_point \<Rightarrow> bool" where "Time_IsZero t \<longleftrightarrow> t = 0"
definition Time_diff :: "time_point \<Rightarrow> time_point \<Rightarrow> duration" where "Time_diff l r = l - r"
definition Time_plus :: "time_point \<Rightarrow> duration \<Rightarrow> time_point" where "Time_plus l d = l + d"
definition Time_minus :: "time_point \<Rightarrow> duration \<Rightarrow> time_point" where "Time_minus l d = l - d"
definition Time_eq :: "time_point \<Rightarrow> time_point \<Rightarrow> bool" where "Time_eq l r \<longleftrightarrow> l = r"
definition Time_ne :: "time_point \<Rightarrow> time_point \<Rightarrow> bool" where "Time_ne l r \<longleftrightarrow> l \<noteq> r"
definition Time_gt :: "time_point \<Rightarrow> time_point \<Rightarrow> bool" where "Time_gt l r \<longleftrightarrow> r < l"
definition Time_lt :: "time_point \<Rightarrow> time_point \<Rightarrow> bool" where "Time_lt l r \<longleftrightarrow> l < r"
definition Time_ge :: "time_point \<Rightarrow> time_point \<Rightarrow> bool" where "Time_ge l r \<longleftrightarrow> r \<le> l"
definition Time_le :: "time_point \<Rightarrow> time_point \<Rightarrow> bool" where "Time_le l r \<longleftrightarrow> l \<le> r"

text \<open>\<open>localtime\<close> gives the date and the time of day of whole seconds as text, if it can.\<close>

definition Time_ToString :: "(nat \<Rightarrow> u8 list option) \<Rightarrow> (time_point \<Rightarrow> u8 list) \<Rightarrow> time_point \<Rightarrow> u8 list" where
  "Time_ToString localtime as_seconds t =
     (case localtime (unat t div 1000000000) of
        None \<Rightarrow> as_seconds t
      | Some date_time \<Rightarrow>
          (let frac = digits (unat t mod 1000000000)
           in date_time @ [46] @ replicate (9 - length frac) 48 @ frac))"

section \<open>Rates\<close>

record rate =
  rt_start :: time_point
  expected_cycle_time :: duration
  actual_cycle_time :: duration

definition Rate_construct :: "time_point \<Rightarrow> duration \<Rightarrow> rate" where
  "Rate_construct now d = \<lparr> rt_start = now, expected_cycle_time = d, actual_cycle_time = 0 \<rparr>"

text \<open>\<open>now\<close> is what the clock shows; the result is the time to sleep until, if the loop sleeps.\<close>

definition Rate_Sleep :: "time_point \<Rightarrow> rate \<Rightarrow> time_point option \<times> rate" where
  "Rate_Sleep now r =
     (let actual_end = now;
          expected_end = (if Time_lt actual_end (rt_start r) then Time_plus actual_end (expected_cycle_time r)
                          else Time_plus (rt_start r) (expected_cycle_time r));
          sleep_time = Time_diff expected_end actual_end;
          r1 = r\<lparr> actual_cycle_time := Time_diff actual_end (rt_start r), rt_start := expected_end \<rparr>
      in if Duration_lt sleep_time 0
         then (None, if Time_gt actual_end (Time_plus expected_end (expected_cycle_time r1)) then r1\<lparr> rt_start := actual_end \<rparr> else r1)
         else (Some expected_end, r1))"

definition Rate_Reset :: "time_point \<Rightarrow> rate \<Rightarrow> rate" where
  "Rate_Reset now r = r\<lparr> rt_start := now \<rparr>"

definition CycleTime :: "rate \<Rightarrow> duration" where "CycleTime r = actual_cycle_time r"
definition ExpectedCycleTime :: "rate \<Rightarrow> duration" where "ExpectedCycleTime r = expected_cycle_time r"

section \<open>A rate keeps its pace\<close>

text \<open>The same on natural numbers: \<open>s\<close> is when the cycle started, \<open>d\<close> its length, \<open>a\<close> the time now.\<close>

definition pace :: "nat \<Rightarrow> nat \<Rightarrow> nat \<Rightarrow> nat option \<times> nat" where
  "pace d a s =
     (if a < s then (Some (a + d), a + d)
      else if a \<le> s + d then (Some (s + d), s + d)
      else if a \<le> s + 2 * d then (None, s + d)
      else (None, a))"

lemma uint_small: "unat (w :: u64) < 2 ^ n \<Longrightarrow> uint w < 2 ^ n"
proof -
  assume "unat w < 2 ^ n"
  then have "int (unat w) < int (2 ^ n)" by (simp only: of_nat_less_iff)
  then show ?thesis by simp
qed

lemma negative_difference:
  fixes x y :: u64
  assumes "unat x < 2 ^ 63" "unat y < 2 ^ 63"
  shows "x - y <s 0 \<longleftrightarrow> unat x < unat y"
proof -
  have u: "uint x < 2 ^ 63" "uint y < 2 ^ 63" "0 \<le> uint x" "0 \<le> uint y" using assms by (simp_all only: uint_small uint_ge_0)
  then have r: "- (2 ^ 63) \<le> uint x - uint y" "uint x - uint y < 2 ^ 63" by linarith+
  have "x - y = word_of_int (uint x - uint y)" by simp
  then have "sint (x - y) = signed_take_bit 63 (uint x - uint y)" by (simp only: signed_of_int) simp
  also have "\<dots> = uint x - uint y" using r by (intro signed_take_bit_int_eq_self)
  finally have "x - y <s 0 \<longleftrightarrow> uint x < uint y" by (simp add: word_sless_alt)
  then show ?thesis by (simp add: word_less_def flip: word_less_nat_alt)
qed

lemma unat_plus_small:
  fixes x y :: u64
  assumes "unat x + unat y < 2 ^ 64"
  shows "unat (x + y) = unat x + unat y"
  using assms by (simp add: unat_word_ariths)

lemma pace_le: "snd (pace d a s) \<le> a + d"
  by (auto simp: pace_def)

lemma Rate_Sleep_pace:
  assumes "unat a < 2 ^ 62" "unat (rt_start r) < 2 ^ 62 + 2 ^ 60" "unat (expected_cycle_time r) < 2 ^ 60"
  shows "map_option unat (fst (Rate_Sleep a r)) = fst (pace (unat (expected_cycle_time r)) (unat a) (unat (rt_start r))) \<and>
    unat (rt_start (snd (Rate_Sleep a r))) = snd (pace (unat (expected_cycle_time r)) (unat a) (unat (rt_start r))) \<and>
    expected_cycle_time (snd (Rate_Sleep a r)) = expected_cycle_time r"
proof -
  let ?s = "rt_start r" and ?d = "expected_cycle_time r"
  have q: "unat (a + ?d) = unat a + unat ?d" "unat (?s + ?d) = unat ?s + unat ?d"
    using assms by (simp_all add: unat_plus_small)
  then have "unat (?s + ?d + ?d) = unat ?s + unat ?d + unat ?d"
    using assms by (subst unat_plus_small) simp_all
  moreover have "?s + ?d + ?d = 2 * ?d + ?s" by simp
  ultimately have q2: "unat (2 * ?d + ?s) = unat ?s + unat ?d + unat ?d" by simp
  note p = q q2
  have n: "?s + ?d - a <s 0 \<longleftrightarrow> unat ?s + unat ?d < unat a" "\<not> ?d <s 0"
    using assms negative_difference [of "?s + ?d" a] negative_difference [of "a + ?d" a] by (simp_all add: p)
  show ?thesis
    by (simp add: Rate_Sleep_def pace_def Let_def Time_lt_def Time_plus_def Time_diff_def Duration_lt_def Time_gt_def
        word_less_nat_alt p n)
qed

text \<open>A loop: \<open>Sleep\<close> is called when the clock shows the times of the list.\<close>

primrec rate_run :: "time_point list \<Rightarrow> rate \<Rightarrow> time_point option list \<times> rate" where
  "rate_run [] r = ([], r)"
| "rate_run (now # nows) r =
     (let (slept, r1) = Rate_Sleep now r; (rest, r2) = rate_run nows r1 in (slept # rest, r2))"

primrec pace_run :: "nat \<Rightarrow> nat list \<Rightarrow> nat \<Rightarrow> nat option list \<times> nat" where
  "pace_run d [] s = ([], s)"
| "pace_run d (a # as) s = (let (slept, s1) = pace d a s; (rest, s2) = pace_run d as s1 in (slept # rest, s2))"

lemma rate_run_pace:
  assumes "\<forall>t \<in> set nows. unat t < 2 ^ 62" "unat (rt_start r) < 2 ^ 62 + 2 ^ 60" "unat (expected_cycle_time r) < 2 ^ 60"
  shows "map (map_option unat) (fst (rate_run nows r)) = fst (pace_run (unat (expected_cycle_time r)) (map unat nows) (unat (rt_start r))) \<and>
    unat (rt_start (snd (rate_run nows r))) = snd (pace_run (unat (expected_cycle_time r)) (map unat nows) (unat (rt_start r)))"
  using assms
proof (induction nows arbitrary: r)
  case (Cons a nows)
  obtain slept r1 where r1: "Rate_Sleep a r = (slept, r1)" by (cases "Rate_Sleep a r")
  have st: "map_option unat slept = fst (pace (unat (expected_cycle_time r)) (unat a) (unat (rt_start r)))"
    "unat (rt_start r1) = snd (pace (unat (expected_cycle_time r)) (unat a) (unat (rt_start r)))"
    "expected_cycle_time r1 = expected_cycle_time r"
    using Rate_Sleep_pace [of a r] Cons.prems r1 by simp_all
  have "unat (rt_start r1) < 2 ^ 62 + 2 ^ 60"
    using pace_le [of "unat (expected_cycle_time r)" "unat a" "unat (rt_start r)"] Cons.prems(1,3) unfolding st(2) by simp
  then show ?case using Cons.IH [of r1] Cons.prems st r1 by (simp add: Let_def case_prod_unfold)
qed simp

lemma pace_run_grid:
  assumes "\<forall>k < length as. s + k * d \<le> as ! k \<and> as ! k \<le> s + (k + 2) * d"
  shows "pace_run d as s =
    (map (\<lambda>k. if as ! k \<le> s + (k + 1) * d then Some (s + (k + 1) * d) else None) [0..<length as], s + length as * d)"
  using assms
proof (induction as arbitrary: s)
  case (Cons a as)
  have a: "s \<le> a" "a \<le> s + 2 * d" using Cons.prems [rule_format, of 0] by simp_all
  have p: "pace d a s = (if a \<le> s + d then Some (s + d) else None, s + d)" using a by (simp add: pace_def)
  have "\<forall>k < length as. (s + d) + k * d \<le> as ! k \<and> as ! k \<le> (s + d) + (k + 2) * d"
  proof (intro allI impI)
    fix k assume "k < length as"
    then show "(s + d) + k * d \<le> as ! k \<and> as ! k \<le> (s + d) + (k + 2) * d"
      using Cons.prems [rule_format, of "Suc k"] by simp
  qed
  note IH = Cons.IH [OF this]
  have l: "[0..<length (a # as)] = 0 # map Suc [0..<length as]" by (simp add: upt_conv_Cons map_Suc_upt del: upt_Suc)
  show ?case unfolding pace_run.simps p Let_def case_prod_conv IH l by (simp add: add.assoc)
qed simp

lemma rate_run_bound:
  assumes "\<forall>t \<in> set nows. unat t < 2 ^ 62" "unat (rt_start r) < 2 ^ 62 + 2 ^ 60" "unat (expected_cycle_time r) < 2 ^ 60"
  shows "unat (rt_start (snd (rate_run nows r))) < 2 ^ 62 + 2 ^ 60 \<and>
    expected_cycle_time (snd (rate_run nows r)) = expected_cycle_time r"
  using assms
proof (induction nows arbitrary: r)
  case (Cons a nows)
  have "unat (rt_start (snd (Rate_Sleep a r))) < 2 ^ 62 + 2 ^ 60" "expected_cycle_time (snd (Rate_Sleep a r)) = expected_cycle_time r"
    using Rate_Sleep_pace [of a r] pace_le [of "unat (expected_cycle_time r)" "unat a" "unat (rt_start r)"] Cons.prems by auto
  then show ?case using Cons.IH [of "snd (Rate_Sleep a r)"] Cons.prems by (simp add: Let_def case_prod_unfold)
qed simp

text \<open>C40: A loop that calls \<open>Sleep\<close> once in each turn, after any turns \<open>as\<close>, with the cycle to begin at \<open>s\<close>.  If the work of
  each following turn \<open>k\<close> ends after the turn began and no later than a cycle after it should have ended, there is no drift:
  turn \<open>k\<close> starts exactly \<open>k\<close> cycles after \<open>s\<close>, a turn that is in time sleeps until then, one that is late by up to a cycle
  does not sleep, and the turns after it catch up.  Outside of that the grid is moved: a turn that ends more than a
  cycle late does not sleep, and the next one begins where it ended; a clock that went back before the beginning of the turn
  makes it sleep a whole cycle, and the next one begins after that.  (Times are below \<open>2^62\<close> nanoseconds.)\<close>

theorem rate_keeps_grid:
  assumes "\<forall>t \<in> set (as @ bs). unat t < 2 ^ 62" "unat start < 2 ^ 62" "unat d < 2 ^ 60"
    and "r = snd (rate_run as (Rate_construct start d))" "s = unat (rt_start r)"
  shows "((\<forall>k < length bs. s + k * unat d \<le> unat (bs ! k) \<and> unat (bs ! k) \<le> s + (k + 2) * unat d) \<longrightarrow>
      map (map_option unat) (fst (rate_run bs r)) =
        map (\<lambda>k. if unat (bs ! k) \<le> s + (k + 1) * unat d then Some (s + (k + 1) * unat d) else None) [0..<length bs] \<and>
      unat (rt_start (snd (rate_run bs r))) = s + length bs * unat d) \<and>
    (\<forall>a. unat a < 2 ^ 62 \<and> s + 2 * unat d < unat a \<longrightarrow>
      fst (Rate_Sleep a r) = None \<and> unat (rt_start (snd (Rate_Sleep a r))) = unat a) \<and>
    (\<forall>a. unat a < s \<and> unat a < 2 ^ 62 \<longrightarrow>
      map_option unat (fst (Rate_Sleep a r)) = Some (unat a + unat d) \<and> unat (rt_start (snd (Rate_Sleep a r))) = unat a + unat d)"
proof -
  have b: "s < 2 ^ 62 + 2 ^ 60" "expected_cycle_time r = d"
    using rate_run_bound [of as "Rate_construct start d"] assms by (auto simp: Rate_construct_def)
  note sl = Rate_Sleep_pace [of _ r, unfolded b(2), folded assms(5), OF _ b(1) assms(3)]
  have "map (map_option unat) (fst (rate_run bs r)) = fst (pace_run (unat d) (map unat bs) s) \<and>
    unat (rt_start (snd (rate_run bs r))) = snd (pace_run (unat d) (map unat bs) s)"
    using rate_run_pace [of bs r] assms(1,3) b by (auto simp: assms(5))
  moreover have "fst (Rate_Sleep a r) = None \<and> unat (rt_start (snd (Rate_Sleep a r))) = unat a"
    if "unat a < 2 ^ 62" "s + 2 * unat d < unat a" for a using sl [OF that(1)] that(2) by (simp add: pace_def)
  moreover have "map_option unat (fst (Rate_Sleep a r)) = Some (unat a + unat d) \<and> unat (rt_start (snd (Rate_Sleep a r))) = unat a + unat d"
    if "unat a < s" "unat a < 2 ^ 62" for a using sl [OF that(2)] that(1) by (simp add: pace_def)
  ultimately show ?thesis using pace_run_grid [of "map unat bs" s "unat d"] by (auto intro!: map_cong)
qed

text \<open>A cycle of 100 that starts at 1000: a turn that ends at 1550 begins the grid again there; then turns that end at
  1600, 1800 (late) and 1810.\<close>

theorem rate_keeps_grid_witness:
  "map (map_option unat) (fst (rate_run [1600, 1800, 1810] (snd (rate_run [1550] (Rate_construct 1000 100))))) = [Some 1650, None, Some 1850] \<and>
   unat (rt_start (snd (rate_run [1600, 1800, 1810] (snd (rate_run [1550] (Rate_construct 1000 100)))))) = 1850"
proof -
  have s: "unat (rt_start (snd (rate_run [1550] (Rate_construct 1000 100)))) = 1550"
    by (simp add: Rate_Sleep_def Rate_construct_def Time_lt_def Time_plus_def Time_diff_def Duration_lt_def Time_gt_def word_sless_alt)
  have "\<forall>k < length [1600, 1800, 1810 :: u64]. 1550 + k * unat (100 :: u64) \<le> unat ([1600, 1800, 1810 :: u64] ! k) \<and>
      unat ([1600, 1800, 1810 :: u64] ! k) \<le> 1550 + (k + 2) * unat (100 :: u64)"
    by (simp add: less_Suc_eq all_conj_distrib numeral_3_eq_3)
  then show ?thesis
    using rate_keeps_grid [of "[1550]" "[1600, 1800, 1810]" 1000 100, OF _ _ _ refl s [symmetric]]
    by (simp add: upt_rec del: rate_run.simps)
qed

end
