(* ===== verification/Spec2Isabelle.thy ===== *)
theory Spec2Isabelle
  imports BoundedQueueConc RoutineWakeup Topology SchedulingProps ThreadPool AtomicHashMap UnboundedQueueConc ObjectPools RWLock SignalSlot
    Managers Dispatcher Blocker ShmDelivery PubSubProps NotifierLife Startup ThreadAttrs PerfTrace DiscoveryListeners Times
begin

text \<open>
  RCMW is a robot middleware in C++: the nodes of several processes publish and subscribe to named channels, over
  shared memory within a host and over RTPS between hosts, and every subscriber is a coroutine of a user-space
  scheduler.  This development models the logic of the repository and proves what makes its parts correct, and
  where they are not, what they do instead.

  \<^bold>\<open>The program and how its parts interact.\<close>  \<open>Node\<close> makes publishers and subscribers (node/).  Both announce
  themselves to the channel manager, and nodes to the node manager, of the topology manager (discovery/), which
  spreads joins and leaves over RTPS, keeps who is where in warehouses and a graph, and tells its change listeners.
  A publisher enables its transmitter when it is told of a reader.  Transmitters write messages to blocks of a
  shared memory segment and notify a ring (transport/shm), or hand them to Fast RTPS (transport/rtps); a dispatcher of
  each process reads them and runs the listeners of the channel (transport/dispatcher, transport/message).  A
  listener of a subscriber passes the message to the data dispatcher, which fills the buffers of the channel and
  calls notifiers (data/); these wake the subscriber's coroutine (croutine/, scheduler/), which fetches from its
  buffer, publishes to the subscriber's blocker (blocker/) and calls the callback.  Below all this lie lock-free
  containers, pools, locks and signals (base/), serialization (serialize/, config/), and the name registers
  (common/).

  \<^bold>\<open>Theories and sources.\<close>  \<open>Prelude\<close>: machine integers, shared lemmas, the interfaces \<open>fifo\<close> and \<open>map_store\<close>.
  \<open>Numerals\<close>: decimal conversions and splitting of the standard library.
  base/: \<open>BoundedQueue\<close> and \<open>BoundedQueueConc\<close> (bounded_queue.h, wait_srategy.h), \<open>UnboundedQueue\<close> (one thread)
  and \<open>UnboundedQueueConc\<close> (many producers, its interleavings; unbounded_queue.h), \<open>AtomicHashMap\<close>, \<open>ObjectPools\<close> (object_pool.h, concurrent_object_pool.h), \<open>RWLock\<close> (atomic_rw_lock.h), \<open>SignalSlot\<close>, \<open>ThreadPool\<close>.
  serialize/ and config/: \<open>DataStream\<close> (writing and reading primitives, the interface \<open>codec\<close>), \<open>Codecs\<close> (each type),
  \<open>ConfigMsgs\<close> (QosProfile, RoleAttributes, ChangeMsg, Chatter).
  common/: \<open>GlobalData\<close> (name registers, paths).  state.h, init.cpp: \<open>RuntimeState\<close>.
  data/: \<open>DataBuffers\<close> (cache_buffer.h, channel_buffer.h), \<open>DataPlane\<close> (visitors), \<open>Dispatcher\<close> (data_dispatcher.h,
  data_notifier.h, all_latest.h).  blocker/: \<open>Blocker\<close>.
  croutine/: \<open>RoutineContext\<close> (the switch of stacks, swap_x86_64.s), \<open>Croutine\<close> (croutine.h/.cpp, croutine_factory.h),
  \<open>RoutineWakeup\<close> (its interleaving with notifiers and processors).
  scheduler/: \<open>Scheduling\<close>, \<open>SchedulingProps\<close> (scheduler.cpp, policy/, pin_thread.cpp, processor.cpp).
  discovery/: \<open>Warehouse\<close> (container/, role/), \<open>Graph\<close>, \<open>Managers\<close> (specific_manager/), \<open>Topology\<close> (topology_manager.cpp).
  transport/: \<open>ShmConf\<close> (shm_conf, block, state), \<open>ShmSegment\<close> and \<open>ShmSegmentProps\<close> (segment, xsi_segment, posix_segment),
  \<open>ShmNotifier\<close> (condition_notifier, readable_info), \<open>Listeners\<close> (identity, message_info, listener_handler,
  dispatcher), \<open>ShmTransport\<close> (endpoint, transmitter, shm_transmitter, shm_dispatcher, receivers) and \<open>ShmDelivery\<close>,
  \<open>RtpsTransport\<close> (qos_profile_conf, attributes_filler, participant, rtps_transmitter, rea_listener, rtps_dispatcher).
  node/ and transport.h: \<open>PubSub\<close>, \<open>PubSubProps\<close>.  time/: \<open>Times\<close>.
  \<open>NotifierLife\<close> (notifier_factory, how notifiers are opened and given up, multicast_notifier).  task/: \<open>Tasks\<close>.
  \<open>ThreadAttrs\<close> (pin_thread.cpp, the report of the scheduler), \<open>ConfParse\<close> (conf_parse.cpp, scheduler_factory.cpp),
  \<open>Logging\<close> (logger/), \<open>PerfTrace\<close> (event/), \<open>Startup\<close> (global_data.cpp, init.cpp), \<open>DiscoveryListeners\<close>
  (discovery/communication/).

  \<^bold>\<open>How code and definitions correspond.\<close>  A class is a record of its members, a member function is a function of
  the state with the source's name (a suffix tells overloads apart, a prefix classes), an enumeration is a datatype, an integer of
  the source is a word of its width.  Exceptions, undefined behaviour and calls that do not return are \<open>None\<close>
  where a definition gives an option.  Threads are step relations whose steps are the atomic accesses of the
  source (bounded and unbounded queue, hash map, pools, lock, thread pool, coroutine wake-up, notification ring, and
  the calls of a notifier against its shutdown).  Elsewhere a call is one step.  Where the source holds a mutex for
  the call that loses nothing; for the calls on a segment and for the making of a notifier the source holds none,
  so the theorems about them are about whole calls one after the other, and \<open>early_opener\<close> shows what an opener
  that comes between the halves of a creation reads.

  \<^bold>\<open>What the lemmas show.\<close>  Containers refine lists and maps under any interleaving that is modelled
  (\<open>concurrent_queue_fifo\<close>, \<open>hash_map_is_map\<close>, \<open>concurrent_insert_linearizable\<close>, \<open>rw_lock_exclusion\<close>,
  \<open>cc_pool_exclusive\<close>; \<open>one_consumer_queue_safe\<close> for any number of producers and one consumer, beside
  \<open>two_consumers_use_freed_node\<close>).  Serialization is a family of codecs that compose, so messages round trip with any
  byte order (\<open>map_round_trip\<close>, \<open>change_messages_round_trip\<close>).  Topologies replicate what fits the payload
  (\<open>discovery_replicates\<close>), and the graph answers reachability while its keys do not collide
  (\<open>flow_direction_correct\<close>).  Readers get messages in order: from the one their first fetch returns on, all of them
  or an overflow is reported (\<open>visitor_reads_in_order\<close>, \<open>dispatch_reaches_registered\<close>).  Coroutines run exclusively, by
  priority, and no wake-up is lost (\<open>routine_exclusive\<close>, \<open>next_routine_highest\<close>, \<open>no_lost_wakeup\<close>,
  \<open>context_switch_round_trip\<close>).  Segments stay whole under failing system calls and replacement by other processes
  (\<open>segments_stay_whole\<close>), the notification ring refines a queue for a listener that starts on a used ring and is not
  lapped (\<open>listen_in_order\<close>), and a reader that keeps pace with its writer gets every message, with the listeners of
  both sides, end to end (\<open>shm_delivery\<close>, \<open>rtps_delivery\<close>).  Calls on a notifier touch a mapped ring while each ends
  within the pause of the shutdown (\<open>notifier_mapped_or_shut\<close>, beside \<open>late_call_uses_unmapped_ring\<close>).  When a
  publisher sends at all is \<open>publisher_enabled_iff\<close>.

  \<^bold>\<open>Bounds and fuel.\<close>  No definition of code has fuel: loops are structural recursion, recursion with a measure, or
  \<open>partial_function (option)\<close> with a theorem that says when they return (\<open>registered_ids_unique\<close>, \<open>writable_block_found\<close>,
  \<open>show_object_diverges\<close>).  Of the specifications only \<open>trail\<close>, which lists the nodes of an unbounded queue, counts
  down, from the number of addresses used so far, which no chain of distinct nodes exceeds.  Bounds in hypotheses
  are those of the machine types and of the source: fewer than \<open>2^64\<close> operations on a queue, fewer than \<open>2^31\<close> changes
  heard by a publisher, messages up to 32 MB in a segment and up to 255 bytes in the payload requested of Fast RTPS
  (a longer one is undefined behaviour, \<open>None\<close>).

  \<^bold>\<open>Parameters.\<close>  Code that is not in the repository is an argument: \<open>std::hash\<close>, uuids, clocks, host name and process id,
  histories and participants of Fast RTPS, what the JSON library reads, and which system calls fail.

  \<^bold>\<open>Not modelled.\<close>  Signal handlers and what the operating system does with policies and affinities.  Memory orders
  weaker than sequential consistency, and conversions from and to floating point (time/).  Steps of different
  processes inside one call on a segment, apart from \<open>early_opener\<close>.  Macros, tests and the vendored JSON library are left out.
\<close>

end
